(* ===== verification/C_Runtime.thy ===== *)
theory C_Runtime
  imports Main "HOL-Library.Word"
begin

text \<open>
  The prelude of the development. It holds what every component shares: the
  \<^theory_text>\<open>named_theorems\<close> collections, the names of the C integer types, the
  result codes with the early-return discipline of the \<open>NCCLCHECK\<close> macro, and the part of the C
  library the sources call on strings (\<open>strcasecmp\<close>, \<open>strtok\<close>, \<open>strtoull\<close>, \<open>strtol\<close>,
  \<open>atoi\<close>, \<open>fgets\<close>), as executable functions on \<^typ>\<open>string\<close>.
\<close>

named_theorems c_string \<open>facts on the C string functions\<close>
named_theorems nccl_check \<open>unfolding the early return of NCCLCHECK\<close>

type_synonym u8 = "8 word"
type_synonym u16 = "16 word"
type_synonym u32 = "32 word"
type_synonym u64 = "64 word"
type_synonym size_t = "64 word"

section \<open>C integers\<close>

text \<open>The conversion \<open>(int)x\<close> of a \<open>size_t\<close>: the low 32 bits read as two's complement.\<close>

definition int_of_size :: "size_t \<Rightarrow> int" where
  "int_of_size x = sint (ucast x :: u32)"

text \<open>The conversion \<open>(int)x\<close> of a \<open>long\<close>.\<close>

definition int_of_long :: "int \<Rightarrow> int" where
  "int_of_long x = sint (word_of_int x :: u32)"

text \<open>Integer division of C truncates towards zero. \<open>c_div\<close> is \<open>None\<close> on a zero divisor,
  where the program traps.\<close>

definition c_quot :: "int \<Rightarrow> int \<Rightarrow> int" where
  "c_quot a b = sgn a * sgn b * (\<bar>a\<bar> div \<bar>b\<bar>)"

definition c_div :: "int \<Rightarrow> int \<Rightarrow> int option" where
  "c_div a b = (if b = 0 then None else Some (c_quot a b))"

lemma sint_eq_int_unat:
  fixes w :: u32
  assumes "unat w < 2 ^ 31"
  shows "sint w = int (unat w)"
proof -
  have e: "uint w = int (unat w)" by simp
  have "int (unat w) < int (2 ^ 31)" using assms by (rule of_nat_less_iff [THEN iffD2])
  then have u: "uint w < 2 ^ 31" unfolding e by simp
  have "sint w = signed_take_bit 31 (uint w)" by (rule trans [OF sint_uint]) simp
  also have "\<dots> = uint w"
    using u by (intro signed_take_bit_int_eq_self) (auto intro: order_trans [OF _ uint_ge_0])
  finally show ?thesis by simp
qed

lemma int_of_size_small: "unat x < 2 ^ 31 \<Longrightarrow> int_of_size x = int (unat x)"
proof -
  assume a: "unat x < 2 ^ 31"
  have "unat (ucast x :: u32) = unat x"
    using a by (simp add: unsigned_ucast_eq take_bit_nat_eq_self)
  moreover from this a have "sint (ucast x :: u32) = int (unat (ucast x :: u32))"
    by (intro sint_eq_int_unat) auto
  ultimately show ?thesis by (simp add: int_of_size_def)
qed

lemma c_div_nonneg: "0 \<le> a \<Longrightarrow> 0 < b \<Longrightarrow> c_div a b = Some (a div b)"
  by (cases "a = 0") (auto simp: c_div_def c_quot_def)

section \<open>Result codes\<close>

text \<open>
  \<open>ncclResult_t\<close>: the seven codes of \<open>tuner/nccl/err.h\<close>, and \<open>ncclInProgress\<close>, which the
  macros of \<open>net/include/checks.h\<close> treat like success.
\<close>

datatype ncclResult =
    ncclSuccess | ncclUnhandledCudaError | ncclSystemError | ncclInternalError
  | ncclInvalidArgument | ncclInvalidUsage | ncclRemoteError | ncclInProgress

text \<open>
  A function that may fail after it has changed the state returns the code beside the state it
  left. \<open>NCCLCHECK(call)\<close> returns from the caller with the callee's code and state unless the
  code is \<open>ncclSuccess\<close> or \<open>ncclInProgress\<close>.
\<close>

definition nccl_ok :: "ncclResult \<Rightarrow> bool" where
  "nccl_ok r \<longleftrightarrow> r = ncclSuccess \<or> r = ncclInProgress"

definition NCCLCHECK :: "ncclResult \<times> 's \<Rightarrow> ('s \<Rightarrow> ncclResult \<times> 's) \<Rightarrow> ncclResult \<times> 's" where
  "NCCLCHECK c k = (if nccl_ok (fst c) then k (snd c) else c)"

lemma NCCLCHECK_simps [simp, nccl_check]:
  "NCCLCHECK (ncclSuccess, s) k = k s"
  "NCCLCHECK (ncclInProgress, s) k = k s"
  "NCCLCHECK (ncclSystemError, s) k = (ncclSystemError, s)"
  "NCCLCHECK (ncclInternalError, s) k = (ncclInternalError, s)"
  "NCCLCHECK (ncclRemoteError, s) k = (ncclRemoteError, s)"
  "NCCLCHECK (ncclInvalidUsage, s) k = (ncclInvalidUsage, s)"
  by (simp_all add: NCCLCHECK_def nccl_ok_def)

lemma NCCLCHECK_success:
  assumes "NCCLCHECK c k = (ncclSuccess, t)"
  obtains s r where "c = (r, s)" "nccl_ok r" "k s = (ncclSuccess, t)"
  using assms by (cases c) (auto simp: NCCLCHECK_def nccl_ok_def split: if_splits)

section \<open>C strings\<close>

definition is_space :: "char \<Rightarrow> bool" where
  "is_space c \<longleftrightarrow> (of_char c :: nat) = 32 \<or> (9 \<le> (of_char c :: nat) \<and> (of_char c :: nat) \<le> 13)"

definition is_digit :: "char \<Rightarrow> bool" where
  "is_digit c \<longleftrightarrow> 48 \<le> (of_char c :: nat) \<and> (of_char c :: nat) \<le> 57"

definition tolower :: "char \<Rightarrow> char" where
  "tolower c = (if 65 \<le> (of_char c :: nat) \<and> (of_char c :: nat) \<le> 90
                then char_of ((of_char c :: nat) + 32) else c)"

text \<open>\<open>strcasecmp(s, t) == 0\<close>\<close>

definition strcasecmp_eq :: "string \<Rightarrow> string \<Rightarrow> bool" where
  "strcasecmp_eq s t \<longleftrightarrow> map tolower s = map tolower t"

text \<open>The C string a byte buffer holds ends before its first NUL.\<close>

definition c_str :: "string \<Rightarrow> string" where
  "c_str s = takeWhile (\<lambda>c. c \<noteq> CHR 0x00) s"

subsection \<open>Numbers\<close>

definition digit_val :: "char \<Rightarrow> nat" where
  "digit_val c = of_char c - 48"

definition digits_val :: "string \<Rightarrow> nat" where
  "digits_val ds = foldl (\<lambda>a c. 10 * a + digit_val c) 0 ds"

text \<open>Leading white space and sign of the \<open>strto*\<close> family.\<close>

definition take_sign :: "string \<Rightarrow> bool \<times> string" where
  "take_sign s = (case s of
      [] \<Rightarrow> (False, [])
    | c # cs \<Rightarrow> if c = CHR ''-'' then (True, cs)
                else if c = CHR ''+'' then (False, cs) else (False, c # cs))"

definition skip_sign :: "string \<Rightarrow> bool \<times> string" where
  "skip_sign s = take_sign (dropWhile is_space s)"

text \<open>\<open>strtoull(s, NULL, 10)\<close>: saturates at \<open>ULLONG_MAX\<close>; a minus sign negates modulo \<open>2^64\<close>.\<close>

definition strtoull10 :: "string \<Rightarrow> u64" where
  "strtoull10 s = (let (neg, t) = skip_sign s; ds = takeWhile is_digit t; v = digits_val ds in
     if v \<ge> 2 ^ 64 then - 1
     else if neg then - word_of_nat v else word_of_nat v)"

text \<open>\<open>strtol(s, &end, 10)\<close>: \<open>None\<close> when no digit was consumed (\<open>end == s\<close>), else the value
  clamped to the range of \<open>long\<close>.\<close>

definition strtol10 :: "string \<Rightarrow> int option" where
  "strtol10 s = (let (neg, t) = skip_sign s; ds = takeWhile is_digit t; v = int (digits_val ds) in
     if ds = [] then None
     else if neg then Some (max (- (2 ^ 63)) (- v)) else Some (min (2 ^ 63 - 1) v))"

text \<open>\<open>atoi(s)\<close> is \<open>(int)strtol(s, NULL, 10)\<close>.\<close>

definition atoi :: "string \<Rightarrow> int" where
  "atoi s = int_of_long (case strtol10 s of None \<Rightarrow> 0 | Some v \<Rightarrow> v)"

lemma atoi_range: "- (2 ^ 31) \<le> atoi s \<and> atoi s < 2 ^ 31"
proof -
  define w :: u32 where "w = word_of_int (case strtol10 s of None \<Rightarrow> 0 | Some v \<Rightarrow> v)"
  have "atoi s = sint w" by (simp add: atoi_def int_of_long_def w_def)
  moreover have "- (2 ^ 31) \<le> sint w" using sint_ge [of w] by simp
  moreover have "sint w < 2 ^ 31" using sint_lt [of w] by simp
  ultimately show ?thesis by simp
qed

subsection \<open>Splitting\<close>

text \<open>
  \<open>strtok(s, ",")\<close> iterated to \<open>NULL\<close>: the maximal non-empty runs without the delimiter.
  Adjacent delimiters count as one, as in C.
\<close>

function strtok_all :: "char \<Rightarrow> string \<Rightarrow> string list" where
  "strtok_all d s = (case dropWhile (\<lambda>c. c = d) s of
      [] \<Rightarrow> []
    | c # cs \<Rightarrow> (c # takeWhile (\<lambda>c. c \<noteq> d) cs) # strtok_all d (dropWhile (\<lambda>c. c \<noteq> d) cs))"
  by pat_completeness auto
termination
proof (relation "measure (\<lambda>(d, s). length s)")
  fix d s c cs
  assume "dropWhile (\<lambda>c. c = d) s = c # cs"
  then have "length (c # cs) \<le> length s" by (metis length_dropWhile_le)
  moreover have "length (dropWhile (\<lambda>c. c \<noteq> d) cs) \<le> length cs" by (rule length_dropWhile_le)
  ultimately show "((d, dropWhile (\<lambda>c. c \<noteq> d) cs), (d, s)) \<in> measure (\<lambda>(d, s). length s)"
    by simp
qed simp

declare strtok_all.simps [simp del]

lemma strtok_all_Nil [simp, c_string]: "strtok_all d [] = []"
  by (simp add: strtok_all.simps)

lemma strtok_all_delim [simp, c_string]: "strtok_all d (d # s) = strtok_all d s"
  by (subst (1 2) strtok_all.simps) simp

lemma strtok_all_token:
  assumes "t \<noteq> []" "d \<notin> set t"
  shows "strtok_all d (t @ d # s) = t # strtok_all d s" and "strtok_all d t = [t]"
proof -
  obtain c cs where t: "t = c # cs" using assms(1) by (cases t) auto
  have c: "c \<noteq> d" and cs: "\<forall>x \<in> set cs. x \<noteq> d" using assms(2) t by auto
  have tw: "takeWhile (\<lambda>c. c \<noteq> d) (cs @ d # s) = cs" using cs by (simp add: takeWhile_append2)
  have dw: "dropWhile (\<lambda>c. c \<noteq> d) (cs @ d # s) = d # s" using cs by (simp add: dropWhile_append2)
  show "strtok_all d (t @ d # s) = t # strtok_all d s"
    using c by (simp add: strtok_all.simps [of d "c # cs @ d # s"] t tw dw)
  have "takeWhile (\<lambda>c. c \<noteq> d) cs = cs" "dropWhile (\<lambda>c. c \<noteq> d) cs = []"
    using cs by (auto simp: dropWhile_eq_Nil_conv)
  with c show "strtok_all d t = [t]"
    by (simp add: strtok_all.simps [of d "c # cs"] t del: dropWhile_eq_Nil_conv)
qed

lemma strtok_all_nonempty: "t \<in> set (strtok_all d s) \<Longrightarrow> t \<noteq> [] \<and> d \<notin> set t"
proof (induction d s rule: strtok_all.induct)
  case (1 d s)
  show ?case
  proof (cases "dropWhile (\<lambda>c. c = d) s")
    case Nil
    with "1.prems" show ?thesis by (simp add: strtok_all.simps [of d s])
  next
    case (Cons c cs)
    then have "c \<noteq> d" using hd_dropWhile [of "\<lambda>c. c = d" s] by simp
    moreover have "d \<notin> set (takeWhile (\<lambda>c. c \<noteq> d) cs)" by (auto dest: set_takeWhileD)
    ultimately show ?thesis
      using "1.prems" "1.IH" [OF Cons] Cons by (auto simp: strtok_all.simps [of d s])
  qed
qed

subsection \<open>Lines of a file\<close>

text \<open>
  \<open>fgets(line, size, file)\<close> iterated to the end of the file: each call takes the bytes up to
  and including the next newline, but no more than \<open>size - 1\<close> of them.
\<close>

fun fgets_line :: "nat \<Rightarrow> string \<Rightarrow> string \<times> string" where
  "fgets_line 0 s = ([], s)"
| "fgets_line (Suc n) [] = ([], [])"
| "fgets_line (Suc n) (c # s) =
     (if c = CHR 0x0A then ([c], s) else (let (l, r) = fgets_line n s in (c # l, r)))"

lemma fgets_line_append: "fst (fgets_line n s) @ snd (fgets_line n s) = s"
  by (induction n s rule: fgets_line.induct) (auto simp: Let_def split: prod.split)

lemma fgets_line_length: "length (fst (fgets_line n s)) \<le> n"
  by (induction n s rule: fgets_line.induct) (auto simp: Let_def split: prod.split)

lemma fgets_line_progress: "s \<noteq> [] \<Longrightarrow> length (snd (fgets_line (Suc n) s)) < length s"
proof -
  assume "s \<noteq> []"
  then have "fst (fgets_line (Suc n) s) \<noteq> []" by (cases s) (auto simp: Let_def split: prod.split)
  moreover have "length (fst (fgets_line (Suc n) s)) + length (snd (fgets_line (Suc n) s)) = length s"
    by (metis fgets_line_append length_append)
  ultimately show ?thesis by (cases "fst (fgets_line (Suc n) s)") auto
qed

function fgets_all :: "nat \<Rightarrow> string \<Rightarrow> string list" where
  "fgets_all n [] = []"
| "fgets_all n (c # s) =
     fst (fgets_line (Suc n) (c # s)) # fgets_all n (snd (fgets_line (Suc n) (c # s)))"
  by pat_completeness auto
termination
proof (relation "measure (\<lambda>(n, s). length s)")
  fix n c s
  show "((n, snd (fgets_line (Suc n) (c # s))), (n, c # s)) \<in> measure (\<lambda>(n, s). length s)"
    using fgets_line_progress [of "c # s" n] by (simp del: fgets_line.simps)
qed simp

lemma fgets_all_concat: "concat (fgets_all n s) = s"
  by (induction n s rule: fgets_all.induct) (auto simp del: fgets_line.simps simp: fgets_line_append)

lemma fgets_all_length: "l \<in> set (fgets_all n s) \<Longrightarrow> length l \<le> Suc n"
  by (induction n s rule: fgets_all.induct)
    (auto simp del: fgets_line.simps simp: fgets_line_length)

end
