(* ===== verification/C_Float.thy ===== *)
theory C_Float
  imports C_Runtime Complex_Main
begin

text \<open>
  The C types \<open>double\<close> and \<open>float\<close>, used by the tuner's cost model. A value is a rational,
  an infinity or not-a-number, and every arithmetic operation rounds its exact result to the
  nearest representable number, ties to even (binary64 for \<open>double\<close>, binary32 for \<open>float\<close>).
  The sign of a zero is not kept: it is observable through a division by zero only, and no
  divisor in the modelled code is zero. The locale \<open>rounding\<close> states what the cost model relies on,
  monotonicity above all, and is interpreted for both formats.
\<close>

named_theorems fp_defs \<open>definitions of the floating-point operations\<close>

section \<open>Rounding to a binary format\<close>

text \<open>The nearest integer, ties to even.\<close>

definition round_even :: "rat \<Rightarrow> int" where
  "round_even x = (let f = floor x; d = x - of_int f in
     if d < 1 / 2 then f else if d > 1 / 2 then f + 1 else if even f then f else f + 1)"

text \<open>The number of binary digits of a positive integer.\<close>

function bit_length :: "int \<Rightarrow> int" where
  "bit_length n = (if n \<le> 0 then 0 else 1 + bit_length (n div 2))"
  by pat_completeness auto
termination
  by (relation "measure nat") auto

declare bit_length.simps [simp del]

text \<open>The exponent of a positive rational: \<open>2^(ilog2 x) \<le> x < 2^(ilog2 x + 1)\<close>.\<close>

definition ilog2 :: "rat \<Rightarrow> int" where
  "ilog2 x = (let (a, b) = quotient_of x; k = bit_length a - bit_length b
              in if 2 powi k \<le> x then k else k - 1)"

text \<open>Rounding to \<open>p\<close> significant bits with least exponent \<open>emin\<close> (subnormals included).\<close>

definition ulp_exp :: "int \<Rightarrow> int \<Rightarrow> rat \<Rightarrow> int" where
  "ulp_exp p emin x = max (ilog2 \<bar>x\<bar> - p + 1) emin"

definition rnd :: "int \<Rightarrow> int \<Rightarrow> rat \<Rightarrow> rat" where
  "rnd p emin x = (if x = 0 then 0
     else of_int (round_even (x / 2 powi (ulp_exp p emin x))) * 2 powi (ulp_exp p emin x))"

subsection \<open>The nearest integer\<close>

lemma round_even_of_int [simp]: "round_even (of_int n) = n"
  by (simp add: round_even_def)

lemma round_even_bounds: "floor x \<le> round_even x" "round_even x \<le> floor x + 1"
  by (auto simp: round_even_def Let_def)

lemma round_even_mono: "x \<le> y \<Longrightarrow> round_even x \<le> round_even y"
proof -
  assume le: "x \<le> y"
  have fl: "floor x \<le> floor y" using le by (rule floor_mono)
  show ?thesis
  proof (cases "floor x = floor y")
    case True
    with le show ?thesis by (auto simp: round_even_def Let_def)
  next
    case False
    with fl have "floor x + 1 \<le> floor y" by simp
    with round_even_bounds [of x] round_even_bounds [of y] show ?thesis by linarith
  qed
qed

lemma round_even_minus: "round_even (- x) = - round_even x"
proof (cases "x \<in> \<int>")
  case True
  then obtain n where "x = of_int n" by (auto elim: Ints_cases)
  then show ?thesis by (metis of_int_minus round_even_of_int)
next
  case False
  have f: "floor (- x) = - floor x - 1"
  proof -
    have "x \<noteq> of_int (floor x)" using False by (metis Ints_of_int)
    then have "ceiling x = floor x + 1" by (simp add: ceiling_altdef)
    then show ?thesis by (simp add: floor_minus)
  qed
  define d where "d = x - of_int (floor x)"
  have d': "- x - of_int (floor (- x)) = 1 - d" by (simp add: f d_def)
  show ?thesis
    unfolding round_even_def Let_def d' d_def [symmetric] by (auto simp: f)
qed

subsection \<open>The exponent\<close>

lemma bit_length_bounds:
  "0 < n \<Longrightarrow> \<exists>k. bit_length n = int (Suc k) \<and> 2 ^ k \<le> n \<and> n < 2 ^ Suc k"
proof (induction n rule: bit_length.induct)
  case (1 n)
  show ?case
  proof (cases "n div 2 > 0")
    case True
    with 1 obtain k where "bit_length (n div 2) = int (Suc k)" "2 ^ k \<le> n div 2" "n div 2 < 2 ^ Suc k"
      by auto
    with 1 show ?thesis by (intro exI [of _ "Suc k"]) (auto simp: bit_length.simps [of n])
  next
    case False
    with 1 have "n = 1" by simp
    then show ?thesis
      by (intro exI [of _ 0]) (simp add: bit_length.simps [of 1] bit_length.simps [of 0])
  qed
qed

lemma ilog2_bounds:
  assumes "0 < x"
  shows "2 powi (ilog2 x) \<le> x" "x < 2 powi (ilog2 x + 1)"
proof -
  obtain a b where q: "quotient_of x = (a, b)" by (cases "quotient_of x")
  then have x: "x = of_int a / of_int b" and b: "0 < b"
    by (simp_all add: quotient_of_div quotient_of_denom_pos)
  have a: "0 < a" using assms b unfolding x by (simp add: zero_less_divide_iff)
  obtain A B where A: "bit_length a = int (Suc A)" "2 ^ A \<le> a" "a < 2 ^ Suc A"
    and B: "bit_length b = int (Suc B)" "2 ^ B \<le> b" "b < 2 ^ Suc B"
    using bit_length_bounds [OF a] bit_length_bounds [OF b] by blast
  have bA: "(2 :: rat) ^ A \<le> of_int a" "(of_int a :: rat) < 2 ^ Suc A"
    using A(2,3) of_int_le_iff [of "2 ^ A" a, where 'a = rat] of_int_less_iff [of a "2 ^ Suc A", where 'a = rat]
    by simp_all
  have bB: "(2 :: rat) ^ B \<le> of_int b" "(of_int b :: rat) < 2 ^ Suc B"
    using B(2,3) of_int_le_iff [of "2 ^ B" b, where 'a = rat] of_int_less_iff [of b "2 ^ Suc B", where 'a = rat]
    by simp_all
  define k where "k = int A - int B"
  have up: "x < 2 powi (k + 1)"
  proof -
    have "(2 :: rat) powi (k + 1) * 2 ^ B = 2 ^ Suc A"
      by (simp add: k_def power_int_add power_int_diff)
    then have "of_int a < 2 powi (k + 1) * (of_int b :: rat)"
      using bA(2) bB(1) by (metis less_le_trans mult_left_mono zero_le_numeral zero_le_power_int)
    then show ?thesis using b by (simp add: x divide_less_eq)
  qed
  have lo: "2 powi (k - 1) \<le> x"
  proof -
    have "(2 :: rat) powi (k - 1) * 2 ^ Suc B = 2 ^ A"
      by (simp add: k_def power_int_diff)
    then have "2 powi (k - 1) * (of_int b :: rat) \<le> of_int a"
      using bA(1) bB(2)
      by (metis order_trans less_imp_le mult_left_mono zero_le_numeral zero_le_power_int)
    then show ?thesis using b by (simp add: x le_divide_eq)
  qed
  have "ilog2 x = (if 2 powi k \<le> x then k else k - 1)"
    by (simp add: ilog2_def q k_def A(1) B(1))
  with up lo show "2 powi (ilog2 x) \<le> x" "x < 2 powi (ilog2 x + 1)"
    by (auto split: if_splits)
qed

lemma powi_2_le_iff: "(2 :: rat) powi m \<le> 2 powi n \<longleftrightarrow> m \<le> n"
  by (metis linorder_not_le not_less_iff_gr_or_eq one_less_numeral_iff order_refl power_int_strict_increasing semiring_norm(76))

lemma ilog2_mono: "0 < x \<Longrightarrow> x \<le> y \<Longrightarrow> ilog2 x \<le> ilog2 y"
proof (rule ccontr)
  assume "0 < x" "x \<le> y" "\<not> ilog2 x \<le> ilog2 y"
  then have "(2 :: rat) powi (ilog2 y + 1) \<le> 2 powi (ilog2 x)" by (simp add: powi_2_le_iff)
  moreover have "y < 2 powi (ilog2 y + 1)" and "2 powi (ilog2 x) \<le> x"
    using \<open>0 < x\<close> \<open>x \<le> y\<close> ilog2_bounds [of x] ilog2_bounds [of y] by auto
  ultimately show False using \<open>x \<le> y\<close> by linarith
qed

subsection \<open>Rounding is monotone, odd and idempotent\<close>

lemma ulp_exp_minus [simp]: "ulp_exp p emin (- x) = ulp_exp p emin x"
  by (simp add: ulp_exp_def)

lemma rnd_0 [simp]: "rnd p emin 0 = 0"
  by (simp add: rnd_def)

lemma rnd_minus: "rnd p emin (- x) = - rnd p emin x"
  by (simp add: rnd_def round_even_minus)

lemma rnd_nonneg: "0 \<le> x \<Longrightarrow> 0 \<le> rnd p emin x"
proof -
  assume "0 \<le> x"
  then have "round_even 0 \<le> round_even (x / 2 powi (ulp_exp p emin x))"
    by (intro round_even_mono) simp
  then show ?thesis by (simp add: rnd_def round_even_of_int [of 0, simplified])
qed

text \<open>Rounding at a fixed exponent does not cross a power of two at or above it.\<close>

lemma powi_2_split: "e \<le> m \<Longrightarrow> (2 :: rat) powi m = of_int (2 ^ nat (m - e)) * 2 powi e"
  by (simp add: power_int_add [symmetric] power_int_of_nat [symmetric, of _ "nat (m - e)"])

lemma round_even_le_pow:
  assumes "e \<le> m" "x \<le> 2 powi m"
  shows "of_int (round_even (x / 2 powi e)) * 2 powi e \<le> (2 :: rat) powi m"
proof -
  have "x / 2 powi e \<le> of_int (2 ^ nat (m - e))"
    using assms powi_2_split [OF assms(1)] by (simp add: divide_le_eq)
  then have "round_even (x / 2 powi e) \<le> 2 ^ nat (m - e)"
    using round_even_mono round_even_of_int by metis
  then have "(of_int (round_even (x / 2 powi e)) :: rat) \<le> of_int (2 ^ nat (m - e))"
    by (rule of_int_le_iff [THEN iffD2])
  then show ?thesis
    unfolding powi_2_split [OF assms(1)] by (rule mult_right_mono) simp
qed

lemma round_even_ge_pow:
  assumes "e \<le> m" "2 powi m \<le> x"
  shows "(2 :: rat) powi m \<le> of_int (round_even (x / 2 powi e)) * 2 powi e"
proof -
  have "of_int (2 ^ nat (m - e)) \<le> x / 2 powi e"
    using assms powi_2_split [OF assms(1)] by (simp add: le_divide_eq)
  then have "2 ^ nat (m - e) \<le> round_even (x / 2 powi e)"
    using round_even_mono round_even_of_int by metis
  then have "(of_int (2 ^ nat (m - e)) :: rat) \<le> of_int (round_even (x / 2 powi e))"
    by (rule of_int_le_iff [THEN iffD2])
  then show ?thesis
    unfolding powi_2_split [OF assms(1)] by (rule mult_right_mono) simp
qed

lemma rnd_le_pow:
  assumes "1 \<le> p" "0 \<le> x" "x \<le> 2 powi m" "emin \<le> m"
  shows "rnd p emin x \<le> 2 powi m"
proof (cases "x = 0")
  case False
  with assms have x: "0 < x" by simp
  have "(2 :: rat) powi (ilog2 x) \<le> 2 powi m" using ilog2_bounds(1) [OF x] assms(3) by linarith
  then have "ulp_exp p emin x \<le> m" using x assms by (simp add: ulp_exp_def powi_2_le_iff)
  then show ?thesis using False assms(3) by (simp add: rnd_def round_even_le_pow)
qed simp

lemma rnd_mono_pos:
  assumes "1 \<le> p" "0 < x" "x \<le> y"
  shows "rnd p emin x \<le> rnd p emin y"
proof -
  define ex where "ex = ulp_exp p emin x"
  define ey where "ey = ulp_exp p emin y"
  have y: "0 < y" using assms by simp
  have ax: "ex = max (ilog2 x - p + 1) emin" and ay: "ey = max (ilog2 y - p + 1) emin"
    using assms y by (simp_all add: ex_def ey_def ulp_exp_def)
  have rx: "rnd p emin x = of_int (round_even (x / 2 powi ex)) * 2 powi ex"
    and ry: "rnd p emin y = of_int (round_even (y / 2 powi ey)) * 2 powi ey"
    using assms y by (simp_all add: rnd_def ex_def ey_def)
  have le: "ex \<le> ey" using ilog2_mono [OF assms(2,3)] by (auto simp: ax ay)
  show ?thesis
  proof (cases "ex = ey")
    case True
    have "round_even (x / 2 powi ey) \<le> round_even (y / 2 powi ey)"
      using assms(3) by (intro round_even_mono divide_right_mono) simp_all
    then show ?thesis unfolding rx ry True by (intro mult_right_mono) simp_all
  next
    case False
    define m where "m = ilog2 y"
    have m: "ilog2 x + 1 \<le> m" "ex \<le> m" "ey \<le> m"
      using False le assms(1) by (auto simp: ax ay m_def)
    have "x \<le> 2 powi m"
      using ilog2_bounds(2) [OF assms(2)] m(1) powi_2_le_iff [of "ilog2 x + 1" m] by linarith
    then have "rnd p emin x \<le> 2 powi m" unfolding rx by (intro round_even_le_pow m)
    also have "\<dots> \<le> rnd p emin y"
      unfolding ry using ilog2_bounds(1) [OF y] by (intro round_even_ge_pow m) (simp add: m_def)
    finally show ?thesis .
  qed
qed

lemma rnd_mono:
  assumes "1 \<le> p" "x \<le> y"
  shows "rnd p emin x \<le> rnd p emin y"
proof -
  consider "0 < x" | "x \<le> 0" "0 \<le> y" | "y < 0" by linarith
  then show ?thesis
  proof cases
    case 1
    with assms show ?thesis by (simp add: rnd_mono_pos)
  next
    case 2
    then have "0 \<le> rnd p emin (- x)" "0 \<le> rnd p emin y" by (simp_all add: rnd_nonneg)
    then show ?thesis by (simp add: rnd_minus)
  next
    case 3
    with assms have "rnd p emin (- y) \<le> rnd p emin (- x)" by (intro rnd_mono_pos) auto
    then show ?thesis by (simp add: rnd_minus)
  qed
qed

lemma rnd_multiple:
  assumes "y = of_int n * 2 powi e" "y \<noteq> 0" "ulp_exp p emin y \<le> e"
  shows "rnd p emin y = y"
proof -
  define u where "u = ulp_exp p emin y"
  have s: "(2 :: rat) powi e = of_int (2 ^ nat (e - u)) * 2 powi u"
    using assms(3) by (intro powi_2_split) (simp add: u_def)
  have q: "y / 2 powi u = of_int (n * 2 ^ nat (e - u))"
    unfolding assms(1) s by simp
  have "rnd p emin y = of_int (round_even (y / 2 powi u)) * 2 powi u"
    using assms(2) by (simp add: rnd_def u_def)
  also have "\<dots> = of_int (n * 2 ^ nat (e - u)) * 2 powi u"
    unfolding q by (simp only: round_even_of_int)
  also have "\<dots> = y" unfolding q [symmetric] by simp
  finally show ?thesis .
qed

lemma rnd_idem_pos:
  assumes "1 \<le> p" "0 < x"
  shows "rnd p emin (rnd p emin x) = rnd p emin x"
proof (cases "rnd p emin x = 0")
  case False
  define e where "e = ulp_exp p emin x"
  define y where "y = rnd p emin x"
  have y: "y = of_int (round_even (x / 2 powi e)) * 2 powi e"
    using assms by (simp add: rnd_def e_def y_def)
  have pos: "0 < y" using False rnd_nonneg [of x p emin] assms by (simp add: y_def)
  have "ilog2 x + 1 \<le> e + p" using assms by (simp add: e_def ulp_exp_def)
  then have "(2 :: rat) powi (ilog2 x + 1) \<le> 2 powi (e + p)" by (simp only: powi_2_le_iff)
  with ilog2_bounds(2) [OF assms(2)] have "x \<le> 2 powi (e + p)" by linarith
  then have le: "y \<le> 2 powi (e + p)" unfolding y using assms(1) by (intro round_even_le_pow) auto
  show ?thesis
  proof (cases "y = 2 powi (e + p)")
    case True
    have "ilog2 y \<le> e + p"
      using ilog2_bounds(1) [OF pos] powi_2_le_iff [of "ilog2 y" "e + p"] True by simp
    then have "ulp_exp p emin y \<le> e + p"
      using pos assms(1) by (auto simp: ulp_exp_def e_def)
    then show ?thesis
      using rnd_multiple [of y 1 "e + p" p emin] True pos by (simp add: y_def)
  next
    case False
    with le have "y < 2 powi (e + p)" by simp
    then have "\<not> (2 :: rat) powi (e + p) \<le> 2 powi (ilog2 y)"
      using ilog2_bounds(1) [OF pos] by linarith
    then have "ilog2 y < e + p" by (simp add: powi_2_le_iff)
    then have "ulp_exp p emin y \<le> e" using pos by (auto simp: ulp_exp_def e_def)
    then show ?thesis using rnd_multiple [OF y _ ] pos by (simp add: y_def)
  qed
qed simp

lemma rnd_idem: "1 \<le> p \<Longrightarrow> rnd p emin (rnd p emin x) = rnd p emin x"
proof -
  assume p: "1 \<le> p"
  consider "x = 0" | "0 < x" | "0 < - x" by linarith
  then show ?thesis
  proof cases
    case 3
    then show ?thesis using rnd_idem_pos [OF p 3, of emin] by (simp add: rnd_minus)
  qed (simp_all add: rnd_idem_pos p)
qed

lemma rnd_int:
  assumes "1 \<le> p" "emin \<le> 0" "\<bar>n\<bar> < 2 ^ nat p"
  shows "rnd p emin (of_int n) = of_int n"
proof (cases "n = 0")
  case False
  have "(of_int \<bar>n\<bar> :: rat) < of_int (2 ^ nat p)" using assms(3) by (simp only: of_int_less_iff)
  then have "(of_int \<bar>n\<bar> :: rat) < 2 powi p" using assms(1) by (simp add: power_int_def)
  moreover have "2 powi (ilog2 (of_int \<bar>n\<bar>)) \<le> (of_int \<bar>n\<bar> :: rat)"
    using ilog2_bounds(1) [of "of_int \<bar>n\<bar>"] False by simp
  ultimately have "\<not> (2 :: rat) powi p \<le> 2 powi (ilog2 (of_int \<bar>n\<bar>))" by linarith
  then have "ulp_exp p emin (of_int n) \<le> 0"
    using assms(2) by (simp add: powi_2_le_iff ulp_exp_def)
  then show ?thesis by (intro rnd_multiple [of _ n 0]) (use False in simp_all)
qed simp

section \<open>What the cost model relies on\<close>

locale rounding =
  fixes r :: "rat \<Rightarrow> rat"
  assumes mono: "x \<le> y \<Longrightarrow> r x \<le> r y"
    and odd: "r (- x) = - r x"
    and idem: "r (r x) = r x"
begin

lemma zero: "r 0 = 0"
  using odd [of 0] by simp

lemma nonneg: "0 \<le> x \<Longrightarrow> 0 \<le> r x"
  using mono [of 0 x] by (simp add: zero)

lemma nonpos: "x \<le> 0 \<Longrightarrow> r x \<le> 0"
  using mono [of x 0] by (simp add: zero)

lemma scale_pos: "0 < r x \<Longrightarrow> 1 \<le> c \<Longrightarrow> 0 < r (c * r x)"
proof -
  assume a: "0 < r x" "1 \<le> c"
  then have "r x \<le> c * r x" by (simp add: mult_le_cancel_right1)
  then have "r (r x) \<le> r (c * r x)" by (rule mono)
  with a show ?thesis by (simp add: idem)
qed

end

interpretation r64: rounding "rnd 53 (- 1074)"
  by unfold_locales (simp_all add: rnd_mono rnd_minus rnd_idem)

interpretation r32: rounding "rnd 24 (- 149)"
  by unfold_locales (simp_all add: rnd_mono rnd_minus rnd_idem)

section \<open>Values and operations\<close>

text \<open>\<open>Inf True\<close> is minus infinity.\<close>

datatype fp = Fin rat | Inf bool | NaN

definition fp_round :: "int \<Rightarrow> int \<Rightarrow> int \<Rightarrow> rat \<Rightarrow> fp" where
  "fp_round p emin emax x = (let y = rnd p emin x in
     if 2 powi (emax + 1) \<le> \<bar>y\<bar> then Inf (y < 0) else Fin y)"

definition d64 :: "rat \<Rightarrow> fp" where
  [fp_defs]: "d64 x = fp_round 53 (- 1074) 1023 x"

definition f32 :: "rat \<Rightarrow> fp" where
  [fp_defs]: "f32 x = fp_round 24 (- 149) 127 x"

text \<open>Small integers are exact.\<close>

lemma fp_round_int:
  assumes "\<bar>n\<bar> < 2 ^ nat p" "1 \<le> p" "emin \<le> 0" "p \<le> emax"
  shows "fp_round p emin emax (of_int n) = Fin (of_int n)"
proof -
  have "(of_int \<bar>n\<bar> :: rat) < of_int (2 ^ nat p)" using assms(1) by (simp only: of_int_less_iff)
  also have "\<dots> = 2 powi p" using assms(2) by (simp add: power_int_def)
  also have "\<dots> \<le> 2 powi (emax + 1)" using assms(4) by (simp only: powi_2_le_iff)
  finally show ?thesis using rnd_int [OF assms(2,3,1)] by (simp add: fp_round_def)
qed

lemma d64_int: "\<bar>n\<bar> < 2 ^ 53 \<Longrightarrow> d64 (of_int n) = Fin (of_int n)"
  unfolding d64_def by (rule fp_round_int) simp_all

lemma f32_int: "\<bar>n\<bar> < 2 ^ 24 \<Longrightarrow> f32 (of_int n) = Fin (of_int n)"
  unfolding f32_def by (rule fp_round_int) simp_all

lemma d64_numeral: "(numeral k :: int) < 2 ^ 53 \<Longrightarrow> d64 (numeral k) = Fin (numeral k)"
  using d64_int [of "numeral k"] by simp

lemma f32_numeral: "(numeral k :: int) < 2 ^ 24 \<Longrightarrow> f32 (numeral k) = Fin (numeral k)"
  using f32_int [of "numeral k"] by simp

lemma d64_01 [simp]: "d64 0 = Fin 0" "d64 1 = Fin 1"
  using d64_int [of 0] d64_int [of 1] by simp_all

lemma f32_01 [simp]: "f32 0 = Fin 0" "f32 1 = Fin 1"
  using f32_int [of 0] f32_int [of 1] by simp_all

definition double_of_int :: "int \<Rightarrow> fp" where
  [fp_defs]: "double_of_int n = d64 (of_int n)"

definition double_of_size :: "size_t \<Rightarrow> fp" where
  [fp_defs]: "double_of_size n = d64 (of_nat (unat n))"

fun float_of_double :: "fp \<Rightarrow> fp" where
  "float_of_double (Fin x) = f32 x"
| "float_of_double (Inf s) = Inf s"
| "float_of_double NaN = NaN"

fun dadd :: "fp \<Rightarrow> fp \<Rightarrow> fp" where
  "dadd (Fin x) (Fin y) = d64 (x + y)"
| "dadd (Inf s) (Inf t) = (if s = t then Inf s else NaN)"
| "dadd (Inf s) (Fin y) = Inf s"
| "dadd (Fin x) (Inf t) = Inf t"
| "dadd NaN b = NaN"
| "dadd a NaN = NaN"

fun dmul :: "fp \<Rightarrow> fp \<Rightarrow> fp" where
  "dmul (Fin x) (Fin y) = d64 (x * y)"
| "dmul (Inf s) (Inf t) = Inf (s \<noteq> t)"
| "dmul (Inf s) (Fin y) = (if y = 0 then NaN else Inf (s \<noteq> (y < 0)))"
| "dmul (Fin x) (Inf t) = (if x = 0 then NaN else Inf ((x < 0) \<noteq> t))"
| "dmul NaN b = NaN"
| "dmul a NaN = NaN"

fun ddiv :: "fp \<Rightarrow> fp \<Rightarrow> fp" where
  "ddiv (Fin x) (Fin y) = (if y = 0 then (if x = 0 then NaN else Inf (x < 0)) else d64 (x / y))"
| "ddiv (Inf s) (Inf t) = NaN"
| "ddiv (Inf s) (Fin y) = Inf (s \<noteq> (y < 0))"
| "ddiv (Fin x) (Inf t) = Fin 0"
| "ddiv NaN b = NaN"
| "ddiv a NaN = NaN"

fun fp_lt :: "fp \<Rightarrow> fp \<Rightarrow> bool" where
  "fp_lt (Fin x) (Fin y) = (x < y)"
| "fp_lt (Fin x) (Inf t) = (\<not> t)"
| "fp_lt (Inf s) (Fin y) = s"
| "fp_lt (Inf s) (Inf t) = (s \<and> \<not> t)"
| "fp_lt NaN b = False"
| "fp_lt a NaN = False"

fun fp_le :: "fp \<Rightarrow> fp \<Rightarrow> bool" where
  "fp_le (Fin x) (Fin y) = (x \<le> y)"
| "fp_le (Fin x) (Inf t) = (\<not> t)"
| "fp_le (Inf s) (Fin y) = s"
| "fp_le (Inf s) (Inf t) = (s \<or> \<not> t)"
| "fp_le NaN b = False"
| "fp_le a NaN = False"

text \<open>The comparison \<open>==\<close>, false when either side is not a number.\<close>

definition fp_eq :: "fp \<Rightarrow> fp \<Rightarrow> bool" where
  "fp_eq a b \<longleftrightarrow> a = b \<and> a \<noteq> NaN"

text \<open>The ternary \<open>(a < b) ? a : b\<close> by which the code caps a bandwidth.\<close>

definition fp_cap :: "fp \<Rightarrow> fp \<Rightarrow> fp" where
  "fp_cap a b = (if fp_lt a b then a else b)"

subsection \<open>Reading a double from text\<close>

definition is_xdigit :: "char \<Rightarrow> bool" where
  "is_xdigit c \<longleftrightarrow> is_digit c \<or> (97 \<le> (of_char (tolower c) :: nat) \<and> (of_char (tolower c) :: nat) \<le> 102)"

definition xdigit_val :: "char \<Rightarrow> nat" where
  "xdigit_val c = (if is_digit c then digit_val c else of_char (tolower c) - 87)"

text \<open>Digits with an optional point: the value, and the text behind it; at least one digit.\<close>

definition mantissa :: "nat \<Rightarrow> (char \<Rightarrow> bool) \<Rightarrow> string \<Rightarrow> (rat \<times> string) option" where
  "mantissa base isd s =
    (let ip = takeWhile isd s; r = dropWhile isd s;
         (fr, rest) = (case r of [] \<Rightarrow> ([], r)
           | c # cs \<Rightarrow> if c = CHR ''.'' then (takeWhile isd cs, dropWhile isd cs) else ([], r));
         v = foldl (\<lambda>a c. base * a + xdigit_val c) 0 (ip @ fr)
     in if ip @ fr = [] then None else Some (of_nat v / of_nat base ^ length fr, rest))"

text \<open>The exponent part: its value, 0 when there is none.\<close>

definition exponent :: "char \<Rightarrow> string \<Rightarrow> int" where
  "exponent e s = (case s of [] \<Rightarrow> 0
     | c # cs \<Rightarrow> if tolower c \<noteq> e then 0
        else (let (neg, t) = take_sign cs; v = int (digits_val (takeWhile is_digit t))
              in if neg then - v else v))"

text \<open>\<open>strtod(s, &end)\<close>; \<open>None\<close> when nothing was converted (\<open>end == s\<close>).\<close>

definition strtod :: "string \<Rightarrow> fp option" where
  "strtod s =
    (let (neg, t) = skip_sign s; sg = (\<lambda>v. if neg then - v else v) in
     if map tolower (take 3 t) = ''inf'' then Some (Inf neg)
     else if map tolower (take 3 t) = ''nan'' then Some NaN
     else case (if map tolower (take 2 t) = ''0x'' then mantissa 16 is_xdigit (drop 2 t) else None) of
       Some (m, rest) \<Rightarrow> Some (d64 (sg (m * 2 powi (exponent (CHR ''p'') rest))))
     | None \<Rightarrow> (case mantissa 10 is_digit t of
         Some (m, rest) \<Rightarrow> Some (d64 (sg (m * 10 powi (exponent (CHR ''e'') rest))))
       | None \<Rightarrow> None))"

subsection \<open>Order and sign of results\<close>

abbreviation fp_nonneg :: "fp \<Rightarrow> bool" where
  "fp_nonneg a \<equiv> fp_le (Fin 0) a"

abbreviation fp_pos :: "fp \<Rightarrow> bool" where
  "fp_pos a \<equiv> fp_lt (Fin 0) a"

lemma fp_le_refl [simp]: "a \<noteq> NaN \<Longrightarrow> fp_le a a"
  by (cases a) auto

lemma fp_le_trans: "fp_le a b \<Longrightarrow> fp_le b c \<Longrightarrow> fp_le a c"
  by (cases a; cases b; cases c) auto

lemma fp_not_le: "a \<noteq> NaN \<Longrightarrow> b \<noteq> NaN \<Longrightarrow> \<not> fp_le a b \<longleftrightarrow> fp_lt b a"
  by (cases a; cases b) auto

lemma fp_not_lt: "a \<noteq> NaN \<Longrightarrow> b \<noteq> NaN \<Longrightarrow> \<not> fp_lt a b \<longleftrightarrow> fp_le b a"
  by (cases a; cases b) auto

lemma fp_lt_imp_le: "fp_lt a b \<Longrightarrow> fp_le a b"
  by (cases a; cases b) auto

lemma fp_le_not_NaN: "fp_le a b \<Longrightarrow> a \<noteq> NaN \<and> b \<noteq> NaN"
  by (cases a; cases b) auto

lemma fp_round_mono:
  assumes "1 \<le> p" "x \<le> y"
  shows "fp_le (fp_round p emin emax x) (fp_round p emin emax y)"
proof -
  have "rnd p emin x \<le> rnd p emin y" using assms by (rule rnd_mono)
  moreover have "(0 :: rat) < 2 powi (emax + 1)" by simp
  ultimately show ?thesis unfolding fp_round_def Let_def by auto
qed

lemma fp_round_0 [simp]: "fp_round p emin emax 0 = Fin 0"
  using zero_less_power_int [of "2 :: rat" "emax + 1"] by (simp add: fp_round_def not_le)

lemma fp_round_nonneg: "1 \<le> p \<Longrightarrow> 0 \<le> x \<Longrightarrow> fp_nonneg (fp_round p emin emax x)"
  using fp_round_mono [of p 0 x emin emax] by simp

lemma fp_round_not_NaN [simp]: "fp_round p emin emax x \<noteq> NaN"
  by (simp add: fp_round_def Let_def)

lemma d64_mono: "x \<le> y \<Longrightarrow> fp_le (d64 x) (d64 y)"
  by (simp add: d64_def fp_round_mono)

lemma d64_nonneg [simp]: "0 \<le> x \<Longrightarrow> fp_nonneg (d64 x)"
  by (simp add: d64_def fp_round_nonneg)

lemma d64_not_NaN [simp]: "d64 x \<noteq> NaN"
  by (simp add: d64_def)

lemma f32_mono: "x \<le> y \<Longrightarrow> fp_le (f32 x) (f32 y)"
  by (simp add: f32_def fp_round_mono)

lemma float_of_double_mono: "fp_le a b \<Longrightarrow> fp_le (float_of_double a) (float_of_double b)"
proof (cases a; cases b)
  fix x t assume "fp_le a b" "a = Fin x" "b = Inf t"
  then show ?thesis by (cases "f32 x") (auto simp: f32_def fp_round_def Let_def split: if_splits)
next
  fix s y assume "fp_le a b" "a = Inf s" "b = Fin y"
  then show ?thesis by (cases "f32 y") (auto simp: f32_def fp_round_def Let_def split: if_splits)
qed (auto simp: f32_mono)

lemma float_of_double_nonneg: "fp_nonneg a \<Longrightarrow> fp_nonneg (float_of_double a)"
  using float_of_double_mono [of "Fin 0" a] by (simp add: f32_def)

lemma dadd_nonneg: "fp_nonneg a \<Longrightarrow> fp_nonneg b \<Longrightarrow> fp_nonneg (dadd a b)"
  by (cases a; cases b) auto

lemma dadd_mono:
  assumes "fp_nonneg c" "fp_nonneg a" "fp_le a b"
  shows "fp_le (dadd c a) (dadd c b)"
proof (cases c; cases a; cases b)
  fix x y t assume "c = Fin x" "a = Fin y" "b = Inf t"
  with assms show ?thesis by (cases "d64 (x + y)") (auto dest: d64_not_NaN [THEN notE])
qed (use assms in \<open>auto simp: d64_mono\<close>)

lemma dmul_nonneg: "fp_nonneg a \<Longrightarrow> fp_nonneg b \<Longrightarrow> fp_nonneg (dmul a b) \<or> dmul a b = NaN"
  by (cases a; cases b) (auto simp: not_le)

lemma ddiv_mono:
  assumes "fp_pos c" "fp_le a b" "a \<noteq> Inf False" "fp_nonneg a"
  shows "fp_le (ddiv a c) (ddiv b c) \<or> b = Inf False"
  using assms by (cases c; cases a; cases b) (auto simp: d64_mono divide_right_mono)

end
