(* ===== verification/Tuner_Params.thy ===== *)
theory Tuner_Params
  imports C_Float
begin

text \<open>
  The constants and the parameter sets of the tuner plugin: the NCCL enumerations of
  \<open>tuner/nccl/tuner.h\<close> and, from \<open>tuner/plugin.c\<close>, the struct \<open>CostModelParams\<close> with its
  two profiles. A decimal literal of the source is written with \<open>D\<close>, which rounds it to the
  nearest \<open>double\<close> as the compiler does. Arrays are lists of their declared length.
\<close>

section \<open>NCCL constants\<close>

datatype ncclFunc =
    ncclFuncBroadcast | ncclFuncReduce | ncclFuncAllGather | ncclFuncReduceScatter
  | ncclFuncAllReduce | ncclFuncSendRecv | ncclFuncSend | ncclFuncRecv | ncclNumFuncs

definition NCCL_NUM_ALGORITHMS :: nat where
  [simp]: "NCCL_NUM_ALGORITHMS = 7"

definition NCCL_ALGO_TREE :: nat where
  [simp]: "NCCL_ALGO_TREE = 0"

definition NCCL_ALGO_RING :: nat where
  [simp]: "NCCL_ALGO_RING = 1"

definition NCCL_ALGO_COLLNET_DIRECT :: nat where
  [simp]: "NCCL_ALGO_COLLNET_DIRECT = 2"

definition NCCL_ALGO_COLLNET_CHAIN :: nat where
  [simp]: "NCCL_ALGO_COLLNET_CHAIN = 3"

definition NCCL_ALGO_NVLS :: nat where
  [simp]: "NCCL_ALGO_NVLS = 4"

definition NCCL_ALGO_NVLS_TREE :: nat where
  [simp]: "NCCL_ALGO_NVLS_TREE = 5"

definition NCCL_ALGO_PAT :: nat where
  [simp]: "NCCL_ALGO_PAT = 6"

definition NCCL_NUM_PROTOCOLS :: nat where
  [simp]: "NCCL_NUM_PROTOCOLS = 3"

definition NCCL_PROTO_LL :: nat where
  [simp]: "NCCL_PROTO_LL = 0"

definition NCCL_PROTO_LL128 :: nat where
  [simp]: "NCCL_PROTO_LL128 = 1"

definition NCCL_PROTO_SIMPLE :: nat where
  [simp]: "NCCL_PROTO_SIMPLE = 2"

definition NCCL_HW_NVLINK :: nat where
  [simp]: "NCCL_HW_NVLINK = 0"

definition NCCL_HW_PCI :: nat where
  [simp]: "NCCL_HW_PCI = 1"

definition NCCL_HW_NET :: nat where
  [simp]: "NCCL_HW_NET = 2"

definition NCCL_NUM_HW_LINKS :: nat where
  [simp]: "NCCL_NUM_HW_LINKS = 3"

definition NCCL_NUM_TUNING_SCALES :: nat where
  [simp]: "NCCL_NUM_TUNING_SCALES = 3"

text \<open>A table cell NCCL rules out holds \<open>-1.0\<close>.\<close>

definition NCCL_ALGO_PROTO_IGNORE :: fp where
  "NCCL_ALGO_PROTO_IGNORE = Fin (- 1)"

record NvlDomainInfo =
  nNvlDomains :: int
  minRanksPerNvlDomain :: int
  maxRanksPerNvlDomain :: int

section \<open>Cost-model parameters\<close>

abbreviation D :: "rat \<Rightarrow> fp" where
  "D x \<equiv> d64 x"

record CostModelParams =
  gpusPerNode :: int
  cm_nChannels :: int
  bwIntra :: fp
  bwInter :: fp
  nvlsEfficiency :: fp
  graphLatencyInter :: fp
  baseLatencies :: "fp list list"
  hwLatencies :: "fp list list list"
  llMaxBw :: "fp list"
  perChMaxRingLL128Bw :: "fp list"
  perChMaxTreeBw :: "fp list"
  perChMaxTreeLL128Bw :: "fp list"
  perChMaxNVLSTreeBw :: "fp list"
  ringBwCapInter :: fp
  ringBwCapIntra :: fp
  patBwEff :: fp
  patLatPerRank :: fp
  arRegLatScale :: "fp list list"
  agRegLatScale :: "fp list list"
  disableUnmodeledCells :: int

text \<open>The cost written to cells the model cannot price, \<open>1.0e9f\<close>.\<close>

definition COST_MODEL_DISABLED_COST :: fp where
  "COST_MODEL_DISABLED_COST = f32 (10 ^ 9)"

definition mnnvlParamsValidated :: bool where
  "mnnvlParamsValidated = False"

definition gb200fParamsDefault :: CostModelParams where
  "gb200fParamsDefault = \<lparr>
     gpusPerNode = 64,
     cm_nChannels = 32,
     bwIntra = D 20.29,
     bwInter = D 28.19,
     nvlsEfficiency = D 0.4674,
     graphLatencyInter = D 0.0,
     baseLatencies = [[D 9.025, D 27.0, D 20.83],
        [D 16.40, D 20.29, D 6.237],
        [D 0.0, D 0.0, D 0.0],
        [D 0.0, D 0.0, D 0.0],
        [D 0.0, D 0.0, D 70.78],
        [D 0.0, D 0.0, D 102.0],
        [D 8.0, D 8.0, D 8.0]],
     hwLatencies = [[[D 1.402, D 1.393, D 5.703],
         [D 0.8647, D 1.546, D 6.224],
         [D 0.0, D 0.0, D 0.0],
         [D 0.0, D 0.0, D 0.0],
         [D 0.0, D 0.0, D 42.0],
         [D 0.0, D 0.0, D 39.36],
         [D 0.0, D 0.0, D 4.0]],
        [[D 1.0, D 1.9, D 4.0],
         [D 1.0, D 2.5, D 5.7],
         [D 0.0, D 0.0, D 0.0],
         [D 0.0, D 0.0, D 0.0],
         [D 0.0, D 0.0, D 0.0],
         [D 0.0, D 0.0, D 0.0],
         [D 0.0, D 0.0, D 4.0]],
        [[D 22.41, D 20.91, D 25.16],
         [D 267.7, D 281.0, D 530.8],
         [D 0.0, D 0.0, D 31.0],
         [D 0.0, D 0.0, D 30.0],
         [D 0.0, D 0.0, D 38.83],
         [D 0.0, D 0.0, D 27.59],
         [D 0.0, D 0.0, D 14.0]]],
     llMaxBw = [D 204.6, D 134.1, D 120.5],
     perChMaxRingLL128Bw = [D 124.9, D 175.2, D 16.35],
     perChMaxTreeBw = [D 222.7, D 206.4, D 17.59],
     perChMaxTreeLL128Bw = [D 56.54, D 38.33, D 64.31],
     perChMaxNVLSTreeBw = [D 55.62, D 145.7, D 137.3],
     ringBwCapInter = D 16.0,
     ringBwCapIntra = D 17.5,
     patBwEff = D 0.0,
     patLatPerRank = D 0.0,
     arRegLatScale = replicate 7 (replicate 3 (Fin 0)),
     agRegLatScale = replicate 7 (replicate 3 (Fin 0)),
     disableUnmodeledCells = 0\<rparr>"

definition railNoP2pParamsValidated :: bool where
  "railNoP2pParamsValidated = True"

definition railNoP2pParamsDefault :: CostModelParams where
  "railNoP2pParamsDefault = \<lparr>
     gpusPerNode = 4,
     cm_nChannels = 32,
     bwIntra = D 4.29211,
     bwInter = D 4.29211,
     nvlsEfficiency = D 0.4674,
     graphLatencyInter = D 0.0,
     baseLatencies = [[D 20.6679, D 26.3192, D 25.6124],
        [D (1.91189 / 10 ^ 9), D (2.05101 / 10 ^ 8), D (1.09204 / 10 ^ 10)],
        [D 0.0, D 0.0, D 0.0],
        [D 0.0, D 0.0, D 0.0],
        [D 0.0, D 0.0, D 0.0],
        [D 0.0, D 0.0, D 0.0],
        [D 8.0, D 8.0, D 32.5934]],
     hwLatencies = [[[D 5.0, D 8.5, D 14.0],
         [D 2.7, D 4.0, D 14.0],
         [D 0.0, D 0.0, D 0.0],
         [D 0.0, D 0.0, D 0.0],
         [D 0.0, D 0.0, D 25.0],
         [D 0.0, D 0.0, D 25.0],
         [D 0.0, D 0.0, D 4.0]],
        [[D 1.0, D 1.9, D 4.0],
         [D 1.0, D 2.5, D 5.7],
         [D 0.0, D 0.0, D 3.7],
         [D 0.0, D 0.0, D 2.8],
         [D 0.0, D 0.0, D 0.0],
         [D 0.0, D 0.0, D 0.0],
         [D 0.0, D 0.0, D 4.0]],
        [[D 10.1576, D 10.7845, D 17.4627],
         [D 2.7, D 4.0, D 14.0],
         [D 0.0, D 0.0, D 31.0],
         [D 0.0, D 0.0, D 30.0],
         [D 0.0, D 0.0, D 18.0],
         [D 0.0, D 0.0, D 20.9],
         [D 0.0, D 0.0, D 6.64092]]],
     llMaxBw = [D 282.0, D 90.0, D 4.99782],
     perChMaxRingLL128Bw = [D 40.0, D 40.0, D 5.8313],
     perChMaxTreeBw = [D 70.0, D 42.8, D 2.1473],
     perChMaxTreeLL128Bw = [D 55.6, D 31.67, D 0.890063],
     perChMaxNVLSTreeBw = [D 55.62, D 145.7, D 137.3],
     ringBwCapInter = D 0.0,
     ringBwCapIntra = D 0.0,
     patBwEff = D 0.468895,
     patLatPerRank = D 1.13602,
     arRegLatScale = [[D 1.0, D 1.0, D 1.0],
        [D 1.0, D 1.0, D 1.0],
        [D 1.0, D 1.0, D 1.0],
        [D 1.0, D 1.0, D 1.0],
        [D 1.0, D 1.0, D 1.0],
        [D 1.0, D 1.0, D 1.0],
        [D 1.0, D 1.0, D 1.0]],
     agRegLatScale = [[D 1.0, D 1.0, D 1.0],
        [D 1.0, D 1.0, D 2.0],
        [D 1.0, D 1.0, D 1.0],
        [D 1.0, D 1.0, D 1.0],
        [D 1.0, D 1.0, D 1.0],
        [D 1.0, D 1.0, D 1.0],
        [D 1.0, D 1.0, D 1.0]],
     disableUnmodeledCells = 1\<rparr>"

text \<open>\<open>memset(&ctx->costModel, 0, sizeof(ctx->costModel))\<close>\<close>

definition zeroParams :: CostModelParams where
  "zeroParams = \<lparr>
     gpusPerNode = 0,
     cm_nChannels = 0,
     bwIntra = Fin 0,
     bwInter = Fin 0,
     nvlsEfficiency = Fin 0,
     graphLatencyInter = Fin 0,
     baseLatencies = replicate 7 (replicate 3 (Fin 0)),
     hwLatencies = replicate 3 (replicate 7 (replicate 3 (Fin 0))),
     llMaxBw = replicate 3 (Fin 0),
     perChMaxRingLL128Bw = replicate 3 (Fin 0),
     perChMaxTreeBw = replicate 3 (Fin 0),
     perChMaxTreeLL128Bw = replicate 3 (Fin 0),
     perChMaxNVLSTreeBw = replicate 3 (Fin 0),
     ringBwCapInter = Fin 0,
     ringBwCapIntra = Fin 0,
     patBwEff = Fin 0,
     patLatPerRank = Fin 0,
     arRegLatScale = replicate 7 (replicate 3 (Fin 0)),
     agRegLatScale = replicate 7 (replicate 3 (Fin 0)),
     disableUnmodeledCells = 0\<rparr>"

section \<open>Shape and sign of a parameter set\<close>

text \<open>Every array has its declared dimensions.\<close>

definition table_shape :: "'a list list \<Rightarrow> bool" where
  "table_shape t \<longleftrightarrow> length t = NCCL_NUM_ALGORITHMS \<and> (\<forall>r \<in> set t. length r = NCCL_NUM_PROTOCOLS)"

definition params_shape :: "CostModelParams \<Rightarrow> bool" where
  "params_shape P \<longleftrightarrow> table_shape (baseLatencies P)
     \<and> length (hwLatencies P) = NCCL_NUM_HW_LINKS \<and> (\<forall>t \<in> set (hwLatencies P). table_shape t)
     \<and> length (llMaxBw P) = NCCL_NUM_TUNING_SCALES
     \<and> length (perChMaxRingLL128Bw P) = NCCL_NUM_TUNING_SCALES
     \<and> length (perChMaxTreeBw P) = NCCL_NUM_TUNING_SCALES
     \<and> length (perChMaxTreeLL128Bw P) = NCCL_NUM_TUNING_SCALES
     \<and> length (perChMaxNVLSTreeBw P) = NCCL_NUM_TUNING_SCALES
     \<and> table_shape (arRegLatScale P) \<and> table_shape (agRegLatScale P)"

lemma params_shape_profiles:
  "params_shape gb200fParamsDefault" "params_shape railNoP2pParamsDefault" "params_shape zeroParams"
  by (simp_all add: params_shape_def table_shape_def gb200fParamsDefault_def
      railNoP2pParamsDefault_def zeroParams_def)

end
