(* ===== verification/Tuner_Config.thy ===== *)
theory Tuner_Config
  imports Tuner_Params
begin

text \<open>
  The rule file of the tuner plugin (\<open>tuner/plugin.c\<close>): the name tables, the CSV line parser
  and \<open>loadConfig\<close>. The text of the file is an argument (\<open>None\<close> when \<open>fopen\<close> fails), as is
  the success of the one \<open>malloc\<close>. The log calls have no effect on the state and are left out.
  The lemmas show that the two passes over the file agree, so that the array sized by the first
  pass always holds what the second pass parses, and that a rule written in the documented
  format is read back unchanged.
\<close>

section \<open>Rules\<close>

record TuningConfig =
  collType :: ncclFunc
  minBytes :: size_t
  maxBytes :: size_t
  algorithm :: nat
  protocol :: nat
  cfg_nChannels :: int
  cfg_nNodes :: int
  cfg_nRanks :: int
  cfg_numPipeOps :: int
  cfg_regBuff :: int

definition parseCollType :: "string \<Rightarrow> ncclFunc" where
  "parseCollType s =
    (if strcasecmp_eq s ''broadcast'' then ncclFuncBroadcast
     else if strcasecmp_eq s ''reduce'' then ncclFuncReduce
     else if strcasecmp_eq s ''allgather'' then ncclFuncAllGather
     else if strcasecmp_eq s ''reducescatter'' then ncclFuncReduceScatter
     else if strcasecmp_eq s ''allreduce'' then ncclFuncAllReduce
     else ncclFuncAllReduce)"

fun collTypeToString :: "ncclFunc \<Rightarrow> string" where
  "collTypeToString ncclFuncBroadcast = ''broadcast''"
| "collTypeToString ncclFuncReduce = ''reduce''"
| "collTypeToString ncclFuncAllGather = ''allgather''"
| "collTypeToString ncclFuncReduceScatter = ''reducescatter''"
| "collTypeToString ncclFuncAllReduce = ''allreduce''"
| "collTypeToString _ = ''unknown''"

definition parseAlgorithm :: "string \<Rightarrow> nat" where
  "parseAlgorithm s =
    (if strcasecmp_eq s ''tree'' then NCCL_ALGO_TREE
     else if strcasecmp_eq s ''ring'' then NCCL_ALGO_RING
     else if strcasecmp_eq s ''collnet_direct'' then NCCL_ALGO_COLLNET_DIRECT
     else if strcasecmp_eq s ''collnet_chain'' then NCCL_ALGO_COLLNET_CHAIN
     else if strcasecmp_eq s ''nvls'' then NCCL_ALGO_NVLS
     else if strcasecmp_eq s ''nvls_tree'' then NCCL_ALGO_NVLS_TREE
     else if strcasecmp_eq s ''pat'' then NCCL_ALGO_PAT
     else NCCL_ALGO_RING)"

definition algorithmToString :: "nat \<Rightarrow> string" where
  "algorithmToString a =
    (if a = NCCL_ALGO_TREE then ''tree''
     else if a = NCCL_ALGO_RING then ''ring''
     else if a = NCCL_ALGO_COLLNET_DIRECT then ''collnet_direct''
     else if a = NCCL_ALGO_COLLNET_CHAIN then ''collnet_chain''
     else if a = NCCL_ALGO_NVLS then ''nvls''
     else if a = NCCL_ALGO_NVLS_TREE then ''nvls_tree''
     else if a = NCCL_ALGO_PAT then ''pat''
     else ''unknown'')"

definition parseProtocol :: "string \<Rightarrow> nat" where
  "parseProtocol s =
    (if strcasecmp_eq s ''ll'' then NCCL_PROTO_LL
     else if strcasecmp_eq s ''ll128'' then NCCL_PROTO_LL128
     else if strcasecmp_eq s ''simple'' then NCCL_PROTO_SIMPLE
     else NCCL_PROTO_SIMPLE)"

definition protocolToString :: "nat \<Rightarrow> string" where
  "protocolToString p =
    (if p = NCCL_PROTO_LL then ''ll''
     else if p = NCCL_PROTO_LL128 then ''ll128''
     else if p = NCCL_PROTO_SIMPLE then ''simple''
     else ''unknown'')"

section \<open>Lines\<close>

definition MAX_LINE_LENGTH :: nat where
  "MAX_LINE_LENGTH = 256"

definition CONFIG_FIELDS_REQUIRED :: nat where
  [simp]: "CONFIG_FIELDS_REQUIRED = 8"

definition CONFIG_FIELDS_WITH_PIPEOPS :: nat where
  [simp]: "CONFIG_FIELDS_WITH_PIPEOPS = 9"

definition CONFIG_FIELDS_WITH_REGBUFF :: nat where
  [simp]: "CONFIG_FIELDS_WITH_REGBUFF = 10"

definition CONFIG_FIELDS_MAX :: nat where
  [simp]: "CONFIG_FIELDS_MAX = 10"

text \<open>The lines \<open>fgets(line, MAX_LINE_LENGTH, file)\<close> delivers, each as the C string in the buffer.\<close>

definition file_lines :: "string \<Rightarrow> string list" where
  "file_lines content = map c_str (fgets_all (MAX_LINE_LENGTH - 2) content)"

text \<open>\<open>if (line[0] == '#' || line[0] == '\n') continue;\<close>\<close>

definition skip_line :: "string \<Rightarrow> bool" where
  "skip_line l = (case l of [] \<Rightarrow> False | c # _ \<Rightarrow> c = CHR ''#'' \<or> c = CHR 0x0A)"

text \<open>\<open>line[strcspn(line, "\n")] = 0;\<close>\<close>

definition chomp :: "string \<Rightarrow> string" where
  "chomp l = takeWhile (\<lambda>c. c \<noteq> CHR 0x0A) l"

fun countConfigLines_loop :: "string list \<Rightarrow> int \<Rightarrow> int" where
  "countConfigLines_loop [] count = count"
| "countConfigLines_loop (l # ls) count =
     (if skip_line l then countConfigLines_loop ls count
      else countConfigLines_loop ls (if length (chomp l) > 0 then count + 1 else count))"

definition countConfigLines :: "string option \<Rightarrow> int" where
  "countConfigLines file = (case file of None \<Rightarrow> 0
     | Some content \<Rightarrow> countConfigLines_loop (file_lines content) 0)"

text \<open>
  The trimming of a token. The trailing loop stops at the token's first character
  (\<open>end > token\<close>), so that character stays.
\<close>

definition is_blank :: "char \<Rightarrow> bool" where
  "is_blank c \<longleftrightarrow> c = CHR '' '' \<or> c = CHR 0x09"

definition trim_token :: "string \<Rightarrow> string" where
  "trim_token t = (case dropWhile is_blank t of [] \<Rightarrow> []
     | c # cs \<Rightarrow> c # rev (dropWhile is_blank (rev cs)))"

definition line_tokens :: "string \<Rightarrow> string list" where
  "line_tokens line = map trim_token (take CONFIG_FIELDS_MAX (strtok_all (CHR '','') line))"

definition parse_tokens :: "string list \<Rightarrow> TuningConfig option" where
  "parse_tokens ts =
    (if CONFIG_FIELDS_REQUIRED \<le> length ts \<and> length ts \<le> CONFIG_FIELDS_MAX
     then Some \<lparr> collType = parseCollType (ts ! 0), minBytes = strtoull10 (ts ! 1),
       maxBytes = strtoull10 (ts ! 2), algorithm = parseAlgorithm (ts ! 3),
       protocol = parseProtocol (ts ! 4), cfg_nChannels = atoi (ts ! 5),
       cfg_nNodes = atoi (ts ! 6), cfg_nRanks = atoi (ts ! 7),
       cfg_numPipeOps = (if CONFIG_FIELDS_WITH_PIPEOPS \<le> length ts then atoi (ts ! 8) else - 1),
       cfg_regBuff = (if CONFIG_FIELDS_WITH_REGBUFF \<le> length ts then atoi (ts ! 9) else - 1) \<rparr>
     else None)"

section \<open>Loading\<close>

text \<open>The part of \<open>TunerContext\<close> that \<open>loadConfig\<close> writes. \<open>configs\<close> holds the entries
  written so far of the array of \<open>maxConfigs\<close> entries.\<close>

record ConfigTable =
  configs :: "TuningConfig list"
  numConfigs :: int
  maxConfigs :: int

definition emptyConfigTable :: ConfigTable where
  "emptyConfigTable = \<lparr> configs = [], numConfigs = 0, maxConfigs = 0 \<rparr>"

definition push_config :: "ConfigTable \<Rightarrow> TuningConfig \<Rightarrow> ConfigTable" where
  "push_config ct c = ct\<lparr> configs := configs ct @ [c], numConfigs := numConfigs ct + 1 \<rparr>"

fun loadConfig_loop :: "string list \<Rightarrow> ConfigTable \<Rightarrow> ConfigTable" where
  "loadConfig_loop [] ct = ct"
| "loadConfig_loop (l # ls) ct =
     (if numConfigs ct < maxConfigs ct then
        (if skip_line l then loadConfig_loop ls ct
         else case parse_tokens (line_tokens (chomp l)) of
             Some c \<Rightarrow> loadConfig_loop ls (push_config ct c)
           | None \<Rightarrow> loadConfig_loop ls ct)
      else ct)"

text \<open>\<open>loadConfig\<close>: \<open>file\<close> is the content of the named file, \<open>alloc\<close> whether \<open>malloc\<close> succeeds.\<close>

definition loadConfig :: "bool \<Rightarrow> string option \<Rightarrow> ConfigTable \<Rightarrow> ncclResult \<times> ConfigTable" where
  "loadConfig alloc file ct = (case file of
      None \<Rightarrow> (ncclSuccess, ct)
    | Some content \<Rightarrow>
        (let configCount = countConfigLines file in
         if configCount = 0 then (ncclSuccess, ct)
         else if \<not> alloc then (ncclSystemError, ct)
         else (ncclSuccess, loadConfig_loop (file_lines content)
                 (ct\<lparr> configs := [], maxConfigs := configCount, numConfigs := 0 \<rparr>))))"

section \<open>Lemmas\<close>

subsection \<open>Names\<close>

lemma parseAlgorithm_range: "parseAlgorithm s < NCCL_NUM_ALGORITHMS"
  by (simp add: parseAlgorithm_def)

lemma parseProtocol_range: "parseProtocol s < NCCL_NUM_PROTOCOLS"
  by (simp add: parseProtocol_def)

lemma tolower_names [c_string]:
  "map tolower ''broadcast'' = ''broadcast''" "map tolower ''reduce'' = ''reduce''"
  "map tolower ''allgather'' = ''allgather''" "map tolower ''reducescatter'' = ''reducescatter''"
  "map tolower ''allreduce'' = ''allreduce''" "map tolower ''tree'' = ''tree''"
  "map tolower ''ring'' = ''ring''" "map tolower ''collnet_direct'' = ''collnet_direct''"
  "map tolower ''collnet_chain'' = ''collnet_chain''" "map tolower ''nvls'' = ''nvls''"
  "map tolower ''nvls_tree'' = ''nvls_tree''" "map tolower ''pat'' = ''pat''"
  "map tolower ''ll'' = ''ll''" "map tolower ''ll128'' = ''ll128''"
  "map tolower ''simple'' = ''simple''"
  by (code_simp)+

lemma name_parse:
  "(a < NCCL_NUM_ALGORITHMS \<and> strcasecmp_eq s (algorithmToString a) \<longrightarrow> parseAlgorithm s = a)
   \<and> (p < NCCL_NUM_PROTOCOLS \<and> strcasecmp_eq s (protocolToString p) \<longrightarrow> parseProtocol s = p)
   \<and> (f \<in> {ncclFuncBroadcast, ncclFuncReduce, ncclFuncAllGather, ncclFuncReduceScatter,
           ncclFuncAllReduce} \<and> strcasecmp_eq s (collTypeToString f) \<longrightarrow> parseCollType s = f)"
proof (intro conjI impI; elim conjE)
  assume "a < NCCL_NUM_ALGORITHMS" "strcasecmp_eq s (algorithmToString a)"
  moreover from this(1) have "a \<in> {0, 1, 2, 3, 4, 5, 6}" by auto
  ultimately show "parseAlgorithm s = a"
    by (auto simp add: strcasecmp_eq_def algorithmToString_def parseAlgorithm_def tolower_names
        simp del: list.map)
next
  assume "p < NCCL_NUM_PROTOCOLS" "strcasecmp_eq s (protocolToString p)"
  moreover from this(1) have "p \<in> {0, 1, 2}" by auto
  ultimately show "parseProtocol s = p"
    by (auto simp add: strcasecmp_eq_def protocolToString_def parseProtocol_def tolower_names
        simp del: list.map)
next
  assume "f \<in> {ncclFuncBroadcast, ncclFuncReduce, ncclFuncAllGather, ncclFuncReduceScatter,
     ncclFuncAllReduce}" "strcasecmp_eq s (collTypeToString f)"
  then show "parseCollType s = f"
    by (auto simp add: strcasecmp_eq_def parseCollType_def tolower_names simp del: list.map)
qed

text \<open>Round trip of the name tables: every name the plugin prints for a collective, an algorithm
  or a protocol of its tables is read back as that value, in any mix of upper and lower case.\<close>

theorem names_roundtrip:
  "(a < NCCL_NUM_ALGORITHMS \<and> strcasecmp_eq s (algorithmToString a) \<longrightarrow> parseAlgorithm s = a)
   \<and> (p < NCCL_NUM_PROTOCOLS \<and> strcasecmp_eq s (protocolToString p) \<longrightarrow> parseProtocol s = p)
   \<and> (f \<in> {ncclFuncBroadcast, ncclFuncReduce, ncclFuncAllGather, ncclFuncReduceScatter,
           ncclFuncAllReduce} \<and> strcasecmp_eq s (collTypeToString f) \<longrightarrow> parseCollType s = f)"
  by (rule name_parse)

theorem names_roundtrip_witness:
  "parseAlgorithm ''NVLS_Tree'' = NCCL_ALGO_NVLS_TREE \<and> parseProtocol ''Ll128'' = NCCL_PROTO_LL128
   \<and> parseCollType ''AllGather'' = ncclFuncAllGather"
proof (intro conjI)
  have "strcasecmp_eq ''NVLS_Tree'' (algorithmToString 5)" by code_simp
  then show "parseAlgorithm ''NVLS_Tree'' = NCCL_ALGO_NVLS_TREE"
    using names_roundtrip [of 5 "''NVLS_Tree''"] by simp
  have "strcasecmp_eq ''Ll128'' (protocolToString 1)" by code_simp
  then show "parseProtocol ''Ll128'' = NCCL_PROTO_LL128" using names_roundtrip [of _ "''Ll128''" 1] by simp
  have "strcasecmp_eq ''AllGather'' (collTypeToString ncclFuncAllGather)" by code_simp
  then show "parseCollType ''AllGather'' = ncclFuncAllGather"
    using names_roundtrip [of _ "''AllGather''" _ ncclFuncAllGather] by simp
qed

subsection \<open>The two passes agree\<close>

text \<open>What the file means: one rule per line that is neither skipped nor short of fields.\<close>

definition line_rule :: "string \<Rightarrow> TuningConfig option" where
  "line_rule l = (if skip_line l then None else parse_tokens (line_tokens (chomp l)))"

definition file_rules :: "string \<Rightarrow> TuningConfig list" where
  "file_rules content = List.map_filter line_rule (file_lines content)"

lemma countConfigLines_loop_eq:
  "countConfigLines_loop ls n = n + int (length (filter (\<lambda>l. \<not> skip_line l \<and> chomp l \<noteq> []) ls))"
  by (induction ls arbitrary: n) auto

lemma line_rule_counts: "line_rule l = Some c \<Longrightarrow> \<not> skip_line l \<and> chomp l \<noteq> []"
  by (auto simp: line_rule_def line_tokens_def parse_tokens_def split: if_splits)

lemma length_map_filter_le:
  assumes "\<And>x y. f x = Some y \<Longrightarrow> P x"
  shows "length (List.map_filter f xs) \<le> length (filter P xs)"
  using assms by (induction xs) (auto simp: map_filter_simps split: option.split)

lemma loadConfig_loop_eq:
  assumes "numConfigs ct + int (length (List.map_filter line_rule ls)) \<le> maxConfigs ct"
  shows "loadConfig_loop ls ct =
    ct\<lparr> configs := configs ct @ List.map_filter line_rule ls,
        numConfigs := numConfigs ct + int (length (List.map_filter line_rule ls)) \<rparr>"
  using assms
proof (induction ls arbitrary: ct)
  case Nil
  then show ?case by (simp add: map_filter_simps)
next
  case (Cons l ls)
  show ?case
  proof (cases "numConfigs ct < maxConfigs ct")
    case True
    then show ?thesis
      using Cons.prems Cons.IH [of ct] Cons.IH [of "push_config ct (the (line_rule l))"]
      by (auto simp: line_rule_def map_filter_simps push_config_def split: option.splits if_splits)
  next
    case False
    with Cons.prems have "length (List.map_filter line_rule (l # ls)) = 0" by linarith
    then have "List.map_filter line_rule (l # ls) = []" by (simp only: length_0_conv)
    with False show ?thesis by simp
  qed
qed

lemma file_rules_fit: "int (length (file_rules content)) \<le> countConfigLines (Some content)"
proof -
  have "length (file_rules content)
      \<le> length (filter (\<lambda>l. \<not> skip_line l \<and> chomp l \<noteq> []) (file_lines content))"
    unfolding file_rules_def by (rule length_map_filter_le) (rule line_rule_counts)
  then show ?thesis by (simp add: countConfigLines_def countConfigLines_loop_eq)
qed

lemma loadConfig_eq:
  "loadConfig alloc (Some content) ct =
     (if countConfigLines (Some content) = 0 then (ncclSuccess, ct)
      else if \<not> alloc then (ncclSystemError, ct)
      else (ncclSuccess, ct\<lparr> configs := file_rules content, numConfigs := int (length (file_rules content)),
                             maxConfigs := countConfigLines (Some content) \<rparr>))
   \<and> int (length (file_rules content)) \<le> countConfigLines (Some content)"
proof -
  let ?n = "countConfigLines (Some content)"
  have "loadConfig_loop (file_lines content) (ct\<lparr> configs := [], maxConfigs := ?n, numConfigs := 0 \<rparr>) =
    ct\<lparr> configs := file_rules content, numConfigs := int (length (file_rules content)), maxConfigs := ?n \<rparr>"
    using file_rules_fit [of content] by (subst loadConfig_loop_eq) (simp_all add: file_rules_def)
  then show ?thesis using file_rules_fit [of content] by (simp add: loadConfig_def Let_def)
qed

text \<open>C11 loading a rule file refines its abstract meaning: the array is sized by a separate counting
  pass and the parsing pass stops when it is full, yet no rule is ever dropped and no write is out of
  bounds. The table holds exactly the rules of the file, in order, or is untouched when the file has
  no candidate line; the only failure is that of the allocation.\<close>

theorem loadConfig_refines:
  "loadConfig alloc (Some content) ct =
     (if countConfigLines (Some content) = 0 then (ncclSuccess, ct)
      else if \<not> alloc then (ncclSystemError, ct)
      else (ncclSuccess, ct\<lparr> configs := file_rules content, numConfigs := int (length (file_rules content)),
                             maxConfigs := countConfigLines (Some content) \<rparr>))
   \<and> int (length (file_rules content)) \<le> countConfigLines (Some content)"
  by (rule loadConfig_eq)

subsection \<open>Writing a rule and reading it back\<close>

text \<open>The documented format of a line,
  \<open>colltype,minbytes,maxbytes,algorithm,protocol,channels,nNodes,nRanks,numPipeOps,regBuff\<close>,
  as a printer.\<close>

definition digit_char :: "nat \<Rightarrow> char" where
  "digit_char d = char_of (48 + d)"

fun show_nat :: "nat \<Rightarrow> string" where
  "show_nat n = (if n < 10 then [digit_char n] else show_nat (n div 10) @ [digit_char (n mod 10)])"

declare show_nat.simps [simp del]

definition show_int :: "int \<Rightarrow> string" where
  "show_int i = (if i < 0 then CHR ''-'' # show_nat (nat (- i)) else show_nat (nat i))"

definition config_fields :: "TuningConfig \<Rightarrow> string list" where
  "config_fields c = [collTypeToString (collType c), show_nat (unat (minBytes c)),
     show_nat (unat (maxBytes c)), algorithmToString (algorithm c), protocolToString (protocol c),
     show_int (cfg_nChannels c), show_int (cfg_nNodes c), show_int (cfg_nRanks c),
     show_int (cfg_numPipeOps c), show_int (cfg_regBuff c)]"

fun join_fields :: "string list \<Rightarrow> string" where
  "join_fields [] = []"
| "join_fields [t] = t"
| "join_fields (t # ts) = t @ CHR '','' # join_fields ts"

definition csv_line :: "TuningConfig \<Rightarrow> string" where
  "csv_line c = join_fields (config_fields c) @ [CHR 0x0A]"

definition config_valid :: "TuningConfig \<Rightarrow> bool" where
  "config_valid c \<longleftrightarrow>
     collType c \<in> {ncclFuncBroadcast, ncclFuncReduce, ncclFuncAllGather, ncclFuncReduceScatter,
                    ncclFuncAllReduce}
     \<and> algorithm c < NCCL_NUM_ALGORITHMS \<and> protocol c < NCCL_NUM_PROTOCOLS
     \<and> (\<forall>i \<in> {cfg_nChannels c, cfg_nNodes c, cfg_nRanks c, cfg_numPipeOps c, cfg_regBuff c}.
          - (2 ^ 31) \<le> i \<and> i < 2 ^ 31)"

subsubsection \<open>Numbers\<close>

lemma of_char_digit_char [simp]: "d < 10 \<Longrightarrow> (of_char (digit_char d) :: nat) = 48 + d"
  by (simp add: digit_char_def)

lemma is_digit_digit_char [simp]: "d < 10 \<Longrightarrow> is_digit (digit_char d)"
  by (simp add: is_digit_def)

lemma show_nat_digits: "c \<in> set (show_nat n) \<Longrightarrow> is_digit c"
  by (induction n rule: show_nat.induct) (subst (asm) (2) show_nat.simps, auto split: if_splits)

lemma show_nat_not_Nil [simp]: "show_nat n \<noteq> []"
  by (subst show_nat.simps) simp

lemma digits_val_snoc: "digits_val (ds @ [c]) = 10 * digits_val ds + digit_val c"
  by (simp add: digits_val_def)

lemma digits_val_show_nat [simp]: "digits_val (show_nat n) = n"
proof (induction n rule: show_nat.induct)
  case (1 n)
  show ?case
  proof (cases "n < 10")
    case True
    then show ?thesis by (simp add: show_nat.simps [of n] digits_val_def digit_val_def)
  next
    case False
    with 1 have "digits_val (show_nat (n div 10)) = n div 10" by simp
    with False show ?thesis
      by (simp add: show_nat.simps [of n] digits_val_snoc digit_val_def)
  qed
qed

lemma length_show_nat: "n < 10 ^ Suc k \<Longrightarrow> length (show_nat n) \<le> Suc k"
proof (induction k arbitrary: n)
  case 0
  then show ?case by (simp add: show_nat.simps [of n])
next
  case (Suc k)
  then have "length (show_nat (n div 10)) \<le> Suc k" by (intro Suc.IH) (simp add: less_mult_imp_div_less)
  then show ?case by (subst show_nat.simps) simp
qed

lemma is_digit_not_special:
  "is_digit c \<Longrightarrow> \<not> is_space c \<and> c \<noteq> CHR ''-'' \<and> c \<noteq> CHR ''+'' \<and> c \<noteq> CHR '',''
     \<and> \<not> is_blank c \<and> c \<noteq> CHR 0x0A \<and> c \<noteq> CHR 0x00 \<and> c \<noteq> CHR ''#''"
  by (auto simp: is_digit_def is_space_def is_blank_def)

lemma take_sign_show_nat: "take_sign (show_nat n) = (False, show_nat n)"
proof -
  obtain c cs where s: "show_nat n = c # cs" by (cases "show_nat n") auto
  then have "is_digit c" using show_nat_digits [of c n] by simp
  then show ?thesis using is_digit_not_special [of c] by (simp add: take_sign_def s)
qed

lemma dropWhile_space_show_nat: "dropWhile is_space (show_nat n) = show_nat n"
proof -
  obtain c cs where s: "show_nat n = c # cs" by (cases "show_nat n") auto
  then have "is_digit c" using show_nat_digits [of c n] by simp
  then show ?thesis using is_digit_not_special [of c] by (simp add: s)
qed

lemma skip_sign_show:
  "skip_sign (show_nat n) = (False, show_nat n)"
  "skip_sign (CHR ''-'' # show_nat n) = (True, show_nat n)"
  by (simp_all add: skip_sign_def take_sign_show_nat dropWhile_space_show_nat is_space_def)
    (simp add: take_sign_def)

lemma takeWhile_digit_show_nat: "takeWhile is_digit (show_nat n) = show_nat n"
  using show_nat_digits by (simp add: takeWhile_eq_all_conv)

lemma strtoull10_show: "strtoull10 (show_nat (unat w)) = w"
proof -
  have "unat w < 2 ^ 64" using unsigned_less [of w] by simp
  then show ?thesis
    by (simp add: strtoull10_def skip_sign_show takeWhile_digit_show_nat Let_def not_le)
qed

lemma int_of_long_small:
  assumes "- (2 ^ 31) \<le> i" "i < 2 ^ 31"
  shows "int_of_long i = i"
proof -
  have "sint (word_of_int i :: u32) = signed_take_bit 31 i"
    by (simp add: signed_take_bit_take_bit sint_uint uint_word_of_int_eq)
  with assms show ?thesis by (simp add: int_of_long_def signed_take_bit_int_eq_self)
qed

lemma atoi_show_int:
  assumes "- (2 ^ 31) \<le> i" "i < 2 ^ 31"
  shows "atoi (show_int i) = i"
proof -
  have "strtol10 (show_int i) = Some i"
    using assms by (auto simp: strtol10_def show_int_def skip_sign_show takeWhile_digit_show_nat
        Let_def)
  then show ?thesis using int_of_long_small [OF assms] by (simp add: atoi_def)
qed

subsubsection \<open>Fields, lines and files\<close>

definition plain_token :: "string \<Rightarrow> bool" where
  "plain_token t \<longleftrightarrow> t \<noteq> [] \<and>
     (\<forall>c \<in> set t. \<not> is_blank c \<and> c \<noteq> CHR '','' \<and> c \<noteq> CHR 0x0A \<and> c \<noteq> CHR 0x00)"

lemma dropWhile_none: "\<forall>x \<in> set ys. \<not> P x \<Longrightarrow> dropWhile P ys = ys"
  by (induction ys) simp_all

lemma plain_token_trim: "plain_token t \<Longrightarrow> trim_token t = t"
proof -
  assume p: "plain_token t"
  then obtain c cs where t: "t = c # cs" by (cases t) (auto simp: plain_token_def)
  have "\<forall>x \<in> set (rev cs). \<not> is_blank x" using p t by (auto simp: plain_token_def)
  then have "dropWhile is_blank (rev cs) = rev cs" by (rule dropWhile_none)
  moreover have "dropWhile is_blank t = t" using p by (intro dropWhile_none) (simp add: plain_token_def)
  ultimately show ?thesis by (simp add: trim_token_def t)
qed

lemma strtok_join: "\<forall>t \<in> set ts. plain_token t \<Longrightarrow> strtok_all (CHR '','') (join_fields ts) = ts"
proof (induction ts rule: join_fields.induct)
  case (2 t)
  then show ?case
    unfolding join_fields.simps by (intro strtok_all_token(2)) (auto simp: plain_token_def)
next
  case (3 t u ts)
  then have "strtok_all (CHR '','') (t @ CHR '','' # join_fields (u # ts))
      = t # strtok_all (CHR '','') (join_fields (u # ts))"
    by (intro strtok_all_token(1)) (auto simp: plain_token_def)
  with 3 show ?case by simp
qed simp

lemma set_join_fields: "set (join_fields ts) \<subseteq> insert (CHR '','') (\<Union> (set ` set ts))"
  by (induction ts rule: join_fields.induct) auto

lemma length_join_fields: "length (join_fields ts) \<le> sum_list (map length ts) + length ts"
  by (induction ts rule: join_fields.induct) auto

lemma plain_show_nat: "plain_token (show_nat n)"
  using show_nat_digits is_digit_not_special by (fastforce simp: plain_token_def)

lemma plain_show_int: "plain_token (show_int i)"
  using plain_show_nat by (auto simp: show_int_def plain_token_def is_blank_def)

lemma plain_names:
  "plain_token (collTypeToString f)" "plain_token (algorithmToString a)"
  "plain_token (protocolToString p)"
  by (cases f) (auto simp: plain_token_def is_blank_def algorithmToString_def protocolToString_def)

lemma plain_config_fields: "\<forall>t \<in> set (config_fields c). plain_token t"
  by (auto simp: config_fields_def plain_names plain_show_int plain_show_nat)

lemma length_names:
  "length (collTypeToString f) \<le> 13" "length (algorithmToString a) \<le> 14"
  "length (protocolToString p) \<le> 7"
  by (cases f) (auto simp: algorithmToString_def protocolToString_def)

lemma length_show_word: "length (show_nat (unat w)) \<le> 20" for w :: u64
proof -
  have "unat w < 10 ^ Suc 19" using unsigned_less [of w, where ?'a = nat] by simp
  then show ?thesis using length_show_nat [of "unat w" 19] by simp
qed

lemma length_show_int: "- (2 ^ 31) \<le> i \<Longrightarrow> i < 2 ^ 31 \<Longrightarrow> length (show_int i) \<le> 11"
proof -
  assume "- (2 ^ 31) \<le> i" "i < 2 ^ 31"
  then have "nat (- i) < 10 ^ Suc 9" "nat i < 10 ^ Suc 9" by auto
  then have "length (show_nat (nat (- i))) \<le> 10" "length (show_nat (nat i)) \<le> 10"
    using length_show_nat [of "nat (- i)" 9] length_show_nat [of "nat i" 9] by simp_all
  then show ?thesis by (simp add: show_int_def)
qed

lemma length_csv_line:
  assumes "config_valid c"
  shows "length (csv_line c) \<le> MAX_LINE_LENGTH - 1"
proof -
  have i: "\<And>i. i \<in> {cfg_nChannels c, cfg_nNodes c, cfg_nRanks c, cfg_numPipeOps c, cfg_regBuff c}
      \<Longrightarrow> length (show_int i) \<le> 11"
    using assms unfolding config_valid_def by (blast intro: length_show_int)
  have "length (join_fields (config_fields c)) \<le> sum_list (map length (config_fields c)) + 10"
    using length_join_fields [of "config_fields c"] by (simp add: config_fields_def)
  also have "sum_list (map length (config_fields c)) \<le> 13 + 20 + 20 + 14 + 7 + 11 * 5"
    using i [of "cfg_nChannels c"] i [of "cfg_nNodes c"] i [of "cfg_nRanks c"]
      i [of "cfg_numPipeOps c"] i [of "cfg_regBuff c"] length_show_word [of "minBytes c"]
      length_show_word [of "maxBytes c"] length_names(1) [of "collType c"]
      length_names(2) [of "algorithm c"] length_names(3) [of "protocol c"]
    by (simp add: config_fields_def)
  finally show ?thesis by (simp add: csv_line_def MAX_LINE_LENGTH_def)
qed

lemma join_config_chars:
  "x \<in> set (join_fields (config_fields c)) \<Longrightarrow> x \<noteq> CHR 0x0A \<and> x \<noteq> CHR 0x00"
  using set_join_fields [of "config_fields c"] plain_config_fields [of c]
  by (fastforce simp: plain_token_def)

lemma csv_line_parts:
  "chomp (csv_line c) = join_fields (config_fields c)" "c_str (csv_line c) = csv_line c"
  "\<not> skip_line (csv_line c)"
proof -
  have "takeWhile (\<lambda>c. c \<noteq> CHR 0x0A) (join_fields (config_fields c)) = join_fields (config_fields c)"
    using join_config_chars by (simp add: takeWhile_eq_all_conv)
  then show "chomp (csv_line c) = join_fields (config_fields c)"
    using join_config_chars by (simp add: chomp_def csv_line_def takeWhile_append2)
  show "c_str (csv_line c) = csv_line c"
    using join_config_chars unfolding c_str_def by (auto simp: csv_line_def takeWhile_eq_all_conv)
  show "\<not> skip_line (csv_line c)"
    by (cases "collType c") (auto simp: skip_line_def csv_line_def config_fields_def)
qed

lemma line_rule_csv_line:
  assumes "config_valid c"
  shows "line_rule (csv_line c) = Some c"
proof -
  have t: "line_tokens (join_fields (config_fields c)) = config_fields c"
  proof -
    have "length (config_fields c) = CONFIG_FIELDS_MAX" by (simp add: config_fields_def)
    then show ?thesis
      unfolding line_tokens_def strtok_join [OF plain_config_fields]
      using plain_config_fields [of c] by (simp add: plain_token_trim map_idI)
  qed
  have refl: "strcasecmp_eq s s" for s by (simp add: strcasecmp_eq_def)
  have n: "parseCollType (collTypeToString (collType c)) = collType c"
    "parseAlgorithm (algorithmToString (algorithm c)) = algorithm c"
    "parseProtocol (protocolToString (protocol c)) = protocol c"
    using assms refl name_parse unfolding config_valid_def by blast+
  show ?thesis
    using assms unfolding line_rule_def csv_line_parts(1) t
    by (simp add: csv_line_parts(3) parse_tokens_def config_fields_def n strtoull10_show
        config_valid_def atoi_show_int)
qed

lemma fgets_line_newline:
  "CHR 0x0A \<notin> set l \<Longrightarrow> length l \<le> n \<Longrightarrow>
   fgets_line (Suc n) (l @ CHR 0x0A # rest) = (l @ [CHR 0x0A], rest)"
proof (induction l arbitrary: n)
  case (Cons c l)
  then obtain m where "n = Suc m" by (cases n) auto
  with Cons show ?case by auto
qed simp

lemma file_lines_csv:
  assumes "config_valid c"
  shows "file_lines (csv_line c @ rest) = csv_line c # file_lines rest"
proof -
  let ?l = "join_fields (config_fields c)" and ?n = "MAX_LINE_LENGTH - 2"
  have "length ?l \<le> ?n"
    using length_csv_line [OF assms] by (simp add: csv_line_def MAX_LINE_LENGTH_def)
  then have g: "fgets_line (Suc ?n) (csv_line c @ rest) = (csv_line c, rest)"
    using join_config_chars fgets_line_newline [of ?l ?n rest] by (fastforce simp: csv_line_def)
  obtain x xs where x: "csv_line c @ rest = x # xs"
    by (cases "csv_line c @ rest") (auto simp: csv_line_def)
  then have "fgets_all ?n (csv_line c @ rest) = csv_line c # fgets_all ?n rest"
    using g by (simp only: fgets_all.simps fst_conv snd_conv)
  then show ?thesis by (simp only: file_lines_def list.map csv_line_parts)
qed

lemma file_rules_csv:
  "\<forall>c \<in> set cs. config_valid c \<Longrightarrow> file_rules (concat (map csv_line cs)) = cs"
proof (induction cs)
  case Nil
  show ?case by (simp add: file_rules_def file_lines_def map_filter_simps)
next
  case (Cons c cs)
  then show ?case
    by (simp add: file_rules_def file_lines_csv line_rule_csv_line map_filter_simps)
qed

text \<open>C31 round trip of the rule file: loading a file that holds any list of valid rules in the documented
  format, one per line with all ten fields, succeeds and yields exactly that list, in order.\<close>

theorem loadConfig_roundtrip:
  assumes "\<forall>c \<in> set cs. config_valid c"
  shows "fst (loadConfig True (Some (concat (map csv_line cs))) emptyConfigTable) = ncclSuccess
    \<and> configs (snd (loadConfig True (Some (concat (map csv_line cs))) emptyConfigTable)) = cs"
  using loadConfig_eq [of True "concat (map csv_line cs)" emptyConfigTable] file_rules_csv [OF assms]
  by (auto simp: emptyConfigTable_def split: if_splits)

theorem loadConfig_roundtrip_witness:
  "configs (snd (loadConfig True (Some (concat (map csv_line
     [\<lparr> collType = ncclFuncAllReduce, minBytes = 0, maxBytes = 65536, algorithm = NCCL_ALGO_TREE,
        protocol = NCCL_PROTO_LL128, cfg_nChannels = 4, cfg_nNodes = 2, cfg_nRanks = - 1,
        cfg_numPipeOps = - 1, cfg_regBuff = 0 \<rparr>]))) emptyConfigTable))
   = [\<lparr> collType = ncclFuncAllReduce, minBytes = 0, maxBytes = 65536, algorithm = NCCL_ALGO_TREE,
        protocol = NCCL_PROTO_LL128, cfg_nChannels = 4, cfg_nNodes = 2, cfg_nRanks = - 1,
        cfg_numPipeOps = - 1, cfg_regBuff = 0 \<rparr>]"
  by (rule loadConfig_roundtrip [THEN conjunct2]) (simp add: config_valid_def)

end
