(* ===== verification/Tuner_Cost.thy ===== *)
theory Tuner_Cost
  imports Tuner_Params
begin

text \<open>
  The analytical cost model of the tuner plugin (\<open>tuner/plugin.c\<close>): bandwidths, caps, latencies,
  and the predicted time of a cell. Times are \<open>float\<close> values; \<open>None\<close> is the trap of the
  division \<open>nRanks / nNodes\<close> by zero. The out-parameters \<open>outAlgoBw\<close> and \<open>outBusBw\<close> feed the
  trace log only and are left out. Rank and node counts are below \<open>2^30\<close> in NCCL, so the
  \<open>int\<close> arithmetic on them does not overflow and is done on \<^typ>\<open>int\<close>.
\<close>

section \<open>Helpers\<close>

text \<open>\<open>costLog2i\<close>: the loop with its counter \<open>r\<close>.\<close>

function costLog2i_loop :: "int \<Rightarrow> int \<Rightarrow> int" where
  "costLog2i_loop n r = (if n > 1 then costLog2i_loop (n div 2) (r + 1) else r)"
  by pat_completeness auto
termination
  by (relation "measure (\<lambda>(n, r). nat n)") auto

declare costLog2i_loop.simps [simp del]

definition costLog2i :: "int \<Rightarrow> int" where
  "costLog2i n = costLog2i_loop n 0"

section \<open>Bandwidth\<close>

definition perChannelBw ::
  "CostModelParams \<Rightarrow> nat \<Rightarrow> nat \<Rightarrow> nat \<Rightarrow> int \<Rightarrow> int \<Rightarrow> fp \<Rightarrow> fp" where
  "perChannelBw P algo proto scale nNodes nChannels nvlsPipelineFactor =
    (let bw0 = (if nNodes < 2 then bwIntra P else bwInter P);
         bw1 = (if algo = NCCL_ALGO_RING \<and> nNodes \<ge> 2 \<and> fp_lt (Fin 0) (ringBwCapInter P)
                   \<and> fp_lt (ringBwCapInter P) bw0
                then ringBwCapInter P else bw0)
     in if algo = NCCL_ALGO_NVLS \<or> algo = NCCL_ALGO_NVLS_TREE then
          (if proto \<noteq> NCCL_PROTO_SIMPLE then Fin (- 1)
           else if nChannels < 2 then Fin (- 1)
           else
             (let intra0 = ddiv (dmul (dmul (bwIntra P) (nvlsEfficiency P))
                                      (double_of_int (nChannels - 1))) (double_of_int nChannels);
                  intraBw = dmul intra0 nvlsPipelineFactor;
                  interBw = dmul (bwInter P)
                    (if nNodes \<le> 2 \<and> algo = NCCL_ALGO_NVLS_TREE then Fin 2 else Fin 1);
                  nvlsCap = (if algo = NCCL_ALGO_NVLS_TREE then perChMaxNVLSTreeBw P ! scale
                             else D (10 ^ 30));
                  bw2 = (if fp_lt interBw intraBw then interBw else intraBw)
              in if fp_lt nvlsCap bw2 then nvlsCap else bw2))
        else bw1)"

definition applyProtocolCap ::
  "fp \<Rightarrow> nat \<Rightarrow> nat \<Rightarrow> CostModelParams \<Rightarrow> nat \<Rightarrow> int \<Rightarrow> int \<Rightarrow> fp" where
  "applyProtocolCap busBw algo proto P scale nNodes nChannels =
    (if algo = NCCL_ALGO_RING \<and> proto = NCCL_PROTO_LL then
       fp_cap (llMaxBw P ! scale) (dmul busBw (D 0.5))
     else if algo = NCCL_ALGO_RING \<and> proto = NCCL_PROTO_LL128 then
       fp_cap (dmul (double_of_int nChannels) (perChMaxRingLL128Bw P ! scale)) (dmul busBw (D 0.78))
     else if algo = NCCL_ALGO_TREE then
       (let bus1 = fp_cap (dmul (double_of_int nChannels) (perChMaxTreeBw P ! scale))
                          (dmul busBw (D 0.92))
        in if proto = NCCL_PROTO_LL then fp_cap (llMaxBw P ! scale) (ddiv bus1 (D 3.8))
           else if proto = NCCL_PROTO_LL128 then
             (let factor = (if nNodes = 1 then ddiv (Fin 7) (Fin 9) else ddiv (Fin 120) (Fin 128))
              in fp_cap (dmul (double_of_int nChannels) (perChMaxTreeLL128Bw P ! scale))
                        (dmul bus1 factor))
           else bus1)
     else busBw)"

definition busBwToAlgoBw :: "fp \<Rightarrow> nat \<Rightarrow> ncclFunc \<Rightarrow> int \<Rightarrow> fp" where
  "busBwToAlgoBw busBw algo coll nRanks =
    (if nRanks \<le> 1 then busBw
     else if coll = ncclFuncAllReduce then
       (if algo = NCCL_ALGO_RING \<or> algo = NCCL_ALGO_NVLS \<or> algo = NCCL_ALGO_NVLS_TREE then
          dmul busBw (ddiv (double_of_int nRanks) (double_of_int (2 * (nRanks - 1))))
        else if algo = NCCL_ALGO_TREE then dmul busBw (D 0.5)
        else Fin (- 1))
     else if coll = ncclFuncAllGather \<or> coll = ncclFuncReduceScatter then
       (if algo = NCCL_ALGO_RING \<or> algo = NCCL_ALGO_NVLS then
          dmul busBw (ddiv (double_of_int nRanks) (double_of_int (nRanks - 1)))
        else Fin (- 1))
     else Fin (- 1))"

section \<open>Latency\<close>

definition algoLatency ::
  "CostModelParams \<Rightarrow> nat \<Rightarrow> nat \<Rightarrow> ncclFunc \<Rightarrow> int \<Rightarrow> int \<Rightarrow> int \<Rightarrow> fp" where
  "algoLatency P algo proto coll nRanks nNodes ppn =
    (let baseLat = baseLatencies P ! algo ! proto;
         intraLat = hwLatencies P ! NCCL_HW_NVLINK ! algo ! proto;
         algoForNet = (if ppn = 1 then NCCL_ALGO_TREE else algo);
         inter0 = hwLatencies P ! NCCL_HW_NET ! algoForNet ! proto;
         inter1 = dadd inter0 (graphLatencyInter P);
         interLat = (if proto = NCCL_PROTO_SIMPLE then dadd inter1 (graphLatencyInter P) else inter1)
     in if coll \<noteq> ncclFuncAllReduce \<and> coll \<noteq> ncclFuncAllGather \<and> coll \<noteq> ncclFuncReduceScatter
        then Fin (- 1)
        else
          (let nsteps = (if coll = ncclFuncAllReduce then 2 * (nRanks - 1) else nRanks - 1);
               nInter = (if nNodes = 1 then 0
                         else if coll = ncclFuncAllReduce then 2 * (nNodes - 1) else nNodes - 1)
           in if algo = NCCL_ALGO_RING then
                dadd baseLat (dadd (dmul (double_of_int (nsteps - nInter)) intraLat)
                                   (dmul (double_of_int nInter) interLat))
              else if algo = NCCL_ALGO_TREE \<and> coll = ncclFuncAllReduce then
                dadd baseLat (dmul (Fin 2)
                  (dadd (dmul (double_of_int (ppn - 1)) intraLat)
                        (dmul (double_of_int (costLog2i nNodes)) interLat)))
              else if algo = NCCL_ALGO_NVLS then
                (if nNodes > 1 then dadd intraLat interLat else intraLat)
              else if algo = NCCL_ALGO_NVLS_TREE \<and> coll = ncclFuncAllReduce then
                dadd baseLat (dadd intraLat
                  (dmul (dmul (Fin 2) (double_of_int (costLog2i nNodes))) interLat))
              else Fin (- 1)))"

definition regLatScaleFor :: "CostModelParams \<Rightarrow> ncclFunc \<Rightarrow> nat \<Rightarrow> nat \<Rightarrow> int \<Rightarrow> fp" where
  "regLatScaleFor P coll algo proto regBuff =
    (if regBuff = 0 then Fin 1
     else if coll = ncclFuncAllReduce then
       (let s = arRegLatScale P ! algo ! proto in if fp_lt (Fin 0) s then s else Fin 1)
     else if coll = ncclFuncAllGather then
       (let s = agRegLatScale P ! algo ! proto in if fp_lt (Fin 0) s then s else Fin 1)
     else Fin 1)"

section \<open>Predicted times\<close>

text \<open>The topology the context holds, as the \<open>int\<close> casts of its \<open>size_t\<close> fields.\<close>

record Topo =
  t_nRanks :: int
  t_nNodes :: int

definition tuning_scale :: "int \<Rightarrow> nat" where
  "tuning_scale nNodes = (if nNodes \<le> 1 then 0 else if nNodes \<le> 2 then 1 else 2)"

definition latCountOf :: "nat \<Rightarrow> int \<Rightarrow> int" where
  "latCountOf algo numPipeOps =
    (let c = (if algo = NCCL_ALGO_RING then numPipeOps else c_quot (numPipeOps + 3) 4)
     in if c < 1 then 1 else c)"

text \<open>\<open>timeUs = lat * latCount + nBytes / (1000 * algoBw)\<close>, returned as a \<open>float\<close>.\<close>

definition finalTime :: "fp \<Rightarrow> int \<Rightarrow> size_t \<Rightarrow> fp \<Rightarrow> fp" where
  "finalTime lat latCount nBytes algoBw =
    float_of_double (dadd (dmul lat (double_of_int latCount))
                          (ddiv (double_of_size nBytes) (dmul (Fin 1000) algoBw)))"

definition computeAllReduceTime ::
  "CostModelParams \<Rightarrow> Topo \<Rightarrow> nat \<Rightarrow> nat \<Rightarrow> size_t \<Rightarrow> int \<Rightarrow> int \<Rightarrow> fp option" where
  "computeAllReduceTime P T algo proto nBytes numPipeOps regBuff =
    (let nRanks = t_nRanks T; nNodes = t_nNodes T in
     if nRanks \<le> 1 then Some (Fin 0)
     else case c_div nRanks nNodes of None \<Rightarrow> None
     | Some ppn \<Rightarrow>
      (let nChannels = cm_nChannels P; scale = tuning_scale nNodes in
       if algo = NCCL_ALGO_NVLS \<and> nNodes > 1 then Some (Fin (- 1))
       else
        (let bw0 = perChannelBw P algo proto scale nNodes nChannels (Fin 2) in
         if fp_lt bw0 (Fin 0) then Some (Fin (- 1))
         else
          (let bw = (if algo = NCCL_ALGO_RING \<and> proto = NCCL_PROTO_SIMPLE \<and> nNodes = 1
                        \<and> fp_lt (Fin 0) (ringBwCapIntra P) \<and> fp_lt (ringBwCapIntra P) bw0
                     then ringBwCapIntra P else bw0);
               busBw = applyProtocolCap (dmul (double_of_int nChannels) bw) algo proto P scale
                         nNodes nChannels;
               algoBw = busBwToAlgoBw busBw algo ncclFuncAllReduce nRanks
           in if fp_le algoBw (Fin 0) then Some (Fin (- 1))
              else
               (let lat = algoLatency P algo proto ncclFuncAllReduce nRanks nNodes ppn in
                if fp_lt lat (Fin 0) then Some (Fin (- 1))
                else Some (finalTime
                       (dmul lat (regLatScaleFor P ncclFuncAllReduce algo proto regBuff))
                       (latCountOf algo numPipeOps) nBytes algoBw))))))"

definition computeAllGatherOrRSTime ::
  "CostModelParams \<Rightarrow> Topo \<Rightarrow> ncclFunc \<Rightarrow> nat \<Rightarrow> nat \<Rightarrow> size_t \<Rightarrow> int \<Rightarrow> int \<Rightarrow> fp option" where
  "computeAllGatherOrRSTime P T coll algo proto nBytes numPipeOps regBuff =
    (let nRanks = t_nRanks T; nNodes = t_nNodes T in
     if nRanks \<le> 1 then Some (Fin 0)
     else case c_div nRanks nNodes of None \<Rightarrow> None
     | Some ppn \<Rightarrow>
      (let nChannels = cm_nChannels P; scale = tuning_scale nNodes in
       if algo = NCCL_ALGO_PAT then
         (if fp_le (patBwEff P) (Fin 0) \<or> proto \<noteq> NCCL_PROTO_SIMPLE \<or> nNodes \<noteq> nRanks
          then Some (Fin (- 1))
          else
           (let perCh = (if nNodes < 2 then bwIntra P else bwInter P);
                busBw = dmul (dmul (double_of_int nChannels) perCh) (patBwEff P);
                algoBw = busBw
            in if fp_le algoBw (Fin 0) then Some (Fin (- 1))
               else
                (let stepLat = dadd (hwLatencies P ! NCCL_HW_NET ! NCCL_ALGO_PAT ! proto)
                                    (dmul (Fin 2) (graphLatencyInter P));
                     lat = dadd (dadd (baseLatencies P ! NCCL_ALGO_PAT ! proto)
                                      (dmul (double_of_int (costLog2i nNodes)) stepLat))
                                (dmul (double_of_int nRanks) (patLatPerRank P))
                 in Some (finalTime (dmul lat (regLatScaleFor P coll algo proto regBuff))
                            (latCountOf algo numPipeOps) nBytes algoBw))))
       else if algo = NCCL_ALGO_NVLS \<and> nNodes > 1 then Some (Fin (- 1))
       else if algo = NCCL_ALGO_TREE \<or> algo = NCCL_ALGO_NVLS_TREE then Some (Fin (- 1))
       else
        (let bw = perChannelBw P algo proto scale nNodes nChannels (Fin 1) in
         if fp_lt bw (Fin 0) then Some (Fin (- 1))
         else
          (let busBw = applyProtocolCap (dmul (double_of_int nChannels) bw) algo proto P scale
                         nNodes nChannels;
               algoBw = busBwToAlgoBw busBw algo coll nRanks
           in if fp_le algoBw (Fin 0) then Some (Fin (- 1))
              else
               (let lat = algoLatency P algo proto coll nRanks nNodes ppn in
                if fp_lt lat (Fin 0) then Some (Fin (- 1))
                else Some (finalTime (dmul lat (regLatScaleFor P coll algo proto regBuff))
                       (latCountOf algo numPipeOps) nBytes algoBw))))))"

definition computeAllGatherTime ::
  "CostModelParams \<Rightarrow> Topo \<Rightarrow> nat \<Rightarrow> nat \<Rightarrow> size_t \<Rightarrow> int \<Rightarrow> int \<Rightarrow> fp option" where
  "computeAllGatherTime P T = computeAllGatherOrRSTime P T ncclFuncAllGather"

definition computeReduceScatterTime ::
  "CostModelParams \<Rightarrow> Topo \<Rightarrow> nat \<Rightarrow> nat \<Rightarrow> size_t \<Rightarrow> int \<Rightarrow> int \<Rightarrow> fp option" where
  "computeReduceScatterTime P T = computeAllGatherOrRSTime P T ncclFuncReduceScatter"

section \<open>The logarithm\<close>

lemma costLog2i_loop_spec:
  "1 \<le> n \<Longrightarrow> \<exists>k. costLog2i_loop n r = r + int k \<and> 2 ^ k \<le> n \<and> n < 2 ^ Suc k"
proof (induction n r rule: costLog2i_loop.induct)
  case (1 n r)
  show ?case
  proof (cases "n > 1")
    case True
    then have "1 \<le> n div 2" by simp
    with 1 True obtain k where "costLog2i_loop (n div 2) (r + 1) = r + 1 + int k"
      "2 ^ k \<le> n div 2" "n div 2 < 2 ^ Suc k" by auto
    with True show ?thesis
      by (intro exI [of _ "Suc k"]) (auto simp: costLog2i_loop.simps [of n r])
  next
    case False
    with 1 have "n = 1" by simp
    then show ?thesis by (intro exI [of _ 0]) (simp add: costLog2i_loop.simps [of 1 r])
  qed
qed

text \<open>The loop of \<open>costLog2i\<close> returns the floor of the base-2 logarithm of every positive \<open>int\<close>.\<close>

theorem costLog2i_floor: "1 \<le> n \<Longrightarrow> \<exists>k. costLog2i n = int k \<and> 2 ^ k \<le> n \<and> n < 2 ^ Suc k"
  using costLog2i_loop_spec [of n 0] by (simp add: costLog2i_def)

theorem costLog2i_floor_witness: "\<exists>k. costLog2i 72 = int k \<and> 2 ^ k \<le> (72 :: int) \<and> 72 < (2 :: int) ^ Suc k"
  by (rule costLog2i_floor) simp

lemma costLog2i_nonneg: "0 \<le> costLog2i n"
proof (cases "1 \<le> n")
  case True
  then show ?thesis using costLog2i_loop_spec [of n 0] by (auto simp: costLog2i_def)
next
  case False
  then show ?thesis by (simp add: costLog2i_def costLog2i_loop.simps [of n])
qed

section \<open>Times\<close>

lemma dmul_Fin: "dmul a b = Fin x \<Longrightarrow> \<exists>z. d64 z = Fin x"
  by (cases a; cases b) (auto split: if_splits)

lemma d64_scale_pos: "fp_pos (d64 z) \<Longrightarrow> d64 z = Fin x \<Longrightarrow> fp_pos (d64 (1000 * x))"
proof -
  assume a: "fp_pos (d64 z)" "d64 z = Fin x"
  then have x: "x = rnd 53 (- 1074) z" "0 < x"
    by (auto simp: d64_def fp_round_def Let_def split: if_splits)
  then have "0 < rnd 53 (- 1074) (1000 * x)" using r64.scale_pos [of z 1000] by simp
  then show ?thesis by (auto simp: d64_def fp_round_def Let_def)
qed

lemma dmul_scale_pos:
  assumes "algoBw = dmul a b" "fp_pos algoBw"
  shows "fp_pos (dmul (Fin 1000) algoBw)"
proof (cases algoBw)
  case (Fin x)
  then obtain z where z: "d64 z = Fin x" using dmul_Fin [of a b x] assms(1) by metis
  have "fp_pos (d64 z)" unfolding z using assms(2) Fin by (simp only:)
  then show ?thesis unfolding Fin dmul.simps by (rule d64_scale_pos) (rule z)
qed (use assms(2) in auto)

lemma double_of_size_mono: "n1 \<le> n2 \<Longrightarrow> fp_le (double_of_size n1) (double_of_size n2)"
proof -
  assume "n1 \<le> n2"
  then have "(of_nat (unat n1) :: rat) \<le> of_nat (unat n2)"
    by (simp only: of_nat_le_iff word_le_nat_alt)
  then show ?thesis unfolding double_of_size_def by (rule d64_mono)
qed

lemma double_of_size_nonneg: "fp_nonneg (double_of_size n)"
  unfolding double_of_size_def by (rule d64_nonneg) (rule of_nat_0_le_iff)

lemma double_of_size_finite: "double_of_size n \<noteq> Inf s"
proof -
  define x :: rat where "x = of_nat (unat n)"
  have "unat n \<le> 2 ^ 64" using unsigned_less [of n, where ?'a = nat] by simp
  then have "(of_nat (unat n) :: rat) \<le> of_nat (2 ^ 64)" by (simp only: of_nat_le_iff)
  then have le: "x \<le> 2 powi 64" by (simp add: x_def power_int_def)
  have x: "0 \<le> x" unfolding x_def by (rule of_nat_0_le_iff)
  have "rnd 53 (- 1074) x \<le> 2 powi 64" by (rule rnd_le_pow) (use le x in auto)
  moreover have "0 \<le> rnd 53 (- 1074) x" using x by (rule r64.nonneg)
  moreover have "(2 :: rat) powi 64 < 2 powi (1023 + 1)" by (rule power_int_strict_increasing) auto
  ultimately show ?thesis
    unfolding double_of_size_def d64_def fp_round_def Let_def x_def [symmetric] by auto
qed

lemma ddiv_size_nonneg: "fp_pos c \<Longrightarrow> fp_nonneg (ddiv (double_of_size n) c)"
  using double_of_size_nonneg [of n] double_of_size_finite [of n]
  by (cases c; cases "double_of_size n") auto

lemma ddiv_size_mono:
  "fp_pos c \<Longrightarrow> n1 \<le> n2 \<Longrightarrow> fp_le (ddiv (double_of_size n1) c) (ddiv (double_of_size n2) c)"
  using ddiv_mono [of c "double_of_size n1" "double_of_size n2"] double_of_size_mono [of n1 n2]
    double_of_size_nonneg [of n1] double_of_size_finite by blast

lemma dadd_mono_any:
  assumes "fp_nonneg a" "fp_le a b" "dadd c b \<noteq> NaN"
  shows "fp_le (dadd c a) (dadd c b)"
proof (cases c; cases a; cases b)
  fix x y t assume "c = Fin x" "a = Fin y" "b = Inf t"
  with assms show ?thesis by (cases "d64 (x + y)") (auto dest: d64_not_NaN [THEN notE])
qed (use assms in \<open>auto simp: d64_mono split: if_splits\<close>)

text \<open>A time is monotone in the message size, whatever the latency is, as long as the bandwidth is the
  positive product the code computes.\<close>

lemma finalTime_mono:
  assumes "algoBw = dmul a b" "\<not> fp_le algoBw (Fin 0)" "n1 \<le> n2"
    and "finalTime lat k n2 algoBw \<noteq> NaN"
  shows "fp_le (finalTime lat k n1 algoBw) (finalTime lat k n2 algoBw)"
proof (cases "algoBw = NaN")
  case True
  then have "ddiv (double_of_size n2) (dmul (Fin 1000) algoBw) = NaN"
    by (cases "double_of_size n2") auto
  with assms(4) show ?thesis
    by (cases "dmul lat (double_of_int k)") (auto simp: finalTime_def)
next
  case False
  with assms(2) have "fp_pos algoBw" by (simp add: fp_not_le)
  then have c: "fp_pos (dmul (Fin 1000) algoBw)" using assms(1) dmul_scale_pos by blast
  have "dadd (dmul lat (double_of_int k)) (ddiv (double_of_size n2) (dmul (Fin 1000) algoBw)) \<noteq> NaN"
    using assms(4) by (auto simp: finalTime_def)
  then show ?thesis
    unfolding finalTime_def
    by (intro float_of_double_mono dadd_mono_any ddiv_size_mono ddiv_size_nonneg c assms(3))
qed

lemma finalTime_nonneg:
  assumes "algoBw = dmul a b" "\<not> fp_le algoBw (Fin 0)" "\<not> fp_lt lat (Fin 0)" "fp_pos sc" "1 \<le> k"
  shows "fp_nonneg (finalTime (dmul lat sc) k n algoBw) \<or> finalTime (dmul lat sc) k n algoBw = NaN"
proof (cases "algoBw = NaN \<or> dmul (dmul lat sc) (double_of_int k) = NaN")
  case True
  then show ?thesis
    by (cases "double_of_size n"; cases "dmul (dmul lat sc) (double_of_int k)")
      (auto simp: finalTime_def)
next
  case False
  with assms(2) have "fp_pos algoBw" by (simp add: fp_not_le)
  then have "fp_pos (dmul (Fin 1000) algoBw)" using assms(1) dmul_scale_pos by blast
  then have q: "fp_nonneg (ddiv (double_of_size n) (dmul (Fin 1000) algoBw))" by (rule ddiv_size_nonneg)
  have "lat \<noteq> NaN" "dmul lat sc \<noteq> NaN" using False by auto
  then have "fp_nonneg (dmul lat sc)"
    using assms(3,4) dmul_nonneg [of lat sc] by (auto simp: fp_not_lt fp_lt_imp_le)
  moreover have "fp_nonneg (double_of_int k)" using assms(5) by (simp add: double_of_int_def)
  ultimately have "fp_nonneg (dmul (dmul lat sc) (double_of_int k))" using False dmul_nonneg by blast
  with q show ?thesis by (simp add: finalTime_def float_of_double_nonneg dadd_nonneg)
qed

lemma latCountOf_pos: "1 \<le> latCountOf algo n"
  by (simp add: latCountOf_def Let_def)

lemma regLatScaleFor_pos: "fp_pos (regLatScaleFor P coll algo proto regBuff)"
  by (auto simp: regLatScaleFor_def Let_def)

lemma busBwToAlgoBw_dmul:
  assumes "\<not> fp_le (busBwToAlgoBw busBw algo coll nRanks) (Fin 0)" "1 < nRanks"
  obtains a b where "busBwToAlgoBw busBw algo coll nRanks = dmul a b"
  using assms by (auto simp: busBwToAlgoBw_def split: if_splits)

subsection \<open>What every cell function has in common\<close>

text \<open>
  The table filler calls a cell function through a pointer. As a function of the message size it
  traps, returns a constant, or returns the final time for a positive bandwidth: this contract gives
  monotonicity once for all three collectives.
\<close>

locale cost_fn =
  fixes f :: "size_t \<Rightarrow> fp option"
  assumes shape: "(\<forall>n. f n = None) \<or> (\<exists>c. c \<noteq> NaN \<and> (\<forall>n. f n = Some c)) \<or>
    (\<exists>lat k a b. \<not> fp_le (dmul a b) (Fin 0) \<and> (\<forall>n. f n = Some (finalTime lat k n (dmul a b))))"
begin

lemma time_mono:
  assumes "n1 \<le> n2" "f n1 = Some t1" "f n2 = Some t2" "t2 \<noteq> NaN"
  shows "fp_le t1 t2"
proof -
  consider "f n1 = None" | c where "c \<noteq> NaN" "f n1 = Some c" "f n2 = Some c"
    | lat k a b where "\<not> fp_le (dmul a b) (Fin 0)"
      "f n1 = Some (finalTime lat k n1 (dmul a b))" "f n2 = Some (finalTime lat k n2 (dmul a b))"
    using shape by metis
  then show ?thesis
  proof cases
    case (3 lat k a b)
    with assms show ?thesis using finalTime_mono [of "dmul a b" a b n1 n2 lat k] by simp
  qed (use assms in auto)
qed

lemma trap_size_independent: "f n1 = None \<longleftrightarrow> f n2 = None"
  using shape by force

end

lemma shape_none: "cost_fn (\<lambda>n. None)"
  by unfold_locales simp

lemma shape_const: "cost_fn (\<lambda>n. Some (Fin x))"
  by unfold_locales auto

lemma shape_if:
  "(c \<Longrightarrow> cost_fn f) \<Longrightarrow> (\<not> c \<Longrightarrow> cost_fn g) \<Longrightarrow> cost_fn (\<lambda>n. if c then f n else g n)"
  by (cases c) simp_all

lemma shape_case:
  "cost_fn (\<lambda>n. None) \<Longrightarrow> (\<And>x. cost_fn (f x)) \<Longrightarrow>
   cost_fn (\<lambda>n. case q of None \<Rightarrow> None | Some x \<Rightarrow> f x n)"
  by (cases q) simp_all

lemma shape_time:
  "\<not> fp_le (dmul a b) (Fin 0) \<Longrightarrow> cost_fn (\<lambda>n. Some (finalTime lat k n (dmul a b)))"
  by unfold_locales blast

lemma shape_time_algoBw:
  assumes "\<not> nRanks \<le> 1" "\<not> fp_le (busBwToAlgoBw bus algo coll nRanks) (Fin 0)"
  shows "cost_fn (\<lambda>n. Some (finalTime lat k n (busBwToAlgoBw bus algo coll nRanks)))"
proof -
  obtain a b where "busBwToAlgoBw bus algo coll nRanks = dmul a b"
    using busBwToAlgoBw_dmul [OF assms(2)] assms(1) by auto
  with assms(2) show ?thesis using shape_time [of a b lat k] by simp
qed

lemmas cost_fn_shapes = shape_if shape_case shape_none shape_const shape_time shape_time_algoBw

interpretation ar: cost_fn "\<lambda>n. computeAllReduceTime P T algo proto n numPipeOps regBuff"
  for P T algo proto numPipeOps regBuff
  unfolding computeAllReduceTime_def Let_def by (intro cost_fn_shapes)

interpretation agrs: cost_fn "\<lambda>n. computeAllGatherOrRSTime P T coll algo proto n numPipeOps regBuff"
  for P T coll algo proto numPipeOps regBuff
  unfolding computeAllGatherOrRSTime_def Let_def by (intro cost_fn_shapes)

text \<open>C30 the predicted time of a cell never decreases when the message grows: for each of the three
  modelled collectives, if both sizes are priced (or both refused) and the larger one is a number, the
  smaller message is predicted no slower, rounding to \<open>double\<close> and to \<open>float\<close> included.\<close>

theorem cost_time_monotone:
  assumes "f \<in> {computeAllReduceTime, computeAllGatherTime, computeReduceScatterTime}"
    and "n1 \<le> n2"
    and "f P T algo proto n1 numPipeOps regBuff = Some t1"
    and "f P T algo proto n2 numPipeOps regBuff = Some t2" and "t2 \<noteq> NaN"
  shows "fp_le t1 t2"
proof -
  from assms(1) consider "f = computeAllReduceTime" | "f = computeAllGatherTime"
    | "f = computeReduceScatterTime" by blast
  then show ?thesis
  proof cases
    case 1
    show ?thesis using assms(2-5) unfolding 1 by (rule ar.time_mono)
  next
    case 2
    show ?thesis using assms(2-5) unfolding 2 computeAllGatherTime_def by (rule agrs.time_mono)
  next
    case 3
    show ?thesis using assms(2-5) unfolding 3 computeReduceScatterTime_def by (rule agrs.time_mono)
  qed
qed

text \<open>A small parameter set: two channels of 8 and 4 GB/s, no latency.\<close>

lemma example_time:
  assumes "unat n < 2 ^ 24" "8000 dvd unat n"
  shows "computeAllReduceTime (zeroParams\<lparr> cm_nChannels := 2, bwIntra := Fin 8, bwInter := Fin 4 \<rparr>)
      \<lparr> t_nRanks = 2, t_nNodes = 2 \<rparr> NCCL_ALGO_RING NCCL_PROTO_SIMPLE n 1 0
    = Some (Fin (of_nat (unat n) / 8000))"
proof -
  obtain m where m: "unat n = 8000 * m" using assms(2) by (auto simp: dvd_def)
  have "d64 (of_int (int (8000 * m))) = Fin (of_int (int (8000 * m)))"
    by (rule d64_int) (use assms(1) m in simp)
  moreover have "d64 (of_int (int m)) = Fin (of_int (int m))"
    by (rule d64_int) (use assms(1) m in simp)
  moreover have "f32 (of_int (int m)) = Fin (of_int (int m))"
    by (rule f32_int) (use assms(1) m in simp)
  ultimately show ?thesis
    by (simp add: computeAllReduceTime_def zeroParams_def c_div_def c_quot_def tuning_scale_def perChannelBw_def
        applyProtocolCap_def busBwToAlgoBw_def algoLatency_def regLatScaleFor_def latCountOf_def finalTime_def
        double_of_int_def double_of_size_def Let_def d64_numeral m)
qed

theorem cost_time_monotone_witness:
  "computeAllReduceTime (zeroParams\<lparr> cm_nChannels := 2, bwIntra := Fin 8, bwInter := Fin 4 \<rparr>)
      \<lparr> t_nRanks = 2, t_nNodes = 2 \<rparr> NCCL_ALGO_RING NCCL_PROTO_SIMPLE 16000 1 0 = Some (Fin 2)
   \<and> fp_le (Fin 1) (Fin 2)"
proof
  have u: "unat (8000 :: size_t) = 8000" "unat (16000 :: size_t) = 16000" by simp_all
  let ?t = "\<lambda>n. computeAllReduceTime (zeroParams\<lparr> cm_nChannels := 2, bwIntra := Fin 8, bwInter := Fin 4 \<rparr>)
      \<lparr> t_nRanks = 2, t_nNodes = 2 \<rparr> NCCL_ALGO_RING NCCL_PROTO_SIMPLE n 1 0"
  show t2: "?t 16000 = Some (Fin 2)" using example_time [of 16000] unfolding u by simp
  have t1: "?t 8000 = Some (Fin 1)" using example_time [of 8000] unfolding u by simp
  show "fp_le (Fin 1) (Fin 2)" by (rule cost_time_monotone [of computeAllReduceTime, OF _ _ t1 t2]) simp_all
qed

subsection \<open>The sign of a time\<close>

definition time_ok :: "fp option \<Rightarrow> bool" where
  "time_ok r \<longleftrightarrow> (case r of None \<Rightarrow> False | Some t \<Rightarrow> t = Fin (- 1) \<or> fp_nonneg t \<or> t = NaN)"

lemma time_ok_if: "(c \<Longrightarrow> time_ok x) \<Longrightarrow> (\<not> c \<Longrightarrow> time_ok y) \<Longrightarrow> time_ok (if c then x else y)"
  by simp

lemma time_ok_const: "time_ok (Some (Fin 0))" "time_ok (Some (Fin (- 1)))"
  by (simp_all add: time_ok_def)

lemma time_ok_final:
  assumes "\<not> nRanks \<le> 1" "\<not> fp_le (busBwToAlgoBw bus algo coll nRanks) (Fin 0)" "\<not> fp_lt lat (Fin 0)"
  shows "time_ok (Some (finalTime (dmul lat (regLatScaleFor P c a p r)) (latCountOf a' q) n
            (busBwToAlgoBw bus algo coll nRanks)))"
proof -
  obtain x y where "busBwToAlgoBw bus algo coll nRanks = dmul x y"
    using busBwToAlgoBw_dmul [OF assms(2)] assms(1) by auto
  from finalTime_nonneg [OF this assms(2,3) regLatScaleFor_pos latCountOf_pos]
  show ?thesis by (auto simp: time_ok_def)
qed

lemma time_ok_computeAllReduceTime:
  "t_nNodes T \<noteq> 0 \<Longrightarrow> time_ok (computeAllReduceTime P T algo proto n numPipeOps regBuff)"
  unfolding computeAllReduceTime_def Let_def c_div_def if_not_P option.case
  by (intro time_ok_if time_ok_const time_ok_final)

lemma time_ok_computeAllGatherOrRSTime:
  "t_nNodes T \<noteq> 0 \<Longrightarrow> algo \<noteq> NCCL_ALGO_PAT \<Longrightarrow>
   time_ok (computeAllGatherOrRSTime P T coll algo proto n numPipeOps regBuff)"
  unfolding computeAllGatherOrRSTime_def Let_def c_div_def if_not_P option.case
  by (intro time_ok_if time_ok_const time_ok_final)

text \<open>No cell function traps when the node count is not zero, and the result is the code's refusal
  \<open>-1.0f\<close>, a time that is at least zero, or not a number; the one exception is PAT, whose latency the
  code does not check.\<close>

theorem cost_time_sign:
  assumes "f \<in> {computeAllReduceTime, computeAllGatherTime, computeReduceScatterTime}"
    and "t_nNodes T \<noteq> 0" and "f = computeAllReduceTime \<or> algo \<noteq> NCCL_ALGO_PAT"
  shows "\<exists>t. f P T algo proto n numPipeOps regBuff = Some t
           \<and> (t = Fin (- 1) \<or> fp_nonneg t \<or> t = NaN)"
proof -
  have "time_ok (f P T algo proto n numPipeOps regBuff)"
    using assms time_ok_computeAllReduceTime time_ok_computeAllGatherOrRSTime
    by (auto simp: computeAllGatherTime_def computeReduceScatterTime_def simp del: NCCL_ALGO_PAT_def)
  then show ?thesis by (auto simp: time_ok_def split: option.splits)
qed

theorem cost_time_sign_witness:
  "\<exists>t. computeAllGatherTime railNoP2pParamsDefault \<lparr> t_nRanks = 8, t_nNodes = 2 \<rparr> NCCL_ALGO_RING
      NCCL_PROTO_LL 4096 1 0 = Some t \<and> (t = Fin (- 1) \<or> fp_nonneg t \<or> t = NaN)"
  by (rule cost_time_sign) simp_all

end
