(* ===== verification/Tuner_Table.thy ===== *)
theory Tuner_Table
  imports Tuner_Cost
begin

text \<open>
  The loop of the tuner (\<open>tuner/plugin.c\<close>, \<open>applyCostModelGeneric\<close>) that fills NCCL's cost
  table with predicted times. A table is the contiguous array \<open>float[numAlgo][NCCL_NUM_PROTOCOLS]\<close>
  that NCCL passes, as a list read at \<open>a * NCCL_NUM_PROTOCOLS + p\<close>. The cell function, a pointer in the
  code, is an argument; \<open>None\<close> is its trap. The main theorem gives every cell of the result.
\<close>

section \<open>Filling the cost table\<close>

definition cell :: "nat \<Rightarrow> nat \<Rightarrow> nat" where
  "cell a p = a * NCCL_NUM_PROTOCOLS + p"

record FillState =
  fs_table :: "fp list"
  populated :: int
  unpriced :: "nat list"

text \<open>One iteration of the nested loop over algorithms \<open>a\<close> and protocols \<open>p\<close>.\<close>

definition cost_cell :: "(nat \<Rightarrow> nat \<Rightarrow> fp option) \<Rightarrow> nat \<times> nat \<Rightarrow> FillState \<Rightarrow> FillState option" where
  "cost_cell computeFn ap s = (case ap of (a, p) \<Rightarrow>
     if fp_eq (fs_table s ! cell a p) NCCL_ALGO_PROTO_IGNORE then Some s
     else case computeFn a p of
        None \<Rightarrow> None
      | Some t \<Rightarrow>
          if fp_lt t (Fin 0) then Some (s\<lparr> unpriced := unpriced s @ [cell a p] \<rparr>)
          else Some (s\<lparr> fs_table := (fs_table s)[cell a p := t], populated := populated s + 1 \<rparr>))"

fun cost_loop :: "(nat \<Rightarrow> nat \<Rightarrow> fp option) \<Rightarrow> (nat \<times> nat) list \<Rightarrow> FillState \<Rightarrow> FillState option" where
  "cost_loop computeFn [] s = Some s"
| "cost_loop computeFn (ap # aps) s =
     (case cost_cell computeFn ap s of None \<Rightarrow> None | Some s' \<Rightarrow> cost_loop computeFn aps s')"

definition loop_cells :: "int \<Rightarrow> int \<Rightarrow> (nat \<times> nat) list" where
  "loop_cells numAlgo numProto =
     List.product [0..<min (nat numAlgo) NCCL_NUM_ALGORITHMS] [0..<min (nat numProto) NCCL_NUM_PROTOCOLS]"

text \<open>The second loop: \<open>a = unpriced[i] / NCCL_NUM_PROTOCOLS, p = unpriced[i] % NCCL_NUM_PROTOCOLS\<close>.\<close>

fun disable_cells :: "nat list \<Rightarrow> fp list \<Rightarrow> fp list" where
  "disable_cells [] t = t"
| "disable_cells (u # us) t =
     disable_cells us (t[cell (u div NCCL_NUM_PROTOCOLS) (u mod NCCL_NUM_PROTOCOLS)
                         := COST_MODEL_DISABLED_COST])"

definition applyCostModelGeneric ::
  "CostModelParams \<Rightarrow> (nat \<Rightarrow> nat \<Rightarrow> fp option) \<Rightarrow> int \<Rightarrow> int \<Rightarrow> fp list \<Rightarrow> (int \<times> fp list) option" where
  "applyCostModelGeneric P computeFn numAlgo numProto table =
    (case cost_loop computeFn (loop_cells numAlgo numProto)
            \<lparr> fs_table = table, populated = 0, unpriced = [] \<rparr> of
       None \<Rightarrow> None
     | Some s \<Rightarrow> Some (populated s,
         if populated s > 0 \<and> disableUnmodeledCells P \<noteq> 0
         then disable_cells (unpriced s) (fs_table s) else fs_table s))"

definition applyCostModelAllReduce ::
  "CostModelParams \<Rightarrow> Topo \<Rightarrow> size_t \<Rightarrow> int \<Rightarrow> int \<Rightarrow> fp list \<Rightarrow> int \<Rightarrow> int \<Rightarrow> (int \<times> fp list) option" where
  "applyCostModelAllReduce P T nBytes numPipeOps regBuff table numAlgo numProto =
     applyCostModelGeneric P (\<lambda>a p. computeAllReduceTime P T a p nBytes numPipeOps regBuff)
       numAlgo numProto table"

definition applyCostModelAllGather ::
  "CostModelParams \<Rightarrow> Topo \<Rightarrow> size_t \<Rightarrow> int \<Rightarrow> int \<Rightarrow> fp list \<Rightarrow> int \<Rightarrow> int \<Rightarrow> (int \<times> fp list) option" where
  "applyCostModelAllGather P T nBytes numPipeOps regBuff table numAlgo numProto =
     applyCostModelGeneric P (\<lambda>a p. computeAllGatherTime P T a p nBytes numPipeOps regBuff)
       numAlgo numProto table"

definition applyCostModelReduceScatter ::
  "CostModelParams \<Rightarrow> Topo \<Rightarrow> size_t \<Rightarrow> int \<Rightarrow> int \<Rightarrow> fp list \<Rightarrow> int \<Rightarrow> int \<Rightarrow> (int \<times> fp list) option" where
  "applyCostModelReduceScatter P T nBytes numPipeOps regBuff table numAlgo numProto =
     applyCostModelGeneric P (\<lambda>a p. computeReduceScatterTime P T a p nBytes numPipeOps regBuff)
       numAlgo numProto table"

section \<open>What the loop does to each cell\<close>

text \<open>A cell is skipped when NCCL marked it, else it is priced when the cell function answers with a
  time that is not negative.\<close>

definition skipped :: "fp list \<Rightarrow> nat \<times> nat \<Rightarrow> bool" where
  "skipped table = (\<lambda>(a, p). fp_eq (table ! cell a p) NCCL_ALGO_PROTO_IGNORE)"

definition is_priced :: "(nat \<Rightarrow> nat \<Rightarrow> fp option) \<Rightarrow> fp list \<Rightarrow> nat \<times> nat \<Rightarrow> bool" where
  "is_priced f table = (\<lambda>(a, p). \<not> skipped table (a, p) \<and> \<not> fp_lt (the (f a p)) (Fin 0))"

abbreviation idx :: "nat \<times> nat \<Rightarrow> nat" where
  "idx \<equiv> \<lambda>(a, p). cell a p"

lemma skipped_update:
  "idx ap \<noteq> i \<Longrightarrow> skipped (table[i := v]) ap = skipped table ap"
  by (cases ap) (simp add: skipped_def)

lemma is_priced_update:
  "idx ap \<noteq> i \<Longrightarrow> is_priced f (table[i := v]) ap = is_priced f table ap"
  by (cases ap) (simp add: is_priced_def skipped_update)

text \<open>The result of the loop, cell by cell. The cells are visited once each, so a later iteration
  reads what NCCL passed, not what an earlier one wrote.\<close>

definition priced_table :: "(nat \<Rightarrow> nat \<Rightarrow> fp option) \<Rightarrow> (nat \<times> nat) list \<Rightarrow> fp list \<Rightarrow> fp list" where
  "priced_table f aps table =
     fold (\<lambda>(a, p) t. t[cell a p := the (f a p)]) (filter (is_priced f table) aps) table"

lemma cost_loop_result:
  assumes "distinct (map idx aps)" "\<forall>(a, p) \<in> set aps. f a p \<noteq> None"
  shows "cost_loop f aps s = Some \<lparr>
      fs_table = priced_table f aps (fs_table s),
      populated = populated s + int (length (filter (is_priced f (fs_table s)) aps)),
      unpriced = unpriced s @ map idx (filter (\<lambda>ap. \<not> skipped (fs_table s) ap \<and> \<not> is_priced f (fs_table s) ap) aps) \<rparr>"
  using assms
proof (induction aps arbitrary: s)
  case Nil
  then show ?case by (cases s) (simp add: priced_table_def)
next
  case (Cons ap aps)
  obtain a p where ap: "ap = (a, p)" by (cases ap)
  from Cons.prems ap obtain t where t: "f a p = Some t" by auto
  have other: "idx q \<noteq> cell a p" if "q \<in> set aps" for q
    using Cons.prems(1) ap that by (force simp: image_iff)
  have IH: "cost_loop f aps s' = Some \<lparr>
      fs_table = priced_table f aps (fs_table s'),
      populated = populated s' + int (length (filter (is_priced f (fs_table s')) aps)),
      unpriced = unpriced s' @ map idx (filter (\<lambda>ap. \<not> skipped (fs_table s') ap \<and> \<not> is_priced f (fs_table s') ap) aps) \<rparr>"
    for s'
    using Cons by simp
  have upd: "filter (is_priced f ((fs_table s)[cell a p := t])) aps = filter (is_priced f (fs_table s)) aps"
    "filter (\<lambda>ap. \<not> skipped ((fs_table s)[cell a p := t]) ap \<and> \<not> is_priced f ((fs_table s)[cell a p := t]) ap) aps
     = filter (\<lambda>ap. \<not> skipped (fs_table s) ap \<and> \<not> is_priced f (fs_table s) ap) aps"
    by (intro filter_cong refl; simp only: is_priced_update [OF other] skipped_update [OF other])+
  show ?case
    by (cases s) (use upd in \<open>auto simp: IH ap t cost_cell_def is_priced_def skipped_def priced_table_def\<close>)
qed

lemma fold_update_length [simp]:
  "length (fold (\<lambda>(a, p) t. t[cell a p := g a p]) aps table) = length table"
  by (induction aps arbitrary: table) auto

lemma fold_update_other:
  "i \<notin> idx ` set aps \<Longrightarrow> fold (\<lambda>(a, p) t. t[cell a p := g a p]) aps table ! i = table ! i"
  by (induction aps arbitrary: table) (auto simp: nth_list_update)

lemma fold_update_at:
  "distinct (map idx aps) \<Longrightarrow> (a, p) \<in> set aps \<Longrightarrow> cell a p < length table \<Longrightarrow>
   fold (\<lambda>(a, p) t. t[cell a p := g a p]) aps table ! cell a p = g a p"
proof (induction aps arbitrary: table)
  case (Cons ap aps)
  obtain b q where ap: "ap = (b, q)" by (cases ap)
  show ?case
  proof (cases "(a, p) \<in> set aps")
    case True
    with Cons show ?thesis by (auto simp: ap)
  next
    case False
    with Cons.prems ap have "a = b" "p = q" "cell a p \<notin> idx ` set aps" by auto
    with Cons.prems show ?thesis using fold_update_other [of "cell a p" aps g] by (simp add: ap)
  qed
qed simp

lemma disable_cells_length [simp]: "length (disable_cells us t) = length t"
  by (induction us arbitrary: t) auto

lemma cell_div_mod [simp]: "cell (u div NCCL_NUM_PROTOCOLS) (u mod NCCL_NUM_PROTOCOLS) = u"
  by (simp add: cell_def)

lemma disable_cells_nth:
  "i < length t \<Longrightarrow> disable_cells us t ! i = (if i \<in> set us then COST_MODEL_DISABLED_COST else t ! i)"
  by (induction us arbitrary: t) (auto simp: nth_list_update simp del: NCCL_NUM_PROTOCOLS_def)

lemma loop_cells_set:
  "(a, p) \<in> set (loop_cells numAlgo numProto) \<longleftrightarrow>
   int a < numAlgo \<and> a < NCCL_NUM_ALGORITHMS \<and> int p < numProto \<and> p < NCCL_NUM_PROTOCOLS"
  by (auto simp: loop_cells_def)

lemma cell_eq_iff: "p < 3 \<Longrightarrow> q < 3 \<Longrightarrow> cell a p = cell b q \<longleftrightarrow> a = b \<and> p = q"
  by (simp add: cell_def) presburger

lemma loop_cells_distinct: "distinct (map idx (loop_cells numAlgo numProto))"
proof -
  have "inj_on idx (set (loop_cells numAlgo numProto))"
    by (rule inj_onI) (auto simp: loop_cells_set cell_eq_iff)
  then show ?thesis by (simp add: distinct_map loop_cells_def distinct_product)
qed

section \<open>The cost table NCCL reads back\<close>

text \<open>What a cell holds afterwards, from what it held before and the answer \<open>t\<close> of the cell function.\<close>

definition table_spec :: "bool \<Rightarrow> fp \<Rightarrow> fp \<Rightarrow> fp" where
  "table_spec disable t old =
     (if fp_eq old NCCL_ALGO_PROTO_IGNORE then old
      else if fp_lt t (Fin 0) then (if disable then COST_MODEL_DISABLED_COST else old)
      else t)"

definition priced_cells :: "(nat \<Rightarrow> nat \<Rightarrow> fp option) \<Rightarrow> int \<Rightarrow> int \<Rightarrow> fp list \<Rightarrow> (nat \<times> nat) list" where
  "priced_cells f numAlgo numProto table = filter (is_priced f table) (loop_cells numAlgo numProto)"

lemma applyCostModelGeneric_spec:
  assumes "\<And>a p. f a p \<noteq> None" and "length table = NCCL_NUM_ALGORITHMS * NCCL_NUM_PROTOCOLS"
    and priced_def: "priced = priced_cells f numAlgo numProto table"
    and disable_def: "disable \<longleftrightarrow> length priced \<noteq> 0 \<and> disableUnmodeledCells P \<noteq> 0"
  shows "\<exists>table'. applyCostModelGeneric P f numAlgo numProto table = Some (int (length priced), table')
    \<and> length table' = length table
    \<and> (\<forall>a < NCCL_NUM_ALGORITHMS. \<forall>p < NCCL_NUM_PROTOCOLS.
         table' ! cell a p = (if int a < numAlgo \<and> int p < numProto
           then table_spec disable (the (f a p)) (table ! cell a p) else table ! cell a p))"
proof -
  let ?cells = "loop_cells numAlgo numProto"
  let ?t1 = "priced_table f ?cells table"
  let ?us = "map idx (filter (\<lambda>ap. \<not> skipped table ap \<and> \<not> is_priced f table ap) ?cells)"
  let ?t2 = "if disable then disable_cells ?us ?t1 else ?t1"
  have run: "applyCostModelGeneric P f numAlgo numProto table = Some (int (length priced), ?t2)"
    using cost_loop_result [OF loop_cells_distinct, of numAlgo numProto f
        "\<lparr> fs_table = table, populated = 0, unpriced = [] \<rparr>"] assms(1)
    by (auto simp: applyCostModelGeneric_def priced_def priced_cells_def disable_def split: prod.splits)
  have dist: "distinct (map idx (filter (is_priced f table) ?cells))"
    using loop_cells_distinct by (rule distinct_map_filter)
  have at: "?t2 ! cell a p = (if int a < numAlgo \<and> int p < numProto
           then table_spec disable (the (f a p)) (table ! cell a p) else table ! cell a p)"
    if ap: "a < NCCL_NUM_ALGORITHMS" "p < NCCL_NUM_PROTOCOLS" for a p
  proof -
    have len: "cell a p < length table" using ap assms(2) by (simp add: cell_def)
    have mem: "(cell a p \<in> idx ` {x \<in> set ?cells. Q x}) \<longleftrightarrow> int a < numAlgo \<and> int p < numProto \<and> Q (a, p)" for Q
      using ap by (auto simp: loop_cells_set cell_eq_iff image_iff split: prod.splits)
    have t1: "?t1 ! cell a p = (if int a < numAlgo \<and> int p < numProto \<and> is_priced f table (a, p)
        then the (f a p) else table ! cell a p)"
      using fold_update_at [OF dist, of a p table "\<lambda>a p. the (f a p)"]
        fold_update_other [of "cell a p" "filter (is_priced f table) ?cells" "\<lambda>a p. the (f a p)" table]
        mem [of "is_priced f table"] len ap
      by (auto simp: priced_table_def loop_cells_set)
    have us: "cell a p \<in> set ?us \<longleftrightarrow> int a < numAlgo \<and> int p < numProto
        \<and> \<not> skipped table (a, p) \<and> \<not> is_priced f table (a, p)"
      using mem by simp
    show ?thesis
      using t1 us len
      by (auto simp: disable_cells_nth priced_table_def table_spec_def is_priced_def skipped_def)
  qed
  have "length ?t2 = length table" by (simp add: priced_table_def)
  with run at show ?thesis by blast
qed

lemma computeAllGatherOrRSTime_total:
  "t_nNodes T \<noteq> 0 \<Longrightarrow> computeAllGatherOrRSTime P T coll a p n k r \<noteq> None"
  by (simp add: computeAllGatherOrRSTime_def c_div_def Let_def)

lemma computeAllReduceTime_total:
  "t_nNodes T \<noteq> 0 \<Longrightarrow> computeAllReduceTime P T a p n k r \<noteq> None"
  by (simp add: computeAllReduceTime_def c_div_def Let_def)

text \<open>C29 the cost table after the cost model ran, for AllReduce, AllGather and ReduceScatter. The run
  never traps when the node count is not zero. It returns the number of cells it priced. A cell outside
  the loop's range, or marked \<open>NCCL_ALGO_PROTO_IGNORE\<close> by NCCL, keeps its value; a cell with a time that
  is not negative gets that time; any other cell is disabled when the profile asks for it and at least one
  cell was priced, and keeps NCCL's own estimate otherwise.\<close>

theorem cost_table_filled:
  assumes "(apply, time) \<in> {(applyCostModelAllReduce, computeAllReduceTime),
      (applyCostModelAllGather, computeAllGatherTime), (applyCostModelReduceScatter, computeReduceScatterTime)}"
    and "t_nNodes T \<noteq> 0" and "length table = NCCL_NUM_ALGORITHMS * NCCL_NUM_PROTOCOLS"
    and "n = length (priced_cells (\<lambda>a p. time P T a p nBytes numPipeOps regBuff) numAlgo numProto table)"
  shows "\<exists>table'. apply P T nBytes numPipeOps regBuff table numAlgo numProto = Some (int n, table')
    \<and> length table' = length table
    \<and> (\<forall>a < NCCL_NUM_ALGORITHMS. \<forall>p < NCCL_NUM_PROTOCOLS.
         table' ! cell a p = (if int a < numAlgo \<and> int p < numProto
           then table_spec (n \<noteq> 0 \<and> disableUnmodeledCells P \<noteq> 0)
                  (the (time P T a p nBytes numPipeOps regBuff)) (table ! cell a p)
           else table ! cell a p))"
proof -
  let ?f = "\<lambda>a p. time P T a p nBytes numPipeOps regBuff"
  have total: "?f a p \<noteq> None" for a p
    using assms(1,2) computeAllReduceTime_total computeAllGatherOrRSTime_total
    by (auto simp: computeAllGatherTime_def computeReduceScatterTime_def)
  have "apply P T nBytes numPipeOps regBuff table numAlgo numProto
      = applyCostModelGeneric P ?f numAlgo numProto table"
    using assms(1) by (auto simp: applyCostModelAllReduce_def applyCostModelAllGather_def
        applyCostModelReduceScatter_def)
  with applyCostModelGeneric_spec [of ?f table _ numAlgo numProto _ P, OF total assms(3) refl refl]
  show ?thesis unfolding assms(4) by (simp only:)
qed

theorem cost_table_filled_witness:
  "\<exists>table'. applyCostModelAllReduce zeroParams \<lparr> t_nRanks = 8, t_nNodes = 2 \<rparr> 4096 1 0
       (replicate 21 (Fin 5)) 7 3
     = Some (int (length (priced_cells (\<lambda>a p. computeAllReduceTime zeroParams \<lparr> t_nRanks = 8, t_nNodes = 2 \<rparr>
          a p 4096 1 0) 7 3 (replicate 21 (Fin 5)))), table') \<and> length table' = 21"
  using cost_table_filled [of applyCostModelAllReduce computeAllReduceTime "\<lparr> t_nRanks = 8, t_nNodes = 2 \<rparr>"
      "replicate 21 (Fin 5)" _ zeroParams 4096 1 0 7 3] by auto

end
