(* ===== verification/Tuner_Plugin.thy ===== *)
theory Tuner_Plugin
  imports Tuner_Config Tuner_Table
begin

text \<open>
  The tuner plugin's entry points (\<open>tuner/plugin.c\<close>): reading the environment, choosing a cost-model
  profile, \<open>pluginInit\<close>, \<open>pluginGetCollInfo\<close> and \<open>pluginFinalize\<close>. The environment and the file
  system are functions from names to contents; whether a \<open>malloc\<close> succeeds is an argument. The log
  function writes messages only and is left out. Theorems: the context that \<open>pluginInit\<close> hands to NCCL
  satisfies an invariant, and \<open>pluginGetCollInfo\<close> on such a context applies the first rule that fits and
  falls back to the cost model, never touching a cell NCCL ruled out.
\<close>

type_synonym environment = "string \<Rightarrow> string option"
type_synonym files = "string \<Rightarrow> string option"

section \<open>Environment\<close>

definition getEnvDouble :: "environment \<Rightarrow> string \<Rightarrow> fp \<Rightarrow> fp" where
  "getEnvDouble env name defaultValue = (case env name of
      None \<Rightarrow> defaultValue
    | Some s \<Rightarrow> if s = [] then defaultValue
        else (case strtod s of None \<Rightarrow> defaultValue | Some v \<Rightarrow> v))"

definition getEnvInt :: "environment \<Rightarrow> string \<Rightarrow> int \<Rightarrow> int" where
  "getEnvInt env name defaultValue = (case env name of
      None \<Rightarrow> defaultValue
    | Some s \<Rightarrow> if s = [] then defaultValue
        else (case strtol10 s of None \<Rightarrow> defaultValue | Some v \<Rightarrow> int_of_long v))"

definition envEquals :: "environment \<Rightarrow> string \<Rightarrow> string \<Rightarrow> bool" where
  "envEquals env name val = (case env name of None \<Rightarrow> False | Some s \<Rightarrow> strcasecmp_eq s val)"

section \<open>Profiles\<close>

definition costModelProfileCanonicalName :: "string \<Rightarrow> string option" where
  "costModelProfileCanonicalName name =
    (if strcasecmp_eq name ''mnnvl'' then Some ''mnnvl''
     else if strcasecmp_eq name ''rail_nop2p'' then Some ''rail_nop2p''
     else None)"

definition costModelProfileParams :: "string \<Rightarrow> CostModelParams option" where
  "costModelProfileParams name =
    (if strcasecmp_eq name ''mnnvl'' then Some gb200fParamsDefault
     else if strcasecmp_eq name ''rail_nop2p'' then Some railNoP2pParamsDefault
     else None)"

definition costModelProfileValidated :: "string \<Rightarrow> bool" where
  "costModelProfileValidated name =
    (if strcasecmp_eq name ''mnnvl'' then mnnvlParamsValidated
     else if strcasecmp_eq name ''rail_nop2p'' then railNoP2pParamsValidated
     else False)"

text \<open>The automatic choice, and \<open>selectCostModelProfile\<close> with the forced one before it.\<close>

definition autoProfile :: "environment \<Rightarrow> size_t \<Rightarrow> string" where
  "autoProfile env nNodes =
    (if nNodes > 1 \<and> envEquals env ''NCCL_MNNVL_ENABLE'' ''0'' \<and> envEquals env ''NCCL_P2P_DISABLE'' ''1''
     then ''rail_nop2p'' else ''mnnvl'')"

definition selectCostModelProfile :: "environment \<Rightarrow> size_t \<Rightarrow> string option" where
  "selectCostModelProfile env nNodes =
    (let auto = (let profile = autoProfile env nNodes
                 in if costModelProfileValidated profile then Some profile else None)
     in case env ''NCCL_TUNER_COST_MODEL_PROFILE'' of
        None \<Rightarrow> auto
      | Some req \<Rightarrow>
          if req \<noteq> [] \<and> \<not> strcasecmp_eq req ''auto''
          then (case costModelProfileCanonicalName req of Some canonical \<Rightarrow> Some canonical | None \<Rightarrow> auto)
          else auto)"

section \<open>The context\<close>

record TunerContext =
  tc_rules :: ConfigTable
  tc_nRanks :: size_t
  tc_nNodes :: size_t
  nvlDomainInfo :: NvlDomainInfo
  useCostModel :: int
  forceCostModel :: int
  costModel :: CostModelParams
  costModelProfile :: "string option"

text \<open>\<open>initCostModel\<close>; \<open>None\<close> is the dereference of a null \<open>costModelProfileParams\<close>.\<close>

definition envOverrides :: "environment \<Rightarrow> CostModelParams \<Rightarrow> CostModelParams" where
  "envOverrides env P = P\<lparr>
     cm_nChannels := getEnvInt env ''NCCL_TUNER_COST_MODEL_CHANNELS'' (cm_nChannels P),
     bwIntra := getEnvDouble env ''NCCL_TUNER_COST_MODEL_BW_INTRA'' (bwIntra P),
     bwInter := getEnvDouble env ''NCCL_TUNER_COST_MODEL_BW_INTER'' (bwInter P),
     nvlsEfficiency := getEnvDouble env ''NCCL_TUNER_COST_MODEL_NVLS_EFF'' (nvlsEfficiency P),
     graphLatencyInter := getEnvDouble env ''NCCL_TUNER_COST_MODEL_GRAPH_LAT'' (graphLatencyInter P) \<rparr>"

definition initCostModel :: "environment \<Rightarrow> TunerContext \<Rightarrow> TunerContext option" where
  "initCostModel env ctx =
    (let profile = selectCostModelProfile env (tc_nNodes ctx);
         use = getEnvInt env ''NCCL_TUNER_COST_MODEL'' 1;
         force = getEnvInt env ''NCCL_TUNER_FORCE_COST_MODEL'' 0
     in case profile of
        None \<Rightarrow> Some (ctx\<lparr> costModelProfile := None, costModel := zeroParams,
                            useCostModel := 0, forceCostModel := 0 \<rparr>)
      | Some name \<Rightarrow> (case costModelProfileParams name of
            None \<Rightarrow> None
          | Some P \<Rightarrow> Some (ctx\<lparr> costModelProfile := Some name, costModel := envOverrides env P,
                useCostModel := (if force \<noteq> 0 then 1 else use), forceCostModel := force \<rparr>)))"

section \<open>Entry points\<close>

text \<open>\<open>pluginInit\<close>: \<open>ctx_alloc\<close> and \<open>cfg_alloc\<close> tell whether the two allocations succeed. The result is
  the code and the context stored through \<open>*context\<close>, if any; the outer \<open>None\<close> is a null dereference.\<close>

definition pluginInit ::
  "bool \<Rightarrow> bool \<Rightarrow> environment \<Rightarrow> files \<Rightarrow> size_t \<Rightarrow> size_t \<Rightarrow> NvlDomainInfo option
   \<Rightarrow> (ncclResult \<times> TunerContext option) option" where
  "pluginInit ctx_alloc cfg_alloc env fs nRanks nNodes nvl =
    (if \<not> ctx_alloc then Some (ncclSystemError, None)
     else
      (let ctx0 = \<lparr> tc_rules = emptyConfigTable, tc_nRanks = nRanks, tc_nNodes = nNodes,
             nvlDomainInfo = (case nvl of Some i \<Rightarrow> i
                | None \<Rightarrow> \<lparr> nNvlDomains = 0, minRanksPerNvlDomain = 0, maxRanksPerNvlDomain = 0 \<rparr>),
             useCostModel = 0, forceCostModel = 0, costModel = zeroParams, costModelProfile = None \<rparr>
       in case initCostModel env ctx0 of
          None \<Rightarrow> None
        | Some ctx \<Rightarrow>
            (let configFile = (case env ''NCCL_TUNER_CONFIG_FILE'' of Some f \<Rightarrow> f
                                | None \<Rightarrow> ''nccl_tuner.conf'');
                 (result, rules) = loadConfig cfg_alloc (fs configFile) (tc_rules ctx)
             in if result \<noteq> ncclSuccess then Some (result, None)
                else Some (ncclSuccess, Some (ctx\<lparr> tc_rules := rules \<rparr>)))))"

text \<open>The condition of a rule, the search for the first rule that can be applied, and the effect of
  applying it to the cost table and to \<open>*nChannels\<close>.\<close>

definition rule_matches :: "TunerContext \<Rightarrow> ncclFunc \<Rightarrow> size_t \<Rightarrow> int \<Rightarrow> int \<Rightarrow> TuningConfig \<Rightarrow> bool" where
  "rule_matches ctx coll nBytes numPipeOps regBuff c \<longleftrightarrow>
     collType c = coll \<and> nBytes \<ge> minBytes c \<and> nBytes \<le> maxBytes c
     \<and> (cfg_nNodes c = - 1 \<or> cfg_nNodes c = int_of_size (tc_nNodes ctx))
     \<and> (cfg_nRanks c = - 1 \<or> cfg_nRanks c = int_of_size (tc_nRanks ctx))
     \<and> (cfg_numPipeOps c = - 1 \<or> cfg_numPipeOps c = numPipeOps)
     \<and> (cfg_regBuff c = - 1 \<or> cfg_regBuff c = regBuff)"

fun rule_loop ::
  "TunerContext \<Rightarrow> ncclFunc \<Rightarrow> size_t \<Rightarrow> int \<Rightarrow> int \<Rightarrow> int \<Rightarrow> int \<Rightarrow> TuningConfig list
   \<Rightarrow> fp list \<Rightarrow> int \<Rightarrow> (fp list \<times> int) option" where
  "rule_loop ctx coll nBytes numPipeOps regBuff numAlgo numProto [] table nChannels = None"
| "rule_loop ctx coll nBytes numPipeOps regBuff numAlgo numProto (c # cs) table nChannels =
     (if rule_matches ctx coll nBytes numPipeOps regBuff c
         \<and> int (algorithm c) < numAlgo \<and> int (protocol c) < numProto
         \<and> \<not> fp_eq (table ! cell (algorithm c) (protocol c)) NCCL_ALGO_PROTO_IGNORE
      then Some (table[cell (algorithm c) (protocol c) := Fin 0],
                 if cfg_nChannels c \<noteq> - 1 then cfg_nChannels c else nChannels)
      else rule_loop ctx coll nBytes numPipeOps regBuff numAlgo numProto cs table nChannels)"

definition topo_of :: "TunerContext \<Rightarrow> Topo" where
  "topo_of ctx = \<lparr> t_nRanks = int_of_size (tc_nRanks ctx), t_nNodes = int_of_size (tc_nNodes ctx) \<rparr>"

definition cost_model_fallback ::
  "TunerContext \<Rightarrow> ncclFunc \<Rightarrow> size_t \<Rightarrow> int \<Rightarrow> fp list \<Rightarrow> int \<Rightarrow> int \<Rightarrow> int \<Rightarrow> fp list option" where
  "cost_model_fallback ctx coll nBytes numPipeOps table numAlgo numProto regBuff =
    (if useCostModel ctx = 0 then Some table
     else (case coll of
        ncclFuncAllReduce \<Rightarrow> map_option snd (applyCostModelAllReduce (costModel ctx) (topo_of ctx) nBytes
                               numPipeOps regBuff table numAlgo numProto)
      | ncclFuncAllGather \<Rightarrow> map_option snd (applyCostModelAllGather (costModel ctx) (topo_of ctx) nBytes
                               numPipeOps regBuff table numAlgo numProto)
      | ncclFuncReduceScatter \<Rightarrow> map_option snd (applyCostModelReduceScatter (costModel ctx) (topo_of ctx)
                               nBytes numPipeOps regBuff table numAlgo numProto)
      | _ \<Rightarrow> Some table))"

definition pluginGetCollInfo ::
  "TunerContext option \<Rightarrow> ncclFunc \<Rightarrow> size_t \<Rightarrow> int \<Rightarrow> fp list \<Rightarrow> int \<Rightarrow> int \<Rightarrow> int \<Rightarrow> int
   \<Rightarrow> (ncclResult \<times> fp list \<times> int) option" where
  "pluginGetCollInfo context coll nBytes numPipeOps table numAlgo numProto regBuff nChannels =
    (case context of
       None \<Rightarrow> Some (ncclInternalError, table, nChannels)
     | Some ctx \<Rightarrow>
        (case (if forceCostModel ctx \<noteq> 0 then None
               else rule_loop ctx coll nBytes numPipeOps regBuff numAlgo numProto
                      (take (nat (numConfigs (tc_rules ctx))) (configs (tc_rules ctx))) table nChannels) of
           Some (table', nChannels') \<Rightarrow> Some (ncclSuccess, table', nChannels')
         | None \<Rightarrow>
            (case cost_model_fallback ctx coll nBytes numPipeOps table numAlgo numProto regBuff of
               None \<Rightarrow> None
             | Some table' \<Rightarrow> Some (ncclSuccess, table', nChannels))))"

text \<open>\<open>pluginFinalize\<close> frees the rule array and the context: it returns the code and the blocks freed.\<close>

datatype tuner_block = RuleArray | Context

definition pluginFinalize :: "TunerContext option \<Rightarrow> ncclResult \<times> tuner_block list" where
  "pluginFinalize context = (ncclSuccess, case context of
      None \<Rightarrow> []
    | Some ctx \<Rightarrow> (if maxConfigs (tc_rules ctx) \<noteq> 0 then [RuleArray] else []) @ [Context])"

section \<open>The context NCCL gets\<close>

lemma selectCostModelProfile_known:
  "selectCostModelProfile env n = Some name \<Longrightarrow> name \<in> {''mnnvl'', ''rail_nop2p''}"
  by (auto simp: selectCostModelProfile_def autoProfile_def costModelProfileCanonicalName_def Let_def
      split: option.splits if_splits)

text \<open>The cost model never runs on unvalidated parameters unless the user named the profile:
  a profile that \<open>selectCostModelProfile\<close> returns is one of the two known ones, and either its validation
  flag is set or \<open>NCCL_TUNER_COST_MODEL_PROFILE\<close> names it.\<close>

theorem selectCostModelProfile_safe:
  assumes "selectCostModelProfile env nNodes = Some name"
  shows "name \<in> {''mnnvl'', ''rail_nop2p''}
    \<and> (costModelProfileValidated name
       \<or> (\<exists>req. env ''NCCL_TUNER_COST_MODEL_PROFILE'' = Some req \<and> strcasecmp_eq req name))"
  using assms selectCostModelProfile_known [OF assms]
  by (auto simp: selectCostModelProfile_def costModelProfileCanonicalName_def Let_def
      split: option.splits if_splits)

theorem selectCostModelProfile_safe_witness:
  "selectCostModelProfile (\<lambda>v. if v = ''NCCL_TUNER_COST_MODEL_PROFILE'' then Some ''Rail_NoP2P'' else None) 1
     = Some ''rail_nop2p''
   \<and> ''rail_nop2p'' \<in> {''mnnvl'', ''rail_nop2p''}"
proof -
  have "selectCostModelProfile (\<lambda>v. if v = ''NCCL_TUNER_COST_MODEL_PROFILE'' then Some ''Rail_NoP2P'' else None) 1
     = Some ''rail_nop2p''" by code_simp
  then show ?thesis using selectCostModelProfile_safe by blast
qed

text \<open>What holds of every context: the rule counter is the length of the array, every rule names a cell of
  the cost table, the parameter tables have their dimensions, and the cost model is on only with a profile
  and forced only when on.\<close>

definition ctx_inv :: "TunerContext \<Rightarrow> bool" where
  "ctx_inv ctx \<longleftrightarrow>
     numConfigs (tc_rules ctx) = int (length (configs (tc_rules ctx)))
     \<and> numConfigs (tc_rules ctx) \<le> maxConfigs (tc_rules ctx)
     \<and> (\<forall>c \<in> set (configs (tc_rules ctx)). algorithm c < NCCL_NUM_ALGORITHMS \<and> protocol c < NCCL_NUM_PROTOCOLS)
     \<and> params_shape (costModel ctx)
     \<and> (useCostModel ctx \<noteq> 0 \<longrightarrow> costModelProfile ctx \<noteq> None)
     \<and> (forceCostModel ctx \<noteq> 0 \<longrightarrow> useCostModel ctx = 1)"

lemma params_shape_envOverrides: "params_shape P \<Longrightarrow> params_shape (envOverrides env P)"
  by (simp add: params_shape_def envOverrides_def)

lemma initCostModel_result:
  "\<exists>ctx'. initCostModel env ctx = Some ctx' \<and> tc_rules ctx' = tc_rules ctx
    \<and> tc_nRanks ctx' = tc_nRanks ctx \<and> tc_nNodes ctx' = tc_nNodes ctx \<and> params_shape (costModel ctx')
    \<and> (useCostModel ctx' \<noteq> 0 \<longrightarrow> costModelProfile ctx' \<noteq> None)
    \<and> (forceCostModel ctx' \<noteq> 0 \<longrightarrow> useCostModel ctx' = 1)"
proof (cases "selectCostModelProfile env (tc_nNodes ctx)")
  case None
  then show ?thesis by (simp add: initCostModel_def Let_def params_shape_profiles)
next
  case (Some name)
  then have "name \<in> {''mnnvl'', ''rail_nop2p''}" by (rule selectCostModelProfile_known)
  then obtain P where "costModelProfileParams name = Some P" "params_shape P"
    by (auto simp: costModelProfileParams_def params_shape_profiles strcasecmp_eq_def tolower_names)
  with Some show ?thesis
    by (simp add: initCostModel_def Let_def params_shape_envOverrides)
qed

lemma line_rule_range:
  "line_rule l = Some c \<Longrightarrow> algorithm c < NCCL_NUM_ALGORITHMS \<and> protocol c < NCCL_NUM_PROTOCOLS"
  using parseAlgorithm_range parseProtocol_range
  by (auto simp: line_rule_def parse_tokens_def Let_def split: if_splits)

lemma file_rules_range:
  "c \<in> set (file_rules content) \<Longrightarrow> algorithm c < NCCL_NUM_ALGORITHMS \<and> protocol c < NCCL_NUM_PROTOCOLS"
  using line_rule_range by (auto simp: file_rules_def List.map_filter_def)

lemma loadConfig_inv:
  assumes "loadConfig alloc file emptyConfigTable = (ncclSuccess, ct)"
  shows "numConfigs ct = int (length (configs ct)) \<and> numConfigs ct \<le> maxConfigs ct
    \<and> (\<forall>c \<in> set (configs ct). algorithm c < NCCL_NUM_ALGORITHMS \<and> protocol c < NCCL_NUM_PROTOCOLS)
    \<and> (\<forall>content. file = Some content \<longrightarrow> configs ct = file_rules content)"
proof (cases "file")
  case None
  with assms show ?thesis by (auto simp: loadConfig_def emptyConfigTable_def)
next
  case (Some content)
  have "file_rules content = []" if "countConfigLines (Some content) = 0"
    using loadConfig_eq [of alloc content emptyConfigTable] that by simp
  with assms Some show ?thesis
    using loadConfig_eq [of alloc content emptyConfigTable] file_rules_range [of _ content]
    by (auto simp: emptyConfigTable_def split: if_splits)
qed

text \<open>C28 \<open>pluginInit\<close> never dereferences a null profile, fails only with \<open>ncclSystemError\<close> when an allocation
  fails, stores no context then, and otherwise stores one that satisfies the invariant, keeps NCCL's rank and
  node counts and holds exactly the rules of the configured file.\<close>

theorem pluginInit_contract:
  "\<exists>result context. pluginInit ctx_alloc cfg_alloc env fs nRanks nNodes nvl = Some (result, context)
    \<and> (case context of
         None \<Rightarrow> result = ncclSystemError \<and> \<not> (ctx_alloc \<and> cfg_alloc)
       | Some ctx \<Rightarrow> result = ncclSuccess \<and> ctx_inv ctx \<and> tc_nRanks ctx = nRanks \<and> tc_nNodes ctx = nNodes
           \<and> configs (tc_rules ctx) =
               (case fs (case env ''NCCL_TUNER_CONFIG_FILE'' of Some f \<Rightarrow> f | None \<Rightarrow> ''nccl_tuner.conf'') of
                  None \<Rightarrow> [] | Some content \<Rightarrow> file_rules content))"
proof (cases ctx_alloc)
  case False
  then show ?thesis by (simp add: pluginInit_def)
next
  case True
  let ?info = "case nvl of Some i \<Rightarrow> i
     | None \<Rightarrow> \<lparr> nNvlDomains = 0, minRanksPerNvlDomain = 0, maxRanksPerNvlDomain = 0 \<rparr>"
  let ?ctx0 = "\<lparr> tc_rules = emptyConfigTable, tc_nRanks = nRanks, tc_nNodes = nNodes, nvlDomainInfo = ?info,
     useCostModel = 0, forceCostModel = 0, costModel = zeroParams, costModelProfile = None \<rparr>"
  let ?file = "fs (case env ''NCCL_TUNER_CONFIG_FILE'' of Some f \<Rightarrow> f | None \<Rightarrow> ''nccl_tuner.conf'')"
  obtain ctx where ctx: "initCostModel env ?ctx0 = Some ctx" "tc_rules ctx = emptyConfigTable"
    "tc_nRanks ctx = nRanks" "tc_nNodes ctx = nNodes" "params_shape (costModel ctx)"
    "useCostModel ctx \<noteq> 0 \<longrightarrow> costModelProfile ctx \<noteq> None" "forceCostModel ctx \<noteq> 0 \<longrightarrow> useCostModel ctx = 1"
    using initCostModel_result [of env ?ctx0] by auto
  obtain r ct where load: "loadConfig cfg_alloc ?file emptyConfigTable = (r, ct)" by fastforce
  have r: "r = ncclSuccess \<or> r = ncclSystemError \<and> \<not> cfg_alloc"
    using load by (auto simp: loadConfig_def Let_def split: option.splits if_splits)
  have none: "configs ct = []" if "?file = None"
    using load that by (auto simp: loadConfig_def emptyConfigTable_def)
  show ?thesis
  proof (cases "r = ncclSuccess")
    case True
    with load have inv: "numConfigs ct = int (length (configs ct)) \<and> numConfigs ct \<le> maxConfigs ct
      \<and> (\<forall>c \<in> set (configs ct). algorithm c < NCCL_NUM_ALGORITHMS \<and> protocol c < NCCL_NUM_PROTOCOLS)
      \<and> (\<forall>content. ?file = Some content \<longrightarrow> configs ct = file_rules content)"
      using loadConfig_inv by blast
    with \<open>ctx_alloc\<close> True ctx load none show ?thesis
      by (auto simp: pluginInit_def ctx_inv_def Let_def split: option.splits)
  next
    case False
    with \<open>ctx_alloc\<close> ctx load r show ?thesis by (simp add: pluginInit_def Let_def)
  qed
qed

section \<open>Answering NCCL\<close>

text \<open>A rule can be applied when its condition holds, its cell is in NCCL's table and NCCL did not rule the
  cell out.\<close>

definition applicable ::
  "TunerContext \<Rightarrow> ncclFunc \<Rightarrow> size_t \<Rightarrow> int \<Rightarrow> int \<Rightarrow> int \<Rightarrow> int \<Rightarrow> fp list \<Rightarrow> TuningConfig \<Rightarrow> bool" where
  "applicable ctx coll nBytes numPipeOps regBuff numAlgo numProto table c \<longleftrightarrow>
     rule_matches ctx coll nBytes numPipeOps regBuff c \<and> int (algorithm c) < numAlgo \<and> int (protocol c) < numProto
     \<and> \<not> fp_eq (table ! cell (algorithm c) (protocol c)) NCCL_ALGO_PROTO_IGNORE"

lemma rule_loop_find:
  "rule_loop ctx coll nBytes numPipeOps regBuff numAlgo numProto cs table nChannels =
     map_option (\<lambda>c. (table[cell (algorithm c) (protocol c) := Fin 0],
                      if cfg_nChannels c \<noteq> - 1 then cfg_nChannels c else nChannels))
       (find (applicable ctx coll nBytes numPipeOps regBuff numAlgo numProto table) cs)"
  by (induction cs) (auto simp: applicable_def)

lemma ctx_inv_rules: "ctx_inv ctx \<Longrightarrow> take (nat (numConfigs (tc_rules ctx))) (configs (tc_rules ctx)) = configs (tc_rules ctx)"
  by (simp add: ctx_inv_def)

lemma find_first:
  "i < length cs \<Longrightarrow> P (cs ! i) \<Longrightarrow> \<forall>j < i. \<not> P (cs ! j) \<Longrightarrow> find P cs = Some (cs ! i)"
  unfolding find_Some_iff by blast

text \<open>C27 among the rules that match, the first one whose cell NCCL offers wins: \<open>pluginGetCollInfo\<close> sets its cell to cost zero, sets the
  channel count when the rule gives one, and changes nothing else. If the costs NCCL passed are not negative,
  the rule's cell is then a cheapest one among the cells NCCL did not rule out, so NCCL picks it. A rule that matches but whose cell is ruled out or
  outside the table does not stop the search: a later rule, or the cost model, decides then, where the documentation says that the first matching rule wins.\<close>

theorem pluginGetCollInfo_first_rule:
  assumes "ctx_inv ctx" "forceCostModel ctx = 0" "length table = NCCL_NUM_ALGORITHMS * NCCL_NUM_PROTOCOLS"
    and "cs = configs (tc_rules ctx)" "i < length cs"
    and "applicable ctx coll nBytes numPipeOps regBuff numAlgo numProto table (cs ! i)"
    and "\<forall>j < i. \<not> applicable ctx coll nBytes numPipeOps regBuff numAlgo numProto table (cs ! j)"
  shows "\<exists>table'. pluginGetCollInfo (Some ctx) coll nBytes numPipeOps table numAlgo numProto regBuff nChannels
      = Some (ncclSuccess, table', if cfg_nChannels (cs ! i) \<noteq> - 1 then cfg_nChannels (cs ! i) else nChannels)
    \<and> table' = table[cell (algorithm (cs ! i)) (protocol (cs ! i)) := Fin 0]
    \<and> ((\<forall>x \<in> set table. x = NCCL_ALGO_PROTO_IGNORE \<or> fp_nonneg x) \<longrightarrow>
       (\<forall>k < length table. table' ! k = NCCL_ALGO_PROTO_IGNORE
          \<or> fp_le (table' ! cell (algorithm (cs ! i)) (protocol (cs ! i))) (table' ! k)))"
proof -
  let ?k = "cell (algorithm (cs ! i)) (protocol (cs ! i))"
  have "algorithm (cs ! i) < 7" "protocol (cs ! i) < 3"
    using assms(1,4,5) nth_mem [of i cs] by (auto simp: ctx_inv_def)
  then have "?k < length table" using assms(3) by (simp add: cell_def)
  then have "\<forall>k < length table. table[?k := Fin 0] ! k = NCCL_ALGO_PROTO_IGNORE
       \<or> fp_le (table[?k := Fin 0] ! ?k) (table[?k := Fin 0] ! k)"
    if "\<forall>x \<in> set table. x = NCCL_ALGO_PROTO_IGNORE \<or> fp_nonneg x"
    using that by (auto simp: nth_list_update)
  then show ?thesis
    using find_first [OF assms(5,6,7)] assms(1,2,4)
    by (simp add: pluginGetCollInfo_def ctx_inv_rules rule_loop_find)
qed

text \<open>Whether a step of the tuner respects NCCL's marks: the table keeps its length and every cell marked
  \<open>NCCL_ALGO_PROTO_IGNORE\<close> keeps its mark.\<close>

definition respects_ignore :: "fp list \<Rightarrow> fp list \<Rightarrow> bool" where
  "respects_ignore table table' \<longleftrightarrow> length table' = length table
     \<and> (\<forall>k < length table. table ! k = NCCL_ALGO_PROTO_IGNORE \<longrightarrow> table' ! k = NCCL_ALGO_PROTO_IGNORE)"

lemma respects_ignore_refl [simp]: "respects_ignore t t"
  by (simp add: respects_ignore_def)

lemma respects_ignore_update:
  assumes "\<not> fp_eq (t ! i) NCCL_ALGO_PROTO_IGNORE"
  shows "respects_ignore t (t[i := v])"
proof -
  have "t[i := v] ! k = NCCL_ALGO_PROTO_IGNORE" if "t ! k = NCCL_ALGO_PROTO_IGNORE" for k
    using assms that by (cases "k = i") (auto simp: fp_eq_def NCCL_ALGO_PROTO_IGNORE_def)
  then show ?thesis by (simp add: respects_ignore_def)
qed

lemma cells_cover: "k < 21 \<Longrightarrow> \<exists>a p. a < NCCL_NUM_ALGORITHMS \<and> p < NCCL_NUM_PROTOCOLS \<and> k = cell a p"
  by (intro exI [of _ "k div 3"] exI [of _ "k mod 3"]) (auto simp: cell_def)

lemma applyCostModelGeneric_respects:
  assumes "\<And>a p. f a p \<noteq> None" "length table = NCCL_NUM_ALGORITHMS * NCCL_NUM_PROTOCOLS"
  shows "\<exists>n table'. applyCostModelGeneric P f numAlgo numProto table = Some (n, table')
           \<and> respects_ignore table table'"
proof -
  let ?priced = "priced_cells f numAlgo numProto table"
  let ?spec = "table_spec (length ?priced \<noteq> 0 \<and> disableUnmodeledCells P \<noteq> 0)"
  obtain table' where t: "applyCostModelGeneric P f numAlgo numProto table = Some (int (length ?priced), table')"
    and len: "length table' = length table"
    and cells: "\<forall>a < NCCL_NUM_ALGORITHMS. \<forall>p < NCCL_NUM_PROTOCOLS. table' ! cell a p =
      (if int a < numAlgo \<and> int p < numProto then ?spec (the (f a p)) (table ! cell a p) else table ! cell a p)"
    using applyCostModelGeneric_spec [of f table _ numAlgo numProto _ P, OF assms refl refl] by blast
  have "table' ! k = NCCL_ALGO_PROTO_IGNORE"
    if k: "k < length table" and ign: "table ! k = NCCL_ALGO_PROTO_IGNORE" for k
  proof -
    obtain a p where ap: "a < NCCL_NUM_ALGORITHMS" "p < NCCL_NUM_PROTOCOLS" "k = cell a p"
      using cells_cover [of k] k assms(2) by auto
    with ign have "fp_eq (table ! cell a p) NCCL_ALGO_PROTO_IGNORE"
      by (simp add: fp_eq_def NCCL_ALGO_PROTO_IGNORE_def)
    with cells ap ign show ?thesis by (simp add: table_spec_def)
  qed
  with t len show ?thesis by (auto simp: respects_ignore_def)
qed

text \<open>The one way the cost model can fail: a node count that is 0 as an \<open>int\<close>, by which every time function divides the number of ranks.\<close>

definition divides_by_zero :: "TunerContext \<Rightarrow> ncclFunc \<Rightarrow> fp list \<Rightarrow> int \<Rightarrow> int \<Rightarrow> bool" where
  "divides_by_zero ctx coll table numAlgo numProto \<longleftrightarrow>
     useCostModel ctx \<noteq> 0 \<and> coll \<in> {ncclFuncAllReduce, ncclFuncAllGather, ncclFuncReduceScatter}
     \<and> int_of_size (tc_nNodes ctx) = 0 \<and> 1 < int_of_size (tc_nRanks ctx)
     \<and> (\<exists>ap \<in> set (loop_cells numAlgo numProto). \<not> skipped table ap)"

lemma cost_loop_undefined:
  assumes "\<And>a p. f a p = None"
  shows "cost_loop f aps s = (if \<forall>ap \<in> set aps. skipped (fs_table s) ap then Some s else None)"
  using assms by (induction aps) (auto simp: cost_cell_def skipped_def)

lemma applyCostModelGeneric_undefined:
  assumes "\<And>a p. f a p = None"
  shows "applyCostModelGeneric P f numAlgo numProto table = (if \<forall>ap \<in> set (loop_cells numAlgo numProto). skipped table ap then Some (0, table) else None)"
  by (simp add: applyCostModelGeneric_def cost_loop_undefined [OF assms])

lemma times_undefined:
  assumes "t_nNodes T = 0" "1 < t_nRanks T"
  shows "computeAllReduceTime P T a p n k r = None" "computeAllGatherOrRSTime P T coll a p n k r = None"
  using assms by (simp_all add: computeAllReduceTime_def computeAllGatherOrRSTime_def c_div_def Let_def)

lemma times_defined:
  assumes "t_nNodes T \<noteq> 0 \<or> t_nRanks T \<le> 1"
  shows "computeAllReduceTime P T a p n k r \<noteq> None" "computeAllGatherOrRSTime P T coll a p n k r \<noteq> None"
proof -
  have "t_nRanks T \<le> 1 \<Longrightarrow> computeAllReduceTime P T a p n k r = Some (Fin 0) \<and> computeAllGatherOrRSTime P T coll a p n k r = Some (Fin 0)"
    by (simp add: computeAllReduceTime_def computeAllGatherOrRSTime_def Let_def)
  then show "computeAllReduceTime P T a p n k r \<noteq> None" "computeAllGatherOrRSTime P T coll a p n k r \<noteq> None"
    using assms computeAllReduceTime_total [of T] computeAllGatherOrRSTime_total [of T] by auto
qed

lemmas collective_costs = cost_model_fallback_def applyCostModelAllReduce_def applyCostModelAllGather_def applyCostModelReduceScatter_def
  computeAllGatherTime_def computeReduceScatterTime_def

lemma cost_model_fallback_result:
  assumes "length table = NCCL_NUM_ALGORITHMS * NCCL_NUM_PROTOCOLS"
  shows "case cost_model_fallback ctx coll nBytes numPipeOps table numAlgo numProto regBuff of
      None \<Rightarrow> divides_by_zero ctx coll table numAlgo numProto
    | Some table' \<Rightarrow> \<not> divides_by_zero ctx coll table numAlgo numProto \<and> respects_ignore table table' \<and> (useCostModel ctx = 0 \<longrightarrow> table' = table)"
proof (cases "int_of_size (tc_nNodes ctx) = 0 \<and> 1 < int_of_size (tc_nRanks ctx)")
  case True
  then have "t_nNodes (topo_of ctx) = 0" "1 < t_nRanks (topo_of ctx)" by (simp_all add: topo_of_def)
  note times_undefined [OF this, simp]
  show ?thesis
    using True by (cases coll) (auto simp: collective_costs applyCostModelGeneric_undefined divides_by_zero_def)
next
  case False
  then have "t_nNodes (topo_of ctx) \<noteq> 0 \<or> t_nRanks (topo_of ctx) \<le> 1" by (auto simp: topo_of_def)
  note times = times_defined [OF this]
  have priced: "\<exists>table'. (\<exists>n. applyCostModelGeneric P f numAlgo numProto table = Some (n, table')) \<and> respects_ignore table table'" if "\<And>a p. f a p \<noteq> None" for P f
    using applyCostModelGeneric_respects [of f, OF that assms, where P = P] by force
  have "\<exists>table'. cost_model_fallback ctx coll nBytes numPipeOps table numAlgo numProto regBuff = Some table' \<and> respects_ignore table table'"
    unfolding collective_costs by (cases coll) (auto intro!: priced times)
  moreover have "\<not> divides_by_zero ctx coll table numAlgo numProto" using False by (auto simp: divides_by_zero_def)
  ultimately show ?thesis by (auto simp: cost_model_fallback_def)
qed

text \<open>C10 what \<open>pluginGetCollInfo\<close> does on any context of \<open>pluginInit\<close>. It fails to return in exactly one case: no rule decides, the cost model is used for one of its collectives, NCCL leaves it a cell to
  price, there is more than one rank, and the node count is 0, by which the code then divides. Otherwise it returns \<open>ncclSuccess\<close>, and whatever path it takes a combination NCCL ruled out stays
  ruled out. When no rule can be applied the channel count is NCCL's, and with the cost model off the table is NCCL's too.\<close>

theorem pluginGetCollInfo_safe:
  fixes coll nBytes numPipeOps regBuff numAlgo numProto
  assumes "ctx_inv ctx" and "length table = NCCL_NUM_ALGORITHMS * NCCL_NUM_PROTOCOLS"
  defines "rule_applies \<equiv> \<exists>c \<in> set (configs (tc_rules ctx)). applicable ctx coll nBytes numPipeOps regBuff numAlgo numProto table c"
  defines "traps \<equiv> (forceCostModel ctx \<noteq> 0 \<or> \<not> rule_applies) \<and> divides_by_zero ctx coll table numAlgo numProto"
  shows "case pluginGetCollInfo (Some ctx) coll nBytes numPipeOps table numAlgo numProto regBuff nChannels of
      None \<Rightarrow> traps
    | Some (result, table', nChannels') \<Rightarrow> \<not> traps \<and> result = ncclSuccess \<and> respects_ignore table table'
        \<and> (\<not> rule_applies \<longrightarrow> nChannels' = nChannels \<and> (useCostModel ctx = 0 \<longrightarrow> table' = table))"
proof -
  let ?cs = "configs (tc_rules ctx)"
  let ?ap = "applicable ctx coll nBytes numPipeOps regBuff numAlgo numProto table"
  show ?thesis
  proof (cases "forceCostModel ctx = 0 \<and> rule_applies")
    case True
    then obtain c where c: "find ?ap ?cs = Some c" by (metis find_None_iff not_Some_eq rule_applies_def)
    then have "?ap c" by (auto simp: find_Some_iff)
    then have "respects_ignore table (table[cell (algorithm c) (protocol c) := Fin 0])"
      by (intro respects_ignore_update) (simp add: applicable_def)
    with c True assms(1) show ?thesis by (auto simp: pluginGetCollInfo_def ctx_inv_rules rule_loop_find traps_def)
  next
    case False
    then have "(if forceCostModel ctx \<noteq> 0 then None else find ?ap ?cs) = None"
      by (auto simp: find_None_iff rule_applies_def)
    with cost_model_fallback_result [OF assms(2), where ctx = ctx and coll = coll and nBytes = nBytes and numPipeOps = numPipeOps and numAlgo = numAlgo and numProto = numProto and regBuff = regBuff] False assms(1) show ?thesis
      by (auto simp: pluginGetCollInfo_def ctx_inv_rules rule_loop_find traps_def split: option.splits if_splits)
  qed
qed

subsection \<open>Examples\<close>

definition example_rule :: TuningConfig where
  "example_rule = \<lparr> collType = ncclFuncAllReduce, minBytes = 0, maxBytes = 65536, algorithm = NCCL_ALGO_TREE,
     protocol = NCCL_PROTO_LL, cfg_nChannels = 4, cfg_nNodes = 2, cfg_nRanks = - 1, cfg_numPipeOps = - 1,
     cfg_regBuff = - 1 \<rparr>"

definition example_ctx :: TunerContext where
  "example_ctx = \<lparr> tc_rules = \<lparr> configs = [example_rule], numConfigs = 1, maxConfigs = 1 \<rparr>, tc_nRanks = 16,
     tc_nNodes = 2, nvlDomainInfo = \<lparr> nNvlDomains = 0, minRanksPerNvlDomain = 0, maxRanksPerNvlDomain = 0 \<rparr>,
     useCostModel = 0, forceCostModel = 0, costModel = zeroParams, costModelProfile = None \<rparr>"

lemma example_ctx_inv: "ctx_inv example_ctx"
  by (simp add: ctx_inv_def example_ctx_def example_rule_def params_shape_profiles)

lemma example_nNodes: "int_of_size (tc_nNodes example_ctx) = 2"
  by (simp add: example_ctx_def int_of_size_def)

lemma example_applicable:
  "applicable example_ctx ncclFuncAllReduce 1024 1 0 7 3 (replicate 21 (Fin 9)) (configs (tc_rules example_ctx) ! 0)"
  using example_nNodes
  by (simp add: applicable_def rule_matches_def example_rule_def example_ctx_def cell_def fp_eq_def
      NCCL_ALGO_PROTO_IGNORE_def word_le_def)

theorem pluginGetCollInfo_first_rule_witness:
  "pluginGetCollInfo (Some example_ctx) ncclFuncAllReduce 1024 1 (replicate 21 (Fin 9)) 7 3 0 16
     = Some (ncclSuccess, (replicate 21 (Fin 9))[0 := Fin 0], 4)"
  using pluginGetCollInfo_first_rule [OF example_ctx_inv _ _ refl _ example_applicable, of 16]
  by (simp add: example_ctx_def example_rule_def cell_def)

text \<open>The second context asks the cost model about no node at all.\<close>

definition zero_nodes_ctx :: TunerContext where
  "zero_nodes_ctx = example_ctx\<lparr> tc_nNodes := 0, useCostModel := 1, costModelProfile := Some ''mnnvl'' \<rparr>"

lemma zero_nodes_inv: "ctx_inv zero_nodes_ctx"
  using example_ctx_inv by (simp add: ctx_inv_def zero_nodes_ctx_def example_ctx_def)

theorem pluginGetCollInfo_safe_witness:
  "(\<exists>table' nChannels'. pluginGetCollInfo (Some example_ctx) ncclFuncAllGather 1024 1
        (replicate 21 NCCL_ALGO_PROTO_IGNORE) 7 3 0 16 = Some (ncclSuccess, table', nChannels')
     \<and> respects_ignore (replicate 21 NCCL_ALGO_PROTO_IGNORE) table')
   \<and> pluginGetCollInfo (Some zero_nodes_ctx) ncclFuncAllGather 1024 1 (replicate 21 (Fin 9)) 7 3 0 16 = None"
proof -
  have "\<not> divides_by_zero example_ctx ncclFuncAllGather (replicate 21 NCCL_ALGO_PROTO_IGNORE) 7 3"
    by (simp add: divides_by_zero_def example_ctx_def)
  moreover have "divides_by_zero zero_nodes_ctx ncclFuncAllGather (replicate 21 (Fin 9)) 7 3"
    by (auto simp: divides_by_zero_def zero_nodes_ctx_def example_ctx_def int_of_size_def loop_cells_def skipped_def cell_def fp_eq_def NCCL_ALGO_PROTO_IGNORE_def intro!: bexI [of _ "(0, 0)"] exI [of _ 0])
  moreover have "\<not> (\<exists>c \<in> set (configs (tc_rules zero_nodes_ctx)). applicable zero_nodes_ctx ncclFuncAllGather 1024 1 0 7 3 (replicate 21 (Fin 9)) c)"
    by (simp add: applicable_def rule_matches_def zero_nodes_ctx_def example_ctx_def example_rule_def)
  ultimately show ?thesis
    using pluginGetCollInfo_safe [OF example_ctx_inv, of "replicate 21 NCCL_ALGO_PROTO_IGNORE" ncclFuncAllGather 1024 1 0 7 3 16]
      pluginGetCollInfo_safe [OF zero_nodes_inv, of "replicate 21 (Fin 9)" ncclFuncAllGather 1024 1 0 7 3 16]
    by (auto split: option.splits)
qed

end
