(* ===== verification/Bitops.thy ===== *)
theory Bitops
  imports C_Runtime
begin

text \<open>
  The integer helpers of \<open>net/include/bitops.h\<close>: rounding and alignment, 4 GiB pointer wrapping, division
  by a precomputed reciprocal, bit counting, logarithms, the 8-bit floating format for 32-bit counts, and
  the hash of NCCL. Templates over an integer type are functions on words of any length; the
  host branch of each \<open>#if __CUDA_ARCH__\<close> is the one modelled. The compiler's bit-counting builtins
  are given by their documented meaning.
\<close>

unbundle bit_operations_syntax

named_theorems bitops_unat \<open>what an operation does to the unsigned value\<close>

section \<open>Rounding and alignment\<close>

fun minval :: "'a :: linorder \<Rightarrow> 'a list \<Rightarrow> 'a" where
  "minval a [] = a"
| "minval a (b # more) = minval (if a < b then a else b) more"

fun maxval :: "'a :: linorder \<Rightarrow> 'a list \<Rightarrow> 'a" where
  "maxval a [] = a"
| "maxval a (b # more) = maxval (if a > b then a else b) more"

definition BIT :: "nat \<Rightarrow> u64" where
  "BIT x = push_bit x 1"

definition MASK :: "nat \<Rightarrow> u64" where
  "MASK x = push_bit x 1 - 1"

definition DIVUP :: "'a :: len word \<Rightarrow> 'a word \<Rightarrow> 'a word" where
  "DIVUP x y = (x + y - 1) div y"

definition ROUNDUP :: "'a :: len word \<Rightarrow> 'a word \<Rightarrow> 'a word" where
  "ROUNDUP x y = DIVUP x y * y"

definition ALIGN_POWER :: "'a :: len word \<Rightarrow> 'a word \<Rightarrow> 'a word" where
  "ALIGN_POWER x y = (if x > y then ROUNDUP x y else y div (y div x))"

definition ALIGN_SIZE :: "'a :: len word \<Rightarrow> 'a word \<Rightarrow> 'a word" where
  "ALIGN_SIZE sz align = ((sz + align - 1) div align) * align"

definition divUp :: "'a :: len word \<Rightarrow> 'a word \<Rightarrow> 'a word" where
  "divUp x y = (x + y - 1) div y"

definition roundUp :: "'a :: len word \<Rightarrow> 'a word \<Rightarrow> 'a word" where
  "roundUp x y = (x + y - 1) - (x + y - 1) mod y"

definition roundDown :: "'a :: len word \<Rightarrow> 'a word \<Rightarrow> 'a word" where
  "roundDown x y = x - x mod y"

definition alignUp :: "'a :: len word \<Rightarrow> 'a word \<Rightarrow> 'a word" where
  "alignUp x a = (x + a - 1) AND (0 - a)"

definition alignDown :: "'a :: len word \<Rightarrow> 'a word \<Rightarrow> 'a word" where
  "alignDown x a = x AND (0 - a)"

definition isPow2 :: "'a :: len word \<Rightarrow> bool" where
  "isPow2 x \<longleftrightarrow> x AND (x - 1) = 0"

section \<open>Wrapping in steps of 4 GiB\<close>

text \<open>The union of a 64-bit value with \<open>uint32_t u32[2]\<close> (little endian).\<close>

definition u32_lo :: "u64 \<Rightarrow> u32" where
  "u32_lo t = ucast t"

definition u32_hi :: "u64 \<Rightarrow> u32" where
  "u32_hi t = ucast (drop_bit 32 t)"

definition u64_join :: "u32 \<Rightarrow> u32 \<Rightarrow> u64" where
  "u64_join hi lo = push_bit 32 (ucast hi) OR ucast lo"

definition add4G :: "u64 \<Rightarrow> u32 \<Rightarrow> u64" where
  "add4G base delta4G = u64_join (u32_hi base + delta4G) (u32_lo base)"

definition incWrap4G :: "u64 \<Rightarrow> u32 \<Rightarrow> u32 \<Rightarrow> u32 \<Rightarrow> u64" where
  "incWrap4G p delta4G lo4G hi4G =
     (let h = u32_hi p + delta4G;
          h' = (if h \<ge> hi4G then h - (hi4G - lo4G) else h)
      in u64_join h' (u32_lo p))"

definition decWrap4G :: "u64 \<Rightarrow> u32 \<Rightarrow> u32 \<Rightarrow> u32 \<Rightarrow> u64" where
  "decWrap4G p delta4G lo4G hi4G =
     (let h = u32_hi p - delta4G;
          h' = (if h < lo4G then h + (hi4G - lo4G) else h)
      in u64_join h' (u32_lo p))"

section \<open>Division by a precomputed reciprocal\<close>

definition idivRcp32 :: "u32 \<Rightarrow> u32" where
  "idivRcp32 x = ucast ((0x100000000 :: u64) div ucast x)"

definition idivRcp64 :: "u64 \<Rightarrow> u64" where
  "idivRcp64 x = (- 1) div x + (if isPow2 x then 1 else 0)"

definition mul32hi :: "u32 \<Rightarrow> u32 \<Rightarrow> u32" where
  "mul32hi a b = ucast (drop_bit 32 ((ucast a :: u64) * ucast b))"

definition mul64hi :: "u64 \<Rightarrow> u64 \<Rightarrow> u64" where
  "mul64hi a b = ucast (drop_bit 64 ((ucast a :: 128 word) * ucast b))"

definition imulRcp32 :: "u32 \<Rightarrow> u32 \<Rightarrow> u32 \<Rightarrow> u32 \<Rightarrow> u32" where
  "imulRcp32 x xrcp y yrcp =
    (if xrcp = 0 then yrcp
     else if yrcp = 0 then xrcp
     else (let rcp = mul32hi xrcp yrcp; rem = 0 - x * y * rcp
           in if x * y \<le> rem then rcp + 1 else rcp))"

definition imulRcp64 :: "u64 \<Rightarrow> u64 \<Rightarrow> u64 \<Rightarrow> u64 \<Rightarrow> u64" where
  "imulRcp64 x xrcp y yrcp =
    (if xrcp = 0 then yrcp
     else if yrcp = 0 then xrcp
     else (let rcp = mul64hi xrcp yrcp; rem = 0 - x * y * rcp
           in if x * y \<le> rem then rcp + 1 else rcp))"

text \<open>The out-parameters \<open>*quo\<close> and \<open>*rem\<close> are the components of the result.\<close>

definition idivmodFast32 :: "u32 \<Rightarrow> u32 \<Rightarrow> u32 \<Rightarrow> u32 \<times> u32" where
  "idivmodFast32 x y yrcp =
    (if yrcp \<noteq> 0 then
       (let q = mul32hi x yrcp; r = x - y * q
        in if r \<ge> y then (q + 1, r - y) else (q, r))
     else (x, 0))"

definition idivmodFast64 :: "u64 \<Rightarrow> u64 \<Rightarrow> u64 \<Rightarrow> u64 \<times> u64" where
  "idivmodFast64 x y yrcp =
    (if yrcp \<noteq> 0 then
       (let q = mul64hi x yrcp; r = x - y * q
        in if r \<ge> y then (q + 1, r - y) else (q, r))
     else (x, 0))"

definition idivFast32 :: "u32 \<Rightarrow> u32 \<Rightarrow> u32 \<Rightarrow> u32" where
  "idivFast32 x y yrcp = fst (idivmodFast32 x y yrcp)"

definition idivFast64 :: "u64 \<Rightarrow> u64 \<Rightarrow> u64 \<Rightarrow> u32" where
  "idivFast64 x y yrcp = ucast (fst (idivmodFast64 x y yrcp))"

definition imodFast32 :: "u32 \<Rightarrow> u32 \<Rightarrow> u32 \<Rightarrow> u32" where
  "imodFast32 x y yrcp = snd (idivmodFast32 x y yrcp)"

definition imodFast64 :: "u64 \<Rightarrow> u64 \<Rightarrow> u64 \<Rightarrow> u64" where
  "imodFast64 x y yrcp = snd (idivmodFast64 x y yrcp)"

section \<open>Counting bits\<close>

text \<open>The builtins: the number of binary digits of a value, its leading zeros in the word, its number of
  ones, and the index from one of its lowest one (zero when there is none).\<close>

fun nat_bits :: "nat \<Rightarrow> nat" where
  "nat_bits n = (if n = 0 then 0 else Suc (nat_bits (n div 2)))"

declare nat_bits.simps [simp del]

definition COMPILER_CLZ :: "'a :: len word \<Rightarrow> int" where
  "COMPILER_CLZ x = int LENGTH('a) - int (nat_bits (unat x))"

fun nat_ones :: "nat \<Rightarrow> nat" where
  "nat_ones n = (if n = 0 then 0 else n mod 2 + nat_ones (n div 2))"

declare nat_ones.simps [simp del]

definition COMPILER_POPCOUNT :: "'a :: len word \<Rightarrow> int" where
  "COMPILER_POPCOUNT x = int (nat_ones (unat x))"

fun nat_ffs :: "nat \<Rightarrow> nat" where
  "nat_ffs n = (if n = 0 then 0 else if odd n then 1 else Suc (nat_ffs (n div 2)))"

declare nat_ffs.simps [simp del]

definition COMPILER_FFS :: "'a :: len word \<Rightarrow> int" where
  "COMPILER_FFS x = int (nat_ffs (unat x))"

definition countOneBits :: "'a :: len word \<Rightarrow> int" where
  "countOneBits x = COMPILER_POPCOUNT x"

definition firstOneBit :: "'a :: len word \<Rightarrow> int" where
  "firstOneBit m = COMPILER_FFS m - 1"

text \<open>\<open>popFirstOneBit(&mask)\<close>: the index and the new value of \<open>mask\<close>.\<close>

definition popFirstOneBit :: "'a :: len word \<Rightarrow> int \<times> 'a word" where
  "popFirstOneBit m = (firstOneBit m, m AND (m - 1))"

definition log2Down :: "'a :: len word \<Rightarrow> int" where
  "log2Down x = (if x = 0 then - 1 else (int LENGTH('a) - 1) - COMPILER_CLZ x)"

definition log2Up :: "'a :: len word \<Rightarrow> int" where
  "log2Up x = (let x' = (if x \<noteq> 0 then x - 1 else x)
               in if x' = 0 then 0 else int LENGTH('a) - COMPILER_CLZ x')"

definition pow2Up :: "'a :: len word \<Rightarrow> 'a word" where
  "pow2Up x = push_bit (nat (log2Up x)) 1"

text \<open>A shift by \<open>-1\<close> is undefined in C: \<open>None\<close> when the argument is zero.\<close>

definition pow2Down :: "'a :: len word \<Rightarrow> 'a word option" where
  "pow2Down x = (if x = 0 then None else Some (push_bit (nat (log2Down x)) 1))"

section \<open>The 8-bit floating format\<close>

definition u32fpEncode :: "u32 \<Rightarrow> nat \<Rightarrow> u32" where
  "u32fpEncode x bitsPerPow2 =
    (let log2x = nat (31 - COMPILER_CLZ (x OR 1));
         mant = drop_bit (if log2x \<ge> bitsPerPow2 then log2x - bitsPerPow2 else 0) x
                  AND (push_bit bitsPerPow2 1 - 1);
         expo = (if log2x \<ge> bitsPerPow2 then of_nat (log2x - (bitsPerPow2 - 1)) else 0)
     in push_bit bitsPerPow2 expo OR mant)"

definition u32fpDecode :: "u32 \<Rightarrow> nat \<Rightarrow> u32" where
  "u32fpDecode x bitsPerPow2 =
    (let expo = drop_bit bitsPerPow2 x;
         mant = (x AND (push_bit bitsPerPow2 1 - 1)) OR (if expo \<noteq> 0 then 0x8 else 0);
         expo' = (if expo \<noteq> 0 then expo - 1 else expo)
     in push_bit (unat expo') mant)"

definition u32fp8MaxValue :: u32 where
  "u32fp8MaxValue = 0xf0000000"

definition u32fp8Encode :: "u32 \<Rightarrow> u8" where
  "u32fp8Encode x = ucast (u32fpEncode x 3)"

definition u32fp8Decode :: "u8 \<Rightarrow> u32" where
  "u32fp8Decode x = u32fpDecode (ucast x) 3"

section \<open>Hash\<close>

text \<open>\<open>memcpy(&x, ptr, chunkSize)\<close> into a zeroed \<open>uint64_t\<close>, little endian.\<close>

fun load_le :: "u8 list \<Rightarrow> u64" where
  "load_le [] = 0"
| "load_le (b # bs) = ucast b + 256 * load_le bs"

definition hash_mix :: "u64 \<times> u64 \<Rightarrow> u64 \<times> u64" where
  "hash_mix acc =
    (let a0 = fst acc + snd acc;
         a1 = snd acc XOR a0;
         a0' = a0 XOR drop_bit 31 a0;
         a0'' = a0' * 0x9de62bbc8cef3ce3;
         a1' = a1 XOR drop_bit 32 a1;
         a1'' = a1' * 0x485cd6311b599e79
     in (a0'', a1''))"

function eatHash_loop :: "u64 \<times> u64 \<Rightarrow> u8 list \<Rightarrow> u64 \<times> u64" where
  "eatHash_loop acc bytes =
    (if bytes = [] then acc
     else (let acc' = hash_mix acc; x = load_le (take 8 bytes)
           in eatHash_loop (fst acc' + x, snd acc') (drop 8 bytes)))"
  by pat_completeness auto
termination
  by (relation "measure (length \<circ> snd)") auto

declare eatHash_loop.simps [simp del]

definition eatHash :: "u64 \<times> u64 \<Rightarrow> u8 list \<Rightarrow> u64 \<times> u64" where
  "eatHash acc bytes = eatHash_loop (fst acc XOR of_nat (length bytes), snd acc) bytes"

definition digestHash :: "u64 \<times> u64 \<Rightarrow> u64" where
  "digestHash acc =
    (let h0 = fst acc;
         h1 = h0 XOR drop_bit 31 h0;
         h2 = h1 * 0xbac3bd562846de6b;
         h3 = h2 + snd acc;
         h4 = h3 XOR drop_bit 32 h3
     in h4 * 0x995a187a14e7b445)"

definition getHash :: "u8 list \<Rightarrow> u64" where
  "getHash bytes = digestHash (eatHash (1, 1) bytes)"

section \<open>The lowest one\<close>

lemma and_pred_odd: "odd n \<Longrightarrow> n AND (n - 1) = n - 1" for n :: nat
  by (subst and_rec) (auto elim!: oddE)

lemma and_pred_even: "0 < n \<Longrightarrow> even n \<Longrightarrow> n AND (n - 1) = 2 * ((n div 2) AND (n div 2 - 1))" for n :: nat
proof -
  assume a: "0 < n" "even n"
  then have "(n - 1) div 2 = n div 2 - 1" by auto
  with a show ?thesis by (subst and_rec) auto
qed

lemma nat_ffs_lowest:
  "0 < n \<Longrightarrow> 0 < nat_ffs n \<and> n AND (n - 1) = n - 2 ^ (nat_ffs n - 1) \<and>
     (\<exists>u. odd u \<and> n = 2 ^ (nat_ffs n - 1) * u)"
proof (induction n rule: nat_ffs.induct)
  case (1 n)
  show ?case
  proof (cases "odd n")
    case True
    then show ?thesis using 1(2) and_pred_odd [OF True] by (simp add: nat_ffs.simps [of n])
  next
    case False
    then have h: "0 < n div 2" using 1(2) by auto
    with 1 False obtain u where u: "0 < nat_ffs (n div 2)"
      "(n div 2) AND (n div 2 - 1) = n div 2 - 2 ^ (nat_ffs (n div 2) - 1)" "odd u"
      "n div 2 = 2 ^ (nat_ffs (n div 2) - 1) * u" by auto
    have n: "n = 2 * (n div 2)" using False by simp
    have f: "nat_ffs n - 1 = Suc (nat_ffs (n div 2) - 1)"
      using False 1(2) u(1) by (simp add: nat_ffs.simps [of n])
    have "n = 2 ^ (nat_ffs n - 1) * u" unfolding f by (subst n, subst u(4)) simp
    moreover have "n AND (n - 1) = n - 2 ^ (nat_ffs n - 1)"
    proof -
      have "n AND (n - 1) = 2 * (n div 2 - 2 ^ (nat_ffs (n div 2) - 1))"
        using and_pred_even [OF 1(2)] False u(2) by simp
      also have "\<dots> = 2 * (n div 2) - 2 ^ (nat_ffs n - 1)" unfolding f by (simp add: diff_mult_distrib2)
      finally show ?thesis using n by simp
    qed
    ultimately show ?thesis using u(3) False 1(2) by (auto simp: nat_ffs.simps [of n])
  qed
qed

lemma unat_and_pred: "x \<noteq> 0 \<Longrightarrow> unat (x AND (x - 1)) = unat x AND (unat x - 1)"
  for x :: "'a :: len word"
  by (simp add: unsigned_and_eq unat_minus_one)

lemma odd_dvd_pow2: "odd u \<Longrightarrow> u dvd 2 ^ k \<Longrightarrow> u = 1" for u :: nat
  by (metis coprime_common_divisor coprime_power_right_iff coprime_right_2_iff_odd dvd_refl nat_dvd_1_iff_1)

lemma dvd_pow2_iff: "0 < n \<Longrightarrow> n dvd 2 ^ m \<Longrightarrow> \<exists>k. n = 2 ^ k" for n :: nat
  using nat_ffs_lowest [of n] by (metis dvd_mult_right mult.right_neutral odd_dvd_pow2)

lemma isPow2_iff: "x \<noteq> 0 \<Longrightarrow> isPow2 x \<longleftrightarrow> (\<exists>k. unat x = 2 ^ k)" for x :: "'a :: len word"
proof -
  assume x: "x \<noteq> 0"
  then have pos: "0 < unat x" by (simp add: unat_gt_0)
  define e where "e = nat_ffs (unat x) - 1"
  from nat_ffs_lowest [OF pos] obtain u where
    l: "unat x AND (unat x - 1) = unat x - 2 ^ e" and u: "odd u" "unat x = 2 ^ e * u"
    unfolding e_def by blast
  have "isPow2 x \<longleftrightarrow> unat (x AND (x - 1)) = 0" by (simp add: isPow2_def unat_eq_zero)
  also have "\<dots> \<longleftrightarrow> 2 ^ e * u \<le> 2 ^ e * 1" by (simp only: unat_and_pred [OF x] l) (simp add: u(2))
  also have "\<dots> \<longleftrightarrow> u = 1" using u(1) by (auto simp: le_Suc_eq)
  also have "\<dots> \<longleftrightarrow> (\<exists>k. unat x = 2 ^ k)"
  proof
    assume "\<exists>k. unat x = 2 ^ k"
    then obtain k where "u dvd 2 ^ k" using u(2) by (metis dvd_triv_right)
    with u(1) show "u = 1" by (rule odd_dvd_pow2)
  qed (use u(2) in auto)
  finally show ?thesis .
qed

section \<open>Division\<close>

subsection \<open>The arithmetic behind it\<close>

text \<open>With \<open>N\<close> the modulus of the word and \<open>N div y\<close> the reciprocal of \<open>y\<close>, the high half of \<open>x\<close> times the
  reciprocal is the quotient or one less.\<close>

lemma rcp_quotient:
  fixes N x y :: nat
  assumes "0 < y" "x < N"
  defines "q \<equiv> x * (N div y) div N"
  shows "y * q \<le> x" "x < y * q + 2 * y"
proof -
  define r where "r = N div y"
  have r: "y * r \<le> N" "N < y * r + y"
    using assms(1) by (simp_all add: r_def times_div_less_eq_dividend) (metis dividend_less_times_div mult.commute add.commute)
  have q: "q * N \<le> x * r" "x * r < q * N + N"
    using assms(2) by (simp_all add: q_def r_def div_times_less_eq_dividend) (metis add.commute dividend_less_times_div less_nat_zero_code mult.commute neq0_conv)
  have "y * q * N \<le> y * (x * r)" using q(1) by simp
  also have "\<dots> = x * (y * r)" by (simp add: mult_ac)
  also have "\<dots> \<le> x * N" using r(1) by simp
  finally show "y * q \<le> x" using assms(2) by simp
  have "x * N \<le> x * (y * r + y)" using r(2) by simp
  also have "\<dots> = y * (x * r) + x * y" by (simp add: algebra_simps)
  also have "\<dots> < y * (q * N + N) + N * y"
    using q(2) assms by (intro add_less_le_mono) simp_all
  also have "\<dots> = (y * q + 2 * y) * N" by (simp add: algebra_simps)
  finally show "x < y * q + 2 * y" by simp
qed

lemma div_mod_from_estimate:
  fixes x y q :: nat
  assumes "y * q \<le> x" "x < y * q + 2 * y"
  shows "(if y \<le> x - y * q then (Suc q, x - y * q - y) else (q, x - y * q)) = (x div y, x mod y)"
proof -
  have "x div y = (if y \<le> x - y * q then Suc q else q)"
    using assms by (auto intro!: div_nat_eqI simp: algebra_simps)
  moreover have "x mod y = x - y * (x div y)" by (simp only: minus_mult_div_eq_mod)
  ultimately show ?thesis by (auto simp: algebra_simps)
qed

subsection \<open>On words\<close>

lemma unat_mulhi:
  fixes a b :: "'a :: len word"
  assumes "LENGTH('b :: len) = 2 * LENGTH('a)"
  shows "unat (ucast (drop_bit LENGTH('a) ((ucast a :: 'b word) * ucast b)) :: 'a word)
         = unat a * unat b div 2 ^ LENGTH('a)"
proof -
  let ?N = "2 ^ LENGTH('a) :: nat"
  have NN: "2 ^ LENGTH('b) = ?N * ?N" using assms by (simp add: mult_2 power_add)
  have lt: "unat a * unat b < ?N * ?N" by (intro mult_strict_mono') simp_all
  have u: "unat (ucast w :: 'b word) = unat w" for w :: "'a word"
  proof -
    have "unat w < ?N" by simp
    also have "?N \<le> 2 ^ LENGTH('b)" using assms by simp
    finally show ?thesis by (simp add: unsigned_ucast_eq take_bit_nat_eq_self)
  qed
  have "unat ((ucast a :: 'b word) * ucast b) = unat a * unat b"
    using lt u by (simp add: unat_word_ariths NN)
  then have "unat (drop_bit LENGTH('a) ((ucast a :: 'b word) * ucast b)) = unat a * unat b div ?N"
    unfolding unat_drop_bit_eq by (simp add: drop_bit_eq_div)
  moreover have "unat a * unat b div ?N < ?N" using lt by (simp add: less_mult_imp_div_less)
  ultimately show ?thesis by (simp add: unsigned_ucast_eq take_bit_nat_eq_self)
qed

lemma unat_mul32hi [bitops_unat]: "unat (mul32hi a b) = unat a * unat b div 2 ^ 32"
  using unat_mulhi [where ?'a = 32 and ?'b = 64, of a b] by (simp add: mul32hi_def)

lemma unat_mul64hi [bitops_unat]: "unat (mul64hi a b) = unat a * unat b div 2 ^ 64"
  using unat_mulhi [where ?'a = 64 and ?'b = 128, of a b] by (simp add: mul64hi_def)

lemma unat_idivRcp32 [bitops_unat]: "y \<noteq> 0 \<Longrightarrow> unat (idivRcp32 y) = 2 ^ 32 div unat y mod 2 ^ 32"
proof -
  assume "y \<noteq> 0"
  have "unat y < 2 ^ 32" using unsigned_less [of y, where ?'a = nat] by simp
  then have "unat (ucast y :: u64) = unat y" by (simp add: unsigned_ucast_eq take_bit_nat_eq_self)
  then show ?thesis
    by (simp add: idivRcp32_def unsigned_ucast_eq unat_div take_bit_eq_mod)
qed

lemma pred_div:
  fixes N y :: nat
  assumes "0 < N" "0 < y"
  shows "(N - 1) div y + (if y dvd N then 1 else 0) = N div y"
proof (cases "y dvd N")
  case True
  then obtain k where k: "N = y * k" by auto
  with assms have "(N - 1) div y = k - 1" by (intro div_nat_eqI) (auto simp: algebra_simps diff_mult_distrib2)
  with k assms show ?thesis by auto
next
  case False
  then have "N mod y \<noteq> 0" by (simp add: dvd_eq_mod_eq_0)
  then have "y * (N div y) \<le> N - 1" "N - 1 < y * (N div y) + y"
    using mult_div_mod_eq [of y N] mod_less_divisor [OF assms(2), of N] by linarith+
  then have "(N - 1) div y = N div y" by (intro div_nat_eqI) (auto simp: algebra_simps)
  with False show ?thesis by simp
qed

lemma rcp_from_pred:
  fixes y :: "'a :: len word"
  assumes y: "y \<noteq> 0"
  shows "unat ((- 1) div y + (if isPow2 y then 1 else 0)) = 2 ^ LENGTH('a) div unat y mod 2 ^ LENGTH('a)"
proof -
  let ?N = "2 ^ LENGTH('a) :: nat"
  from y have pos: "0 < unat y" by (simp add: unat_gt_0)
  have "isPow2 y \<longleftrightarrow> unat y dvd ?N"
  proof
    assume "isPow2 y"
    then obtain k where k: "unat y = 2 ^ k" using isPow2_iff [OF y] by blast
    have "unat y < ?N" by simp
    then have "k < LENGTH('a)" unfolding k by (simp add: power_strict_increasing_iff)
    then show "unat y dvd ?N" unfolding k by (intro le_imp_power_dvd) simp
  next
    assume "unat y dvd ?N"
    then show "isPow2 y" using isPow2_iff [OF y] dvd_pow2_iff [OF pos] by blast
  qed
  moreover have "unat (- 1 :: 'a word) = ?N - 1" by (simp add: unsigned_minus_1_eq_mask mask_eq_exp_minus_1)
  ultimately have "unat ((- 1) div y + (if isPow2 y then 1 else 0))
      = ((?N - 1) div unat y + (if unat y dvd ?N then 1 else 0)) mod ?N"
    by (simp add: unat_word_ariths unat_div mod_Suc_eq)
  also have "\<dots> = ?N div unat y mod ?N" using pos by (subst pred_div) simp_all
  finally show ?thesis .
qed

lemma unat_idivRcp64 [bitops_unat]: "y \<noteq> 0 \<Longrightarrow> unat (idivRcp64 y) = 2 ^ 64 div unat y mod 2 ^ 64"
  using rcp_from_pred [of y] by (simp add: idivRcp64_def)

lemma rcp_zero:
  fixes y rcp :: "'a :: len word"
  assumes y: "y \<noteq> 0" and rcp: "unat rcp = 2 ^ LENGTH('a) div unat y mod 2 ^ LENGTH('a)" and "rcp = 0"
  shows "y = 1"
proof (rule ccontr)
  let ?N = "2 ^ LENGTH('a) :: nat"
  have pos: "0 < unat y" and lt: "unat y < ?N" using y by (simp_all add: unat_gt_0)
  have ge1: "1 \<le> ?N div unat y" using pos lt by (simp add: div_greater_zero_iff Suc_le_eq less_imp_le)
  assume "y \<noteq> 1"
  with pos have "1 < unat y" by (metis One_nat_def Suc_lessI unat_1 word_unat_eq_iff)
  then have "?N div unat y < ?N" by (intro div_less_dividend) simp_all
  with ge1 rcp \<open>rcp = 0\<close> show False by simp
qed

lemma divmod_by_rcp:
  fixes x y q rcp :: "'a :: len word"
  assumes y: "y \<noteq> 0" and rcp: "unat rcp = 2 ^ LENGTH('a) div unat y mod 2 ^ LENGTH('a)"
    and q: "unat q = unat x * unat rcp div 2 ^ LENGTH('a)"
    and nz: "rcp \<noteq> 0"
  shows "(if x - y * q \<ge> y then (q + 1, x - y * q - y) else (q, x - y * q)) = (x div y, x mod y)"
proof -
  let ?N = "2 ^ LENGTH('a) :: nat"
  have pos: "0 < unat y" and lt: "unat y < ?N" "unat x < ?N" using y by (simp_all add: unat_gt_0)
  from nz have "?N div unat y \<noteq> ?N" using rcp by (metis mod_self unat_eq_zero)
  then have "?N div unat y < ?N" using div_le_dividend [of ?N "unat y"] by linarith
  with rcp have "unat rcp = ?N div unat y" by simp
  then have est: "unat y * unat q \<le> unat x" "unat x < unat y * unat q + 2 * unat y"
    using rcp_quotient [OF pos lt(2)] q by simp_all
  have "unat y * unat q < ?N" using est(1) lt(2) by (rule le_less_trans)
  then have yq: "unat (y * q) = unat y * unat q" by (simp add: unat_word_ariths)
  have r: "unat (x - y * q) = unat x - unat y * unat q" using est(1) yq by (simp add: unat_sub word_le_nat_alt)
  have d: "(if unat y \<le> unat (x - y * q) then (Suc (unat q), unat (x - y * q) - unat y)
      else (unat q, unat (x - y * q))) = (unat x div unat y, unat x mod unat y)"
    unfolding r by (rule div_mod_from_estimate [OF est])
  show "(if x - y * q \<ge> y then (q + 1, x - y * q - y) else (q, x - y * q)) = (x div y, x mod y)"
  proof (cases "y \<le> x - y * q")
    case True
    then have le: "unat y \<le> unat (x - y * q)" by (simp add: word_le_nat_alt)
    with d have "Suc (unat q) = unat x div unat y" "unat (x - y * q) - unat y = unat x mod unat y" by auto
    moreover have "unat x div unat y < ?N" using lt(2) by (metis div_le_dividend le_less_trans)
    ultimately have "unat (q + 1) = unat (x div y)" "unat (x - y * q - y) = unat (x mod y)"
      using True by (simp add: unat_word_ariths unat_div, simp add: unat_sub unat_mod)
    with True show ?thesis by (simp add: word_unat_eq_iff)
  next
    case False
    with d have "unat q = unat (x div y)" "unat (x - y * q) = unat (x mod y)"
      by (auto simp: word_le_nat_alt unat_div unat_mod)
    with False show ?thesis by (simp add: word_unat_eq_iff)
  qed
qed

subsection \<open>The contract of a fast division\<close>

text \<open>
  A division routine takes the dividend, the divisor and the reciprocal. Its callers rely on exactly
  this: with the reciprocal of the same divisor it returns quotient and remainder.
\<close>

locale fast_division =
  fixes divmod :: "'a :: len word \<Rightarrow> 'a word \<Rightarrow> 'a word \<Rightarrow> 'a word \<times> 'a word"
    and rcp :: "'a word \<Rightarrow> 'a word"
  assumes exact: "y \<noteq> 0 \<Longrightarrow> divmod x y (rcp y) = (x div y, x mod y)"
begin

lemma reassemble: "y \<noteq> 0 \<Longrightarrow> fst (divmod x y (rcp y)) * y + snd (divmod x y (rcp y)) = x"
  by (simp add: exact div_mult_mod_eq)

lemma remainder_less: "y \<noteq> 0 \<Longrightarrow> snd (divmod x y (rcp y)) < y"
  by (simp add: exact word_less_nat_alt unat_mod unat_gt_0)

end

interpretation div32: fast_division idivmodFast32 idivRcp32
proof
  fix x y :: u32
  assume y: "y \<noteq> 0"
  show "idivmodFast32 x y (idivRcp32 y) = (x div y, x mod y)"
  proof (cases "idivRcp32 y = 0")
    case True
    have "y = 1" by (rule rcp_zero [OF y _ True]) (simp add: unat_idivRcp32 [OF y])
    with True show ?thesis by (simp add: idivmodFast32_def)
  next
    case False
    then show ?thesis
      using divmod_by_rcp [of y "idivRcp32 y" "mul32hi x (idivRcp32 y)" x] y
      by (simp add: idivmodFast32_def Let_def bitops_unat)
  qed
qed

interpretation div64: fast_division idivmodFast64 idivRcp64
proof
  fix x y :: u64
  assume y: "y \<noteq> 0"
  show "idivmodFast64 x y (idivRcp64 y) = (x div y, x mod y)"
  proof (cases "idivRcp64 y = 0")
    case True
    have "y = 1" by (rule rcp_zero [OF y _ True]) (simp add: unat_idivRcp64 [OF y])
    with True show ?thesis by (simp add: idivmodFast64_def)
  next
    case False
    then show ?thesis
      using divmod_by_rcp [of y "idivRcp64 y" "mul64hi x (idivRcp64 y)" x] y
      by (simp add: idivmodFast64_def Let_def bitops_unat)
  qed
qed

text \<open>C32 fast division is division: for every dividend and every divisor but zero, \<open>idivmodFast32\<close> and
  \<open>idivmodFast64\<close> with the precomputed reciprocal return exactly the quotient and the remainder, although
  the estimate from the high half of a product can be one too small and the reciprocal of 1 wraps to 0.\<close>

theorem idivmodFast_exact:
  "(y \<noteq> 0 \<longrightarrow> idivmodFast32 x y (idivRcp32 y) = (x div y, x mod y))
   \<and> (y' \<noteq> 0 \<longrightarrow> idivmodFast64 x' y' (idivRcp64 y') = (x' div y', x' mod y'))"
  using div32.exact div64.exact by blast

theorem idivmodFast_exact_witness:
  "idivmodFast32 4294967295 7 (idivRcp32 7) = (4294967295 div 7, 4294967295 mod 7)"
  using idivmodFast_exact [of 7 4294967295] by simp

subsection \<open>The reciprocal of a product\<close>

lemma rcp_product:
  fixes N x y :: nat
  assumes "2 \<le> x" "2 \<le> y" "2 * (x * y) \<le> N"
  defines "r \<equiv> (N div x) * (N div y) div N"
  shows "0 < r" "x * y * r \<le> N" "N < x * y * (r + 2)"
proof -
  define a b where "a = N div x" and "b = N div y"
  have "0 < x * y" using assms(1,2) by simp
  then have N: "0 < N" using assms(3) by linarith
  have a: "x * a \<le> N" "N < x * a + x" and b: "y * b \<le> N" "N < y * b + y"
    using assms(1,2) dividend_less_times_div [of x N] dividend_less_times_div [of y N]
    by (simp_all add: a_def b_def add.commute)
  have xy: "x + y \<le> x * y"
  proof -
    obtain x' y' where "x = Suc (Suc x')" "y = Suc (Suc y')" using assms(1,2) by (metis Suc_le_D numeral_2_eq_2 Suc_le_mono)
    then show ?thesis by simp
  qed
  have up: "N * N \<le> x * y * (a * b) + N * (x + y)"
  proof -
    have "N * N \<le> (x * a + x) * N" using a(2) by simp
    also have "\<dots> = x * a * N + x * N" by (rule add_mult_distrib)
    also have "\<dots> \<le> x * a * (y * b + y) + x * N" using b(2) by (intro add_mono mult_le_mono2) simp_all
    also have "\<dots> = x * y * (a * b) + (x * a) * y + x * N" by (simp add: algebra_simps)
    also have "\<dots> \<le> x * y * (a * b) + N * y + x * N" using a(1) by simp
    finally show ?thesis by (simp add: algebra_simps)
  qed
  have "N \<le> a * b"
  proof -
    have "N * (x + y) + N * (x * y) \<le> N * N"
      using assms(3) xy by (simp add: add_mult_distrib2 [symmetric])
    with up have "N * (x + y) + N * (x * y) \<le> x * y * (a * b) + N * (x + y)" by linarith
    then have "x * y * N \<le> x * y * (a * b)" by (metis add.commute add_le_cancel_right mult.commute)
    then show ?thesis using assms(1,2) by simp
  qed
  then show "0 < r" using N by (simp add: r_def a_def b_def div_greater_zero_iff)
  have r: "r * N \<le> a * b" "a * b < r * N + N"
    using N dividend_less_times_div [OF N, of "a * b"] by (simp_all add: r_def a_def b_def mult.commute add.commute)
  have "x * y * r * N \<le> x * a * (y * b)" using mult_le_mono2 [OF r(1), of "x * y"] by (simp add: mult_ac)
  also have "\<dots> \<le> N * N" using a(1) b(1) by (rule mult_le_mono)
  finally show "x * y * r \<le> N" using N by simp
  have "N * N < x * y * (r * N + N) + N * (x * y)"
    using up r(2) xy assms(1,2) by (intro le_less_trans [OF up] add_less_le_mono) simp_all
  also have "\<dots> = x * y * (r + 2) * N" by (simp add: algebra_simps)
  finally show "N < x * y * (r + 2)" by simp
qed

lemma unat_neg: "w \<noteq> 0 \<Longrightarrow> unat (- w) = 2 ^ LENGTH('a) - unat w" for w :: "'a :: len word"
proof -
  assume w: "w \<noteq> 0"
  let ?N = "2 ^ LENGTH('a) :: nat"
  have lt: "unat (- w) < ?N" "unat w < ?N" "0 < unat w" using w by (simp_all add: unat_gt_0)
  have "unat (- w + w) = (unat (- w) + unat w) mod ?N" by (simp only: unat_word_ariths)
  then have "?N dvd unat (- w) + unat w" by (simp add: dvd_eq_mod_eq_0)
  then obtain k where k: "unat (- w) + unat w = ?N * k" by (auto elim: dvdE)
  have "k = 1"
  proof -
    have "?N * k < ?N * 2" "0 < ?N * k" using lt k by linarith+
    then show ?thesis by simp
  qed
  with k show ?thesis by simp
qed

lemma imul_by_rcp:
  fixes x y q :: "'a :: len word"
  assumes x: "2 \<le> unat x" and y: "2 \<le> unat y" and fit: "2 * (unat x * unat y) \<le> 2 ^ LENGTH('a)"
    and q: "unat q = (2 ^ LENGTH('a) div unat x) * (2 ^ LENGTH('a) div unat y) div 2 ^ LENGTH('a)"
  shows "unat (if x * y \<le> 0 - x * y * q then q + 1 else q) = 2 ^ LENGTH('a) div (unat x * unat y)"
proof -
  let ?N = "2 ^ LENGTH('a) :: nat"
  let ?p = "unat x * unat y"
  note r = rcp_product [OF x y fit, folded q]
  have p: "0 < ?p" "2 * ?p \<le> ?N" using x y fit by simp_all
  then have pN: "?p < ?N" by linarith
  have xy: "unat (x * y) = ?p" using pN by (simp add: unat_word_ariths)
  have xyq: "unat (x * y * q) = ?p * unat q mod ?N" using xy by (simp add: unat_word_ariths)
  have rem: "unat (0 - x * y * q) = (if ?p * unat q = ?N then 0 else ?N - ?p * unat q)"
  proof (cases "?p * unat q = ?N")
    case True
    then have "x * y * q = 0" using xyq by (simp add: unat_eq_zero [symmetric])
    then show ?thesis using True by simp
  next
    case False
    then have lt: "?p * unat q < ?N" using r(2) by linarith
    then have "x * y * q \<noteq> 0" using xyq p(1) r(1) by (auto simp: unat_eq_zero [symmetric])
    then show ?thesis using lt xyq False by (simp add: unat_neg)
  qed
  have le: "x * y \<le> 0 - x * y * q \<longleftrightarrow> ?p * (unat q + 1) \<le> ?N"
    unfolding word_le_nat_alt rem xy using p(1) r(2) by (auto simp: algebra_simps)
  show ?thesis
  proof (cases "x * y \<le> 0 - x * y * q")
    case True
    then have "?N div ?p = Suc (unat q)" using le r(3) by (intro div_nat_eqI) (auto simp: algebra_simps)
    moreover have "1 < ?p" using mult_le_mono [OF x y] by simp
    then have "?N div ?p < ?N" by (intro div_less_dividend) simp_all
    ultimately show ?thesis using True by (simp add: unat_word_ariths)
  next
    case False
    then have "?N div ?p = unat q" using le r(2) by (intro div_nat_eqI) (auto simp: algebra_simps)
    with False show ?thesis by simp
  qed
qed

lemma small_nonzero: "x \<noteq> 0 \<Longrightarrow> x \<noteq> 1 \<Longrightarrow> 2 \<le> unat x" for x :: "'a :: len word"
  by (metis One_nat_def Suc_1 Suc_leI less_one linorder_neqE_nat unat_1 unat_eq_zero word_unat_eq_iff not_less_eq not_less_less_Suc_eq)

lemma imulRcp_exact:
  fixes x y rx ry q :: "'a :: len word"
  assumes x: "x \<noteq> 0" "unat rx = 2 ^ LENGTH('a) div unat x mod 2 ^ LENGTH('a)"
    and y: "y \<noteq> 0" "unat ry = 2 ^ LENGTH('a) div unat y mod 2 ^ LENGTH('a)"
    and fit: "2 * (unat x * unat y) \<le> 2 ^ LENGTH('a)"
    and q: "unat q = unat rx * unat ry div 2 ^ LENGTH('a)"
  shows "unat (if rx = 0 then ry else if ry = 0 then rx else if x * y \<le> 0 - x * y * q then q + 1 else q)
    = 2 ^ LENGTH('a) div unat (x * y) mod 2 ^ LENGTH('a)"
proof (cases "rx = 0 \<or> ry = 0")
  case True
  then show ?thesis using rcp_zero [OF x] rcp_zero [OF y] x y by auto
next
  case False
  let ?N = "2 ^ LENGTH('a) :: nat"
  have one: "unat r = ?N div unat z" "z \<noteq> 1" if "r \<noteq> 0" "unat r = ?N div unat z mod ?N" for r z :: "'a word"
  proof -
    have "?N div unat z \<noteq> ?N" using that by (metis mod_self unat_eq_zero)
    then have "?N div unat z < ?N" using div_le_dividend [of ?N "unat z"] by linarith
    then show "unat r = ?N div unat z" using that(2) by simp
    show "z \<noteq> 1" using \<open>?N div unat z \<noteq> ?N\<close> by auto
  qed
  from False one [of rx x] one [of ry y] x y
  have h: "unat rx = ?N div unat x" "x \<noteq> 1" "unat ry = ?N div unat y" "y \<noteq> 1" by auto
  have two: "2 \<le> unat x" "2 \<le> unat y" using small_nonzero h x y by auto
  have "0 < unat x * unat y" using two by simp
  with fit have lt: "unat x * unat y < ?N" by linarith
  then have xy: "unat (x * y) = unat x * unat y" by (simp add: unat_word_ariths)
  have "1 < unat x * unat y" using mult_le_mono [OF two] by simp
  then have "?N div (unat x * unat y) < ?N" by (intro div_less_dividend) simp_all
  then show ?thesis
    using imul_by_rcp [OF two fit, of q] q h False by (simp add: xy)
qed

text \<open>The reciprocal of a product from the reciprocals of its factors, without a division: \<open>imulRcp32\<close> and
  \<open>imulRcp64\<close> return exactly the reciprocal of \<open>x * y\<close> whenever the product uses at most half of the word.\<close>

theorem imulRcp_correct:
  "(x \<noteq> 0 \<and> y \<noteq> 0 \<and> 2 * (unat x * unat y) \<le> 2 ^ 32 \<longrightarrow>
      imulRcp32 x (idivRcp32 x) y (idivRcp32 y) = idivRcp32 (x * y))
   \<and> (x' \<noteq> 0 \<and> y' \<noteq> 0 \<and> 2 * (unat x' * unat y') \<le> 2 ^ 64 \<longrightarrow>
      imulRcp64 x' (idivRcp64 x') y' (idivRcp64 y') = idivRcp64 (x' * y'))"
proof (intro conjI impI; elim conjE)
  assume a: "x \<noteq> 0" "y \<noteq> 0" "2 * (unat x * unat y) \<le> 2 ^ 32"
  have "unat (x * y) = unat x * unat y" using a(3) by (simp add: unat_word_ariths)
  then have "x * y \<noteq> 0" using a by (metis mult_eq_0_iff unat_eq_zero)
  moreover have "unat (imulRcp32 x (idivRcp32 x) y (idivRcp32 y)) = 2 ^ LENGTH(32) div unat (x * y) mod 2 ^ LENGTH(32)"
    unfolding imulRcp32_def Let_def by (rule imulRcp_exact) (use a in \<open>simp_all add: bitops_unat\<close>)
  ultimately show "imulRcp32 x (idivRcp32 x) y (idivRcp32 y) = idivRcp32 (x * y)"
    by (simp add: word_unat_eq_iff [of _ "idivRcp32 (x * y)"] unat_idivRcp32)
next
  assume a: "x' \<noteq> 0" "y' \<noteq> 0" "2 * (unat x' * unat y') \<le> 2 ^ 64"
  have "unat (x' * y') = unat x' * unat y'" using a(3) by (simp add: unat_word_ariths)
  then have "x' * y' \<noteq> 0" using a by (metis mult_eq_0_iff unat_eq_zero)
  moreover have "unat (imulRcp64 x' (idivRcp64 x') y' (idivRcp64 y')) = 2 ^ LENGTH(64) div unat (x' * y') mod 2 ^ LENGTH(64)"
    unfolding imulRcp64_def Let_def by (rule imulRcp_exact) (use a in \<open>simp_all add: bitops_unat\<close>)
  ultimately show "imulRcp64 x' (idivRcp64 x') y' (idivRcp64 y') = idivRcp64 (x' * y')"
    by (simp add: word_unat_eq_iff [of _ "idivRcp64 (x' * y')"] unat_idivRcp64)
qed

theorem imulRcp_correct_witness: "imulRcp32 6 (idivRcp32 6) 7 (idivRcp32 7) = idivRcp32 (6 * 7)"
  using imulRcp_correct [of 6 7] by simp

lemma rcp_examples:
  "idivRcp32 1400000000 = 3" "idivRcp32 3 = 1431655765" "idivRcp32 4200000000 = 1" "mul32hi 3 1431655765 = 0"
  by (simp_all add: word_unat_eq_iff bitops_unat)

text \<open>Beyond half of the word \<open>imulRcp32\<close> can lose the reciprocal: for the factors 1400000000 and 3 the
  product fits a \<open>uint32_t\<close>, yet the result is 0 where the reciprocal is 1, and a division by it answers
  as if the divisor were 1.\<close>

theorem imulRcp32_large_product:
  "unat (1400000000 :: u32) * unat (3 :: u32) < 2 ^ 32
   \<and> idivRcp32 (1400000000 * 3) = 1
   \<and> imulRcp32 1400000000 (idivRcp32 1400000000) 3 (idivRcp32 3) = 0
   \<and> idivFast32 4200000001 (1400000000 * 3) (imulRcp32 1400000000 (idivRcp32 1400000000) 3 (idivRcp32 3))
       = 4200000001
   \<and> (4200000001 :: u32) div (1400000000 * 3) = 1"
  by (simp add: imulRcp32_def rcp_examples idivFast32_def idivmodFast32_def word_unat_eq_iff unat_div)

end
