(* ===== verification/Bitops_Facts.thy ===== *)
theory Bitops_Facts
  imports Bitops
begin

text \<open>
  Theorems on the helpers of \<open>net/include/bitops.h\<close> other than division: alignment to powers of two,
  logarithms, taking the lowest one of a mask, 4 GiB wrapping, the 8-bit floating format and the hash.
\<close>

lemma unat_pow2: "k < LENGTH('a) \<Longrightarrow> unat (2 ^ k :: 'a :: len word) = 2 ^ k"
  using unat_of_nat [of "2 ^ k", where ?'a = 'a] by (simp add: power_strict_increasing)

section \<open>Alignment\<close>

lemma and_neg_pow2: "x AND (0 - 2 ^ k) = push_bit k (drop_bit k x)" for x :: "'a :: len word"
  by (rule bit_eqI) (auto simp: minus_exp_eq_not_mask bit_simps)

lemma minus_mod_pow2: "x - x mod 2 ^ k = push_bit k (drop_bit k x)" for x :: "'a :: len word"
proof -
  have "x = push_bit k (drop_bit k x) + take_bit k x" by (simp add: bits_ident)
  then show ?thesis by (simp add: take_bit_eq_mod [symmetric]) (metis add_diff_cancel_right')
qed

lemma unat_push_drop: "unat (push_bit k (drop_bit k x)) = unat x div 2 ^ k * 2 ^ k"
  for x :: "'a :: len word"
proof -
  have "unat x div 2 ^ k * 2 ^ k \<le> unat x" by (rule div_times_less_eq_dividend)
  also have "\<dots> < 2 ^ LENGTH('a)" by simp
  finally have "unat x div 2 ^ k * 2 ^ k < 2 ^ LENGTH('a)" .
  then show ?thesis
    unfolding unsigned_push_bit_eq unat_drop_bit_eq
    by (simp add: push_bit_eq_mult drop_bit_eq_div take_bit_nat_eq_self)
qed

text \<open>Aligning to a power of two: the masks of \<open>alignUp\<close> and \<open>alignDown\<close> compute the same as the divisions
  of \<open>roundUp\<close> and \<open>roundDown\<close>; the result is a multiple of the alignment, at most one alignment step away
  from the argument on the right side, as long as adding the alignment does not overflow.\<close>

theorem align_pow2:
  fixes x :: "'a :: len word"
  assumes "k < LENGTH('a)" and "unat x + 2 ^ k \<le> 2 ^ LENGTH('a)"
  shows "alignUp x (2 ^ k) = roundUp x (2 ^ k) \<and> alignDown x (2 ^ k) = roundDown x (2 ^ k)
    \<and> 2 ^ k dvd unat (alignUp x (2 ^ k)) \<and> unat x \<le> unat (alignUp x (2 ^ k))
    \<and> unat (alignUp x (2 ^ k)) < unat x + 2 ^ k
    \<and> 2 ^ k dvd unat (alignDown x (2 ^ k)) \<and> unat (alignDown x (2 ^ k)) \<le> unat x
    \<and> unat x < unat (alignDown x (2 ^ k)) + 2 ^ k"
proof -
  let ?p = "2 ^ k :: nat"
  have up: "alignUp x (2 ^ k) = push_bit k (drop_bit k (x + 2 ^ k - 1))"
    by (simp only: alignUp_def and_neg_pow2)
  have down: "alignDown x (2 ^ k) = push_bit k (drop_bit k x)"
    by (simp only: alignDown_def and_neg_pow2)
  have eqs: "alignUp x (2 ^ k) = roundUp x (2 ^ k)" "alignDown x (2 ^ k) = roundDown x (2 ^ k)"
    unfolding up down by (simp_all only: roundUp_def roundDown_def minus_mod_pow2)
  have "unat (x + (2 ^ k - 1)) = unat x + (?p - 1)"
  proof -
    have "unat (2 ^ k - 1 :: 'a word) = ?p - 1"
      using unat_pow2 [OF assms(1)] by (subst unat_sub) (simp_all add: word_le_nat_alt)
    moreover have "unat x + (?p - 1) < 2 ^ LENGTH('a)"
      using assms(2) zero_less_power [of "2 :: nat" k] by linarith
    ultimately show ?thesis by (simp add: unat_word_ariths)
  qed
  then have s: "unat (x + 2 ^ k - 1) = unat x + (?p - 1)" by (simp add: add_diff_eq)
  have U: "unat (alignUp x (2 ^ k)) = (unat x + (?p - 1)) div ?p * ?p" unfolding up unat_push_drop s ..
  have D: "unat (alignDown x (2 ^ k)) = unat x div ?p * ?p" unfolding down unat_push_drop ..
  have b: "n div ?p * ?p \<le> n" "n < n div ?p * ?p + ?p" for n
    using dividend_less_div_times [of ?p n] by simp_all
  have "unat x \<le> (unat x + (?p - 1)) div ?p * ?p" "(unat x + (?p - 1)) div ?p * ?p < unat x + ?p"
    using b [of "unat x + (?p - 1)"] zero_less_power [of "2 :: nat" k] by linarith+
  with eqs b [of "unat x"] show ?thesis unfolding U D by simp
qed

theorem align_pow2_witness:
  "alignUp (1000 :: u64) (2 ^ 7) = roundUp 1000 (2 ^ 7) \<and> unat (alignUp (1000 :: u64) (2 ^ 7)) < unat (1000 :: u64) + 2 ^ 7"
  using align_pow2 [of 7 "1000 :: u64"] by auto

section \<open>Logarithms\<close>

lemma nat_bits_bounds: "0 < n \<Longrightarrow> 0 < nat_bits n \<and> 2 ^ (nat_bits n - 1) \<le> n \<and> n < 2 ^ nat_bits n"
proof (induction n rule: nat_bits.induct)
  case (1 n)
  show ?case
  proof (cases "n div 2 = 0")
    case True
    with 1(2) have "n = 1" by simp
    then show ?thesis by (simp add: nat_bits.simps [of "Suc 0"] nat_bits.simps [of 0])
  next
    case False
    with 1 obtain h: "0 < nat_bits (n div 2)" "2 ^ (nat_bits (n div 2) - 1) \<le> n div 2" "n div 2 < 2 ^ nat_bits (n div 2)"
      by auto
    then have "2 * 2 ^ (nat_bits (n div 2) - 1) \<le> n" "n < 2 * 2 ^ nat_bits (n div 2)" by linarith+
    moreover have "2 * 2 ^ (nat_bits (n div 2) - 1) = (2 :: nat) ^ nat_bits (n div 2)"
      using h(1) by (metis Suc_diff_1 power_Suc)
    ultimately show ?thesis using 1(2) by (simp add: nat_bits.simps [of n])
  qed
qed

lemma nat_bits_le: "n < 2 ^ k \<Longrightarrow> nat_bits n \<le> k"
proof (cases "n = 0")
  case False
  assume "n < 2 ^ k"
  with nat_bits_bounds [of n] False have "(2 :: nat) ^ (nat_bits n - 1) < 2 ^ k" by (metis le_less_trans neq0_conv)
  then show ?thesis by simp
qed (simp add: nat_bits.simps)

text \<open>The two logarithms: \<open>log2Down\<close> is the floor and \<open>log2Up\<close> the ceiling of the base-2 logarithm of every
  value but zero, and \<open>pow2Up\<close> is the least power of two that is not smaller, when the word can hold it.\<close>

theorem log2_bounds:
  fixes x :: "'a :: len word"
  assumes "x \<noteq> 0"
  shows "\<exists>d u. log2Down x = int d \<and> log2Up x = int u \<and> 2 ^ d \<le> unat x \<and> unat x < 2 ^ Suc d
    \<and> unat x \<le> 2 ^ u \<and> (u = 0 \<or> 2 ^ (u - 1) < unat x)
    \<and> (u < LENGTH('a) \<longrightarrow> unat (pow2Up x) = 2 ^ u)"
proof -
  have pos: "0 < unat x" using assms by (simp add: unat_gt_0)
  define d where "d = nat_bits (unat x) - 1"
  define u where "u = nat_bits (unat x - 1)"
  have d: "log2Down x = int d" "2 ^ d \<le> unat x" "unat x < 2 ^ Suc d"
    using nat_bits_bounds [OF pos] assms by (auto simp: log2Down_def COMPILER_CLZ_def d_def)
  have m1: "unat (x - 1) = unat x - 1" using assms by (rule unat_minus_one)
  have u: "log2Up x = int u"
    using assms m1 nat_bits.simps [of 0] unat_eq_zero [of "x - 1"]
    by (auto simp: log2Up_def COMPILER_CLZ_def u_def Let_def)
  have ub: "unat x \<le> 2 ^ u \<and> (u = 0 \<or> 2 ^ (u - 1) < unat x)"
  proof (cases "unat x = 1")
    case True
    then show ?thesis by (simp add: u_def nat_bits.simps [of 0])
  next
    case False
    then show ?thesis using nat_bits_bounds [of "unat x - 1"] pos unfolding u_def by linarith
  qed
  have "unat (pow2Up x) = 2 ^ u" if "u < LENGTH('a)"
    using that u by (simp add: pow2Up_def push_bit_eq_mult unat_pow2)
  with d u ub show ?thesis by blast
qed

theorem log2_bounds_witness:
  "\<exists>d u. log2Down (100 :: u32) = int d \<and> log2Up (100 :: u32) = int u \<and> 2 ^ d \<le> unat (100 :: u32)
     \<and> unat (100 :: u32) \<le> 2 ^ u"
proof -
  have "(100 :: u32) \<noteq> 0" by simp
  from log2_bounds [OF this] show ?thesis by blast
qed

section \<open>Taking the ones of a mask\<close>

lemma bit_pow2_times: "bit (2 ^ e * u) j \<longleftrightarrow> e \<le> j \<and> bit u (j - e)" for u :: nat
  using bit_push_bit_iff [of e u j] by (simp add: push_bit_eq_mult mult.commute)

lemma bit_odd_pred: "odd u \<Longrightarrow> bit (u - 1) k \<longleftrightarrow> k \<noteq> 0 \<and> bit u k" for u :: nat
  by (cases k) (auto simp: bit_0 bit_Suc elim!: oddE)

lemma nat_ones_pow2: "nat_ones (2 ^ e * u) = nat_ones u"
proof (induction e)
  case (Suc e)
  have "nat_ones (2 * (2 ^ e * u)) = nat_ones (2 ^ e * u)"
    by (cases "2 ^ e * u = 0") (simp_all add: nat_ones.simps [of "2 * (2 ^ e * u)"] nat_ones.simps [of 0])
  with Suc show ?case by (simp add: mult.assoc)
qed simp

lemma nat_ones_odd: "odd u \<Longrightarrow> nat_ones u = Suc (nat_ones (u - 1))"
proof -
  assume "odd u"
  then obtain b where u: "u = 2 * b + 1" by (rule oddE)
  then have "nat_ones u = Suc (nat_ones b)" by (simp add: nat_ones.simps [of "Suc (2 * b)"])
  also have "nat_ones b = nat_ones (u - 1)" using nat_ones_pow2 [of 1 b] u by simp
  finally show ?thesis .
qed

text \<open>Popping a mask: for every mask but zero \<open>popFirstOneBit\<close> returns the index of the lowest one, clears
  exactly that bit, and leaves one bit less, so a loop over it visits every set bit once, in order.\<close>

theorem popFirstOneBit_lowest:
  fixes m :: "'a :: len word"
  assumes "m \<noteq> 0"
  shows "\<exists>i. popFirstOneBit m = (int i, unset_bit i m) \<and> bit m i \<and> (\<forall>j < i. \<not> bit m j)
    \<and> countOneBits (unset_bit i m) + 1 = countOneBits m"
proof -
  have pos: "0 < unat m" using assms by (simp add: unat_gt_0)
  define e where "e = nat_ffs (unat m) - 1"
  obtain u where ffs: "0 < nat_ffs (unat m)" and l: "unat m AND (unat m - 1) = unat m - 2 ^ e"
    and u: "odd u" "unat m = 2 ^ e * u"
    using nat_ffs_lowest [OF pos] unfolding e_def by blast
  have bits: "bit m j \<longleftrightarrow> e \<le> j \<and> bit u (j - e)" for j
    using bit_pow2_times [of e u j] by (simp add: u(2) [symmetric] bit_unsigned_iff)
  have m': "unat (m AND (m - 1)) = 2 ^ e * (u - 1)"
    unfolding unat_and_pred [OF assms] l unfolding u(2) by (simp add: diff_mult_distrib2)
  have "m AND (m - 1) = unset_bit e m"
  proof (rule bit_eqI)
    fix j
    have "bit (m AND (m - 1)) j \<longleftrightarrow> e \<le> j \<and> bit (u - 1) (j - e)"
      using bit_pow2_times [of e "u - 1" j] unfolding m' [symmetric] by (simp add: bit_unsigned_iff)
    also have "\<dots> \<longleftrightarrow> bit (unset_bit e m) j" by (auto simp: bit_odd_pred [OF u(1), simplified] bit_unset_bit_iff bits)
    finally show "bit (m AND (m - 1)) j \<longleftrightarrow> bit (unset_bit e m) j" .
  qed
  moreover from this have "countOneBits (unset_bit e m) + 1 = countOneBits m"
    using m' u by (simp add: countOneBits_def COMPILER_POPCOUNT_def nat_ones_pow2 nat_ones_odd [OF u(1)])
  moreover have "bit m e" "\<forall>j < e. \<not> bit m j" using u(1) by (auto simp: bits bit_0)
  ultimately show ?thesis
    using ffs by (intro exI [of _ e]) (auto simp: popFirstOneBit_def firstOneBit_def COMPILER_FFS_def e_def)
qed

theorem popFirstOneBit_lowest_witness:
  "\<exists>i. popFirstOneBit (40 :: u64) = (int i, unset_bit i 40) \<and> bit (40 :: u64) i"
  using popFirstOneBit_lowest [of "40 :: u64"] by auto

section \<open>Wrapping in steps of 4 GiB\<close>

lemma u64_join_parts [simp]:
  "u32_hi (u64_join h l) = h" "u32_lo (u64_join h l) = l" "u64_join (u32_hi p) (u32_lo p) = p"
  by (rule bit_eqI; auto simp: u32_hi_def u32_lo_def u64_join_def bit_simps dest: bit_imp_le_length)+

text \<open>C37 a pointer moved forward in a ring of 4 GiB slots \<open>lo4G .. hi4G\<close> stays in the ring and keeps its low half,
  and moving it back by the same amount restores it, as long as the step is at most \<open>lo4G\<close> (so that the
  subtraction cannot wrap below zero), at most the size of the ring, and the addition does not overflow.\<close>

theorem wrap4G_roundtrip:
  assumes "lo \<le> u32_hi p" "u32_hi p < hi" "d \<le> hi - lo" "d \<le> lo" "unat (u32_hi p) + unat d < 2 ^ 32"
  shows "lo \<le> u32_hi (incWrap4G p d lo hi) \<and> u32_hi (incWrap4G p d lo hi) < hi
    \<and> u32_lo (incWrap4G p d lo hi) = u32_lo p
    \<and> decWrap4G (incWrap4G p d lo hi) d lo hi = p"
proof -
  define h where "h = u32_hi p"
  have n: "unat lo \<le> unat h" "unat h < unat hi" "unat d \<le> unat hi - unat lo" "unat d \<le> unat lo"
    using assms unfolding h_def by (simp_all add: word_le_nat_alt word_less_nat_alt unat_sub)
  have s: "unat (h + d) = unat h + unat d" using assms(5) by (simp add: unat_word_ariths h_def)
  have hl: "unat (hi - lo) = unat hi - unat lo" using n by (simp add: unat_sub word_le_nat_alt)
  define h' where "h' = (if h + d \<ge> hi then h + d - (hi - lo) else h + d)"
  have h': "unat h' = (if unat hi \<le> unat h + unat d then unat h + unat d - (unat hi - unat lo) else unat h + unat d)"
    using n s hl by (auto simp: h'_def word_le_nat_alt unat_sub)
  have b: "unat lo \<le> unat h'" "unat h' < unat hi" unfolding h' using n by (auto split: if_splits)
  have d: "unat (h' - d) = unat h' - unat d" using b n by (simp add: unat_sub word_le_nat_alt)
  define h2 where "h2 = (if h' - d < lo then h' - d + (hi - lo) else h' - d)"
  have "unat h2 = unat h"
  proof (cases "unat hi \<le> unat h + unat d")
    case True
    then have e: "unat h' = unat h + unat d - (unat hi - unat lo)" by (simp add: h')
    then have "unat h' - unat d < unat lo" using n b True by linarith
    then have lt: "h' - d < lo" using d by (simp add: word_less_nat_alt)
    have "unat h < 2 ^ 32" using assms(5) by (simp add: h_def)
    moreover have "unat h' - unat d + (unat hi - unat lo) = unat h" using e n b True by linarith
    ultimately have "unat (h' - d + (hi - lo)) = unat h" using d hl by (simp add: unat_word_ariths)
    with lt show ?thesis by (simp add: h2_def)
  next
    case False
    then show ?thesis using h' d n by (simp add: h2_def word_less_nat_alt)
  qed
  then have "h2 = h" by (simp add: word_unat_eq_iff)
  moreover have "incWrap4G p d lo hi = u64_join h' (u32_lo p)"
    by (simp add: incWrap4G_def Let_def h'_def h_def)
  ultimately show ?thesis
    using b by (simp add: decWrap4G_def Let_def h2_def h_def word_le_nat_alt word_less_nat_alt)
qed

theorem wrap4G_roundtrip_witness:
  "decWrap4G (incWrap4G (u64_join 7 99) 3 4 9) 3 4 9 = u64_join 7 99"
proof -
  have "(4 :: u32) \<le> u32_hi (u64_join 7 99)" "u32_hi (u64_join 7 99) < 9" "(3 :: u32) \<le> 9 - 4" "(3 :: u32) \<le> 4"
    "unat (u32_hi (u64_join 7 99)) + unat (3 :: u32) < 2 ^ 32" by simp_all
  from wrap4G_roundtrip [OF this] show ?thesis by blast
qed

section \<open>The 8-bit floating format\<close>

text \<open>How many low bits the format drops, and what is left.\<close>

definition fp8_shift :: "u32 \<Rightarrow> nat" where
  "fp8_shift x = nat_bits (unat x) - 4"

lemma or_1_bits: "nat_bits (unat (x OR 1)) = Suc (nat_bits (unat x div 2))" for x :: u32
proof -
  have "unat (x OR 1) = unat x OR 1" by (simp add: unsigned_or_eq)
  moreover have "(unat x OR 1) div 2 = unat x div 2" "unat x OR 1 \<noteq> 0"
    by (auto simp: or_Suc_0_eq odd_pos)
  ultimately show ?thesis by (simp only: nat_bits.simps [of "unat x OR 1"]) simp
qed

lemma and_7: "x AND 7 = x mod 8" for x :: nat
  using take_bit_eq_mask [of 3 x] by (simp add: take_bit_eq_mod mask_eq_exp_minus_1)

lemma or_shifted: "m < 2 ^ k \<Longrightarrow> push_bit k e OR m = e * 2 ^ k + m" for m :: nat
proof -
  assume "m < 2 ^ k"
  then have "take_bit k m = m" by (simp add: take_bit_nat_eq_self)
  then have "n < k" if "bit m n" for n using that bit_take_bit_iff [of k m n] by simp
  then have "push_bit k e AND m = 0" by (intro bit_eqI) (auto simp: bit_simps dest: leD)
  then show ?thesis by (simp add: disjunctive_add_eq_or [symmetric] push_bit_eq_mult)
qed

lemma unat_u32fpEncode:
  fixes x :: u32
  defines "lg \<equiv> nat_bits (unat x div 2)"
  shows "unat (u32fpEncode x 3) =
    (if 3 \<le> lg then (lg - 2) * 8 + unat x div 2 ^ (lg - 3) mod 8 else unat x)"
    and "lg \<le> 31" "lg < 3 \<Longrightarrow> unat x < 8" "3 \<le> lg \<Longrightarrow> unat x div 2 ^ (lg - 3) div 8 = 1"
proof -
  have lt: "unat x < 2 ^ 32" using unsigned_less [of x, where ?'a = nat] by simp
  show lg31: "lg \<le> 31" unfolding lg_def by (rule nat_bits_le) (use lt in simp)
  have up: "unat x div 2 < 2 ^ lg"
    using nat_bits_bounds [of "unat x div 2"] by (cases "unat x div 2 = 0") (auto simp: lg_def)
  show small: "unat x < 8" if "lg < 3"
  proof -
    have "(2 :: nat) ^ lg \<le> 2 ^ 2" using that by (intro power_increasing) simp_all
    with up show ?thesis by simp
  qed
  show "unat x div 2 ^ (lg - 3) div 8 = 1" if "3 \<le> lg"
  proof -
    have "0 < unat x div 2" using that by (cases "unat x div 2 = 0") (auto simp: lg_def nat_bits.simps [of 0])
    from nat_bits_bounds [OF this] have "2 ^ (lg - 1) \<le> unat x div 2" by (simp add: lg_def)
    then have lo: "2 * 2 ^ (lg - 1) \<le> unat x" by linarith
    have e: "2 * 2 ^ (lg - 1) = (2 :: nat) ^ lg" "2 ^ (lg - 3) * 8 = (2 :: nat) ^ lg"
      using that power_add [of "2 :: nat" "lg - 3" 3] by (simp_all flip: power_Suc)
    have "unat x div (2 ^ (lg - 3) * 8) = 1"
      unfolding e(2) using lo up e(1) by (intro div_nat_eqI) auto
    then show ?thesis by (simp add: div_mult2_eq)
  qed
  have l: "nat (31 - COMPILER_CLZ (x OR 1)) = lg"
    using lg31 by (simp add: COMPILER_CLZ_def or_1_bits lg_def)
  have mant: "unat (drop_bit k x AND (push_bit 3 1 - 1)) = unat x div 2 ^ k mod 8" for k
    unfolding unsigned_and_eq unat_drop_bit_eq by (simp add: drop_bit_eq_div and_7)
  show "unat (u32fpEncode x 3) = (if 3 \<le> lg then (lg - 2) * 8 + unat x div 2 ^ (lg - 3) mod 8 else unat x)"
  proof (cases "3 \<le> lg")
    case True
    have "unat (push_bit 3 (of_nat (lg - 2) :: u32)) = push_bit 3 (lg - 2)"
    proof -
      have "unat (of_nat (lg - 2) :: u32) = lg - 2" using lg31 by (simp add: unat_of_nat)
      then show ?thesis
        unfolding unsigned_push_bit_eq using lg31 by (simp add: push_bit_eq_mult take_bit_nat_eq_self)
    qed
    then show ?thesis
      using True or_shifted [of "unat x div 2 ^ (lg - 3) mod 8" 3 "lg - 2"] mant [of "lg - 3"]
      unfolding u32fpEncode_def l Let_def unsigned_or_eq by simp
  next
    case False
    then show ?thesis using mant [of 0] small unfolding u32fpEncode_def l Let_def by simp
  qed
qed

lemma unat_u32fpDecode:
  fixes c :: u32
  assumes "unat c < 256"
  shows "unat c < 8 \<Longrightarrow> u32fpDecode c 3 = c"
    and "8 \<le> unat c \<Longrightarrow> unat c < 240 \<Longrightarrow>
         unat (u32fpDecode c 3) = (8 + unat c mod 8) * 2 ^ (unat c div 8 - 1)"
proof -
  have e: "unat (drop_bit 3 c) = unat c div 8" unfolding unat_drop_bit_eq by (simp add: drop_bit_eq_div)
  have m: "unat (c AND (push_bit 3 1 - 1)) = unat c mod 8" by (simp add: unsigned_and_eq and_7)
  show "u32fpDecode c 3 = c" if "unat c < 8"
  proof -
    have "drop_bit 3 c = 0" using e that by (simp add: unat_eq_zero [symmetric])
    moreover have "c AND 7 = c" using m that by (simp add: word_unat_eq_iff)
    ultimately show ?thesis by (simp add: u32fpDecode_def)
  qed
  assume c: "8 \<le> unat c" "unat c < 240"
  then have nz: "drop_bit 3 c \<noteq> 0" using e by (auto simp: unat_eq_zero [symmetric])
  then have ex: "unat (drop_bit 3 c - 1) = unat c div 8 - 1" using e by (simp add: unat_minus_one)
  have mant: "unat ((c AND (push_bit 3 1 - 1)) OR 8) = 8 + unat c mod 8"
    using or_shifted [of "unat c mod 8" 3 1] by (simp only: unsigned_or_eq m or.commute) simp
  have "(8 + unat c mod 8) * 2 ^ (unat c div 8 - 1) < (16 :: nat) * 2 ^ 28"
  proof (rule mult_less_le_imp_less)
    show "(2 :: nat) ^ (unat c div 8 - 1) \<le> 2 ^ 28" using c by (intro power_increasing) auto
  qed simp_all
  then have "take_bit 32 (push_bit (unat c div 8 - 1) (8 + unat c mod 8)) = (8 + unat c mod 8) * 2 ^ (unat c div 8 - 1)"
    by (simp add: push_bit_eq_mult take_bit_nat_eq_self)
  then show "unat (u32fpDecode c 3) = (8 + unat c mod 8) * 2 ^ (unat c div 8 - 1)"
    using nz ex mant unfolding u32fpDecode_def Let_def unsigned_push_bit_eq by simp
qed

lemma nat_bits_unique: "2 ^ k \<le> n \<Longrightarrow> n < 2 ^ Suc k \<Longrightarrow> nat_bits n = Suc k"
proof -
  assume a: "2 ^ k \<le> n" "n < 2 ^ Suc k"
  then have b: "0 < nat_bits n" "2 ^ (nat_bits n - 1) \<le> n" "n < 2 ^ nat_bits n"
    using nat_bits_bounds [of n] by (metis less_le_trans zero_less_numeral zero_less_power)+
  have "(2 :: nat) ^ (nat_bits n - 1) < 2 ^ Suc k" "(2 :: nat) ^ k < 2 ^ nat_bits n" using a b by linarith+
  then have "nat_bits n - 1 < Suc k" "k < nat_bits n" by (simp_all add: power_strict_increasing_iff del: power_Suc)
  with b(1) show ?thesis by linarith
qed

lemma u32fp8_ucast: "ucast (u32fp8Encode x) = u32fpEncode x 3" and u32fpEncode_less: "unat (u32fpEncode x 3) < 240"
proof -
  define lg where "lg = nat_bits (unat x div 2)"
  have b: "lg \<le> 31" "lg < 3 \<Longrightarrow> unat x < 8" using unat_u32fpEncode(2,3) [of x] by (simp_all add: lg_def)
  show l: "unat (u32fpEncode x 3) < 240"
    using unat_u32fpEncode(1) [of x] b unfolding lg_def [symmetric] by (auto split: if_splits)
  show "ucast (u32fp8Encode x) = u32fpEncode x 3"
    using l by (simp add: u32fp8Encode_def word_unat_eq_iff unsigned_ucast_eq unsigned_take_bit_eq take_bit_nat_eq_self)
qed

lemma u32fp8_value:
  "unat (u32fp8Decode (u32fp8Encode x)) = unat x div 2 ^ fp8_shift x * 2 ^ fp8_shift x"
proof -
  define lg where "lg = nat_bits (unat x div 2)"
  note e = unat_u32fpEncode [of x, folded lg_def]
  have bits: "nat_bits (unat x) \<le> Suc lg" "3 \<le> lg \<Longrightarrow> nat_bits (unat x) = Suc lg"
    by (cases "unat x = 0"; auto simp: lg_def nat_bits.simps [of "unat x"] nat_bits.simps [of 0])+
  show ?thesis
  proof (cases "3 \<le> lg")
    case True
    define q where "q = unat x div 2 ^ (lg - 3)"
    have q: "q = 8 + q mod 8" using e(4) True div_mult_mod_eq [of q 8] by (simp add: q_def)
    have c: "unat (u32fpEncode x 3) = (lg - 2) * 8 + q mod 8" using e(1) True by (simp add: q_def)
    then have "unat (u32fpEncode x 3) div 8 = lg - 2" "unat (u32fpEncode x 3) mod 8 = q mod 8" by simp_all
    moreover have "8 \<le> unat (u32fpEncode x 3)" using c True by simp
    ultimately have "unat (u32fpDecode (u32fpEncode x 3) 3) = (8 + q mod 8) * 2 ^ (lg - 2 - 1)"
      using unat_u32fpDecode(2) [of "u32fpEncode x 3"] u32fpEncode_less [of x] by simp
    also have "\<dots> = q * 2 ^ (lg - 3)" using q by simp
    finally show ?thesis
      using True bits(2) by (simp add: u32fp8Decode_def u32fp8_ucast fp8_shift_def q_def)
  next
    case False
    then have "unat (u32fpEncode x 3) = unat x" "unat x < 8" "fp8_shift x = 0"
      using e bits by (auto simp: fp8_shift_def)
    then show ?thesis
      using unat_u32fpDecode(1) [of "u32fpEncode x 3"] by (simp add: u32fp8Decode_def u32fp8_ucast)
  qed
qed

lemma fp8_shift_bounds:
  assumes "0 < fp8_shift x"
  shows "8 * 2 ^ fp8_shift x \<le> unat x" "unat x < 16 * 2 ^ fp8_shift x"
proof -
  define k where "k = fp8_shift x"
  have b: "nat_bits (unat x) = k + 4" using assms by (simp add: k_def fp8_shift_def)
  then have "0 < unat x" by (cases "unat x = 0") (auto simp: nat_bits.simps [of 0])
  from nat_bits_bounds [OF this] b have "2 ^ (k + 3) \<le> unat x" "unat x < 2 ^ (k + 4)" by (simp_all add: add.commute)
  then show "8 * 2 ^ fp8_shift x \<le> unat x" "unat x < 16 * 2 ^ fp8_shift x"
    by (simp_all add: power_add k_def [symmetric])
qed

lemma fp8_encode_again:
  assumes "unat y = unat x div 2 ^ fp8_shift x * 2 ^ fp8_shift x"
  shows "u32fp8Encode y = u32fp8Encode x"
proof (cases "fp8_shift x = 0")
  case True
  with assms have "y = x" by (simp add: word_unat_eq_iff)
  then show ?thesis by simp
next
  case False
  define k where "k = fp8_shift x"
  define q where "q = unat x div 2 ^ k"
  have x: "8 * 2 ^ k \<le> unat x" "unat x < 16 * 2 ^ k" using fp8_shift_bounds [of x] False by (simp_all add: k_def)
  have q: "8 \<le> q" "q < 16" unfolding q_def using x by (auto simp: less_eq_div_iff_mult_less_eq div_less_iff_less_mult)
  have y: "unat y = q * 2 ^ k" using assms by (simp add: q_def k_def)
  have "8 * 2 ^ k \<le> unat y" "unat y < 16 * 2 ^ k" unfolding y using q by simp_all
  then have "nat_bits (unat z div 2) = Suc (k + 2)" if "z = x \<or> z = y" for z
    using that x by (intro nat_bits_unique) (auto simp: power_add)
  moreover have "unat y div 2 ^ k = unat x div 2 ^ k" using y by (simp add: q_def)
  ultimately have "unat (u32fpEncode y 3) = unat (u32fpEncode x 3)" by (simp add: unat_u32fpEncode(1))
  then have "u32fpEncode y 3 = u32fpEncode x 3" by (simp add: word_unat_eq_iff)
  then show ?thesis by (simp add: u32fp8Encode_def)
qed

text \<open>The 8-bit format is a truncation: encoding a 32-bit count and decoding it clears all but its four
  leading significant bits. So the decoded value never exceeds the count, is off by at most an eighth of
  it, is exact below 16, and a value that was decoded once encodes to the same byte again.\<close>

theorem u32fp8_truncates:
  fixes x :: u32
  defines "y \<equiv> u32fp8Decode (u32fp8Encode x)"
  shows "unat y = unat x div 2 ^ fp8_shift x * 2 ^ fp8_shift x
    \<and> unat y \<le> unat x \<and> 8 * (unat x - unat y) \<le> unat x \<and> (unat x < 16 \<longrightarrow> y = x) \<and> u32fp8Encode y = u32fp8Encode x"
proof -
  let ?p = "2 ^ fp8_shift x :: nat"
  have v: "unat y = unat x div ?p * ?p" unfolding y_def by (rule u32fp8_value)
  have le: "unat y \<le> unat x" unfolding v by (rule div_times_less_eq_dividend)
  have exact: "y = x" if "fp8_shift x = 0" using v that by (simp add: word_unat_eq_iff)
  have "8 * (unat x - unat y) \<le> unat x"
  proof (cases "fp8_shift x = 0")
    case False
    then have "8 * ?p \<le> unat x" using fp8_shift_bounds(1) [of x] by simp
    moreover have "unat x - unat y \<le> ?p" unfolding v by (simp add: minus_div_mult_eq_mod)
    ultimately show ?thesis by linarith
  qed (simp add: exact)
  moreover have "y = x" if "unat x < 16"
    using nat_bits_le [of "unat x" 4] that exact by (simp add: fp8_shift_def)
  ultimately show ?thesis using v le fp8_encode_again [OF v] by blast
qed

theorem u32fp8_truncates_witness:
  "unat (5 :: u32) < 16 \<and> u32fp8Decode (u32fp8Encode 5) = 5"
  using u32fp8_truncates [of 5] by simp

section \<open>The hash\<close>

text \<open>Both mixing steps are injective: a shifted xor, and a multiplication by a constant with an inverse.\<close>

lemma drop_bit_iter: "d = drop_bit k d \<Longrightarrow> d = drop_bit (n * k) d" for d :: "'a :: len word"
proof (induction n)
  case (Suc n)
  then have "drop_bit (n * k) (drop_bit k d) = d" by metis
  then show ?case by (simp add: add.commute)
qed simp

lemma xor_zero: "a XOR b = 0 \<Longrightarrow> a = b" for a b :: "'a :: len word"
  by (metis xor.assoc xor.left_neutral xor.right_neutral xor_self_eq)

lemma xorshift_inj:
  fixes x y :: "'a :: len word"
  assumes "0 < k" "x XOR drop_bit k x = y XOR drop_bit k y"
  shows "x = y"
proof -
  define d where "d = x XOR y"
  have "d XOR drop_bit k d = (x XOR drop_bit k x) XOR (y XOR drop_bit k y)"
    by (rule bit_eqI) (auto simp: d_def bit_simps)
  also have "\<dots> = 0" using assms(2) by simp
  finally have "d = drop_bit k d" by (rule xor_zero)
  then have d: "d = drop_bit (LENGTH('a) * k) d" by (rule drop_bit_iter)
  have "drop_bit (LENGTH('a) * k) d = 0"
    using assms(1) by (intro bit_eqI) (auto simp: bit_simps dest!: bit_imp_le_length)
  with d have "d = 0" by simp
  then show ?thesis unfolding d_def by (rule xor_zero)
qed

lemma mult_unit_inj: "c * i = 1 \<Longrightarrow> x * c = y * c \<Longrightarrow> x = y" for x y c i :: "'a :: len word"
  by (metis mult.assoc mult.right_neutral)

lemma unat_load_le:
  "length bs \<le> 8 \<Longrightarrow> unat (load_le bs) = foldr (\<lambda>b n. unat b + 256 * n) bs 0 \<and> unat (load_le bs) < 256 ^ length bs"
proof (induction bs)
  case (Cons b bs)
  then have IH: "unat (load_le bs) = foldr (\<lambda>b n. unat b + 256 * n) bs 0" "unat (load_le bs) < 256 ^ length bs"
    by simp_all
  have b: "unat b < 256" using unsigned_less [of b, where ?'a = nat] by simp
  have lt: "unat b + 256 * unat (load_le bs) < 256 ^ Suc (length bs)" using IH(2) b by simp
  also have "\<dots> \<le> (256 :: nat) ^ 8" using Cons.prems by (intro power_increasing) simp_all
  finally have fit: "unat b + 256 * unat (load_le bs) < 2 ^ 64" by simp
  have "unat (ucast b :: u64) = unat b" using b by (simp add: unsigned_ucast_eq take_bit_nat_eq_self)
  then have "unat (load_le (b # bs)) = unat b + 256 * unat (load_le bs)"
    using fit by (simp add: unat_word_ariths)
  with IH lt show ?case by simp
qed simp

lemma load_le_inj: "length as = length bs \<Longrightarrow> length as \<le> 8 \<Longrightarrow> load_le as = load_le bs \<Longrightarrow> as = bs"
proof (induction as bs rule: list_induct2)
  case (Cons a as b bs)
  have e: "unat a + 256 * unat (load_le as) = unat b + 256 * unat (load_le bs)"
    using Cons unat_load_le [of "a # as"] unat_load_le [of "b # bs"] unat_load_le [of as] unat_load_le [of bs] by simp
  have "unat a < 256" "unat b < 256"
    using unsigned_less [of a, where ?'a = nat] unsigned_less [of b, where ?'a = nat] by simp_all
  then have "unat a = unat b" using arg_cong [OF e, of "\<lambda>n. n mod 256"] by simp
  with e have "unat a = unat b" "unat (load_le as) = unat (load_le bs)" by simp_all
  then show ?case using Cons by (simp add: word_unat_eq_iff)
qed simp

lemma eatHash_short: "bs \<noteq> [] \<Longrightarrow> length bs \<le> 8 \<Longrightarrow> eatHash acc bs =
   (let m = hash_mix (fst acc XOR of_nat (length bs), snd acc) in (fst m + load_le bs, snd m))"
  by (simp add: eatHash_def eatHash_loop.simps [of _ bs] eatHash_loop.simps [of _ "[]"] Let_def)

lemma digestHash_inj: "digestHash (a, c) = digestHash (b, c) \<Longrightarrow> a = b"
proof -
  assume h: "digestHash (a, c) = digestHash (b, c)"
  have i1: "(0x995a187a14e7b445 :: u64) * 18129548901867667085 = 1" by simp
  have i2: "(0xbac3bd562846de6b :: u64) * 15357677204821106243 = 1" by simp
  let ?m = "\<lambda>h :: u64. (h XOR drop_bit 31 h) * 0xbac3bd562846de6b + c"
  have "(?m a XOR drop_bit 32 (?m a)) * 0x995a187a14e7b445 = (?m b XOR drop_bit 32 (?m b)) * 0x995a187a14e7b445"
    using h unfolding digestHash_def Let_def fst_conv snd_conv .
  then have "?m a XOR drop_bit 32 (?m a) = ?m b XOR drop_bit 32 (?m b)" by (rule mult_unit_inj [OF i1])
  then have "?m a = ?m b" by (rule xorshift_inj [rotated]) simp
  then have "(a XOR drop_bit 31 a) * 0xbac3bd562846de6b = (b XOR drop_bit 31 b) * 0xbac3bd562846de6b"
    by (rule add_right_imp_eq)
  then have "a XOR drop_bit 31 a = b XOR drop_bit 31 b" by (rule mult_unit_inj [OF i2])
  then show "a = b" by (rule xorshift_inj [rotated]) simp
qed

text \<open>The hash has no collisions on short keys: two byte strings of the same length, at most eight bytes
  (a pointer, an integer, a pair of ints), have the same \<open>getHash\<close> only if they are equal.\<close>

theorem getHash_injective_short:
  assumes "length as = length bs" "length as \<le> 8" "getHash as = getHash bs"
  shows "as = bs"
proof (cases "as = []")
  case True
  with assms(1) show ?thesis by simp
next
  case False
  with assms(1) have ne: "bs \<noteq> []" by auto
  have "digestHash (eatHash (1, 1) as) = digestHash (eatHash (1, 1) bs)" using assms(3) by (simp add: getHash_def)
  then have "load_le as = load_le bs"
    using eatHash_short [OF False assms(2)] eatHash_short [OF ne] assms(1,2)
    by (auto simp: Let_def dest: digestHash_inj)
  with assms(1,2) show ?thesis by (intro load_le_inj)
qed

theorem getHash_injective_short_witness: "getHash [1, 2, 3] \<noteq> getHash [1, 2, 4]"
proof
  assume "getHash [1, 2, 3] = getHash [1, 2, 4]"
  then have "[1, 2, 3 :: u8] = [1, 2, 4]" by (intro getHash_injective_short) simp_all
  then show False by simp
qed

end
