(* ===== verification/Device_Utility.thy ===== *)
theory Device_Utility
  imports Bitops_Facts
begin

text \<open>
  The host part of \<open>net/include/nccl_device/utility.h\<close>: the abort poll, the second copies of the
  rounding, reciprocal and division helpers (which differ in detail from those of \<open>bitops.h\<close>), and the
  comparison of rolling counters. Its definitions carry the prefix \<open>util_\<close>. Theorems: its division
  satisfies the same contract and agrees with \<open>bitops.h\<close>, and rolling comparison is the comparison of the
  unbounded counters inside a window of half the range.
\<close>

section \<open>Definitions\<close>

text \<open>\<open>testAbort(abortFlag, steps)\<close>: the answer and the new \<open>steps\<close>; the flag is \<open>None\<close> for a null pointer.\<close>

definition testAbort :: "u32 option \<Rightarrow> u32 \<Rightarrow> bool \<times> u32" where
  "testAbort abortFlag steps =
    (let steps' = steps + 1 in
     if steps' < 10000 then (False, steps')
     else ((case abortFlag of None \<Rightarrow> False | Some v \<Rightarrow> v \<noteq> 0), 0))"

definition util_divUp :: "'a :: len word \<Rightarrow> 'a word \<Rightarrow> 'a word" where
  "util_divUp x y = (x + y - 1) div y"

definition util_roundUp :: "'a :: len word \<Rightarrow> 'a word \<Rightarrow> 'a word" where
  "util_roundUp x y = (x + y - 1) - (x + y - 1) mod y"

definition util_roundDown :: "'a :: len word \<Rightarrow> 'a word \<Rightarrow> 'a word" where
  "util_roundDown x y = x - x mod y"

definition util_alignUp :: "'a :: len word \<Rightarrow> 'a word \<Rightarrow> 'a word" where
  "util_alignUp x a = (x + a - 1) AND - a"

definition util_alignDown :: "'a :: len word \<Rightarrow> 'a word \<Rightarrow> 'a word" where
  "util_alignDown x a = x AND - a"

definition util_add4G :: "u64 \<Rightarrow> u32 \<Rightarrow> u64" where
  "util_add4G base delta4G = u64_join (u32_hi base + delta4G) (u32_lo base)"

definition util_isPow2 :: "'a :: len word \<Rightarrow> bool" where
  "util_isPow2 x \<longleftrightarrow> x AND (x - 1) = 0"

definition rollingLessEq :: "'a :: len word \<Rightarrow> 'a word \<Rightarrow> nat \<Rightarrow> bool" where
  "rollingLessEq a b nBits = (let m = drop_bit (LENGTH('a) - nBits) (- 1 :: 'a word)
                              in (b - a) AND m \<le> drop_bit 1 m)"

definition rollingLessThan :: "'a :: len word \<Rightarrow> 'a word \<Rightarrow> nat \<Rightarrow> bool" where
  "rollingLessThan a b nBits \<longleftrightarrow> \<not> rollingLessEq b a nBits"

definition util_idivRcp32 :: "u32 \<Rightarrow> u32" where
  "util_idivRcp32 x = (- 1) div x + (if util_isPow2 x then 1 else 0)"

definition util_idivRcp64 :: "u64 \<Rightarrow> u64" where
  "util_idivRcp64 x = (- 1) div x + (if util_isPow2 x then 1 else 0)"

definition util_mul32hi :: "u32 \<Rightarrow> u32 \<Rightarrow> u32" where
  "util_mul32hi a b = ucast (drop_bit 32 ((ucast a :: u64) * ucast b))"

definition util_mul64hi :: "u64 \<Rightarrow> u64 \<Rightarrow> u64" where
  "util_mul64hi a b = ucast (drop_bit 64 ((ucast a :: 128 word) * ucast b))"

definition util_imulRcp32 :: "u32 \<Rightarrow> u32 \<Rightarrow> u32 \<Rightarrow> u32 \<Rightarrow> u32" where
  "util_imulRcp32 x xrcp y yrcp =
    (if xrcp = 0 then yrcp
     else if yrcp = 0 then xrcp
     else (let rcp = util_mul32hi xrcp yrcp; rem = 0 - x * y * rcp
           in if x * y \<le> rem then rcp + 1 else rcp))"

definition util_imulRcp64 :: "u64 \<Rightarrow> u64 \<Rightarrow> u64 \<Rightarrow> u64 \<Rightarrow> u64" where
  "util_imulRcp64 x xrcp y yrcp =
    (if xrcp = 0 then yrcp
     else if yrcp = 0 then xrcp
     else (let rcp = util_mul64hi xrcp yrcp; rem = 0 - x * y * rcp
           in if x * y \<le> rem then rcp + 1 else rcp))"

definition util_idivmodFast32 :: "u32 \<Rightarrow> u32 \<Rightarrow> u32 \<Rightarrow> u32 \<times> u32" where
  "util_idivmodFast32 x y yrcp =
    (let q = (if yrcp = 0 then x else util_mul32hi x yrcp); r = x - y * q
     in if r \<ge> y then (q + 1, r - y) else (q, r))"

definition util_idivmodFast64 :: "u64 \<Rightarrow> u64 \<Rightarrow> u64 \<Rightarrow> u64 \<times> u64" where
  "util_idivmodFast64 x y yrcp =
    (let q = (if yrcp = 0 then x else util_mul64hi x yrcp); r = x - y * q
     in if r \<ge> y then (q + 1, r - y) else (q, r))"

definition util_idivFast32 :: "u32 \<Rightarrow> u32 \<Rightarrow> u32 \<Rightarrow> u32" where
  "util_idivFast32 x y yrcp = fst (util_idivmodFast32 x y yrcp)"

definition util_idivFast64 :: "u64 \<Rightarrow> u64 \<Rightarrow> u64 \<Rightarrow> u32" where
  "util_idivFast64 x y yrcp = ucast (fst (util_idivmodFast64 x y yrcp))"

definition util_imodFast32 :: "u32 \<Rightarrow> u32 \<Rightarrow> u32 \<Rightarrow> u32" where
  "util_imodFast32 x y yrcp = snd (util_idivmodFast32 x y yrcp)"

definition util_imodFast64 :: "u64 \<Rightarrow> u64 \<Rightarrow> u64 \<Rightarrow> u64" where
  "util_imodFast64 x y yrcp = snd (util_idivmodFast64 x y yrcp)"

section \<open>Division\<close>

lemma util_same:
  "util_mul32hi = mul32hi" "util_mul64hi = mul64hi" "util_isPow2 = isPow2"
  by (simp_all add: fun_eq_iff util_mul32hi_def mul32hi_def util_mul64hi_def mul64hi_def util_isPow2_def isPow2_def)

lemma util_idivRcp64 [simp]: "util_idivRcp64 = idivRcp64"
  by (simp add: fun_eq_iff util_idivRcp64_def idivRcp64_def util_same)

lemma util_idivRcp32: "y \<noteq> 0 \<Longrightarrow> util_idivRcp32 y = idivRcp32 y"
proof -
  assume y: "y \<noteq> 0"
  have "unat (util_idivRcp32 y) = unat (idivRcp32 y)"
    using rcp_from_pred [OF y] unat_idivRcp32 [OF y] by (simp add: util_idivRcp32_def util_same)
  then show ?thesis by (simp add: word_unat_eq_iff)
qed

lemma util_divmod32: "y \<noteq> 0 \<Longrightarrow> util_idivmodFast32 x y (idivRcp32 y) = idivmodFast32 x y (idivRcp32 y)"
  using rcp_zero [of y "idivRcp32 y"] unat_idivRcp32 [of y]
  by (cases "idivRcp32 y = 0") (auto simp: util_idivmodFast32_def idivmodFast32_def util_same Let_def)

lemma util_divmod64: "y \<noteq> 0 \<Longrightarrow> util_idivmodFast64 x y (idivRcp64 y) = idivmodFast64 x y (idivRcp64 y)"
  using rcp_zero [of y "idivRcp64 y"] unat_idivRcp64 [of y]
  by (cases "idivRcp64 y = 0") (auto simp: util_idivmodFast64_def idivmodFast64_def util_same Let_def)

interpretation util_div32: fast_division util_idivmodFast32 util_idivRcp32
  by unfold_locales (simp add: util_idivRcp32 util_divmod32 div32.exact)

interpretation util_div64: fast_division util_idivmodFast64 util_idivRcp64
  by unfold_locales (simp add: util_divmod64 div64.exact)

text \<open>The two copies of the division helpers agree: the reciprocals of \<open>utility.h\<close> are those of \<open>bitops.h\<close>
  although the 32-bit one is computed differently, and its division, which runs the correction step
  for the divisor 1 too, is exact.\<close>

theorem util_division_exact:
  "(y \<noteq> 0 \<longrightarrow> util_idivRcp32 y = idivRcp32 y \<and> util_idivFast32 x y (util_idivRcp32 y) = x div y
      \<and> util_imodFast32 x y (util_idivRcp32 y) = x mod y)
   \<and> (y' \<noteq> 0 \<longrightarrow> util_idivRcp64 y' = idivRcp64 y' \<and> util_idivFast64 x' y' (util_idivRcp64 y') = ucast (x' div y')
      \<and> util_imodFast64 x' y' (util_idivRcp64 y') = x' mod y')"
  using util_div32.exact util_div64.exact
  by (simp add: util_idivRcp32 util_idivFast32_def util_imodFast32_def util_idivFast64_def util_imodFast64_def)

theorem util_division_exact_witness: "util_idivFast32 1000 7 (util_idivRcp32 7) = 1000 div 7"
proof -
  have "(7 :: u32) \<noteq> 0" by simp
  with util_division_exact [of 7 1000] show ?thesis by blast
qed

section \<open>Rolling counters\<close>

lemma rolling_mask: "1 \<le> n \<Longrightarrow> n \<le> LENGTH('a) \<Longrightarrow> drop_bit (LENGTH('a) - n) (- 1 :: 'a :: len word) = mask n"
  by (rule bit_eqI) (auto simp: bit_simps)

lemma rollingLessEq_mod:
  fixes a b :: "'a :: len word"
  assumes "1 \<le> n" "n \<le> LENGTH('a)"
  shows "rollingLessEq a b n \<longleftrightarrow> unat (b - a) mod 2 ^ n < 2 ^ (n - 1)"
proof -
  have "unat ((b - a) AND mask n) = unat (b - a) mod 2 ^ n"
    unfolding take_bit_eq_mask [symmetric] unsigned_take_bit_eq by (simp add: take_bit_eq_mod)
  moreover have "unat (drop_bit 1 (mask n :: 'a word)) = 2 ^ (n - 1) - 1"
  proof -
    have "drop_bit 1 (mask n :: 'a word) = mask (n - 1)" by (rule bit_eqI) (use assms in \<open>auto simp: bit_simps\<close>)
    then show ?thesis using assms by (simp add: unat_pow2 mask_eq_exp_minus_1 unat_minus_one)
  qed
  ultimately have "rollingLessEq a b n \<longleftrightarrow> unat (b - a) mod 2 ^ n \<le> 2 ^ (n - 1) - 1"
    unfolding rollingLessEq_def Let_def rolling_mask [OF assms] word_le_nat_alt by (simp only:)
  also have "\<dots> \<longleftrightarrow> unat (b - a) mod 2 ^ n < 2 ^ (n - 1)"
    using zero_less_power [of "2 :: nat" "n - 1"] by linarith
  finally show ?thesis .
qed

lemma counter_diff:
  fixes i j :: nat
  assumes "n \<le> LENGTH('a :: len)"
  shows "int (unat (of_nat j - of_nat i :: 'a word) mod 2 ^ n) = (int j - int i) mod 2 ^ n"
proof -
  have "int (unat (of_nat j - of_nat i :: 'a word)) = uint (word_of_int (int j - int i) :: 'a word)"
    by simp
  also have "\<dots> = (int j - int i) mod 2 ^ LENGTH('a)" by (simp only: uint_word_of_int)
  finally have "int (unat (of_nat j - of_nat i :: 'a word)) = (int j - int i) mod 2 ^ LENGTH('a)" .
  moreover have "(2 :: int) ^ n dvd 2 ^ LENGTH('a)" using assms by (rule le_imp_power_dvd)
  ultimately show ?thesis by (simp add: zmod_int mod_mod_cancel)
qed

text \<open>Comparing rolling counters: counters that wrap at \<open>2^n\<close> are compared by \<open>rollingLessEq\<close> and \<open>rollingLessThan\<close>
  exactly as the unbounded counts they stand for, as long as the counts are less than half the range apart.\<close>

theorem rolling_compare:
  fixes i j :: nat
  assumes "1 \<le> n" "n \<le> LENGTH('a :: len)" "i < j + 2 ^ (n - 1)" "j < i + 2 ^ (n - 1)"
  shows "(rollingLessEq (of_nat i :: 'a word) (of_nat j) n \<longleftrightarrow> i \<le> j)
    \<and> (rollingLessThan (of_nat i :: 'a word) (of_nat j) n \<longleftrightarrow> i < j)"
proof -
  have pw: "(2 :: int) ^ n = 2 * 2 ^ (n - 1)" using assms(1) by (metis Suc_diff_1 Suc_le_eq One_nat_def power_Suc)
  have le: "rollingLessEq (of_nat i :: 'a word) (of_nat j) n \<longleftrightarrow> i \<le> j"
    if "i < j + 2 ^ (n - 1)" "j < i + 2 ^ (n - 1)" for i j :: nat
  proof -
    have b: "int i < int j + 2 ^ (n - 1)" "int j < int i + 2 ^ (n - 1)"
      using that by (metis of_nat_add of_nat_less_iff of_nat_numeral of_nat_power)+
    have "rollingLessEq (of_nat i :: 'a word) (of_nat j) n
        \<longleftrightarrow> int (unat (of_nat j - of_nat i :: 'a word) mod 2 ^ n) < int (2 ^ (n - 1))"
      unfolding rollingLessEq_mod [OF assms(1,2)] of_nat_less_iff ..
    also have "\<dots> \<longleftrightarrow> (int j - int i) mod 2 ^ n < 2 ^ (n - 1)" unfolding counter_diff [OF assms(2)] by simp
    also have "\<dots> \<longleftrightarrow> i \<le> j"
    proof (cases "i \<le> j")
      case True
      then have "(int j - int i) mod 2 ^ n = int j - int i" using b pw by (intro mod_pos_pos_trivial) auto
      with True b show ?thesis by simp
    next
      case False
      have "(int j - int i) mod 2 ^ n = (int j - int i + 2 ^ n) mod 2 ^ n" by simp
      also have "\<dots> = int j - int i + 2 ^ n" using False b pw by (intro mod_pos_pos_trivial) auto
      finally show ?thesis using False b pw by simp
    qed
    finally show ?thesis .
  qed
  show ?thesis using le [OF assms(3,4)] le [OF assms(4,3)] by (auto simp: rollingLessThan_def)
qed

theorem rolling_compare_witness: "rollingLessEq (of_nat 250 :: u8) (of_nat 260) 8"
proof -
  have "rollingLessEq (of_nat 250 :: u8) (of_nat 260) 8 \<longleftrightarrow> (250 :: nat) \<le> 260"
    by (rule rolling_compare [THEN conjunct1]) simp_all
  then show ?thesis by simp
qed

end
