(* ===== verification/Linked_List.thy ===== *)
theory Linked_List
  imports C_Runtime
begin

text \<open>
  Singly linked lists in a heap, shared by the intrusive queue, the memory pool and the address map. An
  object is a number, a heap maps an object to its next pointer, and \<open>None\<close> is the null pointer.
  \<open>chain h p xs\<close> says that following next pointers from \<open>p\<close> visits exactly \<open>xs\<close> and ends in null.
\<close>

type_synonym obj = nat
type_synonym nexts = "obj \<Rightarrow> obj option"

named_theorems chain_simps \<open>rewriting chains under heap updates\<close>

fun chain :: "nexts \<Rightarrow> obj option \<Rightarrow> obj list \<Rightarrow> bool" where
  "chain h p [] \<longleftrightarrow> p = None"
| "chain h p (x # xs) \<longleftrightarrow> p = Some x \<and> chain h (h x) xs"

lemma chain_None [simp]: "chain h None xs \<longleftrightarrow> xs = []"
  by (cases xs) auto

lemma chain_Some: "chain h (Some x) xs \<longleftrightarrow> (\<exists>ys. xs = x # ys \<and> chain h (h x) ys)"
  by (cases xs) auto

lemma chain_unique: "chain h p xs \<Longrightarrow> chain h p ys \<Longrightarrow> xs = ys"
  by (induction xs arbitrary: p ys) (auto simp: chain_Some)

lemma chain_update [chain_simps]: "x \<notin> set xs \<Longrightarrow> chain (h(x := v)) p xs \<longleftrightarrow> chain h p xs"
  by (induction xs arbitrary: p) auto

text \<open>A chain has no cycle: its objects are pairwise distinct.\<close>

lemma chain_suffix: "chain h p (xs @ x # ys) \<Longrightarrow> chain h (h x) ys"
  by (induction xs arbitrary: p) auto

lemma chain_distinct: "chain h p xs \<Longrightarrow> distinct xs"
proof (induction xs arbitrary: p)
  case (Cons x xs)
  have "x \<notin> set xs"
  proof
    assume "x \<in> set xs"
    then obtain ys zs where "xs = ys @ x # zs" by (auto simp: in_set_conv_decomp)
    with Cons.prems have "chain h (h x) zs" "chain h (h x) (ys @ x # zs)" using chain_suffix by auto
    then have "zs = ys @ x # zs" by (rule chain_unique)
    then show False by (metis length_append length_Cons less_irrefl_nat add.commute less_add_Suc1 less_Suc_eq add_Suc_right not_add_less2)
  qed
  with Cons show ?case by auto
qed simp

text \<open>Linking one chain behind another by overwriting the last next pointer.\<close>

lemma chain_link:
  assumes "chain h p xs" "xs \<noteq> []" "chain h q ys" "set xs \<inter> set ys = {}"
  shows "chain (h(last xs := q)) p (xs @ ys)"
  using assms
proof (induction xs arbitrary: p)
  case (Cons x xs)
  show ?case
  proof (cases "xs = []")
    case True
    show ?thesis
      using Cons.prems chain_update [of x ys h q q] unfolding True by (simp add: fun_upd_def)
  next
    case False
    have "x \<noteq> last xs" using chain_distinct [OF Cons.prems(1)] False by auto
    with Cons False show ?thesis by simp
  qed
qed simp

text \<open>Unlinking one object from the middle of a chain.\<close>

lemma chain_unlink:
  assumes "chain h p (xs @ x # ys)" "xs \<noteq> []"
  shows "chain (h(last xs := h x)) p (xs @ ys)"
  using assms
proof (induction xs arbitrary: p)
  case (Cons a xs)
  have d: "distinct (a # xs @ x # ys)" using chain_distinct [OF Cons.prems(1)] by simp
  show ?case
  proof (cases "xs = []")
    case True
    show ?thesis
      using Cons.prems d chain_update [of a ys h "h x" "h x"] unfolding True by (simp add: fun_upd_def)
  next
    case False
    then have "a \<noteq> last xs" using d by auto
    with Cons False show ?thesis by simp
  qed
qed simp

text \<open>Reading a chain with a bound on its length, to make its content computable.\<close>

fun read_chain :: "nat \<Rightarrow> nexts \<Rightarrow> obj option \<Rightarrow> obj list" where
  "read_chain 0 h p = []"
| "read_chain (Suc n) h None = []"
| "read_chain (Suc n) h (Some x) = x # read_chain n h (h x)"

lemma read_chain_eq: "chain h p xs \<Longrightarrow> length xs \<le> n \<Longrightarrow> read_chain n h p = xs"
proof (induction n arbitrary: p xs)
  case (Suc n)
  then show ?case by (cases p) (auto simp: chain_Some)
qed simp

end
