(* ===== verification/Intru_Queue.thy ===== *)
theory Intru_Queue
  imports Linked_List
begin

text \<open>
  The intrusive queue and the memory pool of \<open>net/include/utils.h\<close>. The template argument \<open>next\<close> is the
  heap the operations read and write; a null dereference is the result \<open>None\<close>. The queue is shown to be a
  list: the locale \<open>op_refinement\<close> states what it means that a container answers every sequence of operations (at both ends,
  and deletion from the middle) as an abstract value does, and the queue is an instance. Transfer is given by what it does to two queues.
\<close>

section \<open>ncclIntruQueue\<close>

record IntruQueue =
  q_head :: "obj option"
  q_tail :: "obj option"
  nElems :: int

definition ncclIntruQueueConstruct :: IntruQueue where
  "ncclIntruQueueConstruct = \<lparr> q_head = None, q_tail = None, nElems = 0 \<rparr>"

definition ncclIntruQueueEmpty :: "IntruQueue \<Rightarrow> bool" where
  "ncclIntruQueueEmpty me \<longleftrightarrow> q_head me = None"

definition ncclIntruQueueHead :: "IntruQueue \<Rightarrow> obj option" where
  "ncclIntruQueueHead me = q_head me"

definition ncclIntruQueueTail :: "IntruQueue \<Rightarrow> obj option" where
  "ncclIntruQueueTail me = q_tail me"

definition ncclIntruQueueEnqueue :: "nexts \<Rightarrow> IntruQueue \<Rightarrow> obj \<Rightarrow> (nexts \<times> IntruQueue) option" where
  "ncclIntruQueueEnqueue h me x =
    (let h1 = h(x := None) in
     case q_head me of
       None \<Rightarrow> Some (h1, me\<lparr> q_head := Some x, q_tail := Some x, nElems := nElems me + 1 \<rparr>)
     | Some _ \<Rightarrow> (case q_tail me of
           None \<Rightarrow> None
         | Some t \<Rightarrow> Some (h1(t := Some x), me\<lparr> q_tail := Some x, nElems := nElems me + 1 \<rparr>)))"

definition ncclIntruQueueEnqueueFront :: "nexts \<Rightarrow> IntruQueue \<Rightarrow> obj \<Rightarrow> nexts \<times> IntruQueue" where
  "ncclIntruQueueEnqueueFront h me x =
    (let me1 = (if q_head me = None then me\<lparr> q_tail := Some x \<rparr> else me)
     in (h(x := q_head me), me1\<lparr> q_head := Some x, nElems := nElems me + 1 \<rparr>))"

definition ncclIntruQueueDequeue :: "nexts \<Rightarrow> IntruQueue \<Rightarrow> (obj \<times> IntruQueue) option" where
  "ncclIntruQueueDequeue h me = (case q_head me of
      None \<Rightarrow> None
    | Some ans \<Rightarrow>
        (let me1 = me\<lparr> q_head := h ans \<rparr>;
             me2 = (if q_head me1 = None then me1\<lparr> q_tail := None \<rparr> else me1)
         in Some (ans, me2\<lparr> nElems := nElems me - 1 \<rparr>)))"

definition ncclIntruQueueTryDequeue :: "nexts \<Rightarrow> IntruQueue \<Rightarrow> obj option \<times> IntruQueue" where
  "ncclIntruQueueTryDequeue h me = (case q_head me of
      None \<Rightarrow> (None, me)
    | Some ans \<Rightarrow>
        (let me1 = me\<lparr> q_head := h ans \<rparr>;
             me2 = (if q_head me1 = None then me1\<lparr> q_tail := None \<rparr> else me1)
         in (Some ans, me2\<lparr> nElems := nElems me - 1 \<rparr>)))"

text \<open>The search loop of \<open>ncclIntruQueueDelete\<close>: the last \<open>prev\<close> and \<open>cur\<close>. It does not return on a
  cyclic list, which is the value \<open>None\<close>.\<close>

partial_function (option) delete_loop ::
  "nexts \<Rightarrow> (obj \<Rightarrow> bool) \<Rightarrow> obj option \<Rightarrow> obj option \<Rightarrow> (obj option \<times> obj option) option" where
  "delete_loop h cmp prv cur =
    (if cur = None then Some (prv, None)
     else if cmp (the cur) then Some (prv, cur)
     else delete_loop h cmp cur (h (the cur)))"

definition ncclIntruQueueDelete ::
  "nexts \<Rightarrow> IntruQueue \<Rightarrow> (obj \<Rightarrow> bool) \<Rightarrow> (obj option \<times> nexts \<times> IntruQueue) option" where
  "ncclIntruQueueDelete h me cmp = (case delete_loop h cmp None (q_head me) of
      None \<Rightarrow> None
    | Some (prv, None) \<Rightarrow> Some (None, h, me)
    | Some (prv, Some cur) \<Rightarrow>
        (let (h1, me1) = (case prv of
               None \<Rightarrow> (h, me\<lparr> q_head := h cur \<rparr>)
             | Some p \<Rightarrow> (h(p := h cur), me));
             me2 = (if Some cur = q_tail me1 then me1\<lparr> q_tail := prv \<rparr> else me1)
         in Some (Some cur, h1, me2\<lparr> nElems := nElems me - 1 \<rparr>)))"

text \<open>\<open>ncclIntruQueueTransfer\<close> writes \<open>dst->tail->next\<close>, the member called \<open>next\<close>, and not \<open>dst->tail->*next\<close>,
  the member given by the template argument: its heap is the heap of the member called \<open>next\<close>.\<close>

definition ncclIntruQueueTransfer ::
  "nexts \<Rightarrow> IntruQueue \<Rightarrow> IntruQueue \<Rightarrow> nexts \<times> IntruQueue \<times> IntruQueue" where
  "ncclIntruQueueTransfer member_next dst src =
    (let (h1, dst1) = (case q_tail dst of
           Some t \<Rightarrow> (member_next(t := q_head src), dst)
         | None \<Rightarrow> (member_next, dst\<lparr> q_head := q_head src \<rparr>));
         dst2 = (if q_tail src \<noteq> None then dst1\<lparr> q_tail := q_tail src \<rparr> else dst1);
         dst3 = dst2\<lparr> nElems := nElems dst + nElems src \<rparr>
     in (h1, dst3, src\<lparr> q_head := None, q_tail := None, nElems := 0 \<rparr>))"

section \<open>ncclMemoryPool\<close>

record MemoryPool =
  pool_head :: "obj option"
  pool_tail :: "obj option"

definition ncclMemoryPoolConstruct :: "MemoryPool \<Rightarrow> MemoryPool" where
  "ncclMemoryPoolConstruct me = me\<lparr> pool_head := None \<rparr>"

text \<open>\<open>fresh\<close> is the cell that the backing stack returns when the pool is empty. Clearing the object clears
  the next pointer stored in it.\<close>

definition ncclMemoryPoolAlloc :: "nexts \<Rightarrow> MemoryPool \<Rightarrow> obj \<Rightarrow> obj \<times> nexts \<times> MemoryPool" where
  "ncclMemoryPoolAlloc h me fresh = (case pool_head me of
      Some cell \<Rightarrow> (cell, h(cell := None), me\<lparr> pool_head := h cell \<rparr>)
    | None \<Rightarrow> (fresh, h(fresh := None), me))"

definition ncclMemoryPoolFree :: "nexts \<Rightarrow> MemoryPool \<Rightarrow> obj \<Rightarrow> nexts \<times> MemoryPool" where
  "ncclMemoryPoolFree h me cell =
    (let me1 = (if pool_head me = None then me\<lparr> pool_tail := Some cell \<rparr> else me)
     in (h(cell := pool_head me), me1\<lparr> pool_head := Some cell \<rparr>))"

definition ncclMemoryPoolTakeAll :: "nexts \<Rightarrow> MemoryPool \<Rightarrow> MemoryPool \<Rightarrow> (nexts \<times> MemoryPool \<times> MemoryPool) option" where
  "ncclMemoryPoolTakeAll h me src =
    (if pool_head src \<noteq> None then
       (case pool_tail src of
          None \<Rightarrow> None
        | Some t \<Rightarrow>
            (let me1 = (if pool_head me = None then me\<lparr> pool_tail := pool_tail src \<rparr> else me)
             in Some (h(t := pool_head me), me1\<lparr> pool_head := pool_head src \<rparr>, src\<lparr> pool_head := None \<rparr>)))
     else Some (h, me, src))"

section \<open>What a queue holds\<close>

definition queue_is :: "nexts \<Rightarrow> IntruQueue \<Rightarrow> obj list \<Rightarrow> bool" where
  "queue_is h me xs \<longleftrightarrow> chain h (q_head me) xs \<and> nElems me = int (length xs)
     \<and> q_tail me = (if xs = [] then None else Some (last xs))"

definition pool_is :: "nexts \<Rightarrow> MemoryPool \<Rightarrow> obj list \<Rightarrow> bool" where
  "pool_is h me xs \<longleftrightarrow> chain h (pool_head me) xs \<and> (xs \<noteq> [] \<longrightarrow> pool_tail me = Some (last xs))"

lemma queue_is_construct: "queue_is h ncclIntruQueueConstruct []"
  by (simp add: queue_is_def ncclIntruQueueConstruct_def)

lemma queue_is_empty: "queue_is h me xs \<Longrightarrow> ncclIntruQueueEmpty me \<longleftrightarrow> xs = []"
  by (cases xs) (auto simp: queue_is_def ncclIntruQueueEmpty_def)

lemma queue_is_ends:
  "queue_is h me xs \<Longrightarrow> xs \<noteq> [] \<Longrightarrow>
   ncclIntruQueueHead me = Some (hd xs) \<and> ncclIntruQueueTail me = Some (last xs)"
  by (cases xs) (auto simp: queue_is_def ncclIntruQueueHead_def ncclIntruQueueTail_def)

lemma enqueue_spec:
  assumes "queue_is h me xs" "x \<notin> set xs"
  shows "\<exists>h' me'. ncclIntruQueueEnqueue h me x = Some (h', me') \<and> queue_is h' me' (xs @ [x])
    \<and> (\<forall>y. y \<notin> set xs \<union> {x} \<longrightarrow> h' y = h y)"
proof (cases "xs = []")
  case True
  with assms show ?thesis by (auto simp: ncclIntruQueueEnqueue_def queue_is_def)
next
  case False
  then have hd: "q_head me = Some (hd xs)" and tl: "q_tail me = Some (last xs)"
    using assms(1) by (cases xs; auto simp: queue_is_def)+
  have c: "chain (h(x := None)) (q_head me) xs" using assms by (simp add: queue_is_def chain_simps)
  have "chain (h(x := None)) (Some x) [x]" by simp
  then have "chain ((h(x := None))(last xs := Some x)) (q_head me) (xs @ [x])"
    using chain_link [OF c False, of "Some x" "[x]"] assms(2) by simp
  with hd tl assms(1) False show ?thesis
    by (auto simp: ncclIntruQueueEnqueue_def queue_is_def)
qed

lemma enqueue_front_spec:
  assumes "queue_is h me xs" "x \<notin> set xs"
  shows "case ncclIntruQueueEnqueueFront h me x of (h', me') \<Rightarrow> queue_is h' me' (x # xs)"
  using assms
  by (cases xs) (auto simp: ncclIntruQueueEnqueueFront_def queue_is_def Let_def chain_simps simp flip: fun_upd_def)

lemma dequeue_spec:
  assumes "queue_is h me (x # xs)"
  shows "\<exists>me'. ncclIntruQueueDequeue h me = Some (x, me') \<and> ncclIntruQueueTryDequeue h me = (Some x, me')
    \<and> queue_is h me' xs"
  using assms
  by (cases xs) (auto simp: ncclIntruQueueDequeue_def ncclIntruQueueTryDequeue_def queue_is_def Let_def)

lemma try_dequeue_empty: "queue_is h me [] \<Longrightarrow> ncclIntruQueueTryDequeue h me = (None, me)"
  by (simp add: ncclIntruQueueTryDequeue_def queue_is_def)

section \<open>Deleting\<close>

lemma delete_loop_none:
  "chain h cur xs \<Longrightarrow> \<forall>x \<in> set xs. \<not> cmp x \<Longrightarrow>
   delete_loop h cmp prv cur = Some (if xs = [] then prv else Some (last xs), None)"
  by (induction xs arbitrary: prv cur) (auto simp: delete_loop.simps [of h cmp])

lemma delete_loop_found:
  "chain h cur (ys @ c # zs) \<Longrightarrow> \<forall>y \<in> set ys. \<not> cmp y \<Longrightarrow> cmp c \<Longrightarrow>
   delete_loop h cmp prv cur = Some (if ys = [] then prv else Some (last ys), Some c)"
  by (induction ys arbitrary: prv cur) (auto simp: delete_loop.simps [of h cmp])

lemma delete_spec:
  assumes q: "queue_is h me (ys @ c # zs)" and "\<forall>y \<in> set ys. \<not> cmp y" "cmp c"
  shows "\<exists>h' me'. ncclIntruQueueDelete h me cmp = Some (Some c, h', me') \<and> queue_is h' me' (ys @ zs)"
proof -
  have ch: "chain h (q_head me) (ys @ c # zs)" using q by (simp add: queue_is_def)
  have loop: "delete_loop h cmp None (q_head me) = Some (if ys = [] then None else Some (last ys), Some c)"
    using ch assms(2,3) by (rule delete_loop_found)
  have last: "last ys \<noteq> c" if "ys \<noteq> []" using chain_distinct [OF ch] that by auto
  have tail: "Some c = q_tail me \<longleftrightarrow> zs = []"
    using q chain_distinct [OF ch] by (auto simp: queue_is_def)
  show ?thesis
  proof (cases "ys = []")
    case True
    then show ?thesis using loop q tail ch by (auto simp: ncclIntruQueueDelete_def queue_is_def)
  next
    case False
    then have "chain (h(last ys := h c)) (q_head me) (ys @ zs)" using ch by (intro chain_unlink)
    then show ?thesis using loop q tail False by (auto simp: ncclIntruQueueDelete_def queue_is_def)
  qed
qed

lemma delete_none:
  assumes "queue_is h me xs" "\<forall>x \<in> set xs. \<not> cmp x"
  shows "ncclIntruQueueDelete h me cmp = Some (None, h, me)"
  using assms delete_loop_none [of h "q_head me" xs cmp None]
  by (simp add: ncclIntruQueueDelete_def queue_is_def)

text \<open>Deleting from a queue: \<open>ncclIntruQueueDelete\<close> always returns; it removes the first element that
  matches, wherever it stands, keeps the order of the others and the head, tail and counter consistent,
  and leaves the queue alone when nothing matches.\<close>

theorem intru_queue_delete:
  assumes "queue_is h me xs"
  shows "\<exists>r h' me'. ncclIntruQueueDelete h me cmp = Some (r, h', me')
    \<and> r = find cmp xs
    \<and> queue_is h' me' (case r of None \<Rightarrow> xs | Some c \<Rightarrow> remove1 c xs)"
proof (cases "\<exists>x \<in> set xs. cmp x")
  case True
  then obtain ys c zs where xs: "xs = ys @ c # zs" "cmp c" "\<forall>y \<in> set ys. \<not> cmp y"
    using split_list_first_prop [of xs cmp] by blast
  have "find cmp xs = Some c" 
    using xs by (auto simp: find_Some_iff nth_append intro!: exI [of _ "length ys"])
  moreover have "c \<notin> set ys" using xs by blast
  then have "remove1 c xs = ys @ zs" using xs(1) by (simp add: remove1_append)
  ultimately show ?thesis using delete_spec [of h me ys c zs cmp] assms xs by auto
next
  case False
  then have "find cmp xs = None" by (simp add: find_None_iff)
  with False assms show ?thesis using delete_none [OF assms, of cmp] by auto
qed

theorem intru_queue_delete_witness:
  "\<exists>r h' me'. ncclIntruQueueDelete (\<lambda>_. None) \<lparr> q_head = Some 5, q_tail = Some 5, nElems = 1 \<rparr> (\<lambda>x. x = 5)
     = Some (r, h', me') \<and> r = find (\<lambda>x. x = 5) [5]"
proof -
  have "queue_is (\<lambda>_. None) \<lparr> q_head = Some 5, q_tail = Some 5, nElems = 1 \<rparr> [5]" by (simp add: queue_is_def)
  from intru_queue_delete [OF this] show ?thesis by blast
qed

section \<open>Sequences of operations\<close>

text \<open>A sequence of operations, with what each of them returns.\<close>

fun run_ops :: "('op \<Rightarrow> 's \<Rightarrow> ('out \<times> 's) option) \<Rightarrow> 'op list \<Rightarrow> 's \<Rightarrow> ('out list \<times> 's) option" where
  "run_ops f [] s = Some ([], s)"
| "run_ops f (op # ops) s = (case f op s of None \<Rightarrow> None | Some (x, s') \<Rightarrow> map_option (\<lambda>(xs, s''). (x # xs, s'')) (run_ops f ops s'))"

text \<open>
  What the users of a container rely on: each of its operations answers as the same operation on an abstract value does, and keeps
  the relation between state and value. Then so does every sequence of operations.
\<close>

locale op_refinement =
  fixes holds :: "'s \<Rightarrow> 'v \<Rightarrow> bool"
    and cstep :: "'op \<Rightarrow> 's \<Rightarrow> ('out \<times> 's) option"
    and astep :: "'op \<Rightarrow> 'v \<Rightarrow> ('out \<times> 'v) option"
  assumes step_law: "holds s v \<Longrightarrow> astep op v = Some (out, v') \<Longrightarrow> \<exists>s'. cstep op s = Some (out, s') \<and> holds s' v'"
begin

lemma run_refines:
  "holds s v \<Longrightarrow> run_ops astep ops v = Some (outs, v') \<Longrightarrow> \<exists>s'. run_ops cstep ops s = Some (outs, s') \<and> holds s' v'"
proof (induction ops arbitrary: s v outs)
  case (Cons op ops)
  obtain x v1 xs where a: "astep op v = Some (x, v1)" "run_ops astep ops v1 = Some (xs, v')" "outs = x # xs"
    using Cons.prems(2) by (auto split: option.splits)
  obtain s1 where c: "cstep op s = Some (x, s1)" "holds s1 v1" using step_law [OF Cons.prems(1) a(1)] by blast
  show ?case using Cons.IH [OF c(2) a(2)] c(1) a(3) by auto
qed simp

end

text \<open>The operations on a queue. The specification is a list; an object that is in the queue must not be inserted again, and \<open>Dequeue\<close> must not be called on an empty queue.\<close>

datatype queue_op = Op_enqueue obj | Op_enqueueFront obj | Op_dequeue | Op_tryDequeue | Op_delete "obj \<Rightarrow> bool"

fun list_step :: "queue_op \<Rightarrow> obj list \<Rightarrow> (obj option \<times> obj list) option" where
  "list_step (Op_enqueue x) xs = (if x \<in> set xs then None else Some (None, xs @ [x]))"
| "list_step (Op_enqueueFront x) xs = (if x \<in> set xs then None else Some (None, x # xs))"
| "list_step Op_dequeue xs = (case xs of [] \<Rightarrow> None | y # ys \<Rightarrow> Some (Some y, ys))"
| "list_step Op_tryDequeue xs = (case xs of [] \<Rightarrow> Some (None, []) | y # ys \<Rightarrow> Some (Some y, ys))"
| "list_step (Op_delete cmp) xs = Some (find cmp xs, case find cmp xs of None \<Rightarrow> xs | Some c \<Rightarrow> remove1 c xs)"

fun queue_step :: "queue_op \<Rightarrow> nexts \<times> IntruQueue \<Rightarrow> (obj option \<times> nexts \<times> IntruQueue) option" where
  "queue_step (Op_enqueue x) (h, me) = map_option (Pair None) (ncclIntruQueueEnqueue h me x)"
| "queue_step (Op_enqueueFront x) (h, me) = Some (None, ncclIntruQueueEnqueueFront h me x)"
| "queue_step Op_dequeue (h, me) = map_option (\<lambda>(x, me'). (Some x, h, me')) (ncclIntruQueueDequeue h me)"
| "queue_step Op_tryDequeue (h, me) = (case ncclIntruQueueTryDequeue h me of (x, me') \<Rightarrow> Some (x, h, me'))"
| "queue_step (Op_delete cmp) (h, me) = ncclIntruQueueDelete h me cmp"

interpretation iq: op_refinement "\<lambda>s xs. queue_is (fst s) (snd s) xs" queue_step list_step
proof
  fix s :: "nexts \<times> IntruQueue" and xs op out ys
  assume q: "queue_is (fst s) (snd s) xs" and a: "list_step op xs = Some (out, ys)"
  obtain h me where s: "s = (h, me)" by (cases s)
  show "\<exists>s'. queue_step op s = Some (out, s') \<and> queue_is (fst s') (snd s') ys"
  proof (cases op)
    case (Op_enqueue x)
    then show ?thesis using q a s enqueue_spec [of h me xs x] by (auto split: if_splits)
  next
    case (Op_enqueueFront x)
    then show ?thesis using q a s enqueue_front_spec [of h me xs x] by (auto split: if_splits prod.splits)
  next
    case Op_dequeue
    then show ?thesis using q a s dequeue_spec [of h me] by (cases xs) fastforce+
  next
    case Op_tryDequeue
    then show ?thesis using q a s dequeue_spec [of h me] try_dequeue_empty [of h me] by (cases xs) fastforce+
  next
    case (Op_delete cmp)
    then show ?thesis using q a s intru_queue_delete [of h me xs cmp] by fastforce
  qed
qed

text \<open>C33 \<open>ncclIntruQueue\<close> implements a list: whatever sequence of enqueues at either end, dequeues, tentative dequeues and deletions is run on a fresh queue, as long as no object is inserted that is already in the queue and
  only the tentative dequeue meets an empty queue, every call answers what the same call on a list answers, without a null dereference and without running for ever. Elements leave in the order of the list, and in the end the counter, the test for emptiness, the head
  and the tail are those of the list, and so is the chain of next pointers.\<close>

theorem intru_queue_fifo:
  assumes "run_ops list_step ops [] = Some (outs, xs)"
  shows "\<exists>h' me'. run_ops queue_step ops (h, ncclIntruQueueConstruct) = Some (outs, h', me')
    \<and> nElems me' = int (length xs) \<and> (ncclIntruQueueEmpty me' \<longleftrightarrow> xs = [])
    \<and> ncclIntruQueueHead me' = (if xs = [] then None else Some (hd xs)) \<and> ncclIntruQueueTail me' = (if xs = [] then None else Some (last xs))
    \<and> chain h' (ncclIntruQueueHead me') xs"
proof -
  obtain h' me' where r: "run_ops queue_step ops (h, ncclIntruQueueConstruct) = Some (outs, h', me')" "queue_is h' me' xs"
    using iq.run_refines [of "(h, ncclIntruQueueConstruct)" "[]" ops outs xs] assms queue_is_construct [of h] by auto
  show ?thesis
    using r queue_is_empty [OF r(2)] queue_is_ends [OF r(2)] by (auto simp: queue_is_def ncclIntruQueueHead_def ncclIntruQueueTail_def)
qed

theorem intru_queue_fifo_witness:
  "\<exists>h' me'. run_ops queue_step [Op_enqueue 3, Op_enqueue 1, Op_dequeue, Op_enqueueFront 7, Op_delete (\<lambda>x. x = 1), Op_tryDequeue, Op_tryDequeue, Op_enqueue 4]
       (\<lambda>_. None, ncclIntruQueueConstruct) = Some ([None, None, Some 3, None, Some 1, Some 7, None, None], h', me') \<and> nElems me' = 1"
proof -
  have "run_ops list_step [Op_enqueue 3, Op_enqueue 1, Op_dequeue, Op_enqueueFront 7, Op_delete (\<lambda>x. x = 1), Op_tryDequeue, Op_tryDequeue, Op_enqueue 4] []
    = Some ([None, None, Some 3, None, Some 1, Some 7, None, None], [4])" by simp
  from intru_queue_fifo [OF this, of "\<lambda>_. None"] show ?thesis by auto
qed

section \<open>Transferring\<close>

lemma transfer_spec:
  assumes "queue_is h dst xs" "queue_is h src ys" "set xs \<inter> set ys = {}"
  shows "case ncclIntruQueueTransfer h dst src of
    (h', dst', src') \<Rightarrow> queue_is h' dst' (xs @ ys) \<and> queue_is h' src' []"
proof (cases "xs = []")
  case True
  with assms show ?thesis by (auto simp: ncclIntruQueueTransfer_def queue_is_def)
next
  case False
  have "chain (h(last xs := q_head src)) (q_head dst) (xs @ ys)"
    using chain_link [of h "q_head dst" xs "q_head src" ys] assms False by (simp add: queue_is_def)
  with assms False show ?thesis by (auto simp: ncclIntruQueueTransfer_def queue_is_def)
qed

text \<open>Transferring a queue works only for lists linked through the member called \<open>next\<close>. There it moves all
  elements of the source behind those of the destination and empties the source. For a queue whose template
  argument is another member (heap \<open>h\<close>, while \<open>m\<close> is the heap of the member \<open>next\<close>), the elements are counted
  and the tail moves, but they cannot be reached from the head any more.\<close>

theorem intru_queue_transfer:
  assumes "set xs \<inter> set ys = {}" "xs \<noteq> []" "ys \<noteq> []" "queue_is h dst xs" "queue_is h src ys"
  shows "(case ncclIntruQueueTransfer h dst src of
           (h', dst', src') \<Rightarrow> queue_is h' dst' (xs @ ys) \<and> queue_is h' src' [])
    \<and> (case ncclIntruQueueTransfer m dst src of
           (m', dst', src') \<Rightarrow> chain h (q_head dst') xs \<and> nElems dst' = int (length xs + length ys)
             \<and> (\<forall>zs. \<not> queue_is h dst' zs))"
proof (rule conjI)
  show "case ncclIntruQueueTransfer h dst src of
      (h', dst', src') \<Rightarrow> queue_is h' dst' (xs @ ys) \<and> queue_is h' src' []"
    using transfer_spec [OF assms(4,5,1)] .
  have ch: "chain h (q_head dst) xs" and n: "nElems dst = int (length xs)" "nElems src = int (length ys)"
    and t: "q_tail dst = Some (last xs)"
    using assms(2,4,5) by (auto simp: queue_is_def)
  let ?dst = "dst\<lparr> q_tail := q_tail src, nElems := nElems dst + nElems src \<rparr>"
  have "q_tail src \<noteq> None" using assms(3,5) by (simp add: queue_is_def)
  then have run: "ncclIntruQueueTransfer m dst src
      = (m(last xs := q_head src), ?dst, src\<lparr> q_head := None, q_tail := None, nElems := 0 \<rparr>)"
    using t by (simp add: ncclIntruQueueTransfer_def)
  have "\<not> queue_is h ?dst zs" for zs
  proof
    assume z: "queue_is h ?dst zs"
    then have "zs = xs" using ch by (intro chain_unique [of h "q_head dst"]) (simp_all add: queue_is_def)
    with z n assms(3) show False by (simp add: queue_is_def)
  qed
  with ch n show "case ncclIntruQueueTransfer m dst src of
      (m', dst', src') \<Rightarrow> chain h (q_head dst') xs \<and> nElems dst' = int (length xs + length ys)
        \<and> (\<forall>zs. \<not> queue_is h dst' zs)"
    unfolding run by simp
qed

theorem intru_queue_transfer_witness:
  "case ncclIntruQueueTransfer (\<lambda>_. None) \<lparr> q_head = Some 1, q_tail = Some 1, nElems = 1 \<rparr>
      \<lparr> q_head = Some 2, q_tail = Some 2, nElems = 1 \<rparr> of
    (h', dst', src') \<Rightarrow> queue_is h' dst' ([1] @ [2]) \<and> queue_is h' src' []"
  by (rule intru_queue_transfer [THEN conjunct1]) (simp_all add: queue_is_def)

section \<open>The pool\<close>

lemma pool_alloc_spec:
  assumes "pool_is h me xs" "fresh \<notin> set xs"
  shows "case ncclMemoryPoolAlloc h me fresh of (c, h', me') \<Rightarrow>
    c = (case xs of [] \<Rightarrow> fresh | x # _ \<Rightarrow> x) \<and> pool_is h' me' (tl xs) \<and> c \<notin> set (tl xs)"
proof (cases xs)
  case Nil
  with assms show ?thesis by (auto simp: ncclMemoryPoolAlloc_def pool_is_def)
next
  case (Cons x ys)
  have "x \<notin> set ys" using chain_distinct [of h "pool_head me" xs] assms(1) Cons by (simp add: pool_is_def)
  with assms Cons show ?thesis by (auto simp: ncclMemoryPoolAlloc_def pool_is_def chain_simps)
qed

lemma pool_free_spec:
  assumes "pool_is h me xs" "c \<notin> set xs"
  shows "case ncclMemoryPoolFree h me c of (h', me') \<Rightarrow> pool_is h' me' (c # xs)"
  using assms by (cases xs)
    (auto simp: ncclMemoryPoolFree_def pool_is_def Let_def chain_simps simp flip: fun_upd_def)

lemma pool_take_all_spec:
  assumes "pool_is h me xs" "pool_is h src ys" "set xs \<inter> set ys = {}"
  shows "\<exists>h' me' src'. ncclMemoryPoolTakeAll h me src = Some (h', me', src')
    \<and> pool_is h' me' (ys @ xs) \<and> pool_is h' src' []"
proof (cases "ys = []")
  case True
  with assms show ?thesis by (auto simp: ncclMemoryPoolTakeAll_def pool_is_def)
next
  case False
  have "chain (h(last ys := pool_head me)) (pool_head src) (ys @ xs)"
    using chain_link [of h "pool_head src" ys "pool_head me" xs] assms False by (auto simp: pool_is_def)
  moreover have "pool_head src \<noteq> None" using assms(2) False by (cases ys) (auto simp: pool_is_def)
  ultimately show ?thesis
    using assms False by (cases xs) (auto simp: ncclMemoryPoolTakeAll_def pool_is_def)
qed

text \<open>The memory pool is a free list: an allocation returns a cell that was freed last, or the cell of the backing
  stack when there is none, and never a cell that is still free in the pool; freeing adds the cell; \<open>TakeAll\<close>
  moves every free cell of one pool to the other. No operation dereferences the stale \<open>tail\<close> of an empty pool.\<close>

theorem memory_pool_free_list:
  assumes "pool_is h me xs" "pool_is h src ys" "set xs \<inter> set ys = {}" "c \<notin> set xs"
  shows "(case ncclMemoryPoolAlloc h me c of (cell, h', me') \<Rightarrow>
       cell = (case xs of [] \<Rightarrow> c | x # _ \<Rightarrow> x) \<and> pool_is h' me' (tl xs) \<and> cell \<notin> set (tl xs))
    \<and> (case ncclMemoryPoolFree h me c of (h', me') \<Rightarrow> pool_is h' me' (c # xs))
    \<and> (\<exists>h' me' src'. ncclMemoryPoolTakeAll h me src = Some (h', me', src')
       \<and> pool_is h' me' (ys @ xs) \<and> pool_is h' src' [])"
  using pool_alloc_spec [OF assms(1,4)] pool_free_spec [OF assms(1,4)] pool_take_all_spec [OF assms(1-3)] by blast

theorem memory_pool_free_list_witness:
  "case ncclMemoryPoolFree (\<lambda>_. None) \<lparr> pool_head = Some 1, pool_tail = Some 1 \<rparr> 7 of
     (h', me') \<Rightarrow> pool_is h' me' [7, 1]"
proof -
  have "pool_is (\<lambda>_. None) \<lparr> pool_head = Some 1, pool_tail = Some 1 \<rparr> [1]"
    "pool_is (\<lambda>_. None) \<lparr> pool_head = None, pool_tail = None \<rparr> []" "set [1 :: obj] \<inter> set [] = {}" "(7 :: obj) \<notin> set [1]"
    by (simp_all add: pool_is_def)
  from memory_pool_free_list [OF this] show ?thesis by (elim conjE)
qed

end
