(* ===== verification/Mpsc_Queue.thy ===== *)
theory Mpsc_Queue
  imports Linked_List
begin

text \<open>
  The multi-producer, single-consumer queue of \<open>net/include/utils.h\<close> (\<open>ncclIntruQueueMpsc\<close>) under any interleaving
  of its producers and its consumer. Every atomic access to shared memory is one step of the relation
  \<open>mstep\<close>: a producer first exchanges the tail and only later links its object, so the list can be broken
  in the middle while others append to it. The atomics are taken as sequentially consistent. A producer's
  private write of its own next pointer is merged with its exchange, and the consumer's compare-exchange with
  the wait that follows under the same mutex. Spinning is the absence of a step. Theorems: the objects the consumer
  returns are exactly those enqueued, in the order of the exchanges, and no wake-up is lost.
\<close>

section \<open>State\<close>

text \<open>The values of \<open>tail\<close>: \<open>0x0\<close>, \<open>0x1\<close> (a consumer sleeps), \<open>0x2\<close> (abandoned) or an object.\<close>

datatype mtail = T0 | T1_waiting | T2_abandoned | TObj obj

text \<open>\<open>prevNext\<close>: where a producer that has exchanged the tail will store its object.\<close>

datatype slot = AtHead | AtNext obj

text \<open>Where the consumer stands: between calls; asleep; having read a non-null head; having cleared the head;
  walking from the head to the tail it got, with the objects passed so far. The tail value is the one that its
  exchange will leave (\<open>0x0\<close> for \<open>DequeueAll\<close>, \<open>0x2\<close> for \<open>Abandon\<close>).\<close>

datatype phase = Idle | Asleep | GotHead obj mtail | Cleared obj mtail | Walk "obj list" obj

record mstate =
  m_head :: "obj option"
  m_tail :: mtail
  m_next :: nexts
  m_pend :: "obj \<Rightarrow> (slot \<times> bool) option"   \<comment> \<open>producers between exchange and store; the flag: must notify\<close>
  m_duties :: nat                              \<comment> \<open>producers between store and notify\<close>
  m_signal :: bool                             \<comment> \<open>the condition variable was notified since the wait began\<close>
  m_phase :: phase
  m_order :: "obj list"                        \<comment> \<open>all objects ever enqueued, in the order of the exchanges\<close>
  m_out :: "obj list"                          \<comment> \<open>all objects returned by the consumer so far\<close>
  m_gen :: "obj list"                          \<comment> \<open>taken off by the consumer's exchange, being walked\<close>
  m_cur :: "obj list"                          \<comment> \<open>still in the queue\<close>

text \<open>\<open>ncclIntruQueueMpscConstruct\<close>\<close>

definition ncclIntruQueueMpscConstruct :: mstate where
  "ncclIntruQueueMpscConstruct = \<lparr> m_head = None, m_tail = T0, m_next = (\<lambda>_. None), m_pend = (\<lambda>_. None), m_duties = 0,
     m_signal = False, m_phase = Idle, m_order = [], m_out = [], m_gen = [], m_cur = [] \<rparr>"

definition is_obj :: "mtail \<Rightarrow> bool" where
  "is_obj t = (case t of TObj _ \<Rightarrow> True | _ \<Rightarrow> False)"

text \<open>\<open>ncclIntruQueueMpscEmpty\<close>: \<open>tail <= 0x2\<close>\<close>

definition ncclIntruQueueMpscEmpty :: "mstate \<Rightarrow> bool" where
  "ncclIntruQueueMpscEmpty s \<longleftrightarrow> \<not> is_obj (m_tail s)"

section \<open>Steps\<close>

text \<open>\<open>ncclIntruQueueMpscEnqueue(me, x)\<close>: up to and including the exchange of the tail; the store through \<open>prevNext\<close>;
  the notification.\<close>

definition enqueue_exchange :: "obj \<Rightarrow> mstate \<Rightarrow> mstate" where
  "enqueue_exchange x s = s\<lparr>
     m_next := (m_next s)(x := None),
     m_tail := TObj x,
     m_pend := (m_pend s)(x \<mapsto> (case m_tail s of TObj p \<Rightarrow> AtNext p | _ \<Rightarrow> AtHead, m_tail s = T1_waiting)),
     m_order := m_order s @ [x], m_cur := m_cur s @ [x] \<rparr>"

text \<open>The value \<open>ncclIntruQueueMpscEnqueue\<close> returns: \<open>utail != 0x2\<close>.\<close>

definition enqueue_result :: "mstate \<Rightarrow> bool" where
  "enqueue_result s \<longleftrightarrow> m_tail s \<noteq> T2_abandoned"

definition enqueue_store :: "obj \<Rightarrow> slot \<Rightarrow> bool \<Rightarrow> mstate \<Rightarrow> mstate" where
  "enqueue_store x sl duty s =
    (let s1 = (case sl of
          AtHead \<Rightarrow> s\<lparr> m_head := Some x \<rparr>
        | AtNext p \<Rightarrow> s\<lparr> m_next := (m_next s)(p \<mapsto> x) \<rparr>)
     in s1\<lparr> m_pend := (m_pend s)(x := None), m_duties := (if duty then Suc (m_duties s) else m_duties s) \<rparr>)"

definition enqueue_notify :: "mstate \<Rightarrow> mstate" where
  "enqueue_notify s = s\<lparr> m_duties := m_duties s - 1, m_signal := True \<rparr>"

text \<open>The consumer: clearing the head, exchanging the tail, one step of the walk, the return.\<close>

definition consumer_clear :: "obj \<Rightarrow> mtail \<Rightarrow> mstate \<Rightarrow> mstate" where
  "consumer_clear hd0 fin s = s\<lparr> m_head := None, m_phase := Cleared hd0 fin \<rparr>"

definition consumer_exchange :: "obj \<Rightarrow> mtail \<Rightarrow> obj \<Rightarrow> mstate \<Rightarrow> mstate" where
  "consumer_exchange hd0 fin t s = s\<lparr> m_tail := fin, m_phase := Walk [hd0] t, m_gen := m_cur s, m_cur := [] \<rparr>"

definition consumer_walk :: "obj list \<Rightarrow> obj \<Rightarrow> obj \<Rightarrow> mstate \<Rightarrow> mstate" where
  "consumer_walk col t x1 s = s\<lparr> m_phase := Walk (col @ [x1]) t \<rparr>"

definition consumer_return :: "obj list \<Rightarrow> mstate \<Rightarrow> mstate" where
  "consumer_return col s = s\<lparr> m_phase := Idle, m_out := m_out s @ col, m_gen := [] \<rparr>"

inductive mstep :: "mstate \<Rightarrow> mstate \<Rightarrow> bool" where
  exchange: "x \<notin> set (m_gen s @ m_cur s) \<Longrightarrow> mstep s (enqueue_exchange x s)"
| store: "m_pend s x = Some (sl, duty) \<Longrightarrow> mstep s (enqueue_store x sl duty s)"
| notify: "0 < m_duties s \<Longrightarrow> mstep s (enqueue_notify s)"
| sleep: "m_phase s = Idle \<Longrightarrow> m_tail s \<in> {T0, T1_waiting} \<Longrightarrow>
    mstep s (s\<lparr> m_tail := T1_waiting, m_phase := Asleep, m_signal := False \<rparr>)"
| wake: "m_phase s = Asleep \<Longrightarrow> mstep s (s\<lparr> m_phase := Idle \<rparr>)"
| abandon_empty: "m_phase s = Idle \<Longrightarrow> m_tail s = T0 \<Longrightarrow> mstep s (s\<lparr> m_tail := T2_abandoned \<rparr>)"
| read_head: "m_phase s = Idle \<Longrightarrow> m_head s = Some hd0 \<Longrightarrow> fin \<in> {T0, T2_abandoned} \<Longrightarrow>
    mstep s (s\<lparr> m_phase := GotHead hd0 fin \<rparr>)"
| clear: "m_phase s = GotHead hd0 fin \<Longrightarrow> mstep s (consumer_clear hd0 fin s)"
| take: "m_phase s = Cleared hd0 fin \<Longrightarrow> m_tail s = TObj t \<Longrightarrow> mstep s (consumer_exchange hd0 fin t s)"
| walk: "m_phase s = Walk col t \<Longrightarrow> last col \<noteq> t \<Longrightarrow> m_next s (last col) = Some x1 \<Longrightarrow>
    mstep s (consumer_walk col t x1 s)"
| return: "m_phase s = Walk col t \<Longrightarrow> last col = t \<Longrightarrow> mstep s (consumer_return col s)"

inductive_cases mstepE: "mstep s s'"

inductive mreach :: "mstate \<Rightarrow> bool" where
  init: "mreach ncclIntruQueueMpscConstruct"
| step: "mreach s \<Longrightarrow> mstep s s' \<Longrightarrow> mreach s'"

section \<open>Invariant\<close>

text \<open>Two neighbours of a list are linked, or the producer of the second is about to link them. The next
  pointer of the last object is null.\<close>

fun links :: "nexts \<Rightarrow> (obj \<Rightarrow> (slot \<times> bool) option) \<Rightarrow> obj list \<Rightarrow> bool" where
  "links n pd [] \<longleftrightarrow> True"
| "links n pd [a] \<longleftrightarrow> n a = None"
| "links n pd (a # b # xs) \<longleftrightarrow>
     (n a = Some b \<and> pd b = None \<or> n a = None \<and> (\<exists>d. pd b = Some (AtNext a, d))) \<and> links n pd (b # xs)"

text \<open>The head of the current list is published, or its producer is about to publish it.\<close>

definition head_ok :: "mstate \<Rightarrow> bool" where
  "head_ok s \<longleftrightarrow> (case m_cur s of
      [] \<Rightarrow> m_head s = None
    | c # _ \<Rightarrow> m_head s = Some c \<and> m_pend s c = None \<or> m_head s = None \<and> (\<exists>d. m_pend s c = Some (AtHead, d)))"

fun phase_ok :: "phase \<Rightarrow> mstate \<Rightarrow> bool" where
  "phase_ok Idle s \<longleftrightarrow> m_gen s = [] \<and> head_ok s"
| "phase_ok Asleep s \<longleftrightarrow> m_gen s = [] \<and> head_ok s"
| "phase_ok (GotHead x fin) s \<longleftrightarrow> m_gen s = [] \<and> m_cur s \<noteq> [] \<and> hd (m_cur s) = x \<and> m_head s = Some x
     \<and> m_pend s x = None \<and> \<not> is_obj fin"
| "phase_ok (Cleared x fin) s \<longleftrightarrow> m_gen s = [] \<and> m_cur s \<noteq> [] \<and> hd (m_cur s) = x \<and> m_head s = None
     \<and> m_pend s x = None \<and> \<not> is_obj fin"
| "phase_ok (Walk col t) s \<longleftrightarrow> head_ok s \<and> col \<noteq> [] \<and> (\<exists>rest. m_gen s = col @ rest) \<and> t = last (m_gen s)
     \<and> m_pend s (hd col) = None \<and> (\<forall>c \<in> set col. m_pend s c = None)"

definition tail_ok :: "mstate \<Rightarrow> bool" where
  "tail_ok s \<longleftrightarrow> (if m_cur s = [] then \<not> is_obj (m_tail s) else m_tail s = TObj (last (m_cur s)))"

text \<open>Some producer has yet to store its object and to notify.\<close>

definition owes :: "(obj \<Rightarrow> (slot \<times> bool) option) \<Rightarrow> bool" where
  "owes pd \<longleftrightarrow> (\<exists>x sl. pd x = Some (sl, True))"

definition wake_ok :: "mstate \<Rightarrow> bool" where
  "wake_ok s \<longleftrightarrow> (m_phase s = Asleep \<longrightarrow> (if m_cur s = [] then m_tail s = T1_waiting
       else m_signal s \<or> 0 < m_duties s \<or> owes (m_pend s)))"

definition minv :: "mstate \<Rightarrow> bool" where
  "minv s \<longleftrightarrow> m_order s = m_out s @ m_gen s @ m_cur s \<and> distinct (m_gen s @ m_cur s)
     \<and> dom (m_pend s) \<subseteq> set (m_gen s @ m_cur s)
     \<and> links (m_next s) (m_pend s) (m_gen s) \<and> links (m_next s) (m_pend s) (m_cur s)
     \<and> tail_ok s \<and> phase_ok (m_phase s) s \<and> wake_ok s"

lemmas minv_defs = minv_def tail_ok_def wake_ok_def is_obj_def

lemma head_ok_upd [simp]:
  "head_ok (s\<lparr> m_phase := a \<rparr>) = head_ok s" "head_ok (s\<lparr> m_signal := b \<rparr>) = head_ok s"
  "head_ok (s\<lparr> m_tail := c \<rparr>) = head_ok s" "head_ok (s\<lparr> m_duties := d \<rparr>) = head_ok s"
  "head_ok (s\<lparr> m_out := e \<rparr>) = head_ok s" "head_ok (s\<lparr> m_gen := e \<rparr>) = head_ok s"
  by (simp_all add: head_ok_def split: list.split)

lemma owes_new: "owes (pd(x \<mapsto> (sl, True)))"
  unfolding owes_def by (intro exI [of _ x]) simp

lemma owes_keep: "owes pd \<Longrightarrow> pd x = None \<Longrightarrow> owes (pd(x \<mapsto> v))"
  unfolding owes_def by (metis fun_upd_other option.distinct(1))

lemma owes_clear: "owes pd \<Longrightarrow> pd x = Some (sl, False) \<Longrightarrow> owes (pd(x := None))"
  unfolding owes_def by (metis fun_upd_other option.inject prod.inject)

subsection \<open>Links under updates\<close>

lemma in_set_tlD: "x \<in> set (tl xs) \<Longrightarrow> x \<in> set xs"
  by (cases xs) auto

lemma links_cong:
  "(\<And>x. x \<in> set xs \<Longrightarrow> n x = n' x) \<Longrightarrow> (\<And>x. x \<in> set (tl xs) \<Longrightarrow> pd x = pd' x) \<Longrightarrow> links n pd xs = links n' pd' xs"
  by (induction xs rule: induct_list012) auto

lemma links_snoc:
  "xs \<noteq> [] \<Longrightarrow> links n pd (xs @ [x]) \<longleftrightarrow> links (n(last xs := None)) pd xs \<and> n x = None
     \<and> (n (last xs) = Some x \<and> pd x = None \<or> n (last xs) = None \<and> (\<exists>d. pd x = Some (AtNext (last xs), d)))"
  if "distinct xs"
  using that
proof (induction xs rule: induct_list012)
  case (3 a b xs)
  then have "a \<noteq> last (b # xs)" by (auto split: if_splits)
  with 3 show ?case by auto
qed auto

lemma links_last: "links n pd xs \<Longrightarrow> xs \<noteq> [] \<Longrightarrow> n (last xs) = None"
  by (induction xs rule: induct_list012) auto

text \<open>A pending link names the neighbour in front.\<close>

lemma links_pending:
  "links n pd (xs @ x # ys) \<Longrightarrow> xs \<noteq> [] \<Longrightarrow> pd x = Some (sl, d) \<Longrightarrow> sl = AtNext (last xs) \<and> n (last xs) = None"
proof (induction xs)
  case (Cons a xs)
  then show ?case by (cases xs) auto
qed simp

lemma links_store:
  "links n pd (xs @ x # ys) \<Longrightarrow> xs \<noteq> [] \<Longrightarrow> distinct (xs @ x # ys) \<Longrightarrow>
   links (n(last xs \<mapsto> x)) (pd(x := None)) (xs @ x # ys)"
proof (induction xs)
  case (Cons a xs)
  show ?case
  proof (cases "xs = []")
    case True
    with Cons.prems have l: "links n pd (x # ys)" "a \<notin> set (x # ys)" "x \<notin> set ys" by simp_all
    have "links (n(a \<mapsto> x)) (pd(x := None)) (x # ys)"
      by (subst links_cong [of "x # ys" _ n _ pd]) (use l in auto)
    with True show ?thesis by (simp add: fun_upd_def)
  next
    case False
    then obtain b zs where xs: "xs = b # zs" by (cases xs) auto
    have "links n pd (xs @ x # ys)" using Cons.prems(1) xs by simp
    then have "links (n(last xs \<mapsto> x)) (pd(x := None)) (xs @ x # ys)"
      by (rule Cons.IH) (use Cons.prems(3) False in auto)
    moreover have "a \<noteq> last xs" "x \<noteq> b" using Cons.prems(3) xs by (auto split: if_splits)
    ultimately show ?thesis using xs Cons.prems(1) by (simp add: fun_upd_def)
  qed
qed simp

section \<open>Every step keeps the invariant\<close>

lemma minv_init: "minv ncclIntruQueueMpscConstruct"
  by (simp add: minv_defs head_ok_def ncclIntruQueueMpscConstruct_def)

lemma links_snoc_pending:
  assumes "links n pd xs" "xs \<noteq> []" "x \<notin> set xs"
  shows "links (n(x := None)) (pd(x \<mapsto> (AtNext (last xs), d))) (xs @ [x])"
  using assms
proof (induction xs)
  case (Cons a xs)
  show ?case
  proof (cases "xs = []")
    case True
    with Cons.prems show ?thesis by simp
  next
    case False
    then obtain b zs where xs: "xs = b # zs" by (cases xs) auto
    have "links (n(x := None)) (pd(x \<mapsto> (AtNext (last xs), d))) (xs @ [x])"
      by (rule Cons.IH) (use Cons.prems xs in auto)
    with Cons.prems xs show ?thesis by (auto simp: fun_upd_def)
  qed
qed simp

lemma minv_exchange:
  assumes inv: "minv s" and x: "x \<notin> set (m_gen s @ m_cur s)"
  shows "minv (enqueue_exchange x s)"
proof -
  let ?n = "(m_next s)(x := None)"
  let ?p = "(m_pend s)(x \<mapsto> (case m_tail s of TObj p \<Rightarrow> AtNext p | _ \<Rightarrow> AtHead, m_tail s = T1_waiting))"
  have px: "m_pend s x = None" using inv x unfolding minv_def by (meson domIff subsetD)
  have "x \<notin> set (m_gen s)" "x \<notin> set (tl (m_gen s))" using x by (auto dest: in_set_tlD)
  then have gen: "links ?n ?p (m_gen s)"
    using inv by (subst links_cong [of _ _ "m_next s" _ "m_pend s"]) (auto simp: minv_def)
  have cur: "links ?n ?p (m_cur s @ [x])"
  proof (cases "m_cur s = []")
    case False
    then have "m_tail s = TObj (last (m_cur s))" using inv by (simp add: minv_def tail_ok_def)
    then show ?thesis using links_snoc_pending [of "m_next s" "m_pend s" "m_cur s" x] inv x False by (simp add: minv_def)
  qed simp
  have ph: "phase_ok (m_phase s) (enqueue_exchange x s)"
  proof -
    have "phase_ok (m_phase s) s" "tail_ok s" using inv by (simp_all add: minv_def)
    then show ?thesis using x px
      by (cases "m_phase s"; cases "m_cur s")
        (auto simp: enqueue_exchange_def head_ok_def tail_ok_def is_obj_def split: mtail.splits)
  qed
  have "wake_ok s" using inv by (simp add: minv_def)
  then have "wake_ok (enqueue_exchange x s)"
    using px by (cases "m_cur s = []") (auto simp: enqueue_exchange_def wake_ok_def owes_new owes_keep simp del: fun_upd_apply)
  then show ?thesis
    using inv x gen cur ph by (auto simp: minv_def enqueue_exchange_def tail_ok_def)
qed

lemma pending_place:
  assumes inv: "minv s" and p: "m_pend s x = Some (sl, d)"
  obtains ys where "sl = AtHead" "m_cur s = x # ys"
  | xs ys where "xs \<noteq> []" "m_gen s = xs @ x # ys" "sl = AtNext (last xs)"
  | xs ys where "xs \<noteq> []" "m_cur s = xs @ x # ys" "sl = AtNext (last xs)"
proof -
  have ph: "phase_ok (m_phase s) s" and x: "x \<in> set (m_gen s) \<or> x \<in> set (m_cur s)"
    and l: "links (m_next s) (m_pend s) (m_gen s)" "links (m_next s) (m_pend s) (m_cur s)"
    using inv domI [of "m_pend s" x, OF p] unfolding minv_def by auto
  have gen: "m_gen s = x # ys \<Longrightarrow> False" for ys using ph p by (cases "m_phase s") (auto simp: Cons_eq_append_conv)
  have cur: "m_cur s = x # ys \<Longrightarrow> sl = AtHead" for ys using ph p by (cases "m_phase s") (auto simp: head_ok_def)
  from x show thesis
  proof
    assume "x \<in> set (m_gen s)"
    then obtain xs ys where g: "m_gen s = xs @ x # ys" by (auto simp: in_set_conv_decomp)
    with gen have "xs \<noteq> []" by auto
    with g l(1) p show thesis using that(2) links_pending by metis
  next
    assume "x \<in> set (m_cur s)"
    then obtain xs ys where c: "m_cur s = xs @ x # ys" by (auto simp: in_set_conv_decomp)
    show thesis
    proof (cases "xs = []")
      case True
      with c cur show thesis using that(1) by auto
    next
      case False
      with c l(2) p show thesis using that(3) links_pending by metis
    qed
  qed
qed

lemma wake_store: "wake_ok s \<Longrightarrow> m_pend s x = Some (sl, duty) \<Longrightarrow> wake_ok (enqueue_store x sl duty s)"
  by (cases sl; cases duty) (auto simp: enqueue_store_def wake_ok_def owes_clear simp del: fun_upd_apply)

lemma minv_store:
  assumes inv: "minv s" and p: "m_pend s x = Some (sl, duty)"
  shows "minv (enqueue_store x sl duty s)"
proof -
  have d: "distinct (m_gen s @ m_cur s)" and dom: "dom (m_pend s) \<subseteq> set (m_gen s @ m_cur s)"
    and l: "links (m_next s) (m_pend s) (m_gen s)" "links (m_next s) (m_pend s) (m_cur s)"
    and ph: "phase_ok (m_phase s) s" and wk: "wake_ok (enqueue_store x sl duty s)"
    using inv wake_store [OF _ p] unfolding minv_def by blast+
  let ?p = "(m_pend s)(x := None)"
  have frame: "links (m_next s) ?p zs = links (m_next s) (m_pend s) zs" if "x \<notin> set (tl zs)" for zs
    using that by (intro links_cong) auto
  from inv p show ?thesis
  proof (cases rule: pending_place)
    case (1 ys)
    then have "x \<notin> set (tl (m_gen s))" "x \<notin> set (tl (m_cur s))" using d by (auto dest: in_set_tlD)
    with l frame have "links (m_next s) ?p (m_gen s)" "links (m_next s) ?p (m_cur s)" by auto
    moreover have "phase_ok (m_phase s) (enqueue_store x sl duty s)"
      using ph p 1 by (cases "m_phase s") (auto simp: enqueue_store_def head_ok_def)
    ultimately show ?thesis
      using inv wk dom 1 by (auto simp: minv_def enqueue_store_def tail_ok_def)
  next
    case (2 xs ys)
    let ?n = "(m_next s)(last xs \<mapsto> x)"
    have "links ?n ?p (m_gen s)" using links_store [of "m_next s" "m_pend s" xs x ys] l(1) d 2 by auto
    moreover have "last xs \<in> set (m_gen s)" using 2 by simp
    then have "last xs \<notin> set (m_cur s)" using d unfolding distinct_append by blast
    then have "links ?n ?p (m_cur s)"
      using l(2) d 2 by (subst links_cong [of _ _ "m_next s" _ "m_pend s"]) (auto dest: in_set_tlD)
    moreover have "phase_ok (m_phase s) (enqueue_store x sl duty s)"
      using ph p d 2 by (cases "m_phase s") (auto simp: enqueue_store_def head_ok_def split: list.splits)
    ultimately show ?thesis
      using inv wk dom 2(3) by (auto simp: minv_def enqueue_store_def tail_ok_def)
  next
    case (3 xs ys)
    let ?n = "(m_next s)(last xs \<mapsto> x)"
    have "links ?n ?p (m_cur s)" using links_store [of "m_next s" "m_pend s" xs x ys] l(2) d 3 by auto
    moreover have "last xs \<in> set (m_cur s)" using 3 by simp
    then have "last xs \<notin> set (m_gen s)" using d unfolding distinct_append by blast
    then have "links ?n ?p (m_gen s)"
      using l(1) d 3 by (subst links_cong [of _ _ "m_next s" _ "m_pend s"]) (auto dest: in_set_tlD)
    moreover have "phase_ok (m_phase s) (enqueue_store x sl duty s)"
      using ph p d 3 by (cases "m_phase s") (auto simp: enqueue_store_def head_ok_def split: list.splits)
    ultimately show ?thesis
      using inv wk dom 3(3) by (auto simp: minv_def enqueue_store_def tail_ok_def)
  qed
qed

lemma minv_read_head:
  assumes "minv s" "m_phase s = Idle" "m_head s = Some hd0" "fin \<in> {T0, T2_abandoned}"
  shows "minv (s\<lparr> m_phase := GotHead hd0 fin \<rparr>)"
  using assms by (cases "m_cur s") (auto simp: minv_defs head_ok_def)

lemma links_walk:
  assumes "links n pd (col @ rest)" "col \<noteq> []" "n (last col) = Some x1" "distinct (col @ rest)"
  shows "\<exists>rest'. rest = x1 # rest' \<and> pd x1 = None"
  using assms
proof (induction col)
  case (Cons a col)
  show ?case
  proof (cases "col = []")
    case True
    with Cons.prems show ?thesis by (cases rest) auto
  next
    case False
    then obtain b zs where "col = b # zs" by (cases col) auto
    with Cons False show ?thesis by auto
  qed
qed simp

lemma minv_walk:
  assumes inv: "minv s" and w: "m_phase s = Walk col t" "m_next s (last col) = Some x1"
  shows "minv (consumer_walk col t x1 s)"
proof -
  obtain rest where r: "m_gen s = col @ rest" "col \<noteq> []" using inv w by (auto simp: minv_def)
  then obtain rest' where "rest = x1 # rest'" "m_pend s x1 = None"
    using links_walk [of "m_next s" "m_pend s" col rest x1] inv w by (auto simp: minv_def)
  with inv w r show ?thesis by (auto simp: minv_defs consumer_walk_def)
qed

lemma walk_complete:
  assumes inv: "minv s" and w: "m_phase s = Walk col t" "last col = t"
  shows "m_gen s = col"
proof -
  obtain rest where r: "m_gen s = col @ rest" "col \<noteq> []" "t = last (m_gen s)" using inv w by (auto simp: minv_def)
  have "distinct (col @ rest)" using inv r(1) by (auto simp: minv_def)
  then have "rest = []" using r w(2) by (cases rest rule: rev_cases) (auto dest: last_in_set)
  with r show ?thesis by simp
qed

lemma minv_return:
  assumes inv: "minv s" and w: "m_phase s = Walk col t" "last col = t"
  shows "minv (consumer_return col s)"
proof -
  note g = walk_complete [OF assms]
  have "\<forall>c \<in> set col. m_pend s c = None" using inv w by (auto simp: minv_def)
  then have "dom (m_pend s) \<inter> set col = {}" by auto
  then have "dom (m_pend s) \<subseteq> set (m_cur s)" using inv g unfolding minv_def set_append by blast
  with inv w g show ?thesis by (auto simp: minv_defs consumer_return_def)
qed

lemma minv_notify: "minv s \<Longrightarrow> minv (enqueue_notify s)"
  by (cases "m_phase s") (auto simp: minv_defs enqueue_notify_def)

lemma minv_sleep:
  "minv s \<Longrightarrow> m_phase s = Idle \<Longrightarrow> m_tail s \<in> {T0, T1_waiting} \<Longrightarrow>
   minv (s\<lparr> m_tail := T1_waiting, m_phase := Asleep, m_signal := False \<rparr>)"
  by (auto simp: minv_defs split: if_splits)

lemma minv_wake: "minv s \<Longrightarrow> m_phase s = Asleep \<Longrightarrow> minv (s\<lparr> m_phase := Idle \<rparr>)"
  by (auto simp: minv_defs)

lemma minv_abandon: "minv s \<Longrightarrow> m_phase s = Idle \<Longrightarrow> m_tail s = T0 \<Longrightarrow> minv (s\<lparr> m_tail := T2_abandoned \<rparr>)"
  by (auto simp: minv_defs split: if_splits)

lemma minv_clear: "minv s \<Longrightarrow> m_phase s = GotHead hd0 fin \<Longrightarrow> minv (consumer_clear hd0 fin s)"
  by (auto simp: minv_def tail_ok_def wake_ok_def consumer_clear_def)

lemma minv_take:
  assumes inv: "minv s" and c: "m_phase s = Cleared hd0 fin" "m_tail s = TObj t"
  shows "minv (consumer_exchange hd0 fin t s)"
proof -
  have f: "t = last (m_cur s)" "m_cur s \<noteq> []" "hd (m_cur s) = hd0"
    using inv c by (auto simp: minv_defs split: if_splits)
  then have "\<exists>rest. m_cur s = [hd0] @ rest" by (cases "m_cur s") auto
  with inv c f(1) show ?thesis by (auto simp: minv_defs head_ok_def consumer_exchange_def)
qed

lemmas minv_steps = minv_exchange minv_store minv_notify minv_sleep minv_wake minv_abandon minv_read_head
  minv_clear minv_take minv_walk minv_return

lemma minv_step: "mstep s s' \<Longrightarrow> minv s \<Longrightarrow> minv s'"
  by (induction rule: mstep.induct) (rule minv_steps; assumption)+

lemma mreach_minv: "mreach s \<Longrightarrow> minv s"
  by (induction rule: mreach.induct) (auto intro: minv_init minv_step)

section \<open>Properties\<close>

text \<open>When nothing is pending, the links are complete: the list can be followed to its end.\<close>

lemma links_chain: "links n pd xs \<Longrightarrow> \<forall>x \<in> set (tl xs). pd x = None \<Longrightarrow> xs \<noteq> [] \<Longrightarrow> chain n (Some (hd xs)) xs"
  by (induction xs rule: induct_list012) auto

lemma links_gap:
  "links n pd (xs @ b # ys) \<Longrightarrow> xs \<noteq> [] \<Longrightarrow> n (last xs) = None \<Longrightarrow> \<exists>d. pd b = Some (AtNext (last xs), d)"
proof (induction xs)
  case (Cons a xs)
  then show ?case by (cases xs) auto
qed simp

text \<open>C5 the concurrent queue loses nothing, duplicates nothing and keeps the order: in every reachable state, under
  any interleaving of producers and the consumer, the objects returned so far are a prefix of the objects
  enqueued, in the order of the producers' exchanges, and the rest is exactly what the consumer is walking over
  followed by what is in the queue. The queue reports empty exactly when nothing is in it.\<close>

theorem mpsc_no_loss:
  assumes "mreach s"
  shows "m_order s = m_out s @ m_gen s @ m_cur s \<and> distinct (m_gen s @ m_cur s)
    \<and> (ncclIntruQueueMpscEmpty s \<longleftrightarrow> m_cur s = [])"
  using mreach_minv [OF assms] by (auto simp: minv_def tail_ok_def ncclIntruQueueMpscEmpty_def is_obj_def)

text \<open>C34 what \<open>DequeueAll\<close> and \<open>Abandon\<close> return is a complete list: when the walk ends, following the next pointers
  from the returned head visits every object taken off by the exchange, in order, and ends in null, even
  though producers were still linking them when the consumer took them.\<close>

theorem mpsc_returned_list:
  assumes "mreach s" "m_phase s = Walk col t" "last col = t"
  shows "chain (m_next s) (Some (hd col)) col \<and> m_gen s = col"
proof -
  have inv: "minv s" using assms(1) by (rule mreach_minv)
  then have g: "m_gen s = col" using assms(2,3) by (rule walk_complete)
  have "links (m_next s) (m_pend s) col" "col \<noteq> []" "\<forall>c \<in> set col. m_pend s c = None"
    using inv assms(2) g by (auto simp: minv_def)
  then show ?thesis using g by (auto intro!: links_chain dest: in_set_tlD)
qed

text \<open>C35 no wake-up is lost and the consumer cannot get stuck: while it sleeps and an object is in the queue, it has been
  notified or a producer still has a store or a notification to do; while it walks and the next pointer is still
  null, the producer of the next object has its store pending.\<close>

theorem mpsc_progress:
  assumes "mreach s"
  shows "(m_phase s = Asleep \<and> m_cur s \<noteq> [] \<longrightarrow> m_signal s \<or> 0 < m_duties s \<or> (\<exists>x sl. m_pend s x = Some (sl, True)))
    \<and> (\<forall>col t. m_phase s = Walk col t \<and> last col \<noteq> t \<and> m_next s (last col) = None \<longrightarrow>
         (\<exists>x d. m_pend s x = Some (AtNext (last col), d)))"
proof (intro conjI allI impI)
  have inv: "minv s" using assms by (rule mreach_minv)
  show "m_signal s \<or> 0 < m_duties s \<or> (\<exists>x sl. m_pend s x = Some (sl, True))"
    if "m_phase s = Asleep \<and> m_cur s \<noteq> []"
    using inv that by (auto simp: minv_def wake_ok_def owes_def)
  fix col t
  assume w: "m_phase s = Walk col t \<and> last col \<noteq> t \<and> m_next s (last col) = None"
  then obtain rest where r: "m_gen s = col @ rest" "col \<noteq> []" "t = last (m_gen s)"
    using inv by (auto simp: minv_def)
  with w obtain b bs where "rest = b # bs" by (cases rest) auto
  then have "links (m_next s) (m_pend s) (col @ b # bs)" using inv r by (simp add: minv_def)
  then show "\<exists>x d. m_pend s x = Some (AtNext (last col), d)"
    using links_gap r(2) w by blast
qed

subsection \<open>An execution\<close>

definition example_run :: mstate where
  "example_run = consumer_exchange 7 T0 7 (consumer_clear 7 T0 ((enqueue_store 7 AtHead False
     (enqueue_exchange 7 ncclIntruQueueMpscConstruct))\<lparr> m_phase := GotHead 7 T0 \<rparr>))"

lemmas example_defs = enqueue_exchange_def enqueue_store_def consumer_clear_def consumer_exchange_def
  ncclIntruQueueMpscConstruct_def

lemma example_reach: "mreach example_run"
proof -
  let ?s1 = "enqueue_exchange 7 ncclIntruQueueMpscConstruct"
  let ?s2 = "enqueue_store 7 AtHead False ?s1"
  let ?s3 = "?s2\<lparr> m_phase := GotHead 7 T0 \<rparr>"
  have "mstep ncclIntruQueueMpscConstruct ?s1" by (rule mstep.exchange) (simp add: example_defs)
  moreover have "mstep ?s1 ?s2" by (rule mstep.store) (simp add: example_defs)
  moreover have "mstep ?s2 ?s3" by (rule mstep.read_head) (simp_all add: example_defs)
  moreover have "mstep ?s3 (consumer_clear 7 T0 ?s3)" by (rule mstep.clear) simp
  moreover have "mstep (consumer_clear 7 T0 ?s3) example_run"
    unfolding example_run_def by (rule mstep.take) (simp_all add: example_defs)
  ultimately show ?thesis using mreach.init mreach.step by metis
qed

lemma example_phase: "m_phase example_run = Walk [7] 7"
  by (simp add: example_run_def consumer_exchange_def)

theorem mpsc_no_loss_witness: "m_order example_run = m_out example_run @ m_gen example_run @ m_cur example_run"
  using mpsc_no_loss [OF example_reach] by blast

theorem mpsc_returned_list_witness: "chain (m_next example_run) (Some (hd [7])) [7]"
  using mpsc_returned_list [OF example_reach example_phase] by simp

definition example_sleep :: mstate where
  "example_sleep = enqueue_exchange 7 (ncclIntruQueueMpscConstruct\<lparr> m_tail := T1_waiting, m_phase := Asleep, m_signal := False \<rparr>)"

lemma example_sleep_reach: "mreach example_sleep"
proof -
  let ?s1 = "ncclIntruQueueMpscConstruct\<lparr> m_tail := T1_waiting, m_phase := Asleep, m_signal := False \<rparr>"
  have "mstep ncclIntruQueueMpscConstruct ?s1" by (rule mstep.sleep) (simp_all add: example_defs)
  moreover have "mstep ?s1 example_sleep"
    unfolding example_sleep_def by (rule mstep.exchange) (simp add: example_defs)
  ultimately show ?thesis using mreach.init mreach.step by metis
qed

theorem mpsc_progress_witness:
  "m_signal example_sleep \<or> 0 < m_duties example_sleep \<or> (\<exists>x sl. m_pend example_sleep x = Some (sl, True))"
  by (rule mpsc_progress [OF example_sleep_reach, THEN conjunct1, THEN mp]) (simp add: example_sleep_def example_defs)

end
