(* ===== verification/NetIb_Types.thy ===== *)
theory NetIb_Types
  imports C_Runtime
begin

text \<open>
  The data of the InfiniBand transport, from \<open>net/transport/net_ib/common.h\<close>: one record per
  structure, with its fields in the order of the source, and the early-return discipline of its
  functions.

  An array is a list of the array's length. A pointer to an element of an array of the same
  communicator (\<open>activeQps\<close>, \<open>sendReqs\<close>, \<open>recvReqs\<close>) is the index of the element, and the null
  pointer is \<open>None\<close>. A pointer to an object of the verbs library is a number, its identity;
  a memory region also shows the two keys the code reads through the pointer. Mutexes,
  alignment and padding have no counterpart, and members that only the set-up of verbs objects touches (contexts, the
  memory regions of the internal buffers, the latency monitor) are left out. The members of the union of \<open>ncclIbRequest\<close> stand side by
  side: the request's type says which are in use, and a request of a type reads only those it has written.
\<close>

section \<open>Outcomes\<close>

text \<open>
  A call either returns a result code beside the state it leaves, or has no defined outcome: \<open>None\<close>
  stands for a division by zero, a null dereference or an index outside an array. \<open>chk\<close> is \<open>NCCLCHECK\<close>
  on such calls and \<open>chk_val\<close> the same for a callee that computes a value and changes nothing.
\<close>

type_synonym 's outcome = "(ncclResult \<times> 's) option"

definition ret :: "ncclResult \<Rightarrow> 's \<Rightarrow> 's outcome" where
  "ret r s = Some (r, s)"

definition chk :: "'s outcome \<Rightarrow> ('s \<Rightarrow> 's outcome) \<Rightarrow> 's outcome" where
  "chk c k = (case c of None \<Rightarrow> None | Some (r, s) \<Rightarrow> if nccl_ok r then k s else Some (r, s))"

definition chk_val :: "(ncclResult + 'a) \<Rightarrow> 's \<Rightarrow> ('a \<Rightarrow> 's outcome) \<Rightarrow> 's outcome" where
  "chk_val c s k = (case c of Inl r \<Rightarrow> Some (r, s) | Inr v \<Rightarrow> k v)"

text \<open>An access to \<open>a[i]\<close> for an \<open>int\<close> index.\<close>

definition at :: "'a list \<Rightarrow> int \<Rightarrow> 'a option" where
  "at xs i = (if 0 \<le> i \<and> i < int (length xs) then Some (xs ! nat i) else None)"

definition deref :: "'a option \<Rightarrow> ('a \<Rightarrow> 'b option) \<Rightarrow> 'b option" where
  "deref v k = (case v of None \<Rightarrow> None | Some a \<Rightarrow> k a)"

lemma ret_simps [simp]: "ret r s = Some (r', s') \<longleftrightarrow> r = r' \<and> s = s'" "ret r s \<noteq> None"
  by (auto simp: ret_def)

lemma chk_simps [simp]:
  "chk None k = None"
  "chk (ret ncclSuccess s) k = k s"
  "chk (Some (ncclSuccess, s)) k = k s"
  "chk (Some (ncclInProgress, s)) k = k s"
  "chk (Some (ncclInternalError, s)) k = Some (ncclInternalError, s)"
  "chk (Some (ncclSystemError, s)) k = Some (ncclSystemError, s)"
  "chk (Some (ncclRemoteError, s)) k = Some (ncclRemoteError, s)"
  by (simp_all add: chk_def ret_def nccl_ok_def)

lemma chk_Some: "chk (Some (r, s)) k = (if nccl_ok r then k s else Some (r, s))"
  by (simp add: chk_def)

lemma chk_val_simps [simp]: "chk_val (Inr v) s k = k v" "chk_val (Inl r) s k = Some (r, s)"
  by (simp_all add: chk_val_def)

lemma deref_simps [simp]: "deref None k = None" "deref (Some a) k = k a"
  by (simp_all add: deref_def)

lemma at_int [simp]: "at xs (int n) = (if n < length xs then Some (xs ! n) else None)"
  by (simp add: at_def)

lemma at_0 [simp]: "at xs 0 = (if xs = [] then None else Some (xs ! 0))"
  by (simp add: at_def)

lemma sum_two: "(\<Sum>d < (2 :: nat). f d) = f 0 + f 1"
  by (simp add: numeral_2_eq_2)

lemma upt_two: "[0..<2] = [0, 1 :: nat]"
  by (simp add: upt_rec)

lemma all_two: "(\<forall>d < (2 :: nat). P d) \<longleftrightarrow> P 0 \<and> P 1"
  by (auto simp: less_2_cases_iff)

section \<open>Constants\<close>

definition NCCL_NET_MAX_REQUESTS :: nat where "NCCL_NET_MAX_REQUESTS = 32"
definition NCCL_NET_IB_MAX_RECVS :: nat where "NCCL_NET_IB_MAX_RECVS = 8"
definition NET_IB_MAX_REQUESTS :: nat where "NET_IB_MAX_REQUESTS = NCCL_NET_MAX_REQUESTS * NCCL_NET_IB_MAX_RECVS"
definition NCCL_IB_MAX_DEVS_PER_NIC :: nat where "NCCL_IB_MAX_DEVS_PER_NIC = 8"
definition NCCL_IB_MAX_QPS :: nat where "NCCL_IB_MAX_QPS = 128"
definition NCCL_IB_RECV_WR_ID_DUMMY :: u64 where "NCCL_IB_RECV_WR_ID_DUMMY = - 1"
definition NCCL_IB_SPEED_UPDATE_WR_ID :: u64 where "NCCL_IB_SPEED_UPDATE_WR_ID = - 2"
definition NCCL_IB_FLUSH_REQ_WR_ID_OFFSET :: u64 where "NCCL_IB_FLUSH_REQ_WR_ID_OFFSET = 0x1000"

lemma max_requests: "NET_IB_MAX_REQUESTS = 256"
  by (simp add: NET_IB_MAX_REQUESTS_def NCCL_NET_MAX_REQUESTS_def NCCL_NET_IB_MAX_RECVS_def)

text \<open>\<open>enum ncclIbRequestMatchingScheme\<close>, stored in an \<open>int\<close> field.\<close>

definition BY_INDEX :: int where "BY_INDEX = 0"
definition BY_ID :: int where "BY_ID = 1"

datatype req_type = REQ_UNUSED | REQ_SEND | REQ_RECV | REQ_FLUSH | REQ_GIN_IPUT | REQ_GIN_IGET

datatype ncclIbProvider = IB_PROVIDER_NONE | IB_PROVIDER_MLX5 | IB_PROVIDER_MAX

datatype link_layer = LINK_UNSPECIFIED | LINK_INFINIBAND | LINK_ETHERNET

section \<open>Objects of the verbs library\<close>

record ibv_mr =
  mr_ptr :: nat
  mr_lkey :: u32
  mr_rkey :: u32

type_synonym ibv_gid = "u8 list"

record ibv_sge =
  sge_addr :: u64
  sge_length :: u32
  sge_lkey :: u32

datatype wr_opcode = WR_RDMA_WRITE | WR_RDMA_WRITE_WITH_IMM | WR_SEND_WITH_IMM | WR_RDMA_READ

text \<open>A send work request with the scatter-gather entry it points to; \<open>next\<close> is the position in the list.\<close>

record ibv_send_wr =
  wr_id :: u64
  wr_sge :: ibv_sge
  wr_num_sge :: nat
  wr_op :: wr_opcode
  wr_signaled :: bool
  wr_inline :: bool
  wr_imm_data :: u32
  wr_remote_addr :: u64
  wr_rkey :: u32

datatype wc_opcode = WC_SEND | WC_RDMA_WRITE | WC_RDMA_READ | WC_RECV | WC_RECV_RDMA_WITH_IMM | WC_OTHER

text \<open>The statuses of a completion the code tells apart; \<open>WC_STATUS_OTHER\<close> stands for all others.\<close>

datatype wc_status = WC_SUCCESS | WC_WR_FLUSH_ERR | WC_RETRY_EXC_ERR | WC_STATUS_OTHER

record ibv_wc =
  wc_wr_id :: u64
  wc_stat :: wc_status
  wc_op :: wc_opcode
  wc_byte_len :: u32
  wc_imm_data :: u32
  wc_qp_num :: u32

abbreviation wc_status_ok :: "ibv_wc \<Rightarrow> bool" where
  "wc_status_ok wc \<equiv> wc_stat wc = WC_SUCCESS"

section \<open>Devices\<close>

record ncclIbMr =
  mrc_addr :: u64
  mrc_pages :: u64
  mrc_refs :: int
  mrc_mr :: ibv_mr

record ncclIbMrCache =
  cache_slots :: "ncclIbMr list"
  cache_capacity :: int

record ncclNetVDeviceProps =
  ndevs :: int
  devs :: "int list"

record ncclIbMergedDev =
  md_vProps :: ncclNetVDeviceProps
  md_speed :: int
  md_railId :: int
  md_planeId :: int
  md_devName :: string

record ncclIbStats =
  fatalErrorCount :: int

record ncclIbGidInfo =
  gi_link_layer :: link_layer
  localGid :: ibv_gid
  localGidIndex :: int

text \<open>What the code reads of a port's attributes.\<close>

record ibv_port_attr =
  pa_active_mtu :: nat
  pa_link_layer :: link_layer
  pa_lid :: u16
  pa_flags :: u8
  pa_gid_tbl_len :: int
  pa_pkey_tbl_len :: u16

record ncclIbDev =
  dev_device :: int
  dev_guid :: u64
  dev_portNum :: u8
  dev_link :: link_layer
  dev_speed :: int
  dev_currSpeed :: u64
  dev_context :: nat
  dev_mrcContext :: nat
  dev_pdRefs :: int
  dev_pd :: "nat option"
  dev_devName :: string
  dev_pciPath :: string
  dev_realPort :: int
  dev_maxQp :: int
  dev_mrCache :: ncclIbMrCache
  dev_ar :: int
  dev_oooRqSize :: u32
  dev_portAttr :: ibv_port_attr
  dev_stats :: ncclIbStats
  dev_dmaBufSupported :: int
  dev_railId :: int
  dev_planeId :: int
  dev_planeIdx :: int
  dev_ibProvider :: ncclIbProvider
  dev_dataDirect :: int
  dev_gidInfo :: ncclIbGidInfo

record ncclIbRemoteSpeedBuf =
  rsb_counter :: u64
  speedGbps :: "u16 list"

record ncclIbDevInfo =
  di_lid :: u32
  di_ib_port :: u8
  di_mtu :: nat
  di_link_layer :: link_layer
  di_gid :: ibv_gid
  di_rkey :: u32
  di_remoteGid :: ibv_gid
  di_currSpeed :: u64
  di_remSpeedBufRkey :: u32

section \<open>Requests and queue pairs\<close>

record ncclIbRequestCompletionRecord =
  cr_sizes :: "int list"
  cr_completions :: "bool list"

text \<open>
  The \<open>base\<close> and \<open>sock\<close> pointers of a request lead back to its communicator and are left out.
  \<open>devBases[i]\<close> is \<open>True\<close> when the pointer is set: it always leads to device \<open>i\<close> of the same communicator.
  \<open>cmplsRecords\<close> is the slot of the communicator's completion records the pointer leads to.
\<close>

record ncclIbRequest =
  rq_type :: req_type
  rq_events :: "int list"
  rq_devBases :: "bool list"
  rq_id :: u64
  rq_nreqs :: int
  rq_size :: int
  rq_data :: u64
  rq_lkeys :: "u32 list"
  rq_sentData :: "bool list"
  rq_weights :: "u8 list"
  rq_cmplsRecords :: nat
  rq_aggSize :: int

record ncclIbNetCommDevBase =
  ibDevN :: int
  db_pd :: nat
  db_cq :: nat
  db_mrcCq :: nat
  db_gidInfo :: ncclIbGidInfo
  pkeyIndex :: int

record ncclIbSendFifo =
  sf_addr :: u64
  sf_size :: u64
  sf_rkeys :: "u32 list"
  sf_nreqs :: u32
  sf_tag :: u32
  sf_idx :: u64

datatype ibv_qp_state = QPS_RESET | QPS_INIT | QPS_RTR | QPS_RTS | QPS_ERR

datatype ibv_qp_type = QPT_RC | QPT_UC

record ncclIbQpInitAttr =
  ia_state :: ibv_qp_state
  ia_pkeyIndex :: int
  ia_portNum :: u8
  ia_qpAccessFlags :: int

record ncclIbQpRtrAttr =
  ra_mtu :: nat
  ra_linkLayer :: link_layer
  ra_tc :: u8
  ra_sl :: int
  ra_remoteQpNum :: u32
  ra_remoteLid :: u32
  ra_remoteGid :: ibv_gid
  ra_localIbPort :: u8
  ra_localPortFlags :: u8
  ra_localGid :: ibv_gid
  ra_localGidIndex :: int

record ncclIbQpRtsAttr =
  rts_timeout :: int
  rts_retryCnt :: int

text \<open>A queue pair of the transport is backed by a plain queue pair (\<open>qp_qp\<close>, with the type the code reads through the pointer) or by one of the MRC library; 0 is the null pointer.\<close>

record ncclIbQp =
  qp_qp :: nat
  qp_type :: ibv_qp_type
  qp_mrcQp :: nat
  qp_mrcQpHint :: nat
  qp_qpn :: u32
  qp_devIndex :: int
  qp_ece :: nat
  qp_eceSupported :: int
  qp_initAttr :: ncclIbQpInitAttr
  qp_rtrAttr :: ncclIbQpRtrAttr
  qp_rtsAttr :: ncclIbQpRtsAttr
  qp_remDevIdx :: int
  qp_maxInlineData :: u32

section \<open>Communicators\<close>

record ncclIbRemCompletionsRecords =
  rcr_elems :: "int list list"
  rcr_addr :: u64
  rcr_rkeys :: "u32 list"

record ncclIbSendCommDev =
  scd_base :: ncclIbNetCommDevBase
  scd_sge :: ibv_sge

type_synonym ncclIbMrHandle = "ibv_mr list"

text \<open>\<open>resiliency\<close> is whether the pointer to the resiliency context is set.\<close>

record ncclIbNetCommBase =
  vProps :: ncclNetVDeviceProps
  isSend :: bool
  reqs :: "ncclIbRequest list"
  qps :: "ncclIbQp list"
  activeQps :: "nat option list"
  fifoHead :: u64
  nqps :: int
  splitDataOnQps :: int
  ready :: int
  nRemDevs :: int
  remOooRq :: bool
  localOooRq :: bool
  recvMatchingScheme :: int
  nDataQps :: int
  remDevs :: "ncclIbDevInfo list"
  b_stats :: ncclIbStats
  resiliency :: bool
  speedChangeCounter :: u64
  totalSpeed :: u64
  weights :: "u8 list"
  devSpeeds :: "u64 list"

record ncclIbSendComm =
  sc_base :: ncclIbNetCommBase
  sc_ctsFifo :: "ncclIbSendFifo list list"
  sc_devs :: "ncclIbSendCommDev list"
  sc_sendReqs :: "nat option list list"
  sc_sendReqsCnt :: "int list"
  sc_remCmplsRecords :: ncclIbRemCompletionsRecords
  sc_ar :: int
  sc_remoteSpeedBuf :: ncclIbRemoteSpeedBuf
  sc_remoteSpeedCounter :: u64

record ncclIbGpuFlush =
  gf_sge :: ibv_sge
  gf_qp :: nat

record ncclIbRemCtsFifo =
  rcf_elems :: "ncclIbSendFifo list list"
  rcf_addr :: u64
  rcf_inline :: bool

record ncclIbRecvCommDev =
  rcd_base :: ncclIbNetCommDevBase
  rcd_gpuFlush :: ncclIbGpuFlush
  rcd_sge :: ibv_sge
  rcd_speedUpdateMr :: ibv_mr

record ncclIbRecvComm =
  rc_base :: ncclIbNetCommBase
  rc_devs :: "ncclIbRecvCommDev list"
  rc_recvReqs :: "nat option list"
  rc_remCtsFifo :: ncclIbRemCtsFifo
  rc_cmplsRecords :: "ncclIbRequestCompletionRecord list"
  rc_gpuFlushHostMem :: int
  rc_flushEnabled :: int
  rc_flushQpsCreated :: bool
  rc_prepostReceiveWorkRequests :: bool
  rc_ibRecvWorkRequest :: u64
  rc_remSpeedBufAddr :: u64
  rc_speedUpdateBuf :: ncclIbRemoteSpeedBuf
  rc_lastSentSpeeds :: "u16 list"
  rc_lastSentCounter :: u64
  rc_postedSpeedUpdate :: bool

section \<open>Process-wide state and parameters\<close>

text \<open>The globals of \<open>common.cc\<close> and the values the \<open>NCCL_PARAM\<close> functions return.\<close>

record ib_globals =
  ncclIbDevs :: "ncclIbDev list"
  ncclIbSpeedChangeCounter :: u64
  ncclIbRelaxedOrderingEnabled :: int

record ib_params =
  IbSplitDataOnQps :: int
  IbPrepostReceiveWorkRequests :: int
  IbAsyncEvents :: int
  IbEventBasedLb :: int
  IbEventBasedLbRemote :: int
  IbReceiverSideMatchingScheme :: int
  IbOooRq :: int
  IbResiliencyPortFailover :: int
  ncclIbArThreshold :: int

end
