(* ===== verification/NetIb_Common.thy ===== *)
theory NetIb_Common
  imports NetIb_Types
begin

text \<open>
  The helpers of \<open>net/transport/net_ib/common.h\<close> and \<open>common.cc\<close>: error statistics, initialisation of a
  communicator, device speeds and load-balancing weights, selection of queue pairs, and the handling of
  asynchronous device events.
\<close>

section \<open>Statistics\<close>

definition ncclIbStatsInit :: "ncclIbStats \<Rightarrow> ncclIbStats" where
  "ncclIbStatsInit st = st\<lparr> fatalErrorCount := 0 \<rparr>"

definition ncclIbStatsFatalError :: "ncclIbStats \<Rightarrow> ncclIbStats" where
  "ncclIbStatsFatalError st = st\<lparr> fatalErrorCount := fatalErrorCount st + 1 \<rparr>"

definition ncclIbDevFatalError :: "ncclIbDev \<Rightarrow> ncclIbDev" where
  "ncclIbDevFatalError dev = dev\<lparr> dev_stats := ncclIbStatsFatalError (dev_stats dev) \<rparr>"

definition ncclIbStatsCheckFatalCount :: "ib_params \<Rightarrow> ncclIbStats \<Rightarrow> ncclResult" where
  "ncclIbStatsCheckFatalCount p st =
     (if IbAsyncEvents p \<noteq> 0 \<and> fatalErrorCount st \<noteq> 0 then ncclSystemError else ncclSuccess)"

section \<open>Speeds and weights\<close>

text \<open>\<open>ncclIbGetNetCommDevBase\<close>: the per-device part of a send or a receive communicator.\<close>

definition ncclIbGetNetCommDevBase_send :: "ncclIbSendComm \<Rightarrow> int \<Rightarrow> ncclIbNetCommDevBase option" where
  "ncclIbGetNetCommDevBase_send comm devIndex = at (map scd_base (sc_devs comm)) devIndex"

definition ncclIbGetNetCommDevBase_recv :: "ncclIbRecvComm \<Rightarrow> int \<Rightarrow> ncclIbNetCommDevBase option" where
  "ncclIbGetNetCommDevBase_recv comm devIndex = at (map rcd_base (rc_devs comm)) devIndex"

definition lb_weight :: "ib_params \<Rightarrow> ncclIbNetCommBase \<Rightarrow> nat \<Rightarrow> u8 option" where
  "lb_weight p b d =
     (if IbEventBasedLb p \<noteq> 0 then
        (if totalSpeed b = 0 \<or> length (devSpeeds b) \<le> d then None
         else Some (ucast (devSpeeds b ! d * 100 div totalSpeed b)))
      else Some (word_of_int (100 div ndevs (vProps b))))"

fun lb_loop :: "ib_params \<Rightarrow> ncclIbNetCommBase \<Rightarrow> nat list \<Rightarrow> u8 list \<Rightarrow> u8 \<Rightarrow> (u8 list \<times> u8) option" where
  "lb_loop p b [] ws totalWeight = Some (ws, totalWeight)"
| "lb_loop p b (d # ds) ws totalWeight =
     deref (lb_weight p b d) (\<lambda>w. if length ws \<le> d then None else lb_loop p b ds (ws[d := w]) (totalWeight + w))"

definition ncclIbComputeLbWeights :: "ib_params \<Rightarrow> ncclIbNetCommBase \<Rightarrow> ncclIbNetCommBase option" where
  "ncclIbComputeLbWeights p b =
     (let n = ndevs (vProps b) in
      deref (lb_loop p b [0..<nat n] (weights b) 0) (\<lambda>(ws, totalWeight).
        if totalWeight < 100 then
          (if n \<le> 0 then None
           else Some (b\<lparr> weights := ws[nat (n - 1) := ws ! nat (n - 1) + (100 - totalWeight)] \<rparr>))
        else Some (b\<lparr> weights := ws \<rparr>)))"

text \<open>
  \<open>ncclIbComputeDevSpeeds\<close>: \<open>devBase\<close> is \<open>ncclIbGetNetCommDevBase\<close> of the communicator that \<open>b\<close> is the base of.
\<close>

definition dev_speed_of :: "ib_globals \<Rightarrow> (int \<Rightarrow> ncclIbNetCommDevBase option) \<Rightarrow> ncclIbNetCommBase \<Rightarrow> nat \<Rightarrow> u64 option" where
  "dev_speed_of g devBase b d =
     deref (devBase (int d)) (\<lambda>db.
     deref (at (qps b) (int d)) (\<lambda>q.
     deref (at (ncclIbDevs g) (ibDevN db)) (\<lambda>dev.
     deref (at (remDevs b) (qp_remDevIdx q)) (\<lambda>rem.
       let localSpeed = dev_currSpeed dev;
           remoteSpeed = (if di_currSpeed rem > 0 then di_currSpeed rem else localSpeed)
       in Some (min localSpeed remoteSpeed)))))"

fun speed_loop :: "ib_globals \<Rightarrow> (int \<Rightarrow> ncclIbNetCommDevBase option) \<Rightarrow> ncclIbNetCommBase \<Rightarrow> nat list \<Rightarrow> u64 list \<Rightarrow> u64
    \<Rightarrow> (u64 list \<times> u64) option" where
  "speed_loop g devBase b [] sp tot = Some (sp, tot)"
| "speed_loop g devBase b (d # ds) sp tot =
     deref (dev_speed_of g devBase b d) (\<lambda>s.
       if length sp \<le> d then None else speed_loop g devBase b ds (sp[d := s]) (tot + s))"

definition ncclIbComputeDevSpeeds ::
  "ib_globals \<Rightarrow> (int \<Rightarrow> ncclIbNetCommDevBase option) \<Rightarrow> ncclIbNetCommBase \<Rightarrow> ncclIbNetCommBase option" where
  "ncclIbComputeDevSpeeds g devBase b =
     deref (speed_loop g devBase b [0..<nat (ndevs (vProps b))] (devSpeeds b) 0)
       (\<lambda>(sp, tot). Some (b\<lparr> devSpeeds := sp, totalSpeed := tot \<rparr>))"

text \<open>The remote part of \<open>ncclIbCheckSpeedChanges\<close>: the speeds the receiver wrote, in Gb/s, become Mb/s.\<close>

fun remote_speeds :: "u16 list \<Rightarrow> nat list \<Rightarrow> ncclIbDevInfo list \<Rightarrow> ncclIbDevInfo list option" where
  "remote_speeds sp [] rd = Some rd"
| "remote_speeds sp (i # is) rd =
     (if length rd \<le> i \<or> length sp \<le> i then None
      else remote_speeds sp is (rd[i := (rd ! i)\<lparr> di_currSpeed := ucast (sp ! i) * 1000 \<rparr>]))"

definition ncclIbCheckSpeedChanges :: "ib_params \<Rightarrow> ib_globals \<Rightarrow> ncclIbSendComm \<Rightarrow> ncclIbSendComm option" where
  "ncclIbCheckSpeedChanges p g comm =
     (let b0 = sc_base comm;
          localChanged = (speedChangeCounter b0 \<noteq> ncclIbSpeedChangeCounter g);
          b1 = (if localChanged then b0\<lparr> speedChangeCounter := ncclIbSpeedChangeCounter g \<rparr> else b0);
          remoteChanged = (sc_remoteSpeedCounter comm \<noteq> rsb_counter (sc_remoteSpeedBuf comm));
          rd = (if remoteChanged
                then remote_speeds (speedGbps (sc_remoteSpeedBuf comm)) [0..<nat (nRemDevs b1)] (remDevs b1)
                else Some (remDevs b1));
          counter = (if remoteChanged then rsb_counter (sc_remoteSpeedBuf comm) else sc_remoteSpeedCounter comm)
      in deref rd (\<lambda>rd.
         let b2 = b1\<lparr> remDevs := rd \<rparr>;
             comm2 = comm\<lparr> sc_base := b2, sc_remoteSpeedCounter := counter \<rparr>
         in if localChanged \<or> remoteChanged
            then deref (ncclIbComputeDevSpeeds g (ncclIbGetNetCommDevBase_send comm2) b2) (\<lambda>b3.
                 deref (ncclIbComputeLbWeights p b3) (\<lambda>b4. Some (comm2\<lparr> sc_base := b4 \<rparr>)))
            else Some comm2))"

section \<open>Queue pairs\<close>

definition ncclIbCommBaseGetQpByIndex :: "ncclIbNetCommBase \<Rightarrow> int \<Rightarrow> int \<Rightarrow> ncclResult + nat option" where
  "ncclIbCommBaseGetQpByIndex b devIndex qpIndex =
     (if devIndex < 0 \<or> ndevs (vProps b) \<le> devIndex then Inl ncclInternalError
      else Inr (activeQps b ! nat (ndevs (vProps b) * qpIndex + devIndex)))"

definition ncclIbCommBaseGetNqpsPerRequest :: "ncclIbNetCommBase \<Rightarrow> ncclResult + int" where
  "ncclIbCommBaseGetNqpsPerRequest b =
     (if nDataQps b = -1 then Inl ncclInternalError
      else if nqps b = -1 then Inl ncclInternalError
      else Inr (if splitDataOnQps b = 1 then nqps b else nDataQps b))"

text \<open>
  \<open>ncclIbCommBaseGetQpForRequest\<close>: the index is computed in \<open>uint64_t\<close>. The second component is the
  index into \<open>activeQps\<close>, the first the queue pair the pointer there leads to.
\<close>

definition ncclIbCommBaseGetQpForRequest :: "ncclIbNetCommBase \<Rightarrow> u64 \<Rightarrow> u8 \<Rightarrow> ncclResult + nat \<times> nat" where
  "ncclIbCommBaseGetQpForRequest b rid qpIndex =
     (case ncclIbCommBaseGetNqpsPerRequest b of
        Inl r \<Rightarrow> Inl r
      | Inr nQps \<Rightarrow>
          (let outQpIndex = unat ((rid * word_of_int nQps + ucast qpIndex) mod word_of_int (nqps b)) in
           case activeQps b ! outQpIndex of
             None \<Rightarrow> Inl ncclInternalError
           | Some q \<Rightarrow> Inr (q, outQpIndex)))"

fun qp_num_loop :: "ncclIbNetCommBase \<Rightarrow> int \<Rightarrow> u32 \<Rightarrow> nat list \<Rightarrow> nat option" where
  "qp_num_loop b devIndex qpNum [] = None"
| "qp_num_loop b devIndex qpNum (j # js) =
     (let i = nat (ndevs (vProps b) * int j + devIndex) in
      if qp_qpn (qps b ! i) = qpNum then Some i else qp_num_loop b devIndex qpNum js)"

definition ncclIbCommBaseGetQpByQpNum :: "ncclIbNetCommBase \<Rightarrow> int \<Rightarrow> u32 \<Rightarrow> ncclResult + nat" where
  "ncclIbCommBaseGetQpByQpNum b devIndex qpNum =
     (if devIndex < 0 \<or> ndevs (vProps b) \<le> devIndex then Inl ncclInternalError
      else (case qp_num_loop b devIndex qpNum [0..<nat (nqps b div ndevs (vProps b))] of
              None \<Rightarrow> Inl ncclInternalError | Some i \<Rightarrow> Inr i))"

section \<open>Initialising a communicator\<close>

definition zero_gid :: ibv_gid where "zero_gid = replicate 16 0"

definition zero_initAttr :: ncclIbQpInitAttr where
  "zero_initAttr = \<lparr> ia_state = QPS_RESET, ia_pkeyIndex = 0, ia_portNum = 0, ia_qpAccessFlags = 0 \<rparr>"

definition zero_rtrAttr :: ncclIbQpRtrAttr where
  "zero_rtrAttr = \<lparr> ra_mtu = 0, ra_linkLayer = LINK_UNSPECIFIED, ra_tc = 0, ra_sl = 0, ra_remoteQpNum = 0,
     ra_remoteLid = 0, ra_remoteGid = zero_gid, ra_localIbPort = 0, ra_localPortFlags = 0, ra_localGid = zero_gid,
     ra_localGidIndex = 0 \<rparr>"

definition zero_rtsAttr :: ncclIbQpRtsAttr where
  "zero_rtsAttr = \<lparr> rts_timeout = 0, rts_retryCnt = 0 \<rparr>"

definition reset_qp :: "ncclIbQp \<Rightarrow> ncclIbQp" where
  "reset_qp q = q\<lparr> qp_devIndex := -1, qp_remDevIdx := -1, qp_eceSupported := 0, qp_ece := 0,
     qp_initAttr := zero_initAttr, qp_rtrAttr := zero_rtrAttr, qp_rtsAttr := zero_rtsAttr \<rparr>"

text \<open>
  \<open>ncclIbResiliencyInit\<close> is a parameter here: its result code and whether it leaves a context.
\<close>

definition ncclIbBaseCommInit ::
  "ib_params \<Rightarrow> ncclResult \<times> bool \<Rightarrow> ncclIbNetCommBase \<Rightarrow> bool \<Rightarrow> ncclIbNetCommBase outcome" where
  "ncclIbBaseCommInit p resInit b send =
     (let b1 = b\<lparr> qps := map reset_qp (qps b), activeQps := map Some [0..<NCCL_IB_MAX_QPS],
            nqps := -1, splitDataOnQps := IbSplitDataOnQps p, nDataQps := -1, isSend := send, ready := 0,
            speedChangeCounter := 0, totalSpeed := 0,
            weights := replicate NCCL_IB_MAX_DEVS_PER_NIC 0, devSpeeds := replicate NCCL_IB_MAX_DEVS_PER_NIC 0 \<rparr>
      in chk (ret (fst resInit) (b1\<lparr> resiliency := snd resInit \<rparr>)) (\<lambda>b2.
         let scheme = (if IbReceiverSideMatchingScheme p = -2 then BY_INDEX else IbReceiverSideMatchingScheme p);
             scheme' = (if IbOooRq p \<noteq> 0 \<or> IbResiliencyPortFailover p = 1 \<or> IbPrepostReceiveWorkRequests p = 1
                        then BY_ID else scheme)
         in ret ncclSuccess (b2\<lparr> recvMatchingScheme := scheme' \<rparr>)))"

definition lift_recv :: "ncclIbRecvComm \<Rightarrow> ncclIbNetCommBase outcome \<Rightarrow> ncclIbRecvComm outcome" where
  "lift_recv comm c = map_option (\<lambda>(r, b). (r, comm\<lparr> rc_base := b \<rparr>)) c"

definition lift_send :: "ncclIbSendComm \<Rightarrow> ncclIbNetCommBase outcome \<Rightarrow> ncclIbSendComm outcome" where
  "lift_send comm c = map_option (\<lambda>(r, b). (r, comm\<lparr> sc_base := b \<rparr>)) c"

definition ncclIbRecvCommInit :: "ib_params \<Rightarrow> ncclResult \<times> bool \<Rightarrow> ncclIbRecvComm \<Rightarrow> ncclIbRecvComm outcome" where
  "ncclIbRecvCommInit p resInit comm =
     chk (lift_recv comm (ncclIbBaseCommInit p resInit (rc_base comm) False)) (\<lambda>comm.
       let pre = (if IbPrepostReceiveWorkRequests p = -2 then False else IbPrepostReceiveWorkRequests p \<noteq> 0);
           pre' = (if resiliency (rc_base comm) then True else pre);
           pre'' = (if IbOooRq p \<noteq> 0 then True else pre')
       in ret ncclSuccess (comm\<lparr> rc_ibRecvWorkRequest := NCCL_IB_RECV_WR_ID_DUMMY, rc_prepostReceiveWorkRequests := pre'' \<rparr>))"

definition ncclIbSendCommInit :: "ib_params \<Rightarrow> ncclResult \<times> bool \<Rightarrow> ncclIbSendComm \<Rightarrow> ncclIbSendComm outcome" where
  "ncclIbSendCommInit p resInit comm =
     chk (lift_send comm (ncclIbBaseCommInit p resInit (sc_base comm) True)) (ret ncclSuccess)"

section \<open>Device events\<close>

definition ncclIbGidInfoSnapshot :: "ncclIbNetCommDevBase \<Rightarrow> ncclIbDev \<Rightarrow> ncclIbNetCommDevBase" where
  "ncclIbGidInfoSnapshot base dev = base\<lparr> db_gidInfo := dev_gidInfo dev \<rparr>"

text \<open>
  \<open>ncclIbEventGidChange\<close>: the queries of the port and of the GID are parameters, each with the code
  and the value it returns. \<open>ncclIbGidInfoQuery\<close> writes the device's \<open>gidInfo\<close> itself.
\<close>

definition ncclIbEventGidChange ::
  "ncclResult \<times> ibv_port_attr \<Rightarrow> ncclResult \<times> ncclIbGidInfo \<Rightarrow> ncclIbDev \<Rightarrow> ncclResult \<times> ncclIbDev" where
  "ncclIbEventGidChange portQuery gidQuery dev =
     (if gi_link_layer (dev_gidInfo dev) \<noteq> LINK_ETHERNET then (ncclSuccess, dev)
      else if fst portQuery \<noteq> ncclSuccess then (fst portQuery, dev)
      else (let dev1 = dev\<lparr> dev_gidInfo := snd gidQuery \<rparr> in
            if fst gidQuery \<noteq> ncclSuccess then (fst gidQuery, dev1)
            else (ncclSuccess, dev1\<lparr> dev_portAttr := snd portQuery \<rparr>)))"

text \<open>The event types the switch of \<open>ncclIbAsyncThreadMain\<close> tells apart.\<close>

datatype async_event =
    EVENT_DEVICE_FATAL
  | EVENT_CQ_ERR nat
  | EVENT_QP_FATAL nat | EVENT_QP_REQ_ERR nat | EVENT_QP_ACCESS_ERR nat
  | EVENT_SRQ_ERR
  | EVENT_GID_CHANGE
  | EVENT_NON_FATAL
  | EVENT_COMM_EST
  | EVENT_UNKNOWN

text \<open>
  One turn of the loop of \<open>ncclIbAsyncThreadMain\<close>. The state is the device and the statistics the \<open>cq_context\<close>
  or \<open>qp_context\<close> of the reported object leads to: those of the communicator it was created for.
\<close>

definition async_event_step ::
  "ncclResult \<times> ibv_port_attr \<Rightarrow> ncclResult \<times> ncclIbGidInfo \<Rightarrow> async_event \<Rightarrow>
   ncclIbDev \<times> (nat \<Rightarrow> ncclIbStats) \<Rightarrow> ncclIbDev \<times> (nat \<Rightarrow> ncclIbStats)" where
  "async_event_step portQuery gidQuery ev st =
     (case st of (dev, stats) \<Rightarrow>
      (case ev of
         EVENT_DEVICE_FATAL \<Rightarrow> (ncclIbDevFatalError dev, stats)
       | EVENT_CQ_ERR c \<Rightarrow> (dev, stats(c := ncclIbStatsFatalError (stats c)))
       | EVENT_QP_FATAL c \<Rightarrow> (dev, stats(c := ncclIbStatsFatalError (stats c)))
       | EVENT_QP_REQ_ERR c \<Rightarrow> (dev, stats(c := ncclIbStatsFatalError (stats c)))
       | EVENT_QP_ACCESS_ERR c \<Rightarrow> (dev, stats(c := ncclIbStatsFatalError (stats c)))
       | EVENT_GID_CHANGE \<Rightarrow>
           (case ncclIbEventGidChange portQuery gidQuery dev of
              (r, dev1) \<Rightarrow> (if r \<noteq> ncclSuccess then ncclIbDevFatalError dev1 else dev1, stats))
       | _ \<Rightarrow> (dev, stats)))"

text \<open>The loop over the events the library delivers before it reports an error, which ends the thread.\<close>

fun ncclIbAsyncThreadMain ::
  "(async_event \<times> (ncclResult \<times> ibv_port_attr) \<times> (ncclResult \<times> ncclIbGidInfo)) list \<Rightarrow>
   ncclIbDev \<times> (nat \<Rightarrow> ncclIbStats) \<Rightarrow> ncclIbDev \<times> (nat \<Rightarrow> ncclIbStats)" where
  "ncclIbAsyncThreadMain [] st = st"
| "ncclIbAsyncThreadMain ((ev, pq, gq) # evs) st = ncclIbAsyncThreadMain evs (async_event_step pq gq ev st)"

section \<open>Parsing a GID\<close>

text \<open>\<open>be64toh(subnet_prefix) & 0xffff\<close> on the raw bytes: the last two bytes of the prefix; and the
  FLID, \<open>ntohs\<close> of the bytes 4 and 5.\<close>

definition be16 :: "u8 \<Rightarrow> u8 \<Rightarrow> u16" where
  "be16 hi lo = push_bit 8 (ucast hi) + ucast lo"

definition ncclIbExtractLocalSubnetPrefix :: "ibv_gid \<Rightarrow> u16" where
  "ncclIbExtractLocalSubnetPrefix gid = be16 (gid ! 6) (gid ! 7)"

definition ncclIbExtractFlid :: "ibv_gid \<Rightarrow> int" where
  "ncclIbExtractFlid gid = uint (be16 (gid ! 4) (gid ! 5))"

section \<open>The weights\<close>

lemma lb_loop_eq:
  assumes "\<forall>d < n. lb_weight p b d = Some (w d)" "n \<le> length ws" "k \<le> n"
  shows "lb_loop p b [k..<n] ws tot = Some (take k ws @ map w [k..<n] @ drop n ws, tot + sum_list (map w [k..<n]))"
  using assms(2,3)
proof (induction "n - k" arbitrary: k ws tot)
  case 0
  then show ?case by simp
next
  case (Suc m)
  then have k: "k < n" "[k..<n] = k # [Suc k..<n]" by (simp_all add: upt_conv_Cons)
  have "take (Suc k) (ws[k := w k]) = take k ws @ [w k]"
    using k(1) Suc.prems(1) by (simp add: take_Suc_conv_app_nth)
  moreover have "drop n (ws[k := w k]) = drop n ws" using k(1) by simp
  ultimately show ?case
    using Suc.hyps(1) [of "Suc k" "ws[k := w k]" "tot + w k"] Suc.hyps(2) Suc.prems k assms(1)
    by (simp add: add.assoc)
qed

lemma unat_sum_list:
  fixes w :: "nat \<Rightarrow> u8"
  shows "(\<Sum>d < n. unat (w d)) \<le> 100 \<Longrightarrow> unat (sum_list (map w [0..<n])) = (\<Sum>d < n. unat (w d))"
proof (induction n)
  case (Suc n)
  then have IH: "unat (sum_list (map w [0..<n])) = (\<Sum>d < n. unat (w d))" by simp
  have "unat (sum_list (map w [0..<n]) + w n) = unat (sum_list (map w [0..<n])) + unat (w n)"
    using Suc.prems IH by (intro unat_add_lem [THEN iffD1]) simp
  then show ?case using IH by simp
qed simp

text \<open>
  What the two branches of the loop have in common: when the weights of the loop add up to at most 100 the
  last device gets the rest.
\<close>

lemma compute_lb_weights:
  assumes w: "\<forall>d < n. lb_weight p b d = Some (w d)" and n: "ndevs (vProps b) = int n" "0 < n" "n \<le> length (weights b)"
    and le: "(\<Sum>d < n. unat (w d)) \<le> 100"
  shows "\<exists>b'. ncclIbComputeLbWeights p b = Some b' \<and> b' = b\<lparr> weights := weights b' \<rparr>
    \<and> length (weights b') = length (weights b) \<and> (\<Sum>d < n. unat (weights b' ! d)) = 100
    \<and> (\<forall>d < n - 1. weights b' ! d = w d) \<and> w (n - 1) \<le> weights b' ! (n - 1)"
proof -
  define ws tot where "ws = map w [0..<n] @ drop n (weights b)" and "tot = sum_list (map w [0..<n])"
  have loop: "lb_loop p b [0..<n] (weights b) 0 = Some (ws, tot)"
    using lb_loop_eq [OF w n(3), of 0 0] by (simp add: ws_def tot_def)
  have tot: "unat tot = (\<Sum>d < n. unat (w d))" unfolding tot_def by (rule unat_sum_list [OF le])
  have ws: "length ws = length (weights b)" "\<And>d. d < n \<Longrightarrow> ws ! d = w d"
    using n(3) by (simp_all add: ws_def nth_append)
  obtain m where m: "n = Suc m" using n(2) gr0_conv_Suc by blast
  have nn: "nat (ndevs (vProps b)) = n" "nat (ndevs (vProps b) - 1) = m" using n(1) m by simp_all
  have split: "(\<Sum>d < n. unat (w d)) = (\<Sum>d < m. unat (w d)) + unat (w m)" by (simp add: m)
  show ?thesis
  proof (cases "tot < 100")
    case True
    have u: "unat (w m + (100 - tot)) = unat (w m) + (100 - unat tot)"
    proof -
      have d: "unat (100 - tot) = 100 - unat tot" using True by (subst unat_sub) (auto simp: word_less_nat_alt word_le_nat_alt)
      have "unat (w m) + unat (100 - tot) < 2 ^ LENGTH(8)" using tot split le d True by (simp add: word_less_nat_alt)
      then have "unat (w m + (100 - tot)) = unat (w m) + unat (100 - tot)" by (rule unat_add_lem [THEN iffD1])
      with d show ?thesis by simp
    qed
    define b' where "b' = b\<lparr> weights := ws[m := w m + (100 - tot)] \<rparr>"
    have "ncclIbComputeLbWeights p b = Some b'"
      unfolding ncclIbComputeLbWeights_def Let_def nn loop using n(1,2) True ws(2) [of m] by (simp add: b'_def m)
    moreover have "(\<Sum>d < n. unat (weights b' ! d)) = 100"
    proof -
      have "(\<Sum>d < m. unat (weights b' ! d)) = (\<Sum>d < m. unat (w d))"
        using ws(2) by (intro sum.cong) (auto simp: b'_def m)
      moreover have "weights b' ! m = w m + (100 - tot)" using n(3) ws(1) by (simp add: b'_def m)
      ultimately show ?thesis using tot split u True by (simp add: m word_less_nat_alt)
    qed
    moreover have "\<forall>d < n - 1. weights b' ! d = w d" using ws(2) by (auto simp: b'_def m)
    moreover have "w (n - 1) \<le> weights b' ! (n - 1)"
      using n(3) ws(1) u by (simp add: b'_def m word_le_nat_alt)
    ultimately show ?thesis using ws(1) by (auto simp: b'_def)
  next
    case False
    then have hundred: "unat tot = 100" using tot le by (simp add: word_less_nat_alt)
    define b' where "b' = b\<lparr> weights := ws \<rparr>"
    have "ncclIbComputeLbWeights p b = Some b'"
      unfolding ncclIbComputeLbWeights_def Let_def nn loop using False by (simp add: b'_def)
    moreover have "(\<Sum>d < n. unat (weights b' ! d)) = 100"
      using hundred tot ws(2) by (simp add: b'_def)
    ultimately show ?thesis using ws n(2) by (auto simp: b'_def)
  qed
qed

lemma sum_floor_le:
  fixes s :: "nat \<Rightarrow> nat"
  shows "(\<Sum>d < n. s d * 100 div (\<Sum>d < n. s d)) \<le> 100"
proof -
  define t where "t = (\<Sum>d < n. s d)"
  have "(\<Sum>d < n. s d * 100 div t) * t \<le> (\<Sum>d < n. s d * 100)"
    unfolding sum_distrib_right by (rule sum_mono) simp
  also have "\<dots> = 100 * t" unfolding t_def sum_distrib_left by (simp add: mult.commute)
  finally have "(\<Sum>d < n. s d * 100 div t) * t \<le> 100 * t" .
  then show ?thesis by (cases "t = 0") (auto simp: t_def [symmetric])
qed

lemma lb_weight_speed:
  assumes "IbEventBasedLb p \<noteq> 0" "totalSpeed b \<noteq> 0" "d < length (devSpeeds b)"
    "unat (devSpeeds b ! d) * 100 < 2 ^ 64" "unat (devSpeeds b ! d) \<le> unat (totalSpeed b)"
  shows "\<exists>w. lb_weight p b d = Some w \<and> unat w = unat (devSpeeds b ! d) * 100 div unat (totalSpeed b)"
proof -
  define q where "q = devSpeeds b ! d * 100 div totalSpeed b"
  have "unat (devSpeeds b ! d * 100) = unat (devSpeeds b ! d) * 100"
    using assms(4) by (simp add: unat_mult_lem [THEN iffD1])
  then have q: "unat q = unat (devSpeeds b ! d) * 100 div unat (totalSpeed b)"
    by (simp add: q_def unat_div)
  have t: "0 < unat (totalSpeed b)" using assms(2) by (simp add: unat_gt_0)
  have "unat (devSpeeds b ! d) * 100 div unat (totalSpeed b) \<le> unat (totalSpeed b) * 100 div unat (totalSpeed b)"
    using assms(5) by (intro div_le_mono mult_le_mono1)
  also have "\<dots> = 100" using t by simp
  finally have "unat (devSpeeds b ! d) * 100 div unat (totalSpeed b) \<le> 100" .
  then have "unat (ucast q :: u8) = unat q"
    using q by (simp add: unsigned_ucast_eq take_bit_nat_eq_self)
  with q assms(1-3) show ?thesis by (auto simp: lb_weight_def q_def)
qed

lemma lb_weights_of_speeds:
  assumes "IbEventBasedLb p \<noteq> 0" "ndevs (vProps b) = int n" "0 < n" "n \<le> length (weights b)" "n \<le> length (devSpeeds b)"
    "unat (totalSpeed b) = (\<Sum>d < n. unat (devSpeeds b ! d))" "totalSpeed b \<noteq> 0"
    "\<forall>d < n. unat (devSpeeds b ! d) * 100 < 2 ^ 64"
  shows "\<exists>b'. ncclIbComputeLbWeights p b = Some b' \<and> b' = b\<lparr> weights := weights b' \<rparr>
    \<and> (\<Sum>d < n. unat (weights b' ! d)) = 100
    \<and> (\<forall>d < n - 1. unat (weights b' ! d) = unat (devSpeeds b ! d) * 100 div unat (totalSpeed b))
    \<and> unat (devSpeeds b ! (n - 1)) * 100 div unat (totalSpeed b) \<le> unat (weights b' ! (n - 1))"
proof -
  define f where "f d = unat (devSpeeds b ! d) * 100 div unat (totalSpeed b)" for d
  have "\<exists>w. lb_weight p b d = Some w \<and> unat w = f d" if "d < n" for d
  proof -
    have "unat (devSpeeds b ! d) \<le> unat (totalSpeed b)"
      unfolding assms(6) using that by (intro member_le_sum) auto
    then show ?thesis unfolding f_def using assms that by (intro lb_weight_speed) auto
  qed
  then obtain w where w: "\<forall>d < n. lb_weight p b d = Some (w d) \<and> unat (w d) = f d" by metis
  have "(\<Sum>d < n. unat (w d)) = (\<Sum>d < n. f d)" using w by (intro sum.cong) auto
  also have "\<dots> \<le> 100" unfolding f_def assms(6) by (rule sum_floor_le)
  finally have le: "(\<Sum>d < n. unat (w d)) \<le> 100" .
  have "\<forall>d < n. lb_weight p b d = Some (w d)" using w by blast
  from compute_lb_weights [OF this assms(2-4) le] obtain b' where b': "ncclIbComputeLbWeights p b = Some b'"
    "b' = b\<lparr> weights := weights b' \<rparr>" "(\<Sum>d < n. unat (weights b' ! d)) = 100"
    "\<forall>d < n - 1. weights b' ! d = w d" "w (n - 1) \<le> weights b' ! (n - 1)"
    by blast
  have "\<forall>d < n - 1. unat (weights b' ! d) = f d" using b'(4) w by simp
  moreover have "f (n - 1) \<le> unat (weights b' ! (n - 1))" using b'(5) w assms(3) by (simp add: word_le_nat_alt)
  ultimately show ?thesis using b' unfolding f_def by blast
qed

section \<open>Zeroed structures\<close>

text \<open>A communicator starts as zeroed memory (\<open>ncclIbMalloc\<close>).\<close>

definition zero_request :: ncclIbRequest where
  "zero_request = \<lparr> rq_type = REQ_UNUSED, rq_events = replicate 8 0, rq_devBases = replicate 8 False, rq_id = 0, rq_nreqs = 0,
     rq_size = 0, rq_data = 0, rq_lkeys = replicate 8 0, rq_sentData = replicate 128 False, rq_weights = replicate 8 0,
     rq_cmplsRecords = 0, rq_aggSize = 0 \<rparr>"

definition zero_qp :: ncclIbQp where
  "zero_qp = \<lparr> qp_qp = 0, qp_type = QPT_RC, qp_mrcQp = 0, qp_mrcQpHint = 0, qp_qpn = 0, qp_devIndex = 0, qp_ece = 0, qp_eceSupported = 0, qp_initAttr = zero_initAttr,
     qp_rtrAttr = zero_rtrAttr, qp_rtsAttr = zero_rtsAttr, qp_remDevIdx = 0, qp_maxInlineData = 0 \<rparr>"

definition zero_devInfo :: ncclIbDevInfo where
  "zero_devInfo = \<lparr> di_lid = 0, di_ib_port = 0, di_mtu = 0, di_link_layer = LINK_UNSPECIFIED, di_gid = zero_gid, di_rkey = 0,
     di_remoteGid = zero_gid, di_currSpeed = 0, di_remSpeedBufRkey = 0 \<rparr>"

definition zero_base :: ncclIbNetCommBase where
  "zero_base = \<lparr> vProps = \<lparr> ndevs = 0, devs = replicate 8 0 \<rparr>, isSend = False, reqs = replicate NET_IB_MAX_REQUESTS zero_request,
     qps = replicate NCCL_IB_MAX_QPS zero_qp, activeQps = replicate NCCL_IB_MAX_QPS None, fifoHead = 0, nqps = 0, splitDataOnQps = 0,
     ready = 0, nRemDevs = 0, remOooRq = False, localOooRq = False, recvMatchingScheme = 0, nDataQps = 0,
     remDevs = replicate 8 zero_devInfo, b_stats = \<lparr> fatalErrorCount = 0 \<rparr>, resiliency = False, speedChangeCounter = 0,
     totalSpeed = 0, weights = replicate 8 0, devSpeeds = replicate 8 0 \<rparr>"

definition zero_sge :: ibv_sge where "zero_sge = \<lparr> sge_addr = 0, sge_length = 0, sge_lkey = 0 \<rparr>"

definition zero_gidInfo :: ncclIbGidInfo where
  "zero_gidInfo = \<lparr> gi_link_layer = LINK_UNSPECIFIED, localGid = zero_gid, localGidIndex = 0 \<rparr>"

definition zero_devBase :: ncclIbNetCommDevBase where
  "zero_devBase = \<lparr> ibDevN = 0, db_pd = 0, db_cq = 0, db_mrcCq = 0, db_gidInfo = zero_gidInfo, pkeyIndex = 0 \<rparr>"

definition zero_fifo :: ncclIbSendFifo where
  "zero_fifo = \<lparr> sf_addr = 0, sf_size = 0, sf_rkeys = replicate 8 0, sf_nreqs = 0, sf_tag = 0, sf_idx = 0 \<rparr>"

definition zero_sendComm :: ncclIbSendComm where
  "zero_sendComm = \<lparr> sc_base = zero_base, sc_ctsFifo = replicate NET_IB_MAX_REQUESTS (replicate NCCL_NET_IB_MAX_RECVS zero_fifo),
     sc_devs = replicate 8 \<lparr> scd_base = zero_devBase, scd_sge = zero_sge \<rparr>,
     sc_sendReqs = replicate NET_IB_MAX_REQUESTS (replicate NCCL_NET_IB_MAX_RECVS None),
     sc_sendReqsCnt = replicate NET_IB_MAX_REQUESTS 0,
     sc_remCmplsRecords = \<lparr> rcr_elems = replicate NET_IB_MAX_REQUESTS (replicate NCCL_NET_IB_MAX_RECVS 0), rcr_addr = 0, rcr_rkeys = replicate 8 0 \<rparr>,
     sc_ar = 0, sc_remoteSpeedBuf = \<lparr> rsb_counter = 0, speedGbps = replicate 8 0 \<rparr>, sc_remoteSpeedCounter = 0 \<rparr>"

definition zero_recvComm :: ncclIbRecvComm where
  "zero_recvComm = \<lparr> rc_base = zero_base,
     rc_devs = replicate 8 \<lparr> rcd_base = zero_devBase, rcd_gpuFlush = \<lparr> gf_sge = zero_sge, gf_qp = 0 \<rparr>, rcd_sge = zero_sge,
       rcd_speedUpdateMr = \<lparr> mr_ptr = 0, mr_lkey = 0, mr_rkey = 0 \<rparr> \<rparr>,
     rc_recvReqs = replicate NET_IB_MAX_REQUESTS None,
     rc_remCtsFifo = \<lparr> rcf_elems = replicate NET_IB_MAX_REQUESTS (replicate NCCL_NET_IB_MAX_RECVS zero_fifo), rcf_addr = 0, rcf_inline = False \<rparr>,
     rc_cmplsRecords = replicate NET_IB_MAX_REQUESTS \<lparr> cr_sizes = replicate NCCL_NET_IB_MAX_RECVS 0, cr_completions = replicate NCCL_IB_MAX_QPS False \<rparr>,
     rc_gpuFlushHostMem = 0, rc_flushEnabled = 0, rc_flushQpsCreated = False, rc_prepostReceiveWorkRequests = False,
     rc_ibRecvWorkRequest = 0, rc_remSpeedBufAddr = 0, rc_speedUpdateBuf = \<lparr> rsb_counter = 0, speedGbps = replicate 8 0 \<rparr>,
     rc_lastSentSpeeds = replicate 8 0, rc_lastSentCounter = 0, rc_postedSpeedUpdate = False \<rparr>"

definition default_params :: ib_params where
  "default_params = \<lparr> IbSplitDataOnQps = 0, IbPrepostReceiveWorkRequests = 1, IbAsyncEvents = 1, IbEventBasedLb = 0,
     IbEventBasedLbRemote = 1, IbReceiverSideMatchingScheme = -2, IbOooRq = 0, IbResiliencyPortFailover = 0,
     ncclIbArThreshold = 8192 \<rparr>"

definition zero_portAttr :: ibv_port_attr where
  "zero_portAttr = \<lparr> pa_active_mtu = 0, pa_link_layer = LINK_UNSPECIFIED, pa_lid = 0, pa_flags = 0, pa_gid_tbl_len = 0, pa_pkey_tbl_len = 0 \<rparr>"

definition zero_dev :: ncclIbDev where
  "zero_dev = \<lparr> dev_device = 0, dev_guid = 0, dev_portNum = 0, dev_link = LINK_UNSPECIFIED, dev_speed = 0, dev_currSpeed = 0,
     dev_context = 0, dev_mrcContext = 0, dev_pdRefs = 0, dev_pd = None, dev_devName = [], dev_pciPath = [], dev_realPort = 0, dev_maxQp = 0,
     dev_mrCache = \<lparr> cache_slots = [], cache_capacity = 0 \<rparr>, dev_ar = 0, dev_oooRqSize = 0, dev_portAttr = zero_portAttr,
     dev_stats = \<lparr> fatalErrorCount = 0 \<rparr>, dev_dmaBufSupported = 0, dev_railId = 0, dev_planeId = 0, dev_planeIdx = 0,
     dev_ibProvider = IB_PROVIDER_NONE, dev_dataDirect = 0, dev_gidInfo = zero_gidInfo \<rparr>"

section \<open>Following the speeds\<close>

lemma speed_loop_eq:
  assumes "\<forall>d < n. dev_speed_of g db b d = Some (s d)" "n \<le> length sp" "k \<le> n"
  shows "speed_loop g db b [k..<n] sp tot = Some (take k sp @ map s [k..<n] @ drop n sp, tot + sum_list (map s [k..<n]))"
  using assms(2,3)
proof (induction "n - k" arbitrary: k sp tot)
  case 0
  then show ?case by simp
next
  case (Suc m)
  then have k: "k < n" "[k..<n] = k # [Suc k..<n]" by (simp_all add: upt_conv_Cons)
  have "take (Suc k) (sp[k := s k]) = take k sp @ [s k]"
    using k(1) Suc.prems(1) by (simp add: take_Suc_conv_app_nth)
  moreover have "drop n (sp[k := s k]) = drop n sp" using k(1) by simp
  ultimately show ?case
    using Suc.hyps(1) [of "Suc k" "sp[k := s k]" "tot + s k"] Suc.hyps(2) Suc.prems k assms(1)
    by (simp add: add.assoc)
qed

lemma unat_sum_list64:
  fixes s :: "nat \<Rightarrow> u64"
  shows "(\<Sum>d < n. unat (s d)) < 2 ^ 64 \<Longrightarrow> unat (sum_list (map s [0..<n])) = (\<Sum>d < n. unat (s d))"
proof (induction n)
  case (Suc n)
  then have IH: "unat (sum_list (map s [0..<n])) = (\<Sum>d < n. unat (s d))" by simp
  have "unat (sum_list (map s [0..<n]) + s n) = unat (sum_list (map s [0..<n])) + unat (s n)"
    using Suc.prems IH by (intro unat_add_lem [THEN iffD1]) simp
  then show ?case using IH by simp
qed simp

text \<open>
  \<open>lb_ready g comm n\<close>: the communicator is connected over \<open>n\<close> devices, so that everything the load
  balancing reads is there; no port is down and no speed reaches \<open>2^50\<close> Mb/s.
\<close>

definition lb_dev :: "ib_globals \<Rightarrow> ncclIbSendComm \<Rightarrow> nat \<Rightarrow> bool" where
  "lb_dev g comm d \<longleftrightarrow>
     (let q = qps (sc_base comm) ! d; i = ibDevN (scd_base (sc_devs comm ! d)); v = dev_currSpeed (ncclIbDevs g ! nat i) in
      d < length (sc_devs comm) \<and> d < length (qps (sc_base comm))
      \<and> 0 \<le> qp_remDevIdx q \<and> qp_remDevIdx q < int (length (remDevs (sc_base comm)))
      \<and> 0 \<le> i \<and> i < int (length (ncclIbDevs g)) \<and> 0 < v \<and> unat v < 2 ^ 50)"

definition lb_ready :: "ib_globals \<Rightarrow> ncclIbSendComm \<Rightarrow> nat \<Rightarrow> bool" where
  "lb_ready g comm n \<longleftrightarrow>
     ndevs (vProps (sc_base comm)) = int n \<and> 0 < n \<and> n \<le> 8 \<and> length (weights (sc_base comm)) = 8
     \<and> length (devSpeeds (sc_base comm)) = 8 \<and> nat (nRemDevs (sc_base comm)) \<le> length (remDevs (sc_base comm))
     \<and> nat (nRemDevs (sc_base comm)) \<le> length (speedGbps (sc_remoteSpeedBuf comm))
     \<and> (\<forall>d < n. lb_dev g comm d)"

lemma remote_speeds_Some:
  "(\<forall>i \<in> set is. i < length rd \<and> i < length sp) \<Longrightarrow> \<exists>rd'. remote_speeds sp is rd = Some rd'"
  by (induction "is" arbitrary: rd) (simp_all add: not_le)

lemma remote_speeds_nth:
  "remote_speeds sp is rd = Some rd' \<Longrightarrow> distinct is \<Longrightarrow>
   length rd' = length rd \<and>
   (\<forall>i < length rd. di_currSpeed (rd' ! i) = (if i \<in> set is then ucast (sp ! i) * 1000 else di_currSpeed (rd ! i)))"
proof (induction "is" arbitrary: rd)
  case (Cons j js)
  define rd1 where "rd1 = rd[j := (rd ! j)\<lparr> di_currSpeed := ucast (sp ! j) * 1000 \<rparr>]"
  have j: "j < length rd" "remote_speeds sp js rd1 = Some rd'" "j \<notin> set js"
    using Cons.prems by (simp_all add: rd1_def split: if_splits)
  have IH: "length rd' = length rd1"
    "\<forall>i < length rd1. di_currSpeed (rd' ! i) = (if i \<in> set js then ucast (sp ! i) * 1000 else di_currSpeed (rd1 ! i))"
    using Cons.IH [OF j(2)] Cons.prems(2) by simp_all
  have len: "length rd1 = length rd" by (simp add: rd1_def)
  have "di_currSpeed (rd' ! i) = (if i \<in> set (j # js) then ucast (sp ! i) * 1000 else di_currSpeed (rd ! i))"
    if "i < length rd" for i
  proof (cases "i = j")
    case True
    then show ?thesis using IH(2) [rule_format, of j] j(1,3) by (simp add: rd1_def)
  next
    case False
    then show ?thesis using IH(2) [rule_format, of i] that by (simp add: rd1_def)
  qed
  then show ?case using IH(1) len by simp
qed simp

lemma dev_speed_of_ready:
  assumes "lb_dev g comm d" "length (remDevs b) = length (remDevs (sc_base comm))" "qps b = qps (sc_base comm)"
  shows "\<exists>s. dev_speed_of g (\<lambda>i. at (map scd_base (sc_devs comm)) i) b d = Some s \<and> 0 < s \<and> unat s < 2 ^ 50
    \<and> s \<le> dev_currSpeed (ncclIbDevs g ! nat (ibDevN (scd_base (sc_devs comm ! d))))"
proof -
  define q i where "q = qps (sc_base comm) ! d" and "i = ibDevN (scd_base (sc_devs comm ! d))"
  define l where "l = dev_currSpeed (ncclIbDevs g ! nat i)"
  define rem where "rem = remDevs b ! nat (qp_remDevIdx q)"
  define s where "s = min l (if di_currSpeed rem > 0 then di_currSpeed rem else l)"
  have r: "d < length (sc_devs comm)" "d < length (qps (sc_base comm))" "0 \<le> qp_remDevIdx q"
    "qp_remDevIdx q < int (length (remDevs b))" "0 \<le> i" "i < int (length (ncclIbDevs g))" "0 < l" "unat l < 2 ^ 50"
    using assms(1,2) by (simp_all only: lb_dev_def Let_def q_def i_def l_def)
  have "0 < s" using r(7) by (auto simp: s_def min_def)
  moreover have le: "s \<le> l" by (simp add: s_def)
  moreover have "dev_speed_of g (\<lambda>i. at (map scd_base (sc_devs comm)) i) b d = Some s"
    unfolding dev_speed_of_def Let_def s_def rem_def assms(3)
    using r(1-6) by (simp add: at_def q_def [symmetric] i_def [symmetric] l_def [symmetric])
  moreover have "unat s < 2 ^ 50" using le r(8) by (simp add: word_le_nat_alt)
  ultimately show ?thesis unfolding l_def i_def by blast
qed

text \<open>The speed a device should have: that of its port, or that of the remote device at the other end of its queue pair when one is known and smaller. What the remote device announces
  counts from the moment its counter has moved.\<close>

definition port_speed :: "ib_globals \<Rightarrow> ncclIbSendComm \<Rightarrow> nat \<Rightarrow> nat" where
  "port_speed g comm d = unat (dev_currSpeed (ncclIbDevs g ! nat (ibDevN (scd_base (sc_devs comm ! d)))))"

definition peer_speed :: "ncclIbSendComm \<Rightarrow> nat \<Rightarrow> nat" where
  "peer_speed comm d =
     (let r = nat (qp_remDevIdx (qps (sc_base comm) ! d)) in
      if sc_remoteSpeedCounter comm \<noteq> rsb_counter (sc_remoteSpeedBuf comm) \<and> int r < nRemDevs (sc_base comm) then unat (speedGbps (sc_remoteSpeedBuf comm) ! r) * 1000
      else unat (di_currSpeed (remDevs (sc_base comm) ! r)))"

lemma dev_speed_of_value:
  assumes "lb_dev g comm d" "length (remDevs b) = length (remDevs (sc_base comm))" "qps b = qps (sc_base comm)"
    and "dev_speed_of g (\<lambda>i. at (map scd_base (sc_devs comm)) i) b d = Some s"
    and "unat (di_currSpeed (remDevs b ! nat (qp_remDevIdx (qps (sc_base comm) ! d)))) = r"
  shows "unat s = (if r = 0 then port_speed g comm d else min (port_speed g comm d) r)"
proof -
  define q i where "q = qps (sc_base comm) ! d" and "i = ibDevN (scd_base (sc_devs comm ! d))"
  define l where "l = dev_currSpeed (ncclIbDevs g ! nat i)"
  define rem where "rem = di_currSpeed (remDevs b ! nat (qp_remDevIdx q))"
  have rng: "d < length (sc_devs comm)" "d < length (qps (sc_base comm))" "0 \<le> qp_remDevIdx q" "qp_remDevIdx q < int (length (remDevs b))" "0 \<le> i" "i < int (length (ncclIbDevs g))"
    using assms(1,2) by (simp_all only: lb_dev_def Let_def q_def i_def)
  have "s = min l (if rem > 0 then rem else l)"
    using assms(4) rng unfolding dev_speed_of_def Let_def assms(3) rem_def l_def
    by (simp add: at_def q_def [symmetric] i_def [symmetric])
  moreover have "unat l = port_speed g comm d" by (simp add: port_speed_def l_def i_def)
  moreover have "unat rem = r" using assms(5) by (simp add: rem_def q_def)
  moreover have "unat (min l rem) = min (unat l) (unat rem)" by (simp add: min_def word_le_nat_alt)
  ultimately show ?thesis by (auto simp: word_gt_0 unat_eq_0)
qed

lemma compute_dev_speeds:
  assumes s: "\<forall>d < n. dev_speed_of g db b d = Some (s d)" and n: "ndevs (vProps b) = int n" "n \<le> length (devSpeeds b)"
    and bound: "\<forall>d < n. unat (s d) < 2 ^ 50" "n \<le> 8"
  shows "\<exists>b'. ncclIbComputeDevSpeeds g db b = Some b' \<and> b' = b\<lparr> devSpeeds := devSpeeds b', totalSpeed := totalSpeed b' \<rparr>
    \<and> length (devSpeeds b') = length (devSpeeds b) \<and> (\<forall>d < n. devSpeeds b' ! d = s d)
    \<and> unat (totalSpeed b') = (\<Sum>d < n. unat (s d))"
proof -
  define b' where "b' = b\<lparr> devSpeeds := map s [0..<n] @ drop n (devSpeeds b), totalSpeed := sum_list (map s [0..<n]) \<rparr>"
  have "(\<Sum>d < n. unat (s d)) \<le> (\<Sum>d < n. 2 ^ 50)" using bound(1) by (intro sum_mono) (simp add: less_imp_le)
  also have "\<dots> < 2 ^ 64" using bound(2) by simp
  finally have "unat (sum_list (map s [0..<n])) = (\<Sum>d < n. unat (s d))" by (rule unat_sum_list64)
  moreover have "ncclIbComputeDevSpeeds g db b = Some b'"
    unfolding ncclIbComputeDevSpeeds_def n(1) nat_int
    using speed_loop_eq [OF s n(2), of 0 0] by (simp add: b'_def)
  moreover have "\<forall>d < n. devSpeeds b' ! d = s d" by (simp add: b'_def nth_append)
  ultimately show ?thesis using n(2) by (intro exI [of _ b']) (simp add: b'_def)
qed

lemma check_speed_changes_quiet:
  assumes "speedChangeCounter (sc_base comm) = ncclIbSpeedChangeCounter g"
    "sc_remoteSpeedCounter comm = rsb_counter (sc_remoteSpeedBuf comm)"
  shows "ncclIbCheckSpeedChanges p g comm = Some comm"
  using assms by (simp add: ncclIbCheckSpeedChanges_def Let_def)

text \<open>The speeds and then the weights, for a communicator whose devices are ready.\<close>

lemma rebalance:
  assumes ready: "lb_ready g comm n" and p: "IbEventBasedLb p \<noteq> 0"
    and b: "vProps b = vProps (sc_base comm)" "qps b = qps (sc_base comm)" "length (remDevs b) = length (remDevs (sc_base comm))"
      "weights b = weights (sc_base comm)" "devSpeeds b = devSpeeds (sc_base comm)"
  shows "\<exists>b3 b4. ncclIbComputeDevSpeeds g (\<lambda>i. at (map scd_base (sc_devs comm)) i) b = Some b3
     \<and> ncclIbComputeLbWeights p b3 = Some b4
     \<and> b4 = b\<lparr> devSpeeds := devSpeeds b4, totalSpeed := totalSpeed b4, weights := weights b4 \<rparr>
     \<and> (\<Sum>d < n. unat (weights b4 ! d)) = 100
     \<and> (\<forall>d < n. dev_speed_of g (\<lambda>i. at (map scd_base (sc_devs comm)) i) b d = Some (devSpeeds b4 ! d))
     \<and> (\<forall>d < n - 1. unat (weights b4 ! d) = unat (devSpeeds b4 ! d) * 100 div (\<Sum>d < n. unat (devSpeeds b4 ! d)))"
proof -
  let ?db = "\<lambda>i. at (map scd_base (sc_devs comm)) i"
  have n: "ndevs (vProps b) = int n" "0 < n" "n \<le> 8" "length (weights b) = 8" "length (devSpeeds b) = 8"
    using ready unfolding lb_ready_def b by simp_all
  have "\<exists>s. dev_speed_of g ?db b d = Some s \<and> 0 < s \<and> unat s < 2 ^ 50" if "d < n" for d
    using dev_speed_of_ready [OF _ b(3,2), of g d] ready that unfolding lb_ready_def by blast
  then obtain s where s: "\<forall>d < n. dev_speed_of g ?db b d = Some (s d)" "\<forall>d < n. 0 < s d" "\<forall>d < n. unat (s d) < 2 ^ 50"
    by metis
  obtain b3 where b3: "ncclIbComputeDevSpeeds g ?db b = Some b3"
    "b3 = b\<lparr> devSpeeds := devSpeeds b3, totalSpeed := totalSpeed b3 \<rparr>" "length (devSpeeds b3) = 8"
    "\<forall>d < n. devSpeeds b3 ! d = s d" "unat (totalSpeed b3) = (\<Sum>d < n. unat (s d))"
    using compute_dev_speeds [OF s(1) n(1) _ s(3) n(3)] n(3,5) by auto
  have same: "vProps b3 = vProps b" "weights b3 = weights b" by (subst b3(2), simp)+
  have total: "unat (totalSpeed b3) = (\<Sum>d < n. unat (devSpeeds b3 ! d))" using b3(4,5) by simp
  have "0 < unat (s 0)" using s(2) n(2) by (simp add: unat_gt_0 word_neq_0_conv [symmetric])
  also have "\<dots> \<le> unat (totalSpeed b3)" unfolding b3(5) using n(2) by (intro member_le_sum) auto
  finally have nz: "totalSpeed b3 \<noteq> 0" by (simp add: unat_gt_0)
  have small: "\<forall>d < n. unat (devSpeeds b3 ! d) * 100 < 2 ^ 64"
  proof (intro allI impI)
    fix d assume "d < n"
    then have "unat (devSpeeds b3 ! d) < 2 ^ 50" using b3(4) s(3) by simp
    then show "unat (devSpeeds b3 ! d) * 100 < 2 ^ 64" by simp
  qed
  have "\<exists>b4. ncclIbComputeLbWeights p b3 = Some b4 \<and> b4 = b3\<lparr> weights := weights b4 \<rparr>
    \<and> (\<Sum>d < n. unat (weights b4 ! d)) = 100
    \<and> (\<forall>d < n - 1. unat (weights b4 ! d) = unat (devSpeeds b3 ! d) * 100 div unat (totalSpeed b3))
    \<and> unat (devSpeeds b3 ! (n - 1)) * 100 div unat (totalSpeed b3) \<le> unat (weights b4 ! (n - 1))"
    using lb_weights_of_speeds [OF p _ n(2) _ _ total nz small] n b3(3) same by simp
  then obtain b4 where b4: "ncclIbComputeLbWeights p b3 = Some b4" "b4 = b3\<lparr> weights := weights b4 \<rparr>"
    "(\<Sum>d < n. unat (weights b4 ! d)) = 100"
    "\<forall>d < n - 1. unat (weights b4 ! d) = unat (devSpeeds b3 ! d) * 100 div unat (totalSpeed b3)"
    by blast
  have sp: "devSpeeds b4 = devSpeeds b3" "totalSpeed b4 = totalSpeed b3" by (subst b4(2), simp)+
  have "b4 = b\<lparr> devSpeeds := devSpeeds b4, totalSpeed := totalSpeed b4, weights := weights b4 \<rparr>"
    by (subst b4(2), subst b3(2)) (simp add: sp)
  moreover have "\<forall>d < n. dev_speed_of g ?db b d = Some (devSpeeds b4 ! d)" using s(1) b3(4) sp by simp
  moreover have "\<forall>d < n - 1. unat (weights b4 ! d) = unat (devSpeeds b4 ! d) * 100 div (\<Sum>d < n. unat (devSpeeds b4 ! d))"
    using b4(4) sp total by simp
  ultimately show ?thesis using b3(1) b4(1,3) by blast
qed

text \<open>C36 \<open>ncclIbCheckSpeedChanges\<close> follows the links: when a local or a remote speed counter has moved, the communicator ends up
  with device speeds that are the speed of the local port or, when it is known and smaller, the speed the remote device has announced (just now, or before if only the local counter moved), and with percentages
  that add up to exactly 100, every device but the last getting the integer part of its share and the last the
  rest; no arithmetic wraps and nothing out of range is read. A second call then changes nothing.\<close>

theorem speed_change_rebalances:
  assumes "lb_ready g comm n" "IbEventBasedLb p \<noteq> 0"
    "speedChangeCounter (sc_base comm) \<noteq> ncclIbSpeedChangeCounter g
     \<or> sc_remoteSpeedCounter comm \<noteq> rsb_counter (sc_remoteSpeedBuf comm)"
  shows "\<exists>comm'. ncclIbCheckSpeedChanges p g comm = Some comm'
    \<and> (\<Sum>d < n. unat (weights (sc_base comm') ! d)) = 100
    \<and> (\<forall>d < n. unat (devSpeeds (sc_base comm') ! d) = (if peer_speed comm d = 0 then port_speed g comm d else min (port_speed g comm d) (peer_speed comm d)))
    \<and> (\<forall>d < n - 1. unat (weights (sc_base comm') ! d)
         = unat (devSpeeds (sc_base comm') ! d) * 100 div (\<Sum>d < n. unat (devSpeeds (sc_base comm') ! d)))
    \<and> ncclIbCheckSpeedChanges p g comm' = Some comm'"
proof -
  define remoteChanged where "remoteChanged = (sc_remoteSpeedCounter comm \<noteq> rsb_counter (sc_remoteSpeedBuf comm))"
  define b where "b = sc_base comm"
  have r: "nat (nRemDevs b) \<le> length (remDevs b)" "nat (nRemDevs b) \<le> length (speedGbps (sc_remoteSpeedBuf comm))"
    using assms(1) unfolding lb_ready_def b_def by simp_all
  obtain rd where rd: "(if remoteChanged then remote_speeds (speedGbps (sc_remoteSpeedBuf comm)) [0..<nat (nRemDevs b)] (remDevs b)
      else Some (remDevs b)) = Some rd" "length rd = length (remDevs b)"
      "\<forall>j < length rd. unat (di_currSpeed (rd ! j)) = (if remoteChanged \<and> j < nat (nRemDevs b) then unat (speedGbps (sc_remoteSpeedBuf comm) ! j) * 1000 else unat (di_currSpeed (remDevs b ! j)))"
  proof (cases remoteChanged)
    case True
    obtain rd where e: "remote_speeds (speedGbps (sc_remoteSpeedBuf comm)) [0..<nat (nRemDevs b)] (remDevs b) = Some rd"
      using remote_speeds_Some [of "[0..<nat (nRemDevs b)]" "remDevs b" "speedGbps (sc_remoteSpeedBuf comm)"] r by auto
    have "unat (ucast v * 1000 :: u64) = unat v * 1000" for v :: u16
    proof -
      have "unat v < 2 ^ 16" using unsigned_less [of v] by simp
      then show ?thesis by (simp add: unat_word_ariths unsigned_ucast_eq take_bit_nat_eq_self)
    qed
    with remote_speeds_nth [OF e] True e that show ?thesis by simp
  qed (use that in simp)
  define b2 where "b2 = b\<lparr> speedChangeCounter := ncclIbSpeedChangeCounter g, remDevs := rd \<rparr>"
  define comm2 where "comm2 = comm\<lparr> sc_base := b2, sc_remoteSpeedCounter := rsb_counter (sc_remoteSpeedBuf comm) \<rparr>"
  let ?db = "\<lambda>i. at (map scd_base (sc_devs comm)) i"
  obtain b3 b4 where b34: "ncclIbComputeDevSpeeds g ?db b2 = Some b3" "ncclIbComputeLbWeights p b3 = Some b4"
    "b4 = b2\<lparr> devSpeeds := devSpeeds b4, totalSpeed := totalSpeed b4, weights := weights b4 \<rparr>"
    "(\<Sum>d < n. unat (weights b4 ! d)) = 100" "\<forall>d < n. dev_speed_of g ?db b2 d = Some (devSpeeds b4 ! d)"
    "\<forall>d < n - 1. unat (weights b4 ! d) = unat (devSpeeds b4 ! d) * 100 div (\<Sum>d < n. unat (devSpeeds b4 ! d))"
    using rebalance [OF assms(1,2), of b2] rd(2) by (auto simp: b2_def b_def)
  define comm' where "comm' = comm2\<lparr> sc_base := b4 \<rparr>"
  have upd: "(if speedChangeCounter b \<noteq> ncclIbSpeedChangeCounter g
      then b\<lparr> speedChangeCounter := ncclIbSpeedChangeCounter g \<rparr> else b) = b\<lparr> speedChangeCounter := ncclIbSpeedChangeCounter g \<rparr>" by simp
  have cnt: "(if remoteChanged then rsb_counter (sc_remoteSpeedBuf comm) else sc_remoteSpeedCounter comm)
      = rsb_counter (sc_remoteSpeedBuf comm)" by (simp add: remoteChanged_def)
  have rdeq: "(if remoteChanged then remote_speeds (speedGbps (sc_remoteSpeedBuf comm))
        [0..<nat (nRemDevs (b\<lparr> speedChangeCounter := ncclIbSpeedChangeCounter g \<rparr>))] (remDevs (b\<lparr> speedChangeCounter := ncclIbSpeedChangeCounter g \<rparr>))
      else Some (remDevs (b\<lparr> speedChangeCounter := ncclIbSpeedChangeCounter g \<rparr>))) = Some rd"
    using rd(1) by (simp split: if_splits)
  have db: "ncclIbGetNetCommDevBase_send comm2 = ?db" by (rule ext) (simp add: ncclIbGetNetCommDevBase_send_def comm2_def)
  have changed: "(speedChangeCounter b \<noteq> ncclIbSpeedChangeCounter g \<or> remoteChanged) = True"
    using assms(3) by (simp add: b_def remoteChanged_def)
  have "ncclIbCheckSpeedChanges p g comm = Some comm'"
    unfolding ncclIbCheckSpeedChanges_def Let_def b_def [symmetric] remoteChanged_def [symmetric] upd cnt rdeq deref_simps
      b2_def [symmetric] comm2_def [symmetric] db changed b34(1,2) if_True comm'_def by (rule refl)
  moreover have frame: "qps b4 = qps b2" "remDevs b4 = remDevs b2" "speedChangeCounter b4 = ncclIbSpeedChangeCounter g"
    by (subst b34(3), simp add: b2_def)+
  moreover have "ncclIbCheckSpeedChanges p g comm' = Some comm'"
    by (rule check_speed_changes_quiet) (simp_all add: comm'_def comm2_def frame(3))
  moreover have "unat (devSpeeds b4 ! d) = (if peer_speed comm d = 0 then port_speed g comm d else min (port_speed g comm d) (peer_speed comm d))" if d: "d < n" for d
  proof -
    have l: "lb_dev g comm d" using assms(1) d by (simp add: lb_ready_def)
    then have "nat (qp_remDevIdx (qps b ! d)) < length rd" "0 \<le> qp_remDevIdx (qps b ! d)" using rd(2) by (auto simp: lb_dev_def Let_def b_def)
    then have "unat (di_currSpeed (remDevs b2 ! nat (qp_remDevIdx (qps (sc_base comm) ! d)))) = peer_speed comm d"
      using rd(3) by (auto simp: peer_speed_def b2_def b_def remoteChanged_def Let_def)
    moreover have "length (remDevs b2) = length (remDevs (sc_base comm))" "qps b2 = qps (sc_base comm)" using rd(2) by (simp_all add: b2_def b_def)
    ultimately show ?thesis using dev_speed_of_value [OF l] b34(5) d by blast
  qed
  ultimately show ?thesis using b34(4,6) by (simp add: comm'_def)
qed

text \<open>Two devices: the ports run at 400 Gb/s and 200 Gb/s, and the receiver has just announced 100 Gb/s for the second.\<close>

definition example_globals :: ib_globals where
  "example_globals = \<lparr> ncclIbDevs = [zero_dev\<lparr> dev_currSpeed := 400000 \<rparr>, zero_dev\<lparr> dev_currSpeed := 200000 \<rparr>],
     ncclIbSpeedChangeCounter = 0, ncclIbRelaxedOrderingEnabled = 0 \<rparr>"

definition example_speed_comm :: ncclIbSendComm where
  "example_speed_comm = zero_sendComm\<lparr>
     sc_base := zero_base\<lparr> vProps := \<lparr> ndevs = 2, devs = [0, 1, 0, 0, 0, 0, 0, 0] \<rparr>, nRemDevs := 2,
       qps := [zero_qp, zero_qp\<lparr> qp_remDevIdx := 1 \<rparr>] \<rparr>,
     sc_devs := [\<lparr> scd_base = zero_devBase, scd_sge = zero_sge \<rparr>, \<lparr> scd_base = zero_devBase\<lparr> ibDevN := 1 \<rparr>, scd_sge = zero_sge \<rparr>],
     sc_remoteSpeedBuf := \<lparr> rsb_counter = 1, speedGbps = [400, 100, 0, 0, 0, 0, 0, 0] \<rparr> \<rparr>"

lemma example_speed_ready: "lb_ready example_globals example_speed_comm 2"
  unfolding lb_ready_def all_two
  by (simp add: lb_dev_def Let_def example_globals_def example_speed_comm_def zero_sendComm_def zero_base_def zero_qp_def
      zero_devBase_def zero_dev_def)

theorem speed_change_rebalances_witness:
  "\<exists>comm'. ncclIbCheckSpeedChanges (default_params\<lparr> IbEventBasedLb := 1 \<rparr>) example_globals example_speed_comm = Some comm'
     \<and> (\<Sum>d < (2 :: nat). unat (weights (sc_base comm') ! d)) = 100
     \<and> unat (devSpeeds (sc_base comm') ! 0) = 400000 \<and> unat (devSpeeds (sc_base comm') ! 1) = 100000"
proof -
  have sp: "port_speed example_globals example_speed_comm 0 = 400000" "port_speed example_globals example_speed_comm 1 = 200000"
    "peer_speed example_speed_comm 0 = 400000" "peer_speed example_speed_comm 1 = 100000"
    by (simp_all add: port_speed_def peer_speed_def example_globals_def example_speed_comm_def zero_sendComm_def zero_base_def zero_qp_def zero_devBase_def zero_dev_def)
  have "speedChangeCounter (sc_base example_speed_comm) \<noteq> ncclIbSpeedChangeCounter example_globals
     \<or> sc_remoteSpeedCounter example_speed_comm \<noteq> rsb_counter (sc_remoteSpeedBuf example_speed_comm)"
    by (simp add: example_speed_comm_def zero_sendComm_def)
  from speed_change_rebalances [OF example_speed_ready _ this, of "default_params\<lparr> IbEventBasedLb := 1 \<rparr>"]
  show ?thesis using sp by (auto simp: all_two)
qed

text \<open>The comment on \<open>ncclIbComputeLbWeights\<close> says a weight is never 0, but a device whose speed is below one percent of the total
  gets weight 0 unless it is the last: with 1 Gb/s and 400 Gb/s the weights are 0 and 100.\<close>

theorem lb_weight_can_be_zero:
  "map_option weights (ncclIbComputeLbWeights (default_params\<lparr> IbEventBasedLb := 1 \<rparr>)
     (zero_base\<lparr> vProps := \<lparr> ndevs = 2, devs = [0, 1, 0, 0, 0, 0, 0, 0] \<rparr>,
        devSpeeds := [1000, 400000, 0, 0, 0, 0, 0, 0], totalSpeed := 401000 \<rparr>)) = Some [0, 100, 0, 0, 0, 0, 0, 0]"
  by (simp add: ncclIbComputeLbWeights_def lb_weight_def zero_base_def default_params_def upt_two) (simp add: eval_nat_numeral)

section \<open>Selecting queue pairs\<close>

text \<open>A connected base: \<open>M\<close> queue pairs, \<open>N\<close> of them used by each request, all pointers set.\<close>

definition qps_ready :: "ncclIbNetCommBase \<Rightarrow> nat \<Rightarrow> nat \<Rightarrow> bool" where
  "qps_ready b N M \<longleftrightarrow> nqps b = int M \<and> 0 < N \<and> N \<le> M \<and> M \<le> NCCL_IB_MAX_QPS
     \<and> nDataQps b \<noteq> -1 \<and> (if splitDataOnQps b = 1 then nqps b else nDataQps b) = int N
     \<and> length (activeQps b) = NCCL_IB_MAX_QPS \<and> (\<forall>i < M. activeQps b ! i \<noteq> None)"

lemma qps_ready_nqps: "qps_ready b N M \<Longrightarrow> ncclIbCommBaseGetNqpsPerRequest b = Inr (int N)"
  by (auto simp: qps_ready_def ncclIbCommBaseGetNqpsPerRequest_def)

lemma qp_index_unat:
  fixes rid :: u64
  assumes "i < N" "N \<le> M" "M \<le> 128" "unat rid * N + N \<le> 2 ^ 64"
  shows "unat ((rid * word_of_int (int N) + ucast (word_of_nat i :: u8)) mod word_of_int (int M)) = (unat rid * N + i) mod M"
proof -
  have N: "unat (word_of_int (int N) :: u64) = N" using assms by (simp add: unsigned_of_nat take_bit_nat_eq_self)
  have M: "unat (word_of_int (int M) :: u64) = M" using assms by (simp add: unsigned_of_nat take_bit_nat_eq_self)
  have "unat (word_of_nat i :: u8) = i" using assms by (simp add: unsigned_of_nat take_bit_nat_eq_self)
  then have i: "unat (ucast (word_of_nat i :: u8) :: u64) = i" using assms(1-3) by (simp add: unsigned_ucast_eq take_bit_nat_eq_self)
  have m: "unat (rid * word_of_int (int N)) = unat rid * N"
    using assms(1,4) N by (subst unat_mult_lem [THEN iffD1]) simp_all
  have "unat (rid * word_of_int (int N) + ucast (word_of_nat i :: u8)) = unat rid * N + i"
    using assms(1,4) m i by (subst unat_add_lem [THEN iffD1]) simp_all
  with M show ?thesis by (simp add: unat_mod)
qed

lemma qp_for_request:
  assumes "qps_ready b N M" "i < N" "unat rid * N + N \<le> 2 ^ 64"
  shows "\<exists>q. ncclIbCommBaseGetQpForRequest b rid (word_of_nat i) = Inr (q, (unat rid * N + i) mod M)
    \<and> activeQps b ! ((unat rid * N + i) mod M) = Some q"
proof -
  have r: "nqps b = int M" "0 < M" "N \<le> M" "M \<le> 128" "\<forall>i < M. activeQps b ! i \<noteq> None"
    using assms(1) by (auto simp: qps_ready_def NCCL_IB_MAX_QPS_def)
  then obtain q where q: "activeQps b ! ((unat rid * N + i) mod M) = Some q"
    using mod_less_divisor [OF r(2)] by blast
  have "unat ((rid * word_of_int (int N) + ucast (word_of_nat i :: u8)) mod word_of_int (int M)) = (unat rid * N + i) mod M"
    by (rule qp_index_unat [OF assms(2) r(3,4) assms(3)])
  then show ?thesis
    unfolding ncclIbCommBaseGetQpForRequest_def qps_ready_nqps [OF assms(1)] r(1) using q by (simp add: Let_def)
qed

lemma mod_window_inj:
  fixes a M i j :: nat
  assumes "(a + i) mod M = (a + j) mod M" "i < M" "j < M"
  shows "i = j"
proof -
  have ordered: "l = k" if "k \<le> l" "l < M" "(a + l) mod M = (a + k) mod M" for k l
  proof -
    have "M dvd (a + l) - (a + k)" using that by (subst mod_eq_dvd_iff_nat [symmetric]) auto
    then have "M dvd l - k" by simp
    moreover have "l - k < M" using that(2) by simp
    ultimately have "l - k = 0" by (auto dest: dvd_imp_le)
    then show ?thesis using that(1) by simp
  qed
  show ?thesis
  proof (cases "i \<le> j")
    case True
    from ordered [OF True assms(3) assms(1) [symmetric]] show ?thesis by (rule sym)
  next
    case False
    then have "j \<le> i" by simp
    from ordered [OF this assms(2) assms(1)] show ?thesis .
  qed
qed

text \<open>Queue pair selection: a request of \<open>N\<close> queue pairs gets \<open>N\<close> different ones, all of them existing, and when \<open>N\<close> divides
  the number \<open>M\<close> of queue pairs the \<open>M / N\<close> consecutive requests from a multiple of \<open>M / N\<close> on use every queue pair
  exactly once. The \<open>uint64_t\<close> arithmetic is exact for ids below \<open>2^64 / N\<close>.\<close>

theorem qp_selection_round_robin:
  assumes "qps_ready b N M" "M = N * J" "unat rid + J \<le> 2 ^ 56" "J dvd unat rid"
  shows "(\<forall>i < N. \<exists>q k. ncclIbCommBaseGetQpForRequest b rid (word_of_nat i) = Inr (q, k) \<and> k < M \<and> activeQps b ! k = Some q)
    \<and> (\<forall>i < N. \<forall>i' < N. ncclIbCommBaseGetQpForRequest b rid (word_of_nat i) = ncclIbCommBaseGetQpForRequest b rid (word_of_nat i') \<longrightarrow> i = i')
    \<and> (\<forall>k < M. \<exists>q. ncclIbCommBaseGetQpForRequest b (rid + word_of_nat (k div N)) (word_of_nat (k mod N)) = Inr (q, k))"
proof -
  have r: "0 < N" "N \<le> M" "0 < M" "M \<le> 128" using assms(1) by (auto simp: qps_ready_def NCCL_IB_MAX_QPS_def)
  have J: "0 < J" using r assms(2) by (cases J) auto
  have bnd: "unat x * N + N \<le> 2 ^ 64" if "unat x < unat rid + J" for x :: u64
  proof -
    have "unat x * N + N = (unat x + 1) * N" by simp
    also have "\<dots> \<le> 2 ^ 56 * 128" using that assms(3) r by (intro mult_le_mono) auto
    also have "\<dots> \<le> 2 ^ 64" by simp
    finally show ?thesis .
  qed
  have sel: "\<exists>q. ncclIbCommBaseGetQpForRequest b rid (word_of_nat i) = Inr (q, (unat rid * N + i) mod M)
      \<and> activeQps b ! ((unat rid * N + i) mod M) = Some q" if "i < N" for i
    using qp_for_request [OF assms(1) that bnd] J by simp
  have "\<exists>q k. ncclIbCommBaseGetQpForRequest b rid (word_of_nat i) = Inr (q, k) \<and> k < M \<and> activeQps b ! k = Some q" if "i < N" for i
    using sel [OF that] mod_less_divisor [OF r(3)] by blast
  moreover have "i = i'" if i: "i < N" "i' < N"
    "ncclIbCommBaseGetQpForRequest b rid (word_of_nat i) = ncclIbCommBaseGetQpForRequest b rid (word_of_nat i')" for i i'
  proof -
    have "(unat rid * N + i) mod M = (unat rid * N + i') mod M" using sel [OF i(1)] sel [OF i(2)] i(3) by auto
    then show ?thesis by (rule mod_window_inj) (use i r in auto)
  qed
  moreover have "\<exists>q. ncclIbCommBaseGetQpForRequest b (rid + word_of_nat (k div N)) (word_of_nat (k mod N)) = Inr (q, k)" if k: "k < M" for k
  proof -
    have kJ: "k div N < J" using k assms(2) r by (simp add: less_mult_imp_div_less mult.commute)
    then have w: "unat (word_of_nat (k div N) :: u64) = k div N" using assms(3) by (simp add: unsigned_of_nat take_bit_nat_eq_self)
    then have u: "unat (rid + word_of_nat (k div N)) = unat rid + k div N"
      using kJ assms(3) by (subst unat_add_lem [THEN iffD1]) simp_all
    obtain c where c: "unat rid = J * c" using assms(4) by (rule dvdE)
    have "(unat rid + k div N) * N + k mod N = c * M + k"
      unfolding c assms(2) by (simp add: algebra_simps div_mult_mod_eq)
    then have "((unat rid + k div N) * N + k mod N) mod M = k" using k by simp
    then show ?thesis
      using qp_for_request [OF assms(1) _ bnd, of "k mod N" "rid + word_of_nat (k div N)"] u kJ r(1) by auto
  qed
  ultimately show ?thesis by blast
qed

definition example_qp_base :: ncclIbNetCommBase where
  "example_qp_base = zero_base\<lparr> activeQps := map Some [0..<NCCL_IB_MAX_QPS], nqps := 4, nDataQps := 2 \<rparr>"

lemma example_qps_ready: "qps_ready example_qp_base 2 4"
  by (simp add: qps_ready_def example_qp_base_def zero_base_def NCCL_IB_MAX_QPS_def)

theorem qp_selection_round_robin_witness:
  "\<exists>q. ncclIbCommBaseGetQpForRequest example_qp_base (6 + word_of_nat (3 div 2)) (word_of_nat (3 mod 2)) = Inr (q, 3)"
proof -
  have "(3 :: nat) < 4" "(4 :: nat) = 2 * 2" "unat (6 :: u64) + 2 \<le> 2 ^ 56" "2 dvd unat (6 :: u64)" by simp_all
  from qp_selection_round_robin [OF example_qps_ready this(2-4)] this(1) show ?thesis by blast
qed

lemma qp_num_loop_first:
  "\<forall>y \<in> set ys. qp_qpn (qps b ! nat (ndevs (vProps b) * int y + dev)) \<noteq> num \<Longrightarrow>
   qp_qpn (qps b ! nat (ndevs (vProps b) * int j + dev)) = num \<Longrightarrow>
   qp_num_loop b dev num (ys @ j # zs) = Some (nat (ndevs (vProps b) * int j + dev))"
  by (induction ys) (simp_all add: Let_def)

text \<open>Looking up a queue pair by its number finds it, when the numbers on its device are different.\<close>

lemma qp_by_num_roundtrip:
  assumes "ndevs (vProps b) = int D" "dev < D" "j < nat (nqps b div int D)"
    "inj_on (\<lambda>j. qp_qpn (qps b ! (D * j + dev))) {..<nat (nqps b div int D)}"
  shows "ncclIbCommBaseGetQpByQpNum b (int dev) (qp_qpn (qps b ! (D * j + dev))) = Inr (D * j + dev)"
proof -
  define J where "J = nat (nqps b div int D)"
  have idx: "nat (int D * int j + int dev) = D * j + dev" for j
    by (metis nat_int of_nat_add of_nat_mult)
  have split: "[0..<J] = [0..<j] @ j # [Suc j..<J]"
    using assms(3) upt_add_eq_append [of 0 j "J - j"] by (simp add: J_def upt_conv_Cons)
  have "\<forall>y \<in> set [0..<j]. qp_qpn (qps b ! (D * y + dev)) \<noteq> qp_qpn (qps b ! (D * j + dev))"
    using assms(3) by (auto dest!: inj_onD [OF assms(4)])
  then have "qp_num_loop b (int dev) (qp_qpn (qps b ! (D * j + dev))) [0..<J] = Some (D * j + dev)"
    unfolding split using qp_num_loop_first [of "[0..<j]" b "int dev"] by (simp add: assms(1) idx)
  then show ?thesis using assms(1,2) by (simp add: ncclIbCommBaseGetQpByQpNum_def J_def)
qed

section \<open>Initialisation\<close>

text \<open>With the documented values of the parameters (0, 1 or -2 for pre-posting, 0 or 1 for the failover), a receive
  communicator that pre-posts its work requests matches completions by request id. This is what makes the
  dummy \<open>wr_id\<close> of pre-posted work requests harmless: matching by index would use it as an index. For the
  other values the two fields are set inconsistently, as the second part shows for 2.\<close>

theorem recv_init_prepost_by_id:
  assumes "IbPrepostReceiveWorkRequests p \<in> {-2, 0, 1}" "IbResiliencyPortFailover p \<in> {0, 1}"
    "snd resInit \<longrightarrow> IbResiliencyPortFailover p \<noteq> 0" "fst resInit = ncclSuccess"
  shows "(\<exists>comm'. ncclIbRecvCommInit p resInit comm = Some (ncclSuccess, comm')
       \<and> (rc_prepostReceiveWorkRequests comm' \<longrightarrow> recvMatchingScheme (rc_base comm') = BY_ID)
       \<and> rc_ibRecvWorkRequest comm' = NCCL_IB_RECV_WR_ID_DUMMY
       \<and> activeQps (rc_base comm') = map Some [0..<NCCL_IB_MAX_QPS] \<and> ready (rc_base comm') = 0)
    \<and> (\<exists>comm'. ncclIbRecvCommInit (default_params\<lparr> IbPrepostReceiveWorkRequests := 2 \<rparr>) (ncclSuccess, False) comm = Some (ncclSuccess, comm')
       \<and> rc_prepostReceiveWorkRequests comm' \<and> recvMatchingScheme (rc_base comm') = BY_INDEX)"
proof
  obtain c where res: "resInit = (ncclSuccess, c)" using assms(4) by (cases resInit) auto
  show "\<exists>comm'. ncclIbRecvCommInit p resInit comm = Some (ncclSuccess, comm')
       \<and> (rc_prepostReceiveWorkRequests comm' \<longrightarrow> recvMatchingScheme (rc_base comm') = BY_ID)
       \<and> rc_ibRecvWorkRequest comm' = NCCL_IB_RECV_WR_ID_DUMMY
       \<and> activeQps (rc_base comm') = map Some [0..<NCCL_IB_MAX_QPS] \<and> ready (rc_base comm') = 0"
    using assms(1-3) unfolding res
    by (simp add: ncclIbRecvCommInit_def ncclIbBaseCommInit_def lift_recv_def Let_def ret_def) auto
  show "\<exists>comm'. ncclIbRecvCommInit (default_params\<lparr> IbPrepostReceiveWorkRequests := 2 \<rparr>) (ncclSuccess, False) comm = Some (ncclSuccess, comm')
       \<and> rc_prepostReceiveWorkRequests comm' \<and> recvMatchingScheme (rc_base comm') = BY_INDEX"
    by (simp add: ncclIbRecvCommInit_def ncclIbBaseCommInit_def lift_recv_def Let_def ret_def default_params_def)
qed


theorem recv_init_prepost_by_id_witness:
  "\<exists>comm'. ncclIbRecvCommInit default_params (ncclSuccess, False) zero_recvComm = Some (ncclSuccess, comm')
     \<and> ready (rc_base comm') = 0"
proof -
  have "IbPrepostReceiveWorkRequests default_params \<in> {-2, 0, 1}" "IbResiliencyPortFailover default_params \<in> {0, 1}"
    "snd (ncclSuccess, False) \<longrightarrow> IbResiliencyPortFailover default_params \<noteq> 0" "fst (ncclSuccess, False) = ncclSuccess"
    by (simp_all add: default_params_def)
  from recv_init_prepost_by_id [OF this, of zero_recvComm] show ?thesis by blast
qed

end
