(* ===== verification/NetIb_Send.thy ===== *)
theory NetIb_Send
  imports NetIb_Common Bitops
begin

text \<open>
  The request pool and the sending side of \<open>net/transport/net_ib/p2p.cc\<close>: \<open>ncclIbGetRequest\<close>,
  \<open>ncclIbFreeRequest\<close>, \<open>ncclIbAddEvent\<close>, \<open>ncclIbMultiSend\<close> and \<open>ncclIbIsend\<close>.

  The state of a call is the communicator, the work requests posted so far (to which queue pair, in which
  order) and the output cell \<open>*request\<close>. The verbs library is the argument \<open>v\<close>: the code its post
  functions return, as a function of what was posted before, and the addresses of the two
  local buffers that are sent. \<open>imm_data\<close> is kept as a number, so that \<open>htobe32\<close> and \<open>be32toh\<close>, which cancel, do not appear. Profiling, tracing and
  the latency monitor are left out, as in a build without them.
\<close>

section \<open>The request pool\<close>

definition ncclIbGetRequest :: "ncclIbNetCommBase \<Rightarrow> ncclResult + nat \<times> ncclIbNetCommBase" where
  "ncclIbGetRequest b =
     (case find (\<lambda>i. rq_type (reqs b ! i) = REQ_UNUSED) [0..<NET_IB_MAX_REQUESTS] of
        None \<Rightarrow> Inl ncclInternalError
      | Some i \<Rightarrow> Inr (i, b\<lparr> reqs := (reqs b)[i := (reqs b ! i)\<lparr>
            rq_devBases := replicate NCCL_IB_MAX_DEVS_PER_NIC False,
            rq_events := replicate NCCL_IB_MAX_DEVS_PER_NIC 0 \<rparr>] \<rparr>))"

definition ncclIbFreeRequest :: "ncclIbNetCommBase \<Rightarrow> nat \<Rightarrow> ncclIbNetCommBase" where
  "ncclIbFreeRequest b i = b\<lparr> reqs := (reqs b)[i := (reqs b ! i)\<lparr> rq_type := REQ_UNUSED \<rparr>] \<rparr>"

definition ncclIbAddEvent :: "ncclIbRequest \<Rightarrow> int \<Rightarrow> ncclIbRequest option" where
  "ncclIbAddEvent req devIndex =
     (if 0 \<le> devIndex \<and> devIndex < int NCCL_IB_MAX_DEVS_PER_NIC
      then Some (req\<lparr> rq_events := (rq_events req)[nat devIndex := rq_events req ! nat devIndex + 1],
                      rq_devBases := (rq_devBases req)[nat devIndex := True] \<rparr>)
      else None)"

fun add_events :: "ncclIbRequest \<Rightarrow> int list \<Rightarrow> ncclIbRequest option" where
  "add_events req [] = Some req"
| "add_events req (d # ds) = deref (ncclIbAddEvent req d) (\<lambda>req. add_events req ds)"

section \<open>The chunks of a message\<close>

type_synonym post = "nat \<times> ibv_send_wr list"

record ib_verbs =
  v_post_send :: "post list \<Rightarrow> nat \<Rightarrow> ibv_send_wr list \<Rightarrow> ncclResult"
  v_sizes_addr :: "nat \<Rightarrow> u64"

record send_st =
  ss_comm :: ncclIbSendComm
  ss_posted :: "post list"
  ss_request :: "nat option"

definition IB_WRITE_CHUNK_ALIGNMENT :: u64 where "IB_WRITE_CHUNK_ALIGNMENT = 128"

text \<open>The share of one queue pair: \<open>w\<close> percent of the message over \<open>n\<close> queue pairs, rounded up to 128 bytes,
  in \<open>uint64_t\<close> and then truncated to the \<open>uint32_t\<close> length field.\<close>

definition chunk_share :: "int \<Rightarrow> u8 \<Rightarrow> int \<Rightarrow> u32" where
  "chunk_share sz w n =
     ucast (DIVUP (DIVUP (word_of_int sz * ucast w) (word_of_int (100 * n))) IB_WRITE_CHUNK_ALIGNMENT * IB_WRITE_CHUNK_ALIGNMENT)"

text \<open>One turn of the loop over the requests before a queue pair is posted: the remote key, the length and the local key.\<close>

definition prepare_wr :: "ncclIbSendFifo \<Rightarrow> ncclIbRequest \<Rightarrow> nat \<Rightarrow> nat \<Rightarrow> u8 \<Rightarrow> int \<Rightarrow> u32 \<Rightarrow> ibv_send_wr \<Rightarrow> ibv_send_wr" where
  "prepare_wr cts rq remDev dev w n off wr =
     (let len = min (word_of_int (rq_size rq) - off) (chunk_share (rq_size rq) w n);
          sge = (wr_sge wr)\<lparr> sge_length := len \<rparr>
      in if len = 0 then wr\<lparr> wr_rkey := sf_rkeys cts ! remDev, wr_sge := sge, wr_num_sge := 0 \<rparr>
         else wr\<lparr> wr_rkey := sf_rkeys cts ! remDev, wr_sge := sge\<lparr> sge_lkey := rq_lkeys rq ! dev \<rparr> \<rparr>)"

text \<open>After the queue pair is posted: offset, local and remote address move on.\<close>

definition advance_off :: "ncclIbRequest \<Rightarrow> u32 \<Rightarrow> ibv_send_wr \<Rightarrow> u32" where
  "advance_off rq off wr = min (off + sge_length (wr_sge wr)) (word_of_int (rq_size rq))"

definition advance_wr :: "ibv_send_wr \<Rightarrow> ibv_send_wr" where
  "advance_wr wr =
     (let len = sge_length (wr_sge wr) in
      wr\<lparr> wr_sge := (wr_sge wr)\<lparr> sge_addr := sge_addr (wr_sge wr) + ucast len \<rparr>,
          wr_remote_addr := wr_remote_addr wr + ucast len \<rparr>)"

text \<open>The work request of request \<open>r\<close> before the loop over the queue pairs. \<open>slot_wr_id slot r\<close> is the running \<open>wr_id\<close>: the
  slot's low byte in each of the bytes \<open>0..r\<close>.\<close>

fun slot_wr_id :: "nat \<Rightarrow> nat \<Rightarrow> u64" where
  "slot_wr_id slot 0 = word_of_nat (slot mod 256)"
| "slot_wr_id slot (Suc r) = slot_wr_id slot r + push_bit (8 * Suc r) (word_of_nat (slot mod 256))"

definition initial_wr :: "nat \<Rightarrow> nat \<Rightarrow> ncclIbSendFifo \<Rightarrow> ncclIbRequest \<Rightarrow> ibv_send_wr" where
  "initial_wr slot r cts rq =
     \<lparr> wr_id = slot_wr_id slot r, wr_sge = zero_sge\<lparr> sge_addr := rq_data rq \<rparr>, wr_num_sge = 1, wr_op = WR_RDMA_WRITE,
       wr_signaled = False, wr_inline = False, wr_imm_data = 0, wr_remote_addr = sf_addr cts, wr_rkey = 0 \<rparr>"

definition as_last :: "nat \<Rightarrow> nat \<Rightarrow> u32 \<Rightarrow> ibv_send_wr \<Rightarrow> ibv_send_wr" where
  "as_last slot nreqs immData wr =
     wr\<lparr> wr_id := slot_wr_id slot (nreqs - 1), wr_op := WR_RDMA_WRITE_WITH_IMM, wr_imm_data := immData, wr_signaled := True \<rparr>"

text \<open>\<open>sizeof(struct ncclIbRequestCompletionRecord)\<close>: eight ints and 128 bools.\<close>

definition sizeof_cmpl_record :: u64 where "sizeof_cmpl_record = 8 * 4 + 128"

text \<open>The separate last work request: it writes the sizes of a multi-send, or carries only the immediate data.\<close>

definition extra_wr :: "ncclIbSendComm \<Rightarrow> nat \<Rightarrow> nat \<Rightarrow> u32 \<Rightarrow> ibv_send_wr" where
  "extra_wr comm slot nreqs immData =
     as_last slot nreqs immData
       \<lparr> wr_id = 0, wr_sge = zero_sge, wr_num_sge = (if nreqs > 1 then 1 else 0), wr_op = WR_RDMA_WRITE,
         wr_signaled = False, wr_inline = False, wr_imm_data = 0,
         wr_remote_addr = (if nreqs > 1 then rcr_addr (sc_remCmplsRecords comm) + word_of_nat slot * sizeof_cmpl_record else 0),
         wr_rkey = 0 \<rparr>"

definition has_extra_wr :: "ib_params \<Rightarrow> ncclIbSendComm \<Rightarrow> nat \<Rightarrow> int \<Rightarrow> bool" where
  "has_extra_wr p comm nreqs sz0 \<longleftrightarrow>
     nreqs > 1 \<or> (\<not> (remOooRq (sc_base comm) \<and> localOooRq (sc_base comm)) \<and> sc_ar comm \<noteq> 0 \<and> sz0 > ncclIbArThreshold p)"

text \<open>The gather entry of the sizes, when there are several requests; its local key is that of the device's entry.\<close>

definition prepare_extra :: "ib_verbs \<Rightarrow> ncclIbSendComm \<Rightarrow> nat \<Rightarrow> nat \<Rightarrow> nat \<Rightarrow> ibv_send_wr \<Rightarrow> ibv_send_wr" where
  "prepare_extra v comm slot nreqs dev wr =
     (if nreqs > 1
      then wr\<lparr> wr_sge := (scd_sge (sc_devs comm ! dev))\<lparr> sge_addr := v_sizes_addr v slot, sge_length := word_of_nat (nreqs * 4) \<rparr>,
               wr_rkey := rcr_rkeys (sc_remCmplsRecords comm) ! dev \<rparr>
      else wr)"

text \<open>\<open>qpsPerDev\<close>: how many of the request's queue pairs were created on each device.\<close>

definition qps_per_dev :: "ncclIbNetCommBase \<Rightarrow> (nat \<times> nat) list \<Rightarrow> int \<Rightarrow> int" where
  "qps_per_dev b sel d = int (length (filter (\<lambda>(q, k). qp_devIndex (qps b ! k) = d) sel))"

text \<open>Every index the turn of the loop for the queue pair \<open>q\<close> at position \<open>k\<close> uses is inside its array.\<close>

definition qp_indices_ok :: "ncclIbNetCommBase \<Rightarrow> nat \<times> nat \<Rightarrow> bool" where
  "qp_indices_ok b qk \<longleftrightarrow>
     (case qk of (q, k) \<Rightarrow> q < length (qps b) \<and> k < length (qps b)
        \<and> 0 \<le> qp_devIndex (qps b ! q) \<and> qp_devIndex (qps b ! q) < int NCCL_IB_MAX_DEVS_PER_NIC
        \<and> 0 \<le> qp_devIndex (qps b ! k) \<and> qp_devIndex (qps b ! k) < int NCCL_IB_MAX_DEVS_PER_NIC
        \<and> 0 \<le> qp_remDevIdx (qps b ! q) \<and> qp_remDevIdx (qps b ! q) < int NCCL_IB_MAX_DEVS_PER_NIC)"

definition mark_sent :: "nat \<Rightarrow> nat list \<Rightarrow> ncclIbNetCommBase \<Rightarrow> ncclIbNetCommBase" where
  "mark_sent k is b = fold (\<lambda>i b. b\<lparr> reqs := (reqs b)[i := (reqs b ! i)\<lparr> rq_sentData := (rq_sentData (reqs b ! i))[k := True] \<rparr>] \<rparr>) is b"

definition upd_base :: "(ncclIbNetCommBase \<Rightarrow> ncclIbNetCommBase) \<Rightarrow> send_st \<Rightarrow> send_st" where
  "upd_base f st = st\<lparr> ss_comm := (ss_comm st)\<lparr> sc_base := f (sc_base (ss_comm st)) \<rparr> \<rparr>"

text \<open>
  The loop over the queue pairs. \<open>is\<close> are the requests of the slot, \<open>wrs\<close> their work requests, \<open>offs\<close> the
  send offsets and \<open>extra\<close> the separate last work request, if any; \<open>perDev\<close> is \<open>qpsPerDev\<close> and \<open>ws\<close> the weights of the
  first request.
\<close>

fun send_loop :: "ib_verbs \<Rightarrow> nat \<Rightarrow> ncclIbSendFifo list \<Rightarrow> nat list \<Rightarrow> u8 list \<Rightarrow> (int \<Rightarrow> int) \<Rightarrow>
    (nat \<times> nat) list \<Rightarrow> ibv_send_wr list \<Rightarrow> u32 list \<Rightarrow> ibv_send_wr option \<Rightarrow> send_st \<Rightarrow> send_st outcome" where
  "send_loop v slot slots is ws perDev [] wrs offs extra st = ret ncclSuccess st"
| "send_loop v slot slots is ws perDev ((q, k) # sel) wrs offs extra st =
     (let b = sc_base (ss_comm st) in
      if \<not> qp_indices_ok b (q, k) then None
      else
       (let qp = qps b ! q;
            dev = nat (qp_devIndex qp);
            origDev = qp_devIndex (qps b ! k);
            wrs1 = map (\<lambda>r. prepare_wr (slots ! r) (reqs b ! (is ! r)) (nat (qp_remDevIdx qp)) dev (ws ! nat origDev)
                              (perDev origDev) (offs ! r) (wrs ! r)) [0..<length is];
            extra1 = map_option (prepare_extra v (ss_comm st) slot (length is) dev) extra;
            chain = (case extra1 of None \<Rightarrow> wrs1 | Some e \<Rightarrow> wrs1 @ [e]);
            skip = (resiliency b \<and> rq_sentData (reqs b ! (is ! 0)) ! k);
            posted = (if skip then ret ncclSuccess st
                      else (let r = v_post_send v (ss_posted st) (qp_mrcQp qp) chain in
                            ret r (if nccl_ok r then st\<lparr> ss_posted := ss_posted st @ [(qp_mrcQp qp, chain)] \<rparr> else st)))
        in chk posted (\<lambda>st.
             send_loop v slot slots is ws perDev sel (map advance_wr wrs1)
               (map (\<lambda>r. advance_off (reqs b ! (is ! r)) (offs ! r) (wrs1 ! r)) [0..<length is]) extra1
               (upd_base (mark_sent k is) st))))"

fun select_qps :: "ncclIbNetCommBase \<Rightarrow> u64 \<Rightarrow> nat list \<Rightarrow> ncclResult + (nat \<times> nat) list" where
  "select_qps b rid [] = Inr []"
| "select_qps b rid (i # is) =
     (case ncclIbCommBaseGetQpForRequest b rid (word_of_nat i) of
        Inl r \<Rightarrow> Inl r
      | Inr qk \<Rightarrow> (case select_qps b rid is of Inl r \<Rightarrow> Inl r | Inr sel \<Rightarrow> Inr (qk # sel)))"

text \<open>
  \<open>ncclIbMultiSend\<close>. A slot without requests, or whose requests are not all there, has no defined outcome: the
  code dereferences \<open>reqs[r]\<close>.
\<close>

definition ncclIbMultiSend :: "ib_params \<Rightarrow> ib_verbs \<Rightarrow> nat \<Rightarrow> send_st \<Rightarrow> send_st outcome" where
  "ncclIbMultiSend p v slot st =
     (let comm = ss_comm st; b = sc_base comm;
          slots = sc_ctsFifo comm ! slot;
          nreqs = sint (sf_nreqs (slots ! 0))
      in if nreqs > int NCCL_NET_IB_MAX_RECVS then ret ncclInternalError st
         else chk_val (ncclIbCommBaseGetNqpsPerRequest b) st (\<lambda>n.
           if n > int NCCL_IB_MAX_QPS then ret ncclInternalError st
           else (case sc_sendReqs comm ! slot ! 0 of
               None \<Rightarrow> None
             | Some i0 \<Rightarrow>
               (let rq0 = reqs b ! i0 in
                chk_val (select_qps b (rq_id rq0) [0..<nat n]) st (\<lambda>sel.
                  if nreqs \<le> 0 \<or> (\<exists>r < nat nreqs. sc_sendReqs comm ! slot ! r = None) then None
                  else
                   (let is = map the (take (nat nreqs) (sc_sendReqs comm ! slot));
                        immData = (if recvMatchingScheme b = BY_ID then ucast (rq_id rq0) else word_of_int (rq_size rq0) :: u32);
                        ex = has_extra_wr p comm (nat nreqs) (rq_size rq0);
                        wrs = map (\<lambda>r. initial_wr slot r (slots ! r) (reqs b ! (is ! r))) [0..<nat nreqs];
                        wrs' = (if ex then wrs else wrs[nat nreqs - 1 := as_last slot (nat nreqs) immData (wrs ! (nat nreqs - 1))]);
                        extra = (if ex then Some (extra_wr comm slot (nat nreqs) immData) else None)
                    in send_loop v slot slots is (rq_weights rq0) (qps_per_dev b sel) sel wrs' (replicate (nat nreqs) 0) extra st))))))"

section \<open>Posting a send\<close>

text \<open>The memory registered for a buffer, one region per device.\<close>

definition store_lkeys :: "int \<Rightarrow> ncclIbMrHandle \<Rightarrow> u32 list \<Rightarrow> u32 list" where
  "store_lkeys n mh lkeys = fold (\<lambda>i ks. ks[i := mr_lkey (mh ! i)]) [0..<nat n] lkeys"

text \<open>The request of \<open>ncclIbIsend\<close>; the weights are a snapshot taken by the first request of a slot only.\<close>

definition send_request :: "ncclIbNetCommBase \<Rightarrow> nat \<Rightarrow> int \<Rightarrow> int \<Rightarrow> u64 \<Rightarrow> ncclIbRequest \<Rightarrow> ncclIbRequest" where
  "send_request b r nreqs sz data req =
     (let req1 = req\<lparr> rq_id := fifoHead b, rq_type := REQ_SEND, rq_nreqs := nreqs, rq_size := sz, rq_data := data \<rparr>;
          req2 = (if resiliency b then req1\<lparr> rq_sentData := replicate NCCL_IB_MAX_QPS False \<rparr> else req1)
      in if r = 0 then req2\<lparr> rq_weights := weights b \<rparr> else req2)"

text \<open>The body of the loop of \<open>ncclIbIsend\<close> for the first entry \<open>r\<close> of the slot that is free and has the tag.\<close>

definition isend_matched :: "ib_params \<Rightarrow> ib_verbs \<Rightarrow> u64 \<Rightarrow> size_t \<Rightarrow> ncclIbMrHandle \<Rightarrow> nat \<Rightarrow> int \<Rightarrow> nat \<Rightarrow> send_st \<Rightarrow> send_st outcome" where
  "isend_matched p v data sz mh slot nreqs r st =
     (let comm = ss_comm st; b = sc_base comm; cts = sc_ctsFifo comm ! slot ! r;
          sz1 = (if sz > sf_size cts then sf_size cts else sz)
      in if sf_addr cts = 0 \<or> sf_rkeys cts ! 0 = 0 then ret ncclInternalError st
         else chk_val (ncclIbCommBaseGetNqpsPerRequest b) st (\<lambda>n.
           if n > int NCCL_IB_MAX_QPS then ret ncclInternalError st
           else chk_val (select_qps b (fifoHead b) [0..<nat n]) st (\<lambda>sel.
             chk_val (ncclIbGetRequest b) st (\<lambda>(i, b1).
               let req = send_request b1 r nreqs (int_of_size sz1) data (reqs b1 ! i) in
               deref (add_events req (map (\<lambda>(q, k). qp_devIndex (qps b ! q)) sel)) (\<lambda>req.
               if length mh < nat (ndevs (vProps b)) then None
               else
                (let req1 = req\<lparr> rq_lkeys := store_lkeys (ndevs (vProps b)) mh (rq_lkeys req) \<rparr>;
                     elems = rcr_elems (sc_remCmplsRecords comm);
                     cnt = sc_sendReqsCnt comm ! slot + 1;
                     comm1 = comm\<lparr> sc_base := b1\<lparr> reqs := (reqs b1)[i := req1] \<rparr>,
                       sc_remCmplsRecords := (sc_remCmplsRecords comm)\<lparr> rcr_elems := elems[slot := (elems ! slot)[r := rq_size req1]] \<rparr>,
                       sc_sendReqs := (sc_sendReqs comm)[slot := (sc_sendReqs comm ! slot)[r := Some i]],
                       sc_sendReqsCnt := (sc_sendReqsCnt comm)[slot := cnt] \<rparr>;
                     st1 = st\<lparr> ss_comm := comm1, ss_request := Some i \<rparr>
                 in if cnt < nreqs then ret ncclSuccess st1
                    else chk (ncclIbMultiSend p v slot st1) (\<lambda>st2.
                      ret ncclSuccess (upd_base (\<lambda>b. b\<lparr> fifoHead := fifoHead b + 1 \<rparr>) st2))))))))"

text \<open>
  \<open>ncclIbIsend\<close>. The wait for the other entries of a multi-receive spins on memory the peer writes; where the entries
  never arrive, and where the slot announces more entries than a row has, there is no outcome.
\<close>

definition ncclIbIsend :: "ib_params \<Rightarrow> ib_verbs \<Rightarrow> u64 \<Rightarrow> size_t \<Rightarrow> u32 \<Rightarrow> ncclIbMrHandle \<Rightarrow> send_st \<Rightarrow> send_st outcome" where
  "ncclIbIsend p v data sz tag mh st =
     (let comm = ss_comm st; b = sc_base comm in
      if ready b = 0 then ret ncclInternalError (st\<lparr> ss_request := None \<rparr>)
      else chk (ret (ncclIbStatsCheckFatalCount p (b_stats b)) st) (\<lambda>st.
        let slot = unat (fifoHead b mod word_of_nat NET_IB_MAX_REQUESTS);
            slots = sc_ctsFifo comm ! slot;
            idx = fifoHead b + 1
        in if sf_idx (slots ! 0) \<noteq> idx then ret ncclSuccess (st\<lparr> ss_request := None \<rparr>)
           else (let nreqs = sint (sf_nreqs (slots ! 0)) in
             if length slots < nat nreqs \<or> (\<exists>r < nat nreqs. sf_idx (slots ! r) \<noteq> idx) then None
             else (case find (\<lambda>r. sc_sendReqs comm ! slot ! r = None \<and> sf_tag (slots ! r) = tag) [0..<nat nreqs] of
                     None \<Rightarrow> ret ncclSuccess (st\<lparr> ss_request := None \<rparr>)
                   | Some r \<Rightarrow> isend_matched p v data sz mh slot nreqs r st))))"

end
