(* ===== verification/NetIb_Send_Facts.thy ===== *)
theory NetIb_Send_Facts
  imports NetIb_Send
begin

text \<open>
  What \<open>ncclIbMultiSend\<close> posts: the chunks of every message follow each other without gap or overlap, are
  aligned, and cover the message. The loop over the queue pairs treats the requests of a slot
  independently, so the facts are shown for one request (\<open>wr_run\<close>) and then lifted.
\<close>

section \<open>Shares and offsets\<close>

definition share_nat :: "nat \<Rightarrow> nat \<Rightarrow> nat \<Rightarrow> nat" where
  "share_nat sz w n = ((sz * w + 100 * n - 1) div (100 * n) + 127) div 128 * 128"

lemma share_nat_ge: "0 < n \<Longrightarrow> sz * w \<le> 100 * n * share_nat sz w n"
proof -
  assume n: "0 < n"
  define c where "c = (sz * w + 100 * n - 1) div (100 * n)"
  have "sz * w + 100 * n - 1 < 100 * n * c + 100 * n"
    unfolding c_def using n by (metis add.commute dividend_less_div_times mult.commute nat_0_less_mult_iff zero_less_numeral)
  then have "sz * w \<le> 100 * n * c" by linarith
  also have "c \<le> share_nat sz w n" unfolding share_nat_def c_def [symmetric] by linarith
  then have "100 * n * c \<le> 100 * n * share_nat sz w n" by simp
  finally show ?thesis .
qed

lemma share_nat_le: "0 < n \<Longrightarrow> w \<le> 100 \<Longrightarrow> share_nat sz w n \<le> sz + 128"
proof -
  assume n: "0 < n" and w: "w \<le> 100"
  have "(sz * w + 100 * n - 1) div (100 * n) \<le> (sz * 100 + 100 * n - 1) div (100 * n)"
    using w by (intro div_le_mono diff_le_mono add_le_mono) auto
  also have "\<dots> \<le> sz"
  proof (cases "sz = 0")
    case True
    then show ?thesis using n by simp
  next
    case False
    have "sz * 100 + 100 * n - 1 < 100 * n * (sz + 1)" using n by (cases n) (auto simp: algebra_simps)
    then have "(sz * 100 + 100 * n - 1) div (100 * n) < sz + 1" using n by (simp add: less_mult_imp_div_less mult.commute)
    then show ?thesis by simp
  qed
  finally show ?thesis unfolding share_nat_def by linarith
qed

lemma share_nat_pos: "0 < n \<Longrightarrow> 0 < w \<Longrightarrow> 0 < sz \<Longrightarrow> 0 < share_nat sz w n"
proof (rule ccontr)
  assume "0 < n" "0 < w" "0 < sz" "\<not> 0 < share_nat sz w n"
  then show False using share_nat_ge [of n sz w] by simp
qed

lemma share_nat_zero [simp]: "share_nat sz 0 n = 0"
proof -
  have "(100 * n - 1) div (100 * n) = 0" by (cases "n = 0") simp_all
  then show ?thesis by (simp add: share_nat_def)
qed

lemma share_nat_dvd [simp]: "128 dvd share_nat sz w n"
  by (simp add: share_nat_def)

lemma DIVUP_unat:
  fixes x y :: u64
  assumes "unat x + unat y < 2 ^ 64" "0 < unat y"
  shows "unat (DIVUP x y) = (unat x + unat y - 1) div unat y"
proof -
  have "unat (x + y) = unat x + unat y" using assms(1) by (subst unat_add_lem [THEN iffD1]) simp_all
  moreover have "1 \<le> x + y" using calculation assms(2) by (simp add: word_le_nat_alt)
  ultimately have "unat (x + y - 1) = unat x + unat y - 1" by (simp add: unat_sub)
  then show ?thesis by (simp add: DIVUP_def unat_div)
qed

lemma chunk_share_unat:
  assumes "sz < 2 ^ 31" "unat w \<le> 100" "0 < n" "n \<le> 128"
  shows "unat (chunk_share (int sz) w (int n)) = share_nat sz (unat w) n"
proof -
  define x y where "x = (word_of_int (int sz) * ucast w :: u64)" and "y = (word_of_int (100 * int n) :: u64)"
  have sw: "sz * unat w \<le> 2 ^ 31 * 100" using assms(1,2) by (intro mult_le_mono) auto
  have "unat (word_of_int (int sz) :: u64) = sz" using assms(1) by (simp add: unsigned_of_nat take_bit_nat_eq_self)
  moreover have "unat (ucast w :: u64) = unat w" using assms(2) by (simp add: unsigned_ucast_eq take_bit_nat_eq_self)
  ultimately have x: "unat x = sz * unat w" unfolding x_def using sw by (subst unat_mult_lem [THEN iffD1]) simp_all
  have "y = word_of_nat (100 * n)" unfolding y_def by (metis of_int_of_nat_eq of_nat_mult of_nat_numeral)
  then have y: "unat y = 100 * n" using assms(4) by (simp only: unsigned_of_nat) (simp add: take_bit_nat_eq_self)
  have d1: "unat (DIVUP x y) = (sz * unat w + 100 * n - 1) div (100 * n)"
    using sw x y assms(3,4) by (subst DIVUP_unat) simp_all
  have le: "unat (DIVUP x y) \<le> sz + 128"
  proof -
    have "unat (DIVUP x y) \<le> share_nat sz (unat w) n" unfolding d1 share_nat_def by linarith
    also have "\<dots> \<le> sz + 128" by (rule share_nat_le [OF assms(3,2)])
    finally show ?thesis .
  qed
  have d2: "unat (DIVUP (DIVUP x y) 128) = (unat (DIVUP x y) + 127) div 128"
    using le assms(1) by (subst DIVUP_unat) simp_all
  have small: "(unat (DIVUP x y) + 127) div 128 * 128 \<le> 2 ^ 31 + 256" using le assms(1) by linarith
  have "unat (DIVUP (DIVUP x y) 128 * 128) = share_nat sz (unat w) n"
    using d2 small by (subst unat_mult_lem [THEN iffD1]) (simp_all add: d1 share_nat_def)
  moreover have "share_nat sz (unat w) n < 2 ^ 32" using small by (simp add: share_nat_def d1)
  ultimately show ?thesis
    unfolding chunk_share_def IB_WRITE_CHUNK_ALIGNMENT_def x_def [symmetric] y_def [symmetric]
    by (simp add: unsigned_ucast_eq take_bit_nat_eq_self)
qed

text \<open>The weights of the devices in use reach 100 percent: the shares of the queue pairs then reach the size.\<close>

lemma shares_cover:
  fixes w :: "nat \<Rightarrow> nat"
  assumes "100 \<le> (\<Sum>d \<in> set ds. w d)"
  shows "sz \<le> sum_list (map (\<lambda>d. share_nat sz (w d) (count_list ds d)) ds)"
proof -
  let ?t = "\<lambda>d. share_nat sz (w d) (count_list ds d)"
  have "100 * sz \<le> sz * (\<Sum>d \<in> set ds. w d)" using assms by (simp add: mult.commute)
  also have "\<dots> = (\<Sum>d \<in> set ds. sz * w d)" by (simp add: sum_distrib_left)
  also have "\<dots> \<le> (\<Sum>d \<in> set ds. 100 * count_list ds d * ?t d)"
    by (intro sum_mono share_nat_ge) (metis count_list_0_iff neq0_conv)
  also have "\<dots> = 100 * sum_list (map ?t ds)"
    by (simp add: sum_list_map_eq_sum_count sum_distrib_left mult.assoc)
  finally show ?thesis by simp
qed

section \<open>One request\<close>

text \<open>The work requests one request of the slot posts on the queue pairs \<open>sel\<close>, in order.\<close>

fun wr_run :: "ncclIbNetCommBase \<Rightarrow> ncclIbSendFifo \<Rightarrow> ncclIbRequest \<Rightarrow> u8 list \<Rightarrow> (int \<Rightarrow> int) \<Rightarrow>
    (nat \<times> nat) list \<Rightarrow> ibv_send_wr \<Rightarrow> u32 \<Rightarrow> ibv_send_wr list" where
  "wr_run b cts rq ws perDev [] wr off = []"
| "wr_run b cts rq ws perDev ((q, k) # sel) wr off =
     (let wr1 = prepare_wr cts rq (nat (qp_remDevIdx (qps b ! q))) (nat (qp_devIndex (qps b ! q)))
                  (ws ! nat (qp_devIndex (qps b ! k))) (perDev (qp_devIndex (qps b ! k))) off wr
      in wr1 # wr_run b cts rq ws perDev sel (advance_wr wr1) (advance_off rq off wr1))"

lemma length_wr_run [simp]: "length (wr_run b cts rq ws perDev sel wr off) = length sel"
  by (induction b cts rq ws perDev sel wr off rule: wr_run.induct) (simp_all add: Let_def)

lemma prepare_wr_fields [simp]:
  "wr_remote_addr (prepare_wr cts rq rd d w n off wr) = wr_remote_addr wr"
  "sge_addr (wr_sge (prepare_wr cts rq rd d w n off wr)) = sge_addr (wr_sge wr)"
  "sge_length (wr_sge (prepare_wr cts rq rd d w n off wr)) = min (word_of_int (rq_size rq) - off) (chunk_share (rq_size rq) w n)"
  "wr_rkey (prepare_wr cts rq rd d w n off wr) = sf_rkeys cts ! rd"
  "wr_id (prepare_wr cts rq rd d w n off wr) = wr_id wr"
  "wr_op (prepare_wr cts rq rd d w n off wr) = wr_op wr"
  "wr_imm_data (prepare_wr cts rq rd d w n off wr) = wr_imm_data wr"
  "wr_num_sge (prepare_wr cts rq rd d w n off wr) =
     (if min (word_of_int (rq_size rq) - off) (chunk_share (rq_size rq) w n) = 0 then 0 else wr_num_sge wr)"
  by (simp_all add: prepare_wr_def Let_def)

lemma advance_wr_fields [simp]:
  "wr_remote_addr (advance_wr wr) = wr_remote_addr wr + ucast (sge_length (wr_sge wr))"
  "sge_addr (wr_sge (advance_wr wr)) = sge_addr (wr_sge wr) + ucast (sge_length (wr_sge wr))"
  "wr_num_sge (advance_wr wr) = wr_num_sge wr"
  "wr_id (advance_wr wr) = wr_id wr" "wr_op (advance_wr wr) = wr_op wr" "wr_imm_data (advance_wr wr) = wr_imm_data wr"
  by (simp_all add: advance_wr_def Let_def)

text \<open>The share of the queue pair at position \<open>k\<close> of a message of \<open>sz\<close> bytes, as a number.\<close>

definition qp_share :: "ncclIbNetCommBase \<Rightarrow> u8 list \<Rightarrow> (int \<Rightarrow> int) \<Rightarrow> nat \<Rightarrow> nat \<times> nat \<Rightarrow> nat" where
  "qp_share b ws perDev sz qk =
     (let d = qp_devIndex (qps b ! snd qk) in share_nat sz (unat (ws ! nat d)) (nat (perDev d)))"

definition shares_ok :: "ncclIbNetCommBase \<Rightarrow> u8 list \<Rightarrow> (int \<Rightarrow> int) \<Rightarrow> (nat \<times> nat) list \<Rightarrow> bool" where
  "shares_ok b ws perDev sel \<longleftrightarrow>
     (\<forall>qk \<in> set sel. let d = qp_devIndex (qps b ! snd qk) in unat (ws ! nat d) \<le> 100 \<and> 0 < perDev d \<and> perDev d \<le> 128)"

lemma chunk_len:
  fixes off :: u32
  assumes "rq_size rq = int sz" "sz < 2 ^ 31" "unat off \<le> sz" "unat w \<le> 100" "0 < n" "n \<le> 128"
  shows "unat (min (word_of_int (rq_size rq) - off) (chunk_share (rq_size rq) w n)) = min (sz - unat off) (share_nat sz (unat w) (nat n))"
proof -
  have s: "unat (word_of_int (rq_size rq) :: u32) = sz"
    using assms(1,2) by (simp add: unsigned_of_nat take_bit_nat_eq_self)
  then have "unat (word_of_int (rq_size rq) - off) = sz - unat off"
    using assms(3) by (subst unat_sub) (simp_all add: word_le_nat_alt)
  moreover have "unat (chunk_share (rq_size rq) w n) = share_nat sz (unat w) (nat n)"
    using chunk_share_unat [OF assms(2,4), of "nat n"] assms(1,5,6) by simp
  ultimately show ?thesis by (simp add: min_def word_le_nat_alt)
qed

lemma advance_off_unat:
  fixes off :: u32
  assumes "rq_size rq = int sz" "sz < 2 ^ 31" "unat off + unat (sge_length (wr_sge wr)) \<le> sz"
  shows "unat (advance_off rq off wr) = unat off + unat (sge_length (wr_sge wr))"
proof -
  have s: "unat (word_of_int (rq_size rq) :: u32) = sz"
    using assms(1,2) by (simp add: unsigned_of_nat take_bit_nat_eq_self)
  have "unat (off + sge_length (wr_sge wr)) = unat off + unat (sge_length (wr_sge wr))"
    using assms(2,3) by (subst unat_add_lem [THEN iffD1]) simp_all
  then show ?thesis using assms(3) s by (simp add: advance_off_def min_def word_le_nat_alt)
qed

definition bytes :: "ibv_send_wr \<Rightarrow> nat" where
  "bytes wr = unat (sge_length (wr_sge wr))"

text \<open>The first turn: what it sends and where it leaves the offset.\<close>

definition first_wr :: "ncclIbNetCommBase \<Rightarrow> ncclIbSendFifo \<Rightarrow> ncclIbRequest \<Rightarrow> u8 list \<Rightarrow> (int \<Rightarrow> int) \<Rightarrow> nat \<times> nat \<Rightarrow> ibv_send_wr \<Rightarrow> u32 \<Rightarrow> ibv_send_wr" where
  "first_wr b cts rq ws perDev qk wr off =
     prepare_wr cts rq (nat (qp_remDevIdx (qps b ! fst qk))) (nat (qp_devIndex (qps b ! fst qk)))
       (ws ! nat (qp_devIndex (qps b ! snd qk))) (perDev (qp_devIndex (qps b ! snd qk))) off wr"

lemma wr_run_Cons:
  "wr_run b cts rq ws perDev (qk # sel) wr off =
     (let wr1 = first_wr b cts rq ws perDev qk wr off
      in wr1 # wr_run b cts rq ws perDev sel (advance_wr wr1) (advance_off rq off wr1))"
  by (cases qk) (simp add: first_wr_def)

lemma first_wr_bytes:
  fixes off :: u32 and cts :: ncclIbSendFifo and wr :: ibv_send_wr
  assumes "rq_size rq = int sz" "sz < 2 ^ 31" "shares_ok b ws perDev (qk # sel)" "unat off \<le> sz"
  defines "wr1 \<equiv> first_wr b cts rq ws perDev qk wr off"
  shows "bytes wr1 = min (sz - unat off) (qp_share b ws perDev sz qk)"
    and "unat (advance_off rq off wr1) = unat off + bytes wr1" and "unat (advance_off rq off wr1) \<le> sz"
proof -
  have ok: "unat (ws ! nat (qp_devIndex (qps b ! snd qk))) \<le> 100" "0 < perDev (qp_devIndex (qps b ! snd qk))"
    "perDev (qp_devIndex (qps b ! snd qk)) \<le> 128"
    using assms(3) unfolding shares_ok_def by (simp_all add: Let_def)
  show l: "bytes wr1 = min (sz - unat off) (qp_share b ws perDev sz qk)"
    unfolding bytes_def wr1_def first_wr_def prepare_wr_fields qp_share_def Let_def
    by (rule chunk_len [OF assms(1,2,4) ok])
  show "unat (advance_off rq off wr1) = unat off + bytes wr1"
    unfolding bytes_def using l assms(4) by (intro advance_off_unat [OF assms(1,2)]) (simp add: bytes_def)
  then show "unat (advance_off rq off wr1) \<le> sz" using l assms(4) by simp
qed

text \<open>The run of one request from offset \<open>off\<close>: it sends what is left or the shares, whichever is less; \<close>

lemma wr_run_total:
  fixes off :: u32
  assumes "rq_size rq = int sz" "sz < 2 ^ 31" "shares_ok b ws perDev sel" "unat off \<le> sz"
  shows "unat off + sum_list (map bytes (wr_run b cts rq ws perDev sel wr off))
    = min sz (unat off + sum_list (map (qp_share b ws perDev sz) sel))"
  using assms(3,4)
proof (induction sel arbitrary: wr off)
  case (Cons qk sel)
  note f = first_wr_bytes [OF assms(1,2) Cons.prems, of cts wr]
  have "shares_ok b ws perDev sel" using Cons.prems(1) by (simp add: shares_ok_def)
  note IH = Cons.IH [OF this f(3), of "advance_wr (first_wr b cts rq ws perDev qk wr off)"]
  show ?case
    unfolding wr_run_Cons Let_def list.map sum_list.Cons using IH f(1,2) Cons.prems(2) by linarith
qed simp

text \<open>each work request starts where the one before ended;\<close>

lemma wr_run_addr:
  assumes "i < length sel"
  shows "wr_remote_addr (wr_run b cts rq ws perDev sel wr off ! i)
      = wr_remote_addr wr + word_of_nat (sum_list (map bytes (take i (wr_run b cts rq ws perDev sel wr off))))"
    and "sge_addr (wr_sge (wr_run b cts rq ws perDev sel wr off ! i))
      = sge_addr (wr_sge wr) + word_of_nat (sum_list (map bytes (take i (wr_run b cts rq ws perDev sel wr off))))"
  using assms
proof (induction sel arbitrary: wr off i)
  case (Cons qk sel)
  {
    case 1
    then show ?case using Cons.IH(1)
      by (cases i) (simp_all add: wr_run_Cons Let_def first_wr_def bytes_def ac_simps del: prepare_wr_fields(3))
  next
    case 2
    then show ?case using Cons.IH(2)
      by (cases i) (simp_all add: wr_run_Cons Let_def first_wr_def bytes_def ac_simps del: prepare_wr_fields(3))
  }
qed simp_all

text \<open>it is a multiple of 128 bytes long unless it ends the message;\<close>

lemma wr_run_aligned:
  fixes off :: u32
  assumes "rq_size rq = int sz" "sz < 2 ^ 31" "shares_ok b ws perDev sel" "unat off \<le> sz" "i < length sel"
  shows "128 dvd bytes (wr_run b cts rq ws perDev sel wr off ! i)
    \<or> unat off + sum_list (map bytes (take (Suc i) (wr_run b cts rq ws perDev sel wr off))) = sz"
  using assms(3-5)
proof (induction sel arbitrary: wr off i)
  case (Cons qk sel)
  note f = first_wr_bytes [OF assms(1,2) Cons.prems(1,2), of cts wr]
  have ok: "shares_ok b ws perDev sel" using Cons.prems(1) by (simp add: shares_ok_def)
  show ?case
  proof (cases i)
    case 0
    have "128 dvd qp_share b ws perDev sz qk" by (simp add: qp_share_def Let_def)
    then show ?thesis using f Cons.prems(2) by (simp add: 0 wr_run_Cons Let_def min_def)
  next
    case (Suc m)
    with Cons.IH [OF ok f(3), of m "advance_wr (first_wr b cts rq ws perDev qk wr off)"] Cons.prems(3) f(2)
    show ?thesis by (simp add: wr_run_Cons Let_def add.assoc)
  qed
qed simp

text \<open>and it has a gather entry unless it, or one before it, is empty.\<close>

lemma wr_run_num_sge:
  assumes "i < length sel"
  shows "wr_num_sge (wr_run b cts rq ws perDev sel wr off ! i)
    = (if 0 \<in> set (map bytes (take (Suc i) (wr_run b cts rq ws perDev sel wr off))) then 0 else wr_num_sge wr)"
  using assms
proof (induction sel arbitrary: wr off i)
  case (Cons qk sel)
  then show ?case
    by (cases i) (simp_all add: wr_run_Cons Let_def first_wr_def bytes_def unat_eq_zero)
qed simp

section \<open>All requests of a slot\<close>

text \<open>What the loop reads of a base and does not change: marking chunks as sent keeps it.\<close>

definition same_view :: "ncclIbNetCommBase \<Rightarrow> ncclIbNetCommBase \<Rightarrow> bool" where
  "same_view b b0 \<longleftrightarrow> qps b = qps b0 \<and> resiliency b = resiliency b0 \<and> fifoHead b = fifoHead b0
     \<and> (\<forall>i. rq_size (reqs b ! i) = rq_size (reqs b0 ! i) \<and> rq_lkeys (reqs b ! i) = rq_lkeys (reqs b0 ! i)
          \<and> rq_type (reqs b ! i) = rq_type (reqs b0 ! i) \<and> rq_id (reqs b ! i) = rq_id (reqs b0 ! i)
          \<and> rq_nreqs (reqs b ! i) = rq_nreqs (reqs b0 ! i) \<and> rq_events (reqs b ! i) = rq_events (reqs b0 ! i)
          \<and> rq_data (reqs b ! i) = rq_data (reqs b0 ! i))"

lemma same_view_refl [simp]: "same_view b b" by (simp add: same_view_def)

lemma same_view_trans: "same_view b c \<Longrightarrow> same_view c d \<Longrightarrow> same_view b d"
  by (simp add: same_view_def)

lemma same_view_mark_one:
  "same_view (b\<lparr> reqs := (reqs b)[i := (reqs b ! i)\<lparr> rq_sentData := sd \<rparr>] \<rparr>) b"
  by (cases "i < length (reqs b)") (simp_all add: same_view_def nth_list_update list_update_beyond)

lemma same_view_mark_sent: "same_view (mark_sent k is b) b"
proof (induction "is" arbitrary: b)
  case (Cons i "is")
  show ?case unfolding mark_sent_def fold_Cons comp_def
    by (rule same_view_trans [OF Cons.IH [unfolded mark_sent_def] same_view_mark_one])
qed (simp add: mark_sent_def)

lemma prepare_wr_view:
  "rq_size rq = rq_size rq0 \<Longrightarrow> rq_lkeys rq = rq_lkeys rq0 \<Longrightarrow> prepare_wr cts rq = prepare_wr cts rq0"
  by (intro ext) (simp add: prepare_wr_def Let_def)

lemma advance_off_view: "rq_size rq = rq_size rq0 \<Longrightarrow> advance_off rq = advance_off rq0"
  by (intro ext) (simp add: advance_off_def)

lemma prepare_extra_twice:
  "sc_devs c = sc_devs c0 \<Longrightarrow> sc_remCmplsRecords c = sc_remCmplsRecords c0 \<Longrightarrow>
   prepare_extra v c slot n d (prepare_extra v c0 slot n d' e) = prepare_extra v c0 slot n d e"
  by (simp add: prepare_extra_def)

text \<open>The chain posted on the queue pair at position \<open>j\<close>.\<close>

definition chain_at :: "ib_verbs \<Rightarrow> ncclIbSendComm \<Rightarrow> nat \<Rightarrow> ncclIbSendFifo list \<Rightarrow> nat list \<Rightarrow> u8 list \<Rightarrow> (int \<Rightarrow> int) \<Rightarrow>
    (nat \<times> nat) list \<Rightarrow> ibv_send_wr list \<Rightarrow> u32 list \<Rightarrow> ibv_send_wr option \<Rightarrow> nat \<Rightarrow> post" where
  "chain_at v comm slot slots is ws perDev sel wrs offs extra j =
     (let b = sc_base comm; qp = qps b ! fst (sel ! j) in
      (qp_mrcQp qp,
       map (\<lambda>r. wr_run b (slots ! r) (reqs b ! (is ! r)) ws perDev sel (wrs ! r) (offs ! r) ! j) [0..<length is]
       @ (case extra of None \<Rightarrow> [] | Some e \<Rightarrow> [prepare_extra v comm slot (length is) (nat (qp_devIndex qp)) e])))"

lemma wr_run_view:
  assumes "same_view b b0"
  shows "wr_run b cts (reqs b ! i) ws perDev sel wr off = wr_run b0 cts (reqs b0 ! i) ws perDev sel wr off"
proof (induction sel arbitrary: wr off)
  case (Cons qk sel)
  have v: "rq_size (reqs b ! i) = rq_size (reqs b0 ! i)" "rq_lkeys (reqs b ! i) = rq_lkeys (reqs b0 ! i)" "qps b = qps b0"
    using assms by (simp_all add: same_view_def)
  from prepare_wr_view [OF v(1,2)] advance_off_view [OF v(1)] v(3) show ?case using Cons.IH by (simp add: wr_run_Cons first_wr_def Let_def)
qed simp

definition first_wrs :: "ncclIbNetCommBase \<Rightarrow> ncclIbSendFifo list \<Rightarrow> nat list \<Rightarrow> u8 list \<Rightarrow> (int \<Rightarrow> int) \<Rightarrow> nat \<times> nat \<Rightarrow>
    ibv_send_wr list \<Rightarrow> u32 list \<Rightarrow> ibv_send_wr list" where
  "first_wrs b slots is ws perDev qk wrs offs =
     map (\<lambda>r. first_wr b (slots ! r) (reqs b ! (is ! r)) ws perDev qk (wrs ! r) (offs ! r)) [0..<length is]"

definition next_offs :: "ncclIbNetCommBase \<Rightarrow> nat list \<Rightarrow> ibv_send_wr list \<Rightarrow> u32 list \<Rightarrow> u32 list" where
  "next_offs b is wrs1 offs = map (\<lambda>r. advance_off (reqs b ! (is ! r)) (offs ! r) (wrs1 ! r)) [0..<length is]"

lemma chain_at_Suc:
  fixes v comm qk offs "is" slots ws perDev wrs extra slot
  assumes "same_view b1 (sc_base comm)"
  defines "wrs1 \<equiv> first_wrs (sc_base comm) slots is ws perDev qk wrs offs"
  defines "extra1 \<equiv> map_option (prepare_extra v comm slot (length is) (nat (qp_devIndex (qps (sc_base comm) ! fst qk)))) extra"
  shows "chain_at v (comm\<lparr> sc_base := b1 \<rparr>) slot slots is ws perDev sel (map advance_wr wrs1) (next_offs (sc_base comm) is wrs1 offs) extra1 j
    = chain_at v comm slot slots is ws perDev (qk # sel) wrs offs extra (Suc j)"
proof -
  have q: "qps b1 = qps (sc_base comm)" using assms(1) by (simp add: same_view_def)
  have r: "wr_run b1 (slots ! r) (reqs b1 ! (is ! r)) ws perDev sel (map advance_wr wrs1 ! r) (next_offs (sc_base comm) is wrs1 offs ! r) ! j
      = wr_run (sc_base comm) (slots ! r) (reqs (sc_base comm) ! (is ! r)) ws perDev (qk # sel) (wrs ! r) (offs ! r) ! Suc j"
    if "r < length is" for r
    unfolding wr_run_view [OF assms(1)] using that by (simp add: wr_run_Cons Let_def wrs1_def first_wrs_def next_offs_def)
  have e: "(case extra1 of None \<Rightarrow> [] | Some e \<Rightarrow> [prepare_extra v (comm\<lparr> sc_base := b1 \<rparr>) slot (length is) d e])
      = (case extra of None \<Rightarrow> [] | Some e \<Rightarrow> [prepare_extra v comm slot (length is) d e])" for d
    by (cases extra) (simp_all add: extra1_def prepare_extra_twice)
  have d: "qps (sc_base (comm\<lparr> sc_base := b1 \<rparr>)) ! fst (sel ! j) = qps (sc_base comm) ! fst ((qk # sel) ! Suc j)" by (simp add: q)
  show ?thesis unfolding chain_at_def Let_def d e using r by simp
qed

lemma send_loop_Cons:
  assumes "\<forall>ps q c. v_post_send v ps q c = ncclSuccess" "\<not> resiliency (sc_base comm)" "qp_indices_ok (sc_base comm) qk" "ss_comm st = comm"
  shows "send_loop v slot slots is ws perDev (qk # sel) wrs offs extra st =
    (let wrs1 = first_wrs (sc_base comm) slots is ws perDev qk wrs offs;
         extra1 = map_option (prepare_extra v comm slot (length is) (nat (qp_devIndex (qps (sc_base comm) ! fst qk)))) extra
     in send_loop v slot slots is ws perDev sel (map advance_wr wrs1) (next_offs (sc_base comm) is wrs1 offs) extra1
          (upd_base (mark_sent (snd qk) is)
            (st\<lparr> ss_posted := ss_posted st @ [(qp_mrcQp (qps (sc_base comm) ! fst qk), wrs1 @ (case extra1 of None \<Rightarrow> [] | Some e \<Rightarrow> [e]))] \<rparr>)))"
proof -
  obtain q k where qk: "qk = (q, k)" by (cases qk)
  show ?thesis
    using assms unfolding qk first_wrs_def next_offs_def first_wr_def
    by (cases extra) (simp_all add: Let_def nccl_ok_def)
qed

lemma send_loop_posts:
  assumes "\<forall>ps q c. v_post_send v ps q c = ncclSuccess" "\<not> resiliency (sc_base comm)"
    "\<forall>qk \<in> set sel. qp_indices_ok (sc_base comm) qk" "ss_comm st = comm"
  shows "\<exists>st'. send_loop v slot slots is ws perDev sel wrs offs extra st = Some (ncclSuccess, st')
    \<and> ss_posted st' = ss_posted st @ map (chain_at v comm slot slots is ws perDev sel wrs offs extra) [0..<length sel]
    \<and> same_view (sc_base (ss_comm st')) (sc_base comm)
    \<and> ss_comm st' = comm\<lparr> sc_base := sc_base (ss_comm st') \<rparr> \<and> ss_request st' = ss_request st"
  using assms(2-)
proof (induction sel arbitrary: wrs offs extra st comm)
  case Nil
  then show ?case by (simp add: ret_def)
next
  case (Cons qk sel)
  define b wrs1 extra1 where "b = sc_base comm" and "wrs1 = first_wrs (sc_base comm) slots is ws perDev qk wrs offs"
    and "extra1 = map_option (prepare_extra v comm slot (length is) (nat (qp_devIndex (qps (sc_base comm) ! fst qk)))) extra"
  define first where "first = (qp_mrcQp (qps b ! fst qk), wrs1 @ (case extra1 of None \<Rightarrow> [] | Some e \<Rightarrow> [e]))"
  define b1 where "b1 = mark_sent (snd qk) is b"
  define st1 where "st1 = upd_base (mark_sent (snd qk) is) (st\<lparr> ss_posted := ss_posted st @ [first] \<rparr>)"
  have view: "same_view b1 b" unfolding b1_def by (rule same_view_mark_sent)
  have st1: "ss_comm st1 = comm\<lparr> sc_base := b1 \<rparr>" "ss_posted st1 = ss_posted st @ [first]" "ss_request st1 = ss_request st"
    using Cons.prems(3) by (simp_all add: st1_def upd_base_def b1_def b_def)
  have step: "send_loop v slot slots is ws perDev (qk # sel) wrs offs extra st
      = send_loop v slot slots is ws perDev sel (map advance_wr wrs1) (next_offs b is wrs1 offs) extra1 st1"
    using send_loop_Cons [OF assms(1) Cons.prems(1) _ Cons.prems(3), of qk] Cons.prems(2)
    by (simp add: wrs1_def extra1_def st1_def first_def b_def Let_def)
  have "\<not> resiliency (sc_base (comm\<lparr> sc_base := b1 \<rparr>))" "\<forall>qk \<in> set sel. qp_indices_ok (sc_base (comm\<lparr> sc_base := b1 \<rparr>)) qk"
    using Cons.prems(1,2) view by (auto simp: same_view_def b_def qp_indices_ok_def)
  from Cons.IH [OF this st1(1), of "map advance_wr wrs1" "next_offs b is wrs1 offs" extra1]
  obtain st' where st': "send_loop v slot slots is ws perDev sel (map advance_wr wrs1) (next_offs b is wrs1 offs) extra1 st1 = Some (ncclSuccess, st')"
    "ss_posted st' = ss_posted st1 @ map (chain_at v (comm\<lparr> sc_base := b1 \<rparr>) slot slots is ws perDev sel (map advance_wr wrs1) (next_offs b is wrs1 offs) extra1) [0..<length sel]"
    "same_view (sc_base (ss_comm st')) b1" "ss_comm st' = comm\<lparr> sc_base := b1, sc_base := sc_base (ss_comm st') \<rparr>" "ss_request st' = ss_request st1"
    by auto
  have first: "chain_at v comm slot slots is ws perDev (qk # sel) wrs offs extra 0 = first"
    by (cases extra) (simp_all add: chain_at_def Let_def first_def wrs1_def first_wrs_def b_def wr_run_Cons extra1_def)
  have "ss_posted st' = ss_posted st @ map (chain_at v comm slot slots is ws perDev (qk # sel) wrs offs extra) [0..<length (qk # sel)]"
    unfolding st'(2) st1(2) length_Cons upt_conv_Cons [OF zero_less_Suc] list.map first
    using chain_at_Suc [OF view [unfolded b_def]]
    by (simp add: b_def wrs1_def extra1_def map_Suc_upt [symmetric] comp_def del: upt_Suc)
  moreover have "same_view (sc_base (ss_comm st')) (sc_base comm)" using same_view_trans [OF st'(3) view] by (simp add: b_def)
  ultimately show ?case using step st'(1,4,5) st1(3) by auto
qed

text \<open>Where every share is positive, an empty work request means that the message is complete.\<close>

lemma wr_run_exhausted:
  fixes off :: u32
  assumes "rq_size rq = int sz" "sz < 2 ^ 31" "shares_ok b ws perDev sel" "unat off = sz" "i < length sel"
  shows "bytes (wr_run b cts rq ws perDev sel wr off ! i) = 0"
proof -
  have "sum_list (map bytes (wr_run b cts rq ws perDev sel wr off)) = 0"
    using wr_run_total [OF assms(1-3), of off cts wr] assms(4) by simp
  then show ?thesis using assms(5) by simp
qed

lemma wr_run_zero_suffix:
  fixes off :: u32
  assumes "rq_size rq = int sz" "sz < 2 ^ 31" "shares_ok b ws perDev sel" "unat off \<le> sz"
    "\<forall>qk \<in> set sel. 0 < qp_share b ws perDev sz qk" "i < length sel" "j \<le> i" "bytes (wr_run b cts rq ws perDev sel wr off ! j) = 0"
  shows "bytes (wr_run b cts rq ws perDev sel wr off ! i) = 0"
  using assms(3-)
proof (induction sel arbitrary: wr off i j)
  case (Cons qk sel)
  note f = first_wr_bytes [OF assms(1,2) Cons.prems(1,2), of cts wr]
  have ok: "shares_ok b ws perDev sel" using Cons.prems(1) by (simp add: shares_ok_def)
  show ?case
  proof (cases j)
    case 0
    then have z: "bytes (first_wr b cts rq ws perDev qk wr off) = 0" using Cons.prems(6) by (simp add: wr_run_Cons Let_def)
    then have "unat off = sz" using f(1) Cons.prems(2,3) by (simp add: min_def split: if_splits)
    from wr_run_exhausted [OF assms(1,2) Cons.prems(1) this Cons.prems(4)] show ?thesis .
  next
    case (Suc m)
    then obtain l where l: "i = Suc l" "m \<le> l" using Cons.prems(5) by (cases i) auto
    have "bytes (wr_run b cts rq ws perDev sel (advance_wr (first_wr b cts rq ws perDev qk wr off))
        (advance_off rq off (first_wr b cts rq ws perDev qk wr off)) ! l) = 0"
      using Cons.prems l Suc by (intro Cons.IH [OF ok f(3) _ _ l(2)]) (simp_all add: wr_run_Cons Let_def)
    then show ?thesis by (simp add: l(1) wr_run_Cons Let_def)
  qed
qed simp

section \<open>The slot as a whole\<close>

lemma select_qps_length: "select_qps b rid is = Inr sel \<Longrightarrow> length sel = length is"
  by (induction "is" arbitrary: sel) (auto split: sum.splits)

definition slot_reqs :: "ncclIbSendComm \<Rightarrow> nat \<Rightarrow> nat \<Rightarrow> nat list" where
  "slot_reqs comm slot R = map the (take R (sc_sendReqs comm ! slot))"

definition slot_sel :: "ncclIbSendComm \<Rightarrow> nat \<Rightarrow> nat \<Rightarrow> nat \<Rightarrow> (nat \<times> nat) list" where
  "slot_sel comm slot R N =
     (case select_qps (sc_base comm) (rq_id (reqs (sc_base comm) ! (slot_reqs comm slot R ! 0))) [0..<N] of Inl _ \<Rightarrow> [] | Inr sel \<Rightarrow> sel)"

definition slot_devs :: "ncclIbSendComm \<Rightarrow> nat \<Rightarrow> nat \<Rightarrow> nat \<Rightarrow> nat list" where
  "slot_devs comm slot R N = map (\<lambda>qk. nat (qp_devIndex (qps (sc_base comm) ! snd qk))) (slot_sel comm slot R N)"

text \<open>
  \<open>multi_send_ready comm slot R N\<close>: the slot holds \<open>R\<close> matched requests of at most \<open>2^31 - 1\<close> bytes, \<open>N\<close> queue pairs are
  available, and the weights of the devices they were created on, none above 100, add up to at least 100.
\<close>

definition multi_send_ready :: "ncclIbSendComm \<Rightarrow> nat \<Rightarrow> nat \<Rightarrow> nat \<Rightarrow> bool" where
  "multi_send_ready comm slot R N \<longleftrightarrow>
     0 < R \<and> R \<le> NCCL_NET_IB_MAX_RECVS \<and> sint (sf_nreqs (sc_ctsFifo comm ! slot ! 0)) = int R
     \<and> R \<le> length (sc_sendReqs comm ! slot) \<and> (\<forall>r < R. sc_sendReqs comm ! slot ! r \<noteq> None)
     \<and> \<not> resiliency (sc_base comm) \<and> N \<le> NCCL_IB_MAX_QPS
     \<and> ncclIbCommBaseGetNqpsPerRequest (sc_base comm) = Inr (int N)
     \<and> select_qps (sc_base comm) (rq_id (reqs (sc_base comm) ! (slot_reqs comm slot R ! 0))) [0..<N] = Inr (slot_sel comm slot R N)
     \<and> (\<forall>qk \<in> set (slot_sel comm slot R N). qp_indices_ok (sc_base comm) qk)
     \<and> (\<forall>r < R. 0 \<le> rq_size (reqs (sc_base comm) ! (slot_reqs comm slot R ! r)) \<and> rq_size (reqs (sc_base comm) ! (slot_reqs comm slot R ! r)) < 2 ^ 31)
     \<and> (\<forall>d \<in> set (slot_devs comm slot R N). unat (rq_weights (reqs (sc_base comm) ! (slot_reqs comm slot R ! 0)) ! d) \<le> 100)"

definition slot_weight :: "ncclIbSendComm \<Rightarrow> nat \<Rightarrow> nat \<Rightarrow> nat \<Rightarrow> nat" where
  "slot_weight comm slot R d = unat (rq_weights (reqs (sc_base comm) ! (slot_reqs comm slot R ! 0)) ! d)"

lemma qps_per_dev_count:
  assumes "\<forall>qk \<in> set sel. 0 \<le> qp_devIndex (qps b ! snd qk)" "0 \<le> d"
  shows "qps_per_dev b sel d = int (count_list (map (\<lambda>qk. nat (qp_devIndex (qps b ! snd qk))) sel) (nat d))"
  using assms by (induction sel) (auto simp: qps_per_dev_def case_prod_beta)

lemma multi_send_shares:
  assumes "multi_send_ready comm slot R N"
  defines "sel \<equiv> slot_sel comm slot R N" and "b \<equiv> sc_base comm"
  defines "ws \<equiv> rq_weights (reqs b ! (slot_reqs comm slot R ! 0))"
  shows "shares_ok b ws (qps_per_dev b sel) sel" (is ?ok)
    and "map (qp_share b ws (qps_per_dev b sel) sz) sel
       = map (\<lambda>d. share_nat sz (slot_weight comm slot R d) (count_list (slot_devs comm slot R N) d)) (slot_devs comm slot R N)" (is ?eq)
proof -
  have idx: "\<forall>qk \<in> set sel. qp_indices_ok b qk" and N: "N \<le> 128"
    using assms(1) by (simp_all add: multi_send_ready_def sel_def b_def NCCL_IB_MAX_QPS_def)
  have d0: "\<forall>qk \<in> set sel. 0 \<le> qp_devIndex (qps b ! snd qk)"
    using idx by (auto simp: qp_indices_ok_def)
  have cnt: "nat (qps_per_dev b sel (qp_devIndex (qps b ! snd qk))) = count_list (slot_devs comm slot R N) (nat (qp_devIndex (qps b ! snd qk)))"
    if "qk \<in> set sel" for qk
    using qps_per_dev_count [OF d0] d0 that by (simp add: slot_devs_def sel_def b_def)
  have len: "length sel = N" using assms(1) select_qps_length unfolding multi_send_ready_def sel_def by force
  show ?ok unfolding shares_ok_def Let_def
  proof (intro ballI conjI)
    fix qk
    assume qk: "qk \<in> set sel"
    let ?d = "qp_devIndex (qps b ! snd qk)"
    show "unat (ws ! nat ?d) \<le> 100"
      using assms(1) qk unfolding multi_send_ready_def ws_def b_def sel_def slot_devs_def by auto
    have "qk \<in> set (filter (\<lambda>(q, k). qp_devIndex (qps b ! k) = ?d) sel)" using qk by (simp add: case_prod_beta)
    then have "filter (\<lambda>(q, k). qp_devIndex (qps b ! k) = ?d) sel \<noteq> []" by force
    then show "0 < qps_per_dev b sel ?d" unfolding qps_per_dev_def by simp
    have "length (filter (\<lambda>(q, k). qp_devIndex (qps b ! k) = ?d) sel) \<le> N" using len by (metis length_filter_le)
    then show "qps_per_dev b sel ?d \<le> 128" using N unfolding qps_per_dev_def by simp
  qed
  show ?eq using cnt by (simp add: slot_devs_def qp_share_def Let_def slot_weight_def ws_def b_def sel_def)
qed

definition slot_wrs :: "ib_params \<Rightarrow> ncclIbSendComm \<Rightarrow> nat \<Rightarrow> nat \<Rightarrow> u32 \<Rightarrow> ibv_send_wr list" where
  "slot_wrs p comm slot R imm =
     (let b = sc_base comm; is = slot_reqs comm slot R;
          wrs = map (\<lambda>r. initial_wr slot r (sc_ctsFifo comm ! slot ! r) (reqs b ! (is ! r))) [0..<R]
      in if has_extra_wr p comm R (rq_size (reqs b ! (is ! 0))) then wrs
         else wrs[R - 1 := as_last slot R imm (wrs ! (R - 1))])"

lemma slot_wrs_nth:
  assumes "r < R"
  shows "wr_remote_addr (slot_wrs p comm slot R imm ! r) = sf_addr (sc_ctsFifo comm ! slot ! r)"
    "sge_addr (wr_sge (slot_wrs p comm slot R imm ! r)) = rq_data (reqs (sc_base comm) ! (slot_reqs comm slot R ! r))"
    "wr_num_sge (slot_wrs p comm slot R imm ! r) = 1"
  using assms by (cases "r = R - 1"; simp add: slot_wrs_def Let_def initial_wr_def as_last_def zero_sge_def)+

definition slot_imm :: "ncclIbSendComm \<Rightarrow> nat \<Rightarrow> nat \<Rightarrow> u32" where
  "slot_imm comm slot R =
     (let b = sc_base comm; rq0 = reqs b ! (slot_reqs comm slot R ! 0) in
      if recvMatchingScheme b = BY_ID then ucast (rq_id rq0) else word_of_int (rq_size rq0))"

definition slot_extra :: "ib_params \<Rightarrow> ncclIbSendComm \<Rightarrow> nat \<Rightarrow> nat \<Rightarrow> ibv_send_wr option" where
  "slot_extra p comm slot R =
     (if has_extra_wr p comm R (rq_size (reqs (sc_base comm) ! (slot_reqs comm slot R ! 0)))
      then Some (extra_wr comm slot R (slot_imm comm slot R)) else None)"

text \<open>The posts of a ready slot: the chain on the \<open>j\<close>th queue pair.\<close>

definition slot_post :: "ib_params \<Rightarrow> ib_verbs \<Rightarrow> ncclIbSendComm \<Rightarrow> nat \<Rightarrow> nat \<Rightarrow> nat \<Rightarrow> nat \<Rightarrow> post" where
  "slot_post p v comm slot R N =
     chain_at v comm slot (sc_ctsFifo comm ! slot) (slot_reqs comm slot R)
       (rq_weights (reqs (sc_base comm) ! (slot_reqs comm slot R ! 0))) (qps_per_dev (sc_base comm) (slot_sel comm slot R N))
       (slot_sel comm slot R N) (slot_wrs p comm slot R (slot_imm comm slot R)) (replicate R 0) (slot_extra p comm slot R)"

lemma multi_send_ready_reqs:
  assumes "multi_send_ready comm slot R N"
  shows "length (slot_reqs comm slot R) = R" "sc_sendReqs comm ! slot ! 0 = Some (slot_reqs comm slot R ! 0)"
    "length (slot_sel comm slot R N) = N"
proof -
  have R: "0 < R" "R \<le> length (sc_sendReqs comm ! slot)" "sc_sendReqs comm ! slot ! 0 \<noteq> None"
    using assms by (auto simp: multi_send_ready_def)
  show "length (slot_reqs comm slot R) = R" using R by (simp add: slot_reqs_def)
  show "sc_sendReqs comm ! slot ! 0 = Some (slot_reqs comm slot R ! 0)" using R by (simp add: slot_reqs_def)
  show "length (slot_sel comm slot R N) = N" using assms select_qps_length unfolding multi_send_ready_def by force
qed

lemma multi_send_posts:
  assumes "\<forall>ps q c. v_post_send v ps q c = ncclSuccess" "multi_send_ready (ss_comm st) slot R N"
  shows "\<exists>st'. ncclIbMultiSend p v slot st = Some (ncclSuccess, st')
    \<and> ss_posted st' = ss_posted st @ map (slot_post p v (ss_comm st) slot R N) [0..<N]
    \<and> same_view (sc_base (ss_comm st')) (sc_base (ss_comm st))
    \<and> ss_comm st' = (ss_comm st)\<lparr> sc_base := sc_base (ss_comm st') \<rparr> \<and> ss_request st' = ss_request st"
proof -
  define comm where "comm = ss_comm st"
  have ready: "multi_send_ready comm slot R N" using assms(2) by (simp add: comm_def)
  note rr = multi_send_ready_reqs [OF ready]
  have h: "0 < R" "R \<le> NCCL_NET_IB_MAX_RECVS" "sint (sf_nreqs (sc_ctsFifo comm ! slot ! 0)) = int R" "\<forall>r < R. sc_sendReqs comm ! slot ! r \<noteq> None"
    "\<not> resiliency (sc_base comm)" "N \<le> NCCL_IB_MAX_QPS" "ncclIbCommBaseGetNqpsPerRequest (sc_base comm) = Inr (int N)"
    "select_qps (sc_base comm) (rq_id (reqs (sc_base comm) ! (slot_reqs comm slot R ! 0))) [0..<N] = Inr (slot_sel comm slot R N)"
    "\<forall>qk \<in> set (slot_sel comm slot R N). qp_indices_ok (sc_base comm) qk"
    using ready unfolding multi_send_ready_def by blast+
  have guards: "(int R > int NCCL_NET_IB_MAX_RECVS) = False" "(int N > int NCCL_IB_MAX_QPS) = False"
    "(int R \<le> 0 \<or> (\<exists>r < R. sc_sendReqs comm ! slot ! r = None)) = False"
    using h(1,2,4,6) by auto
  have "ncclIbMultiSend p v slot st
      = send_loop v slot (sc_ctsFifo comm ! slot) (slot_reqs comm slot R) (rq_weights (reqs (sc_base comm) ! (slot_reqs comm slot R ! 0)))
          (qps_per_dev (sc_base comm) (slot_sel comm slot R N)) (slot_sel comm slot R N) (slot_wrs p comm slot R (slot_imm comm slot R))
          (replicate R 0) (slot_extra p comm slot R) st"
    unfolding ncclIbMultiSend_def Let_def comm_def [symmetric] h(3) h(7) chk_val_simps rr(2) option.case nat_int h(8) guards if_False
    by (simp only: slot_wrs_def slot_imm_def slot_extra_def Let_def slot_reqs_def [symmetric])
  then show ?thesis
    using send_loop_posts [OF assms(1) h(5,9) comm_def [symmetric]] rr(3) unfolding slot_post_def comm_def [symmetric] by simp
qed

lemma slot_post_wr:
  assumes "multi_send_ready comm slot R N" "r < R"
  shows "snd (slot_post p v comm slot R N j) ! r =
    wr_run (sc_base comm) (sc_ctsFifo comm ! slot ! r) (reqs (sc_base comm) ! (slot_reqs comm slot R ! r))
      (rq_weights (reqs (sc_base comm) ! (slot_reqs comm slot R ! 0))) (qps_per_dev (sc_base comm) (slot_sel comm slot R N))
      (slot_sel comm slot R N) (slot_wrs p comm slot R (slot_imm comm slot R) ! r) 0 ! j"
  using assms multi_send_ready_reqs(1) [OF assms(1)] by (simp add: slot_post_def chain_at_def Let_def nth_append)

lemma slot_run_num_sge:
  fixes sz :: nat and p :: ib_params and v :: ib_verbs
  assumes "multi_send_ready comm slot R N" "r < R" "rq_size (reqs (sc_base comm) ! (slot_reqs comm slot R ! r)) = int sz" "sz < 2 ^ 31"
    "\<forall>d \<in> set (slot_devs comm slot R N). 0 < slot_weight comm slot R d" "i < N"
  defines "run \<equiv> map (\<lambda>j. snd (slot_post p v comm slot R N j) ! r) [0..<N]"
  assumes "bytes (run ! i) \<noteq> 0"
  shows "wr_num_sge (run ! i) = 1"
proof -
  define b ws sel where "b = sc_base comm" and "ws = rq_weights (reqs (sc_base comm) ! (slot_reqs comm slot R ! 0))" and "sel = slot_sel comm slot R N"
  define rn where "rn = wr_run b (sc_ctsFifo comm ! slot ! r) (reqs b ! (slot_reqs comm slot R ! r)) ws (qps_per_dev b sel) sel
    (slot_wrs p comm slot R (slot_imm comm slot R) ! r) 0"
  have len: "length sel = N" using multi_send_ready_reqs(3) [OF assms(1)] by (simp add: sel_def)
  have run: "run = rn"
    by (rule nth_equalityI) (use len in \<open>simp_all add: run_def rn_def slot_post_wr [OF assms(1,2)] b_def ws_def sel_def\<close>)
  note sz = assms(3,4) [folded b_def]
  note ok = multi_send_shares(1) [OF assms(1), folded sel_def ws_def, folded b_def]
  note shares = multi_send_shares(2) [OF assms(1), of sz, folded sel_def ws_def, folded b_def]
  have "0 < sz"
  proof (rule ccontr)
    assume "\<not> 0 < sz"
    then have "bytes (rn ! i) = 0" unfolding rn_def using sz assms(6) len by (intro wr_run_exhausted [OF _ _ ok]) auto
    with assms(8) run show False by simp
  qed
  have "\<forall>t \<in> set (map (qp_share b ws (qps_per_dev b sel) sz) sel). 0 < t"
    unfolding shares using assms(5) \<open>0 < sz\<close> by (auto intro!: share_nat_pos) (metis count_list_0_iff neq0_conv)
  then have pos: "\<forall>qk \<in> set sel. 0 < qp_share b ws (qps_per_dev b sel) sz qk" by simp
  have il: "i < length sel" unfolding len by (rule assms(6))
  have o: "unat (0 :: u32) \<le> sz" by simp
  have nz: "bytes (rn ! j) \<noteq> 0" if "j \<le> i" for j
  proof
    assume "bytes (rn ! j) = 0"
    then have "bytes (rn ! i) = 0"
      unfolding rn_def by (rule wr_run_zero_suffix [OF sz ok o pos il that])
    then show False using assms(8) unfolding run by (rule notE [rotated])
  qed
  have "0 \<notin> set (map bytes (take (Suc i) rn))"
  proof
    assume "0 \<in> set (map bytes (take (Suc i) rn))"
    then obtain j where "j < Suc i" "bytes (rn ! j) = 0" by (auto simp: in_set_conv_nth)
    then show False using nz [of j] by simp
  qed
  then show ?thesis
    using wr_run_num_sge [of i sel] assms(6) len slot_wrs_nth(3) [OF assms(2)] unfolding run rn_def by (simp del: take_Suc)
qed

lemma slot_run_chunks:
  fixes sz :: nat and p :: ib_params and v :: ib_verbs
  assumes "multi_send_ready comm slot R N" "r < R" "rq_size (reqs (sc_base comm) ! (slot_reqs comm slot R ! r)) = int sz" "sz < 2 ^ 31"
  defines "run \<equiv> map (\<lambda>j. snd (slot_post p v comm slot R N j) ! r) [0..<N]"
  shows "sum_list (map bytes run)
      = min sz (sum_list (map (\<lambda>d. share_nat sz (slot_weight comm slot R d) (count_list (slot_devs comm slot R N) d)) (slot_devs comm slot R N)))"
    and "i < N \<Longrightarrow> wr_remote_addr (run ! i) = sf_addr (sc_ctsFifo comm ! slot ! r) + word_of_nat (sum_list (map bytes (take i run)))
      \<and> sge_addr (wr_sge (run ! i)) = rq_data (reqs (sc_base comm) ! (slot_reqs comm slot R ! r)) + word_of_nat (sum_list (map bytes (take i run)))"
    and "i < N \<Longrightarrow> 128 dvd bytes (run ! i) \<or> sum_list (map bytes (take (Suc i) run)) = sz"
    and "i < N \<Longrightarrow> bytes (run ! 0) = 0 \<Longrightarrow> wr_num_sge (run ! i) = 0"
proof -
  define b ws sel where "b = sc_base comm" and "ws = rq_weights (reqs (sc_base comm) ! (slot_reqs comm slot R ! 0))" and "sel = slot_sel comm slot R N"
  define rn where "rn = wr_run b (sc_ctsFifo comm ! slot ! r) (reqs b ! (slot_reqs comm slot R ! r)) ws (qps_per_dev b sel) sel
    (slot_wrs p comm slot R (slot_imm comm slot R) ! r) 0"
  have len: "length sel = N" using multi_send_ready_reqs(3) [OF assms(1)] by (simp add: sel_def)
  have run: "run = rn"
    by (rule nth_equalityI) (use len in \<open>simp_all add: run_def rn_def slot_post_wr [OF assms(1,2)] b_def ws_def sel_def\<close>)
  note sz = assms(3,4) [folded b_def]
  note ok = multi_send_shares(1) [OF assms(1), folded sel_def ws_def, folded b_def]
  note shares = multi_send_shares(2) [OF assms(1), of sz, folded sel_def ws_def, folded b_def]
  show "sum_list (map bytes run)
      = min sz (sum_list (map (\<lambda>d. share_nat sz (slot_weight comm slot R d) (count_list (slot_devs comm slot R N) d)) (slot_devs comm slot R N)))"
    unfolding shares [symmetric] run rn_def using wr_run_total [OF sz ok, of 0] by simp
  show "i < N \<Longrightarrow> wr_remote_addr (run ! i) = sf_addr (sc_ctsFifo comm ! slot ! r) + word_of_nat (sum_list (map bytes (take i run)))
      \<and> sge_addr (wr_sge (run ! i)) = rq_data (reqs (sc_base comm) ! (slot_reqs comm slot R ! r)) + word_of_nat (sum_list (map bytes (take i run)))"
    unfolding run rn_def using wr_run_addr [of i sel] len slot_wrs_nth(1,2) [OF assms(2)] by simp
  show "i < N \<Longrightarrow> 128 dvd bytes (run ! i) \<or> sum_list (map bytes (take (Suc i) run)) = sz"
    unfolding run rn_def using wr_run_aligned [OF sz ok, of 0 i] len by simp
  show "wr_num_sge (run ! i) = 0" if i: "i < N" and z: "bytes (run ! 0) = 0"
  proof -
    have "rn ! 0 \<in> set (take (Suc i) rn)" using i len by (cases rn) (simp_all add: rn_def [symmetric] run [symmetric] run_def)
    then have "0 \<in> set (map bytes (take (Suc i) rn))" using z unfolding run by force
    then show ?thesis using wr_run_num_sge [of i sel] i len unfolding run rn_def by (simp del: take_Suc)
  qed
qed

text \<open>C1 what a multi-send posts: when the queue pairs and the CTS entries are valid and the weights of the devices in use add up to at
  least 100, \<open>ncclIbMultiSend\<close> succeeds and posts one chain per queue pair such that, for each request of the slot, the pieces
  follow each other in local and remote memory without gap or overlap, are multiples of 128 bytes except where the
  message ends, and add up to exactly the message. If every device in use has a positive weight, each
  non-empty piece really carries a gather entry.\<close>

theorem multi_send_partitions:
  assumes "\<forall>ps q c. v_post_send v ps q c = ncclSuccess" "multi_send_ready (ss_comm st) slot R N"
    "100 \<le> (\<Sum>d \<in> set (slot_devs (ss_comm st) slot R N). slot_weight (ss_comm st) slot R d)"
  shows "\<exists>st' posts. ncclIbMultiSend p v slot st = Some (ncclSuccess, st') \<and> ss_posted st' = ss_posted st @ posts \<and> length posts = N
    \<and> (\<forall>r < R. let rq = reqs (sc_base (ss_comm st)) ! (slot_reqs (ss_comm st) slot R ! r); wrs = map (\<lambda>post. snd post ! r) posts in
        int (sum_list (map bytes wrs)) = rq_size rq
        \<and> (\<forall>i < N. wr_remote_addr (wrs ! i) = sf_addr (sc_ctsFifo (ss_comm st) ! slot ! r) + word_of_nat (sum_list (map bytes (take i wrs)))
             \<and> sge_addr (wr_sge (wrs ! i)) = rq_data rq + word_of_nat (sum_list (map bytes (take i wrs)))
             \<and> (128 dvd bytes (wrs ! i) \<or> int (sum_list (map bytes (take (Suc i) wrs))) = rq_size rq)
             \<and> ((\<forall>d \<in> set (slot_devs (ss_comm st) slot R N). 0 < slot_weight (ss_comm st) slot R d) \<longrightarrow> bytes (wrs ! i) \<noteq> 0 \<longrightarrow> wr_num_sge (wrs ! i) = 1)))"
proof -
  define comm where "comm = ss_comm st"
  define posts where "posts = map (slot_post p v comm slot R N) [0..<N]"
  have ready: "multi_send_ready comm slot R N" using assms(2) by (simp add: comm_def)
  obtain st' where st': "ncclIbMultiSend p v slot st = Some (ncclSuccess, st')" "ss_posted st' = ss_posted st @ posts"
    using multi_send_posts [OF assms(1,2), of p] unfolding posts_def comm_def by blast
  have wrs: "map (\<lambda>post. snd post ! r) posts = map (\<lambda>j. snd (slot_post p v comm slot R N j) ! r) [0..<N]" for r
    by (simp add: posts_def)
  have size: "\<exists>sz. rq_size (reqs (sc_base comm) ! (slot_reqs comm slot R ! r)) = int sz \<and> sz < 2 ^ 31" if "r < R" for r
    using ready that unfolding multi_send_ready_def by (metis nat_eq_iff2 nat_less_numeral_power_cancel_iff)
  have cover: "min sz (sum_list (map (\<lambda>d. share_nat sz (slot_weight comm slot R d) (count_list (slot_devs comm slot R N) d)) (slot_devs comm slot R N))) = sz" for sz
    using shares_cover [of "slot_weight comm slot R" "slot_devs comm slot R N" sz] assms(3) by (simp add: comm_def)
  show ?thesis
  proof (rule exI [of _ st'], rule exI [of _ posts], intro conjI allI impI)
    fix r
    assume r: "r < R"
    from size [OF r] obtain sz where sz: "rq_size (reqs (sc_base comm) ! (slot_reqs comm slot R ! r)) = int sz" "sz < 2 ^ 31" by blast
    show "let rq = reqs (sc_base (ss_comm st)) ! (slot_reqs (ss_comm st) slot R ! r); wrs = map (\<lambda>post. snd post ! r) posts in
        int (sum_list (map bytes wrs)) = rq_size rq
        \<and> (\<forall>i < N. wr_remote_addr (wrs ! i) = sf_addr (sc_ctsFifo (ss_comm st) ! slot ! r) + word_of_nat (sum_list (map bytes (take i wrs)))
             \<and> sge_addr (wr_sge (wrs ! i)) = rq_data rq + word_of_nat (sum_list (map bytes (take i wrs)))
             \<and> (128 dvd bytes (wrs ! i) \<or> int (sum_list (map bytes (take (Suc i) wrs))) = rq_size rq)
             \<and> ((\<forall>d \<in> set (slot_devs (ss_comm st) slot R N). 0 < slot_weight (ss_comm st) slot R d) \<longrightarrow> bytes (wrs ! i) \<noteq> 0 \<longrightarrow> wr_num_sge (wrs ! i) = 1))"
      unfolding Let_def wrs comm_def [symmetric] sz(1) of_nat_eq_iff
    proof (intro conjI allI impI)
      fix i
      assume i: "i < N"
      show "128 dvd bytes (map (\<lambda>j. snd (slot_post p v comm slot R N j) ! r) [0..<N] ! i)
          \<or> sum_list (map bytes (take (Suc i) (map (\<lambda>j. snd (slot_post p v comm slot R N j) ! r) [0..<N]))) = sz"
        by (rule slot_run_chunks(3) [OF ready r sz i])
    qed (rule slot_run_chunks(2) [OF ready r sz, THEN conjunct1] slot_run_chunks(2) [OF ready r sz, THEN conjunct2]
        slot_run_num_sge [OF ready r sz] trans [OF slot_run_chunks(1) [OF ready r sz] cover]; assumption?)+
  qed (use st' in \<open>simp_all add: posts_def\<close>)
qed

text \<open>C38 a device of weight 0 loses the message: \<open>num_sge\<close>, once cleared for an empty piece, stays cleared on the queue pairs that
  follow. If the device of the first queue pair has weight 0, none of the work requests of the slot carries a byte, on no
  queue pair, although the call succeeds and the weights of the others may well add up to 100.\<close>

theorem multi_send_zero_weight_drops:
  assumes "\<forall>ps q c. v_post_send v ps q c = ncclSuccess" "multi_send_ready (ss_comm st) slot R N" "0 < N"
    "slot_weight (ss_comm st) slot R (slot_devs (ss_comm st) slot R N ! 0) = 0"
  shows "\<exists>st' posts. ncclIbMultiSend p v slot st = Some (ncclSuccess, st') \<and> ss_posted st' = ss_posted st @ posts
    \<and> (\<forall>r < R. \<forall>post \<in> set posts. wr_num_sge (snd post ! r) = 0)"
proof -
  define comm where "comm = ss_comm st"
  have ready: "multi_send_ready comm slot R N" using assms(2) by (simp add: comm_def)
  define posts where "posts = map (slot_post p v comm slot R N) [0..<N]"
  obtain st' where st': "ncclIbMultiSend p v slot st = Some (ncclSuccess, st')" "ss_posted st' = ss_posted st @ posts"
    using multi_send_posts [OF assms(1,2), of p] unfolding posts_def comm_def by blast
  have "wr_num_sge (snd (slot_post p v comm slot R N i) ! r) = 0" if r: "r < R" and i: "i < N" for r i
  proof -
    define sel b where "sel = slot_sel comm slot R N" and "b = sc_base comm"
    define ws where "ws = rq_weights (reqs b ! (slot_reqs comm slot R ! 0))"
    obtain sz where sz: "rq_size (reqs (sc_base comm) ! (slot_reqs comm slot R ! r)) = int sz" "sz < 2 ^ 31"
      using ready r unfolding multi_send_ready_def by (metis nat_eq_iff2 nat_less_numeral_power_cancel_iff)
    obtain qk sel' where sel: "sel = qk # sel'"
      using multi_send_ready_reqs(3) [OF ready] assms(3) unfolding sel_def by (metis length_greater_0_conv neq_Nil_conv)
    note ok = multi_send_shares(1) [OF ready, folded sel_def b_def, folded ws_def]
    have "unat (ws ! nat (qp_devIndex (qps b ! snd qk))) = 0"
      using assms(4) unfolding comm_def [symmetric] slot_weight_def slot_devs_def sel_def [symmetric] sel ws_def b_def by simp
    then have "qp_share b ws (qps_per_dev b sel) sz qk = 0"
      by (simp add: qp_share_def Let_def)
    then have "bytes (map (\<lambda>j. snd (slot_post p v comm slot R N j) ! r) [0..<N] ! 0) = 0"
      using first_wr_bytes(1) [OF sz ok [unfolded sel], of 0] assms(3)
      by (simp add: slot_post_wr [OF ready r] b_def [symmetric] sel_def [symmetric] ws_def [symmetric] sel wr_run_Cons Let_def)
    from slot_run_chunks(4) [OF ready r sz i this] i show ?thesis by simp
  qed
  then show ?thesis using st' by (intro exI [of _ st'] exI [of _ posts]) (auto simp: posts_def)
qed

section \<open>An example\<close>

text \<open>Two devices with one queue pair each, and a request of 1000 bytes with the weights \<open>ws\<close>.\<close>

definition example_send :: "u8 list \<Rightarrow> send_st" where
  "example_send ws = \<lparr> ss_comm = zero_sendComm\<lparr>
       sc_base := zero_base\<lparr> vProps := \<lparr> ndevs = 2, devs = [0, 1, 0, 0, 0, 0, 0, 0] \<rparr>, isSend := True, ready := 1,
         qps := [zero_qp\<lparr> qp_mrcQp := 100 \<rparr>, zero_qp\<lparr> qp_mrcQp := 101, qp_devIndex := 1, qp_remDevIdx := 1 \<rparr>],
         activeQps := [Some 0, Some 1], nqps := 2, nDataQps := 2,
         reqs := [zero_request\<lparr> rq_type := REQ_SEND, rq_nreqs := 1, rq_size := 1000, rq_data := 4096, rq_weights := ws \<rparr>] \<rparr>,
       sc_ctsFifo := [[zero_fifo\<lparr> sf_addr := 65536, sf_size := 1000, sf_nreqs := 1, sf_idx := 1 \<rparr>]],
       sc_sendReqs := [[Some 0]] \<rparr>, ss_posted = [], ss_request = None \<rparr>"

definition example_verbs :: ib_verbs where
  "example_verbs = \<lparr> v_post_send = \<lambda>ps q c. ncclSuccess, v_sizes_addr = \<lambda>_. 0 \<rparr>"

lemma example_verbs_ok: "\<forall>ps q c. v_post_send example_verbs ps q c = ncclSuccess"
  by (simp add: example_verbs_def)

lemma example_sel:
  "select_qps (sc_base (ss_comm (example_send ws))) 0 [0..<2] = Inr [(0, 0), (1, 1)]"
  by (simp add: upt_two example_send_def ncclIbCommBaseGetQpForRequest_def ncclIbCommBaseGetNqpsPerRequest_def zero_base_def)

lemma example_slot:
  "slot_reqs (ss_comm (example_send ws)) 0 1 = [0]" "slot_sel (ss_comm (example_send ws)) 0 1 2 = [(0, 0), (1, 1)]"
  "slot_devs (ss_comm (example_send ws)) 0 1 2 = [0, 1]"
  "slot_weight (ss_comm (example_send ws)) 0 1 d = unat (ws ! d)"
proof -
  show r: "slot_reqs (ss_comm (example_send ws)) 0 1 = [0]" by (simp add: slot_reqs_def example_send_def)
  have i: "rq_id (reqs (sc_base (ss_comm (example_send ws))) ! 0) = 0" by (simp add: example_send_def zero_request_def)
  show s: "slot_sel (ss_comm (example_send ws)) 0 1 2 = [(0, 0), (1, 1)]"
    unfolding slot_sel_def r nth_Cons_0 i example_sel by simp
  show "slot_devs (ss_comm (example_send ws)) 0 1 2 = [0, 1]"
    unfolding slot_devs_def s by (simp add: example_send_def zero_qp_def)
  show "slot_weight (ss_comm (example_send ws)) 0 1 d = unat (ws ! d)"
    unfolding slot_weight_def r by (simp add: example_send_def)
qed

lemma example_send_ready:
  assumes "unat (ws ! 0) \<le> 100" "unat (ws ! 1) \<le> 100"
  shows "multi_send_ready (ss_comm (example_send ws)) 0 1 2"
  unfolding multi_send_ready_def example_slot nth_Cons_0
  using assms example_sel [of ws]
  by (simp add: example_send_def NCCL_NET_IB_MAX_RECVS_def NCCL_IB_MAX_QPS_def NCCL_IB_MAX_DEVS_PER_NIC_def zero_base_def zero_request_def
      zero_qp_def qp_indices_ok_def ncclIbCommBaseGetNqpsPerRequest_def)

theorem multi_send_partitions_witness:
  "\<exists>st' posts. ncclIbMultiSend default_params example_verbs 0 (example_send [80, 20]) = Some (ncclSuccess, st')
     \<and> ss_posted st' = posts \<and> length posts = 2 \<and> int (sum_list (map bytes (map (\<lambda>post. snd post ! 0) posts))) = 1000"
proof -
  have "100 \<le> (\<Sum>d \<in> set (slot_devs (ss_comm (example_send [80, 20])) 0 1 2). slot_weight (ss_comm (example_send [80, 20])) 0 1 d)"
    unfolding example_slot by simp
  moreover have "multi_send_ready (ss_comm (example_send [80, 20])) 0 1 2" by (rule example_send_ready) simp_all
  moreover have "rq_size (reqs (sc_base (ss_comm (example_send [80, 20]))) ! 0) = 1000" "ss_posted (example_send [80, 20]) = []"
    by (simp_all add: example_send_def)
  ultimately show ?thesis
    using multi_send_partitions [OF example_verbs_ok, of "example_send [80, 20]" 0 1 2 default_params]
    unfolding example_slot by (auto simp: Let_def)
qed

theorem multi_send_zero_weight_drops_witness:
  "\<exists>st' posts. ncclIbMultiSend default_params example_verbs 0 (example_send [0, 100]) = Some (ncclSuccess, st')
     \<and> ss_posted st' = posts \<and> (\<forall>post \<in> set posts. wr_num_sge (snd post ! 0) = 0)"
proof -
  have r: "multi_send_ready (ss_comm (example_send [0, 100])) 0 1 2" by (rule example_send_ready) simp_all
  have w: "slot_weight (ss_comm (example_send [0, 100])) 0 1 (slot_devs (ss_comm (example_send [0, 100])) 0 1 2 ! 0) = 0"
    unfolding example_slot by simp
  have "ss_posted (example_send [0, 100]) = []" by (simp add: example_send_def)
  with multi_send_zero_weight_drops [OF example_verbs_ok r _ w, of default_params] show ?thesis by auto
qed

end
