(* ===== verification/NetIb_Recv.thy ===== *)
theory NetIb_Recv
  imports NetIb_Send
begin

text \<open>
  The receiving side of \<open>net/transport/net_ib/p2p.cc\<close> and \<open>p2p.h\<close>: \<open>ncclIbPostFifo\<close>, \<open>ncclIbIrecv\<close>, \<open>ncclIbIflush\<close> and the speed update to the
  sender. The argument \<open>v\<close> is the verbs library: the codes of its post functions and the addresses of
  the local buffers. \<open>ncclIbCreateFlushQp\<close> is an argument of \<open>ncclIbIflush\<close>.
\<close>

record ib_rverbs =
  rv_post_send :: "nat \<Rightarrow> ibv_send_wr \<Rightarrow> ncclResult"
  rv_post_recv :: "nat \<Rightarrow> u64 \<Rightarrow> ncclResult"
  rv_ibv_post_send :: "nat \<Rightarrow> ibv_send_wr \<Rightarrow> ncclResult"
  rv_cts_addr :: "nat \<Rightarrow> u64"
  rv_speed_addr :: u64

text \<open>The state of a call: the communicator, what was posted on the data queue pairs, on the receive queues and on the
  flush queue pairs, and the cell \<open>*request\<close>.\<close>

record recv_st =
  rs_comm :: ncclIbRecvComm
  rs_posted :: "(nat \<times> ibv_send_wr) list"
  rs_recvs :: "(nat \<times> u64) list"
  rs_flushes :: "(nat \<times> ibv_send_wr) list"
  rs_request :: "nat option"

definition upd_rbase :: "(ncclIbNetCommBase \<Rightarrow> ncclIbNetCommBase) \<Rightarrow> recv_st \<Rightarrow> recv_st" where
  "upd_rbase f st = st\<lparr> rs_comm := (rs_comm st)\<lparr> rc_base := f (rc_base (rs_comm st)) \<rparr> \<rparr>"

definition set_req :: "nat \<Rightarrow> ncclIbRequest \<Rightarrow> ncclIbNetCommBase \<Rightarrow> ncclIbNetCommBase" where
  "set_req i req b = b\<lparr> reqs := (reqs b)[i := req] \<rparr>"

definition post_data :: "ib_rverbs \<Rightarrow> nat \<Rightarrow> ibv_send_wr \<Rightarrow> recv_st \<Rightarrow> recv_st outcome" where
  "post_data v qp wr st =
     (let r = rv_post_send v qp wr in ret r (if nccl_ok r then st\<lparr> rs_posted := rs_posted st @ [(qp, wr)] \<rparr> else st))"

definition post_recv :: "ib_rverbs \<Rightarrow> nat \<Rightarrow> recv_st \<Rightarrow> recv_st outcome" where
  "post_recv v qp st =
     (let w = rc_ibRecvWorkRequest (rs_comm st); r = rv_post_recv v qp w
      in ret r (if nccl_ok r then st\<lparr> rs_recvs := rs_recvs st @ [(qp, w)] \<rparr> else st))"

section \<open>Clear to send\<close>

definition ncclIbRecvCommGetQpForCts :: "ncclIbNetCommBase \<Rightarrow> u32 \<Rightarrow> ncclResult + nat" where
  "ncclIbRecvCommGetQpForCts b rid =
     (case ncclIbCommBaseGetQpByIndex b (uint (rid mod word_of_int (ndevs (vProps b)))) 0 of
        Inl r \<Rightarrow> Inl r
      | Inr None \<Rightarrow> Inl ncclInternalError
      | Inr (Some q) \<Rightarrow> Inr q)"

definition sizeof_send_fifo :: u64 where "sizeof_send_fifo = 64"

text \<open>\<open>devIndex\<close> and \<open>remDevIdx\<close> of the queue pair index the devices of the two sides.\<close>

definition ncclIbPostFifo :: "ib_rverbs \<Rightarrow> ncclIbRequest \<Rightarrow> nat \<Rightarrow> recv_st \<Rightarrow> recv_st outcome" where
  "ncclIbPostFifo v req slot st =
     (let comm = rs_comm st; b = rc_base comm in
      chk_val (ncclIbRecvCommGetQpForCts b (ucast (rq_id req))) st (\<lambda>q.
        let qp = qps b ! q in
        deref (at (remDevs b) (qp_remDevIdx qp)) (\<lambda>rem.
        deref (at (rc_devs comm) (qp_devIndex qp)) (\<lambda>dev.
          let len = word_of_int (rq_nreqs req) * ucast sizeof_send_fifo;
              sig = (int slot = qp_devIndex qp \<or> resiliency b);
              wr = \<lparr> wr_id = (if sig then word_of_nat slot else 0),
                     wr_sge = (rcd_sge dev)\<lparr> sge_addr := rv_cts_addr v slot, sge_length := len \<rparr>,
                     wr_num_sge = 1, wr_op = WR_RDMA_WRITE, wr_signaled = sig,
                     wr_inline = (rcf_inline (rc_remCtsFifo comm) \<and> \<not> len > qp_maxInlineData qp),
                     wr_imm_data = 0,
                     wr_remote_addr = rcf_addr (rc_remCtsFifo comm) + word_of_nat (slot * NCCL_NET_IB_MAX_RECVS) * sizeof_send_fifo,
                     wr_rkey = di_rkey rem \<rparr>
          in chk (post_data v (qp_mrcQp qp) wr st) (ret ncclSuccess)))))"

section \<open>Posting a receive\<close>

text \<open>The loop over the queue pairs: an event each, and a receive work request unless they are pre-posted.\<close>

fun recv_loop :: "ib_rverbs \<Rightarrow> nat \<Rightarrow> nat \<Rightarrow> nat list \<Rightarrow> recv_st \<Rightarrow> recv_st outcome" where
  "recv_loop v slot i [] st = ret ncclSuccess st"
| "recv_loop v slot i (q # qs) st =
     (let b = rc_base (rs_comm st); qp = qps b ! q in
      deref (ncclIbAddEvent (reqs b ! i) (qp_devIndex qp)) (\<lambda>req.
        let st1 = upd_rbase (set_req i req) st in
        if rc_prepostReceiveWorkRequests (rs_comm st1) then recv_loop v slot i qs st1
        else (let st2 = st1\<lparr> rs_comm := (rs_comm st1)\<lparr> rc_ibRecvWorkRequest := word_of_nat slot \<rparr> \<rparr>
              in chk (post_recv v (qp_mrcQp qp) st2) (recv_loop v slot i qs))))"

definition zero_sizes :: "nat \<Rightarrow> ncclIbRequestCompletionRecord \<Rightarrow> ncclIbRequestCompletionRecord" where
  "zero_sizes n rec = rec\<lparr> cr_sizes := replicate n 0 @ drop n (cr_sizes rec), cr_completions := replicate NCCL_IB_MAX_QPS False \<rparr>"

text \<open>One entry of the CTS message; \<open>rkeys\<close> of devices the communicator does not have keep their old value.\<close>

definition cts_entry :: "int \<Rightarrow> nat \<Rightarrow> u64 \<Rightarrow> size_t \<Rightarrow> u32 \<Rightarrow> ncclIbMrHandle \<Rightarrow> u64 \<Rightarrow> ncclIbSendFifo \<Rightarrow> ncclIbSendFifo" where
  "cts_entry nd n data sz tag mh idx e =
     e\<lparr> sf_addr := data, sf_rkeys := map (\<lambda>j. if j < nat nd then mr_rkey (mh ! j) else sf_rkeys e ! j) [0..<length (sf_rkeys e)],
        sf_nreqs := word_of_nat n, sf_size := sz, sf_tag := tag, sf_idx := idx \<rparr>"

definition cts_row :: "int \<Rightarrow> u64 list \<Rightarrow> size_t list \<Rightarrow> u32 list \<Rightarrow> ncclIbMrHandle list \<Rightarrow> u64 \<Rightarrow> nat \<Rightarrow> ncclIbSendFifo list \<Rightarrow> ncclIbSendFifo list" where
  "cts_row nd data sizes tags mhs idx n row =
     map (\<lambda>i. if i < n then cts_entry nd n (data ! i) (sizes ! i) (tags ! i) (mhs ! i) idx (row ! i) else row ! i) [0..<length row]"

definition ncclIbIrecv :: "ib_params \<Rightarrow> ib_rverbs \<Rightarrow> u64 list \<Rightarrow> size_t list \<Rightarrow> u32 list \<Rightarrow> ncclIbMrHandle list \<Rightarrow> recv_st \<Rightarrow> recv_st outcome" where
  "ncclIbIrecv p v data sizes tags mhs st =
     (let comm = rs_comm st; b = rc_base comm; n = length data in
      if ready b = 0 then ret ncclInternalError (st\<lparr> rs_request := None \<rparr>)
      else if n > NCCL_NET_IB_MAX_RECVS then ret ncclInternalError st
      else chk (ret (ncclIbStatsCheckFatalCount p (b_stats b)) st) (\<lambda>st.
        chk_val (ncclIbCommBaseGetNqpsPerRequest b) st (\<lambda>nq.
          if nq > int NCCL_IB_MAX_QPS then ret ncclInternalError st
          else chk_val (select_qps b (fifoHead b) [0..<nat nq]) st (\<lambda>sel.
            chk_val (ncclIbGetRequest b) st (\<lambda>(i, b1).
              let slot = unat (fifoHead b mod word_of_nat NET_IB_MAX_REQUESTS);
                  req = (reqs b1 ! i)\<lparr> rq_id := fifoHead b, rq_type := REQ_RECV, rq_nreqs := int n \<rparr>;
                  req1 = (if resiliency b
                          then req\<lparr> rq_devBases := map (\<lambda>d. d < nat (ndevs (vProps b)) \<or> rq_devBases req ! d) [0..<length (rq_devBases req)] \<rparr>
                          else req);
                  st1 = st\<lparr> rs_comm := comm\<lparr> rc_base := set_req i req1 b1, rc_recvReqs := (rc_recvReqs comm)[slot := Some i] \<rparr> \<rparr>
              in chk (recv_loop v slot i (map fst sel) st1) (\<lambda>st2.
                let comm2 = rs_comm st2; b2 = rc_base comm2;
                    req2 = (reqs b2 ! i)\<lparr> rq_aggSize := 0, rq_cmplsRecords := slot \<rparr>;
                    fifo = rc_remCtsFifo comm2;
                    comm3 = comm2\<lparr> rc_base := set_req i req2 b2,
                       rc_cmplsRecords := (rc_cmplsRecords comm2)[slot := zero_sizes n (rc_cmplsRecords comm2 ! slot)],
                       rc_remCtsFifo := fifo\<lparr> rcf_elems := (rcf_elems fifo)
                          [slot := cts_row (ndevs (vProps b2)) data sizes tags mhs (fifoHead b2 + 1) n (rcf_elems fifo ! slot)] \<rparr> \<rparr>
                in chk (ncclIbPostFifo v req2 slot (st2\<lparr> rs_comm := comm3 \<rparr>)) (\<lambda>st3.
                  ret ncclSuccess ((upd_rbase (\<lambda>b. b\<lparr> fifoHead := fifoHead b + 1 \<rparr>) st3)\<lparr> rs_request := Some i \<rparr>))))))))"

section \<open>Flushing\<close>

definition last_nonzero :: "int list \<Rightarrow> nat option" where
  "last_nonzero sizes = find (\<lambda>i. sizes ! i \<noteq> 0) (rev [0..<length sizes])"

fun flush_loop :: "ib_rverbs \<Rightarrow> u64 \<Rightarrow> ncclIbMrHandle \<Rightarrow> nat \<Rightarrow> nat list \<Rightarrow> recv_st \<Rightarrow> recv_st outcome" where
  "flush_loop v data mh i [] st = ret ncclSuccess st"
| "flush_loop v data mh i (d # ds) st =
     (if length mh \<le> d \<or> length (rc_devs (rs_comm st)) \<le> d then None
      else
       (let gf = rcd_gpuFlush (rc_devs (rs_comm st) ! d);
            wr = \<lparr> wr_id = word_of_nat i + NCCL_IB_FLUSH_REQ_WR_ID_OFFSET, wr_sge = gf_sge gf, wr_num_sge = 1, wr_op = WR_RDMA_READ,
                   wr_signaled = True, wr_inline = False, wr_imm_data = 0, wr_remote_addr = data, wr_rkey = mr_rkey (mh ! d) \<rparr>;
            r = rv_ibv_post_send v (gf_qp gf) wr
        in chk (ret r (if nccl_ok r then st\<lparr> rs_flushes := rs_flushes st @ [(gf_qp gf, wr)] \<rparr> else st)) (\<lambda>st.
             deref (ncclIbAddEvent (reqs (rc_base (rs_comm st)) ! i) (int d)) (\<lambda>req.
               flush_loop v data mh i ds (upd_rbase (set_req i req) st)))))"

definition ncclIbIflush :: "ib_rverbs \<Rightarrow> (recv_st \<Rightarrow> recv_st outcome) \<Rightarrow> u64 list \<Rightarrow> int list \<Rightarrow> ncclIbMrHandle list \<Rightarrow> recv_st \<Rightarrow> recv_st outcome" where
  "ncclIbIflush v createFlushQp data sizes mhs st =
     (case last_nonzero sizes of
        None \<Rightarrow> ret ncclSuccess st
      | Some l \<Rightarrow>
         if rc_flushEnabled (rs_comm st) = 0 then ret ncclSuccess st
         else chk (createFlushQp st) (\<lambda>st.
           chk_val (ncclIbGetRequest (rc_base (rs_comm st))) st (\<lambda>(i, b1).
             let st1 = upd_rbase (\<lambda>_. set_req i ((reqs b1 ! i)\<lparr> rq_type := REQ_FLUSH \<rparr>) b1) st
             in chk (flush_loop v (data ! l) (mhs ! l) i [0..<nat (ndevs (vProps b1))] st1) (\<lambda>st2.
                  ret ncclSuccess (st2\<lparr> rs_request := Some i \<rparr>)))))"

section \<open>Announcing speeds to the sender\<close>

definition dev_gbps :: "ib_globals \<Rightarrow> ncclIbNetCommBase \<Rightarrow> nat \<Rightarrow> u16 option" where
  "dev_gbps g b i =
     deref (at (devs (vProps b)) (int i)) (\<lambda>d. deref (at (ncclIbDevs g) d) (\<lambda>dev. Some (ucast (dev_currSpeed dev div 1000))))"

fun new_speeds :: "ib_globals \<Rightarrow> ncclIbNetCommBase \<Rightarrow> nat list \<Rightarrow> u16 list option" where
  "new_speeds g b [] = Some []"
| "new_speeds g b (i # is) = deref (dev_gbps g b i) (\<lambda>s. map_option ((#) s) (new_speeds g b is))"

definition sizeof_speed_buf :: u32 where "sizeof_speed_buf = 32"

definition ncclIbPostSpeedUpdateToRemote :: "ib_globals \<Rightarrow> ib_rverbs \<Rightarrow> recv_st \<Rightarrow> recv_st outcome" where
  "ncclIbPostSpeedUpdateToRemote g v st =
     (let comm = rs_comm st; b = rc_base comm; counter = ncclIbSpeedChangeCounter g in
      if counter = speedChangeCounter b \<or> rc_remSpeedBufAddr comm = 0 \<or> rc_postedSpeedUpdate comm then ret ncclSuccess st
      else deref (new_speeds g b [0..<nat (ndevs (vProps b))]) (\<lambda>sp.
        let n = nat (ndevs (vProps b)); comm1 = comm\<lparr> rc_base := b\<lparr> speedChangeCounter := counter \<rparr> \<rparr> in
        if take n (rc_lastSentSpeeds comm) = sp then ret ncclSuccess (st\<lparr> rs_comm := comm1 \<rparr>)
        else
         (let q0 = qps b ! 0 in
          deref (at (rc_devs comm) (qp_devIndex q0)) (\<lambda>dev.
          deref (at (remDevs b) (qp_remDevIdx q0)) (\<lambda>rem.
            let buf = \<lparr> rsb_counter = rc_lastSentCounter comm + 1, speedGbps = sp @ drop n (speedGbps (rc_speedUpdateBuf comm)) \<rparr>;
                wr = \<lparr> wr_id = NCCL_IB_SPEED_UPDATE_WR_ID,
                       wr_sge = \<lparr> sge_addr = rv_speed_addr v, sge_length = sizeof_speed_buf, sge_lkey = mr_lkey (rcd_speedUpdateMr dev) \<rparr>,
                       wr_num_sge = 1, wr_op = WR_RDMA_WRITE, wr_signaled = True, wr_inline = False, wr_imm_data = 0,
                       wr_remote_addr = rc_remSpeedBufAddr comm, wr_rkey = di_remSpeedBufRkey rem \<rparr>;
                comm2 = comm1\<lparr> rc_speedUpdateBuf := buf, rc_postedSpeedUpdate := True \<rparr>
            in chk (post_data v (qp_mrcQp q0) wr (st\<lparr> rs_comm := comm2 \<rparr>)) (\<lambda>st.
                 ret ncclSuccess (st\<lparr> rs_comm := (rs_comm st)\<lparr>
                   rc_lastSentSpeeds := sp @ drop n (rc_lastSentSpeeds comm), rc_lastSentCounter := rsb_counter buf \<rparr> \<rparr>)))))))"

end
