(* ===== verification/NetIb_Test.thy ===== *)
theory NetIb_Test
  imports NetIb_Recv
begin

text \<open>
  Completions: finding the request of a work completion, processing it, and \<open>ncclIbTest\<close>, the polling
  loop, for the two kinds of communicator (\<open>net/transport/net_ib/p2p.cc\<close>, \<open>p2p.h\<close>).

  The completion queues are an argument: for each device the completions it holds when the call
  starts, of which one poll takes up to four. The code a poll returns is the argument \<open>pollRes\<close>. What the
  resiliency module does is the argument \<open>res\<close>; it is consulted only when the communicator has a context.
\<close>

unbundle bit_operations_syntax

section \<open>Finding the request\<close>

definition ncclIbRequestRetrieveAsIndex :: "u32 \<Rightarrow> ncclResult + nat" where
  "ncclIbRequestRetrieveAsIndex i = (if unat i \<ge> NET_IB_MAX_REQUESTS then Inl ncclInternalError else Inr (unat i))"

text \<open>\<open>ncclIbRequestRetrieveFromCompletion\<close>: \<open>Inr None\<close> is a null pointer. The result is \<open>None\<close> where the index is outside the array.\<close>

definition retrieve_recv :: "ncclIbRecvComm \<Rightarrow> ibv_wc \<Rightarrow> (ncclResult + nat option) option" where
  "retrieve_recv comm wc =
     (if \<not> wc_status_ok wc then Some (Inl ncclInternalError)
      else if wc_op wc = WC_RECV_RDMA_WITH_IMM \<and> recvMatchingScheme (rc_base comm) = BY_ID
      then Some (Inr (rc_recvReqs comm ! unat (wc_imm_data wc mod word_of_nat NET_IB_MAX_REQUESTS)))
      else if wc_op wc = WC_RDMA_READ
      then Some (case ncclIbRequestRetrieveAsIndex (ucast (wc_wr_id wc - NCCL_IB_FLUSH_REQ_WR_ID_OFFSET)) of
                   Inl r \<Rightarrow> Inl r | Inr i \<Rightarrow> Inr (Some i))
      else if unat (wc_wr_id wc) < NET_IB_MAX_REQUESTS then Some (Inr (rc_recvReqs comm ! unat (wc_wr_id wc)))
      else None)"

definition retrieve_send :: "ncclIbSendComm \<Rightarrow> ibv_wc \<Rightarrow> ncclResult + nat option" where
  "retrieve_send comm wc =
     (if \<not> wc_status_ok wc then Inl ncclInternalError
      else Inr (sc_sendReqs comm ! unat (wc_wr_id wc AND 0xff) ! 0))"

section \<open>Completing a request\<close>

definition ncclIbRequestIsComplete :: "ncclIbRequest \<Rightarrow> bool" where
  "ncclIbRequestIsComplete req \<longleftrightarrow>
     rq_events req ! 0 = 0 \<and> rq_events req ! 1 = 0 \<and> rq_events req ! 2 = 0 \<and> rq_events req ! 3 = 0
     \<and> rq_events req ! 4 = 0 \<and> rq_events req ! 5 = 0 \<and> rq_events req ! 6 = 0 \<and> rq_events req ! 7 = 0"

text \<open>\<open>ncclIbRequestComplete\<close> with the sizes it reports.\<close>

definition reported_sizes :: "ncclIbRecvComm \<Rightarrow> ncclIbRequest \<Rightarrow> int list" where
  "reported_sizes comm req =
     (let rec = rc_cmplsRecords comm ! rq_cmplsRecords req in
      if rq_nreqs req > 1 \<or> cr_sizes rec ! 0 > 0 then take (nat (rq_nreqs req)) (cr_sizes rec)
      else take (nat (rq_nreqs req)) [rq_aggSize req])"

definition ncclIbRequestComplete_recv :: "nat \<Rightarrow> ncclIbRecvComm \<Rightarrow> int list \<times> ncclIbRecvComm" where
  "ncclIbRequestComplete_recv i comm =
     (let req = reqs (rc_base comm) ! i in
      (if rq_type req = REQ_RECV then reported_sizes comm req else [],
       comm\<lparr> rc_base := ncclIbFreeRequest (rc_base comm) i \<rparr>))"

definition ncclIbRequestComplete_send :: "ib_params \<Rightarrow> ib_globals \<Rightarrow> nat \<Rightarrow> ncclIbSendComm \<Rightarrow> (int list \<times> ncclIbSendComm) option" where
  "ncclIbRequestComplete_send p g i comm =
     (let req = reqs (sc_base comm) ! i in
      if rq_type req \<noteq> REQ_SEND then Some ([], comm\<lparr> sc_base := ncclIbFreeRequest (sc_base comm) i \<rparr>)
      else
       (let slot = unat (rq_id req mod word_of_nat NET_IB_MAX_REQUESTS);
            cnt = sc_sendReqsCnt comm ! slot - 1;
            comm1 = comm\<lparr> sc_sendReqsCnt := (sc_sendReqsCnt comm)[slot := cnt] \<rparr>;
            comm2 = (if cnt = 0
                     then (let c = comm1\<lparr> sc_sendReqs := (sc_sendReqs comm1)[slot := replicate NCCL_NET_IB_MAX_RECVS None] \<rparr>
                           in if IbEventBasedLb p \<noteq> 0 then ncclIbCheckSpeedChanges p g c else Some c)
                     else Some comm1)
        in deref comm2 (\<lambda>c. Some ([rq_size req], c\<lparr> sc_base := ncclIbFreeRequest (sc_base c) i \<rparr>))))"

section \<open>Processing a completion\<close>

definition dec_event :: "nat \<Rightarrow> ncclIbRequest \<Rightarrow> ncclIbRequest" where
  "dec_event d req = req\<lparr> rq_events := (rq_events req)[d := rq_events req ! d - 1] \<rparr>"

text \<open>The loop over the requests of a multi-send: each loses one expected event on the device.\<close>

fun send_events :: "nat \<Rightarrow> nat option list \<Rightarrow> ncclIbSendComm \<Rightarrow> ncclIbSendComm outcome" where
  "send_events d [] comm = ret ncclSuccess comm"
| "send_events d (None # is) comm = None"
| "send_events d (Some i # is) comm =
     (let b = sc_base comm; req = reqs b ! i in
      if \<not> resiliency b \<and> rq_events req ! d \<le> 0 then ret ncclInternalError comm
      else send_events d is (comm\<lparr> sc_base := set_req i (dec_event d req) b \<rparr>))"

text \<open>The id of a speed update is one a sender never posts; the code would then write to the communicator as if it were a receiving one.\<close>

definition ncclIbCompletionEventProcess_send :: "nat \<Rightarrow> ibv_wc \<Rightarrow> ncclIbSendComm \<Rightarrow> ncclIbSendComm outcome" where
  "ncclIbCompletionEventProcess_send d wc comm =
     (if wc_wr_id wc = NCCL_IB_SPEED_UPDATE_WR_ID then None
      else chk_val (retrieve_send comm wc) comm (\<lambda>r.
       case r of
         None \<Rightarrow> ret ncclInternalError comm
       | Some i \<Rightarrow>
          (let req = reqs (sc_base comm) ! i in
           if rq_type req \<noteq> REQ_SEND then ret ncclInternalError comm
           else (let slot = unat (rq_id req mod word_of_nat NET_IB_MAX_REQUESTS) in
                 if length (sc_sendReqs comm ! slot) < nat (rq_nreqs req) then None
                 else send_events d (take (nat (rq_nreqs req)) (sc_sendReqs comm ! slot)) comm))))"

text \<open>The size a receive completion contributes: the immediate data, or the bytes of the work request added to the aggregate.\<close>

definition record_size :: "ibv_wc \<Rightarrow> nat \<Rightarrow> ncclIbRecvComm \<Rightarrow> ncclIbRecvComm" where
  "record_size wc i comm =
     (let b = rc_base comm; req = reqs b ! i; s = rq_cmplsRecords req; rec = rc_cmplsRecords comm ! s in
      if rq_nreqs req \<noteq> 1 then comm
      else if recvMatchingScheme b = BY_INDEX
      then comm\<lparr> rc_cmplsRecords := (rc_cmplsRecords comm)[s := rec\<lparr> cr_sizes := (cr_sizes rec)[0 := sint (wc_imm_data wc)] \<rparr>] \<rparr>
      else if cr_sizes rec ! 0 = 0
      then comm\<lparr> rc_base := set_req i (req\<lparr> rq_aggSize := sint (word_of_int (rq_aggSize req) + wc_byte_len wc) \<rparr>) b \<rparr>
      else comm)"

definition mark_completion :: "nat \<Rightarrow> nat \<Rightarrow> ncclIbRecvComm \<Rightarrow> ncclIbRecvComm" where
  "mark_completion i k comm =
     (let s = rq_cmplsRecords (reqs (rc_base comm) ! i); rec = rc_cmplsRecords comm ! s
      in comm\<lparr> rc_cmplsRecords := (rc_cmplsRecords comm)[s := rec\<lparr> cr_completions := (cr_completions rec)[k := True] \<rparr>] \<rparr>)"

definition ncclIbCompletionEventProcess_recv ::
  "ib_params \<Rightarrow> ib_globals \<Rightarrow> ib_rverbs \<Rightarrow> nat \<Rightarrow> ibv_wc \<Rightarrow> recv_st \<Rightarrow> recv_st outcome" where
  "ncclIbCompletionEventProcess_recv p g v d wc st =
     (if wc_wr_id wc = NCCL_IB_SPEED_UPDATE_WR_ID
      then ret ncclSuccess (st\<lparr> rs_comm := (rs_comm st)\<lparr> rc_postedSpeedUpdate := False \<rparr> \<rparr>)
      else deref (retrieve_recv (rs_comm st) wc) (\<lambda>c. chk_val c st (\<lambda>r.
        case r of
          None \<Rightarrow> ret ncclInternalError st
        | Some i \<Rightarrow>
           (let b = rc_base (rs_comm st); req = reqs b ! i;
                finish = (\<lambda>st. ret ncclSuccess (upd_rbase (\<lambda>b. set_req i (dec_event d (reqs b ! i)) b) st))
            in case wc_op wc of
                 WC_RECV_RDMA_WITH_IMM \<Rightarrow>
                   if rq_type req = REQ_UNUSED \<and> resiliency b then ret ncclSuccess st
                   else if rq_type req \<noteq> REQ_RECV \<and> \<not> resiliency b then ret ncclInternalError st
                   else
                    (let st1 = st\<lparr> rs_comm := record_size wc i (rs_comm st) \<rparr> in
                     if rc_prepostReceiveWorkRequests (rs_comm st1)
                     then chk_val (ncclIbCommBaseGetQpByQpNum (rc_base (rs_comm st1)) (int d) (wc_qp_num wc)) st1 (\<lambda>k.
                            chk (post_recv v (qp_mrcQp (qps b ! k)) (st1\<lparr> rs_comm := mark_completion i k (rs_comm st1) \<rparr>)) finish)
                     else finish st1)
               | WC_RDMA_READ \<Rightarrow> finish st
               | WC_RDMA_WRITE \<Rightarrow>
                   if rq_type req = REQ_UNUSED then ret ncclSuccess st
                   else if IbEventBasedLb p \<noteq> 0 \<and> IbEventBasedLbRemote p \<noteq> 0
                   then chk (ncclIbPostSpeedUpdateToRemote g v st) (ret ncclSuccess)
                   else ret ncclSuccess st
               | _ \<Rightarrow> ret ncclInternalError st))))"

section \<open>The polling loop\<close>

text \<open>
  What \<open>ncclIbTest\<close> does with a communicator, as the operations the loop uses: the fatal-error check of the
  communicator and of a device, whether the request is complete, whether a device is skipped, and
  the processing of one completion.
\<close>

record 's test_ops =
  t_fatal :: "'s \<Rightarrow> ncclResult"
  t_complete :: "'s \<Rightarrow> bool"
  t_skip :: "'s \<Rightarrow> nat \<Rightarrow> bool"
  t_process :: "nat \<Rightarrow> ibv_wc \<Rightarrow> 's \<Rightarrow> 's outcome"
  t_devFatal :: "nat \<Rightarrow> 's \<Rightarrow> ncclResult"

fun process_wcs :: "'s test_ops \<Rightarrow> nat \<Rightarrow> ibv_wc list \<Rightarrow> 's \<Rightarrow> 's outcome" where
  "process_wcs ops d [] st = ret ncclSuccess st"
| "process_wcs ops d (wc # wcs) st = chk (t_process ops d wc st) (process_wcs ops d wcs)"

type_synonym cqs = "nat \<Rightarrow> ibv_wc list"

text \<open>One round over the devices. The last component counts the completions polled (\<open>totalWrDone\<close>).\<close>

fun test_round :: "(nat \<Rightarrow> ncclResult) \<Rightarrow> 's test_ops \<Rightarrow> nat list \<Rightarrow> cqs \<Rightarrow> 's \<Rightarrow> nat \<Rightarrow> (ncclResult \<times> 's \<times> cqs \<times> nat) option" where
  "test_round pollRes ops [] cq st done = Some (ncclSuccess, st, cq, done)"
| "test_round pollRes ops (d # ds) cq st done =
     (if t_skip ops st d then test_round pollRes ops ds cq st done
      else if \<not> nccl_ok (pollRes d) then Some (pollRes d, st, cq, done)
      else
       (let wcs = take 4 (cq d); cq1 = cq(d := drop 4 (cq d)) in
        case process_wcs ops d wcs st of
          None \<Rightarrow> None
        | Some (r, st1) \<Rightarrow>
            if \<not> nccl_ok r then Some (r, st1, cq1, done + length wcs)
            else if wcs = [] then test_round pollRes ops ds cq1 st1 done
            else if \<not> nccl_ok (t_devFatal ops d st1) then Some (t_devFatal ops d st1, st1, cq1, done + length wcs)
            else test_round pollRes ops ds cq1 st1 (done + length wcs)))"

definition pending :: "nat list \<Rightarrow> cqs \<Rightarrow> nat" where
  "pending ds cq = sum_list (map (\<lambda>d. length (cq d)) ds)"

lemma pending_simps [simp]: "pending [] cq = 0" "pending (d # ds) cq = length (cq d) + pending ds cq"
  by (simp_all add: pending_def)

lemma pending_other [simp]: "d \<notin> set ds \<Longrightarrow> pending ds (cq(d := xs)) = pending ds cq"
  by (induction ds) auto

lemma test_round_outside:
  "test_round pollRes ops ds cq st n = Some (r, st', cq', n') \<Longrightarrow> d \<notin> set ds \<Longrightarrow> cq' d = cq d"
  by (induction pollRes ops ds cq st n rule: test_round.induct) (auto simp: Let_def split: if_splits option.splits prod.splits)

lemma test_round_pending:
  assumes "test_round pollRes ops ds cq st n = Some (r, st', cq', n')" "distinct ds"
  shows "pending ds cq' + n' = pending ds cq + n"
  using assms
proof (induction pollRes ops ds cq st n rule: test_round.induct)
  case (2 pollRes ops d ds cq st n)
  have d: "d \<notin> set ds" "distinct ds" using "2.prems"(2) by simp_all
  note out = test_round_outside [OF _ d(1)]
  show ?case
  proof (cases "t_skip ops st d \<or> \<not> nccl_ok (pollRes d)")
    case True
    then show ?thesis using "2.prems"(1) "2.IH"(1) [OF _ _ d(2)] by (auto split: if_splits dest: out)
  next
    case False
    define cq1 k where "cq1 = cq(d := drop 4 (cq d))" and "k = length (take 4 (cq d))"
    have cq1: "pending (d # ds) cq1 + k = pending (d # ds) cq" using d(1) by (simp add: cq1_def k_def)
    obtain x st1 where p: "process_wcs ops d (take 4 (cq d)) st = Some (x, st1)"
      using "2.prems"(1) False by (auto simp: Let_def split: option.splits)
    note IH = "2.IH"(2) [OF _ _ refl refl p refl _ _ _ d(2), folded cq1_def]
      "2.IH"(3) [OF _ _ refl refl p refl _ _ _ _ d(2), folded cq1_def k_def]
    have k0: "cq d = [] \<Longrightarrow> k = 0" by (simp add: k_def)
    show ?thesis
    proof (cases "nccl_ok x \<and> (cq d = [] \<or> nccl_ok (t_devFatal ops d st1))")
      case True
      then have tr: "test_round pollRes ops ds cq1 st1 (n + k) = Some (r, st', cq', n')"
        using "2.prems"(1) False p by (cases "cq d = []") (auto simp: Let_def cq1_def k_def ret_def)
      then have "pending ds cq' + n' = pending ds cq1 + (n + k)"
        using IH True False k0 by (cases "cq d = []") auto
      then show ?thesis using out [OF tr] cq1 by simp
    next
      case F: False
      then have "cq' = cq1" "n' = n + k" using "2.prems"(1) False p by (auto simp: Let_def cq1_def k_def split: if_splits)
      then show ?thesis using cq1 by simp
    qed
  qed
qed simp

text \<open>
  \<open>ncclIbTest\<close>. Each turn of the loop either ends or has consumed a completion, so the loop ends: the measure is the number of
  completions waiting on the devices. The first component of a successful result says whether the request is complete.
\<close>

function test_loop :: "(nat \<Rightarrow> ncclResult) \<Rightarrow> 's test_ops \<Rightarrow> nat \<Rightarrow> cqs \<Rightarrow> 's \<Rightarrow> (ncclResult \<times> bool \<times> 's \<times> cqs) option" where
  "test_loop pollRes ops n cq st =
     (if \<not> nccl_ok (t_fatal ops st) then Some (t_fatal ops st, False, st, cq)
      else if t_complete ops st then Some (ncclSuccess, True, st, cq)
      else (case test_round pollRes ops [0..<n] cq st 0 of
              None \<Rightarrow> None
            | Some (r, st1, cq1, k) \<Rightarrow>
                if \<not> nccl_ok r then Some (r, False, st1, cq1)
                else if k = 0 then Some (ncclSuccess, False, st1, cq1)
                else test_loop pollRes ops n cq1 st1))"
  by pat_completeness auto
termination
proof (relation "measure (\<lambda>(pollRes, ops, n, cq, st). pending [0..<n] cq)")
  fix pollRes ops n cq st r st1 cq1 k x y z
  assume "test_round pollRes ops [0..<n] cq st 0 = Some x" "(r, y) = x" "(st1, z) = y" "(cq1, k) = z" "k \<noteq> 0"
  then have "test_round pollRes ops [0..<n] cq st 0 = Some (r, st1, cq1, k)" "0 < k" by simp_all
  with test_round_pending [of pollRes ops "[0..<n]" cq st 0 r st1 cq1 k]
  show "((pollRes, ops, n, cq1, st1), pollRes, ops, n, cq, st) \<in> measure (\<lambda>(pollRes, ops, n, cq, st). pending [0..<n] cq)"
    by simp
qed simp

declare test_loop.simps [simp del]

section \<open>The two instances\<close>

text \<open>
  \<open>resHandle\<close> is \<open>ncclIbResiliencyHandleCompletionError\<close> and \<open>resComplete\<close> the answer of \<open>ncclIbResiliencyRequestIsComplete\<close>. The
  progress call at the start of \<open>ncclIbTest\<close> is the argument \<open>resProgress\<close>.
\<close>

definition request_complete :: "bool \<Rightarrow> (ncclIbRequest \<Rightarrow> bool) \<Rightarrow> ncclIbRequest \<Rightarrow> bool" where
  "request_complete res resComplete req \<longleftrightarrow> ncclIbRequestIsComplete req \<or> (res \<and> resComplete req)"

definition dev_fatal :: "ib_params \<Rightarrow> ib_globals \<Rightarrow> int option \<Rightarrow> ncclResult" where
  "dev_fatal p g ibDev =
     (case ibDev of None \<Rightarrow> ncclInternalError
      | Some n \<Rightarrow> (case at (ncclIbDevs g) n of None \<Rightarrow> ncclInternalError | Some dev \<Rightarrow> ncclIbStatsCheckFatalCount p (dev_stats dev)))"

definition send_test_ops :: "ib_params \<Rightarrow> ib_globals \<Rightarrow> (ibv_wc \<Rightarrow> nat \<Rightarrow> ncclIbSendComm \<Rightarrow> ncclIbSendComm outcome) \<Rightarrow> (ncclIbRequest \<Rightarrow> bool)
    \<Rightarrow> nat \<Rightarrow> ncclIbSendComm test_ops" where
  "send_test_ops p g resHandle resComplete i =
     \<lparr> t_fatal = (\<lambda>c. ncclIbStatsCheckFatalCount p (b_stats (sc_base c))),
       t_complete = (\<lambda>c. request_complete (resiliency (sc_base c)) resComplete (reqs (sc_base c) ! i)),
       t_skip = (\<lambda>c d. \<not> rq_devBases (reqs (sc_base c) ! i) ! d \<or> (rq_events (reqs (sc_base c) ! i) ! d = 0 \<and> \<not> resiliency (sc_base c))),
       t_process = (\<lambda>d wc c.
         if \<not> wc_status_ok wc
         then (if wc_wr_id wc = NCCL_IB_SPEED_UPDATE_WR_ID then None
               else if \<not> resiliency (sc_base c) then ret ncclRemoteError c else resHandle wc d c)
         else ncclIbCompletionEventProcess_send d wc c),
       t_devFatal = (\<lambda>d c. dev_fatal p g (map_option ibDevN (ncclIbGetNetCommDevBase_send c (int d)))) \<rparr>"

definition ncclIbTest_send ::
  "ib_params \<Rightarrow> ib_globals \<Rightarrow> (nat \<Rightarrow> ncclResult) \<Rightarrow> (ncclIbSendComm \<Rightarrow> ncclIbSendComm outcome) \<Rightarrow>
   (ibv_wc \<Rightarrow> nat \<Rightarrow> ncclIbSendComm \<Rightarrow> ncclIbSendComm outcome) \<Rightarrow> (ncclIbRequest \<Rightarrow> bool) \<Rightarrow>
   nat \<Rightarrow> cqs \<Rightarrow> ncclIbSendComm \<Rightarrow> (ncclResult \<times> (bool \<times> int list) \<times> ncclIbSendComm \<times> cqs) option" where
  "ncclIbTest_send p g pollRes resProgress resHandle resComplete i cq comm =
     deref (if resiliency (sc_base comm) then resProgress comm else ret ncclSuccess comm) (\<lambda>(r0, c0).
       if \<not> nccl_ok r0 then Some (r0, (False, []), c0, cq)
       else deref (test_loop pollRes (send_test_ops p g resHandle resComplete i) (nat (ndevs (vProps (sc_base c0)))) cq c0) (\<lambda>(r, fin, c, cq1).
         if nccl_ok r \<and> fin
         then deref (ncclIbRequestComplete_send p g i c) (\<lambda>(sizes, c1). Some (ncclSuccess, (True, sizes), c1, cq1))
         else Some (r, (False, []), c, cq1)))"

text \<open>The receive side; a flush request polls the queue of the flush queue pairs, which \<open>cq\<close> then stands for.\<close>

definition recv_test_ops :: "ib_params \<Rightarrow> ib_globals \<Rightarrow> ib_rverbs \<Rightarrow> (ibv_wc \<Rightarrow> nat \<Rightarrow> recv_st \<Rightarrow> recv_st outcome) \<Rightarrow> (ncclIbRequest \<Rightarrow> bool)
    \<Rightarrow> nat \<Rightarrow> recv_st test_ops" where
  "recv_test_ops p g v resHandle resComplete i =
     \<lparr> t_fatal = (\<lambda>st. ncclIbStatsCheckFatalCount p (b_stats (rc_base (rs_comm st)))),
       t_complete = (\<lambda>st. request_complete (resiliency (rc_base (rs_comm st))) resComplete (reqs (rc_base (rs_comm st)) ! i)),
       t_skip = (\<lambda>st d. \<not> rq_devBases (reqs (rc_base (rs_comm st)) ! i) ! d
                   \<or> (rq_events (reqs (rc_base (rs_comm st)) ! i) ! d = 0 \<and> \<not> resiliency (rc_base (rs_comm st)))),
       t_process = (\<lambda>d wc st.
         if \<not> wc_status_ok wc
         then (if wc_wr_id wc = NCCL_IB_SPEED_UPDATE_WR_ID
               then ret ncclSuccess (st\<lparr> rs_comm := (rs_comm st)\<lparr> rc_postedSpeedUpdate := False \<rparr> \<rparr>)
               else if \<not> resiliency (rc_base (rs_comm st)) then ret ncclRemoteError st else resHandle wc d st)
         else ncclIbCompletionEventProcess_recv p g v d wc st),
       t_devFatal = (\<lambda>d st. dev_fatal p g (map_option ibDevN (ncclIbGetNetCommDevBase_recv (rs_comm st) (int d)))) \<rparr>"

definition ncclIbTest_recv ::
  "ib_params \<Rightarrow> ib_globals \<Rightarrow> ib_rverbs \<Rightarrow> (nat \<Rightarrow> ncclResult) \<Rightarrow> (recv_st \<Rightarrow> recv_st outcome) \<Rightarrow>
   (ibv_wc \<Rightarrow> nat \<Rightarrow> recv_st \<Rightarrow> recv_st outcome) \<Rightarrow> (ncclIbRequest \<Rightarrow> bool) \<Rightarrow>
   nat \<Rightarrow> cqs \<Rightarrow> recv_st \<Rightarrow> (ncclResult \<times> (bool \<times> int list) \<times> recv_st \<times> cqs) option" where
  "ncclIbTest_recv p g v pollRes resProgress resHandle resComplete i cq st =
     deref (if resiliency (rc_base (rs_comm st)) then resProgress st else ret ncclSuccess st) (\<lambda>(r0, s0).
       if \<not> nccl_ok r0 then Some (r0, (False, []), s0, cq)
       else deref (test_loop pollRes (recv_test_ops p g v resHandle resComplete i) (nat (ndevs (vProps (rc_base (rs_comm s0))))) cq s0) (\<lambda>(r, fin, s, cq1).
         if nccl_ok r \<and> fin
         then (let (sizes, c1) = ncclIbRequestComplete_recv i (rs_comm s) in Some (ncclSuccess, (True, sizes), s\<lparr> rs_comm := c1 \<rparr>, cq1))
         else Some (r, (False, []), s, cq1)))"

end
