(* ===== verification/NetIb_Resiliency.thy ===== *)
theory NetIb_Resiliency
  imports NetIb_Test
begin

text \<open>
  Fail-over to another device, \<open>net/transport/net_ib/p2p_resiliency.cc\<close> and \<open>.h\<close>: the state of the devices, the replacement of
  queue pairs, the tracking, probing and replay of failed sends, and the progress function \<open>ncclIbTest\<close> calls.

  The context and the communicator point to each other; here a call takes and returns both, in one record. What comes from outside is the record \<open>res_env\<close>: the
  clock, the codes of the verbs calls, the address of the probing results, and what \<open>ncclIbPortRecoveryHandleFailure\<close> returns when it hands a device over to the
  recovery thread. The thread itself shows here only in the state of a device, which it sets to recovered or failed.
\<close>

unbundle bit_operations_syntax

section \<open>Data\<close>

datatype ncclIbResiliencyDevState =
  DevStateOk | DevStateError | DevStateRecoveryInProgress | DevStateRecoveryFailed | DevStateRecovered | DevStateErrorPermanent

record ncclIbResiliencyDev =
  rd_state :: ncclIbResiliencyDevState
  nOutstandingProbes :: int
  probingResultMr :: ibv_mr
  rd_probingCq :: nat
  rd_portRecoveryCq :: nat

record ncclIbResiliency =
  recoveryEnabled :: bool
  res_devs :: "ncclIbResiliencyDev list"
  res_ndevs :: int
  probingQps :: "ncclIbQp list"
  nProbingQps :: int
  inProgress :: bool
  outstandingRequests :: int
  portRecoveryQps :: "ncclIbQp list"
  nPortRecoveryQps :: int
  outstandingRecovery :: int

datatype ncclIbResiliencyRequestSendState = RequestStatePending | RequestStateProbePosted | RequestStateProbeCompleted

text \<open>\<open>fr_request\<close> is the index of the request; \<open>errorInfo\<close> is the pair of \<open>fr_devIndex\<close> and \<open>fr_time\<close>.\<close>

record ncclIbResiliencyRequestSend =
  fr_state :: ncclIbResiliencyRequestSendState
  fr_request :: "nat option"
  fr_devIndex :: int
  fr_time :: u64
  fr_failedAttempts :: int
  fr_id :: u64

record ncclIbResiliencyRemoteCompletionRecordsInfo =
  ri_addr :: u64
  ri_rkey :: u32

record ncclIbResiliencySend =
  rsend_base :: ncclIbResiliency
  failedRequests :: "ncclIbResiliencyRequestSend list"
  probingResults :: "bool list list"
  remCmplRecordsInfo :: "ncclIbResiliencyRemoteCompletionRecordsInfo list"

record res_params =
  IbResiliencyPortFailoverMaxAttempts :: int
  IbResiliencyPortFailoverProbeDelay :: int

record res_env =
  re_now :: u64
  re_post_probe :: "nat \<Rightarrow> ibv_send_wr \<Rightarrow> ncclResult"
  re_results_addr :: "nat \<Rightarrow> u64"
  re_start_recovery :: "nat \<Rightarrow> ncclResult"
  re_poll_probes :: "nat \<Rightarrow> ncclResult"

text \<open>What the functions common to both sides work on: the context and the base of the communicator.\<close>

record res_st =
  r_ctx :: ncclIbResiliency
  r_base :: ncclIbNetCommBase

definition dev_state :: "ncclIbResiliency \<Rightarrow> nat \<Rightarrow> ncclIbResiliencyDevState" where
  "dev_state ctx d = rd_state (res_devs ctx ! d)"

definition set_dev_state :: "nat \<Rightarrow> ncclIbResiliencyDevState \<Rightarrow> ncclIbResiliency \<Rightarrow> ncclIbResiliency" where
  "set_dev_state d s ctx = ctx\<lparr> res_devs := (res_devs ctx)[d := (res_devs ctx ! d)\<lparr> rd_state := s \<rparr>] \<rparr>"

section \<open>Failed devices\<close>

definition failed_devices :: "ncclIbResiliency \<Rightarrow> nat \<Rightarrow> nat list" where
  "failed_devices ctx devIndex = filter (\<lambda>i. i = devIndex \<or> dev_state ctx i \<noteq> DevStateOk) [0..<nat (res_ndevs ctx)]"

definition ncclIbResiliencyCheckErrorNotFatal :: "ncclIbResiliency \<Rightarrow> ibv_wc \<Rightarrow> nat \<Rightarrow> ncclResult option" where
  "ncclIbResiliencyCheckErrorNotFatal ctx wc devIndex =
     (if length (res_devs ctx) < nat (res_ndevs ctx) then None
      else
       (let nFailed = length (failed_devices ctx devIndex);
            fatalStatus = (wc_stat wc \<noteq> WC_WR_FLUSH_ERR \<and> wc_stat wc \<noteq> WC_RETRY_EXC_ERR)
        in if nFailed > 1 then Some ncclRemoteError
           else if int nFailed < res_ndevs ctx \<and> \<not> fatalStatus then Some ncclSuccess
           else Some ncclRemoteError))"

text \<open>
  The search for a replacement starts after the failed queue pair and stops when it is back at it. The inner result is \<open>None\<close> when there is no replacement;
  the outer one when an index is outside its array.
\<close>

function replacement_loop :: "ncclIbResiliency \<Rightarrow> ncclIbNetCommBase \<Rightarrow> nat \<Rightarrow> nat \<Rightarrow> nat \<Rightarrow> nat option option" where
  "replacement_loop ctx b n failed offset =
     (if n \<le> failed \<or> length (qps b) < n then None
      else
       (let new = (failed + offset) mod n; dev = qp_devIndex (qps b ! new) in
        if dev < 0 \<or> int (length (res_devs ctx)) \<le> dev then None
        else if dev_state ctx (nat dev) = DevStateOk then Some (Some new)
        else if new = failed then Some None
        else replacement_loop ctx b n failed (offset + 1)))"
  by pat_completeness auto
termination
proof (relation "measure (\<lambda>(ctx, b, n, failed, offset). if offset mod n = 0 then 0 else n - offset mod n)")
  fix ctx b and n failed offset x :: nat and y
  assume "\<not> (n \<le> failed \<or> length (qps b) < n)" "x = (failed + offset) mod n" "x \<noteq> failed"
  then have n: "failed < n" and x: "(failed + offset) mod n \<noteq> failed" by simp_all
  have nz: "offset mod n \<noteq> 0" using n x by (metis add.right_neutral mod_add_right_eq mod_less)
  have "offset mod n < n" using n by simp
  then have "Suc offset mod n = (if Suc (offset mod n) = n then 0 else Suc (offset mod n))" by (simp add: mod_Suc)
  with nz \<open>offset mod n < n\<close>
  show "((ctx, b, n, failed, offset + 1), (ctx, b, n, failed, offset))
      \<in> measure (\<lambda>(ctx, b, n, failed, offset). if offset mod n = 0 then 0 else n - offset mod n)"
    by (auto split: if_splits)
qed simp

declare replacement_loop.simps [simp del]

text \<open>\<open>ncclIbResiliencyReplaceQps\<close>: the loop over the active queue pairs.\<close>

fun replace_loop :: "nat \<Rightarrow> nat list \<Rightarrow> res_st \<Rightarrow> res_st outcome" where
  "replace_loop failedDev [] st = ret ncclSuccess st"
| "replace_loop failedDev (i # is) st =
     (let b = r_base st in
      deref (activeQps b ! i) (\<lambda>q.
        if qp_devIndex (qps b ! q) \<noteq> int failedDev then replace_loop failedDev is st
        else if nqps b \<le> int q then ret ncclInternalError st
        else deref (replacement_loop (r_ctx st) b (nat (nqps b)) q 1) (\<lambda>new.
          case new of
            None \<Rightarrow> ret ncclInternalError st
          | Some k \<Rightarrow> replace_loop failedDev is (st\<lparr> r_base := b\<lparr> activeQps := (activeQps b)[i := Some k] \<rparr> \<rparr>))))"

definition ncclIbResiliencyReplaceQps :: "nat \<Rightarrow> res_st \<Rightarrow> res_st outcome" where
  "ncclIbResiliencyReplaceQps failedDev st = replace_loop failedDev [0..<nat (nqps (r_base st))] st"

definition ncclIbResiliencyHandleDeviceFailure :: "res_env \<Rightarrow> nat \<Rightarrow> res_st \<Rightarrow> res_st outcome" where
  "ncclIbResiliencyHandleDeviceFailure e devIndex st =
     (if length (res_devs (r_ctx st)) \<le> devIndex then None
      else if dev_state (r_ctx st) devIndex \<noteq> DevStateOk then ret ncclSuccess st
      else
       (let st1 = st\<lparr> r_ctx := set_dev_state devIndex DevStateError (r_ctx st) \<rparr> in
        chk (ncclIbResiliencyReplaceQps devIndex st1) (\<lambda>st2.
          let ctx = r_ctx st2 in
          if \<not> recoveryEnabled ctx then ret ncclSuccess st2
          else if re_start_recovery e devIndex = ncclSuccess
          then ret ncclSuccess (st2\<lparr> r_ctx := (set_dev_state devIndex DevStateRecoveryInProgress ctx)\<lparr>
                 outstandingRecovery := outstandingRecovery ctx + 1, inProgress := True \<rparr> \<rparr>)
          else ret ncclSuccess (st2\<lparr> r_ctx := set_dev_state devIndex
                 (if int devIndex < res_ndevs ctx then DevStateErrorPermanent else DevStateRecoveryInProgress) ctx \<rparr>))))"

text \<open>\<open>ncclIbResiliencyActiveQpsRestore\<close>: the queue pairs of a recovered device take their places again.\<close>

definition ncclIbResiliencyActiveQpsRestore :: "nat \<Rightarrow> ncclIbNetCommBase \<Rightarrow> ncclIbNetCommBase" where
  "ncclIbResiliencyActiveQpsRestore dev b =
     b\<lparr> activeQps := map (\<lambda>i. if i < nat (nqps b) \<and> qp_devIndex (qps b ! i) = int dev then Some i else activeQps b ! i)
                         [0..<length (activeQps b)] \<rparr>"

text \<open>The part of \<open>ncclIbResiliencyProgress\<close> that looks at the devices under recovery; a device that recovered leaves the first test with its old state
  in hand, so the second does not apply to it.\<close>

definition recovery_step :: "nat \<Rightarrow> res_st \<Rightarrow> res_st" where
  "recovery_step d st =
     (let ctx = r_ctx st in
      case dev_state ctx d of
        DevStateRecovered \<Rightarrow>
          st\<lparr> r_ctx := (set_dev_state d DevStateOk ctx)\<lparr> outstandingRecovery := outstandingRecovery ctx - 1 \<rparr>,
              r_base := ncclIbResiliencyActiveQpsRestore d (r_base st) \<rparr>
      | DevStateRecoveryFailed \<Rightarrow>
          st\<lparr> r_ctx := (set_dev_state d DevStateErrorPermanent ctx)\<lparr> outstandingRecovery := outstandingRecovery ctx - 1 \<rparr> \<rparr>
      | _ \<Rightarrow> st)"

definition recovery_progress :: "res_st \<Rightarrow> res_st" where
  "recovery_progress st =
     (let st1 = (if outstandingRecovery (r_ctx st) > 0 then fold recovery_step [0..<nat (res_ndevs (r_ctx st))] st else st);
          ctx = r_ctx st1
      in if outstandingRequests ctx = 0 \<and> outstandingRecovery ctx = 0 then st1\<lparr> r_ctx := ctx\<lparr> inProgress := False \<rparr> \<rparr> else st1)"

section \<open>Completion of a request\<close>

text \<open>\<open>ncclIbResiliencyRequestIsComplete\<close> on a request of a communicator with a context.\<close>

definition ncclIbResiliencyRequestIsComplete :: "ncclIbResiliency \<Rightarrow> ncclIbRequest \<Rightarrow> bool" where
  "ncclIbResiliencyRequestIsComplete ctx req =
     (let evs = take (nat (res_ndevs ctx)) (rq_events req);
          negative = sum_list (filter (\<lambda>x. x < 0) evs);
          remaining = sum_list (filter (\<lambda>x. \<not> x < 0) evs)
      in remaining = 0 \<or> \<bar>negative\<bar> = remaining)"

section \<open>Failed sends\<close>

text \<open>The state of a call on the sending side: the communicator with what was posted on its data queue pairs, the context, and the probes posted.\<close>

record res_send_st =
  rss_st :: send_st
  rss_ctx :: ncclIbResiliencySend
  rss_probes :: "(nat \<times> ibv_send_wr) list"

definition send_base :: "res_send_st \<Rightarrow> ncclIbNetCommBase" where
  "send_base s = sc_base (ss_comm (rss_st s))"

definition upd_ctx :: "(ncclIbResiliencySend \<Rightarrow> ncclIbResiliencySend) \<Rightarrow> res_send_st \<Rightarrow> res_send_st" where
  "upd_ctx f s = s\<lparr> rss_ctx := f (rss_ctx s) \<rparr>"

text \<open>A function of the common part, on the sending side.\<close>

definition on_send :: "(res_st \<Rightarrow> res_st outcome) \<Rightarrow> res_send_st \<Rightarrow> res_send_st outcome" where
  "on_send f s =
     (case f \<lparr> r_ctx = rsend_base (rss_ctx s), r_base = send_base s \<rparr> of
        None \<Rightarrow> None
      | Some (r, t) \<Rightarrow> Some (r, s\<lparr> rss_ctx := (rss_ctx s)\<lparr> rsend_base := r_ctx t \<rparr>, rss_st := upd_base (\<lambda>_. r_base t) (rss_st s) \<rparr>))"

definition on_send_st :: "(send_st \<Rightarrow> send_st outcome) \<Rightarrow> res_send_st \<Rightarrow> res_send_st outcome" where
  "on_send_st f s = (case f (rss_st s) of None \<Rightarrow> None | Some (r, t) \<Rightarrow> Some (r, s\<lparr> rss_st := t \<rparr>))"

definition req_slot :: "ncclIbRequest \<Rightarrow> nat" where
  "req_slot req = unat (rq_id req mod word_of_nat NET_IB_MAX_REQUESTS)"

definition set_failed :: "nat \<Rightarrow> ncclIbResiliencyRequestSend \<Rightarrow> ncclIbResiliencySend \<Rightarrow> ncclIbResiliencySend" where
  "set_failed slot fr ctx = ctx\<lparr> failedRequests := (failedRequests ctx)[slot := fr] \<rparr>"

definition ncclIbResiliencySendRequestInit :: "res_env \<Rightarrow> nat \<Rightarrow> nat \<Rightarrow> res_send_st \<Rightarrow> res_send_st outcome" where
  "ncclIbResiliencySendRequestInit e i devIndex s =
     (let req = reqs (send_base s) ! i; slot = req_slot req; ctx = rss_ctx s; fr = failedRequests ctx ! slot in
      if fr_id fr = rq_id req + 1 then ret ncclSuccess s
      else if rq_id req + 1 \<le> fr_id fr then ret ncclInternalError s
      else if rq_type req \<noteq> REQ_SEND then ret ncclInternalError s
      else ret ncclSuccess (upd_ctx (\<lambda>ctx. (set_failed slot \<lparr> fr_state = RequestStatePending, fr_request = Some i, fr_devIndex = int devIndex,
               fr_time = re_now e, fr_failedAttempts = 0, fr_id = rq_id req + 1 \<rparr> ctx)\<lparr> rsend_base := (rsend_base ctx)\<lparr>
               outstandingRequests := outstandingRequests (rsend_base ctx) + 1, inProgress := True \<rparr> \<rparr>) s))"

definition ncclIbResiliencySendRequestFree :: "nat \<Rightarrow> res_send_st \<Rightarrow> res_send_st outcome" where
  "ncclIbResiliencySendRequestFree slot s =
     (let fr = failedRequests (rss_ctx s) ! slot in
      if fr_request fr = None then ret ncclInternalError s
      else ret ncclSuccess (upd_ctx (\<lambda>ctx. (set_failed slot (fr\<lparr> fr_state := RequestStatePending, fr_request := None, fr_devIndex := 0, fr_time := 0,
               fr_failedAttempts := 0 \<rparr>) ctx)\<lparr> rsend_base := (rsend_base ctx)\<lparr>
               outstandingRequests := outstandingRequests (rsend_base ctx) - 1 \<rparr> \<rparr>) s))"

section \<open>Replay\<close>

definition clear_events :: "ncclIbRequest \<Rightarrow> ncclIbRequest" where
  "clear_events req = req\<lparr> rq_events := replicate NCCL_IB_MAX_DEVS_PER_NIC 0 \<rparr>"

text \<open>The inner loop of the repost, over the queue pairs of a request: those whose data has not arrived are to be used again. \<open>results\<close> is the slot's row of the probing
  results.\<close>

fun repost_qps :: "bool list \<Rightarrow> nat \<Rightarrow> nat list \<Rightarrow> send_st \<Rightarrow> send_st outcome" where
  "repost_qps results i [] st = ret ncclSuccess st"
| "repost_qps results i (j # js) st =
     (let b = sc_base (ss_comm st); req = reqs b ! i in
      chk_val (ncclIbCommBaseGetQpForRequest b (rq_id req) (word_of_nat j)) st (\<lambda>(q, k).
        if results ! k then repost_qps results i js st
        else deref (ncclIbAddEvent (req\<lparr> rq_sentData := (rq_sentData req)[k := False] \<rparr>) (qp_devIndex (qps b ! q))) (\<lambda>req.
          repost_qps results i js (upd_base (set_req i req) st))))"

fun repost_reqs :: "bool list \<Rightarrow> nat option list \<Rightarrow> send_st \<Rightarrow> send_st outcome" where
  "repost_reqs results [] st = ret ncclSuccess st"
| "repost_reqs results (None # rs) st = None"
| "repost_reqs results (Some i # rs) st =
     (let st1 = upd_base (\<lambda>b. set_req i (clear_events (reqs b ! i)) b) st in
      chk_val (ncclIbCommBaseGetNqpsPerRequest (sc_base (ss_comm st1))) st1 (\<lambda>n.
        chk (repost_qps results i [0..<nat n] st1) (repost_reqs results rs)))"

text \<open>\<open>ncclIbResiliencyRepostRequest\<close> on a send communicator, which holds no receives.\<close>

definition ncclIbResiliencyRepostRequest_send :: "ib_params \<Rightarrow> ib_verbs \<Rightarrow> nat \<Rightarrow> res_send_st \<Rightarrow> res_send_st outcome" where
  "ncclIbResiliencyRepostRequest_send p v i s =
     (let req = reqs (send_base s) ! i; slot = req_slot req; row = sc_sendReqs (ss_comm (rss_st s)) ! slot in
      case rq_type req of
        REQ_UNUSED \<Rightarrow> ret ncclInternalError s
      | REQ_SEND \<Rightarrow>
          if length row < nat (rq_nreqs req) then None
          else on_send_st (\<lambda>st. chk (repost_reqs (probingResults (rss_ctx s) ! slot) (take (nat (rq_nreqs req)) row) st) (ncclIbMultiSend p v slot)) s
      | REQ_RECV \<Rightarrow> None
      | _ \<Rightarrow> ret ncclInternalError s)"

fun clear_all_events :: "nat option list \<Rightarrow> ncclIbNetCommBase \<Rightarrow> ncclIbNetCommBase option" where
  "clear_all_events [] b = Some b"
| "clear_all_events (None # rs) b = None"
| "clear_all_events (Some i # rs) b = clear_all_events rs (set_req i (clear_events (reqs b ! i)) b)"

definition missing_data :: "ncclIbRequest \<Rightarrow> bool list \<Rightarrow> bool" where
  "missing_data req results \<longleftrightarrow> (\<exists>k < NCCL_IB_MAX_QPS. rq_sentData req ! k \<and> \<not> results ! k)"

definition ncclIbResiliencyHandleProbeCompleted :: "ib_params \<Rightarrow> ib_verbs \<Rightarrow> nat \<Rightarrow> res_send_st \<Rightarrow> res_send_st outcome" where
  "ncclIbResiliencyHandleProbeCompleted p v fslot s =
     deref (fr_request (failedRequests (rss_ctx s) ! fslot)) (\<lambda>i.
       let b = send_base s; req = reqs b ! i; slot = req_slot req; row = sc_sendReqs (ss_comm (rss_st s)) ! slot in
       if missing_data req (probingResults (rss_ctx s) ! slot) then ncclIbResiliencyRepostRequest_send p v i s
       else if length row < nat (rq_nreqs req) then None
       else deref (clear_all_events (take (nat (rq_nreqs req)) row) b) (\<lambda>b1.
              ret ncclSuccess (s\<lparr> rss_st := upd_base (\<lambda>_. b1) (rss_st s) \<rparr>)))"

section \<open>Probes\<close>

definition MSEC_TO_NSEC :: u64 where "MSEC_TO_NSEC = 1000000"

definition functional_device :: "ncclIbResiliency \<Rightarrow> nat option" where
  "functional_device ctx = find (\<lambda>d. dev_state ctx d = DevStateOk) [0..<nat (res_ndevs ctx)]"

text \<open>The read of the receiver's completion record, behind the sizes.\<close>

definition probe_wr :: "res_env \<Rightarrow> nat \<Rightarrow> u32 \<Rightarrow> ncclIbResiliencyRemoteCompletionRecordsInfo \<Rightarrow> ibv_send_wr" where
  "probe_wr e slot lkey ri =
     \<lparr> wr_id = word_of_nat slot,
       wr_sge = \<lparr> sge_addr = re_results_addr e slot, sge_length = word_of_nat NCCL_IB_MAX_QPS, sge_lkey = lkey \<rparr>,
       wr_num_sge = 1, wr_op = WR_RDMA_READ, wr_signaled = True, wr_inline = False, wr_imm_data = 0,
       wr_remote_addr = ri_addr ri + sizeof_cmpl_record * word_of_nat slot + 4 * word_of_nat NCCL_NET_IB_MAX_RECVS, wr_rkey = ri_rkey ri \<rparr>"

definition ncclIbResiliencyProbePost :: "res_params \<Rightarrow> res_env \<Rightarrow> nat \<Rightarrow> res_send_st \<Rightarrow> res_send_st outcome" where
  "ncclIbResiliencyProbePost rp e fslot s =
     (let sctx = rss_ctx s; ctx = rsend_base sctx; fr = failedRequests sctx ! fslot in
      if fr_state fr \<noteq> RequestStatePending then ret ncclInternalError s
      else if fr_failedAttempts fr > IbResiliencyPortFailoverMaxAttempts rp then ret ncclRemoteError s
      else if re_now e - fr_time fr < word_of_int (IbResiliencyPortFailoverProbeDelay rp) * MSEC_TO_NSEC then ret ncclSuccess s
      else if length (res_devs ctx) < nat (res_ndevs ctx) \<or> length (probingQps ctx) < nat (res_ndevs ctx) then None
      else (case functional_device ctx of
              None \<Rightarrow> ret ncclInternalError s
            | Some d \<Rightarrow>
               (let dev = res_devs ctx ! d; qp = probingQps ctx ! d in
                if nOutstandingProbes dev \<ge> int NET_IB_MAX_REQUESTS then ret ncclInternalError s
                else deref (fr_request fr) (\<lambda>i. deref (at (remCmplRecordsInfo sctx) (qp_remDevIdx qp)) (\<lambda>ri.
                  let wr = probe_wr e (req_slot (reqs (send_base s) ! i)) (mr_lkey (probingResultMr dev)) ri;
                      r = re_post_probe e d wr
                  in if \<not> nccl_ok r then ret r s
                     else ret ncclSuccess (upd_ctx (\<lambda>sctx. (set_failed fslot (fr\<lparr> fr_state := RequestStateProbePosted \<rparr>) sctx)\<lparr>
                            rsend_base := ctx\<lparr> res_devs := (res_devs ctx)[d := dev\<lparr> nOutstandingProbes := nOutstandingProbes dev + 1 \<rparr>] \<rparr> \<rparr>)
                            (s\<lparr> rss_probes := rss_probes s @ [(d, wr)] \<rparr>)))))))"

definition ncclIbResiliencyProbeHandleCompletionEvent :: "res_env \<Rightarrow> nat \<Rightarrow> ibv_wc \<Rightarrow> res_send_st \<Rightarrow> res_send_st outcome" where
  "ncclIbResiliencyProbeHandleCompletionEvent e devIndex wc s =
     (let fslot = unat (wc_wr_id wc mod word_of_nat NET_IB_MAX_REQUESTS) in
      if wc_stat wc = WC_SUCCESS
      then ret ncclSuccess (upd_ctx (\<lambda>ctx. set_failed fslot ((failedRequests ctx ! fslot)\<lparr> fr_state := RequestStateProbeCompleted \<rparr>) ctx) s)
      else deref (ncclIbResiliencyCheckErrorNotFatal (rsend_base (rss_ctx s)) wc devIndex) (\<lambda>r.
        if \<not> nccl_ok r then ret r s
        else chk (on_send (ncclIbResiliencyHandleDeviceFailure e devIndex) s) (\<lambda>s.
          ret ncclSuccess (upd_ctx (\<lambda>ctx. let fr = failedRequests ctx ! fslot in
            set_failed fslot (fr\<lparr> fr_state := RequestStatePending, fr_failedAttempts := fr_failedAttempts fr + 1 \<rparr>) ctx) s))))"

fun probe_wcs :: "res_env \<Rightarrow> nat \<Rightarrow> ibv_wc list \<Rightarrow> res_send_st \<Rightarrow> res_send_st outcome" where
  "probe_wcs e d [] s = ret ncclSuccess s"
| "probe_wcs e d (wc # wcs) s = chk (ncclIbResiliencyProbeHandleCompletionEvent e d wc s) (probe_wcs e d wcs)"

text \<open>The loop that polls one device, four completions (\<open>MAX_PROBE_WC\<close>) at a time. \<open>wcs\<close> are the completions in its queue.\<close>

function probe_poll :: "res_env \<Rightarrow> nat \<Rightarrow> ibv_wc list \<Rightarrow> res_send_st \<Rightarrow> res_send_st outcome" where
  "probe_poll e d wcs s =
     (if \<not> nccl_ok (re_poll_probes e d) then ret (re_poll_probes e d) s
      else if wcs = [] then ret ncclSuccess s
      else
       (let ctx = rsend_base (rss_ctx s); dev = res_devs ctx ! d; n = length (take 4 wcs) in
        if int n > nOutstandingProbes dev then ret ncclInternalError s
        else chk (probe_wcs e d (take 4 wcs) (upd_ctx (\<lambda>sctx. sctx\<lparr> rsend_base := ctx\<lparr>
                    res_devs := (res_devs ctx)[d := dev\<lparr> nOutstandingProbes := nOutstandingProbes dev - int n \<rparr>] \<rparr> \<rparr>) s))
               (probe_poll e d (drop 4 wcs))))"
  by pat_completeness auto
termination by (relation "measure (\<lambda>(e, d, wcs, s). length wcs)") simp_all

declare probe_poll.simps [simp del]

fun probe_devs :: "res_env \<Rightarrow> cqs \<Rightarrow> nat list \<Rightarrow> res_send_st \<Rightarrow> res_send_st outcome" where
  "probe_devs e cq [] s = ret ncclSuccess s"
| "probe_devs e cq (d # ds) s =
     (if length (res_devs (rsend_base (rss_ctx s))) \<le> d then None
      else if nOutstandingProbes (res_devs (rsend_base (rss_ctx s)) ! d) = 0 then probe_devs e cq ds s
      else chk (probe_poll e d (cq d) s) (probe_devs e cq ds))"

definition ncclIbResiliencyProbeProgress :: "res_env \<Rightarrow> cqs \<Rightarrow> res_send_st \<Rightarrow> res_send_st outcome" where
  "ncclIbResiliencyProbeProgress e cq s = probe_devs e cq [0..<nat (res_ndevs (rsend_base (rss_ctx s)))] s"

section \<open>Progress\<close>

definition failed_step :: "ib_params \<Rightarrow> res_params \<Rightarrow> ib_verbs \<Rightarrow> res_env \<Rightarrow> nat \<Rightarrow> res_send_st \<Rightarrow> res_send_st outcome" where
  "failed_step p rp v e fslot s =
     (let fr = failedRequests (rss_ctx s) ! fslot in
      if fr_request fr = None then ret ncclSuccess s
      else case fr_state fr of
        RequestStatePending \<Rightarrow> ncclIbResiliencyProbePost rp e fslot s
      | RequestStateProbeCompleted \<Rightarrow> chk (ncclIbResiliencyHandleProbeCompleted p v fslot s) (ncclIbResiliencySendRequestFree fslot)
      | RequestStateProbePosted \<Rightarrow> ret ncclSuccess s)"

fun failed_loop :: "ib_params \<Rightarrow> res_params \<Rightarrow> ib_verbs \<Rightarrow> res_env \<Rightarrow> nat list \<Rightarrow> res_send_st \<Rightarrow> res_send_st outcome" where
  "failed_loop p rp v e [] s = ret ncclSuccess s"
| "failed_loop p rp v e (i # is) s = chk (failed_step p rp v e i s) (failed_loop p rp v e is)"

text \<open>\<open>ncclIbResiliencyProgress\<close> for the two kinds of communicator.\<close>

definition ncclIbResiliencyProgress_send :: "ib_params \<Rightarrow> res_params \<Rightarrow> ib_verbs \<Rightarrow> res_env \<Rightarrow> cqs \<Rightarrow> res_send_st \<Rightarrow> res_send_st outcome" where
  "ncclIbResiliencyProgress_send p rp v e cq s =
     (if \<not> inProgress (rsend_base (rss_ctx s)) then ret ncclSuccess s
      else chk (ncclIbResiliencyProbeProgress e cq s) (\<lambda>s.
        chk (failed_loop p rp v e [0..<NET_IB_MAX_REQUESTS] s) (on_send (\<lambda>t. ret ncclSuccess (recovery_progress t)))))"

definition ncclIbResiliencyProgress_recv :: "res_st \<Rightarrow> res_st outcome" where
  "ncclIbResiliencyProgress_recv st = (if \<not> inProgress (r_ctx st) then ret ncclSuccess st else ret ncclSuccess (recovery_progress st))"

section \<open>Completions with an error\<close>

definition ncclIbResiliencyHandleCompletionErrorSender :: "res_env \<Rightarrow> ibv_wc \<Rightarrow> nat \<Rightarrow> res_send_st \<Rightarrow> res_send_st outcome" where
  "ncclIbResiliencyHandleCompletionErrorSender e wc devIndex s =
     (case sc_sendReqs (ss_comm (rss_st s)) ! unat (wc_wr_id wc AND 0xff) ! 0 of
        None \<Rightarrow> ret ncclSuccess s
      | Some i \<Rightarrow> ncclIbResiliencySendRequestInit e i devIndex s)"

definition ncclIbResiliencyHandleCompletionError_send :: "res_env \<Rightarrow> ibv_wc \<Rightarrow> nat \<Rightarrow> res_send_st \<Rightarrow> res_send_st outcome" where
  "ncclIbResiliencyHandleCompletionError_send e wc devIndex s =
     deref (ncclIbResiliencyCheckErrorNotFatal (rsend_base (rss_ctx s)) wc devIndex) (\<lambda>r.
       if \<not> nccl_ok r then ret r s
       else chk (on_send (ncclIbResiliencyHandleDeviceFailure e devIndex) s) (ncclIbResiliencyHandleCompletionErrorSender e wc devIndex))"

text \<open>The receiving side.\<close>

record res_recv_st =
  rrs_st :: recv_st
  rrs_ctx :: ncclIbResiliency

definition on_recv :: "(res_st \<Rightarrow> res_st outcome) \<Rightarrow> res_recv_st \<Rightarrow> res_recv_st outcome" where
  "on_recv f s =
     (case f \<lparr> r_ctx = rrs_ctx s, r_base = rc_base (rs_comm (rrs_st s)) \<rparr> of
        None \<Rightarrow> None
      | Some (r, t) \<Rightarrow> Some (r, s\<lparr> rrs_ctx := r_ctx t, rrs_st := upd_rbase (\<lambda>_. r_base t) (rrs_st s) \<rparr>))"

definition recv_request_of :: "ncclIbRecvComm \<Rightarrow> ibv_wc \<Rightarrow> nat option" where
  "recv_request_of comm wc =
     (if NCCL_IB_FLUSH_REQ_WR_ID_OFFSET \<le> wc_wr_id wc \<and> wc_wr_id wc < NCCL_IB_FLUSH_REQ_WR_ID_OFFSET + word_of_nat NET_IB_MAX_REQUESTS
      then Some (unat (wc_wr_id wc - NCCL_IB_FLUSH_REQ_WR_ID_OFFSET))
      else rc_recvReqs comm ! unat (wc_wr_id wc))"

definition ncclIbResiliencyHandleCompletionErrorReceiver :: "ib_rverbs \<Rightarrow> ibv_wc \<Rightarrow> nat \<Rightarrow> res_recv_st \<Rightarrow> res_recv_st outcome" where
  "ncclIbResiliencyHandleCompletionErrorReceiver v wc devIndex s =
     (let comm = rs_comm (rrs_st s); b = rc_base comm; w = wc_wr_id wc;
          inRecv = (unat w < NET_IB_MAX_REQUESTS);
          inFlush = (NCCL_IB_FLUSH_REQ_WR_ID_OFFSET \<le> w \<and> w < NCCL_IB_FLUSH_REQ_WR_ID_OFFSET + word_of_nat NET_IB_MAX_REQUESTS)
      in if \<not> inRecv \<and> \<not> inFlush \<and> w \<noteq> NCCL_IB_RECV_WR_ID_DUMMY then ret ncclInternalError s
         else if w = NCCL_IB_RECV_WR_ID_DUMMY then ret (if wc_stat wc = WC_WR_FLUSH_ERR then ncclSuccess else ncclInternalError) s
         else deref (recv_request_of comm wc) (\<lambda>i.
           let req = reqs b ! i in
           case rq_type req of
             REQ_FLUSH \<Rightarrow> ret ncclSuccess (s\<lparr> rrs_st := upd_rbase (set_req i (req\<lparr> rq_events := (rq_events req)[devIndex := 0] \<rparr>)) (rrs_st s) \<rparr>)
           | REQ_RECV \<Rightarrow> (case ncclIbPostFifo v req (req_slot req) (rrs_st s) of
                            None \<Rightarrow> None | Some (r, st) \<Rightarrow> Some (if nccl_ok r then ncclSuccess else r, s\<lparr> rrs_st := st \<rparr>))
           | REQ_UNUSED \<Rightarrow> ret ncclSuccess s
           | _ \<Rightarrow> ret ncclInternalError s))"

definition ncclIbResiliencyHandleCompletionError_recv :: "ib_rverbs \<Rightarrow> res_env \<Rightarrow> ibv_wc \<Rightarrow> nat \<Rightarrow> res_recv_st \<Rightarrow> res_recv_st outcome" where
  "ncclIbResiliencyHandleCompletionError_recv v e wc devIndex s =
     deref (ncclIbResiliencyCheckErrorNotFatal (rrs_ctx s) wc devIndex) (\<lambda>r.
       if \<not> nccl_ok r then ret r s
       else chk (on_recv (ncclIbResiliencyHandleDeviceFailure e devIndex) s) (ncclIbResiliencyHandleCompletionErrorReceiver v wc devIndex))"

section \<open>Set-up\<close>

text \<open>\<open>ncclIbResiliencyInit\<close>: the context of a communicator, all zero but for what it sets; \<open>threadActive\<close> is what \<open>ncclIbPortRecoveryInit\<close> reads.\<close>

definition zero_mr :: ibv_mr where "zero_mr = \<lparr> mr_ptr = 0, mr_lkey = 0, mr_rkey = 0 \<rparr>"

definition zero_resiliency :: ncclIbResiliency where
  "zero_resiliency = \<lparr> recoveryEnabled = False, res_devs = replicate NCCL_IB_MAX_DEVS_PER_NIC \<lparr> rd_state = DevStateOk, nOutstandingProbes = 0, probingResultMr = zero_mr, rd_probingCq = 0, rd_portRecoveryCq = 0 \<rparr>,
     res_ndevs = 0, probingQps = replicate NCCL_IB_MAX_DEVS_PER_NIC zero_qp, nProbingQps = 0, inProgress = False, outstandingRequests = 0,
     portRecoveryQps = replicate NCCL_IB_MAX_DEVS_PER_NIC zero_qp, nPortRecoveryQps = 0, outstandingRecovery = 0 \<rparr>"

definition zero_failed :: ncclIbResiliencyRequestSend where
  "zero_failed = \<lparr> fr_state = RequestStatePending, fr_request = None, fr_devIndex = 0, fr_time = 0, fr_failedAttempts = 0, fr_id = 0 \<rparr>"

definition ncclIbResiliencyInit_send :: "ib_params \<Rightarrow> bool \<Rightarrow> ncclIbResiliencySend option" where
  "ncclIbResiliencyInit_send p threadActive =
     (if IbResiliencyPortFailover p = 0 then None
      else Some \<lparr> rsend_base = zero_resiliency\<lparr> recoveryEnabled := threadActive \<rparr>,
        failedRequests = replicate NET_IB_MAX_REQUESTS zero_failed,
        probingResults = replicate NET_IB_MAX_REQUESTS (replicate NCCL_IB_MAX_QPS False),
        remCmplRecordsInfo = replicate NCCL_IB_MAX_DEVS_PER_NIC \<lparr> ri_addr = 0, ri_rkey = 0 \<rparr> \<rparr>)"

definition ncclIbResiliencyInit_recv :: "ib_params \<Rightarrow> bool \<Rightarrow> ncclIbResiliency option" where
  "ncclIbResiliencyInit_recv p threadActive =
     (if IbResiliencyPortFailover p = 0 then None else Some (zero_resiliency\<lparr> recoveryEnabled := threadActive \<rparr>))"

definition ncclIbResiliencyDataCqSizeGet :: "res_st \<Rightarrow> ncclResult + int" where
  "ncclIbResiliencyDataCqSizeGet st =
     (case ncclIbCommBaseGetNqpsPerRequest (r_base st) of
        Inl r \<Rightarrow> Inl r
      | Inr n \<Rightarrow> if res_ndevs (r_ctx st) \<le> 0 then Inl ncclInternalError
                 else Inr (int NET_IB_MAX_REQUESTS * (if isSend (r_base st) then 1 else 2) * n * res_ndevs (r_ctx st)))"

definition ncclIbResiliencyDataRqSizeGet :: "res_st \<Rightarrow> ncclResult + u32" where
  "ncclIbResiliencyDataRqSizeGet st =
     (if isSend (r_base st) then Inl ncclInternalError
      else case ncclIbCommBaseGetNqpsPerRequest (r_base st) of
        Inl r \<Rightarrow> Inl r
      | Inr n \<Rightarrow> (let sz = word_of_int (int NET_IB_MAX_REQUESTS * n) in if sz = 0 then Inl ncclInternalError else Inr sz))"

definition ncclIbResiliencyDeviceNumSet :: "bool \<Rightarrow> int \<Rightarrow> int \<Rightarrow> ncclIbResiliency \<Rightarrow> ncclIbResiliency outcome" where
  "ncclIbResiliencyDeviceNumSet sending nLocalDevs remote ctx =
     (if nLocalDevs \<le> 0 \<or> remote \<le> 0 then ret ncclInternalError ctx
      else
       (let ctx1 = ctx\<lparr> res_ndevs := nLocalDevs, nProbingQps := (if sending then nLocalDevs else remote) \<rparr> in
        if nProbingQps ctx1 > int NCCL_IB_MAX_DEVS_PER_NIC then ret ncclInternalError ctx1
        else
         (let ctx2 = ctx1\<lparr> nPortRecoveryQps := (if recoveryEnabled ctx1 then max nLocalDevs remote else 0) \<rparr> in
          if nPortRecoveryQps ctx2 > int NCCL_IB_MAX_DEVS_PER_NIC then ret ncclInternalError ctx2
          else ret ncclSuccess ctx2)))"

text \<open>\<open>devIndex\<close> is unsigned; the array has eight entries.\<close>

definition ncclIbResiliencyRemoteCompletionRecordsSet :: "bool \<Rightarrow> u32 \<Rightarrow> u64 \<Rightarrow> u32 \<Rightarrow> ncclIbResiliencySend \<Rightarrow> ncclIbResiliencySend outcome" where
  "ncclIbResiliencyRemoteCompletionRecordsSet sending rkey addr devIndex ctx =
     (if \<not> sending then ret ncclInternalError ctx
      else if devIndex > word_of_int (nProbingQps (rsend_base ctx)) then ret ncclInternalError ctx
      else if length (remCmplRecordsInfo ctx) \<le> unat devIndex then None
      else ret ncclSuccess (ctx\<lparr> remCmplRecordsInfo := (remCmplRecordsInfo ctx)[unat devIndex := \<lparr> ri_addr = addr, ri_rkey = rkey \<rparr>] \<rparr>))"

end
