(* ===== verification/NetIb_Test_Facts.thy ===== *)
theory NetIb_Test_Facts
  imports NetIb_Test NetIb_Send_Facts
begin

text \<open>
  What the polling loop and the processing of completions guarantee: the loop leaves nothing to poll, the event counters
  of a send count exactly the completions of its queue pairs, and the size a receiver reports is the size that was sent.
\<close>

unbundle bit_operations_syntax

lemma nccl_ok_success [simp]: "nccl_ok ncclSuccess"
  by (simp add: nccl_ok_def)

section \<open>The polling loop\<close>

lemma test_round_mono: "test_round pollRes ops ds cq st n = Some (r, st', cq', n') \<Longrightarrow> n \<le> n'"
proof (induction pollRes ops ds cq st n rule: test_round.induct)
  case (2 pollRes ops d ds cq st n)
  then show ?case by (fastforce simp: Let_def split: if_splits option.splits prod.splits)
qed simp

lemma test_round_idle:
  assumes "test_round pollRes ops ds cq st n = Some (r, st', cq', n)" "nccl_ok r"
  shows "st' = st \<and> cq' = cq \<and> (\<forall>d \<in> set ds. \<not> t_skip ops st d \<longrightarrow> cq d = [])"
  using assms
proof (induction pollRes ops ds cq st n rule: test_round.induct)
  case (2 pollRes ops d ds cq st n)
  show ?case
  proof (cases "t_skip ops st d")
    case True
    then show ?thesis using "2.IH"(1) "2.prems" by simp
  next
    case False
    then have ok: "nccl_ok (pollRes d)" using "2.prems" by (auto split: if_splits)
    have empty: "cq d = []"
    proof (rule ccontr)
      assume ne: "cq d \<noteq> []"
      then have "0 < length (take 4 (cq d))" by simp
      then show False
        using "2.prems" False ok ne by (auto simp: Let_def min_def split: option.splits prod.splits if_splits dest!: test_round_mono)
    qed
    then have same: "cq(d := drop 4 (cq d)) = cq" by auto
    then have "test_round pollRes ops ds cq st n = Some (r, st', cq', n)"
      using "2.prems"(1) False ok empty by (simp add: Let_def ret_def)
    moreover have p: "process_wcs ops d (take 4 (cq d)) st = Some (ncclSuccess, st)" by (simp add: empty ret_def)
    ultimately show ?thesis
      using "2.IH"(2) [OF False _ refl refl p refl, unfolded same] "2.prems"(2) ok empty False by simp
  qed
qed simp

lemma test_loop_drains:
  assumes "test_loop pollRes ops n cq st = Some (r, fin, st', cq')"
  shows "pending [0..<n] cq' \<le> pending [0..<n] cq
    \<and> (fin \<longrightarrow> r = ncclSuccess \<and> t_complete ops st')
    \<and> (nccl_ok r \<and> \<not> fin \<longrightarrow> \<not> t_complete ops st' \<and> (\<forall>d < n. \<not> t_skip ops st' d \<longrightarrow> cq' d = []))"
  using assms
proof (induction pollRes ops n cq st rule: test_loop.induct)
  case (1 pollRes ops n cq st)
  show ?case
  proof (cases "\<not> nccl_ok (t_fatal ops st) \<or> t_complete ops st")
    case True
    then show ?thesis using "1.prems" by (auto simp: test_loop.simps [of pollRes ops n cq st] split: if_splits)
  next
    case False
    obtain x st1 cq1 k where tr: "test_round pollRes ops [0..<n] cq st 0 = Some (x, st1, cq1, k)"
      using "1.prems" False by (auto simp: test_loop.simps [of pollRes ops n cq st] split: option.splits)
    have le: "pending [0..<n] cq1 \<le> pending [0..<n] cq" using test_round_pending [OF tr] by simp
    show ?thesis
    proof (cases "nccl_ok x \<and> k \<noteq> 0")
      case True
      then have "test_loop pollRes ops n cq1 st1 = Some (r, fin, st', cq')"
        using False tr "1.prems" by (simp add: test_loop.simps [of pollRes ops n cq st])
      then show ?thesis using "1.IH" [OF _ _ tr refl refl refl] True False le by fastforce
    next
      case F: False
      then show ?thesis
        using False tr le "1.prems" test_round_idle [of pollRes ops "[0..<n]" cq st 0 x st1 cq1]
        by (auto simp: test_loop.simps [of pollRes ops n cq st] split: if_splits)
    qed
  qed
qed

text \<open>What a call takes from the queues: for every device a beginning of what waits there, and only completions with the property \<open>P\<close> when it does not fail.\<close>

definition taken :: "(ibv_wc \<Rightarrow> bool) \<Rightarrow> ncclResult \<Rightarrow> cqs \<Rightarrow> cqs \<Rightarrow> bool" where
  "taken P r q q' \<longleftrightarrow> (\<forall>d. \<exists>polled. q d = polled @ q' d \<and> (nccl_ok r \<longrightarrow> (\<forall>wc \<in> set polled. P wc)))"

lemma taken_refl [simp]: "taken P r q q"
  by (simp add: taken_def)

lemma taken_trans:
  assumes "taken P r1 q q1" "taken P r2 q1 q2" "nccl_ok r1"
  shows "taken P r2 q q2"
  unfolding taken_def
proof
  fix d
  obtain xs ys where "q d = xs @ q1 d" "\<forall>wc \<in> set xs. P wc" "q1 d = ys @ q2 d" "nccl_ok r2 \<longrightarrow> (\<forall>wc \<in> set ys. P wc)"
    using assms unfolding taken_def by meson
  then show "\<exists>polled. q d = polled @ q2 d \<and> (nccl_ok r2 \<longrightarrow> (\<forall>wc \<in> set polled. P wc))"
    by (intro exI [of _ "xs @ ys"]) auto
qed

lemma taken_four: "(nccl_ok r \<longrightarrow> (\<forall>wc \<in> set (take 4 (q d)). P wc)) \<Longrightarrow> taken P r q (q(d := drop 4 (q d)))"
  unfolding taken_def by (metis append_Nil append_take_drop_id emptyE empty_set fun_upd_apply)

text \<open>
  The loop always returns when processing a completion does, whatever the result: \<open>Q\<close> is what is known of the completions that wait, \<open>I\<close> an
  invariant of the communicator, and \<open>P\<close> what is known of a completion that was processed without an error.
\<close>

locale poll_total =
  fixes ops :: "'s test_ops" and n :: nat and I :: "'s \<Rightarrow> bool" and Q P :: "ibv_wc \<Rightarrow> bool"
  assumes total: "I s \<Longrightarrow> d < n \<Longrightarrow> Q wc \<Longrightarrow> \<exists>r s'. t_process ops d wc s = Some (r, s') \<and> I s' \<and> (nccl_ok r \<longrightarrow> P wc)"
begin

lemma process_total:
  "I s \<Longrightarrow> d < n \<Longrightarrow> \<forall>wc \<in> set wcs. Q wc \<Longrightarrow> \<exists>r s'. process_wcs ops d wcs s = Some (r, s') \<and> I s' \<and> (nccl_ok r \<longrightarrow> (\<forall>wc \<in> set wcs. P wc))"
proof (induction wcs arbitrary: s)
  case (Cons wc wcs)
  obtain r s1 where s1: "t_process ops d wc s = Some (r, s1)" "I s1" "nccl_ok r \<longrightarrow> P wc" using total Cons.prems by force
  show ?case
  proof (cases "nccl_ok r")
    case True
    then show ?thesis using Cons.IH [OF s1(2)] Cons.prems s1 by (auto simp: chk_def)
  qed (use s1 in \<open>auto simp: chk_def\<close>)
qed (auto simp: ret_def)

lemma round_total:
  "I s \<Longrightarrow> \<forall>d \<in> set ds. d < n \<Longrightarrow> \<forall>d < n. \<forall>wc \<in> set (q d). Q wc \<Longrightarrow>
   \<exists>r s' q' k'. test_round pollRes ops ds q s k = Some (r, s', q', k') \<and> I s' \<and> taken P r q q'"
proof (induction ds arbitrary: s q k)
  case (Cons d ds)
  obtain r s1 where s1: "process_wcs ops d (take 4 (q d)) s = Some (r, s1)" "I s1" "nccl_ok r \<longrightarrow> (\<forall>wc \<in> set (take 4 (q d)). P wc)"
    using process_total [OF Cons.prems(1), of d "take 4 (q d)"] Cons.prems(2,3) by (meson in_set_takeD list.set_intros(1))
  let ?q = "q(d := drop 4 (q d))"
  have q: "\<forall>e < n. \<forall>wc \<in> set (?q e). Q wc" using Cons.prems(3) by (auto dest: in_set_dropD)
  have t: "taken P r q ?q" using s1(3) by (rule taken_four)
  have IH: "\<exists>r' s' q' k'. test_round pollRes ops ds ?q s1 j = Some (r', s', q', k') \<and> I s' \<and> (nccl_ok r \<longrightarrow> taken P r' q q')" for j
    using Cons.IH [OF s1(2) _ q, of j] Cons.prems(2) taken_trans [OF t] by (metis list.set_intros(2))
  consider "t_skip ops s d" | "\<not> t_skip ops s d" "\<not> nccl_ok (pollRes d)" | "\<not> t_skip ops s d" "nccl_ok (pollRes d)" by blast
  then show ?case
  proof cases
    case 1
    then show ?thesis using Cons by simp
  next
    case 2
    then show ?thesis using Cons.prems by simp
  next
    case 3
    have dev: "taken P (t_devFatal ops d s1) q ?q" if "nccl_ok r" using t that s1(3) by (auto intro: taken_four)
    have eq: "test_round pollRes ops (d # ds) q s k =
      (if \<not> nccl_ok r then Some (r, s1, ?q, k + length (take 4 (q d))) else if take 4 (q d) = [] then test_round pollRes ops ds ?q s1 k
       else if \<not> nccl_ok (t_devFatal ops d s1) then Some (t_devFatal ops d s1, s1, ?q, k + length (take 4 (q d))) else test_round pollRes ops ds ?q s1 (k + length (take 4 (q d))))"
      using 3 s1(1) by (simp only: test_round.simps Let_def option.case prod.case if_False if_True simp_thms)
    show ?thesis
      unfolding eq using s1(2) t dev IH [of k] IH [of "k + length (take 4 (q d))"]
      by (cases "nccl_ok r"; cases "take 4 (q d) = []"; cases "nccl_ok (t_devFatal ops d s1)") (simp_all del: take_eq_Nil2 take_eq_Nil)
  qed
qed simp

lemma loop_total:
  assumes "I s" "\<forall>d < n. \<forall>wc \<in> set (q d). Q wc"
  shows "\<exists>r fin s' q'. test_loop pollRes ops n q s = Some (r, fin, s', q') \<and> I s' \<and> taken P r q q'"
  using assms
proof (induction "pending [0..<n] q" arbitrary: s q rule: less_induct)
  case less
  obtain r s1 q1 k where r: "test_round pollRes ops [0..<n] q s 0 = Some (r, s1, q1, k)" "I s1" "taken P r q q1"
    using round_total [OF less.prems(1) _ less.prems(2), of "[0..<n]" pollRes 0] by auto
  have q1: "\<forall>d < n. \<forall>wc \<in> set (q1 d). Q wc"
  proof (intro allI impI ballI)
    fix d wc
    assume "d < n" "wc \<in> set (q1 d)"
    moreover obtain xs where "q d = xs @ q1 d" using r(3) unfolding taken_def by meson
    ultimately show "Q wc" using less.prems(2) by auto
  qed
  show ?case
  proof (cases "nccl_ok (t_fatal ops s) \<and> \<not> t_complete ops s \<and> nccl_ok r \<and> k \<noteq> 0")
    case True
    then have lt: "pending [0..<n] q1 < pending [0..<n] q" using test_round_pending [OF r(1)] by simp
    obtain r' fin s' q' where "test_loop pollRes ops n q1 s1 = Some (r', fin, s', q')" "I s'" "taken P r' q1 q'"
      using less.hyps [OF lt r(2) q1] by blast
    then show ?thesis using True r taken_trans [OF r(3)] by (auto simp: test_loop.simps [of pollRes ops n q s])
  next
    case False
    then show ?thesis using r less.prems(1) taken_def [of P r q q1] by (auto simp: test_loop.simps [of pollRes ops n q s] taken_def)
  qed
qed

end

section \<open>Counting the completions of a send\<close>

text \<open>
  \<open>slot_inflight comm slot is E\<close>: the slot holds the requests \<open>is\<close> of one multi-send, and each of them still expects \<open>E ! d\<close>
  completions on device \<open>d\<close>.
\<close>

definition slot_inflight :: "ncclIbSendComm \<Rightarrow> nat \<Rightarrow> nat list \<Rightarrow> int list \<Rightarrow> bool" where
  "slot_inflight comm slot is E \<longleftrightarrow>
     slot < NET_IB_MAX_REQUESTS \<and> is \<noteq> [] \<and> distinct is \<and> length E = NCCL_IB_MAX_DEVS_PER_NIC
     \<and> length is \<le> length (sc_sendReqs comm ! slot) \<and> take (length is) (sc_sendReqs comm ! slot) = map Some is
     \<and> \<not> resiliency (sc_base comm)
     \<and> (\<forall>i \<in> set is. i < length (reqs (sc_base comm)) \<and> rq_type (reqs (sc_base comm) ! i) = REQ_SEND
          \<and> rq_nreqs (reqs (sc_base comm) ! i) = int (length is) \<and> rq_events (reqs (sc_base comm) ! i) = E
          \<and> unat (rq_id (reqs (sc_base comm) ! i) mod word_of_nat NET_IB_MAX_REQUESTS) = slot)"

lemma send_events_ok:
  assumes "distinct is" "\<not> resiliency (sc_base comm)"
    "\<forall>i \<in> set is. i < length (reqs (sc_base comm)) \<and> 0 < rq_events (reqs (sc_base comm) ! i) ! d"
  shows "\<exists>comm'. send_events d (map Some is) comm = Some (ncclSuccess, comm')
    \<and> comm' = comm\<lparr> sc_base := (sc_base comm)\<lparr> reqs := reqs (sc_base comm') \<rparr> \<rparr>
    \<and> length (reqs (sc_base comm')) = length (reqs (sc_base comm))
    \<and> (\<forall>i. reqs (sc_base comm') ! i = (if i \<in> set is then dec_event d (reqs (sc_base comm) ! i) else reqs (sc_base comm) ! i))"
  using assms
proof (induction "is" arbitrary: comm)
  case Nil
  then show ?case by (simp add: ret_def)
next
  case (Cons i "is")
  define comm1 where "comm1 = comm\<lparr> sc_base := set_req i (dec_event d (reqs (sc_base comm) ! i)) (sc_base comm) \<rparr>"
  have i: "i < length (reqs (sc_base comm))" "0 < rq_events (reqs (sc_base comm) ! i) ! d" "i \<notin> set is" "distinct is"
    using Cons.prems by simp_all
  have r1: "reqs (sc_base comm1) = (reqs (sc_base comm))[i := dec_event d (reqs (sc_base comm) ! i)]"
    by (simp add: comm1_def set_req_def)
  have "\<forall>j \<in> set is. j < length (reqs (sc_base comm1)) \<and> 0 < rq_events (reqs (sc_base comm1) ! j) ! d"
  proof
    fix j
    assume j: "j \<in> set is"
    then have "j \<noteq> i" using i(3) by auto
    then show "j < length (reqs (sc_base comm1)) \<and> 0 < rq_events (reqs (sc_base comm1) ! j) ! d"
      using Cons.prems(3) j unfolding r1 by simp
  qed
  moreover have "\<not> resiliency (sc_base comm1)" using Cons.prems(2) by (simp add: comm1_def set_req_def)
  ultimately obtain comm' where c: "send_events d (map Some is) comm1 = Some (ncclSuccess, comm')"
    "comm' = comm1\<lparr> sc_base := (sc_base comm1)\<lparr> reqs := reqs (sc_base comm') \<rparr> \<rparr>"
    "length (reqs (sc_base comm')) = length (reqs (sc_base comm1))"
    "\<forall>j. reqs (sc_base comm') ! j = (if j \<in> set is then dec_event d (reqs (sc_base comm1) ! j) else reqs (sc_base comm1) ! j)"
    using Cons.IH [OF i(4)] by blast
  have "send_events d (map Some (i # is)) comm = Some (ncclSuccess, comm')"
    using c(1) i(2) by (simp add: Let_def comm1_def)
  moreover have "comm' = comm\<lparr> sc_base := (sc_base comm)\<lparr> reqs := reqs (sc_base comm') \<rparr> \<rparr>"
    by (subst c(2)) (simp add: comm1_def set_req_def)
  moreover have "reqs (sc_base comm') ! j = (if j \<in> set (i # is) then dec_event d (reqs (sc_base comm) ! j) else reqs (sc_base comm) ! j)" for j
    using c(4) i(1,3) unfolding r1 by (cases "j = i") auto
  moreover have "length (reqs (sc_base comm')) = length (reqs (sc_base comm))" using c(3) unfolding r1 by simp
  ultimately show ?case by blast
qed

text \<open>A completion of the slot: its \<open>wr_id\<close> carries the slot in the low byte, as \<open>slot_wr_id\<close> puts it there.\<close>

definition wc_of_slot :: "nat \<Rightarrow> ibv_wc \<Rightarrow> bool" where
  "wc_of_slot slot wc \<longleftrightarrow> wc_status_ok wc \<and> unat (wc_wr_id wc AND 0xff) = slot \<and> wc_wr_id wc \<noteq> NCCL_IB_SPEED_UPDATE_WR_ID"

text \<open>Two states of a communicator that differ in the event counters of the requests only.\<close>

definition same_but_events :: "ncclIbSendComm \<Rightarrow> ncclIbSendComm \<Rightarrow> bool" where
  "same_but_events c' c \<longleftrightarrow>
     c' = c\<lparr> sc_base := (sc_base c)\<lparr> reqs := reqs (sc_base c') \<rparr> \<rparr> \<and> length (reqs (sc_base c')) = length (reqs (sc_base c))
     \<and> (\<forall>i. reqs (sc_base c') ! i = (reqs (sc_base c) ! i)\<lparr> rq_events := rq_events (reqs (sc_base c') ! i) \<rparr>)"

lemma same_but_events_refl [simp]: "same_but_events c c"
  by (simp add: same_but_events_def)

lemma same_but_events_trans:
  assumes "same_but_events c2 c1" "same_but_events c1 c0"
  shows "same_but_events c2 c0"
proof -
  have e: "c2 = c1\<lparr> sc_base := (sc_base c1)\<lparr> reqs := reqs (sc_base c2) \<rparr> \<rparr>" "c1 = c0\<lparr> sc_base := (sc_base c0)\<lparr> reqs := reqs (sc_base c1) \<rparr> \<rparr>"
    using assms unfolding same_but_events_def by blast+
  have "c2 = c0\<lparr> sc_base := (sc_base c0)\<lparr> reqs := reqs (sc_base c2) \<rparr> \<rparr>"
    using arg_cong [OF e(2), of "\<lambda>c. c\<lparr> sc_base := (sc_base c)\<lparr> reqs := reqs (sc_base c2) \<rparr> \<rparr>"] e(1) by simp
  moreover have "reqs (sc_base c2) ! i = (reqs (sc_base c0) ! i)\<lparr> rq_events := rq_events (reqs (sc_base c2) ! i) \<rparr>" for i
  proof -
    have "reqs (sc_base c2) ! i = (reqs (sc_base c1) ! i)\<lparr> rq_events := rq_events (reqs (sc_base c2) ! i) \<rparr>"
      "reqs (sc_base c1) ! i = (reqs (sc_base c0) ! i)\<lparr> rq_events := rq_events (reqs (sc_base c1) ! i) \<rparr>"
      using assms unfolding same_but_events_def by blast+
    then show ?thesis by (cases "reqs (sc_base c0) ! i", cases "reqs (sc_base c1) ! i", cases "reqs (sc_base c2) ! i") simp
  qed
  ultimately show ?thesis using assms unfolding same_but_events_def by simp
qed

lemma same_but_events_fields:
  assumes "same_but_events c' c"
  shows "sc_devs c' = sc_devs c" "sc_sendReqs c' = sc_sendReqs c" "sc_sendReqsCnt c' = sc_sendReqsCnt c"
    "b_stats (sc_base c') = b_stats (sc_base c)" "vProps (sc_base c') = vProps (sc_base c)" "resiliency (sc_base c') = resiliency (sc_base c)"
    "rq_devBases (reqs (sc_base c') ! i) = rq_devBases (reqs (sc_base c) ! i)" "rq_size (reqs (sc_base c') ! i) = rq_size (reqs (sc_base c) ! i)"
    "rq_type (reqs (sc_base c') ! i) = rq_type (reqs (sc_base c) ! i)" "rq_id (reqs (sc_base c') ! i) = rq_id (reqs (sc_base c) ! i)"
    "length (reqs (sc_base c')) = length (reqs (sc_base c))"
proof -
  have c: "c' = c\<lparr> sc_base := (sc_base c)\<lparr> reqs := reqs (sc_base c') \<rparr> \<rparr>"
    and r: "reqs (sc_base c') ! i = (reqs (sc_base c) ! i)\<lparr> rq_events := rq_events (reqs (sc_base c') ! i) \<rparr>"
    and l: "length (reqs (sc_base c')) = length (reqs (sc_base c))"
    using assms unfolding same_but_events_def by blast+
  show "sc_devs c' = sc_devs c" "sc_sendReqs c' = sc_sendReqs c" "sc_sendReqsCnt c' = sc_sendReqsCnt c"
    "b_stats (sc_base c') = b_stats (sc_base c)" "vProps (sc_base c') = vProps (sc_base c)" "resiliency (sc_base c') = resiliency (sc_base c)"
    by (subst c, simp)+
  show "rq_devBases (reqs (sc_base c') ! i) = rq_devBases (reqs (sc_base c) ! i)" "rq_size (reqs (sc_base c') ! i) = rq_size (reqs (sc_base c) ! i)"
    "rq_type (reqs (sc_base c') ! i) = rq_type (reqs (sc_base c) ! i)" "rq_id (reqs (sc_base c') ! i) = rq_id (reqs (sc_base c) ! i)"
    by (subst r, simp)+
  show "length (reqs (sc_base c')) = length (reqs (sc_base c))" by (rule l)
qed

lemma send_completion_step:
  assumes "slot_inflight comm slot is E" "wc_of_slot slot wc" "d < NCCL_IB_MAX_DEVS_PER_NIC" "0 < E ! d"
  shows "\<exists>comm'. ncclIbCompletionEventProcess_send d wc comm = Some (ncclSuccess, comm') \<and> slot_inflight comm' slot is (E[d := E ! d - 1])
    \<and> same_but_events comm' comm"
proof -
  have h: "is \<noteq> []" "distinct is" "length is \<le> length (sc_sendReqs comm ! slot)" "take (length is) (sc_sendReqs comm ! slot) = map Some is"
    "\<not> resiliency (sc_base comm)" "length E = 8"
    "\<forall>i \<in> set is. i < length (reqs (sc_base comm)) \<and> rq_type (reqs (sc_base comm) ! i) = REQ_SEND
          \<and> rq_nreqs (reqs (sc_base comm) ! i) = int (length is) \<and> rq_events (reqs (sc_base comm) ! i) = E
          \<and> unat (rq_id (reqs (sc_base comm) ! i) mod word_of_nat NET_IB_MAX_REQUESTS) = slot"
    using assms(1) by (auto simp: slot_inflight_def NCCL_IB_MAX_DEVS_PER_NIC_def)
  obtain i0 rest where cons: "is = i0 # rest" using h(1) by (cases "is") auto
  have s0: "sc_sendReqs comm ! slot ! 0 = Some i0"
    using h(3,4) unfolding cons by (metis length_greater_0_conv list.distinct(1) list.simps(9) nth_Cons_0 nth_take)
  have ev: "\<forall>i \<in> set is. i < length (reqs (sc_base comm)) \<and> 0 < rq_events (reqs (sc_base comm) ! i) ! d"
    using h(7) assms(4) by auto
  obtain comm' where c: "send_events d (map Some is) comm = Some (ncclSuccess, comm')"
    "comm' = comm\<lparr> sc_base := (sc_base comm)\<lparr> reqs := reqs (sc_base comm') \<rparr> \<rparr>"
    "length (reqs (sc_base comm')) = length (reqs (sc_base comm))"
    "\<forall>i. reqs (sc_base comm') ! i = (if i \<in> set is then dec_event d (reqs (sc_base comm) ! i) else reqs (sc_base comm) ! i)"
    using send_events_ok [OF h(2,5) ev] by blast
  have i0: "rq_type (reqs (sc_base comm) ! i0) = REQ_SEND" "rq_nreqs (reqs (sc_base comm) ! i0) = int (length is)"
    "unat (rq_id (reqs (sc_base comm) ! i0) mod word_of_nat NET_IB_MAX_REQUESTS) = slot"
    using h(7) by (auto simp: cons)
  have wc: "wc_status_ok wc" "unat (wc_wr_id wc AND 0xff) = slot" "(wc_wr_id wc = NCCL_IB_SPEED_UPDATE_WR_ID) = False"
    using assms(2) by (simp_all add: wc_of_slot_def)
  have "ncclIbCompletionEventProcess_send d wc comm = Some (ncclSuccess, comm')"
    unfolding ncclIbCompletionEventProcess_send_def retrieve_send_def wc(2,3) if_False Let_def
    using wc(1) s0 i0 h(3,4) c(1) by (simp add: not_less)
  moreover have ev: "same_but_events comm' comm"
  proof -
    have "reqs (sc_base comm') ! i = (reqs (sc_base comm) ! i)\<lparr> rq_events := rq_events (reqs (sc_base comm') ! i) \<rparr>" for i
      using c(4) by (simp add: dec_event_def)
    then show ?thesis using c(2,3) unfolding same_but_events_def by blast
  qed
  moreover have "slot_inflight comm' slot is (E[d := E ! d - 1])"
    using assms(1) c(3,4) same_but_events_fields(2,6) [OF ev] unfolding slot_inflight_def by (simp add: dec_event_def)
  ultimately show ?thesis by blast
qed

lemma inflight_complete:
  assumes "slot_inflight comm slot is E" "i \<in> set is"
  shows "ncclIbRequestIsComplete (reqs (sc_base comm) ! i) \<longleftrightarrow> (\<forall>d < NCCL_IB_MAX_DEVS_PER_NIC. E ! d = 0)"
proof -
  have "rq_events (reqs (sc_base comm) ! i) = E" using assms by (simp add: slot_inflight_def)
  then show ?thesis by (simp add: ncclIbRequestIsComplete_def NCCL_IB_MAX_DEVS_PER_NIC_def All_less_Suc2 eval_nat_numeral)
qed

section \<open>Invariants of the polling loop\<close>

text \<open>
  A property of the communicator and of what waits in the completion queues that every processed completion keeps, and under
  which nothing fails, holds when the loop is over; and the loop then returns success.
\<close>

locale poll_invariant =
  fixes pollRes :: "nat \<Rightarrow> ncclResult" and ops :: "'s test_ops" and n :: nat and I :: "'s \<Rightarrow> cqs \<Rightarrow> bool"
  assumes poll: "pollRes d = ncclSuccess"
    and fatal: "I s q \<Longrightarrow> t_fatal ops s = ncclSuccess"
    and devFatal: "I s q \<Longrightarrow> d < n \<Longrightarrow> t_devFatal ops d s = ncclSuccess"
    and step: "I s q \<Longrightarrow> d < n \<Longrightarrow> q d = wc # wcs \<Longrightarrow> \<exists>s'. t_process ops d wc s = Some (ncclSuccess, s') \<and> I s' (q(d := wcs))"
begin

lemma process_inv:
  assumes "I s q" "d < n" "q d = wcs @ rest"
  shows "\<exists>s'. process_wcs ops d wcs s = Some (ncclSuccess, s') \<and> I s' (q(d := rest))"
  using assms
proof (induction wcs arbitrary: s q)
  case Nil
  then have "q(d := rest) = q" by auto
  then show ?case using Nil by (simp add: ret_def)
next
  case (Cons wc wcs)
  then obtain s1 where s1: "t_process ops d wc s = Some (ncclSuccess, s1)" "I s1 (q(d := wcs @ rest))"
    using step [of s q d wc "wcs @ rest"] by auto
  obtain s' where "process_wcs ops d wcs s1 = Some (ncclSuccess, s')" "I s' ((q(d := wcs @ rest))(d := rest))"
    using Cons.IH [OF s1(2) Cons.prems(2) fun_upd_same] by blast
  moreover have "process_wcs ops d (wc # wcs) s = process_wcs ops d wcs s1" using s1(1) by simp
  ultimately show ?case unfolding fun_upd_upd by metis
qed

lemma round_inv:
  assumes "I s q" "\<forall>d \<in> set ds. d < n"
  shows "\<exists>s' q' k'. test_round pollRes ops ds q s k = Some (ncclSuccess, s', q', k') \<and> I s' q'"
  using assms
proof (induction ds arbitrary: s q k)
  case (Cons d ds)
  obtain s1 where s1: "process_wcs ops d (take 4 (q d)) s = Some (ncclSuccess, s1)" "I s1 (q(d := drop 4 (q d)))"
    using process_inv [of s q d "take 4 (q d)" "drop 4 (q d)"] Cons.prems by auto
  have IH: "\<exists>s' q' k'. test_round pollRes ops ds (q(d := drop 4 (q d))) s1 j = Some (ncclSuccess, s', q', k') \<and> I s' q'" for j
    by (rule Cons.IH [OF s1(2)]) (use Cons.prems(2) in simp)
  show ?case
  proof (cases "t_skip ops s d")
    case True
    then show ?thesis using Cons by simp
  next
    case False
    have "test_round pollRes ops (d # ds) q s k = test_round pollRes ops ds (q(d := drop 4 (q d))) s1 (k + length (take 4 (q d)))"
      using False s1(1) devFatal [OF s1(2)] Cons.prems(2) poll by (simp add: Let_def)
    then show ?thesis using IH by metis
  qed
qed simp

lemma loop_inv:
  assumes "I s q"
  shows "\<exists>fin s' q'. test_loop pollRes ops n q s = Some (ncclSuccess, fin, s', q') \<and> I s' q'"
  using assms
proof (induction "pending [0..<n] q" arbitrary: s q rule: less_induct)
  case less
  obtain s1 q1 k where r: "test_round pollRes ops [0..<n] q s 0 = Some (ncclSuccess, s1, q1, k)" "I s1 q1"
    using round_inv [OF less.prems, of "[0..<n]" 0] by auto
  have p: "pending [0..<n] q1 + k = pending [0..<n] q" using test_round_pending [OF r(1)] by simp
  show ?case
  proof (cases "k = 0")
    case True
    then show ?thesis using r less.prems fatal [OF less.prems] by (cases "t_complete ops s") (auto simp: test_loop.simps [of pollRes ops n q s])
  next
    case False
    then have lt: "pending [0..<n] q1 < pending [0..<n] q" using p by linarith
    show ?thesis using less.hyps [OF lt r(2)] False r(1) less.prems fatal [OF less.prems] by (cases "t_complete ops s") (auto simp: test_loop.simps [of pollRes ops n q s])
  qed
qed

lemma loop_result:
  assumes "I s q"
  obtains fin s' q' where "test_loop pollRes ops n q s = Some (ncclSuccess, fin, s', q')" "I s' q'"
    "fin \<Longrightarrow> t_complete ops s'" "\<not> fin \<Longrightarrow> \<not> t_complete ops s' \<and> (\<forall>d < n. \<not> t_skip ops s' d \<longrightarrow> q' d = [])"
  using loop_inv [OF assms] test_loop_drains by (metis nccl_ok_success)

end

section \<open>Testing a send\<close>

text \<open>
  The invariant of \<open>ncclIbTest\<close> on a send: on device \<open>d\<close> the requests of the slot expect the completions that wait there and
  \<open>late d\<close> more that have not arrived. \<open>c0\<close> is the communicator at the start of the call.
\<close>

definition no_fatal_error :: "ib_params \<Rightarrow> ib_globals \<Rightarrow> nat \<Rightarrow> ncclIbSendComm \<Rightarrow> bool" where
  "no_fatal_error p g n c \<longleftrightarrow> ncclIbStatsCheckFatalCount p (b_stats (sc_base c)) = ncclSuccess
     \<and> (\<forall>d < n. dev_fatal p g (map_option ibDevN (ncclIbGetNetCommDevBase_send c (int d))) = ncclSuccess)"

definition send_expects :: "nat \<Rightarrow> nat list \<Rightarrow> nat \<Rightarrow> (nat \<Rightarrow> nat) \<Rightarrow> ncclIbSendComm \<Rightarrow> cqs \<Rightarrow> bool" where
  "send_expects slot is n late c q \<longleftrightarrow> n \<le> NCCL_IB_MAX_DEVS_PER_NIC \<and>
     slot_inflight c slot is (map (\<lambda>d. if d < n then int (late d + length (q d)) else 0) [0..<NCCL_IB_MAX_DEVS_PER_NIC])
     \<and> (\<forall>d < n. \<forall>wc \<in> set (q d). wc_of_slot slot wc)"

definition send_poll_inv :: "ib_params \<Rightarrow> ib_globals \<Rightarrow> nat \<Rightarrow> nat list \<Rightarrow> nat \<Rightarrow> nat \<Rightarrow> (nat \<Rightarrow> nat) \<Rightarrow> ncclIbSendComm \<Rightarrow> ncclIbSendComm \<Rightarrow> cqs \<Rightarrow> bool" where
  "send_poll_inv p g slot is n i late c0 c q \<longleftrightarrow> no_fatal_error p g n c0 \<and> same_but_events c c0 \<and> send_expects slot is n late c q
     \<and> (\<forall>d < n. rq_devBases (reqs (sc_base c0) ! i) ! d \<or> q d = [])"

lemma no_fatal_error_same: "same_but_events c c0 \<Longrightarrow> no_fatal_error p g n c = no_fatal_error p g n c0"
  by (simp add: no_fatal_error_def ncclIbGetNetCommDevBase_send_def same_but_events_fields)

lemma send_expects_step:
  assumes "send_expects slot is n late c q" "d < n" "q d = wc # wcs"
  shows "\<exists>c'. ncclIbCompletionEventProcess_send d wc c = Some (ncclSuccess, c') \<and> same_but_events c' c
    \<and> send_expects slot is n late c' (q(d := wcs))"
proof -
  define E where "E = map (\<lambda>d. if d < n then int (late d + length (q d)) else 0) [0..<NCCL_IB_MAX_DEVS_PER_NIC]"
  have h: "slot_inflight c slot is E" "n \<le> NCCL_IB_MAX_DEVS_PER_NIC" "wc_of_slot slot wc" "\<forall>e < n. \<forall>wc \<in> set (q e). wc_of_slot slot wc"
    using assms by (auto simp: send_expects_def E_def)
  have d: "d < NCCL_IB_MAX_DEVS_PER_NIC" "0 < E ! d" using assms(2,3) h(2) by (simp_all add: E_def)
  obtain c' where c': "ncclIbCompletionEventProcess_send d wc c = Some (ncclSuccess, c')" "slot_inflight c' slot is (E[d := E ! d - 1])" "same_but_events c' c"
    using send_completion_step [OF h(1,3) d] by blast
  have "E[d := E ! d - 1] = map (\<lambda>e. if e < n then int (late e + length ((q(d := wcs)) e)) else 0) [0..<NCCL_IB_MAX_DEVS_PER_NIC]"
    using assms(2,3) d(1) by (intro nth_equalityI) (auto simp: E_def nth_list_update)
  then have "send_expects slot is n late c' (q(d := wcs))"
    using c'(2) h assms(3) by (auto simp: send_expects_def)
  then show ?thesis using c' by blast
qed

interpretation send_poll: poll_invariant "\<lambda>_. ncclSuccess" "send_test_ops p g resHandle resComplete i" n "send_poll_inv p g slot is n i late c0"
  for p g resHandle resComplete i n slot "is" late c0
proof
  fix s q d wc wcs
  assume inv: "send_poll_inv p g slot is n i late c0 s q"
  then have nf: "no_fatal_error p g n s" and same: "same_but_events s c0" and ex: "send_expects slot is n late s q"
    using no_fatal_error_same by (auto simp: send_poll_inv_def)
  show "t_fatal (send_test_ops p g resHandle resComplete i) s = ncclSuccess"
    using nf by (simp add: no_fatal_error_def send_test_ops_def)
  show "d < n \<Longrightarrow> t_devFatal (send_test_ops p g resHandle resComplete i) d s = ncclSuccess"
    using nf by (simp add: no_fatal_error_def send_test_ops_def)
  show "\<exists>s'. t_process (send_test_ops p g resHandle resComplete i) d wc s = Some (ncclSuccess, s') \<and> send_poll_inv p g slot is n i late c0 s' (q(d := wcs))"
    if d: "d < n" "q d = wc # wcs"
  proof -
    obtain s' where s': "ncclIbCompletionEventProcess_send d wc s = Some (ncclSuccess, s')" "same_but_events s' s" "send_expects slot is n late s' (q(d := wcs))"
      using send_expects_step [OF ex d] by blast
    have "wc_status_ok wc" using ex d by (auto simp: send_expects_def wc_of_slot_def)
    then have "t_process (send_test_ops p g resHandle resComplete i) d wc s = Some (ncclSuccess, s')"
      using s'(1) by (simp add: send_test_ops_def)
    moreover have "send_poll_inv p g slot is n i late c0 s' (q(d := wcs))"
      using inv s' d same_but_events_trans [OF s'(2) same] by (auto simp: send_poll_inv_def)
    ultimately show ?thesis by blast
  qed
qed simp

lemma int_sum_zero [simp]: "int k + int (length xs) = 0 \<longleftrightarrow> k = 0 \<and> xs = []"
proof -
  have "int k + int (length xs) = int (k + length xs)" by simp
  then show ?thesis by (simp only: of_nat_eq_0_iff add_eq_0_iff_both_eq_0 length_0_conv)
qed

lemma send_expects_complete:
  assumes "send_expects slot is n late c q" "i \<in> set is"
  shows "ncclIbRequestIsComplete (reqs (sc_base c) ! i) \<longleftrightarrow> (\<forall>d < n. late d = 0 \<and> q d = [])"
    and "d < n \<Longrightarrow> rq_events (reqs (sc_base c) ! i) ! d = int (late d + length (q d))"
proof -
  define E where "E = map (\<lambda>d. if d < n then int (late d + length (q d)) else 0) [0..<NCCL_IB_MAX_DEVS_PER_NIC]"
  have h: "slot_inflight c slot is E" "n \<le> NCCL_IB_MAX_DEVS_PER_NIC" using assms(1) by (simp_all add: send_expects_def E_def)
  show "ncclIbRequestIsComplete (reqs (sc_base c) ! i) \<longleftrightarrow> (\<forall>d < n. late d = 0 \<and> q d = [])"
    using inflight_complete [OF h(1) assms(2)] h(2) by (force simp: E_def)
  have "rq_events (reqs (sc_base c) ! i) = E" using h(1) assms(2) by (simp add: slot_inflight_def)
  then show "d < n \<Longrightarrow> rq_events (reqs (sc_base c) ! i) ! d = int (late d + length (q d))" using h(2) by (simp add: E_def)
qed

lemma send_loop_result:
  assumes "send_expects slot is n late comm cq" "no_fatal_error p g n comm" "i \<in> set is"
    "\<forall>d < n. rq_devBases (reqs (sc_base comm) ! i) ! d \<or> cq d = []"
  shows "\<exists>c q. test_loop (\<lambda>_. ncclSuccess) (send_test_ops p g resHandle resComplete i) n cq comm = Some (ncclSuccess, \<forall>d < n. late d = 0, c, q)
    \<and> same_but_events c comm \<and> (\<forall>d < n. q d = [])"
proof -
  have inv: "send_poll_inv p g slot is n i late comm comm cq" using assms by (simp add: send_poll_inv_def)
  obtain fin c q where l: "test_loop (\<lambda>_. ncclSuccess) (send_test_ops p g resHandle resComplete i) n cq comm = Some (ncclSuccess, fin, c, q)"
    "send_poll_inv p g slot is n i late comm c q" "fin \<Longrightarrow> t_complete (send_test_ops p g resHandle resComplete i) c"
    "\<not> fin \<Longrightarrow> \<not> t_complete (send_test_ops p g resHandle resComplete i) c
      \<and> (\<forall>d < n. \<not> t_skip (send_test_ops p g resHandle resComplete i) c d \<longrightarrow> q d = [])"
    by (rule send_poll.loop_result [OF inv]) (rule that)
  have same: "same_but_events c comm" and ex: "send_expects slot is n late c q"
    and db: "\<forall>d < n. rq_devBases (reqs (sc_base comm) ! i) ! d \<or> q d = []"
    using l(2) by (simp_all add: send_poll_inv_def)
  have nres: "\<not> resiliency (sc_base c)" using ex by (simp add: send_expects_def slot_inflight_def)
  have comp: "t_complete (send_test_ops p g resHandle resComplete i) c \<longleftrightarrow> (\<forall>d < n. late d = 0 \<and> q d = [])"
    using send_expects_complete(1) [OF ex assms(3)] nres by (simp add: send_test_ops_def request_complete_def)
  have skip: "q d = []" if "d < n" "t_skip (send_test_ops p g resHandle resComplete i) c d" for d
    using that db send_expects_complete(2) [OF ex assms(3)] same_but_events_fields(7) [OF same] by (auto simp: send_test_ops_def)
  have "\<forall>d < n. q d = []" using l(3,4) comp skip by (cases fin) auto
  moreover from this have "fin = (\<forall>d < n. late d = 0)" using l(3,4) comp by (cases fin) auto
  ultimately show ?thesis using l(1) same by blast
qed

text \<open>C2 A send is reported complete exactly when every completion it waits for has arrived. Suppose the requests of
  a slot expect on device d the completions that wait in its queue and late(d) more. Then ncclIbTest consumes all that wait on
  every device, without an error, and answers done exactly if late(d) is 0 for every device; it then reports the size of the
  request and gives the request back to the pool.\<close>

theorem send_completes_exactly:
  assumes "send_expects slot is n late comm cq" "no_fatal_error p g n comm" "i \<in> set is"
    "\<forall>d < n. rq_devBases (reqs (sc_base comm) ! i) ! d \<or> cq d = []" "nat (ndevs (vProps (sc_base comm))) = n" "IbEventBasedLb p = 0"
  defines "fin \<equiv> \<forall>d < n. late d = 0"
  shows "\<exists>comm' cq'. ncclIbTest_send p g (\<lambda>_. ncclSuccess) resProgress resHandle resComplete i cq comm
      = Some (ncclSuccess, (fin, if fin then [rq_size (reqs (sc_base comm) ! i)] else []), comm', cq')
    \<and> (\<forall>d < n. cq' d = []) \<and> rq_type (reqs (sc_base comm') ! i) = (if fin then REQ_UNUSED else REQ_SEND)"
proof -
  have i: "\<not> resiliency (sc_base comm)" "i < length (reqs (sc_base comm))" "rq_type (reqs (sc_base comm) ! i) = REQ_SEND"
    using assms(1,3) by (auto simp: send_expects_def slot_inflight_def)
  obtain c q where c: "test_loop (\<lambda>_. ncclSuccess) (send_test_ops p g resHandle resComplete i) n cq comm = Some (ncclSuccess, fin, c, q)"
    "same_but_events c comm" "\<forall>d < n. q d = []"
    using send_loop_result [OF assms(1-4)] unfolding fin_def by blast
  show ?thesis
  proof (cases fin)
    case True
    then show ?thesis using c i assms(5,6) same_but_events_fields [OF c(2)]
      by (simp add: ncclIbTest_send_def ret_def ncclIbRequestComplete_send_def Let_def ncclIbFreeRequest_def)
  next
    case False
    then show ?thesis using c i assms(5) same_but_events_fields(9) [OF c(2)] by (simp add: ncclIbTest_send_def ret_def)
  qed
qed

section \<open>Polling always ends\<close>

text \<open>A sender in order: every send that a completion can name stands in its slot with all requests of its multi-send. Without a resiliency context an error ends the call.\<close>

definition sends_sound :: "ncclIbSendComm \<Rightarrow> bool" where
  "sends_sound c \<longleftrightarrow> \<not> resiliency (sc_base c)
     \<and> (\<forall>w < 256. \<forall>i. sc_sendReqs c ! w ! 0 = Some i \<and> rq_type (reqs (sc_base c) ! i) = REQ_SEND \<longrightarrow>
          (let req = reqs (sc_base c) ! i; row = sc_sendReqs c ! unat (rq_id req mod word_of_nat NET_IB_MAX_REQUESTS)
           in nat (rq_nreqs req) \<le> length row \<and> None \<notin> set (take (nat (rq_nreqs req)) row)))"

lemma same_but_events_set: "same_but_events (c\<lparr> sc_base := set_req i (dec_event d (reqs (sc_base c) ! i)) (sc_base c) \<rparr>) c"
proof -
  have "((reqs (sc_base c))[i := dec_event d (reqs (sc_base c) ! i)]) ! j =
      (reqs (sc_base c) ! j)\<lparr> rq_events := rq_events (((reqs (sc_base c))[i := dec_event d (reqs (sc_base c) ! i)]) ! j) \<rparr>" for j
  proof -
    consider "i \<noteq> j" | "i = j" "i < length (reqs (sc_base c))" | "length (reqs (sc_base c)) \<le> i" by linarith
    then show ?thesis by cases (simp_all add: dec_event_def list_update_beyond)
  qed
  then show ?thesis by (simp add: same_but_events_def set_req_def)
qed

lemma send_events_total:
  "None \<notin> set xs \<Longrightarrow> \<exists>r c'. send_events d xs c = Some (r, c') \<and> same_but_events c' c"
proof (induction xs arbitrary: c)
  case (Cons x xs)
  then obtain i where i: "x = Some i" by (cases x) auto
  let ?c = "c\<lparr> sc_base := set_req i (dec_event d (reqs (sc_base c) ! i)) (sc_base c) \<rparr>"
  obtain r c' where "send_events d xs ?c = Some (r, c')" "same_but_events c' ?c" using Cons by force
  moreover from this have "same_but_events c' c" using same_but_events_trans [OF _ same_but_events_set] by blast
  ultimately show ?case
    unfolding i send_events.simps Let_def
    by (cases "\<not> resiliency (sc_base c) \<and> rq_events (reqs (sc_base c) ! i) ! d \<le> 0") (simp_all add: ret_def)
qed (auto simp: ret_def)

lemma send_process_total:
  assumes "sends_sound c" "wc_wr_id wc \<noteq> NCCL_IB_SPEED_UPDATE_WR_ID"
  shows "\<exists>r c'. ncclIbCompletionEventProcess_send d wc c = Some (r, c') \<and> same_but_events c' c"
proof -
  define w where "w = unat (wc_wr_id wc AND 0xff)"
  have "wc_wr_id wc AND 0xff < 256" by (rule le_less_trans [OF word_and_le1]) simp
  then have "w < 256" by (simp add: w_def word_less_nat_alt)
  show ?thesis
  proof (cases "wc_status_ok wc \<and> (\<exists>i. sc_sendReqs c ! w ! 0 = Some i \<and> rq_type (reqs (sc_base c) ! i) = REQ_SEND)")
    case True
    then obtain i where i: "wc_status_ok wc" "sc_sendReqs c ! w ! 0 = Some i" "rq_type (reqs (sc_base c) ! i) = REQ_SEND" by blast
    let ?req = "reqs (sc_base c) ! i"
    let ?row = "sc_sendReqs c ! unat (rq_id ?req mod word_of_nat NET_IB_MAX_REQUESTS)"
    have row: "\<not> length ?row < nat (rq_nreqs ?req)" "None \<notin> set (take (nat (rq_nreqs ?req)) ?row)"
      using assms(1) i(2,3) \<open>w < 256\<close> by (auto simp: sends_sound_def Let_def)
    have "ncclIbCompletionEventProcess_send d wc c = send_events d (take (nat (rq_nreqs ?req)) ?row) c"
      using assms(2) i row(1) by (simp add: ncclIbCompletionEventProcess_send_def retrieve_send_def w_def [symmetric] Let_def)
    then show ?thesis using send_events_total [OF row(2)] by simp
  next
    case False
    then show ?thesis
      using assms(2) by (auto simp: ncclIbCompletionEventProcess_send_def retrieve_send_def w_def [symmetric] Let_def ret_def split: option.splits)
  qed
qed

lemma sends_sound_same: "same_but_events c' c \<Longrightarrow> sends_sound c \<Longrightarrow> sends_sound c'"
proof -
  assume same: "same_but_events c' c" and c: "sends_sound c"
  have r: "reqs (sc_base c') ! i = (reqs (sc_base c) ! i)\<lparr> rq_events := rq_events (reqs (sc_base c') ! i) \<rparr>" for i
    using same unfolding same_but_events_def by blast
  have n: "rq_nreqs (reqs (sc_base c') ! i) = rq_nreqs (reqs (sc_base c) ! i)" for i by (subst r) simp
  show ?thesis using c same_but_events_fields [OF same] by (simp add: sends_sound_def n Let_def)
qed

interpretation send_total: poll_total "send_test_ops p g resHandle resComplete i" n "\<lambda>c. sends_sound c \<and> same_but_events c c0"
    "\<lambda>wc. wc_wr_id wc \<noteq> NCCL_IB_SPEED_UPDATE_WR_ID" wc_status_ok
  for p g resHandle resComplete i n c0
proof
  fix c d and wc :: ibv_wc
  assume c: "sends_sound c \<and> same_but_events c c0" and "wc_wr_id wc \<noteq> NCCL_IB_SPEED_UPDATE_WR_ID"
  then show "\<exists>r c'. t_process (send_test_ops p g resHandle resComplete i) d wc c = Some (r, c') \<and> (sends_sound c' \<and> same_but_events c' c0) \<and> (nccl_ok r \<longrightarrow> wc_status_ok wc)"
    using send_process_total [of c wc d] sends_sound_same same_but_events_trans
    by (cases "wc_status_ok wc") (fastforce simp: send_test_ops_def sends_sound_def ret_def nccl_ok_def)+
qed

text \<open>The receiver: a completion of a receive names its request by its number, or by the immediate data when requests are matched by it.\<close>

definition recv_wc :: "ncclIbRecvComm \<Rightarrow> ibv_wc \<Rightarrow> bool" where
  "recv_wc comm wc \<longleftrightarrow> wc_wr_id wc = NCCL_IB_SPEED_UPDATE_WR_ID \<or> \<not> wc_status_ok wc \<or> wc_op wc = WC_RDMA_READ \<or> unat (wc_wr_id wc) < NET_IB_MAX_REQUESTS
     \<or> wc_op wc = WC_RECV_RDMA_WITH_IMM \<and> recvMatchingScheme (rc_base comm) = BY_ID"

definition same_scheme :: "recv_st \<Rightarrow> recv_st \<Rightarrow> bool" where
  "same_scheme s s0 \<longleftrightarrow> \<not> resiliency (rc_base (rs_comm s)) \<and> recvMatchingScheme (rc_base (rs_comm s)) = recvMatchingScheme (rc_base (rs_comm s0))"

lemma same_scheme_updates [simp]:
  "same_scheme (st\<lparr> rs_comm := (rs_comm st)\<lparr> rc_postedSpeedUpdate := x \<rparr> \<rparr>) s0 = same_scheme st s0"
  "same_scheme (upd_rbase (\<lambda>b. set_req j (f b) b) st) s0 = same_scheme st s0"
  "same_scheme (st\<lparr> rs_comm := record_size wc j (rs_comm st) \<rparr>) s0 = same_scheme st s0"
  "same_scheme (st\<lparr> rs_comm := mark_completion j k (rs_comm st) \<rparr>) s0 = same_scheme st s0"
  "same_scheme (st\<lparr> rs_comm := mark_completion j k (record_size wc j (rs_comm st)) \<rparr>) s0 = same_scheme st s0"
  "same_scheme (st\<lparr> rs_recvs := xs \<rparr>) s0 = same_scheme st s0"
  by (simp_all add: same_scheme_def upd_rbase_def set_req_def record_size_def mark_completion_def Let_def)

text \<open>An outcome is there and keeps the scheme; the rules follow the way outcomes are put together.\<close>

definition keeps_scheme :: "recv_st \<Rightarrow> recv_st outcome \<Rightarrow> bool" where
  "keeps_scheme s0 out \<longleftrightarrow> (\<exists>r st. out = Some (r, st) \<and> same_scheme st s0)"

lemma keeps_ret [simp]: "keeps_scheme s0 (ret r st) \<longleftrightarrow> same_scheme st s0"
  by (simp add: keeps_scheme_def ret_def)

lemma keeps_chk: "keeps_scheme s0 out \<Longrightarrow> (\<And>st. same_scheme st s0 \<Longrightarrow> keeps_scheme s0 (f st)) \<Longrightarrow> keeps_scheme s0 (chk out f)"
  by (auto simp: keeps_scheme_def chk_def)

lemma keeps_chk_val: "same_scheme st s0 \<Longrightarrow> (\<And>x. keeps_scheme s0 (f x)) \<Longrightarrow> keeps_scheme s0 (chk_val c st f)"
  by (cases c) (auto simp: keeps_scheme_def chk_val_def ret_def)

lemma keeps_post_recv: "same_scheme st s0 \<Longrightarrow> keeps_scheme s0 (post_recv v qp st)"
  by (simp add: post_recv_def Let_def)

lemma recv_process_total:
  assumes "same_scheme st s0" "IbEventBasedLb p = 0 \<or> IbEventBasedLbRemote p = 0" "recv_wc (rs_comm s0) wc" "wc_status_ok wc"
  shows "keeps_scheme s0 (ncclIbCompletionEventProcess_recv p g v d wc st)"
proof (cases "wc_wr_id wc = NCCL_IB_SPEED_UPDATE_WR_ID")
  case True
  then show ?thesis using assms(1) by (simp add: ncclIbCompletionEventProcess_recv_def)
next
  case False
  have "retrieve_recv (rs_comm st) wc \<noteq> None"
    using assms False by (auto simp: recv_wc_def retrieve_recv_def same_scheme_def)
  then obtain c where c: "retrieve_recv (rs_comm st) wc = Some c" by blast
  have lb: "\<not> (IbEventBasedLb p \<noteq> 0 \<and> IbEventBasedLbRemote p \<noteq> 0)" using assms(2) by blast
  show ?thesis
    unfolding ncclIbCompletionEventProcess_recv_def Let_def c deref_simps if_not_P [OF False] if_not_P [OF lb]
    using assms(1) by (auto intro!: keeps_chk_val keeps_chk keeps_post_recv split: option.splits wc_opcode.splits)
qed

interpretation recv_total: poll_total "recv_test_ops p g v resHandle resComplete i" n
    "\<lambda>s. same_scheme s s0 \<and> (IbEventBasedLb p = 0 \<or> IbEventBasedLbRemote p = 0)" "recv_wc (rs_comm s0)" "\<lambda>wc. wc_status_ok wc \<or> wc_wr_id wc = NCCL_IB_SPEED_UPDATE_WR_ID"
  for p g v resHandle resComplete i n s0
proof
  fix s d and wc :: ibv_wc
  assume s: "same_scheme s s0 \<and> (IbEventBasedLb p = 0 \<or> IbEventBasedLbRemote p = 0)" and wc: "recv_wc (rs_comm s0) wc"
  have "\<not> resiliency (rc_base (rs_comm s))" using s by (simp add: same_scheme_def)
  with s show "\<exists>r s'. t_process (recv_test_ops p g v resHandle resComplete i) d wc s = Some (r, s') \<and> (same_scheme s' s0 \<and> (IbEventBasedLb p = 0 \<or> IbEventBasedLbRemote p = 0))
      \<and> (nccl_ok r \<longrightarrow> wc_status_ok wc \<or> wc_wr_id wc = NCCL_IB_SPEED_UPDATE_WR_ID)"
    using recv_process_total [of s s0 p wc g v d] wc
    by (cases "wc_status_ok wc"; cases "wc_wr_id wc = NCCL_IB_SPEED_UPDATE_WR_ID") (simp_all add: recv_test_ops_def keeps_scheme_def ret_def nccl_ok_def)
qed

lemma send_test_total:
  assumes "sends_sound comm" "\<forall>d < nat (ndevs (vProps (sc_base comm))). \<forall>wc \<in> set (cq d). wc_wr_id wc \<noteq> NCCL_IB_SPEED_UPDATE_WR_ID" "IbEventBasedLb p = 0"
  shows "\<exists>r fin sizes comm' cq'. ncclIbTest_send p g pollRes resProgress resHandle resComplete i cq comm = Some (r, (fin, sizes), comm', cq')
      \<and> taken wc_status_ok r cq cq'
      \<and> (fin \<longrightarrow> r = ncclSuccess \<and> (\<exists>c. same_but_events c comm \<and> ncclIbRequestIsComplete (reqs (sc_base c) ! i) \<and> ncclIbRequestComplete_send p g i c = Some (sizes, comm')))
      \<and> (nccl_ok r \<and> \<not> fin \<longrightarrow> \<not> ncclIbRequestIsComplete (reqs (sc_base comm') ! i)
          \<and> (\<forall>d < nat (ndevs (vProps (sc_base comm))). rq_devBases (reqs (sc_base comm') ! i) ! d \<and> rq_events (reqs (sc_base comm') ! i) ! d \<noteq> 0 \<longrightarrow> cq' d = []))"
proof -
  let ?ops = "send_test_ops p g resHandle resComplete i"
  obtain r fin c cq' where loop: "test_loop pollRes ?ops (nat (ndevs (vProps (sc_base comm)))) cq comm = Some (r, fin, c, cq')"
    and c: "sends_sound c" "same_but_events c comm" and t: "taken wc_status_ok r cq cq'"
    using send_total.loop_total [of comm comm "nat (ndevs (vProps (sc_base comm)))" cq pollRes p g resHandle resComplete i] assms(1,2) by auto
  note dr = test_loop_drains [OF loop]
  have res: "\<not> resiliency (sc_base comm)" "\<not> resiliency (sc_base c)" using assms(1) c(1) by (simp_all add: sends_sound_def)
  show ?thesis
  proof (cases fin)
    case True
    have "ncclIbRequestComplete_send p g i c \<noteq> None" using assms(3) by (simp add: ncclIbRequestComplete_send_def Let_def)
    then obtain sizes c1 where "ncclIbRequestComplete_send p g i c = Some (sizes, c1)" by auto
    then show ?thesis using True dr loop c(2) t res by (auto simp: ncclIbTest_send_def ret_def send_test_ops_def request_complete_def)
  next
    case False
    then show ?thesis using dr loop c(2) t res by (auto simp: ncclIbTest_send_def ret_def send_test_ops_def request_complete_def)
  qed
qed

lemma recv_test_total:
  assumes "\<not> resiliency (rc_base (rs_comm st))" "\<forall>d < nat (ndevs (vProps (rc_base (rs_comm st)))). \<forall>wc \<in> set (cq d). recv_wc (rs_comm st) wc"
    "IbEventBasedLb p = 0 \<or> IbEventBasedLbRemote p = 0"
  shows "\<exists>r fin sizes st' cq'. ncclIbTest_recv p g v pollRes resProgress resHandle resComplete i cq st = Some (r, (fin, sizes), st', cq')
      \<and> taken (\<lambda>wc. wc_status_ok wc \<or> wc_wr_id wc = NCCL_IB_SPEED_UPDATE_WR_ID) r cq cq'
      \<and> (fin \<longrightarrow> r = ncclSuccess \<and> (\<exists>c. ncclIbRequestIsComplete (reqs (rc_base c) ! i) \<and> ncclIbRequestComplete_recv i c = (sizes, rs_comm st')))
      \<and> (nccl_ok r \<and> \<not> fin \<longrightarrow> \<not> ncclIbRequestIsComplete (reqs (rc_base (rs_comm st')) ! i)
          \<and> (\<forall>d < nat (ndevs (vProps (rc_base (rs_comm st)))). rq_devBases (reqs (rc_base (rs_comm st')) ! i) ! d \<and> rq_events (reqs (rc_base (rs_comm st')) ! i) ! d \<noteq> 0 \<longrightarrow> cq' d = []))"
proof -
  let ?ops = "recv_test_ops p g v resHandle resComplete i"
  have st: "same_scheme st st" using assms(1) by (simp add: same_scheme_def)
  obtain r fin s cq' where loop: "test_loop pollRes ?ops (nat (ndevs (vProps (rc_base (rs_comm st))))) cq st = Some (r, fin, s, cq')"
    and s: "same_scheme s st" and t: "taken (\<lambda>wc. wc_status_ok wc \<or> wc_wr_id wc = NCCL_IB_SPEED_UPDATE_WR_ID) r cq cq'"
    using recv_total.loop_total [of st st p "nat (ndevs (vProps (rc_base (rs_comm st))))" cq pollRes g v resHandle resComplete i] st assms(2,3) by auto
  note dr = test_loop_drains [OF loop]
  have res: "\<not> resiliency (rc_base (rs_comm s))" using s by (simp add: same_scheme_def)
  show ?thesis
  proof (cases fin)
    case True
    obtain sizes c1 where "ncclIbRequestComplete_recv i (rs_comm s) = (sizes, c1)" by fastforce
    then show ?thesis using True dr loop t res assms(1) by (auto simp: ncclIbTest_recv_def ret_def recv_test_ops_def request_complete_def)
  next
    case False
    then show ?thesis using dr loop t res assms(1) by (auto simp: ncclIbTest_recv_def ret_def recv_test_ops_def request_complete_def)
  qed
qed

text \<open>C21 \<open>ncclIbTest\<close> returns whatever waits on the devices: successful completions of any request and with any opcode, more of them than were expected, and completions with an error. It takes completions in order, and never
  hides an error: when the call succeeds, everything it took was successful (but for a speed update, whose failure a receiver ignores). It answers done only when the request has no event
  left, reports then what \<open>ncclIbRequestComplete\<close> does, and when it reports neither an error nor done there is nothing left to poll on a device the request waits for. This is for communicators without a resiliency context; a sender's slots are in order
  and it never posts a speed update, and the receiver does not announce speeds.\<close>

theorem test_drains:
  assumes "sends_sound comm" "\<forall>d < nat (ndevs (vProps (sc_base comm))). \<forall>wc \<in> set (cq d). wc_wr_id wc \<noteq> NCCL_IB_SPEED_UPDATE_WR_ID" "IbEventBasedLb p = 0"
    and "\<not> resiliency (rc_base (rs_comm st))" "\<forall>d < nat (ndevs (vProps (rc_base (rs_comm st)))). \<forall>wc \<in> set (rcq d). recv_wc (rs_comm st) wc"
  shows "(\<exists>r fin sizes comm' cq'. ncclIbTest_send p g pollRes resProgress resHandle resComplete i cq comm = Some (r, (fin, sizes), comm', cq')
      \<and> taken wc_status_ok r cq cq'
      \<and> (fin \<longrightarrow> r = ncclSuccess \<and> (\<exists>c. same_but_events c comm \<and> ncclIbRequestIsComplete (reqs (sc_base c) ! i) \<and> ncclIbRequestComplete_send p g i c = Some (sizes, comm')))
      \<and> (nccl_ok r \<and> \<not> fin \<longrightarrow> \<not> ncclIbRequestIsComplete (reqs (sc_base comm') ! i)
          \<and> (\<forall>d < nat (ndevs (vProps (sc_base comm))). rq_devBases (reqs (sc_base comm') ! i) ! d \<and> rq_events (reqs (sc_base comm') ! i) ! d \<noteq> 0 \<longrightarrow> cq' d = [])))
    \<and> (\<exists>r fin sizes st' cq'. ncclIbTest_recv p g v pollRes resProgressR resHandleR resComplete i rcq st = Some (r, (fin, sizes), st', cq')
      \<and> taken (\<lambda>wc. wc_status_ok wc \<or> wc_wr_id wc = NCCL_IB_SPEED_UPDATE_WR_ID) r rcq cq'
      \<and> (fin \<longrightarrow> r = ncclSuccess \<and> (\<exists>c. ncclIbRequestIsComplete (reqs (rc_base c) ! i) \<and> ncclIbRequestComplete_recv i c = (sizes, rs_comm st')))
      \<and> (nccl_ok r \<and> \<not> fin \<longrightarrow> \<not> ncclIbRequestIsComplete (reqs (rc_base (rs_comm st')) ! i)
          \<and> (\<forall>d < nat (ndevs (vProps (rc_base (rs_comm st)))). rq_devBases (reqs (rc_base (rs_comm st')) ! i) ! d \<and> rq_events (reqs (rc_base (rs_comm st')) ! i) ! d \<noteq> 0 \<longrightarrow> cq' d = [])))"
  by (rule conjI [OF send_test_total [OF assms(1,2,3)] recv_test_total [OF assms(4,5) disjI1 [OF assms(3)]]])

section \<open>An example\<close>

text \<open>The request of the example of \<open>NetIb_Send_Facts\<close> in flight: it expects one completion on each of two devices.\<close>

definition example_inflight :: ncclIbSendComm where
  "example_inflight = (ss_comm (example_send [50, 50]))\<lparr>
     sc_base := set_req 0 ((reqs (sc_base (ss_comm (example_send [50, 50]))) ! 0)\<lparr>
        rq_events := [1, 1, 0, 0, 0, 0, 0, 0], rq_devBases := [True, True, False, False, False, False, False, False] \<rparr>)
       (sc_base (ss_comm (example_send [50, 50]))),
     sc_sendReqsCnt := [1] \<rparr>"

definition example_wc :: ibv_wc where
  "example_wc = \<lparr> wc_wr_id = 0, wc_stat = WC_SUCCESS, wc_op = WC_RDMA_WRITE, wc_byte_len = 0, wc_imm_data = 0, wc_qp_num = 0 \<rparr>"

lemma example_inflight_expects:
  "send_expects 0 [0] 2 (\<lambda>d. 1 - k d) example_inflight (\<lambda>d. replicate (k d) example_wc)" if "\<forall>d < 2. k d \<le> 1"
proof -
  have e: "map (\<lambda>d. if d < 2 then int (1 - k d + length (replicate (k d) example_wc)) else 0) [0..<NCCL_IB_MAX_DEVS_PER_NIC] = [1, 1, 0, 0, 0, 0, 0, 0]"
    using that by (simp add: NCCL_IB_MAX_DEVS_PER_NIC_def upt_rec all_two)
  show ?thesis
    unfolding send_expects_def e
    by (simp add: slot_inflight_def example_inflight_def set_req_def example_send_def max_requests NCCL_IB_MAX_DEVS_PER_NIC_def zero_base_def
        zero_request_def wc_of_slot_def example_wc_def NCCL_IB_SPEED_UPDATE_WR_ID_def)
qed

lemma example_no_fatal: "no_fatal_error default_params example_globals 2 example_inflight"
  by (simp add: no_fatal_error_def all_two dev_fatal_def ncclIbStatsCheckFatalCount_def example_inflight_def example_send_def set_req_def zero_base_def
      ncclIbGetNetCommDevBase_send_def at_def zero_sendComm_def zero_devBase_def example_globals_def zero_dev_def nth_Cons')

theorem send_completes_exactly_witness:
  "\<exists>comm' cq'. ncclIbTest_send default_params example_globals (\<lambda>_. ncclSuccess) (ret ncclSuccess) (\<lambda>_ _. ret ncclSuccess) (\<lambda>_. False) 0
     (\<lambda>d. replicate 1 example_wc) example_inflight = Some (ncclSuccess, (True, [1000]), comm', cq')"
  using send_completes_exactly [OF example_inflight_expects [of "\<lambda>_. 1"] example_no_fatal, of 0 "ret ncclSuccess" "\<lambda>_ _. ret ncclSuccess" "\<lambda>_. False"]
  by (auto simp: all_two example_inflight_def example_send_def set_req_def default_params_def)

text \<open>Polling with an error: the second device of the sender reports a failed write. And a receiver that waits for one piece behind a failed speed update.\<close>

definition example_busy :: ncclIbSendComm where
  "example_busy = example_inflight\<lparr> sc_sendReqs := [Some 0] # replicate 255 [None] \<rparr>"

definition failing_cqs :: cqs where
  "failing_cqs = (\<lambda>d. [if d = 0 then example_wc else example_wc\<lparr> wc_stat := WC_RETRY_EXC_ERR \<rparr>])"

definition example_waiting :: recv_st where
  "example_waiting = \<lparr> rs_comm = zero_recvComm\<lparr>
     rc_base := zero_base\<lparr> vProps := \<lparr> ndevs = 1, devs = [0, 0, 0, 0, 0, 0, 0, 0] \<rparr>, ready := 1, recvMatchingScheme := BY_ID,
       reqs := [zero_request\<lparr> rq_type := REQ_RECV, rq_nreqs := 1, rq_events := [1, 0, 0, 0, 0, 0, 0, 0],
         rq_devBases := [True, False, False, False, False, False, False, False] \<rparr>] \<rparr>,
     rc_recvReqs := [Some 0] \<rparr>, rs_posted = [], rs_recvs = [], rs_flushes = [], rs_request = None \<rparr>"

definition waiting_cqs :: cqs where
  "waiting_cqs = (\<lambda>d. [example_wc\<lparr> wc_wr_id := NCCL_IB_SPEED_UPDATE_WR_ID, wc_stat := WC_RETRY_EXC_ERR \<rparr>,
     example_wc\<lparr> wc_op := WC_RECV_RDMA_WITH_IMM, wc_byte_len := 100 \<rparr>])"

definition example_rv :: ib_rverbs where
  "example_rv = \<lparr> rv_post_send = \<lambda>_ _. ncclSuccess, rv_post_recv = \<lambda>_ _. ncclSuccess, rv_ibv_post_send = \<lambda>_ _. ncclSuccess,
     rv_cts_addr = \<lambda>_. 0, rv_speed_addr = 0 \<rparr>"

lemma example_busy_sound: "sends_sound example_busy"
proof -
  have slots: "sc_sendReqs example_busy = [Some 0] # replicate 255 [None]" by (simp add: example_busy_def)
  have req: "rq_nreqs (reqs (sc_base example_busy) ! 0) = 1" "rq_id (reqs (sc_base example_busy) ! 0) = 0"
    by (simp_all add: example_busy_def example_inflight_def example_send_def set_req_def zero_request_def)
  have one: "i = 0" if "w < 256" "sc_sendReqs example_busy ! w ! 0 = Some i" for w i
    using that unfolding slots by (cases w) auto
  have row: "nat (rq_nreqs (reqs (sc_base example_busy) ! i)) \<le> length (sc_sendReqs example_busy ! unat (rq_id (reqs (sc_base example_busy) ! i) mod word_of_nat NET_IB_MAX_REQUESTS))
      \<and> None \<notin> set (take (nat (rq_nreqs (reqs (sc_base example_busy) ! i))) (sc_sendReqs example_busy ! unat (rq_id (reqs (sc_base example_busy) ! i) mod word_of_nat NET_IB_MAX_REQUESTS)))"
    if "w < 256" "sc_sendReqs example_busy ! w ! 0 = Some i" for w i
    unfolding one [OF that] req by (simp add: slots)
  have "\<not> resiliency (sc_base example_busy)"
    by (simp add: example_busy_def example_inflight_def example_send_def set_req_def zero_base_def)
  then show ?thesis unfolding sends_sound_def Let_def using row by blast
qed

theorem test_drains_witness:
  "(\<exists>r fin sizes comm' cq'. ncclIbTest_send default_params example_globals (\<lambda>_. ncclSuccess) (ret ncclSuccess) (\<lambda>_ _. ret ncclSuccess) (\<lambda>_. False) 0
      failing_cqs example_busy = Some (r, (fin, sizes), comm', cq') \<and> taken wc_status_ok r failing_cqs cq' \<and> r = ncclRemoteError)
   \<and> (\<exists>st' cq'. ncclIbTest_recv default_params example_globals example_rv (\<lambda>_. ncclSuccess) (ret ncclSuccess) (\<lambda>_ _. ret ncclSuccess) (\<lambda>_. False) 0
      waiting_cqs example_waiting = Some (ncclSuccess, (True, [100]), st', cq'))"
proof -
  have p: "IbEventBasedLb default_params = 0" by (simp add: default_params_def)
  have q: "\<forall>d < n. \<forall>wc \<in> set (failing_cqs d). wc_wr_id wc \<noteq> NCCL_IB_SPEED_UPDATE_WR_ID" for n
    by (simp add: failing_cqs_def example_wc_def NCCL_IB_SPEED_UPDATE_WR_ID_def)
  have w: "\<not> resiliency (rc_base (rs_comm example_waiting))" by code_simp
  have rq: "\<forall>d < n. \<forall>wc \<in> set (waiting_cqs d). recv_wc (rs_comm example_waiting) wc" for n
    by (simp add: waiting_cqs_def recv_wc_def example_wc_def max_requests)
  have "map_option fst (ncclIbTest_send default_params example_globals (\<lambda>_. ncclSuccess) (ret ncclSuccess) (\<lambda>_ _. ret ncclSuccess) (\<lambda>_. False) 0
      failing_cqs example_busy) = Some ncclRemoteError"
    by code_simp
  moreover have "map_option (\<lambda>(r, d, _). (r, d)) (ncclIbTest_recv default_params example_globals example_rv (\<lambda>_. ncclSuccess) (ret ncclSuccess) (\<lambda>_ _. ret ncclSuccess) (\<lambda>_. False) 0
      waiting_cqs example_waiting) = Some (ncclSuccess, (True, [100]))"
    by code_simp
  ultimately show ?thesis
    using test_drains [OF example_busy_sound q p w rq, where pollRes = "\<lambda>_. ncclSuccess" and g = example_globals and resProgress = "ret ncclSuccess"
        and resHandle = "\<lambda>_ _. ret ncclSuccess" and resComplete = "\<lambda>_. False" and i = 0 and v = example_rv and resProgressR = "ret ncclSuccess"
        and resHandleR = "\<lambda>_ _. ret ncclSuccess"]
    by force
qed

end
