(* ===== verification/NetIb_Match.thy ===== *)
theory NetIb_Match
  imports NetIb_Test_Facts
begin

text \<open>
  The two sides of a transfer: the size the receiver reports for a message, from the completions the sender's
  work requests cause, and the clear-to-send message that makes the sender write into the receive buffer.
\<close>

unbundle bit_operations_syntax

section \<open>Adding up the bytes of a receive\<close>

text \<open>
  \<open>recv_matched st slot i a\<close>: the slot holds the single receive \<open>i\<close>, matched by id, for which \<open>a\<close> bytes have been seen. No size has
  been written into its completion record.
\<close>

definition recv_matched :: "recv_st \<Rightarrow> nat \<Rightarrow> nat \<Rightarrow> nat \<Rightarrow> bool" where
  "recv_matched st slot i a \<longleftrightarrow>
     (let comm = rs_comm st; b = rc_base comm; req = reqs b ! i in
      recvMatchingScheme b = BY_ID \<and> \<not> resiliency b \<and> slot < NET_IB_MAX_REQUESTS \<and> rc_recvReqs comm ! slot = Some i
      \<and> i < length (reqs b) \<and> rq_type req = REQ_RECV \<and> rq_nreqs req = 1 \<and> rq_aggSize req = int a
      \<and> rq_cmplsRecords req < length (rc_cmplsRecords comm) \<and> cr_sizes (rc_cmplsRecords comm ! rq_cmplsRecords req) ! 0 = 0)"

text \<open>The completion of a write with immediate data for the slot, on a queue pair the communicator has.\<close>

definition imm_wc :: "recv_st \<Rightarrow> nat \<Rightarrow> nat \<Rightarrow> ibv_wc \<Rightarrow> bool" where
  "imm_wc st slot d wc \<longleftrightarrow>
     wc_status_ok wc \<and> wc_op wc = WC_RECV_RDMA_WITH_IMM \<and> wc_wr_id wc \<noteq> NCCL_IB_SPEED_UPDATE_WR_ID
     \<and> unat (wc_imm_data wc mod word_of_nat NET_IB_MAX_REQUESTS) = slot
     \<and> (\<exists>k. ncclIbCommBaseGetQpByQpNum (rc_base (rs_comm st)) (int d) (wc_qp_num wc) = Inr k)"

lemma qp_num_loop_reqs: "qp_num_loop (b\<lparr> reqs := rs \<rparr>) d n js = qp_num_loop b d n js"
  by (induction js) (auto simp: Let_def)

lemma qp_by_num_reqs [simp]: "ncclIbCommBaseGetQpByQpNum (b\<lparr> reqs := rs \<rparr>) d n = ncclIbCommBaseGetQpByQpNum b d n"
  by (simp add: ncclIbCommBaseGetQpByQpNum_def qp_num_loop_reqs)

lemma agg_size_add:
  assumes "a + unat (w :: u32) < 2 ^ 31"
  shows "sint (word_of_int (int a) + w) = int (a + unat w)"
proof -
  have e: "word_of_int (int a) + w = word_of_nat (a + unat w)" by simp
  have "sint (word_of_nat n :: u32) = int n" if "n < 2 ^ 31" for n
    using that by (simp add: signed_of_nat signed_take_bit_int_eq_self)
  then show ?thesis using assms unfolding e by blast
qed

lemma recv_completion_step:
  assumes "recv_matched st slot i a" "imm_wc st slot d wc" "\<forall>q w. rv_post_recv v q w = ncclSuccess" "a + unat (wc_byte_len wc) < 2 ^ 31"
  shows "\<exists>st'. ncclIbCompletionEventProcess_recv p g v d wc st = Some (ncclSuccess, st')
    \<and> recv_matched st' slot i (a + unat (wc_byte_len wc)) \<and> (\<forall>d' wc'. imm_wc st slot d' wc' \<longrightarrow> imm_wc st' slot d' wc')"
proof -
  obtain k where k: "ncclIbCommBaseGetQpByQpNum (rc_base (rs_comm st)) (int d) (wc_qp_num wc) = Inr k"
    using assms(2) by (auto simp: imm_wc_def)
  note agg = agg_size_add [OF assms(4)]
  show ?thesis
    using assms k agg
    by (cases "rc_prepostReceiveWorkRequests (rs_comm st)")
       (auto simp: recv_matched_def imm_wc_def Let_def ncclIbCompletionEventProcess_recv_def retrieve_recv_def record_size_def BY_ID_def BY_INDEX_def
         set_req_def mark_completion_def post_recv_def upd_rbase_def ret_def dec_event_def nth_list_update)
qed

fun recv_all :: "ib_params \<Rightarrow> ib_globals \<Rightarrow> ib_rverbs \<Rightarrow> (nat \<times> ibv_wc) list \<Rightarrow> recv_st \<Rightarrow> recv_st outcome" where
  "recv_all p g v [] st = ret ncclSuccess st"
| "recv_all p g v ((d, wc) # wcs) st = chk (ncclIbCompletionEventProcess_recv p g v d wc st) (recv_all p g v wcs)"

lemma recv_all_adds:
  assumes "recv_matched st slot i a" "\<forall>(d, wc) \<in> set wcs. imm_wc st slot d wc" "\<forall>q w. rv_post_recv v q w = ncclSuccess"
    "a + sum_list (map (\<lambda>(d, wc). unat (wc_byte_len wc)) wcs) < 2 ^ 31"
  shows "\<exists>st'. recv_all p g v wcs st = Some (ncclSuccess, st')
    \<and> recv_matched st' slot i (a + sum_list (map (\<lambda>(d, wc). unat (wc_byte_len wc)) wcs))"
  using assms
proof (induction wcs arbitrary: st a)
  case (Cons x wcs)
  obtain d wc where x: "x = (d, wc)" by (cases x)
  have wc: "imm_wc st slot d wc" "a + unat (wc_byte_len wc) < 2 ^ 31" using Cons.prems(2,4) by (simp_all add: x)
  obtain st1 where st1: "ncclIbCompletionEventProcess_recv p g v d wc st = Some (ncclSuccess, st1)"
    "recv_matched st1 slot i (a + unat (wc_byte_len wc))" "\<forall>d' wc'. imm_wc st slot d' wc' \<longrightarrow> imm_wc st1 slot d' wc'"
    using recv_completion_step [OF Cons.prems(1) wc(1) Cons.prems(3) wc(2)] by blast
  show ?case using Cons.IH [OF st1(2) _ Cons.prems(3)] Cons.prems(2,4) st1(1,3) by (auto simp: x ac_simps case_prod_beta)
qed (simp add: ret_def)

lemma recv_matched_reports:
  assumes "recv_matched st slot i a"
  shows "fst (ncclIbRequestComplete_recv i (rs_comm st)) = [int a]"
  using assms by (simp add: recv_matched_def ncclIbRequestComplete_recv_def reported_sizes_def Let_def)

section \<open>The bytes that arrive with the immediate data\<close>

text \<open>A post causes one completion at the receiver, that of its last work request, whose length is what that request wrote.\<close>

definition imm_bytes :: "post \<Rightarrow> nat" where
  "imm_bytes ps = (let wr = last (snd ps) in if wr_num_sge wr = 0 then 0 else bytes wr)"

lemma slot_post_last:
  assumes "multi_send_ready comm slot 1 N"
  shows "imm_bytes (slot_post p v comm slot 1 N j)
    = (if slot_extra p comm slot 1 = None
       then (let wr = snd (slot_post p v comm slot 1 N j) ! 0 in if wr_num_sge wr = 0 then 0 else bytes wr) else 0)"
  using multi_send_ready_reqs(1) [OF assms]
  by (auto simp: imm_bytes_def slot_post_def chain_at_def Let_def slot_extra_def extra_wr_def prepare_extra_def as_last_def)

lemma imm_bytes_total:
  assumes "multi_send_ready comm slot 1 N" "slot_extra p comm slot 1 = None" "\<forall>d \<in> set (slot_devs comm slot 1 N). 0 < slot_weight comm slot 1 d"
    "100 \<le> (\<Sum>d \<in> set (slot_devs comm slot 1 N). slot_weight comm slot 1 d)"
    "rq_size (reqs (sc_base comm) ! (slot_reqs comm slot 1 ! 0)) = int sz" "sz < 2 ^ 31"
  shows "sum_list (map (\<lambda>j. imm_bytes (slot_post p v comm slot 1 N j)) [0..<N]) = sz"
proof -
  define run where "run = map (\<lambda>j. snd (slot_post p v comm slot 1 N j) ! 0) [0..<N]"
  have "imm_bytes (slot_post p v comm slot 1 N j) = bytes (run ! j)" if "j < N" for j
    using slot_run_num_sge [OF assms(1) zero_less_one assms(5,6,3) that, of p v] that slot_post_last [OF assms(1), of p v j] assms(2)
    by (cases "bytes (run ! j) = 0") (auto simp: run_def Let_def)
  then have "map (\<lambda>j. imm_bytes (slot_post p v comm slot 1 N j)) [0..<N] = map bytes run"
    by (intro nth_equalityI) (simp_all add: run_def)
  moreover have "sum_list (map bytes run) = sz"
    using slot_run_chunks(1) [OF assms(1) zero_less_one assms(5,6), of p v] shares_cover [of "slot_weight comm slot 1" "slot_devs comm slot 1 N" sz] assms(4)
    by (simp add: run_def)
  ultimately show ?thesis by simp
qed

lemma wr_run_imm: "j < length sel \<Longrightarrow> wr_imm_data (wr_run b cts rq ws perDev sel wr off ! j) = wr_imm_data wr"
proof (induction sel arbitrary: wr off j)
  case (Cons qk sel)
  have f: "wr_imm_data (first_wr b cts rq ws perDev qk wr off) = wr_imm_data wr" "wr_imm_data (advance_wr w) = wr_imm_data w" for w
    by (simp_all add: first_wr_def prepare_wr_def Let_def advance_wr_def)
  show ?case using Cons.IH Cons.prems by (cases j) (simp_all add: wr_run_Cons Let_def f)
qed simp

lemma slot_post_imm:
  assumes "multi_send_ready comm slot 1 N" "j < N"
  shows "wr_imm_data (last (snd (slot_post p v comm slot 1 N j))) = slot_imm comm slot 1"
proof (cases "slot_extra p comm slot 1")
  case None
  then have "\<not> has_extra_wr p comm 1 (rq_size (reqs (sc_base comm) ! (slot_reqs comm slot 1 ! 0)))" by (simp add: slot_extra_def split: if_splits)
  then have "wr_imm_data (slot_wrs p comm slot 1 (slot_imm comm slot 1) ! 0) = slot_imm comm slot 1" by (simp add: slot_wrs_def as_last_def Let_def)
  then show ?thesis using None assms multi_send_ready_reqs(1,3) [OF assms(1)] by (simp add: slot_post_def chain_at_def Let_def wr_run_imm)
next
  case (Some e)
  then have "wr_imm_data e = slot_imm comm slot 1" by (auto simp: slot_extra_def extra_wr_def as_last_def split: if_splits)
  then show ?thesis using Some by (simp add: slot_post_def chain_at_def Let_def prepare_extra_def)
qed

lemma id_slot_low: "unat ((ucast (x :: u64) :: u32) mod word_of_nat NET_IB_MAX_REQUESTS) = unat (x mod word_of_nat NET_IB_MAX_REQUESTS)"
proof -
  have "(256 :: nat) dvd 4294967296" by (rule dvdI [of _ _ 16777216]) simp
  then have "unat x mod 4294967296 mod 256 = unat x mod 256" by (rule mod_mod_cancel)
  then show ?thesis by (simp add: max_requests unat_mod unsigned_ucast_eq take_bit_eq_mod)
qed

text \<open>What the receiver sees of a post: one completion, with the immediate data and the length of the last work request.\<close>

definition wc_of_post :: "recv_st \<Rightarrow> post \<Rightarrow> nat \<times> ibv_wc \<Rightarrow> bool" where
  "wc_of_post rst ps dwc \<longleftrightarrow> (case dwc of (d, wc) \<Rightarrow>
     wc_status_ok wc \<and> wc_op wc = WC_RECV_RDMA_WITH_IMM \<and> wc_wr_id wc \<noteq> NCCL_IB_SPEED_UPDATE_WR_ID
     \<and> wc_imm_data wc = wr_imm_data (last (snd ps)) \<and> unat (wc_byte_len wc) = imm_bytes ps
     \<and> (\<exists>k. ncclIbCommBaseGetQpByQpNum (rc_base (rs_comm rst)) (int d) (wc_qp_num wc) = Inr k))"

lemma wcs_of_posts:
  assumes "list_all2 (wc_of_post rst) posts wcs" "\<forall>ps \<in> set posts. unat (wr_imm_data (last (snd ps)) mod word_of_nat NET_IB_MAX_REQUESTS) = slot"
  shows "(\<forall>(d, wc) \<in> set wcs. imm_wc rst slot d wc) \<and> map (\<lambda>(d, wc). unat (wc_byte_len wc)) wcs = map imm_bytes posts"
  using assms by (induction rule: list_all2_induct) (auto simp: wc_of_post_def imm_wc_def)

text \<open>C19 the size a receiver reports: with matching by id, a single message is sent and the receiver processes the completions of the
  posts. Each finds the receive of the message's slot, every completion is accepted, and the size reported at the end is exactly the size that was sent
  as long as the data itself carries the immediate value. When the sender posts the immediate value separately (adaptive routing,
  above the threshold), the receiver reports 0 bytes, whatever the size.\<close>

theorem recv_size_matches_send:
  assumes "\<forall>ps q c. v_post_send v ps q c = ncclSuccess" "\<forall>q w. rv_post_recv rv q w = ncclSuccess"
    and ready: "multi_send_ready (ss_comm st) slot 1 N" and w: "\<forall>d \<in> set (slot_devs (ss_comm st) slot 1 N). 0 < slot_weight (ss_comm st) slot 1 d"
    "100 \<le> (\<Sum>d \<in> set (slot_devs (ss_comm st) slot 1 N). slot_weight (ss_comm st) slot 1 d)"
    and scheme: "recvMatchingScheme (sc_base (ss_comm st)) = BY_ID"
    and rq: "rq = reqs (sc_base (ss_comm st)) ! (slot_reqs (ss_comm st) slot 1 ! 0)" "unat (rq_id rq mod word_of_nat NET_IB_MAX_REQUESTS) = slot"
    and recv: "recv_matched rst slot i 0"
  shows "\<exists>st' posts. ncclIbMultiSend p v slot st = Some (ncclSuccess, st') \<and> ss_posted st' = ss_posted st @ posts
    \<and> (\<forall>wcs. list_all2 (wc_of_post rst) posts wcs \<longrightarrow> (\<exists>rst'. recv_all p' g rv wcs rst = Some (ncclSuccess, rst')
          \<and> fst (ncclIbRequestComplete_recv i (rs_comm rst')) = [if has_extra_wr p (ss_comm st) 1 (rq_size rq) then 0 else rq_size rq]))"
proof -
  define comm where "comm = ss_comm st"
  define posts where "posts = map (slot_post p v comm slot 1 N) [0..<N]"
  note ready' = ready [folded comm_def]
  obtain st' where st': "ncclIbMultiSend p v slot st = Some (ncclSuccess, st')" "ss_posted st' = ss_posted st @ posts"
    using multi_send_posts [OF assms(1) ready, of p] unfolding posts_def comm_def by blast
  obtain sz where sz: "rq_size rq = int sz" "sz < 2 ^ 31"
    using ready unfolding multi_send_ready_def rq by (metis nat_eq_iff2 nat_less_numeral_power_cancel_iff zero_less_one)
  have imm: "\<forall>ps \<in> set posts. unat (wr_imm_data (last (snd ps)) mod word_of_nat NET_IB_MAX_REQUESTS) = slot"
  proof
    fix ps assume "ps \<in> set posts"
    then have "wr_imm_data (last (snd ps)) = ucast (rq_id rq)"
      using slot_post_imm [OF ready'] scheme rq(1) unfolding posts_def by (auto simp: slot_imm_def comm_def Let_def)
    then show "unat (wr_imm_data (last (snd ps)) mod word_of_nat NET_IB_MAX_REQUESTS) = slot" using rq(2) by (simp add: id_slot_low)
  qed
  define tot where "tot = (if has_extra_wr p comm 1 (rq_size rq) then 0 else sz)"
  have tot: "sum_list (map imm_bytes posts) = tot"
  proof (cases "has_extra_wr p comm 1 (rq_size rq)")
    case True
    then have "slot_extra p comm slot 1 \<noteq> None" by (simp add: slot_extra_def rq comm_def)
    then have "imm_bytes (slot_post p v comm slot 1 N j) = 0" for j using slot_post_last [OF ready', of p v j] by (auto simp del: One_nat_def)
    then show ?thesis using True by (simp add: posts_def tot_def o_def)
  next
    case False
    then have "slot_extra p comm slot 1 = None" by (simp add: slot_extra_def rq comm_def)
    then show ?thesis
      using False imm_bytes_total [OF ready' _ w [folded comm_def] sz(1) [unfolded rq(1), folded comm_def] sz(2), of p v]
      by (simp add: posts_def tot_def o_def)
  qed
  have "\<exists>rst'. recv_all p' g rv wcs rst = Some (ncclSuccess, rst') \<and> fst (ncclIbRequestComplete_recv i (rs_comm rst')) = [int tot]"
    if wcs: "list_all2 (wc_of_post rst) posts wcs" for wcs
  proof -
    have lt: "0 + sum_list (map (\<lambda>(d, wc). unat (wc_byte_len wc)) wcs) < 2 ^ 31"
      using wcs_of_posts [OF wcs imm] tot sz(2) by (simp add: tot_def)
    show ?thesis
      using recv_all_adds [OF recv _ assms(2) lt] wcs_of_posts [OF wcs imm] tot recv_matched_reports by (metis add_0)
  qed
  moreover have "int tot = (if has_extra_wr p (ss_comm st) 1 (rq_size rq) then 0 else rq_size rq)" by (simp add: tot_def comm_def sz(1))
  ultimately show ?thesis using st' by (intro exI [of _ st'] exI [of _ posts]) simp
qed

section \<open>An example\<close>

definition example_by_id :: send_st where
  "example_by_id = (example_send [80, 20])\<lparr> ss_comm := (ss_comm (example_send [80, 20]))\<lparr>
     sc_base := (sc_base (ss_comm (example_send [80, 20])))\<lparr> recvMatchingScheme := BY_ID \<rparr> \<rparr> \<rparr>"

definition example_recv :: recv_st where
  "example_recv = \<lparr> rs_comm = zero_recvComm\<lparr>
     rc_base := zero_base\<lparr> vProps := \<lparr> ndevs = 2, devs = [0, 1, 0, 0, 0, 0, 0, 0] \<rparr>, ready := 1, recvMatchingScheme := BY_ID,
       qps := [zero_qp\<lparr> qp_qpn := 7 \<rparr>, zero_qp\<lparr> qp_qpn := 8, qp_devIndex := 1, qp_remDevIdx := 1 \<rparr>], nqps := 2, nDataQps := 2,
       activeQps := [Some 0, Some 1], reqs := [zero_request\<lparr> rq_type := REQ_RECV, rq_nreqs := 1 \<rparr>] \<rparr>,
     rc_recvReqs := [Some 0], rc_prepostReceiveWorkRequests := True \<rparr>, rs_posted = [], rs_recvs = [], rs_flushes = [], rs_request = None \<rparr>"

definition example_rverbs :: ib_rverbs where
  "example_rverbs = \<lparr> rv_post_send = \<lambda>_ _. ncclSuccess, rv_post_recv = \<lambda>_ _. ncclSuccess, rv_ibv_post_send = \<lambda>_ _. ncclSuccess,
     rv_cts_addr = \<lambda>_. 0, rv_speed_addr = 0 \<rparr>"

lemma example_by_id_slot:
  "slot_reqs (ss_comm example_by_id) 0 1 = [0]" "slot_sel (ss_comm example_by_id) 0 1 2 = [(0, 0), (1, 1)]"
  "slot_devs (ss_comm example_by_id) 0 1 2 = [0, 1]" "slot_weight (ss_comm example_by_id) 0 1 d = unat ([80, 20 :: u8] ! d)"
  "multi_send_ready (ss_comm example_by_id) 0 1 2"
proof -
  show r: "slot_reqs (ss_comm example_by_id) 0 1 = [0]" by (simp add: slot_reqs_def example_by_id_def example_send_def)
  have i: "rq_id (reqs (sc_base (ss_comm example_by_id)) ! 0) = 0" by (simp add: example_by_id_def example_send_def zero_request_def)
  have sel: "select_qps (sc_base (ss_comm example_by_id)) 0 [0..<2] = Inr [(0, 0), (1, 1)]"
    by (simp add: upt_two example_by_id_def example_send_def ncclIbCommBaseGetQpForRequest_def ncclIbCommBaseGetNqpsPerRequest_def zero_base_def)
  show s: "slot_sel (ss_comm example_by_id) 0 1 2 = [(0, 0), (1, 1)]" unfolding slot_sel_def r nth_Cons_0 i sel by simp
  show d: "slot_devs (ss_comm example_by_id) 0 1 2 = [0, 1]" unfolding slot_devs_def s by (simp add: example_by_id_def example_send_def zero_qp_def)
  show "slot_weight (ss_comm example_by_id) 0 1 d = unat ([80, 20 :: u8] ! d)"
    unfolding slot_weight_def r by (simp add: example_by_id_def example_send_def)
  show "multi_send_ready (ss_comm example_by_id) 0 1 2"
    unfolding multi_send_ready_def r s d nth_Cons_0 i sel
    by (simp add: example_by_id_def example_send_def NCCL_NET_IB_MAX_RECVS_def NCCL_IB_MAX_QPS_def NCCL_IB_MAX_DEVS_PER_NIC_def zero_base_def
        zero_qp_def qp_indices_ok_def ncclIbCommBaseGetNqpsPerRequest_def)
qed

lemma example_recv_matched: "recv_matched example_recv 0 0 0"
  by (simp add: recv_matched_def example_recv_def zero_base_def zero_request_def zero_recvComm_def max_requests NCCL_NET_IB_MAX_RECVS_def)

theorem recv_size_matches_send_witness:
  "\<exists>st' posts. ncclIbMultiSend default_params example_verbs 0 example_by_id = Some (ncclSuccess, st') \<and> ss_posted st' = posts
    \<and> (\<forall>wcs. list_all2 (wc_of_post example_recv) posts wcs \<longrightarrow>
         (\<exists>rst'. recv_all default_params example_globals example_rverbs wcs example_recv = Some (ncclSuccess, rst')
            \<and> fst (ncclIbRequestComplete_recv 0 (rs_comm rst')) = [1000]))"
proof -
  have w: "\<forall>d \<in> set (slot_devs (ss_comm example_by_id) 0 1 2). 0 < slot_weight (ss_comm example_by_id) 0 1 d"
    "100 \<le> (\<Sum>d \<in> set (slot_devs (ss_comm example_by_id) 0 1 2). slot_weight (ss_comm example_by_id) 0 1 d)"
    unfolding example_by_id_slot by simp_all
  have rq: "unat (rq_id (reqs (sc_base (ss_comm example_by_id)) ! (slot_reqs (ss_comm example_by_id) 0 1 ! 0)) mod word_of_nat NET_IB_MAX_REQUESTS) = 0"
    "recvMatchingScheme (sc_base (ss_comm example_by_id)) = BY_ID"
    "rq_size (reqs (sc_base (ss_comm example_by_id)) ! (slot_reqs (ss_comm example_by_id) 0 1 ! 0)) = 1000"
    "\<not> has_extra_wr default_params (ss_comm example_by_id) 1 1000" "ss_posted example_by_id = []"
    unfolding example_by_id_slot
    by (simp_all add: example_by_id_def example_send_def zero_request_def has_extra_wr_def zero_sendComm_def)
  have rv: "\<forall>q w. rv_post_recv example_rverbs q w = ncclSuccess" by (simp add: example_rverbs_def)
  show ?thesis
    using recv_size_matches_send [OF example_verbs_ok rv example_by_id_slot(5) w rq(2) refl rq(1) example_recv_matched, of default_params default_params example_globals]
    unfolding rq(3,5) by (simp add: rq(4) [simplified])
qed

section \<open>Clear to send\<close>

lemma chk_success: "chk c k = Some (ncclSuccess, s) \<longleftrightarrow> (\<exists>r s1. c = Some (r, s1) \<and> nccl_ok r \<and> k s1 = Some (ncclSuccess, s))"
  by (auto simp: chk_def split: option.splits)

lemma recv_loop_frame:
  assumes "recv_loop v slot i qs st = Some (r, st')"
  shows "rc_remCtsFifo (rs_comm st') = rc_remCtsFifo (rs_comm st) \<and> fifoHead (rc_base (rs_comm st')) = fifoHead (rc_base (rs_comm st))
    \<and> vProps (rc_base (rs_comm st')) = vProps (rc_base (rs_comm st))"
  using assms
proof (induction qs arbitrary: st)
  case (Cons q qs)
  obtain req where req: "ncclIbAddEvent (reqs (rc_base (rs_comm st)) ! i) (qp_devIndex (qps (rc_base (rs_comm st)) ! q)) = Some req"
    using Cons.prems by (cases "ncclIbAddEvent (reqs (rc_base (rs_comm st)) ! i) (qp_devIndex (qps (rc_base (rs_comm st)) ! q))") (auto simp: Let_def)
  show ?case
    using Cons.prems req
    by (auto simp: Let_def upd_rbase_def set_req_def post_recv_def ret_def chk_Some split: if_splits dest!: Cons.IH)
qed simp

lemma post_fifo_frame:
  assumes "ncclIbPostFifo v req slot st = Some (r, st')"
  shows "rs_comm st' = rs_comm st"
  using assms
  by (auto simp: ncclIbPostFifo_def Let_def chk_val_def deref_def post_data_def ret_def chk_Some split: if_splits option.splits sum.splits)

lemma cts_row_nth:
  assumes "r < n" "n \<le> length row"
  shows "cts_row nd data sizes tags mhs idx n row ! r = cts_entry nd n (data ! r) (sizes ! r) (tags ! r) (mhs ! r) idx (row ! r)"
  using assms by (simp add: cts_row_def)

lemma nqps_fails: "ncclIbCommBaseGetNqpsPerRequest b \<noteq> Inl ncclSuccess"
  by (simp add: ncclIbCommBaseGetNqpsPerRequest_def)

lemma select_qps_fails: "select_qps b rid is \<noteq> Inl ncclSuccess"
proof (induction "is")
  case (Cons i "is")
  have "ncclIbCommBaseGetQpForRequest b rid (word_of_nat i) \<noteq> Inl ncclSuccess"
    using nqps_fails [of b] by (auto simp: ncclIbCommBaseGetQpForRequest_def Let_def split: sum.splits option.splits if_splits)
  then show ?case using Cons by (auto split: sum.splits)
qed simp

lemma irecv_publishes:
  assumes "ncclIbIrecv p v data sizes tags mhs st = Some (ncclSuccess, st')"
  defines "h \<equiv> fifoHead (rc_base (rs_comm st))"
  defines "slot \<equiv> unat (h mod word_of_nat NET_IB_MAX_REQUESTS)"
  shows "length data \<le> NCCL_NET_IB_MAX_RECVS \<and> fifoHead (rc_base (rs_comm st')) = h + 1
    \<and> rcf_elems (rc_remCtsFifo (rs_comm st')) = (rcf_elems (rc_remCtsFifo (rs_comm st)))
        [slot := cts_row (ndevs (vProps (rc_base (rs_comm st)))) data sizes tags mhs (h + 1) (length data) (rcf_elems (rc_remCtsFifo (rs_comm st)) ! slot)]"
  using assms(1) unfolding h_def slot_def
  by (auto simp: ncclIbIrecv_def Let_def chk_val_def ret_def chk_success ncclIbGetRequest_def set_req_def upd_rbase_def
      split: if_splits sum.splits option.splits simp: nqps_fails select_qps_fails dest!: recv_loop_frame post_fifo_frame)

text \<open>C8 the clear-to-send handshake: a receive that succeeds publishes, in the row of its slot, one entry per buffer with its address, size, tag
  and the remote keys of its memory regions, and moves to the next slot. A sender at the same position whose row has become that row sends
  to the first buffer of the matching tag that has no send yet; where no tag matches, and while the old row
  is still there, the send is not started and the caller is told to try again.\<close>

theorem cts_handshake:
  assumes "ncclIbIrecv p rv data sizes tags mhs rst = Some (ncclSuccess, rst')" "data \<noteq> []"
    and h: "h = fifoHead (rc_base (rs_comm rst))" "slot = unat (h mod word_of_nat NET_IB_MAX_REQUESTS)"
    and wf: "slot < length (rcf_elems (rc_remCtsFifo (rs_comm rst)))" "length (rcf_elems (rc_remCtsFifo (rs_comm rst)) ! slot) = NCCL_NET_IB_MAX_RECVS"
    and row: "row = rcf_elems (rc_remCtsFifo (rs_comm rst')) ! slot"
    and sender: "fifoHead (sc_base (ss_comm st)) = h" "ready (sc_base (ss_comm st)) \<noteq> 0"
      "ncclIbStatsCheckFatalCount p' (b_stats (sc_base (ss_comm st))) = ncclSuccess"
  shows "fifoHead (rc_base (rs_comm rst')) = h + 1
    \<and> (\<forall>r < length data. sf_addr (row ! r) = data ! r \<and> sf_size (row ! r) = sizes ! r \<and> sf_tag (row ! r) = tags ! r
         \<and> (\<forall>j < length (sf_rkeys (row ! r)). j < nat (ndevs (vProps (rc_base (rs_comm rst)))) \<longrightarrow> sf_rkeys (row ! r) ! j = mr_rkey (mhs ! r ! j)))
    \<and> (sf_idx (sc_ctsFifo (ss_comm st) ! slot ! 0) \<noteq> h + 1 \<longrightarrow>
         ncclIbIsend p' v buf sz tag mh st = ret ncclSuccess (st\<lparr> ss_request := None \<rparr>))
    \<and> (sc_ctsFifo (ss_comm st) ! slot = row \<longrightarrow> ncclIbIsend p' v buf sz tag mh st =
         (case find (\<lambda>r. sc_sendReqs (ss_comm st) ! slot ! r = None \<and> tags ! r = tag) [0..<length data] of
            None \<Rightarrow> ret ncclSuccess (st\<lparr> ss_request := None \<rparr>)
          | Some r \<Rightarrow> isend_matched p' v buf sz mh slot (int (length data)) r st))"
proof -
  define row0 where "row0 = rcf_elems (rc_remCtsFifo (rs_comm rst)) ! slot"
  note pub = irecv_publishes [OF assms(1), folded h(1), folded h(2), folded row0_def]
  have n: "length data \<le> length row0" "length data \<le> 8" using pub wf by (simp_all add: row0_def NCCL_NET_IB_MAX_RECVS_def)
  have r: "row = cts_row (ndevs (vProps (rc_base (rs_comm rst)))) data sizes tags mhs (h + 1) (length data) row0" and len: "length row = 8"
    using pub wf by (simp_all add: row cts_row_def row0_def NCCL_NET_IB_MAX_RECVS_def)
  have entry: "row ! r = cts_entry (ndevs (vProps (rc_base (rs_comm rst)))) (length data) (data ! r) (sizes ! r) (tags ! r) (mhs ! r) (h + 1) (row0 ! r)"
    if "r < length data" for r
    unfolding r using cts_row_nth [OF that n(1)] by simp
  have nreqs: "sint (sf_nreqs (row ! 0)) = int (length data)"
    using entry [of 0] assms(2) n(2) by (simp add: cts_entry_def signed_of_nat signed_take_bit_int_eq_self)
  have idx: "\<not> (\<exists>r < length data. sf_idx (row ! r) \<noteq> h + 1)" using entry by (simp add: cts_entry_def)
  then have idx0: "sf_idx (row ! 0) = h + 1" using assms(2) by blast
  have f: "find (\<lambda>r. sc_sendReqs (ss_comm st) ! slot ! r = None \<and> sf_tag (row ! r) = tag) [0..<length data]
      = find (\<lambda>r. sc_sendReqs (ss_comm st) ! slot ! r = None \<and> tags ! r = tag) [0..<length data]"
    by (rule find_cong) (auto simp: entry cts_entry_def)
  have "ncclIbIsend p' v buf sz tag mh st =
      (case find (\<lambda>r. sc_sendReqs (ss_comm st) ! slot ! r = None \<and> tags ! r = tag) [0..<length data] of
         None \<Rightarrow> ret ncclSuccess (st\<lparr> ss_request := None \<rparr>)
       | Some r \<Rightarrow> isend_matched p' v buf sz mh slot (int (length data)) r st)" if "sc_ctsFifo (ss_comm st) ! slot = row"
    using sender(2,3) idx0 idx n(2) len f unfolding ncclIbIsend_def Let_def sender(1) h(2) [symmetric] that nreqs by auto
  moreover have "ncclIbIsend p' v buf sz tag mh st = ret ncclSuccess (st\<lparr> ss_request := None \<rparr>)"
    if "sf_idx (sc_ctsFifo (ss_comm st) ! slot ! 0) \<noteq> h + 1"
    using sender that unfolding ncclIbIsend_def Let_def sender(1) h(2) [symmetric] by simp
  ultimately show ?thesis using pub entry by (auto simp: cts_entry_def)
qed

text \<open>A receiver and a sender at position 0; the receiver posts one buffer with tag 5.\<close>

definition example_receiver :: recv_st where
  "example_receiver = example_recv\<lparr> rs_comm := (rs_comm example_recv)\<lparr>
     rc_base := set_req 0 zero_request (rc_base (rs_comm example_recv)), rc_recvReqs := [None] \<rparr> \<rparr>"

definition example_mh :: ncclIbMrHandle where
  "example_mh = [\<lparr> mr_ptr = 1, mr_lkey = 11, mr_rkey = 21 \<rparr>, \<lparr> mr_ptr = 2, mr_lkey = 12, mr_rkey = 22 \<rparr>]"

lemma example_irecv: "\<exists>rst'. ncclIbIrecv default_params example_rverbs [4096] [1000] [5] [example_mh] example_receiver = Some (ncclSuccess, rst')"
proof -
  have u: "find P [0..<NET_IB_MAX_REQUESTS] = (if P 0 then Some 0 else find P [1..<NET_IB_MAX_REQUESTS])" for P
    by (simp add: max_requests upt_conv_Cons)
  show ?thesis
    by (simp add: ncclIbIrecv_def Let_def example_receiver_def example_recv_def set_req_def zero_base_def NCCL_NET_IB_MAX_RECVS_def NCCL_IB_MAX_QPS_def
        ncclIbStatsCheckFatalCount_def default_params_def ncclIbCommBaseGetNqpsPerRequest_def upt_two ncclIbCommBaseGetQpForRequest_def u ncclIbGetRequest_def
        zero_request_def zero_qp_def ncclIbAddEvent_def NCCL_IB_MAX_DEVS_PER_NIC_def upd_rbase_def ncclIbPostFifo_def ncclIbRecvCommGetQpForCts_def
        ncclIbCommBaseGetQpByIndex_def zero_recvComm_def at_def post_data_def example_rverbs_def ret_def)
qed

lemma example_receiver_wf:
  "fifoHead (rc_base (rs_comm example_receiver)) = 0" "0 < length (rcf_elems (rc_remCtsFifo (rs_comm example_receiver)))"
  "length (rcf_elems (rc_remCtsFifo (rs_comm example_receiver)) ! 0) = NCCL_NET_IB_MAX_RECVS"
  by (simp_all add: example_receiver_def example_recv_def set_req_def zero_base_def zero_recvComm_def max_requests)

theorem cts_handshake_witness:
  "\<exists>rst'. ncclIbIrecv default_params example_rverbs [4096] [1000] [5] [example_mh] example_receiver = Some (ncclSuccess, rst')
    \<and> sf_addr (rcf_elems (rc_remCtsFifo (rs_comm rst')) ! 0 ! 0) = 4096
    \<and> (sc_ctsFifo (ss_comm (example_send [50, 50])) ! 0 = rcf_elems (rc_remCtsFifo (rs_comm rst')) ! 0 \<longrightarrow>
        ncclIbIsend default_params example_verbs 8192 1000 6 example_mh (example_send [50, 50])
          = ret ncclSuccess ((example_send [50, 50])\<lparr> ss_request := None \<rparr>))"
proof -
  obtain rst' where r: "ncclIbIrecv default_params example_rverbs [4096] [1000] [5] [example_mh] example_receiver = Some (ncclSuccess, rst')"
    using example_irecv by blast
  have s: "fifoHead (sc_base (ss_comm (example_send [50, 50]))) = 0" "ready (sc_base (ss_comm (example_send [50, 50]))) \<noteq> 0"
    "ncclIbStatsCheckFatalCount default_params (b_stats (sc_base (ss_comm (example_send [50, 50])))) = ncclSuccess"
    by (simp_all add: example_send_def zero_base_def ncclIbStatsCheckFatalCount_def)
  show ?thesis
    using r cts_handshake [OF r _ example_receiver_wf(1) [symmetric] _ example_receiver_wf(2,3) refl s, of example_verbs 8192 1000 6 example_mh]
    by (auto simp: max_requests)
qed

end
