(* ===== verification/NetIb_Resiliency_Facts.thy ===== *)
theory NetIb_Resiliency_Facts
  imports NetIb_Resiliency NetIb_Match
begin

text \<open>
  What fail-over guarantees: queue pairs are replaced by queue pairs of working devices and come back when their device does; the counter of
  failed sends is the number of slots under repair; and replay sends again exactly what has not arrived.
\<close>

unbundle bit_operations_syntax

section \<open>The search for a replacement\<close>

definition qp_dev :: "ncclIbNetCommBase \<Rightarrow> nat \<Rightarrow> nat" where
  "qp_dev b q = nat (qp_devIndex (qps b ! q))"

definition qp_works :: "res_st \<Rightarrow> nat \<Rightarrow> bool" where
  "qp_works st q \<longleftrightarrow> dev_state (r_ctx st) (qp_dev (r_base st) q) = DevStateOk"

text \<open>The indices are inside the arrays: the queue pairs, their places, and the devices they were created on.\<close>

definition res_wf :: "res_st \<Rightarrow> bool" where
  "res_wf st \<longleftrightarrow> (let b = r_base st; ctx = r_ctx st; n = nat (nqps b) in
     0 \<le> nqps b \<and> n \<le> length (qps b) \<and> n \<le> length (activeQps b) \<and> nat (res_ndevs ctx) \<le> length (res_devs ctx)
     \<and> (\<forall>q < n. 0 \<le> qp_devIndex (qps b ! q) \<and> qp_devIndex (qps b ! q) < res_ndevs ctx))"

lemma replacement_loop_find:
  assumes "res_wf st" "failed < nat (nqps (r_base st))" "0 < offset" "offset \<le> nat (nqps (r_base st))"
  shows "replacement_loop (r_ctx st) (r_base st) (nat (nqps (r_base st))) failed offset
    = Some (find (qp_works st) (map (\<lambda>j. (failed + j) mod nat (nqps (r_base st))) [offset..<Suc (nat (nqps (r_base st)))]))"
proof -
  define n where "n = nat (nqps (r_base st))"
  have len: "n \<le> length (qps (r_base st))" and dev: "\<And>q. q < n \<Longrightarrow> 0 \<le> qp_devIndex (qps (r_base st) ! q) \<and> qp_devIndex (qps (r_base st) ! q) < int (length (res_devs (r_ctx st)))"
    using assms(1) by (fastforce simp: res_wf_def Let_def n_def)+
  have f: "failed < n" using assms(2) by (simp add: n_def)
  show ?thesis
    using assms(3,4) unfolding n_def [symmetric]
  proof (induction "n - offset" arbitrary: offset)
    case (0 offset)
    then have o: "offset = n" by simp
    have m: "(failed + n) mod n = failed" using f by simp
    show ?case using dev [OF f] f len unfolding o
      by (subst replacement_loop.simps) (simp add: m Let_def qp_works_def qp_dev_def n_def)
  next
    case (Suc k offset)
    define new where "new = (failed + offset) mod n"
    have new: "new < n" using f by (simp add: new_def)
    have o: "offset < n" using Suc(2) by simp
    have ne: "new \<noteq> failed"
    proof
      assume "new = failed"
      then have "offset mod n = 0" using f unfolding new_def by (metis add_diff_cancel_left' mod_eq_dvd_iff_nat mod_less dvd_imp_mod_0 le_add1)
      then show False using Suc(3) o by simp
    qed
    have up: "[offset..<Suc n] = offset # [Suc offset..<Suc n]" using o by (simp add: upt_rec)
    have IH: "replacement_loop (r_ctx st) (r_base st) n failed (Suc offset)
        = Some (find (qp_works st) (map (\<lambda>j. (failed + j) mod n) [Suc offset..<Suc n]))"
      using Suc(1) [of "Suc offset"] Suc(2) o by simp
    show ?case using dev [OF new] f len ne IH unfolding up
      by (subst replacement_loop.simps) (simp add: new_def [symmetric] Let_def qp_works_def qp_dev_def)
  qed
qed

lemma cyclic_cover:
  assumes "failed < (n :: nat)"
  shows "set (map (\<lambda>j. (failed + j) mod n) [1..<Suc n]) = {..<n}"
proof (intro equalityI subsetI)
  fix k
  assume "k \<in> {..<n}"
  then have k: "k < n" by simp
  show "k \<in> set (map (\<lambda>j. (failed + j) mod n) [1..<Suc n])"
  proof (cases "failed < k")
    case True
    then have "(failed + (k - failed)) mod n = k" "k - failed \<in> {1..<Suc n}" using k by auto
    then show ?thesis by (force simp del: upt_Suc)
  next
    case False
    then have e: "failed + (n - (failed - k)) = k + n" using assms k by simp
    have "(failed + (n - (failed - k))) mod n = k" unfolding e using k by simp
    moreover have "n - (failed - k) \<in> {1..<Suc n}" using assms k False by auto
    ultimately show ?thesis by (force simp del: upt_Suc)
  qed
qed (use assms in auto)

text \<open>The loop always ends, and finds a replacement exactly if some queue pair is on a working device.\<close>

lemma replacement_found:
  assumes "res_wf st" "failed < nat (nqps (r_base st))"
  shows "\<exists>new. replacement_loop (r_ctx st) (r_base st) (nat (nqps (r_base st))) failed 1 = Some new
    \<and> (case new of None \<Rightarrow> \<forall>q < nat (nqps (r_base st)). \<not> qp_works st q | Some k \<Rightarrow> k < nat (nqps (r_base st)) \<and> qp_works st k)"
proof -
  define n js where "n = nat (nqps (r_base st))" and "js = map (\<lambda>j. (failed + j) mod n) [1..<Suc n]"
  have cover: "set js = {..<n}" using cyclic_cover assms(2) unfolding js_def n_def by blast
  have "replacement_loop (r_ctx st) (r_base st) n failed 1 = Some (find (qp_works st) js)"
    using replacement_loop_find [OF assms] assms(2) unfolding js_def n_def by simp
  moreover have "case find (qp_works st) js of None \<Rightarrow> \<forall>q < n. \<not> qp_works st q | Some k \<Rightarrow> k < n \<and> qp_works st k"
    using cover by (auto simp: find_None_iff find_Some_iff split: option.splits intro: nth_mem)
  ultimately show ?thesis unfolding n_def by blast
qed

section \<open>Replacing queue pairs\<close>

definition with_active :: "nat option list \<Rightarrow> res_st \<Rightarrow> res_st" where
  "with_active as st = st\<lparr> r_base := (r_base st)\<lparr> activeQps := as \<rparr> \<rparr>"

lemma with_active_simps [simp]:
  "r_ctx (with_active as st) = r_ctx st" "activeQps (r_base (with_active as st)) = as" "qps (r_base (with_active as st)) = qps (r_base st)"
  "nqps (r_base (with_active as st)) = nqps (r_base st)" "with_active as (with_active bs st) = with_active as st"
  "qp_works (with_active as st) q = qp_works st q" "qp_dev (r_base (with_active as st)) q = qp_dev (r_base st) q"
  "with_active (activeQps (r_base st)) st = st"
  by (simp_all add: with_active_def qp_works_def qp_dev_def)

lemma res_wf_active [simp]: "length as = length (activeQps (r_base st)) \<Longrightarrow> res_wf (with_active as st) = res_wf st"
  by (simp add: res_wf_def Let_def with_active_def)

text \<open>Every place holds one of the queue pairs.\<close>

definition places_filled :: "res_st \<Rightarrow> bool" where
  "places_filled st \<longleftrightarrow> (\<forall>i < nat (nqps (r_base st)). \<exists>k < nat (nqps (r_base st)). activeQps (r_base st) ! i = Some k)"

lemma replace_loop_spec:
  assumes "res_wf st" "places_filled st" "\<exists>q < nat (nqps (r_base st)). qp_works st q" "distinct is" "\<forall>i \<in> set is. i < nat (nqps (r_base st))"
  shows "\<exists>as. replace_loop d is st = Some (ncclSuccess, with_active as st) \<and> length as = length (activeQps (r_base st))
    \<and> (\<forall>i. i \<notin> set is \<or> qp_dev (r_base st) (the (activeQps (r_base st) ! i)) \<noteq> d \<longrightarrow> as ! i = activeQps (r_base st) ! i)
    \<and> (\<forall>i \<in> set is. qp_dev (r_base st) (the (activeQps (r_base st) ! i)) = d \<longrightarrow> (\<exists>k < nat (nqps (r_base st)). as ! i = Some k \<and> qp_works st k))"
  using assms
proof (induction "is" arbitrary: st)
  case Nil
  then show ?case by (intro exI [of _ "activeQps (r_base st)"]) (simp add: ret_def)
next
  case (Cons i "is")
  define n acts where "n = nat (nqps (r_base st))" and "acts = activeQps (r_base st)"
  have i: "i < n" "i \<notin> set is" "distinct is" "\<forall>i \<in> set is. i < n" using Cons.prems(4,5) by (auto simp: n_def)
  obtain q where q: "acts ! i = Some q" "q < n" using Cons.prems(2) i(1) unfolding places_filled_def n_def acts_def by blast
  have qd: "0 \<le> qp_devIndex (qps (r_base st) ! q)" and la: "n \<le> length acts"
    using Cons.prems(1) q(2) by (auto simp: res_wf_def Let_def n_def acts_def)
  show ?case
  proof (cases "qp_dev (r_base st) q = d")
    case False
    then have "replace_loop d (i # is) st = replace_loop d is st"
      using q qd unfolding acts_def by (auto simp: qp_dev_def Let_def)
    then show ?thesis using Cons.IH [OF Cons.prems(1-3) i(3) i(4) [unfolded n_def]] False q(1) unfolding acts_def by fastforce
  next
    case True
    obtain k where k: "replacement_loop (r_ctx st) (r_base st) n q 1 = Some (Some k)" "k < n" "qp_works st k"
      using replacement_found [OF Cons.prems(1), of q] q(2) Cons.prems(3) unfolding n_def by (auto split: option.splits)
    define st1 where "st1 = with_active (acts[i := Some k]) st"
    have step: "replace_loop d (i # is) st = replace_loop d is st1"
      using q k(1) True qd unfolding acts_def n_def by (auto simp: Let_def qp_dev_def st1_def with_active_def acts_def)
    have wf1: "res_wf st1" "places_filled st1" "\<exists>q < nat (nqps (r_base st1)). qp_works st1 q"
      using Cons.prems(1-3) k la i(1) by (auto simp: st1_def acts_def n_def places_filled_def nth_list_update)
    obtain bs where bs: "replace_loop d is st1 = Some (ncclSuccess, with_active bs st1)" "length bs = length acts"
      "\<forall>j. j \<notin> set is \<or> qp_dev (r_base st1) (the (activeQps (r_base st1) ! j)) \<noteq> d \<longrightarrow> bs ! j = activeQps (r_base st1) ! j"
      "\<forall>j \<in> set is. qp_dev (r_base st1) (the (activeQps (r_base st1) ! j)) = d \<longrightarrow> (\<exists>k < n. bs ! j = Some k \<and> qp_works st1 k)"
      using Cons.IH [OF wf1 i(3)] i(4) unfolding st1_def n_def acts_def by (auto simp del: list_update.simps)
    show ?thesis
    proof (intro exI [of _ bs] conjI allI impI ballI)
      show "replace_loop d (i # is) st = Some (ncclSuccess, with_active bs st)" using bs(1) unfolding step by (simp add: st1_def)
      show "length bs = length (activeQps (r_base st))" using bs(2) by (simp add: acts_def)
    next
      fix j
      assume j: "j \<notin> set (i # is) \<or> qp_dev (r_base st) (the (activeQps (r_base st) ! j)) \<noteq> d"
      then have "j \<noteq> i" using True q(1) by (auto simp: acts_def)
      then show "bs ! j = activeQps (r_base st) ! j" using bs(3) j by (auto simp: st1_def acts_def)
    next
      fix j
      assume j: "j \<in> set (i # is)" "qp_dev (r_base st) (the (activeQps (r_base st) ! j)) = d"
      show "\<exists>k < nat (nqps (r_base st)). bs ! j = Some k \<and> qp_works st k"
      proof (cases "j = i")
        case True
        then show ?thesis using bs(3) i(2) k la i(1) by (auto simp: st1_def n_def acts_def)
      next
        case False
        then show ?thesis using bs(4) j by (auto simp: st1_def n_def acts_def)
      qed
    qed
  qed
qed

section \<open>The fail-over protocol\<close>

text \<open>The steps of a communicator: an error on a device that is not fatal, the verdict of the recovery thread on a device handed over to it, and the progress
  function.\<close>

inductive failover_step :: "res_st \<Rightarrow> res_st \<Rightarrow> bool" where
  device_error: "ncclIbResiliencyCheckErrorNotFatal (r_ctx st) wc d = Some ncclSuccess \<Longrightarrow> d < nat (res_ndevs (r_ctx st)) \<Longrightarrow>
    ncclIbResiliencyHandleDeviceFailure e d st = Some (r, st') \<Longrightarrow> failover_step st st'"
| thread_verdict: "dev_state (r_ctx st) d = DevStateRecoveryInProgress \<Longrightarrow> d < nat (res_ndevs (r_ctx st)) \<Longrightarrow> v = DevStateRecovered \<or> v = DevStateRecoveryFailed \<Longrightarrow>
    failover_step st (st\<lparr> r_ctx := set_dev_state d v (r_ctx st) \<rparr>)"
| progress: "failover_step st (recovery_progress st)"

text \<open>Every device has a queue pair.\<close>

definition res_connected :: "res_st \<Rightarrow> bool" where
  "res_connected st \<longleftrightarrow> res_wf st \<and> (\<forall>d < nat (res_ndevs (r_ctx st)). \<exists>q < nat (nqps (r_base st)). qp_dev (r_base st) q = d)"

definition one_failed :: "ncclIbResiliency \<Rightarrow> bool" where
  "one_failed ctx \<longleftrightarrow> (\<forall>d < nat (res_ndevs ctx). \<forall>e < nat (res_ndevs ctx). dev_state ctx d \<noteq> DevStateOk \<longrightarrow> dev_state ctx e \<noteq> DevStateOk \<longrightarrow> d = e)"

definition places_ok :: "res_st \<Rightarrow> bool" where
  "places_ok st \<longleftrightarrow> (\<forall>i < nat (nqps (r_base st)). \<exists>k < nat (nqps (r_base st)). activeQps (r_base st) ! i = Some k \<and> qp_works st k \<and> (qp_works st i \<longrightarrow> k = i))"

definition failover_inv :: "res_st \<Rightarrow> bool" where
  "failover_inv st \<longleftrightarrow> res_connected st \<and> one_failed (r_ctx st) \<and> places_ok st"

lemma qp_dev_bound:
  assumes "res_wf st" "q < nat (nqps (r_base st))"
  shows "qp_dev (r_base st) q < nat (res_ndevs (r_ctx st))" "qp_dev (r_base st) q < length (res_devs (r_ctx st))"
proof -
  have "0 \<le> qp_devIndex (qps (r_base st) ! q)" "qp_devIndex (qps (r_base st) ! q) < res_ndevs (r_ctx st)" "nat (res_ndevs (r_ctx st)) \<le> length (res_devs (r_ctx st))"
    using assms by (auto simp: res_wf_def Let_def)
  then show "qp_dev (r_base st) q < nat (res_ndevs (r_ctx st))" "qp_dev (r_base st) q < length (res_devs (r_ctx st))"
    unfolding qp_dev_def by linarith+
qed

text \<open>Changing the state of a device, or other fields of the context.\<close>

lemma dev_state_set: "d < length (res_devs ctx) \<Longrightarrow> dev_state (set_dev_state d v ctx) e = (if e = d then v else dev_state ctx e)"
  by (simp add: dev_state_def set_dev_state_def nth_list_update)

lemma set_dev_state_fields [simp]:
  "length (res_devs (set_dev_state d v ctx)) = length (res_devs ctx)" "res_ndevs (set_dev_state d v ctx) = res_ndevs ctx"
  "outstandingRecovery (set_dev_state d v ctx) = outstandingRecovery ctx" "outstandingRequests (set_dev_state d v ctx) = outstandingRequests ctx"
  "inProgress (set_dev_state d v ctx) = inProgress ctx" "recoveryEnabled (set_dev_state d v ctx) = recoveryEnabled ctx"
  by (simp_all add: set_dev_state_def)

text \<open>Two contexts that agree on which devices work are the same to the invariant.\<close>

lemma failover_inv_cong:
  assumes "failover_inv st" "res_ndevs ctx = res_ndevs (r_ctx st)" "length (res_devs ctx) = length (res_devs (r_ctx st))"
    "\<forall>d < nat (res_ndevs ctx). (dev_state ctx d = DevStateOk) = (dev_state (r_ctx st) d = DevStateOk)"
  shows "failover_inv (st\<lparr> r_ctx := ctx \<rparr>)"
proof -
  have wf: "res_wf st" using assms(1) by (simp add: failover_inv_def res_connected_def)
  have w: "qp_works (st\<lparr> r_ctx := ctx \<rparr>) q = qp_works st q" if "q < nat (nqps (r_base st))" for q
    using qp_dev_bound(1) [OF wf that] assms(2,4) by (simp add: qp_works_def)
  have pl: "places_ok st" using assms(1) by (simp add: failover_inv_def)
  have "places_ok (st\<lparr> r_ctx := ctx \<rparr>)"
    unfolding places_ok_def
  proof (intro allI impI)
    fix i
    assume "i < nat (nqps (r_base (st\<lparr> r_ctx := ctx \<rparr>)))"
    then have i: "i < nat (nqps (r_base st))" by simp
    with pl obtain k where k: "k < nat (nqps (r_base st))" "activeQps (r_base st) ! i = Some k" "qp_works st k" "qp_works st i \<longrightarrow> k = i"
      unfolding places_ok_def by blast
    then show "\<exists>k < nat (nqps (r_base (st\<lparr> r_ctx := ctx \<rparr>))). activeQps (r_base (st\<lparr> r_ctx := ctx \<rparr>)) ! i = Some k
        \<and> qp_works (st\<lparr> r_ctx := ctx \<rparr>) k \<and> (qp_works (st\<lparr> r_ctx := ctx \<rparr>) i \<longrightarrow> k = i)"
      using w [OF i] w [OF k(1)] by (intro exI [of _ k]) simp
  qed
  moreover have "one_failed ctx" using assms(1,2,4) by (simp add: failover_inv_def one_failed_def)
  ultimately show ?thesis using assms(1-3) by (simp add: failover_inv_def res_connected_def res_wf_def Let_def)
qed

lemma not_fatal_others_work:
  assumes "ncclIbResiliencyCheckErrorNotFatal ctx wc d = Some ncclSuccess" "d < nat (res_ndevs ctx)"
  shows "1 < res_ndevs ctx" "e < nat (res_ndevs ctx) \<Longrightarrow> e \<noteq> d \<Longrightarrow> dev_state ctx e = DevStateOk"
proof -
  have len: "length (failed_devices ctx d) \<le> 1" "int (length (failed_devices ctx d)) < res_ndevs ctx"
    using assms(1) by (auto simp: ncclIbResiliencyCheckErrorNotFatal_def Let_def split: if_splits)
  have d: "d \<in> set (failed_devices ctx d)" "distinct (failed_devices ctx d)" using assms(2) by (auto simp: failed_devices_def)
  then have "0 < length (failed_devices ctx d)" by auto
  then show "1 < res_ndevs ctx" using len by linarith
  have one: "x = d" if "x \<in> set (failed_devices ctx d)" for x
    using len(1) d(1) that by (cases "failed_devices ctx d") auto
  show "dev_state ctx e = DevStateOk" if "e < nat (res_ndevs ctx)" "e \<noteq> d"
    using one [of e] that by (auto simp: failed_devices_def)
qed

lemma device_failure_handled:
  assumes inv: "failover_inv st" and nf: "ncclIbResiliencyCheckErrorNotFatal (r_ctx st) wc d = Some ncclSuccess" and d: "d < nat (res_ndevs (r_ctx st))"
  shows "\<exists>st'. ncclIbResiliencyHandleDeviceFailure e d st = Some (ncclSuccess, st') \<and> failover_inv st'"
proof (cases "dev_state (r_ctx st) d = DevStateOk")
  case False
  have "d < length (res_devs (r_ctx st))" using inv d by (auto simp: failover_inv_def res_connected_def res_wf_def Let_def)
  then show ?thesis using False inv by (simp add: ncclIbResiliencyHandleDeviceFailure_def ret_def)
next
  case True
  have wf: "res_wf st" and conn: "res_connected st" and pl: "places_ok st" and one: "one_failed (r_ctx st)"
    using inv by (simp_all add: failover_inv_def res_connected_def)
  have dl: "d < length (res_devs (r_ctx st))" using wf d by (auto simp: res_wf_def Let_def)
  define n where "n = nat (nqps (r_base st))"
  define st1 where "st1 = st\<lparr> r_ctx := set_dev_state d DevStateError (r_ctx st) \<rparr>"
  note others = not_fatal_others_work [OF nf d]
  have w1: "qp_works st1 q \<longleftrightarrow> qp_dev (r_base st) q \<noteq> d" if "q < n" for q
    using others(2) qp_dev_bound [OF wf that [unfolded n_def]] dl by (auto simp: st1_def qp_works_def dev_state_set)
  have allw: "qp_works st q" if "q < n" for q
    using others(2) qp_dev_bound [OF wf that [unfolded n_def]] True by (cases "qp_dev (r_base st) q = d") (auto simp: qp_works_def)
  have id: "activeQps (r_base st) ! i = Some i" if "i < n" for i
    using pl allw that unfolding places_ok_def n_def by metis
  have wf1: "res_wf st1" using wf by (simp add: st1_def res_wf_def Let_def)
  have pf1: "places_filled st1" using id unfolding places_filled_def by (auto simp: st1_def n_def)
  obtain e' where e': "e' < nat (res_ndevs (r_ctx st))" "e' \<noteq> d"
  proof (cases "d = 0")
    case True
    then show ?thesis using others(1) that [of 1] by simp
  next
    case False
    then show ?thesis using d that [of 0] by simp
  qed
  then obtain q where "q < n" "qp_dev (r_base st) q = e'" using conn unfolding res_connected_def n_def by blast
  then have ex: "\<exists>q < nat (nqps (r_base st1)). qp_works st1 q" using w1 e'(2) by (auto simp: st1_def n_def)
  obtain as where as: "replace_loop d [0..<n] st1 = Some (ncclSuccess, with_active as st1)" "length as = length (activeQps (r_base st))"
    "\<forall>i. i \<notin> set [0..<n] \<or> qp_dev (r_base st) (the (activeQps (r_base st) ! i)) \<noteq> d \<longrightarrow> as ! i = activeQps (r_base st) ! i"
    "\<forall>i \<in> set [0..<n]. qp_dev (r_base st) (the (activeQps (r_base st) ! i)) = d \<longrightarrow> (\<exists>k < n. as ! i = Some k \<and> qp_works st1 k)"
    using replace_loop_spec [OF wf1 pf1 ex, of "[0..<n]" d] unfolding st1_def n_def by auto
  define st2 where "st2 = with_active as st1"
  have inv2: "failover_inv st2"
  proof -
    have "places_ok st2"
      unfolding places_ok_def
    proof (intro allI impI)
      fix i
      assume "i < nat (nqps (r_base st2))"
      then have i: "i < n" by (simp add: st2_def st1_def n_def)
      show "\<exists>k < nat (nqps (r_base st2)). activeQps (r_base st2) ! i = Some k \<and> qp_works st2 k \<and> (qp_works st2 i \<longrightarrow> k = i)"
      proof (cases "qp_dev (r_base st) i = d")
        case True
        then show ?thesis using as(4) i id [OF i] w1 [OF i] by (auto simp: st2_def st1_def n_def)
      next
        case False
        then show ?thesis using as(3) i id [OF i] w1 [OF i] by (auto simp: st2_def st1_def n_def)
      qed
    qed
    moreover have "one_failed (r_ctx st2)" using others(2) dl by (auto simp: one_failed_def st2_def st1_def dev_state_set)
    moreover have "res_connected st2" using conn as(2) unfolding res_connected_def st2_def using wf1
      by (simp add: st1_def)
    ultimately show ?thesis by (simp add: failover_inv_def)
  qed
  have st2: "r_ctx st2 = set_dev_state d DevStateError (r_ctx st)" by (simp add: st2_def st1_def)
  have inv3: "failover_inv (st2\<lparr> r_ctx := (set_dev_state d v (r_ctx st2))\<lparr> outstandingRecovery := x, inProgress := y \<rparr> \<rparr>)"
    "failover_inv (st2\<lparr> r_ctx := set_dev_state d v (r_ctx st2) \<rparr>)" if "v \<noteq> DevStateOk" for v x y
    by (rule failover_inv_cong [OF inv2]; use that dl in \<open>auto simp: st2 dev_state_def set_dev_state_def nth_list_update\<close>)+
  have "ncclIbResiliencyReplaceQps d st1 = Some (ncclSuccess, st2)" using as(1) by (simp add: ncclIbResiliencyReplaceQps_def st1_def st2_def n_def)
  then show ?thesis
    using dl True inv2 inv3 unfolding ncclIbResiliencyHandleDeviceFailure_def st1_def by (simp add: Let_def ret_def)
qed

lemma recovery_step_fields [simp]: "res_ndevs (r_ctx (recovery_step d st)) = res_ndevs (r_ctx st)"
  by (simp add: recovery_step_def Let_def split: ncclIbResiliencyDevState.splits)

lemma recovery_step_inv:
  assumes inv: "failover_inv st" and d: "d < nat (res_ndevs (r_ctx st))"
  shows "failover_inv (recovery_step d st)"
proof -
  have wf: "res_wf st" and conn: "res_connected st" and pl: "places_ok st" and one: "one_failed (r_ctx st)"
    using inv by (simp_all add: failover_inv_def res_connected_def)
  have dl: "d < length (res_devs (r_ctx st))" using wf d by (auto simp: res_wf_def Let_def)
  consider (recovered) "dev_state (r_ctx st) d = DevStateRecovered" | (failed) "dev_state (r_ctx st) d = DevStateRecoveryFailed"
    | (other) "dev_state (r_ctx st) d \<noteq> DevStateRecovered" "dev_state (r_ctx st) d \<noteq> DevStateRecoveryFailed" by blast
  then show ?thesis
  proof cases
    case recovered
    define st' where "st' = recovery_step d st"
    have ctx': "r_ctx st' = (set_dev_state d DevStateOk (r_ctx st))\<lparr> outstandingRecovery := outstandingRecovery (r_ctx st) - 1 \<rparr>"
      and b': "r_base st' = ncclIbResiliencyActiveQpsRestore d (r_base st)"
      using recovered by (simp_all add: st'_def recovery_step_def Let_def)
    have upd: "dev_state (ctx\<lparr> outstandingRecovery := x \<rparr>) e = dev_state ctx e" for ctx :: ncclIbResiliency and x e by (simp add: dev_state_def)
    have only: "dev_state (r_ctx st) e = DevStateOk" if "e < nat (res_ndevs (r_ctx st))" "e \<noteq> d" for e
      using one [unfolded one_failed_def, rule_format, OF that(1) d] recovered that(2) by auto
    have ok: "dev_state (r_ctx st') e = DevStateOk" if "e < nat (res_ndevs (r_ctx st))" for e
      using only [OF that] unfolding ctx' upd dev_state_set [OF dl] by simp
    have base: "qps (r_base st') = qps (r_base st)" "nqps (r_base st') = nqps (r_base st)" "length (activeQps (r_base st')) = length (activeQps (r_base st))"
      "qp_dev (r_base st') q = qp_dev (r_base st) q" for q
      by (simp_all add: b' ncclIbResiliencyActiveQpsRestore_def qp_dev_def)
    have ctx: "res_ndevs (r_ctx st') = res_ndevs (r_ctx st)" "length (res_devs (r_ctx st')) = length (res_devs (r_ctx st))" by (simp_all add: ctx')
    have act: "activeQps (r_base st') ! i = Some i" if i: "i < nat (nqps (r_base st))" for i
    proof (cases "qp_dev (r_base st) i = d")
      case True
      then have "qp_devIndex (qps (r_base st) ! i) = int d" using wf i by (auto simp: qp_dev_def res_wf_def Let_def)
      then show ?thesis using wf i by (simp add: b' ncclIbResiliencyActiveQpsRestore_def res_wf_def Let_def)
    next
      case False
      then have "dev_state (r_ctx st) (qp_dev (r_base st) i) = DevStateOk" using only qp_dev_bound(1) [OF wf i] by blast
      then have "activeQps (r_base st) ! i = Some i" using pl i unfolding places_ok_def qp_works_def by metis
      moreover have "qp_devIndex (qps (r_base st) ! i) \<noteq> int d" using False by (auto simp: qp_dev_def)
      ultimately show ?thesis using wf i by (simp add: b' ncclIbResiliencyActiveQpsRestore_def res_wf_def Let_def)
    qed
    have "places_ok st'"
      using act ok qp_dev_bound(1) [OF wf] by (simp add: places_ok_def base qp_works_def)
    moreover have "res_connected st'" using conn by (simp add: res_connected_def res_wf_def Let_def base ctx)
    moreover have "one_failed (r_ctx st')" using ok by (simp add: one_failed_def ctx)
    ultimately show ?thesis by (simp add: failover_inv_def st'_def)
  next
    case failed
    then show ?thesis
      using failover_inv_cong [OF inv, of "(set_dev_state d DevStateErrorPermanent (r_ctx st))\<lparr> outstandingRecovery := outstandingRecovery (r_ctx st) - 1 \<rparr>"] dl
      by (auto simp: recovery_step_def Let_def dev_state_def set_dev_state_def nth_list_update)
  next
    case other
    then show ?thesis using inv by (auto simp: recovery_step_def Let_def split: ncclIbResiliencyDevState.splits)
  qed
qed

lemma recovery_fold_inv:
  assumes "failover_inv st" "\<forall>d \<in> set ds. d < nat (res_ndevs (r_ctx st))"
  shows "failover_inv (fold recovery_step ds st)"
  using assms by (induction ds arbitrary: st) (auto simp: recovery_step_inv)

lemma recovery_progress_inv:
  assumes "failover_inv st"
  shows "failover_inv (recovery_progress st)"
proof -
  define st1 where "st1 = (if outstandingRecovery (r_ctx st) > 0 then fold recovery_step [0..<nat (res_ndevs (r_ctx st))] st else st)"
  have inv1: "failover_inv st1" using assms recovery_fold_inv by (simp add: st1_def)
  have "failover_inv (st1\<lparr> r_ctx := (r_ctx st1)\<lparr> inProgress := False \<rparr> \<rparr>)"
    by (rule failover_inv_cong [OF inv1]) (simp_all add: dev_state_def)
  with inv1 show ?thesis unfolding recovery_progress_def st1_def [symmetric] Let_def by simp
qed

lemma failover_step_inv:
  assumes "failover_step st st'" "failover_inv st"
  shows "failover_inv st'"
  using assms
proof (induction rule: failover_step.induct)
  case (device_error st wc d e r st')
  then show ?case using device_failure_handled [of st wc d e] by auto
next
  case (thread_verdict st d v)
  then have "d < length (res_devs (r_ctx st))" by (auto simp: failover_inv_def res_connected_def res_wf_def Let_def)
  then show ?case
    using thread_verdict by (intro failover_inv_cong) (auto simp: dev_state_set)
next
  case (progress st)
  then show ?case by (rule recovery_progress_inv)
qed

lemma failover_reachable_inv:
  assumes "failover_step\<^sup>*\<^sup>* st0 st" "failover_inv st0"
  shows "failover_inv st"
  using assms by (induction rule: rtranclp_induct) (auto intro: failover_step_inv)

text \<open>A communicator as it is connected: every device has a queue pair and works, and every queue pair is in its place.\<close>

definition res_fresh :: "res_st \<Rightarrow> bool" where
  "res_fresh st \<longleftrightarrow> res_connected st \<and> (\<forall>d < nat (res_ndevs (r_ctx st)). dev_state (r_ctx st) d = DevStateOk)
     \<and> (\<forall>i < nat (nqps (r_base st)). activeQps (r_base st) ! i = Some i)"

lemma fresh_inv: "res_fresh st \<Longrightarrow> failover_inv st"
  using qp_dev_bound(1) by (auto simp: res_fresh_def failover_inv_def places_ok_def one_failed_def qp_works_def res_connected_def)

text \<open>C4 fail-over never uses a failed device: whatever sequence of device errors, verdicts of the recovery thread and progress calls a communicator goes through, the queue
  pair chosen for any piece of any request is on a working device; when all devices work again every queue pair is back in its place; and an error that is not fatal is
  always handled, because a replacement is always found.\<close>

theorem failover_uses_working_devices:
  assumes "res_fresh st0" "failover_step\<^sup>*\<^sup>* st0 st"
  shows "(\<forall>rid j q k. ncclIbCommBaseGetQpForRequest (r_base st) rid j = Inr (q, k) \<and> 0 < nqps (r_base st) \<and> nqps (r_base st) < 2 ^ 31
         \<longrightarrow> dev_state (r_ctx st) (nat (qp_devIndex (qps (r_base st) ! q))) = DevStateOk)
    \<and> ((\<forall>d < nat (res_ndevs (r_ctx st)). dev_state (r_ctx st) d = DevStateOk) \<longrightarrow> (\<forall>i < nat (nqps (r_base st)). activeQps (r_base st) ! i = Some i))
    \<and> (\<forall>e wc d. ncclIbResiliencyCheckErrorNotFatal (r_ctx st) wc d = Some ncclSuccess \<and> d < nat (res_ndevs (r_ctx st))
         \<longrightarrow> (\<exists>st'. ncclIbResiliencyHandleDeviceFailure e d st = Some (ncclSuccess, st')))"
proof (intro conjI allI impI)
  have inv: "failover_inv st" using failover_reachable_inv [OF assms(2) fresh_inv [OF assms(1)]] .
  then have wf: "res_wf st" and pl: "places_ok st" by (simp_all add: failover_inv_def res_connected_def)
  {
    fix rid j q k
    assume h: "ncclIbCommBaseGetQpForRequest (r_base st) rid j = Inr (q, k) \<and> 0 < nqps (r_base st) \<and> nqps (r_base st) < 2 ^ 31"
    then have k: "activeQps (r_base st) ! k = Some q" "\<exists>x :: u64. k = unat (x mod word_of_int (nqps (r_base st)))"
      by (auto simp: ncclIbCommBaseGetQpForRequest_def Let_def split: sum.splits option.splits)
    have n: "unat (word_of_int (nqps (r_base st)) :: u64) = nat (nqps (r_base st))"
      using h by (simp add: unsigned_of_int take_bit_int_eq_self)
    then have "k < nat (nqps (r_base st))" using k(2) h by (auto simp: unat_mod)
    then have "qp_works st q" using pl k(1) unfolding places_ok_def by auto
    then show "dev_state (r_ctx st) (nat (qp_devIndex (qps (r_base st) ! q))) = DevStateOk" by (simp add: qp_works_def qp_dev_def)
  next
    fix i
    assume h: "\<forall>d < nat (res_ndevs (r_ctx st)). dev_state (r_ctx st) d = DevStateOk" "i < nat (nqps (r_base st))"
    then have "qp_works st i" using qp_dev_bound(1) [OF wf h(2)] by (simp add: qp_works_def)
    then show "activeQps (r_base st) ! i = Some i" using pl h(2) unfolding places_ok_def by metis
  next
    fix e wc d
    assume "ncclIbResiliencyCheckErrorNotFatal (r_ctx st) wc d = Some ncclSuccess \<and> d < nat (res_ndevs (r_ctx st))"
    then show "\<exists>st'. ncclIbResiliencyHandleDeviceFailure e d st = Some (ncclSuccess, st')"
      using device_failure_handled [OF inv] by blast
  }
qed

text \<open>Two devices with one queue pair each.\<close>

definition example_res :: res_st where
  "example_res = \<lparr> r_ctx = zero_resiliency\<lparr> res_ndevs := 2, recoveryEnabled := True \<rparr>,
     r_base = zero_base\<lparr> vProps := \<lparr> ndevs = 2, devs = [0, 1, 0, 0, 0, 0, 0, 0] \<rparr>, isSend := True, ready := 1, resiliency := True,
       qps := [zero_qp\<lparr> qp_mrcQp := 100 \<rparr>, zero_qp\<lparr> qp_mrcQp := 101, qp_devIndex := 1, qp_remDevIdx := 1 \<rparr>],
       activeQps := [Some 0, Some 1], nqps := 2, nDataQps := 2 \<rparr> \<rparr>"

definition example_error :: ibv_wc where
  "example_error = example_wc\<lparr> wc_stat := WC_RETRY_EXC_ERR \<rparr>"

lemma example_res_fresh: "res_fresh example_res"
proof -
  have "res_wf example_res"
    by (simp add: res_wf_def Let_def example_res_def zero_resiliency_def NCCL_IB_MAX_DEVS_PER_NIC_def all_two zero_qp_def)
  moreover have "\<forall>d < 2. \<exists>q < 2. qp_dev (r_base example_res) q = d"
    unfolding all_two by (auto simp: example_res_def qp_dev_def zero_qp_def intro: exI [of _ 0] exI [of _ "1 :: nat"])
  ultimately show ?thesis
    by (simp add: res_fresh_def res_connected_def) (simp add: example_res_def all_two dev_state_def zero_resiliency_def NCCL_IB_MAX_DEVS_PER_NIC_def)
qed

theorem failover_uses_working_devices_witness:
  "\<exists>st'. ncclIbResiliencyHandleDeviceFailure \<lparr> re_now = 0, re_post_probe = \<lambda>_ _. ncclSuccess, re_results_addr = \<lambda>_. 0,
     re_start_recovery = \<lambda>_. ncclSuccess, re_poll_probes = \<lambda>_. ncclSuccess \<rparr> 0 example_res = Some (ncclSuccess, st')"
proof -
  have "ncclIbResiliencyCheckErrorNotFatal (r_ctx example_res) example_error 0 = Some ncclSuccess" "0 < nat (res_ndevs (r_ctx example_res))"
    by (simp_all add: ncclIbResiliencyCheckErrorNotFatal_def failed_devices_def Let_def upt_two dev_state_def example_res_def example_error_def zero_resiliency_def
        NCCL_IB_MAX_DEVS_PER_NIC_def)
  then show ?thesis using failover_uses_working_devices [OF example_res_fresh rtranclp.rtrancl_refl] by blast
qed

section \<open>Counting the failed sends\<close>

definition tracked :: "ncclIbResiliencySend \<Rightarrow> int" where
  "tracked ctx = sum_list (map (\<lambda>fr. if fr_request fr = None then 0 else 1) (failedRequests ctx))"

text \<open>The counter is the number of slots under repair, and while there is one the progress function does its work.\<close>

definition track_inv :: "ncclIbResiliencySend \<Rightarrow> bool" where
  "track_inv ctx \<longleftrightarrow> length (failedRequests ctx) = NET_IB_MAX_REQUESTS \<and> outstandingRequests (rsend_base ctx) = tracked ctx
     \<and> (tracked ctx \<noteq> 0 \<longrightarrow> inProgress (rsend_base ctx))"

lemma sum_list_update_int: "k < length xs \<Longrightarrow> sum_list (xs[k := x]) = sum_list xs + x - (xs ! k :: int)"
  by (induction xs arbitrary: k) (auto split: nat.split)

lemma tracked_set_failed:
  assumes "slot < length (failedRequests ctx)"
  shows "tracked (set_failed slot fr ctx)
    = tracked ctx + (if fr_request fr = None then 0 else 1) - (if fr_request (failedRequests ctx ! slot) = None then 0 else 1)"
  using assms by (simp add: tracked_def set_failed_def map_update sum_list_update_int)

lemma tracked_fields [simp]: "tracked (ctx\<lparr> rsend_base := x \<rparr>) = tracked ctx"
  by (simp add: tracked_def)

lemma set_failed_fields [simp]: "rsend_base (set_failed slot fr ctx) = rsend_base ctx" "length (failedRequests (set_failed slot fr ctx)) = length (failedRequests ctx)"
  by (simp_all add: set_failed_def)

lemma tracked_nonneg: "0 \<le> tracked ctx"
  unfolding tracked_def by (rule sum_list_nonneg) auto

text \<open>A failed request that stays tracked, or untracked, is neutral.\<close>

lemma track_inv_set_failed:
  assumes "track_inv ctx" "slot < NET_IB_MAX_REQUESTS" "(fr_request fr = None) = (fr_request (failedRequests ctx ! slot) = None)"
    "outstandingRequests b = outstandingRequests (rsend_base ctx)" "inProgress (rsend_base ctx) \<longrightarrow> inProgress b"
  shows "track_inv ((set_failed slot fr ctx)\<lparr> rsend_base := b \<rparr>)"
proof -
  have t: "tracked (set_failed slot fr ctx) = tracked ctx"
    using tracked_set_failed [of slot ctx fr] assms(1-3) by (simp add: track_inv_def)
  show ?thesis using assms(1,4,5) by (auto simp: track_inv_def t)
qed

lemma track_inv_base:
  assumes "track_inv ctx" "outstandingRequests b = outstandingRequests (rsend_base ctx)" "inProgress (rsend_base ctx) \<longrightarrow> inProgress b"
  shows "track_inv (ctx\<lparr> rsend_base := b \<rparr>)"
  using assms by (auto simp: track_inv_def)

lemma replace_loop_ctx: "replace_loop d is st = Some (r, st') \<Longrightarrow> r_ctx st' = r_ctx st"
proof (induction d "is" st rule: replace_loop.induct)
  case (2 d i "is" st)
  then show ?case
    by (cases "activeQps (r_base st) ! i") (auto simp: Let_def deref_def split: if_splits option.splits)
qed simp

lemma device_failure_ctx:
  assumes "ncclIbResiliencyHandleDeviceFailure e d st = Some (r, st')"
  shows "outstandingRequests (r_ctx st') = outstandingRequests (r_ctx st)" "inProgress (r_ctx st) \<longrightarrow> inProgress (r_ctx st')"
  using assms
  by (auto simp: ncclIbResiliencyHandleDeviceFailure_def ncclIbResiliencyReplaceQps_def Let_def chk_def
      split: if_splits option.splits prod.splits dest!: replace_loop_ctx)

lemma replace_loop_active: "replace_loop d is st = Some (r, st') \<Longrightarrow> \<exists>as. st' = with_active as st"
proof (induction "is" arbitrary: st)
  case Nil
  then have "st' = with_active (activeQps (r_base st)) st" by simp
  then show ?case by blast
next
  case (Cons i "is")
  have self: "\<exists>as. st = with_active as st" by (metis with_active_simps(8))
  obtain q where q: "activeQps (r_base st) ! i = Some q" using Cons.prems by (cases "activeQps (r_base st) ! i") (auto simp: Let_def)
  consider (skip) "replace_loop d is st = Some (r, st')" | (stop) "st' = st"
    | (repl) k where "replace_loop d is (with_active ((activeQps (r_base st))[i := Some k]) st) = Some (r, st')"
    using Cons.prems q by (auto simp: Let_def deref_def with_active_def split: if_splits option.splits)
  then show ?case
  proof cases
    case (repl k)
    then show ?thesis using Cons.IH by fastforce
  qed (use Cons.IH self in auto)
qed

lemma device_failure_reqs:
  assumes "ncclIbResiliencyHandleDeviceFailure e d st = Some (r, st')"
  shows "reqs (r_base st') = reqs (r_base st)"
proof (cases "st' = st")
  case False
  define st1 where "st1 = st\<lparr> r_ctx := set_dev_state d DevStateError (r_ctx st) \<rparr>"
  have "\<exists>r2 st2. ncclIbResiliencyReplaceQps d st1 = Some (r2, st2) \<and> r_base st' = r_base st2"
    using assms False unfolding ncclIbResiliencyHandleDeviceFailure_def st1_def
    by (cases "ncclIbResiliencyReplaceQps d (st\<lparr> r_ctx := set_dev_state d DevStateError (r_ctx st) \<rparr>)")
       (auto simp: Let_def chk_def split: if_splits)
  then show ?thesis using replace_loop_active unfolding ncclIbResiliencyReplaceQps_def by (auto simp: st1_def with_active_def dest!: replace_loop_active)
qed simp

lemma on_send_device_failure:
  assumes "on_send (ncclIbResiliencyHandleDeviceFailure e d) s = Some (r, s')" "track_inv (rss_ctx s)"
  shows "track_inv (rss_ctx s') \<and> failedRequests (rss_ctx s') = failedRequests (rss_ctx s) \<and> sc_sendReqs (ss_comm (rss_st s')) = sc_sendReqs (ss_comm (rss_st s))"
proof -
  obtain t where t: "ncclIbResiliencyHandleDeviceFailure e d \<lparr> r_ctx = rsend_base (rss_ctx s), r_base = send_base s \<rparr> = Some (r, t)"
    "s' = s\<lparr> rss_ctx := (rss_ctx s)\<lparr> rsend_base := r_ctx t \<rparr>, rss_st := upd_base (\<lambda>_. r_base t) (rss_st s) \<rparr>"
    using assms(1) by (auto simp: on_send_def split: option.splits prod.splits)
  show ?thesis using track_inv_base [OF assms(2), of "r_ctx t"] device_failure_ctx [OF t(1)] by (simp add: t(2) upd_base_def)
qed

text \<open>A slot under repair belongs to the request that is in it: its id is what the slot remembers.\<close>

definition slot_not_reused :: "res_send_st \<Rightarrow> nat \<Rightarrow> bool" where
  "slot_not_reused s i \<longleftrightarrow>
     (let req = reqs (send_base s) ! i; fr = failedRequests (rss_ctx s) ! req_slot req in fr_request fr \<noteq> None \<longrightarrow> fr_id fr = rq_id req + 1)"

lemma req_slot_bound [simp]: "req_slot req < NET_IB_MAX_REQUESTS"
proof -
  have "unat (rq_id req mod 256) < 256" by (simp add: unat_mod)
  then show ?thesis by (simp add: req_slot_def max_requests)
qed

lemma send_request_init_tracks:
  assumes "ncclIbResiliencySendRequestInit e i d s = Some (r, s')" "track_inv (rss_ctx s)" "slot_not_reused s i"
  shows "track_inv (rss_ctx s')"
proof (cases "rss_ctx s' = rss_ctx s")
  case True
  then show ?thesis using assms(2) by simp
next
  case False
  define req where "req = reqs (send_base s) ! i"
  have nt: "fr_request (failedRequests (rss_ctx s) ! req_slot req) = None"
    using False assms(1,3) by (auto simp: ncclIbResiliencySendRequestInit_def Let_def slot_not_reused_def req_def split: if_splits)
  have l: "req_slot req < length (failedRequests (rss_ctx s))" using assms(2) by (simp add: track_inv_def)
  have "tracked (set_failed (req_slot req) fr (rss_ctx s)) = tracked (rss_ctx s) + 1" if "fr_request fr \<noteq> None" for fr
    using tracked_set_failed [OF l] nt that by simp
  then show ?thesis
    using False assms(1,2) by (auto simp: ncclIbResiliencySendRequestInit_def Let_def upd_ctx_def track_inv_def req_def split: if_splits)
qed

lemma send_request_free_tracks:
  assumes "ncclIbResiliencySendRequestFree slot s = Some (r, s')" "track_inv (rss_ctx s)" "slot < NET_IB_MAX_REQUESTS"
  shows "track_inv (rss_ctx s')"
proof (cases "fr_request (failedRequests (rss_ctx s) ! slot)")
  case None
  then show ?thesis using assms by (simp add: ncclIbResiliencySendRequestFree_def)
next
  case (Some i)
  have l: "slot < length (failedRequests (rss_ctx s))" using assms(2,3) by (simp add: track_inv_def)
  have "tracked (set_failed slot fr (rss_ctx s)) = tracked (rss_ctx s) - 1" if "fr_request fr = None" for fr
    using tracked_set_failed [OF l] Some that by simp
  moreover have "tracked (rss_ctx s) \<noteq> 0" using calculation [of zero_failed] tracked_nonneg [of "set_failed slot zero_failed (rss_ctx s)"]
    by (simp add: zero_failed_def)
  ultimately show ?thesis
    using Some assms(1,2) by (auto simp: ncclIbResiliencySendRequestFree_def Let_def upd_ctx_def track_inv_def)
qed

lemma repost_ctx: "ncclIbResiliencyRepostRequest_send p v i s = Some (r, s') \<Longrightarrow> rss_ctx s' = rss_ctx s"
  by (auto simp: ncclIbResiliencyRepostRequest_send_def on_send_st_def Let_def split: req_type.splits if_splits option.splits)

lemma probe_completed_ctx: "ncclIbResiliencyHandleProbeCompleted p v fslot s = Some (r, s') \<Longrightarrow> rss_ctx s' = rss_ctx s"
  by (auto simp: ncclIbResiliencyHandleProbeCompleted_def deref_def Let_def split: if_splits option.splits dest: repost_ctx)

lemma probe_post_tracks:
  assumes "ncclIbResiliencyProbePost rp e slot s = Some (r, s')" "track_inv (rss_ctx s)" "slot < NET_IB_MAX_REQUESTS"
  shows "track_inv (rss_ctx s')"
proof -
  have "rss_ctx s' = rss_ctx s \<or> (\<exists>ds. rss_ctx s' = (set_failed slot ((failedRequests (rss_ctx s) ! slot)\<lparr> fr_state := RequestStateProbePosted \<rparr>) (rss_ctx s))
      \<lparr> rsend_base := (rsend_base (rss_ctx s))\<lparr> res_devs := ds \<rparr> \<rparr>)"
    using assms(1) by (auto simp: ncclIbResiliencyProbePost_def Let_def deref_def upd_ctx_def split: if_splits option.splits)
  then show ?thesis using track_inv_set_failed [OF assms(2,3)] assms(2) by auto
qed

lemma probe_event_tracks:
  assumes "ncclIbResiliencyProbeHandleCompletionEvent e d wc s = Some (r, s')" "track_inv (rss_ctx s)"
  shows "track_inv (rss_ctx s')"
proof -
  define fslot where "fslot = unat (wc_wr_id wc mod word_of_nat NET_IB_MAX_REQUESTS)"
  have f: "fslot < NET_IB_MAX_REQUESTS" by (simp add: fslot_def max_requests unat_mod)
  have keep: "track_inv (set_failed fslot ((failedRequests ctx ! fslot)\<lparr> fr_state := x, fr_failedAttempts := n \<rparr>) ctx)"
    "track_inv (set_failed fslot ((failedRequests ctx ! fslot)\<lparr> fr_state := x \<rparr>) ctx)" if "track_inv ctx" for ctx x n
    using track_inv_set_failed [OF that f, of _ "rsend_base ctx"] by (simp_all add: set_failed_def)
  show ?thesis
  proof (cases "wc_stat wc = WC_SUCCESS")
    case True
    then show ?thesis using assms keep by (auto simp: ncclIbResiliencyProbeHandleCompletionEvent_def Let_def upd_ctx_def fslot_def)
  next
    case False
    then show ?thesis
      using assms keep by (auto simp: ncclIbResiliencyProbeHandleCompletionEvent_def Let_def upd_ctx_def fslot_def deref_def chk_def
          split: if_splits option.splits dest!: on_send_device_failure [THEN conjunct1])
  qed
qed

lemma probe_wcs_tracks:
  "probe_wcs e d wcs s = Some (r, s') \<Longrightarrow> track_inv (rss_ctx s) \<Longrightarrow> track_inv (rss_ctx s')"
  by (induction wcs arbitrary: s) (auto simp: chk_def split: option.splits if_splits dest: probe_event_tracks)

lemma probe_poll_tracks:
  "probe_poll e d wcs s = Some (r, s') \<Longrightarrow> track_inv (rss_ctx s) \<Longrightarrow> track_inv (rss_ctx s')"
proof (induction e d wcs s arbitrary: r rule: probe_poll.induct)
  case (1 e d wcs s)
  define ctx where "ctx = rsend_base (rss_ctx s)"
  define n where "n = length (take 4 wcs)"
  define s1 where "s1 = upd_ctx (\<lambda>sctx. sctx\<lparr> rsend_base := ctx\<lparr>
    res_devs := (res_devs ctx)[d := (res_devs ctx ! d)\<lparr> nOutstandingProbes := nOutstandingProbes (res_devs ctx ! d) - int n \<rparr>] \<rparr> \<rparr>) s"
  have t1: "track_inv (rss_ctx s1)" using 1(3) by (auto simp: s1_def upd_ctx_def ctx_def intro!: track_inv_base)
  show ?case
  proof (cases "\<not> nccl_ok (re_poll_probes e d) \<or> wcs = [] \<or> int n > nOutstandingProbes (res_devs ctx ! d)")
    case True
    then show ?thesis using "1.prems" by (auto simp: probe_poll.simps [of e d wcs s] Let_def ctx_def n_def split: if_splits)
  next
    case False
    then have eq: "probe_poll e d wcs s = chk (probe_wcs e d (take 4 wcs) s1) (probe_poll e d (drop 4 wcs))"
      by (simp add: probe_poll.simps [of e d wcs s] Let_def ctx_def n_def s1_def)
    then obtain r1 s2 where w: "probe_wcs e d (take 4 wcs) s1 = Some (r1, s2)" using "1.prems"(1) by (auto simp: chk_def split: option.splits)
    have t2: "track_inv (rss_ctx s2)" by (rule probe_wcs_tracks [OF w t1])
    show ?thesis
    proof (cases "nccl_ok r1")
      case True
      then have "probe_poll e d (drop 4 wcs) s2 = Some (r, s')" using eq w "1.prems"(1) by (simp add: chk_Some)
      then show ?thesis using "1.IH" [OF _ _ refl refl refl _ _ t2] False unfolding ctx_def n_def by auto
    next
      case F: False
      then show ?thesis using eq w "1.prems"(1) t2 by (simp add: chk_Some)
    qed
  qed
qed

lemma probe_devs_tracks:
  "probe_devs e cq ds s = Some (r, s') \<Longrightarrow> track_inv (rss_ctx s) \<Longrightarrow> track_inv (rss_ctx s')"
  by (induction e cq ds s rule: probe_devs.induct) (auto simp: chk_def split: option.splits if_splits dest: probe_poll_tracks)

lemma failed_step_tracks:
  assumes "failed_step p rp v e i s = Some (r, s')" "track_inv (rss_ctx s)" "i < NET_IB_MAX_REQUESTS"
  shows "track_inv (rss_ctx s')"
proof (cases "fr_state (failedRequests (rss_ctx s) ! i)")
  case RequestStateProbeCompleted
  show ?thesis
  proof (cases "fr_request (failedRequests (rss_ctx s) ! i) = None")
    case False
    obtain r1 s1 where h: "ncclIbResiliencyHandleProbeCompleted p v i s = Some (r1, s1)"
      using assms(1) False RequestStateProbeCompleted by (auto simp: failed_step_def Let_def chk_def split: option.splits)
    have t1: "track_inv (rss_ctx s1)" using assms(2) probe_completed_ctx [OF h] by simp
    show ?thesis
    proof (cases "nccl_ok r1")
      case True
      then have "ncclIbResiliencySendRequestFree i s1 = Some (r, s')" using assms(1) h False RequestStateProbeCompleted by (simp add: failed_step_def Let_def chk_Some)
      then show ?thesis by (rule send_request_free_tracks [OF _ t1 assms(3)])
    next
      case F: False
      then show ?thesis using assms(1) h False RequestStateProbeCompleted t1 by (simp add: failed_step_def Let_def chk_Some)
    qed
  qed (use assms in \<open>simp add: failed_step_def Let_def\<close>)
qed (use assms probe_post_tracks in \<open>auto simp: failed_step_def Let_def split: if_splits\<close>)

lemma failed_loop_tracks:
  "failed_loop p rp v e is s = Some (r, s') \<Longrightarrow> track_inv (rss_ctx s) \<Longrightarrow> \<forall>i \<in> set is. i < NET_IB_MAX_REQUESTS \<Longrightarrow> track_inv (rss_ctx s')"
  by (induction "is" arbitrary: s) (auto simp: chk_def split: option.splits if_splits dest: failed_step_tracks)

lemma recovery_fold_counts: "outstandingRequests (r_ctx (fold recovery_step ds st)) = outstandingRequests (r_ctx st)
    \<and> inProgress (r_ctx (fold recovery_step ds st)) = inProgress (r_ctx st)"
  by (induction ds arbitrary: st) (auto simp: recovery_step_def Let_def split: ncclIbResiliencyDevState.splits)

lemma recovery_progress_tracks:
  assumes "on_send (\<lambda>t. ret ncclSuccess (recovery_progress t)) s = Some (r, s')" "track_inv (rss_ctx s)"
  shows "track_inv (rss_ctx s')"
proof -
  define t where "t = recovery_progress \<lparr> r_ctx = rsend_base (rss_ctx s), r_base = send_base s \<rparr>"
  have s': "rss_ctx s' = (rss_ctx s)\<lparr> rsend_base := r_ctx t \<rparr>" using assms(1) by (auto simp: on_send_def ret_def t_def)
  have "outstandingRequests (r_ctx t) = outstandingRequests (rsend_base (rss_ctx s))"
    "outstandingRequests (r_ctx t) \<noteq> 0 \<longrightarrow> inProgress (r_ctx t) = inProgress (rsend_base (rss_ctx s))"
    by (auto simp: t_def recovery_progress_def Let_def recovery_fold_counts)
  then show ?thesis using assms(2) unfolding s' track_inv_def by auto
qed

text \<open>C25 the counter of failed sends is exact: a completion with an error and a call of the progress function, whatever their outcome, leave the counter of outstanding
  requests equal to the number of slots that hold a request under repair, and as long as there is one the communicator is marked in progress, so that
  no failed send is forgotten. A completion with an error needs that the slot it names is not under repair for an earlier request.\<close>

theorem failed_sends_counted:
  assumes "track_inv (rss_ctx s)"
  shows "(\<forall>e wc d r s'. (\<forall>i. sc_sendReqs (ss_comm (rss_st s)) ! unat (wc_wr_id wc AND 0xff) ! 0 = Some i \<longrightarrow> slot_not_reused s i)
           \<and> ncclIbResiliencyHandleCompletionError_send e wc d s = Some (r, s') \<longrightarrow> track_inv (rss_ctx s'))
    \<and> (\<forall>p rp v e cq r s'. ncclIbResiliencyProgress_send p rp v e cq s = Some (r, s') \<longrightarrow> track_inv (rss_ctx s'))"
proof (intro conjI allI impI)
  fix e wc d r s'
  assume h: "(\<forall>i. sc_sendReqs (ss_comm (rss_st s)) ! unat (wc_wr_id wc AND 0xff) ! 0 = Some i \<longrightarrow> slot_not_reused s i)
    \<and> ncclIbResiliencyHandleCompletionError_send e wc d s = Some (r, s')"
  show "track_inv (rss_ctx s')"
  proof (cases "on_send (ncclIbResiliencyHandleDeviceFailure e d) s")
    case None
    then show ?thesis using h assms by (auto simp: ncclIbResiliencyHandleCompletionError_send_def deref_def split: option.splits if_splits)
  next
    case (Some x)
    obtain r1 s1 where x: "x = (r1, s1)" by (cases x)
    note df = on_send_device_failure [OF Some [unfolded x] assms]
    have same: "reqs (send_base s1) ! i = reqs (send_base s) ! i" for i
      using Some unfolding x by (auto simp: on_send_def send_base_def upd_base_def split: option.splits dest!: device_failure_reqs)
    have snr: "slot_not_reused s1 i" if "slot_not_reused s i" for i using that df same by (simp add: slot_not_reused_def)
    show ?thesis
      using h assms Some x df snr send_request_init_tracks
      by (auto simp: ncclIbResiliencyHandleCompletionError_send_def ncclIbResiliencyHandleCompletionErrorSender_def deref_def chk_Some
          split: option.splits if_splits)
  qed
next
  fix p rp v e cq r s'
  assume h: "ncclIbResiliencyProgress_send p rp v e cq s = Some (r, s')"
  show "track_inv (rss_ctx s')"
  proof (cases "inProgress (rsend_base (rss_ctx s))")
    case True
    then obtain r1 s1 where s1: "ncclIbResiliencyProbeProgress e cq s = Some (r1, s1)"
      using h by (auto simp: ncclIbResiliencyProgress_send_def chk_def split: option.splits)
    have t1: "track_inv (rss_ctx s1)" using probe_devs_tracks s1 assms unfolding ncclIbResiliencyProbeProgress_def by blast
    have lt: "\<forall>i \<in> set [0..<NET_IB_MAX_REQUESTS]. i < NET_IB_MAX_REQUESTS" by simp
    show ?thesis
      using h True s1 t1 failed_loop_tracks [OF _ t1 lt] recovery_progress_tracks
      by (auto simp: ncclIbResiliencyProgress_send_def chk_Some chk_def split: option.splits if_splits)
  qed (use h assms in \<open>simp add: ncclIbResiliencyProgress_send_def\<close>)
qed

text \<open>The example of two devices with a send in slot 0.\<close>

definition example_res_send :: res_send_st where
  "example_res_send = \<lparr> rss_st = \<lparr> ss_comm = zero_sendComm\<lparr> sc_base := (r_base example_res)\<lparr>
         reqs := [zero_request\<lparr> rq_type := REQ_SEND, rq_nreqs := 1, rq_size := 1000 \<rparr>] \<rparr>, sc_sendReqs := [[Some 0]] \<rparr>, ss_posted = [], ss_request = None \<rparr>,
     rss_ctx = (the (ncclIbResiliencyInit_send (default_params\<lparr> IbResiliencyPortFailover := 1 \<rparr>) True))\<lparr> rsend_base := r_ctx example_res \<rparr>, rss_probes = [] \<rparr>"

definition example_env :: res_env where
  "example_env = \<lparr> re_now = 0, re_post_probe = \<lambda>_ _. ncclSuccess, re_results_addr = \<lambda>_. 0, re_start_recovery = \<lambda>_. ncclSuccess, re_poll_probes = \<lambda>_. ncclSuccess \<rparr>"

lemma sum_list_replicate_zero: "sum_list (replicate n (0 :: int)) = 0"
  by (induction n) auto

lemma example_res_tracks: "track_inv (rss_ctx example_res_send)"
  by (simp add: track_inv_def tracked_def example_res_send_def ncclIbResiliencyInit_send_def zero_failed_def example_res_def zero_resiliency_def
      sum_list_replicate_zero)

theorem failed_sends_counted_witness:
  "\<exists>r s'. ncclIbResiliencyHandleCompletionError_send example_env example_error 0 example_res_send = Some (r, s') \<and> track_inv (rss_ctx s')"
proof -
  have nf: "ncclIbResiliencyCheckErrorNotFatal (rsend_base (rss_ctx example_res_send)) example_error 0 = Some ncclSuccess"
    by (simp add: ncclIbResiliencyCheckErrorNotFatal_def failed_devices_def Let_def upt_two dev_state_def example_res_send_def example_res_def example_error_def
        zero_resiliency_def NCCL_IB_MAX_DEVS_PER_NIC_def)
  define st where "st = \<lparr> r_ctx = rsend_base (rss_ctx example_res_send), r_base = send_base example_res_send \<rparr>"
  have inv: "failover_inv st"
  proof -
    have "st = example_res\<lparr> r_base := (r_base example_res)\<lparr> reqs := reqs (r_base st) \<rparr> \<rparr>" by (simp add: st_def send_base_def example_res_send_def)
    moreover have "res_fresh (example_res\<lparr> r_base := (r_base example_res)\<lparr> reqs := x \<rparr> \<rparr>)" for x
      using example_res_fresh by (simp add: res_fresh_def res_connected_def res_wf_def Let_def qp_dev_def)
    ultimately show ?thesis by (metis fresh_inv)
  qed
  have "0 < nat (res_ndevs (r_ctx st))" by (simp add: st_def example_res_send_def example_res_def)
  then obtain t where t: "ncclIbResiliencyHandleDeviceFailure example_env 0 st = Some (ncclSuccess, t)"
    using device_failure_handled [OF inv, of example_error 0 example_env] nf by (auto simp: st_def)
  have ex: "\<exists>r s'. ncclIbResiliencyHandleCompletionError_send example_env example_error 0 example_res_send = Some (r, s')"
    using nf t by (simp add: ncclIbResiliencyHandleCompletionError_send_def on_send_def st_def ncclIbResiliencyHandleCompletionErrorSender_def
        ncclIbResiliencySendRequestInit_def Let_def ret_def split: option.splits)
  have "slot_not_reused example_res_send i" for i
    by (simp add: slot_not_reused_def Let_def example_res_send_def ncclIbResiliencyInit_send_def zero_failed_def)
  then show ?thesis using ex failed_sends_counted [OF example_res_tracks] by blast
qed

end
