(* ===== verification/NetIb_Replay.thy ===== *)
theory NetIb_Replay
  imports NetIb_Resiliency_Facts
begin

text \<open>
  Replay after a failure: which pieces of a message are sent again, and how many completions are then expected. The facts about
  \<open>ncclIbMultiSend\<close> are extended to communicators with a resiliency context, where pieces marked as sent are skipped.
\<close>

section \<open>Sending with a resiliency context\<close>

definition piece_sent :: "ncclIbNetCommBase \<Rightarrow> nat list \<Rightarrow> nat \<Rightarrow> bool" where
  "piece_sent b is k \<longleftrightarrow> resiliency b \<and> rq_sentData (reqs b ! (is ! 0)) ! k"

lemma mark_sent_other:
  assumes "k' \<noteq> k"
  shows "rq_sentData (reqs (mark_sent k is b) ! i) ! k' = rq_sentData (reqs b ! i) ! k'"
proof (induction "is" arbitrary: b)
  case (Cons j "is")
  have "rq_sentData (reqs (b\<lparr> reqs := (reqs b)[j := (reqs b ! j)\<lparr> rq_sentData := (rq_sentData (reqs b ! j))[k := True] \<rparr>] \<rparr>) ! i) ! k' = rq_sentData (reqs b ! i) ! k'"
    using assms by (cases "j < length (reqs b)") (auto simp: nth_list_update list_update_beyond)
  then show ?case using Cons.IH by (simp add: mark_sent_def)
qed (simp add: mark_sent_def)

lemma piece_sent_mark: "k' \<noteq> k \<Longrightarrow> piece_sent (mark_sent k is b) is k' = piece_sent b is k'"
  using same_view_mark_sent [of k "is" b] by (simp add: piece_sent_def mark_sent_other same_view_def)

lemma send_loop_Cons_res:
  assumes "\<forall>ps q c. v_post_send v ps q c = ncclSuccess" "qp_indices_ok (sc_base comm) qk" "ss_comm st = comm"
  shows "send_loop v slot slots is ws perDev (qk # sel) wrs offs extra st =
    (let wrs1 = first_wrs (sc_base comm) slots is ws perDev qk wrs offs;
         extra1 = map_option (prepare_extra v comm slot (length is) (nat (qp_devIndex (qps (sc_base comm) ! fst qk)))) extra;
         chain = (qp_mrcQp (qps (sc_base comm) ! fst qk), wrs1 @ (case extra1 of None \<Rightarrow> [] | Some e \<Rightarrow> [e]))
     in send_loop v slot slots is ws perDev sel (map advance_wr wrs1) (next_offs (sc_base comm) is wrs1 offs) extra1
          (upd_base (mark_sent (snd qk) is)
            (if piece_sent (sc_base comm) is (snd qk) then st else st\<lparr> ss_posted := ss_posted st @ [chain] \<rparr>)))"
proof -
  obtain q k where qk: "qk = (q, k)" by (cases qk)
  show ?thesis
    using assms unfolding qk first_wrs_def next_offs_def first_wr_def piece_sent_def
    by (cases extra) (simp_all add: Let_def nccl_ok_def)
qed

lemma send_loop_posts_res:
  assumes "\<forall>ps q c. v_post_send v ps q c = ncclSuccess"
    "\<forall>qk \<in> set sel. qp_indices_ok (sc_base comm) qk" "ss_comm st = comm" "distinct (map snd sel)"
  shows "\<exists>st'. send_loop v slot slots ids ws perDev sel wrs offs extra st = Some (ncclSuccess, st')
    \<and> ss_posted st' = ss_posted st @ map (chain_at v comm slot slots ids ws perDev sel wrs offs extra)
        (filter (\<lambda>j. \<not> piece_sent (sc_base comm) ids (snd (sel ! j))) [0..<length sel])
    \<and> same_view (sc_base (ss_comm st')) (sc_base comm) \<and> ss_comm st' = comm\<lparr> sc_base := sc_base (ss_comm st') \<rparr>"
  using assms(2-)
proof (induction sel arbitrary: wrs offs extra st comm)
  case Nil
  then show ?case by (simp add: ret_def)
next
  case (Cons qk sel)
  define b wrs1 extra1 where "b = sc_base comm" and "wrs1 = first_wrs (sc_base comm) slots ids ws perDev qk wrs offs"
    and "extra1 = map_option (prepare_extra v comm slot (length ids) (nat (qp_devIndex (qps (sc_base comm) ! fst qk)))) extra"
  define first where "first = (qp_mrcQp (qps b ! fst qk), wrs1 @ (case extra1 of None \<Rightarrow> [] | Some e \<Rightarrow> [e]))"
  define new where "new = (if piece_sent b ids (snd qk) then [] else [first])"
  define b1 where "b1 = mark_sent (snd qk) ids b"
  define st1 where "st1 = upd_base (mark_sent (snd qk) ids) (if piece_sent b ids (snd qk) then st else st\<lparr> ss_posted := ss_posted st @ [first] \<rparr>)"
  have view: "same_view b1 b" unfolding b1_def by (rule same_view_mark_sent)
  have st1: "ss_comm st1 = comm\<lparr> sc_base := b1 \<rparr>" "ss_posted st1 = ss_posted st @ new"
    using Cons.prems(2) by (simp_all add: st1_def upd_base_def b1_def b_def new_def)
  have step: "send_loop v slot slots ids ws perDev (qk # sel) wrs offs extra st
      = send_loop v slot slots ids ws perDev sel (map advance_wr wrs1) (next_offs b ids wrs1 offs) extra1 st1"
    using send_loop_Cons_res [OF assms(1) _ Cons.prems(2), of qk] Cons.prems(1)
    by (simp add: wrs1_def extra1_def st1_def first_def b_def Let_def)
  have ok: "\<forall>qk \<in> set sel. qp_indices_ok (sc_base (comm\<lparr> sc_base := b1 \<rparr>)) qk"
    using Cons.prems(1) view by (auto simp: same_view_def b_def qp_indices_ok_def)
  have dist: "distinct (map snd sel)" "\<And>j. j < length sel \<Longrightarrow> snd (sel ! j) \<noteq> snd qk"
    using Cons.prems(3) by (simp, metis (no_types) distinct.simps(2) image_eqI list.set_map list.simps(9) nth_mem)
  define rest where "rest = filter (\<lambda>j. \<not> piece_sent b ids (snd (sel ! j))) [0..<length sel]"
  have rest: "filter (\<lambda>j. \<not> piece_sent b1 ids (snd (sel ! j))) [0..<length sel] = rest"
    unfolding rest_def b1_def by (rule filter_cong [OF refl]) (simp add: piece_sent_mark dist(2))
  from Cons.IH [OF ok st1(1) dist(1), of "map advance_wr wrs1" "next_offs b ids wrs1 offs" extra1]
  obtain st' where st': "send_loop v slot slots ids ws perDev sel (map advance_wr wrs1) (next_offs b ids wrs1 offs) extra1 st1 = Some (ncclSuccess, st')"
    "ss_posted st' = ss_posted st1 @ map (chain_at v (comm\<lparr> sc_base := b1 \<rparr>) slot slots ids ws perDev sel (map advance_wr wrs1) (next_offs b ids wrs1 offs) extra1) rest"
    "same_view (sc_base (ss_comm st')) b1" "ss_comm st' = comm\<lparr> sc_base := b1, sc_base := sc_base (ss_comm st') \<rparr>"
    by (auto simp: rest)
  have first: "chain_at v comm slot slots ids ws perDev (qk # sel) wrs offs extra 0 = first"
    by (cases extra) (simp_all add: chain_at_def Let_def first_def wrs1_def first_wrs_def b_def wr_run_Cons extra1_def)
  have up: "[0..<length (qk # sel)] = 0 # map Suc [0..<length sel]" by (simp add: map_Suc_upt upt_conv_Cons del: upt_Suc)
  have "filter (\<lambda>j. \<not> piece_sent b ids (snd ((qk # sel) ! j))) [0..<length (qk # sel)]
      = (if piece_sent b ids (snd qk) then [] else [0]) @ map Suc rest"
    unfolding up by (simp add: rest_def filter_map comp_def)
  then have "ss_posted st' = ss_posted st @ map (chain_at v comm slot slots ids ws perDev (qk # sel) wrs offs extra)
      (filter (\<lambda>j. \<not> piece_sent b ids (snd ((qk # sel) ! j))) [0..<length (qk # sel)])"
    unfolding st'(2) st1(2) new_def using first chain_at_Suc [OF view [unfolded b_def]]
    by (simp add: b_def wrs1_def extra1_def comp_def)
  moreover have "same_view (sc_base (ss_comm st')) (sc_base comm)" using same_view_trans [OF st'(3) view] by (simp add: b_def)
  ultimately show ?case using step st'(1,4) by (auto simp: b_def)
qed

text \<open>A communicator without its context; what a slot posts does not depend on it.\<close>

definition no_res :: "ncclIbSendComm \<Rightarrow> ncclIbSendComm" where
  "no_res comm = comm\<lparr> sc_base := (sc_base comm)\<lparr> resiliency := False \<rparr> \<rparr>"

lemma nqps_per_request_res [simp]: "ncclIbCommBaseGetNqpsPerRequest (b\<lparr> resiliency := x \<rparr>) = ncclIbCommBaseGetNqpsPerRequest b"
  "ncclIbCommBaseGetNqpsPerRequest (b\<lparr> reqs := rs \<rparr>) = ncclIbCommBaseGetNqpsPerRequest b"
  by (simp_all add: ncclIbCommBaseGetNqpsPerRequest_def)

lemma qp_for_request_res [simp]: "ncclIbCommBaseGetQpForRequest (b\<lparr> resiliency := x \<rparr>) = ncclIbCommBaseGetQpForRequest b"
  "ncclIbCommBaseGetQpForRequest (b\<lparr> reqs := rs \<rparr>) = ncclIbCommBaseGetQpForRequest b"
  by (intro ext, simp add: ncclIbCommBaseGetQpForRequest_def Let_def split: sum.split)+

lemma select_qps_res [simp]: "select_qps (b\<lparr> resiliency := x \<rparr>) rid js = select_qps b rid js"
  "select_qps (b\<lparr> reqs := rs \<rparr>) rid js = select_qps b rid js"
  by (induction js) (simp_all split: sum.split)

lemma wr_run_cong:
  assumes "qps b = qps b0" "rq_size rq = rq_size rq0" "rq_lkeys rq = rq_lkeys rq0"
  shows "wr_run b cts rq ws perDev sel wr off = wr_run b0 cts rq0 ws perDev sel wr off"
proof (induction sel arbitrary: wr off)
  case (Cons qk sel)
  then show ?case using assms prepare_wr_view [OF assms(2,3)] advance_off_view [OF assms(2)] by (simp add: wr_run_Cons first_wr_def Let_def)
qed simp

text \<open>Two communicators whose slot posts the same: they differ in event counters, sent pieces and the context.\<close>

definition same_slot :: "ncclIbSendComm \<Rightarrow> ncclIbSendComm \<Rightarrow> bool" where
  "same_slot c c0 \<longleftrightarrow> c = c0\<lparr> sc_base := (sc_base c0)\<lparr> reqs := reqs (sc_base c), resiliency := resiliency (sc_base c) \<rparr> \<rparr>
     \<and> (\<forall>i. let r = reqs (sc_base c) ! i; r0 = reqs (sc_base c0) ! i in rq_size r = rq_size r0 \<and> rq_lkeys r = rq_lkeys r0 \<and> rq_id r = rq_id r0
          \<and> rq_data r = rq_data r0 \<and> rq_weights r = rq_weights r0)"

lemma same_slot_posts:
  assumes "same_slot c c0"
  shows "slot_reqs c slot R = slot_reqs c0 slot R" "slot_sel c slot R N = slot_sel c0 slot R N" "slot_post p v c slot R N = slot_post p v c0 slot R N"
proof -
  have c: "c = c0\<lparr> sc_base := (sc_base c0)\<lparr> reqs := reqs (sc_base c), resiliency := resiliency (sc_base c) \<rparr> \<rparr>"
    and r: "rq_size (reqs (sc_base c) ! i) = rq_size (reqs (sc_base c0) ! i)" "rq_lkeys (reqs (sc_base c) ! i) = rq_lkeys (reqs (sc_base c0) ! i)"
      "rq_id (reqs (sc_base c) ! i) = rq_id (reqs (sc_base c0) ! i)" "rq_data (reqs (sc_base c) ! i) = rq_data (reqs (sc_base c0) ! i)"
      "rq_weights (reqs (sc_base c) ! i) = rq_weights (reqs (sc_base c0) ! i)" for i
    using assms by (auto simp: same_slot_def Let_def)
  have f: "sc_sendReqs c = sc_sendReqs c0" "sc_ctsFifo c = sc_ctsFifo c0" "sc_devs c = sc_devs c0" "sc_remCmplsRecords c = sc_remCmplsRecords c0"
    "sc_ar c = sc_ar c0" "qps (sc_base c) = qps (sc_base c0)" "recvMatchingScheme (sc_base c) = recvMatchingScheme (sc_base c0)"
    "remOooRq (sc_base c) = remOooRq (sc_base c0)" "localOooRq (sc_base c) = localOooRq (sc_base c0)"
    "select_qps (sc_base c) rid js = select_qps (sc_base c0) rid js" for rid js
    by (subst c, simp)+
  show sr: "slot_reqs c slot R = slot_reqs c0 slot R" by (simp add: slot_reqs_def f)
  show sel: "slot_sel c slot R N = slot_sel c0 slot R N" by (simp add: slot_sel_def f r sr)
  have extra: "extra_wr c = extra_wr c0" "has_extra_wr p c = has_extra_wr p c0" "prepare_extra v c = prepare_extra v c0"
    by (intro ext; simp add: extra_wr_def has_extra_wr_def prepare_extra_def f)+
  have pd: "qps_per_dev (sc_base c) = qps_per_dev (sc_base c0)" by (intro ext) (simp add: qps_per_dev_def f)
  have wrs: "slot_wrs p c slot R imm = slot_wrs p c0 slot R imm" for imm
    by (simp add: slot_wrs_def Let_def sr f r extra initial_wr_def)
  show "slot_post p v c slot R N = slot_post p v c0 slot R N"
    by (intro ext) (simp add: slot_post_def chain_at_def Let_def sr sel f r extra wrs slot_imm_def slot_extra_def pd
        wr_run_cong [OF f(6) r(1,2)])
qed

lemma same_slot_no_res: "same_slot (no_res comm) comm"
  by (simp add: same_slot_def no_res_def Let_def)

lemma multi_send_posts_res:
  assumes "\<forall>ps q c. v_post_send v ps q c = ncclSuccess" "multi_send_ready (no_res (ss_comm st)) slot R N"
    "distinct (map snd (slot_sel (ss_comm st) slot R N))"
  shows "\<exists>st'. ncclIbMultiSend p v slot st = Some (ncclSuccess, st')
    \<and> ss_posted st' = ss_posted st @ map (slot_post p v (ss_comm st) slot R N)
        (filter (\<lambda>j. \<not> piece_sent (sc_base (ss_comm st)) (slot_reqs (ss_comm st) slot R) (snd (slot_sel (ss_comm st) slot R N ! j))) [0..<N])
    \<and> same_view (sc_base (ss_comm st')) (sc_base (ss_comm st))"
proof -
  define comm where "comm = ss_comm st"
  note same = same_slot_posts [OF same_slot_no_res [of comm]]
  have ready: "multi_send_ready (no_res comm) slot R N" using assms(2) by (simp add: comm_def)
  note rr = multi_send_ready_reqs [OF ready, unfolded same]
  have h: "0 < R" "R \<le> NCCL_NET_IB_MAX_RECVS" "sint (sf_nreqs (sc_ctsFifo comm ! slot ! 0)) = int R" "\<forall>r < R. sc_sendReqs comm ! slot ! r \<noteq> None"
    "N \<le> NCCL_IB_MAX_QPS" "ncclIbCommBaseGetNqpsPerRequest (sc_base comm) = Inr (int N)"
    "select_qps (sc_base comm) (rq_id (reqs (sc_base comm) ! (slot_reqs comm slot R ! 0))) [0..<N] = Inr (slot_sel comm slot R N)"
    "\<forall>qk \<in> set (slot_sel comm slot R N). qp_indices_ok (sc_base comm) qk"
    using ready unfolding multi_send_ready_def same by (simp_all add: no_res_def qp_indices_ok_def)
  have rr2: "sc_sendReqs comm ! slot ! 0 = Some (slot_reqs comm slot R ! 0)" using rr(2) by (simp add: no_res_def)
  have guards: "(int R > int NCCL_NET_IB_MAX_RECVS) = False" "(int N > int NCCL_IB_MAX_QPS) = False"
    "(int R \<le> 0 \<or> (\<exists>r < R. sc_sendReqs comm ! slot ! r = None)) = False"
    using h(1,2,4,5) by auto
  have "ncclIbMultiSend p v slot st
      = send_loop v slot (sc_ctsFifo comm ! slot) (slot_reqs comm slot R) (rq_weights (reqs (sc_base comm) ! (slot_reqs comm slot R ! 0)))
          (qps_per_dev (sc_base comm) (slot_sel comm slot R N)) (slot_sel comm slot R N) (slot_wrs p comm slot R (slot_imm comm slot R))
          (replicate R 0) (slot_extra p comm slot R) st"
    unfolding ncclIbMultiSend_def Let_def comm_def [symmetric] h(3) h(6) chk_val_simps rr2 option.case nat_int h(7) guards if_False
    by (simp only: slot_wrs_def slot_imm_def slot_extra_def Let_def slot_reqs_def [symmetric])
  then show ?thesis
    using send_loop_posts_res [OF assms(1) h(8) comm_def [symmetric] assms(3) [folded comm_def], where slot = slot and slots = "sc_ctsFifo comm ! slot"
        and ids = "slot_reqs comm slot R" and ws = "rq_weights (reqs (sc_base comm) ! (slot_reqs comm slot R ! 0))"
        and perDev = "qps_per_dev (sc_base comm) (slot_sel comm slot R N)" and wrs = "slot_wrs p comm slot R (slot_imm comm slot R)"
        and offs = "replicate R 0" and extra = "slot_extra p comm slot R"] rr(3)
    unfolding slot_post_def comm_def [symmetric] by auto
qed

section \<open>Preparing the replay\<close>

text \<open>What the repost does to one request: a piece that has not arrived is marked unsent and expects a completion on the device of its active queue pair.\<close>

definition repost_piece :: "ncclIbQp list \<Rightarrow> nat \<times> nat \<Rightarrow> ncclIbRequest \<Rightarrow> ncclIbRequest" where
  "repost_piece qs qk req =
     (let d = nat (qp_devIndex (qs ! fst qk)) in
      req\<lparr> rq_sentData := (rq_sentData req)[snd qk := False], rq_events := (rq_events req)[d := rq_events req ! d + 1],
           rq_devBases := (rq_devBases req)[d := True] \<rparr>)"

definition repost_req :: "ncclIbQp list \<Rightarrow> bool list \<Rightarrow> (nat \<times> nat) list \<Rightarrow> ncclIbRequest \<Rightarrow> ncclIbRequest" where
  "repost_req qs results sel req = fold (repost_piece qs) (filter (\<lambda>qk. \<not> results ! snd qk) sel) req"

lemma repost_piece_fields [simp]:
  "rq_id (repost_piece qs qk req) = rq_id req" "rq_size (repost_piece qs qk req) = rq_size req" "rq_lkeys (repost_piece qs qk req) = rq_lkeys req"
  "rq_data (repost_piece qs qk req) = rq_data req" "rq_weights (repost_piece qs qk req) = rq_weights req" "rq_type (repost_piece qs qk req) = rq_type req"
  "rq_nreqs (repost_piece qs qk req) = rq_nreqs req"
  by (simp_all add: repost_piece_def Let_def)

lemma repost_req_fields [simp]:
  "rq_id (repost_req qs results sel req) = rq_id req" "rq_size (repost_req qs results sel req) = rq_size req"
  "rq_lkeys (repost_req qs results sel req) = rq_lkeys req" "rq_data (repost_req qs results sel req) = rq_data req"
  "rq_weights (repost_req qs results sel req) = rq_weights req"
  unfolding repost_req_def
  by (induction sel arbitrary: req; simp)+

lemma repost_req_events:
  assumes "d < length (rq_events req)" "\<forall>qk \<in> set sel. nat (qp_devIndex (qs ! fst qk)) < length (rq_events req)"
  shows "rq_events (repost_req qs results sel req) ! d
    = rq_events req ! d + int (length (filter (\<lambda>qk. \<not> results ! snd qk \<and> nat (qp_devIndex (qs ! fst qk)) = d) sel))"
  using assms
proof (induction sel arbitrary: req)
  case (Cons qk sel)
  show ?case
  proof (cases "results ! snd qk")
    case True
    then show ?thesis using Cons by (simp add: repost_req_def)
  next
    case False
    have "rq_events (repost_req qs results (qk # sel) req) ! d = rq_events (repost_req qs results sel (repost_piece qs qk req)) ! d"
      using False by (simp add: repost_req_def)
    also have "\<dots> = rq_events (repost_piece qs qk req) ! d + int (length (filter (\<lambda>qk. \<not> results ! snd qk \<and> nat (qp_devIndex (qs ! fst qk)) = d) sel))"
      using Cons.prems by (intro Cons.IH) (simp_all add: repost_piece_def Let_def)
    finally show ?thesis using False Cons.prems by (auto simp: repost_piece_def Let_def nth_list_update)
  qed
qed (simp add: repost_req_def)

lemma repost_req_sent:
  assumes "k < length (rq_sentData req)"
  shows "rq_sentData (repost_req qs results sel req) ! k \<longleftrightarrow> rq_sentData req ! k \<and> (k \<in> snd ` set sel \<longrightarrow> results ! k)"
  using assms
proof (induction sel arbitrary: req)
  case (Cons qk sel)
  show ?case
  proof (cases "results ! snd qk")
    case True
    then show ?thesis using Cons by (auto simp: repost_req_def)
  next
    case False
    have "rq_sentData (repost_req qs results (qk # sel) req) ! k = rq_sentData (repost_req qs results sel (repost_piece qs qk req)) ! k"
      using False by (simp add: repost_req_def)
    also have "\<dots> \<longleftrightarrow> rq_sentData (repost_piece qs qk req) ! k \<and> (k \<in> snd ` set sel \<longrightarrow> results ! k)"
      using Cons.prems by (intro Cons.IH) (simp add: repost_piece_def Let_def)
    finally show ?thesis using False Cons.prems by (cases "k = snd qk") (auto simp: repost_piece_def Let_def)
  qed
qed (simp add: repost_req_def)

lemma upd_base_set_req [simp]:
  "upd_base (set_req i y) (upd_base (set_req i x) st) = upd_base (set_req i y) st"
  by (simp add: upd_base_def set_req_def)

lemma repost_qps_eq:
  assumes "select_qps (sc_base (ss_comm st)) (rq_id (reqs (sc_base (ss_comm st)) ! i)) js = Inr sel"
    "\<forall>qk \<in> set sel. qp_indices_ok (sc_base (ss_comm st)) qk" "i < length (reqs (sc_base (ss_comm st)))"
  shows "repost_qps results i js st
    = Some (ncclSuccess, upd_base (set_req i (repost_req (qps (sc_base (ss_comm st))) results sel (reqs (sc_base (ss_comm st)) ! i))) st)"
  using assms
proof (induction js arbitrary: st sel)
  case Nil
  then show ?case by (simp add: ret_def repost_req_def upd_base_def set_req_def)
next
  case (Cons j js)
  define b req where "b = sc_base (ss_comm st)" and "req = reqs b ! i"
  obtain qk sel' where g: "ncclIbCommBaseGetQpForRequest b (rq_id req) (word_of_nat j) = Inr qk" and s': "select_qps b (rq_id req) js = Inr sel'" and sel: "sel = qk # sel'"
    using Cons.prems(1) by (auto simp: b_def req_def split: sum.splits)
  obtain q k where qk: "qk = (q, k)" by (cases qk)
  have ok: "qp_indices_ok b (q, k)" using Cons.prems(2) by (simp add: sel qk b_def)
  show ?case
  proof (cases "results ! k")
    case True
    then have "repost_qps results i (j # js) st = repost_qps results i js st" using g unfolding qk b_def req_def by (simp add: Let_def)
    then show ?thesis using Cons.IH [of st sel'] Cons.prems s' True unfolding b_def req_def by (simp add: sel qk repost_req_def)
  next
    case False
    define st1 where "st1 = upd_base (set_req i (repost_piece (qps b) qk req)) st"
    have add: "ncclIbAddEvent (req\<lparr> rq_sentData := (rq_sentData req)[k := False] \<rparr>) (qp_devIndex (qps b ! q)) = Some (repost_piece (qps b) qk req)"
      using ok by (simp add: ncclIbAddEvent_def qp_indices_ok_def repost_piece_def Let_def qk)
    have step: "repost_qps results i (j # js) st = repost_qps results i js st1"
      using g add False unfolding qk b_def req_def st1_def by (simp add: Let_def)
    have st1: "qps (sc_base (ss_comm st1)) = qps b" "reqs (sc_base (ss_comm st1)) ! i = repost_piece (qps b) qk req" "length (reqs (sc_base (ss_comm st1))) = length (reqs b)"
      using Cons.prems(3) by (simp_all add: st1_def upd_base_def set_req_def b_def)
    have "select_qps (sc_base (ss_comm st1)) (rq_id (reqs (sc_base (ss_comm st1)) ! i)) js = Inr sel'"
      unfolding st1(2) using s' by (simp add: st1_def upd_base_def set_req_def b_def [symmetric])
    moreover have "\<forall>qk \<in> set sel'. qp_indices_ok (sc_base (ss_comm st1)) qk"
      using Cons.prems(2) by (simp add: sel qp_indices_ok_def st1(1) b_def)
    ultimately have "repost_qps results i js st1 = Some (ncclSuccess, upd_base (set_req i (repost_req (qps b) results sel' (repost_piece (qps b) qk req))) st1)"
      using Cons.IH [of st1 sel'] Cons.prems(3) st1 by (simp add: b_def)
    then show ?thesis using step False by (simp add: st1_def sel qk repost_req_def b_def req_def)
  qed
qed

lemma repost_reqs_eq:
  assumes "\<forall>i \<in> set ids. i < length (reqs (sc_base (ss_comm st))) \<and> rq_id (reqs (sc_base (ss_comm st)) ! i) = rid"
    "ncclIbCommBaseGetNqpsPerRequest (sc_base (ss_comm st)) = Inr (int N)" "select_qps (sc_base (ss_comm st)) rid [0..<N] = Inr sel"
    "\<forall>qk \<in> set sel. qp_indices_ok (sc_base (ss_comm st)) qk" "distinct ids"
  shows "\<exists>rs. repost_reqs results (map Some ids) st = Some (ncclSuccess, upd_base (\<lambda>b. b\<lparr> reqs := rs \<rparr>) st) \<and> length rs = length (reqs (sc_base (ss_comm st)))
    \<and> (\<forall>i. rs ! i = (if i \<in> set ids then repost_req (qps (sc_base (ss_comm st))) results sel (clear_events (reqs (sc_base (ss_comm st)) ! i))
                     else reqs (sc_base (ss_comm st)) ! i))"
  using assms
proof (induction ids arbitrary: st)
  case Nil
  then show ?case by (intro exI [of _ "reqs (sc_base (ss_comm st))"]) (simp add: ret_def upd_base_def)
next
  case (Cons i ids)
  define b where "b = sc_base (ss_comm st)"
  define st1 where "st1 = upd_base (set_req i (clear_events (reqs b ! i))) st"
  define new where "new = repost_req (qps b) results sel (clear_events (reqs b ! i))"
  define st2 where "st2 = upd_base (set_req i new) st"
  have i: "i < length (reqs b)" "rq_id (reqs b ! i) = rid" "i \<notin> set ids" "distinct ids" using Cons.prems(1,5) by (simp_all add: b_def)
  have b1: "sc_base (ss_comm st1) = b\<lparr> reqs := (reqs b)[i := clear_events (reqs b ! i)] \<rparr>" by (simp add: st1_def upd_base_def set_req_def b_def)
  have st1': "upd_base (\<lambda>b. set_req i (clear_events (reqs b ! i)) b) st = st1" by (simp add: st1_def upd_base_def b_def)
  have n1: "ncclIbCommBaseGetNqpsPerRequest (sc_base (ss_comm st1)) = Inr (int N)" using Cons.prems(2) by (simp add: b1 b_def [symmetric])
  have st12: "upd_base (set_req i new) st1 = st2" by (simp add: st1_def st2_def)
  have "repost_qps results i [0..<N] st1 = Some (ncclSuccess, upd_base (set_req i new) st1)"
    using repost_qps_eq [of st1 i "[0..<N]" sel results] Cons.prems(3,4) i
    unfolding b1 by (simp add: new_def clear_events_def b_def [symmetric] qp_indices_ok_def)
  then have step: "repost_reqs results (map Some (i # ids)) st = repost_reqs results (map Some ids) st2"
    unfolding list.map repost_reqs.simps st1' Let_def n1 chk_val_simps nat_int by (simp add: st12)
  have b2: "sc_base (ss_comm st2) = b\<lparr> reqs := (reqs b)[i := new] \<rparr>" by (simp add: st2_def upd_base_def set_req_def b_def)
  have ids: "\<forall>j \<in> set ids. j < length (reqs b) \<and> rq_id (reqs b ! j) = rid \<and> j \<noteq> i" using Cons.prems(1) i(3) by (auto simp: b_def)
  have prem: "\<forall>j \<in> set ids. j < length (reqs (sc_base (ss_comm st2))) \<and> rq_id (reqs (sc_base (ss_comm st2)) ! j) = rid"
    "ncclIbCommBaseGetNqpsPerRequest (sc_base (ss_comm st2)) = Inr (int N)" "select_qps (sc_base (ss_comm st2)) rid [0..<N] = Inr sel"
    "\<forall>qk \<in> set sel. qp_indices_ok (sc_base (ss_comm st2)) qk"
    using Cons.prems(2-4) ids unfolding b2 by (auto simp: b_def [symmetric] qp_indices_ok_def)
  obtain rs where rs: "repost_reqs results (map Some ids) st2 = Some (ncclSuccess, upd_base (\<lambda>b. b\<lparr> reqs := rs \<rparr>) st2)" "length rs = length (reqs b)"
    "\<forall>j. rs ! j = (if j \<in> set ids then repost_req (qps b) results sel (clear_events (reqs (sc_base (ss_comm st2)) ! j)) else reqs (sc_base (ss_comm st2)) ! j)"
    using Cons.IH [OF prem i(4)] unfolding b2 by auto
  have "rs ! j = (if j \<in> set (i # ids) then repost_req (qps b) results sel (clear_events (reqs b ! j)) else reqs b ! j)" for j
    using rs(3) i(1,3) unfolding b2 by (cases "j = i") (auto simp: new_def)
  moreover have "upd_base (\<lambda>b. b\<lparr> reqs := rs \<rparr>) st2 = upd_base (\<lambda>b. b\<lparr> reqs := rs \<rparr>) st" by (simp add: st2_def upd_base_def set_req_def)
  ultimately show ?case using step rs(1,2) by (auto simp: b_def)
qed

text \<open>
  \<open>replay_ready s slot is N\<close>: the slot holds the requests \<open>is\<close> of one multi-send on a communicator with a context, all with the id of the slot, and every piece of it has been posted once.
\<close>

definition replay_ready :: "res_send_st \<Rightarrow> nat \<Rightarrow> nat list \<Rightarrow> nat \<Rightarrow> bool" where
  "replay_ready s slot ids N \<longleftrightarrow>
     (let comm = ss_comm (rss_st s); b = sc_base comm; R = length ids in
      resiliency b \<and> multi_send_ready (no_res comm) slot R N \<and> take R (sc_sendReqs comm ! slot) = map Some ids \<and> distinct ids
      \<and> distinct (map snd (slot_sel comm slot R N))
      \<and> (\<forall>i \<in> set ids. i < length (reqs b) \<and> rq_type (reqs b ! i) = REQ_SEND \<and> rq_nreqs (reqs b ! i) = int R \<and> rq_id (reqs b ! i) = rq_id (reqs b ! (ids ! 0))
           \<and> req_slot (reqs b ! i) = slot \<and> length (rq_sentData (reqs b ! i)) = NCCL_IB_MAX_QPS
           \<and> (\<forall>qk \<in> set (slot_sel comm slot R N). snd qk < NCCL_IB_MAX_QPS \<and> rq_sentData (reqs b ! i) ! snd qk)))"

lemma same_slot_ready:
  assumes "same_slot c c0"
  shows "multi_send_ready (no_res c) slot R N = multi_send_ready (no_res c0) slot R N"
proof -
  note ss = same_slot_posts [OF same_slot_no_res [of c]] same_slot_posts [OF same_slot_no_res [of c0]] same_slot_posts [OF assms]
  have c: "c = c0\<lparr> sc_base := (sc_base c0)\<lparr> reqs := reqs (sc_base c), resiliency := resiliency (sc_base c) \<rparr> \<rparr>"
    and r: "rq_size (reqs (sc_base c) ! i) = rq_size (reqs (sc_base c0) ! i)"
      "rq_id (reqs (sc_base c) ! i) = rq_id (reqs (sc_base c0) ! i)" "rq_weights (reqs (sc_base c) ! i) = rq_weights (reqs (sc_base c0) ! i)" for i
    using assms by (auto simp: same_slot_def Let_def)
  have f: "sc_sendReqs c = sc_sendReqs c0" "sc_ctsFifo c = sc_ctsFifo c0" "qps (sc_base c) = qps (sc_base c0)"
    "ncclIbCommBaseGetNqpsPerRequest (sc_base c) = ncclIbCommBaseGetNqpsPerRequest (sc_base c0)"
    "select_qps (sc_base c) rid js = select_qps (sc_base c0) rid js" for rid js
    by (subst c, simp)+
  have d: "slot_devs (no_res c) slot R N = slot_devs (no_res c0) slot R N"
    unfolding slot_devs_def ss by (simp add: no_res_def f)
  show ?thesis unfolding multi_send_ready_def ss d by (simp add: no_res_def f r qp_indices_ok_def)
qed

lemma filter_nth: "filter P xs = map (nth xs) (filter (\<lambda>j. P (xs ! j)) [0..<length xs])"
proof -
  have "filter P xs = filter P (map (nth xs) [0..<length xs])" by (simp add: map_nth)
  also have "\<dots> = map (nth xs) (filter (P \<circ> nth xs) [0..<length xs])" by (rule filter_map)
  finally show ?thesis by (simp add: comp_def)
qed

lemma clear_all_events_eq:
  assumes "\<forall>i \<in> set ids. i < length (reqs b)"
  shows "\<exists>rs. clear_all_events (map Some ids) b = Some (b\<lparr> reqs := rs \<rparr>) \<and> (\<forall>i \<in> set ids. rq_events (rs ! i) = replicate NCCL_IB_MAX_DEVS_PER_NIC 0)
    \<and> (\<forall>i. rq_events (reqs b ! i) = replicate NCCL_IB_MAX_DEVS_PER_NIC 0 \<longrightarrow> rq_events (rs ! i) = replicate NCCL_IB_MAX_DEVS_PER_NIC 0)"
  using assms
proof (induction ids arbitrary: b)
  case Nil
  then show ?case by (intro exI [of _ "reqs b"]) simp
next
  case (Cons i ids)
  define b1 where "b1 = set_req i (clear_events (reqs b ! i)) b"
  have b1: "reqs b1 ! j = (if j = i then clear_events (reqs b ! i) else reqs b ! j)" "length (reqs b1) = length (reqs b)" for j
    using Cons.prems by (simp_all add: b1_def set_req_def nth_list_update)
  obtain rs where rs: "clear_all_events (map Some ids) b1 = Some (b1\<lparr> reqs := rs \<rparr>)" "\<forall>i \<in> set ids. rq_events (rs ! i) = replicate NCCL_IB_MAX_DEVS_PER_NIC 0"
    "\<forall>i. rq_events (reqs b1 ! i) = replicate NCCL_IB_MAX_DEVS_PER_NIC 0 \<longrightarrow> rq_events (rs ! i) = replicate NCCL_IB_MAX_DEVS_PER_NIC 0"
    using Cons.IH [of b1] Cons.prems b1(2) by auto
  have "b1\<lparr> reqs := rs \<rparr> = b\<lparr> reqs := rs \<rparr>" by (simp add: b1_def set_req_def)
  then show ?case using rs b1(1) by (intro exI [of _ rs]) (auto simp: b1_def clear_events_def)
qed

lemma replay_posts:
  assumes "\<forall>ps q c. v_post_send v ps q c = ncclSuccess" "replay_ready s slot ids N"
    and comm: "comm = ss_comm (rss_st s)" and sel: "sel = slot_sel comm slot (length ids) N"
    and again: "again = filter (\<lambda>j. \<not> results ! snd (sel ! j)) [0..<N]"
  shows "\<exists>st'. chk (repost_reqs results (map Some ids) (rss_st s)) (ncclIbMultiSend p v slot) = Some (ncclSuccess, st')
    \<and> ss_posted st' = ss_posted (rss_st s) @ map (slot_post p v comm slot (length ids) N) again
    \<and> (\<forall>i \<in> set ids. \<forall>d < NCCL_IB_MAX_DEVS_PER_NIC. rq_events (reqs (sc_base (ss_comm st')) ! i) ! d
         = int (length (filter (\<lambda>j. nat (qp_devIndex (qps (sc_base comm) ! fst (sel ! j))) = d) again)))"
proof -
  define R b where "R = length ids" and "b = sc_base comm"
  have h: "resiliency b" "multi_send_ready (no_res comm) slot R N" "take R (sc_sendReqs comm ! slot) = map Some ids" "distinct ids" "distinct (map snd sel)"
    "\<forall>i \<in> set ids. i < length (reqs b) \<and> rq_id (reqs b ! i) = rq_id (reqs b ! (ids ! 0)) \<and> length (rq_sentData (reqs b ! i)) = NCCL_IB_MAX_QPS
       \<and> (\<forall>qk \<in> set sel. snd qk < NCCL_IB_MAX_QPS \<and> rq_sentData (reqs b ! i) ! snd qk)"
    using assms(2) by (auto simp: replay_ready_def Let_def comm sel R_def b_def)
  note ss = same_slot_posts [OF same_slot_no_res [of comm]]
  have ids: "slot_reqs comm slot R = ids" using h(3) by (simp add: slot_reqs_def comp_def)
  have R: "0 < R" and nq: "ncclIbCommBaseGetNqpsPerRequest b = Inr (int N)" and sq: "select_qps b (rq_id (reqs b ! (ids ! 0))) [0..<N] = Inr sel"
    and ok: "\<forall>qk \<in> set sel. qp_indices_ok b qk"
    using h(2) unfolding multi_send_ready_def ss ids by (simp_all add: no_res_def b_def sel R_def qp_indices_ok_def)
  have len: "length sel = N" using multi_send_ready_reqs(3) [OF h(2)] unfolding ss by (simp add: sel R_def)
  have bs: "sc_base (ss_comm (rss_st s)) = b" by (simp add: b_def comm)
  obtain rs where rs: "repost_reqs results (map Some ids) (rss_st s) = Some (ncclSuccess, upd_base (\<lambda>b. b\<lparr> reqs := rs \<rparr>) (rss_st s))"
    "\<forall>i. rs ! i = (if i \<in> set ids then repost_req (qps b) results sel (clear_events (reqs b ! i)) else reqs b ! i)"
    using repost_reqs_eq [of ids "rss_st s" "rq_id (reqs b ! (ids ! 0))" N sel results] h(4,6) nq sq ok unfolding bs by blast
  define st1 where "st1 = upd_base (\<lambda>b. b\<lparr> reqs := rs \<rparr>) (rss_st s)"
  have c1: "ss_comm st1 = comm\<lparr> sc_base := b\<lparr> reqs := rs \<rparr> \<rparr>" "ss_posted st1 = ss_posted (rss_st s)" by (simp_all add: st1_def upd_base_def comm b_def)
  have same: "same_slot (ss_comm st1) comm" using rs(2) by (simp add: same_slot_def c1 b_def Let_def clear_events_def)
  note ss1 = same_slot_posts [OF same]
  have i0: "ids ! 0 \<in> set ids" using R by (simp add: R_def)
  have sent: "piece_sent (sc_base (ss_comm st1)) ids (snd (sel ! j)) = results ! snd (sel ! j)" if "j < N" for j
  proof -
    have "sel ! j \<in> set sel" using that len by simp
    then have k: "snd (sel ! j) < NCCL_IB_MAX_QPS" "rq_sentData (reqs b ! (ids ! 0)) ! snd (sel ! j)" "snd (sel ! j) \<in> snd ` set sel"
      using h(6) i0 by auto
    then show ?thesis
      using repost_req_sent [of "snd (sel ! j)" "clear_events (reqs b ! (ids ! 0))"] h(1,6) i0 rs(2) by (simp add: piece_sent_def c1 clear_events_def)
  qed
  have again': "filter (\<lambda>j. \<not> piece_sent (sc_base (ss_comm st1)) ids (snd (sel ! j))) [0..<N] = again"
    unfolding again by (rule filter_cong [OF refl]) (simp add: sent)
  obtain st' where st': "ncclIbMultiSend p v slot st1 = Some (ncclSuccess, st')"
    "ss_posted st' = ss_posted (rss_st s) @ map (slot_post p v comm slot R N) again" "same_view (sc_base (ss_comm st')) (sc_base (ss_comm st1))"
    using multi_send_posts_res [OF assms(1), of st1 slot R N p] same_slot_ready [OF same, of slot R N] h(2,5) again'
    unfolding ss1 ids sel R_def [symmetric] c1(2) by auto
  have "rq_events (reqs (sc_base (ss_comm st')) ! i) ! d = int (length (filter (\<lambda>j. nat (qp_devIndex (qps b ! fst (sel ! j))) = d) again))"
    if i: "i \<in> set ids" and d: "d < NCCL_IB_MAX_DEVS_PER_NIC" for i d
  proof -
    have "rq_events (reqs (sc_base (ss_comm st')) ! i) = rq_events (repost_req (qps b) results sel (clear_events (reqs b ! i)))"
      using st'(3) rs(2) i by (simp add: same_view_def c1)
    also have "\<dots> ! d = int (length (filter (\<lambda>qk. \<not> results ! snd qk \<and> nat (qp_devIndex (qps b ! fst qk)) = d) sel))"
      using repost_req_events [of d "clear_events (reqs b ! i)" sel "qps b" results] d ok by (force simp: clear_events_def qp_indices_ok_def)
    also have "\<dots> = int (length (filter (\<lambda>j. nat (qp_devIndex (qps b ! fst (sel ! j))) = d) again))"
      by (subst filter_nth) (simp add: again len conj_commute)
    finally show ?thesis .
  qed
  then show ?thesis using st' rs(1) by (simp add: st1_def R_def b_def)
qed

text \<open>C6 replay sends what is missing and nothing else: when the probe of a failed send has come back and some piece has not arrived, the send is posted again on exactly the
  pieces the receiver has not marked, each the same piece of the message as before but on the queue pair that is active now, and every request of the slot then expects one completion per piece on the device it was
  posted on. When every piece has arrived nothing is posted, and the requests expect no completion: they are complete.\<close>

theorem replay_selective:
  assumes "\<forall>ps q c. v_post_send v ps q c = ncclSuccess" "replay_ready s slot ids N"
    and fr: "fr_request (failedRequests (rss_ctx s) ! fslot) = Some i" "i \<in> set ids"
    and comm: "comm = ss_comm (rss_st s)" and sel: "sel = slot_sel comm slot (length ids) N" and results: "results = probingResults (rss_ctx s) ! slot"
    and again: "again = filter (\<lambda>j. \<not> results ! snd (sel ! j)) [0..<N]"
    and sent: "\<forall>k < NCCL_IB_MAX_QPS. rq_sentData (reqs (sc_base comm) ! i) ! k \<longrightarrow> k \<in> snd ` set sel"
  shows "\<exists>s'. ncclIbResiliencyHandleProbeCompleted p v fslot s = Some (ncclSuccess, s')
    \<and> ss_posted (rss_st s') = ss_posted (rss_st s) @ map (slot_post p v comm slot (length ids) N) again
    \<and> (\<forall>i \<in> set ids. \<forall>d < NCCL_IB_MAX_DEVS_PER_NIC. rq_events (reqs (send_base s') ! i) ! d
         = int (length (filter (\<lambda>j. nat (qp_devIndex (qps (sc_base comm) ! fst (sel ! j))) = d) again)))"
proof -
  define b where "b = sc_base comm"
  have bs: "send_base s = b" by (simp add: send_base_def b_def comm)
  have h: "multi_send_ready (no_res comm) slot (length ids) N" "take (length ids) (sc_sendReqs comm ! slot) = map Some ids"
    "\<forall>i \<in> set ids. i < length (reqs b)" "rq_type (reqs b ! i) = REQ_SEND" "rq_nreqs (reqs b ! i) = int (length ids)" "req_slot (reqs b ! i) = slot"
    "\<forall>qk \<in> set sel. snd qk < NCCL_IB_MAX_QPS \<and> rq_sentData (reqs b ! i) ! snd qk"
    using assms(2) fr(2) by (auto simp: replay_ready_def Let_def comm sel b_def)
  have row: "\<not> length (sc_sendReqs comm ! slot) < length ids" using h(1) by (auto simp: multi_send_ready_def no_res_def)
  have len: "length sel = N" using multi_send_ready_reqs(3) [OF h(1)] unfolding same_slot_posts [OF same_slot_no_res] by (simp add: sel)
  have missing: "missing_data (reqs b ! i) results \<longleftrightarrow> again \<noteq> []"
  proof
    assume "missing_data (reqs b ! i) results"
    then obtain k where k: "k < NCCL_IB_MAX_QPS" "rq_sentData (reqs b ! i) ! k" "\<not> results ! k" by (auto simp: missing_data_def)
    then obtain j where "j < N" "snd (sel ! j) = k" using sent len unfolding b_def by (metis imageE in_set_conv_nth)
    then have "j \<in> set again" using k(3) by (simp add: again)
    then show "again \<noteq> []" by auto
  next
    assume "again \<noteq> []"
    then obtain j where "j \<in> set again" by (cases again) auto
    then have "j < N" "\<not> results ! snd (sel ! j)" by (auto simp: again)
    moreover from this have "sel ! j \<in> set sel" using len by simp
    ultimately show "missing_data (reqs b ! i) results" using h(7) by (auto simp: missing_data_def)
  qed
  have pc: "ncclIbResiliencyHandleProbeCompleted p v fslot s =
      (if again \<noteq> [] then on_send_st (\<lambda>st. chk (repost_reqs results (map Some ids) st) (ncclIbMultiSend p v slot)) s
       else deref (clear_all_events (map Some ids) b) (\<lambda>b1. ret ncclSuccess (s\<lparr> rss_st := upd_base (\<lambda>_. b1) (rss_st s) \<rparr>)))"
    unfolding ncclIbResiliencyHandleProbeCompleted_def ncclIbResiliencyRepostRequest_send_def fr(1) deref_simps Let_def bs h(6) results [symmetric] missing
      comm [symmetric] h(5) nat_int h(2) h(4)
    by (simp add: row)
  show ?thesis
  proof (cases "again = []")
    case True
    obtain rs where rs: "clear_all_events (map Some ids) b = Some (b\<lparr> reqs := rs \<rparr>)" "\<forall>i \<in> set ids. rq_events (rs ! i) = replicate NCCL_IB_MAX_DEVS_PER_NIC 0"
      using clear_all_events_eq [OF h(3)] by blast
    then show ?thesis using True by (simp add: pc ret_def send_base_def upd_base_def)
  next
    case False
    then show ?thesis using replay_posts [OF assms(1,2) comm sel again, of p] unfolding pc by (auto simp: on_send_st_def send_base_def)
  qed
qed

section \<open>An example\<close>

text \<open>The two pieces of the example message have been posted; the second has arrived.\<close>

definition example_failed_comm :: ncclIbSendComm where
  "example_failed_comm = (let comm = ss_comm (example_send [80, 20]); b = sc_base comm in
     comm\<lparr> sc_base := b\<lparr> resiliency := True, reqs := [(reqs b ! 0)\<lparr> rq_sentData := [True, True] @ replicate 126 False \<rparr>] \<rparr> \<rparr>)"

definition example_failed :: res_send_st where
  "example_failed = \<lparr> rss_st = \<lparr> ss_comm = example_failed_comm, ss_posted = [], ss_request = None \<rparr>,
     rss_ctx = \<lparr> rsend_base = zero_resiliency, failedRequests = [zero_failed\<lparr> fr_state := RequestStateProbeCompleted, fr_request := Some 0, fr_id := 1 \<rparr>],
       probingResults = [[False, True]], remCmplRecordsInfo = [] \<rparr>, rss_probes = [] \<rparr>"

lemma example_failed_same: "same_slot example_failed_comm (ss_comm (example_send [80, 20]))"
  by (simp add: same_slot_def example_failed_comm_def Let_def example_send_def nth_Cons split: nat.split)

lemma example_failed_ready: "replay_ready example_failed 0 [0] 2"
proof -
  have "no_res (ss_comm (example_send [80, 20])) = ss_comm (example_send [80, 20])" by (simp add: no_res_def example_send_def zero_base_def)
  then have "multi_send_ready (no_res example_failed_comm) 0 1 2"
    using same_slot_ready [OF example_failed_same] example_send_ready [of "[80, 20]"] by simp
  moreover have "slot_sel example_failed_comm 0 (Suc 0) 2 = [(0, 0), (1, 1)]"
    using same_slot_posts(2) [OF example_failed_same, of 0 1 2] example_slot(2) [of "[80, 20]"] by simp
  moreover have "resiliency (sc_base example_failed_comm)" "take 1 (sc_sendReqs example_failed_comm ! 0) = [Some 0]"
    "reqs (sc_base example_failed_comm) = [zero_request\<lparr> rq_type := REQ_SEND, rq_nreqs := 1, rq_size := 1000, rq_data := 4096, rq_weights := [80, 20],
       rq_sentData := [True, True] @ replicate 126 False \<rparr>]"
    by (simp_all add: example_failed_comm_def example_send_def)
  ultimately show ?thesis
    by (simp add: replay_ready_def example_failed_def req_slot_def zero_request_def NCCL_IB_MAX_QPS_def max_requests)
qed

theorem replay_selective_witness:
  "\<exists>s'. ncclIbResiliencyHandleProbeCompleted default_params example_verbs 0 example_failed = Some (ncclSuccess, s')
    \<and> ss_posted (rss_st s') = [slot_post default_params example_verbs example_failed_comm 0 1 2 0]
    \<and> rq_events (reqs (send_base s') ! 0) ! 0 = 1"
proof -
  have sel: "slot_sel example_failed_comm 0 (Suc 0) 2 = [(0, 0), (1, 1)]"
    using same_slot_posts(2) [OF example_failed_same, of 0 1 2] example_slot(2) [of "[80, 20]"] by simp
  have comm: "ss_comm (rss_st example_failed) = example_failed_comm" "ss_posted (rss_st example_failed) = []" by (simp_all add: example_failed_def)
  have qp: "qp_devIndex (qps (sc_base example_failed_comm) ! 0) = 0" by (simp add: example_failed_comm_def example_send_def zero_qp_def Let_def)
  have again: "filter (\<lambda>j. \<not> [False, True] ! snd ([(0, 0), (1, 1)] ! j :: nat \<times> nat)) [0..<2] = [0]" by (simp add: upt_two)
  have sent: "k \<in> {0, 1}" if "k < 128" "([True, True] @ replicate 126 False) ! k" for k
    using that by (auto simp: nth_append nth_Cons split: if_splits nat.splits)
  have req: "reqs (sc_base example_failed_comm) ! 0 = zero_request\<lparr> rq_type := REQ_SEND, rq_nreqs := 1, rq_size := 1000, rq_data := 4096, rq_weights := [80, 20],
       rq_sentData := [True, True] @ replicate 126 False \<rparr>"
    by (simp add: example_failed_comm_def example_send_def Let_def)
  have h: "\<forall>k < NCCL_IB_MAX_QPS. rq_sentData (reqs (sc_base (ss_comm (rss_st example_failed))) ! 0) ! k
      \<longrightarrow> k \<in> snd ` set (slot_sel (ss_comm (rss_st example_failed)) 0 (length [0 :: nat]) 2)"
    unfolding comm req using sent by (auto simp: sel NCCL_IB_MAX_QPS_def)
  have fr: "fr_request (failedRequests (rss_ctx example_failed) ! 0) = Some 0" "probingResults (rss_ctx example_failed) ! 0 = [False, True]"
    by (simp_all add: example_failed_def)
  show ?thesis
    using replay_selective [OF example_verbs_ok example_failed_ready fr(1) _ refl refl refl refl h, of default_params]
    unfolding comm fr(2) length_Cons list.size(3) sel again by (auto simp: qp NCCL_IB_MAX_DEVS_PER_NIC_def simp del: filter_filter)
qed

section \<open>Completion over all devices\<close>

lemma split_sum: "sum_list (filter (\<lambda>x. x < 0) xs) + sum_list (filter (\<lambda>x. \<not> x < 0) xs) = sum_list (xs :: int list)"
  by (induction xs) auto

text \<open>C20 when a request is complete although a device failed: if device d expected exp(d) completions and got got(d), some of which stand for
  completions of a failed device, the request is complete as soon as exactly the expected number has arrived in total, on whichever devices; and it is never declared complete while fewer
  have arrived than were expected.\<close>

theorem resilient_completion:
  assumes "rq_events req = map (\<lambda>d. int (expd d) - int (got d)) [0..<NCCL_IB_MAX_DEVS_PER_NIC]" "nat (res_ndevs ctx) \<le> NCCL_IB_MAX_DEVS_PER_NIC"
  defines "n \<equiv> nat (res_ndevs ctx)"
  shows "((\<Sum>d < n. got d) = (\<Sum>d < n. expd d) \<longrightarrow> ncclIbResiliencyRequestIsComplete ctx req)
    \<and> (ncclIbResiliencyRequestIsComplete ctx req \<longrightarrow> (\<Sum>d < n. expd d) \<le> (\<Sum>d < n. got d))"
proof -
  define evs where "evs = take n (rq_events req)"
  define neg pos where "neg = sum_list (filter (\<lambda>x. x < 0) evs)" and "pos = sum_list (filter (\<lambda>x. \<not> x < 0) evs)"
  have evs: "evs = map (\<lambda>d. int (expd d) - int (got d)) [0..<n]"
    using assms(2) by (simp add: evs_def assms(1) take_map n_def min_def)
  have "neg + pos = (\<Sum>d < n. int (expd d) - int (got d))"
    unfolding neg_def pos_def split_sum evs by (simp add: interv_sum_list_conv_sum_set_nat atLeast0LessThan)
  then have "neg + pos = int (\<Sum>d < n. expd d) - int (\<Sum>d < n. got d)" by (simp add: sum_subtractf)
  moreover define E G where "E = (\<Sum>d < n. expd d)" and "G = (\<Sum>d < n. got d)"
  ultimately have total: "neg + pos = int E - int G" by simp
  have "neg \<le> 0" unfolding neg_def by (rule sum_list_nonpos) auto
  moreover have "0 \<le> pos" unfolding pos_def by (rule sum_list_nonneg) auto
  moreover have "ncclIbResiliencyRequestIsComplete ctx req \<longleftrightarrow> pos = 0 \<or> \<bar>neg\<bar> = pos"
    by (simp add: ncclIbResiliencyRequestIsComplete_def Let_def pos_def neg_def evs_def n_def)
  ultimately show ?thesis using total unfolding E_def [symmetric] G_def [symmetric] by auto
qed

theorem resilient_completion_witness:
  "ncclIbResiliencyRequestIsComplete (zero_resiliency\<lparr> res_ndevs := 2 \<rparr>) (zero_request\<lparr> rq_events := [1, -1, 0, 0, 0, 0, 0, 0] \<rparr>)"
proof -
  have "rq_events (zero_request\<lparr> rq_events := [1, -1, 0, 0, 0, 0, 0, 0] \<rparr>)
      = map (\<lambda>d. int (if d < 2 then 2 else 0) - int (if d = 0 then 1 else if d = 1 then 3 else 0)) [0..<NCCL_IB_MAX_DEVS_PER_NIC]"
    by (simp add: NCCL_IB_MAX_DEVS_PER_NIC_def upt_rec)
  from resilient_completion [OF this, of "zero_resiliency\<lparr> res_ndevs := 2 \<rparr>"] show ?thesis
    by (simp add: NCCL_IB_MAX_DEVS_PER_NIC_def sum_two)
qed

end
