(* ===== verification/NetIb_Reg.thy ===== *)
theory NetIb_Reg
  imports NetIb_Common "HOL-Library.Multiset"
begin

text \<open>
  The cache of memory registrations, \<open>net/transport/net_ib/reg.cc\<close>. A device keeps the page ranges it has registered, each with a count of its users; registering a
  range that lies inside one of them only raises its count.

  The verbs library is the record \<open>reg_env\<close>: the page size, what a registration and a deregistration return, and the code of \<open>ncclRealloc\<close>. \<open>population\<close> is the length of the
  list of slots. The lock of the device has no counterpart.
\<close>

unbundle bit_operations_syntax

section \<open>One device\<close>

datatype reg_path = REG_MR | REG_MR_IOVA2 | REG_DMABUF | REG_DMABUF_DATA_DIRECT

record reg_request =
  rr_path :: reg_path
  rr_pd :: nat
  rr_addr :: u64
  rr_len :: u64
  rr_relaxed :: bool
  rr_offset :: u64
  rr_fd :: int

record reg_env =
  pageSize :: u64
  reg_mr :: "reg_request \<Rightarrow> ncclResult + ibv_mr"
  dereg_mr :: "ibv_mr \<Rightarrow> ncclResult"
  realloc_res :: ncclResult

definition page_addr :: "reg_env \<Rightarrow> u64 \<Rightarrow> u64" where
  "page_addr e data = data AND (- pageSize e)"

definition page_count :: "reg_env \<Rightarrow> u64 \<Rightarrow> u64 \<Rightarrow> u64" where
  "page_count e data sz = (data + sz - page_addr e data + pageSize e - 1) div pageSize e"

text \<open>The search: \<open>Inl\<close> the slot where a new range goes, \<open>Inr\<close> the slot that holds the range.\<close>

fun cache_search :: "u64 \<Rightarrow> u64 \<Rightarrow> u64 \<Rightarrow> nat \<Rightarrow> ncclIbMr list \<Rightarrow> nat + nat" where
  "cache_search pg addr pages i [] = Inl i"
| "cache_search pg addr pages i (s # ss) =
     (if addr < mrc_addr s then Inl i
      else if (addr - mrc_addr s) div pg + pages \<le> mrc_pages s then Inr i
      else cache_search pg addr pages (Suc i) ss)"

definition grow :: "ncclIbMrCache \<Rightarrow> int" where
  "grow c = (if cache_capacity c < 32 then 32 else 2 * cache_capacity c)"

definition NCCL_NET_MR_FLAG_FORCE_SO :: u64 where "NCCL_NET_MR_FLAG_FORCE_SO = 1"

definition make_request :: "reg_env \<Rightarrow> ib_globals \<Rightarrow> ncclIbNetCommDevBase \<Rightarrow> ncclIbDev \<Rightarrow> u64 \<Rightarrow> u64 \<Rightarrow> u64 \<Rightarrow> int \<Rightarrow> u64 \<Rightarrow> reg_request" where
  "make_request e g base dev addr pages offset fd mrFlags =
     (let relaxed = (ncclIbRelaxedOrderingEnabled g \<noteq> 0 \<and> mrFlags AND NCCL_NET_MR_FLAG_FORCE_SO = 0);
          dmabuf = (fd \<noteq> -1)
      in \<lparr> rr_path = (if dmabuf then (if dev_dataDirect dev = 0 then REG_DMABUF else REG_DMABUF_DATA_DIRECT) else if relaxed then REG_MR_IOVA2 else REG_MR),
           rr_pd = db_pd base, rr_addr = addr, rr_len = pages * pageSize e, rr_relaxed = relaxed,
           rr_offset = (if dmabuf then offset else 0), rr_fd = fd \<rparr>)"

definition insert_at :: "nat \<Rightarrow> 'a \<Rightarrow> 'a list \<Rightarrow> 'a list" where
  "insert_at i x xs = take i xs @ x # drop i xs"

text \<open>\<open>ncclIbRegMrDmaBufInternal2\<close> on the cache of one device; the handle is written only on success.\<close>

definition cache_reg :: "reg_env \<Rightarrow> reg_request \<Rightarrow> u64 \<Rightarrow> u64 \<Rightarrow> ncclIbMrCache \<Rightarrow> (ncclResult + ibv_mr) \<times> ncclIbMrCache" where
  "cache_reg e rq addr pages c =
     (case cache_search (pageSize e) addr pages 0 (cache_slots c) of
        Inr i \<Rightarrow> (let s = cache_slots c ! i in (Inr (mrc_mr s), c\<lparr> cache_slots := (cache_slots c)[i := s\<lparr> mrc_refs := mrc_refs s + 1 \<rparr>] \<rparr>))
      | Inl i \<Rightarrow>
          (let full = (int (length (cache_slots c)) = cache_capacity c);
               c1 = (if full then c\<lparr> cache_capacity := grow c \<rparr> else c)
           in if full \<and> \<not> nccl_ok (realloc_res e) then (Inl (realloc_res e), c1)
              else (case reg_mr e rq of
                      Inl r \<Rightarrow> (Inl r, c1)
                    | Inr mr \<Rightarrow> (Inr mr, c1\<lparr> cache_slots := insert_at i \<lparr> mrc_addr = addr, mrc_pages = pages, mrc_refs = 1, mrc_mr = mr \<rparr> (cache_slots c) \<rparr>))))"

definition upd_dev :: "nat \<Rightarrow> (ncclIbDev \<Rightarrow> ncclIbDev) \<Rightarrow> ib_globals \<Rightarrow> ib_globals" where
  "upd_dev d f g = g\<lparr> ncclIbDevs := (ncclIbDevs g)[d := f (ncclIbDevs g ! d)] \<rparr>"

definition ncclIbRegMrDmaBufInternal2 ::
  "reg_env \<Rightarrow> ncclIbNetCommDevBase \<Rightarrow> u64 \<Rightarrow> u64 \<Rightarrow> u64 \<Rightarrow> int \<Rightarrow> u64 \<Rightarrow> ib_globals \<Rightarrow> ((ncclResult + ibv_mr) \<times> ib_globals) option" where
  "ncclIbRegMrDmaBufInternal2 e base data sz offset fd mrFlags g =
     deref (at (ncclIbDevs g) (ibDevN base)) (\<lambda>dev.
       if pageSize e = 0 then None
       else (let addr = page_addr e data; pages = page_count e data sz;
                 (r, c) = cache_reg e (make_request e g base dev addr pages offset fd mrFlags) addr pages (dev_mrCache dev)
             in Some (r, upd_dev (nat (ibDevN base)) (\<lambda>dev. dev\<lparr> dev_mrCache := c \<rparr>) g)))"

text \<open>\<open>ncclIbDeregMrInternal\<close> on the cache. The last slot takes the place of the one that is freed.\<close>

fun slot_of :: "nat \<Rightarrow> ncclIbMr list \<Rightarrow> nat option" where
  "slot_of ptr [] = None"
| "slot_of ptr (s # ss) = (if ptr = mr_ptr (mrc_mr s) then Some 0 else map_option Suc (slot_of ptr ss))"

definition remove_slot :: "nat \<Rightarrow> ncclIbMrCache \<Rightarrow> ncclIbMrCache" where
  "remove_slot i c =
     (let ss = cache_slots c; ss1 = butlast (ss[i := last ss])
      in c\<lparr> cache_slots := ss1, cache_capacity := (if ss1 = [] then 0 else cache_capacity c) \<rparr>)"

definition cache_dereg :: "reg_env \<Rightarrow> ibv_mr \<Rightarrow> ncclIbMrCache \<Rightarrow> ncclResult \<times> ncclIbMrCache" where
  "cache_dereg e mr c =
     (case slot_of (mr_ptr mr) (cache_slots c) of
        None \<Rightarrow> (ncclInternalError, c)
      | Some i \<Rightarrow>
         (let s = cache_slots c ! i in
          if mrc_refs s - 1 \<noteq> 0 then (ncclSuccess, c\<lparr> cache_slots := (cache_slots c)[i := s\<lparr> mrc_refs := mrc_refs s - 1 \<rparr>] \<rparr>)
          else (if nccl_ok (dereg_mr e mr) then ncclSuccess else dereg_mr e mr, remove_slot i c)))"

definition ncclIbDeregMrInternal :: "reg_env \<Rightarrow> ncclIbNetCommDevBase \<Rightarrow> ibv_mr \<Rightarrow> ib_globals \<Rightarrow> (ncclResult \<times> ib_globals) option" where
  "ncclIbDeregMrInternal e base mr g =
     deref (at (ncclIbDevs g) (ibDevN base)) (\<lambda>dev.
       let (r, c) = cache_dereg e mr (dev_mrCache dev) in Some (r, upd_dev (nat (ibDevN base)) (\<lambda>dev. dev\<lparr> dev_mrCache := c \<rparr>) g))"

section \<open>All devices of a communicator\<close>

text \<open>\<open>getDev\<close> is \<open>ncclIbGetNetCommDevBase\<close> of the communicator. A handle is the list of the regions, one per device.\<close>

fun reg_devs :: "reg_env \<Rightarrow> (int \<Rightarrow> ncclIbNetCommDevBase option) \<Rightarrow> u64 \<Rightarrow> u64 \<Rightarrow> u64 \<Rightarrow> int \<Rightarrow> u64 \<Rightarrow> nat list \<Rightarrow> ib_globals \<Rightarrow>
    ((ncclResult + ncclIbMrHandle) \<times> ib_globals) option" where
  "reg_devs e getDev data sz offset fd mrFlags [] g = Some (Inr [], g)"
| "reg_devs e getDev data sz offset fd mrFlags (i # is) g =
     deref (getDev (int i)) (\<lambda>base.
     deref (ncclIbRegMrDmaBufInternal2 e base data sz offset fd mrFlags g) (\<lambda>(r, g1).
       case r of
         Inl err \<Rightarrow> Some (Inl err, g1)
       | Inr mr \<Rightarrow> deref (reg_devs e getDev data sz offset fd mrFlags is g1) (\<lambda>(r2, g2).
           Some (case r2 of Inl err \<Rightarrow> Inl err | Inr mrs \<Rightarrow> Inr (mr # mrs), g2))))"

definition ncclIbRegMrDmaBufInternal :: "reg_env \<Rightarrow> (int \<Rightarrow> ncclIbNetCommDevBase option) \<Rightarrow> ncclIbNetCommBase \<Rightarrow> u64 \<Rightarrow> u64 \<Rightarrow> u64 \<Rightarrow> int \<Rightarrow> u64 \<Rightarrow> ib_globals \<Rightarrow>
    ((ncclResult + ncclIbMrHandle) \<times> ib_globals) option" where
  "ncclIbRegMrDmaBufInternal e getDev b data sz offset fd mrFlags g =
     (if sz = 0 then Some (Inl ncclInternalError, g) else reg_devs e getDev data sz offset fd mrFlags [0..<nat (ndevs (vProps b))] g)"

definition ncclIbRegMrDmaBuf :: "reg_env \<Rightarrow> (int \<Rightarrow> ncclIbNetCommDevBase option) \<Rightarrow> ncclIbNetCommBase \<Rightarrow> u64 \<Rightarrow> u64 \<Rightarrow> u64 \<Rightarrow> int \<Rightarrow> ib_globals \<Rightarrow>
    ((ncclResult + ncclIbMrHandle) \<times> ib_globals) option" where
  "ncclIbRegMrDmaBuf e getDev b data sz offset fd g = ncclIbRegMrDmaBufInternal e getDev b data sz offset fd 0 g"

definition ncclIbRegMr :: "reg_env \<Rightarrow> (int \<Rightarrow> ncclIbNetCommDevBase option) \<Rightarrow> ncclIbNetCommBase \<Rightarrow> u64 \<Rightarrow> u64 \<Rightarrow> ib_globals \<Rightarrow>
    ((ncclResult + ncclIbMrHandle) \<times> ib_globals) option" where
  "ncclIbRegMr e getDev b data sz g = ncclIbRegMrDmaBufInternal e getDev b data sz 0 (-1) 0 g"

fun dereg_devs :: "reg_env \<Rightarrow> (int \<Rightarrow> ncclIbNetCommDevBase option) \<Rightarrow> nat list \<Rightarrow> ncclIbMrHandle \<Rightarrow> ib_globals \<Rightarrow> (ncclResult \<times> ib_globals) option" where
  "dereg_devs e getDev [] mh g = Some (ncclSuccess, g)"
| "dereg_devs e getDev (i # is) mh g =
     (if length mh \<le> i then None
      else deref (getDev (int i)) (\<lambda>base. chk (ncclIbDeregMrInternal e base (mh ! i) g) (dereg_devs e getDev is mh)))"

definition ncclIbDeregMr :: "reg_env \<Rightarrow> (int \<Rightarrow> ncclIbNetCommDevBase option) \<Rightarrow> ncclIbNetCommBase \<Rightarrow> ncclIbMrHandle option \<Rightarrow> ib_globals \<Rightarrow> (ncclResult \<times> ib_globals) option" where
  "ncclIbDeregMr e getDev b mhandle g =
     (case mhandle of None \<Rightarrow> Some (ncclSuccess, g) | Some mh \<Rightarrow> dereg_devs e getDev [0..<nat (ndevs (vProps b))] mh g)"

section \<open>The pages of a range\<close>

lemma unat_page:
  assumes "k < 64" "pg = word_of_nat (2 ^ k)"
  shows "unat (pg :: u64) = 2 ^ k"
proof -
  have "(2 :: nat) ^ k < 2 ^ 64" using assms(1) by (rule power_strict_increasing) simp
  then have "take_bit 64 ((2 :: nat) ^ k) = 2 ^ k" by (rule take_bit_nat_eq_self)
  moreover have "unat pg = take_bit 64 ((2 :: nat) ^ k)" unfolding assms(2) unsigned_of_nat by simp
  ultimately show ?thesis by simp
qed

lemma page_addr_unat:
  assumes "pageSize e = word_of_nat (2 ^ k)" "k < 64"
  shows "unat (page_addr e data) = unat data div 2 ^ k * 2 ^ k"
proof -
  have "data AND - (2 ^ k) = push_bit k (drop_bit k data)"
    by (rule bit_word_eqI) (auto simp: bit_simps minus_exp_eq_not_mask bit_not_iff_eq)
  moreover have "unat (data div 2 ^ k * 2 ^ k) = unat data div 2 ^ k * 2 ^ k"
  proof -
    have p: "unat (2 ^ k :: u64) = 2 ^ k" using unat_page [OF assms(2), of "2 ^ k"] by simp
    have "unat data div 2 ^ k * 2 ^ k \<le> unat data" by simp
    moreover have "unat data < 2 ^ 64" using unsigned_less [of data, where ?'a = nat] by simp
    ultimately have "unat data div 2 ^ k * 2 ^ k < 2 ^ 64" by (rule le_less_trans)
    then have "unat (data div 2 ^ k) * unat (2 ^ k :: u64) < 2 ^ 64" unfolding unat_div p .
    then have "unat (data div 2 ^ k * 2 ^ k) = unat (data div 2 ^ k) * unat (2 ^ k :: u64)" by (intro unat_mult_lem [THEN iffD1]) simp
    then show ?thesis unfolding unat_div p .
  qed
  ultimately show ?thesis using assms(1) by (simp add: page_addr_def push_bit_eq_mult drop_bit_eq_div)
qed

text \<open>A range that does not run over the end of the address space, with a page to spare.\<close>

definition range_ok :: "reg_env \<Rightarrow> u64 \<Rightarrow> u64 \<Rightarrow> bool" where
  "range_ok e data sz \<longleftrightarrow> unat data + unat sz + unat (pageSize e) < 2 ^ 64"

lemma page_range:
  assumes "pageSize e = word_of_nat (2 ^ k)" "k < 64" "range_ok e data sz"
  shows "unat (page_addr e data) \<le> unat data"
    and "unat data + unat sz \<le> unat (page_addr e data) + unat (page_count e data sz) * 2 ^ k"
    and "unat (page_addr e data) + unat (page_count e data sz) * 2 ^ k \<le> 2 ^ 64"
    and "2 ^ k dvd unat (page_addr e data)"
    and "unat (page_count e data sz) * 2 ^ k < 2 ^ 64"
proof -
  define p D S A where "p = (2 :: nat) ^ k" and "D = unat data" and "S = unat sz" and "A = unat (page_addr e data)"
  have A: "A = D div p * p" using page_addr_unat [OF assms(1,2)] by (simp add: A_def D_def p_def)
  have p: "0 < p" by (simp add: p_def)
  have pg: "unat (pageSize e) = p" using unat_page [OF assms(2,1)] by (simp add: p_def)
  have AD: "A \<le> D" by (simp add: A)
  have DS: "D + S + p < 2 ^ 64" using assms(3) pg by (simp add: range_ok_def D_def S_def)
  have "unat (data + sz) = D + S" using DS p unfolding D_def S_def by (intro unat_add_lem [THEN iffD1]) simp
  then have u1: "unat (data + sz - page_addr e data) = D + S - A" using AD by (subst unat_sub) (simp_all add: word_le_nat_alt A_def)
  have u2: "unat (data + sz - page_addr e data + pageSize e) = D + S - A + p"
    using DS p AD u1 pg by (subst unat_add_lem [THEN iffD1]) simp_all
  have "unat (data + sz - page_addr e data + pageSize e - 1) = D + S - A + p - 1"
    using p u2 by (subst unat_sub) (simp_all add: word_le_nat_alt)
  then have P: "unat (page_count e data sz) = (D + S - A + p - 1) div p" by (simp add: page_count_def unat_div pg)
  define n where "n = (D + S - A + p - 1) div p"
  have n: "n * p \<le> D + S - A + p - 1" "D + S - A + p - 1 < n * p + p"
    using div_times_less_eq_dividend [of "D + S - A + p - 1" p] dividend_less_div_times [OF p, of "D + S - A + p - 1"]
    unfolding n_def [symmetric] by simp_all
  have P': "unat (page_count e data sz) = n" using P by (simp only: n_def)
  have "D + S \<le> A + n * p" "A + n * p \<le> 2 ^ 64" using n p AD DS by linarith+
  then show "unat data + unat sz \<le> unat (page_addr e data) + unat (page_count e data sz) * 2 ^ k"
    and "unat (page_addr e data) + unat (page_count e data sz) * 2 ^ k \<le> 2 ^ 64"
    unfolding P' by (simp_all only: A_def D_def S_def p_def)
  show "unat (page_addr e data) \<le> unat data" using AD by (simp only: A_def D_def)
  have "n * p < 2 ^ 64" using n p DS by linarith
  then show "unat (page_count e data sz) * 2 ^ k < 2 ^ 64" unfolding P' by (simp only: p_def)
  show "2 ^ k dvd unat (page_addr e data)" by (simp add: page_addr_unat [OF assms(1,2)])
qed

text \<open>A library whose region for a page is numbered by the page.\<close>

definition page_env :: reg_env where
  "page_env = \<lparr> pageSize = 4096, reg_mr = (\<lambda>rq. Inr \<lparr> mr_ptr = 100 + unat (rr_addr rq div 4096), mr_lkey = 0, mr_rkey = 0 \<rparr>), dereg_mr = (\<lambda>_. ncclSuccess), realloc_res = ncclSuccess \<rparr>"

definition page_slot :: "nat \<Rightarrow> u64 \<Rightarrow> ncclIbMr" where
  "page_slot p addr = \<lparr> mrc_addr = addr, mrc_pages = 1, mrc_refs = 1, mrc_mr = \<lparr> mr_ptr = p, mr_lkey = 0, mr_rkey = 0 \<rparr> \<rparr>"

definition page_rq :: "u64 \<Rightarrow> reg_request" where
  "page_rq addr = \<lparr> rr_path = REG_MR, rr_pd = 0, rr_addr = addr, rr_len = 4096, rr_relaxed = False, rr_offset = 0, rr_fd = -1 \<rparr>"

section \<open>What a registration covers\<close>

text \<open>\<open>region\<close> tells the start and the length of the memory a region object was registered for. The library promises it for the regions it returns; the slots record it.\<close>

definition slot_covers :: "nat \<Rightarrow> (nat \<Rightarrow> nat \<times> nat) \<Rightarrow> ncclIbMr \<Rightarrow> bool" where
  "slot_covers k region s \<longleftrightarrow> region (mr_ptr (mrc_mr s)) = (unat (mrc_addr s), unat (mrc_pages s) * 2 ^ k) \<and> 2 ^ k dvd unat (mrc_addr s)
     \<and> unat (mrc_addr s) + unat (mrc_pages s) * 2 ^ k \<le> 2 ^ 64"

definition covers :: "(nat \<Rightarrow> nat \<times> nat) \<Rightarrow> ibv_mr \<Rightarrow> nat \<Rightarrow> nat \<Rightarrow> bool" where
  "covers region mr a b \<longleftrightarrow> (case region (mr_ptr mr) of (start, len) \<Rightarrow> start \<le> a \<and> b \<le> start + len)"

lemma cache_search_hit:
  assumes "cache_search pg addr pages i ss = Inr j"
  shows "i \<le> j \<and> j < i + length ss \<and> mrc_addr (ss ! (j - i)) \<le> addr \<and> (addr - mrc_addr (ss ! (j - i))) div pg + pages \<le> mrc_pages (ss ! (j - i))"
  using assms
proof (induction ss arbitrary: i)
  case (Cons s ss)
  then show ?case by (cases "j = i") (force simp: not_less nth_Cons' split: if_splits)+
qed simp

lemma cache_search_miss: "cache_search pg addr pages i ss = Inl j \<Longrightarrow> i \<le> j \<and> j \<le> i + length ss"
  by (induction ss arbitrary: i) (fastforce split: if_splits)+

lemma hit_covers:
  assumes "slot_covers k region s" "pg = word_of_nat (2 ^ k)" "k < 64" "mrc_addr s \<le> addr" "(addr - mrc_addr s) div pg + pages \<le> mrc_pages s"
    "2 ^ k dvd unat addr" "unat addr + unat pages * 2 ^ k \<le> 2 ^ 64" "0 < k"
  shows "covers region (mrc_mr s) (unat addr) (unat addr + unat pages * 2 ^ k)"
proof -
  define p A B where "p = (2 :: nat) ^ k" and "A = unat addr" and "B = unat (mrc_addr s)"
  have p: "0 < p" "1 < p" using assms(8) one_less_power [of "2 :: nat" k] by (simp_all add: p_def)
  have s: "region (mr_ptr (mrc_mr s)) = (B, unat (mrc_pages s) * p)" "p dvd B" "B + unat (mrc_pages s) * p \<le> 2 ^ 64"
    using assms(1) by (simp_all add: slot_covers_def p_def B_def)
  have pg: "unat pg = p" using unat_page [OF assms(3,2)] by (simp add: p_def)
  have AB: "B \<le> A" using assms(4) by (simp add: A_def B_def word_le_nat_alt)
  have q: "unat ((addr - mrc_addr s) div pg) = (A - B) div p" using assms(4) by (simp add: unat_div unat_sub pg A_def B_def)
  have "p dvd A - B" using s(2) assms(6) by (simp add: A_def p_def)
  then have d: "(A - B) div p * p = A - B" by simp
  have lim: "((A - B) div p + unat pages) * p < 2 ^ 64 * p"
  proof -
    have "((A - B) div p + unat pages) * p = A - B + unat pages * p" using d by (simp add: add_mult_distrib)
    also have "\<dots> \<le> 2 ^ 64" using assms(7) AB by (simp add: A_def p_def)
    also have "\<dots> < 2 ^ 64 * p" using p(2) by simp
    finally show ?thesis .
  qed
  then have "unat ((addr - mrc_addr s) div pg + pages) = (A - B) div p + unat pages"
    unfolding q [symmetric] by (intro unat_add_lem [THEN iffD1]) (simp add: q)
  then have "(A - B) div p + unat pages \<le> unat (mrc_pages s)" using assms(5) by (simp add: word_le_nat_alt)
  then have "((A - B) div p + unat pages) * p \<le> unat (mrc_pages s) * p" by (rule mult_le_mono1)
  then show ?thesis using d AB s(1) by (simp add: covers_def A_def [symmetric] p_def [symmetric] add_mult_distrib)
qed

text \<open>C26 a registration covers what was asked for: for every range that does not run over the end of the address space, the region a device returns, new or
  cached, contains all of the range, and the cache goes on recording the extent of each region correctly. The library returns a region with the extent it was asked for.\<close>

theorem registration_covers:
  assumes "pageSize e = word_of_nat (2 ^ k)" "0 < k" "k < 64" "range_ok e data sz"
    and lib: "\<forall>mr. reg_mr e rq = Inr mr \<longrightarrow> region (mr_ptr mr) = (unat (rr_addr rq), unat (rr_len rq))"
    and rq: "rr_addr rq = page_addr e data" "rr_len rq = page_count e data sz * pageSize e"
    and wf: "\<forall>s \<in> set (cache_slots c). slot_covers k region s"
    and res: "cache_reg e rq (page_addr e data) (page_count e data sz) c = (Inr mr, c')"
  shows "covers region mr (unat data) (unat data + unat sz) \<and> (\<forall>s \<in> set (cache_slots c'). slot_covers k region s)"
proof -
  note pr = page_range [OF assms(1,3,4)]
  have ext: "covers region mr (unat data) (unat data + unat sz)"
    if "covers region mr (unat (page_addr e data)) (unat (page_addr e data) + unat (page_count e data sz) * 2 ^ k)"
    using that pr(1,2) by (auto simp: covers_def)
  show ?thesis
  proof (cases "cache_search (pageSize e) (page_addr e data) (page_count e data sz) 0 (cache_slots c)")
    case (Inr i)
    note hit = cache_search_hit [OF Inr, simplified]
    define s where "s = cache_slots c ! i"
    have s: "slot_covers k region s" using wf hit by (simp add: s_def)
    have c': "mr = mrc_mr s" "c' = c\<lparr> cache_slots := (cache_slots c)[i := s\<lparr> mrc_refs := mrc_refs s + 1 \<rparr>] \<rparr>"
      using res by (simp_all add: cache_reg_def Inr s_def Let_def)
    have "covers region (mrc_mr s) (unat (page_addr e data)) (unat (page_addr e data) + unat (page_count e data sz) * 2 ^ k)"
      using hit_covers [OF s assms(1,3) _ _ pr(4,3) assms(2)] hit by (simp add: s_def)
    moreover have "slot_covers k region (s\<lparr> mrc_refs := x \<rparr>)" for x using s by (simp add: slot_covers_def)
    ultimately show ?thesis using ext wf c' by (auto dest!: set_update_subset_insert [THEN subsetD])
  next
    case (Inl i)
    obtain c1 where r: "reg_mr e rq = Inr mr" and c': "cache_slots c' = insert_at i \<lparr> mrc_addr = page_addr e data, mrc_pages = page_count e data sz, mrc_refs = 1, mrc_mr = mr \<rparr> (cache_slots c)"
      using res by (auto simp: cache_reg_def Inl Let_def split: if_splits sum.splits)
    have "unat (page_count e data sz * pageSize e) = unat (page_count e data sz) * 2 ^ k"
    proof -
      have pg: "unat (pageSize e) = 2 ^ k" by (rule unat_page [OF assms(3,1)])
      show ?thesis using pr(5) unat_mult_lem [THEN iffD1, of "page_count e data sz" "pageSize e"] by (simp add: pg)
    qed
    then have new: "region (mr_ptr mr) = (unat (page_addr e data), unat (page_count e data sz) * 2 ^ k)" using lib r rq by simp
    then have "slot_covers k region \<lparr> mrc_addr = page_addr e data, mrc_pages = page_count e data sz, mrc_refs = x, mrc_mr = mr \<rparr>" for x
      using pr(3,4) by (simp add: slot_covers_def)
    then have "\<forall>s \<in> set (cache_slots c'). slot_covers k region s"
      using wf unfolding c' insert_at_def by (auto dest: in_set_takeD in_set_dropD)
    then show ?thesis using ext new by (simp add: covers_def)
  qed
qed

lemma page_pages: "page_addr page_env 8200 = 8192" "page_count page_env 8200 100 = 1"
  by (simp_all add: page_addr_def page_count_def page_env_def)

lemma page_reg: "cache_reg page_env (page_rq 8192) 8192 1 \<lparr> cache_slots = [], cache_capacity = 0 \<rparr> =
    (Inr \<lparr> mr_ptr = 102, mr_lkey = 0, mr_rkey = 0 \<rparr>, \<lparr> cache_slots = [page_slot 102 8192], cache_capacity = 32 \<rparr>)"
  by (simp add: page_env_def page_slot_def page_rq_def cache_reg_def insert_at_def grow_def Let_def nccl_ok_def)

theorem registration_covers_witness:
  "covers (\<lambda>p. ((p - 100) * 4096, 4096)) \<lparr> mr_ptr = 102, mr_lkey = 0, mr_rkey = 0 \<rparr> 8200 8300
     \<and> slot_covers 12 (\<lambda>p. ((p - 100) * 4096, 4096)) (page_slot 102 8192)"
  using registration_covers [of page_env 12 8200 100 "page_rq 8192" "\<lambda>p. ((p - 100) * 4096, 4096)" "\<lparr> cache_slots = [], cache_capacity = 0 \<rparr>"
      "\<lparr> mr_ptr = 102, mr_lkey = 0, mr_rkey = 0 \<rparr>" "\<lparr> cache_slots = [page_slot 102 8192], cache_capacity = 32 \<rparr>"]
  unfolding page_pages page_reg by (simp add: page_env_def page_rq_def range_ok_def)

section \<open>Counting the users of a region\<close>

text \<open>The abstract view of a cache: the multiset of the handles that have been given out and not returned.\<close>

definition users :: "ncclIbMr list \<Rightarrow> nat multiset" where
  "users ss = (\<Sum>s\<leftarrow>ss. replicate_mset (nat (mrc_refs s)) (mr_ptr (mrc_mr s)))"

definition cache_inv :: "ncclIbMrCache \<Rightarrow> bool" where
  "cache_inv c \<longleftrightarrow> (\<forall>s \<in> set (cache_slots c). 0 < mrc_refs s) \<and> distinct (map (\<lambda>s. mr_ptr (mrc_mr s)) (cache_slots c))"

lemma users_simps [simp]: "users [] = {#}" "users (s # ss) = replicate_mset (nat (mrc_refs s)) (mr_ptr (mrc_mr s)) + users ss"
  "users (ss @ ts) = users ss + users ts"
  by (simp_all add: users_def)

lemma users_mset: "mset ss = mset ts \<Longrightarrow> users ss = users ts"
  unfolding users_def sum_mset_sum_list [symmetric] mset_map by (rule arg_cong)

lemma users_split:
  assumes "i < length ss"
  shows "users ss = replicate_mset (nat (mrc_refs (ss ! i))) (mr_ptr (mrc_mr (ss ! i))) + users (take i ss @ drop (Suc i) ss)"
proof -
  have "users ss = users (take i ss @ ss ! i # drop (Suc i) ss)" by (rule arg_cong [where f = users, OF id_take_nth_drop [OF assms]])
  also have "\<dots> = users (take i ss) + (replicate_mset (nat (mrc_refs (ss ! i))) (mr_ptr (mrc_mr (ss ! i))) + users (drop (Suc i) ss))" by (simp only: users_simps)
  also have "\<dots> = replicate_mset (nat (mrc_refs (ss ! i))) (mr_ptr (mrc_mr (ss ! i))) + (users (take i ss) + users (drop (Suc i) ss))" by (rule union_lcomm)
  finally show ?thesis by (simp only: users_simps)
qed

lemma users_update: "i < length ss \<Longrightarrow> users (ss[i := s]) = replicate_mset (nat (mrc_refs s)) (mr_ptr (mrc_mr s)) + users (take i ss @ drop (Suc i) ss)"
  by (simp add: upd_conv_take_nth_drop ac_simps)

lemma users_pos: "s \<in> set ss \<Longrightarrow> \<forall>s \<in> set ss. 0 < mrc_refs s \<Longrightarrow> mr_ptr (mrc_mr s) \<in># users ss"
  by (induction ss) auto

lemma users_mem: "ptr \<in># users ss \<Longrightarrow> ptr \<in> (\<lambda>s. mr_ptr (mrc_mr s)) ` set ss"
  by (induction ss) (auto split: if_splits)

lemma slot_of_Some:
  assumes "slot_of ptr ss = Some i"
  shows "i < length ss \<and> mr_ptr (mrc_mr (ss ! i)) = ptr"
  using assms by (induction ss arbitrary: i) (auto split: if_splits)

lemma slot_of_None: "slot_of ptr ss = None \<longleftrightarrow> ptr \<notin> (\<lambda>s. mr_ptr (mrc_mr s)) ` set ss"
  by (induction ss) auto

lemma remove_slot_mset:
  assumes "i < length ss"
  shows "mset (butlast (ss[i := last ss])) = mset (take i ss @ drop (Suc i) ss)"
proof -
  obtain xs x where ss: "ss = xs @ [x]" using assms by (cases ss rule: rev_cases) auto
  show ?thesis
  proof (cases "i = length xs")
    case True
    then show ?thesis by (simp add: ss)
  next
    case False
    then have i: "i < length xs" using assms by (simp add: ss)
    then have "butlast (ss[i := last ss]) = xs[i := x]" by (simp add: ss list_update_append butlast_append)
    then show ?thesis using i by (simp add: ss upd_conv_take_nth_drop)
  qed
qed

lemma cache_inv_mset:
  assumes "mset (cache_slots c) = mset ss"
  shows "cache_inv c \<longleftrightarrow> (\<forall>s \<in> set ss. 0 < mrc_refs s) \<and> distinct (map (\<lambda>s. mr_ptr (mrc_mr s)) ss)"
proof -
  have "mset (map (\<lambda>s. mr_ptr (mrc_mr s)) (cache_slots c)) = mset (map (\<lambda>s. mr_ptr (mrc_mr s)) ss)" using assms by simp
  then show ?thesis unfolding cache_inv_def mset_eq_setD [OF assms] using mset_eq_imp_distinct_iff by blast
qed

lemma reg_users:
  assumes "cache_inv c" "cache_reg e rq addr pages c = (Inr mr, c')" "\<forall>mr. reg_mr e rq = Inr mr \<longrightarrow> mr_ptr mr \<notin># users (cache_slots c)"
  shows "users (cache_slots c') = add_mset (mr_ptr mr) (users (cache_slots c)) \<and> cache_inv c'"
proof (cases "cache_search (pageSize e) addr pages 0 (cache_slots c)")
  case (Inr i)
  have i: "i < length (cache_slots c)" using cache_search_hit [OF Inr] by simp
  define s where "s = cache_slots c ! i"
  have c': "mr = mrc_mr s" "cache_slots c' = (cache_slots c)[i := s\<lparr> mrc_refs := mrc_refs s + 1 \<rparr>]"
    using assms(2) by (auto simp: cache_reg_def Inr s_def Let_def)
  have pos: "0 < mrc_refs s" using assms(1) i by (simp add: cache_inv_def s_def)
  then have n: "nat (mrc_refs s + 1) = Suc (nat (mrc_refs s))" by simp
  have "users (cache_slots c') = add_mset (mr_ptr mr) (users (cache_slots c))"
    unfolding c' users_update [OF i] by (subst users_split [OF i]) (simp add: s_def [symmetric] n)
  moreover have "map (\<lambda>s. mr_ptr (mrc_mr s)) (cache_slots c') = map (\<lambda>s. mr_ptr (mrc_mr s)) (cache_slots c)"
    unfolding c' by (rule nth_equalityI) (use i in \<open>auto simp: nth_list_update s_def\<close>)
  moreover have "\<forall>s \<in> set (cache_slots c'). 0 < mrc_refs s"
    using assms(1) pos unfolding c' by (auto simp: cache_inv_def dest!: set_update_subset_insert [THEN subsetD])
  ultimately show ?thesis using assms(1) by (simp add: cache_inv_def)
next
  case (Inl i)
  have r: "reg_mr e rq = Inr mr" and c': "cache_slots c' = insert_at i \<lparr> mrc_addr = addr, mrc_pages = pages, mrc_refs = 1, mrc_mr = mr \<rparr> (cache_slots c)"
    using assms(2) by (auto simp: cache_reg_def Inl Let_def split: if_splits sum.splits)
  have pos: "mr_ptr (mrc_mr s) \<in># users (cache_slots c)" if "s \<in> set (cache_slots c)" for s
    using that assms(1) by (intro users_pos) (simp_all add: cache_inv_def)
  have fresh: "mr_ptr mr \<notin> (\<lambda>s. mr_ptr (mrc_mr s)) ` set (cache_slots c)" using assms(3) r pos by auto
  have "users (cache_slots c') = add_mset (mr_ptr mr) (users (take i (cache_slots c) @ drop i (cache_slots c)))"
    unfolding c' insert_at_def users_simps by simp
  then have "users (cache_slots c') = add_mset (mr_ptr mr) (users (cache_slots c))" by (simp only: append_take_drop_id)
  moreover have "cache_inv c'"
  proof -
    have "mset (cache_slots c') = mset (\<lparr> mrc_addr = addr, mrc_pages = pages, mrc_refs = 1, mrc_mr = mr \<rparr> # take i (cache_slots c) @ drop i (cache_slots c))"
      unfolding c' insert_at_def by (simp del: append_take_drop_id)
    then have m: "mset (cache_slots c') = mset (\<lparr> mrc_addr = addr, mrc_pages = pages, mrc_refs = 1, mrc_mr = mr \<rparr> # cache_slots c)" unfolding append_take_drop_id .
    show ?thesis unfolding cache_inv_mset [OF m] using assms(1) fresh by (simp add: cache_inv_def)
  qed
  ultimately show ?thesis by simp
qed

lemma dereg_users:
  assumes "cache_inv c" "mr_ptr mr \<in># users (cache_slots c)" "cache_dereg e mr c = (r, c')"
  shows "users (cache_slots c') = users (cache_slots c) - {#mr_ptr mr#} \<and> cache_inv c'
    \<and> (r = ncclSuccess \<or> (count (users (cache_slots c)) (mr_ptr mr) = 1 \<and> r = dereg_mr e mr))"
proof -
  obtain i where i: "slot_of (mr_ptr mr) (cache_slots c) = Some i" using slot_of_None users_mem [OF assms(2)] by (metis not_None_eq)
  define s rest where "s = cache_slots c ! i" and "rest = take i (cache_slots c) @ drop (Suc i) (cache_slots c)"
  have il: "i < length (cache_slots c)" "mr_ptr (mrc_mr s) = mr_ptr mr" using slot_of_Some [OF i] by (simp_all add: s_def)
  have u: "users (cache_slots c) = replicate_mset (nat (mrc_refs s)) (mr_ptr mr) + users rest" using users_split [OF il(1)] il(2) by (simp add: s_def rest_def)
  have pos: "0 < mrc_refs s" using assms(1) il(1) by (simp add: cache_inv_def s_def)
  have slots: "cache_slots c = take i (cache_slots c) @ s # drop (Suc i) (cache_slots c)" unfolding s_def by (rule id_take_nth_drop [OF il(1)])
  have notin: "mr_ptr mr \<notin> (\<lambda>s. mr_ptr (mrc_mr s)) ` set rest" and drest: "distinct (map (\<lambda>s. mr_ptr (mrc_mr s)) rest)"
  proof -
    have "distinct (map (\<lambda>s. mr_ptr (mrc_mr s)) (take i (cache_slots c) @ s # drop (Suc i) (cache_slots c)))" using assms(1) slots by (simp add: cache_inv_def)
    then show "mr_ptr mr \<notin> (\<lambda>s. mr_ptr (mrc_mr s)) ` set rest" "distinct (map (\<lambda>s. mr_ptr (mrc_mr s)) rest)"
      using il(2) by (auto simp: rest_def)
  qed
  have posr: "\<forall>s \<in> set rest. 0 < mrc_refs s" using assms(1) by (auto simp: cache_inv_def rest_def dest: in_set_takeD in_set_dropD)
  show ?thesis
  proof (cases "mrc_refs s - 1 = 0")
    case False
    then have c': "cache_slots c' = (cache_slots c)[i := s\<lparr> mrc_refs := mrc_refs s - 1 \<rparr>]" "r = ncclSuccess"
      using assms(3) i by (auto simp: cache_dereg_def s_def Let_def)
    obtain n where n: "nat (mrc_refs s) = Suc n" "nat (mrc_refs s - 1) = n" using pos by (cases "nat (mrc_refs s)") auto
    have "users (cache_slots c') = users (cache_slots c) - {#mr_ptr mr#}"
      unfolding c' users_update [OF il(1)] u by (simp add: rest_def [symmetric] il(2) n)
    moreover have "map (\<lambda>s. mr_ptr (mrc_mr s)) (cache_slots c') = map (\<lambda>s. mr_ptr (mrc_mr s)) (cache_slots c)"
      unfolding c' by (rule nth_equalityI) (use il in \<open>auto simp: nth_list_update s_def\<close>)
    moreover have "\<forall>s \<in> set (cache_slots c'). 0 < mrc_refs s"
      using assms(1) pos False unfolding c' by (auto simp: cache_inv_def dest!: set_update_subset_insert [THEN subsetD])
    ultimately show ?thesis using assms(1) c'(2) by (simp add: cache_inv_def)
  next
    case True
    then have refs: "nat (mrc_refs s) = 1" by simp
    have c': "cache_slots c' = butlast ((cache_slots c)[i := last (cache_slots c)])" "r = (if nccl_ok (dereg_mr e mr) then ncclSuccess else dereg_mr e mr)"
      using True assms(3) i by (auto simp: cache_dereg_def s_def Let_def remove_slot_def)
    have m: "mset (cache_slots c') = mset rest" unfolding c' rest_def by (rule remove_slot_mset [OF il(1)])
    have "users (cache_slots c') = users (cache_slots c) - {#mr_ptr mr#}" unfolding users_mset [OF m] u refs by simp
    moreover have "cache_inv c'" unfolding cache_inv_mset [OF m] using posr drest by simp
    moreover have "count (users (cache_slots c)) (mr_ptr mr) = 1"
      using notin users_mem [of "mr_ptr mr" rest] by (auto simp: u refs not_in_iff)
    ultimately show ?thesis using c'(2) by auto
  qed
qed

lemma reg_error_slots: "cache_reg e rq addr pages c = (Inl r, c') \<Longrightarrow> cache_slots c' = cache_slots c"
  by (auto simp: cache_reg_def Let_def split: sum.splits if_splits)

lemma dereg_unknown: "ptr = mr_ptr mr \<Longrightarrow> ptr \<notin># users (cache_slots c) \<Longrightarrow> cache_inv c \<Longrightarrow> cache_dereg e mr c = (ncclInternalError, c)"
  using slot_of_None [of "mr_ptr mr" "cache_slots c"] users_pos [of _ "cache_slots c"] by (auto simp: cache_dereg_def cache_inv_def)

text \<open>C9 the cache refines the multiset of the handles in use. A registration that succeeds adds one use of the handle it returns and one that fails changes no slot; a
  deregistration takes one use away, fails only if the library does and only for the last use, and answers an internal error, changing nothing, for a handle
  nobody holds. The count of every slot stays positive and no region has two slots. The library does not return a region that is still in use.\<close>

theorem mr_cache_refines:
  assumes "cache_inv c" and fresh: "\<forall>mr. reg_mr e rq = Inr mr \<longrightarrow> mr_ptr mr \<notin># users (cache_slots c)"
  shows "(case cache_reg e rq addr pages c of
            (Inr mr, c') \<Rightarrow> users (cache_slots c') = add_mset (mr_ptr mr) (users (cache_slots c)) \<and> cache_inv c'
          | (Inl r, c') \<Rightarrow> cache_slots c' = cache_slots c \<and> cache_inv c')
     \<and> (case cache_dereg e mr c of (r, c') \<Rightarrow>
          if mr_ptr mr \<in># users (cache_slots c)
          then users (cache_slots c') = users (cache_slots c) - {#mr_ptr mr#} \<and> cache_inv c'
            \<and> (r = ncclSuccess \<or> count (users (cache_slots c)) (mr_ptr mr) = 1 \<and> r = dereg_mr e mr)
          else r = ncclInternalError \<and> c' = c)"
proof (rule conjI)
  obtain r c' where rc: "cache_reg e rq addr pages c = (r, c')" by fastforce
  show "case cache_reg e rq addr pages c of
            (Inr mr, c') \<Rightarrow> users (cache_slots c') = add_mset (mr_ptr mr) (users (cache_slots c)) \<and> cache_inv c'
          | (Inl r, c') \<Rightarrow> cache_slots c' = cache_slots c \<and> cache_inv c'"
  proof (cases r)
    case (Inl err)
    then have "cache_slots c' = cache_slots c" using rc by (simp add: reg_error_slots)
    then show ?thesis using assms(1) by (simp add: rc Inl cache_inv_def)
  next
    case (Inr mr)
    then show ?thesis using reg_users [OF assms(1) _ fresh, of addr pages mr c'] by (simp add: rc)
  qed
next
  obtain r c' where d: "cache_dereg e mr c = (r, c')" by fastforce
  show "case cache_dereg e mr c of (r, c') \<Rightarrow>
          if mr_ptr mr \<in># users (cache_slots c)
          then users (cache_slots c') = users (cache_slots c) - {#mr_ptr mr#} \<and> cache_inv c'
            \<and> (r = ncclSuccess \<or> count (users (cache_slots c)) (mr_ptr mr) = 1 \<and> r = dereg_mr e mr)
          else r = ncclInternalError \<and> c' = c"
  proof (cases "mr_ptr mr \<in># users (cache_slots c)")
    case True
    then show ?thesis unfolding d using dereg_users [OF assms(1) True d] by simp
  next
    case False
    then show ?thesis using dereg_unknown [OF refl False assms(1)] by simp
  qed
qed

lemma page_dereg: "cache_dereg page_env \<lparr> mr_ptr = 101, mr_lkey = 0, mr_rkey = 0 \<rparr> \<lparr> cache_slots = [page_slot 101 4096], cache_capacity = 32 \<rparr> =
    (ncclSuccess, \<lparr> cache_slots = [], cache_capacity = 0 \<rparr>)"
  by (simp add: cache_dereg_def page_slot_def page_env_def remove_slot_def Let_def)

lemma page_cache:
  "cache_inv \<lparr> cache_slots = [page_slot 101 4096], cache_capacity = 32 \<rparr>" "users [page_slot 101 4096] = {#101#}"
  "\<forall>mr. reg_mr page_env (page_rq 8192) = Inr mr \<longrightarrow> mr_ptr mr \<notin># users (cache_slots \<lparr> cache_slots = [page_slot 101 4096], cache_capacity = 32 \<rparr>)"
  by (auto simp: cache_inv_def page_slot_def page_env_def page_rq_def)

theorem mr_cache_refines_witness: "users [] = users [page_slot 101 4096] - {#101#}"
  using mr_cache_refines [OF page_cache(1,3), of 8192 1 "\<lparr> mr_ptr = 101, mr_lkey = 0, mr_rkey = 0 \<rparr>", THEN conjunct2]
  unfolding page_dereg by (simp only: page_cache(2) prod.case ibv_mr.simps ncclIbMrCache.simps set_mset_single singleton_iff if_True)

section \<open>What goes wrong\<close>

text \<open>C39 a registration that fails on the second of two devices leaves the registration of the first one behind: the call reports the error, the handle is gone, and
  the first device still counts a use of the region that no handle can return.\<close>

theorem registration_failure_leaks:
  assumes "sz \<noteq> 0" "ndevs (vProps b) = 2" "getDev 0 = Some d0" "getDev 1 = Some d1" "ibDevN d0 \<noteq> ibDevN d1" "0 \<le> ibDevN d0" "0 \<le> ibDevN d1"
    and first: "ncclIbRegMrDmaBufInternal2 e d0 data sz offset fd mrFlags g = Some (Inr mr, g1)"
    and second: "ncclIbRegMrDmaBufInternal2 e d1 data sz offset fd mrFlags g1 = Some (Inl err, g2)"
  shows "ncclIbRegMrDmaBufInternal e getDev b data sz offset fd mrFlags g = Some (Inl err, g2)
     \<and> dev_mrCache (ncclIbDevs g2 ! nat (ibDevN d0)) = dev_mrCache (ncclIbDevs g1 ! nat (ibDevN d0))"
proof -
  have "[0..<nat (ndevs (vProps b))] = [0, 1]" using assms(2) by (simp add: upt_rec)
  moreover have "nat (ibDevN d1) \<noteq> nat (ibDevN d0)" using assms(5-7) by simp
  moreover have "\<exists>f. g2 = upd_dev (nat (ibDevN d1)) f g1"
    using second by (auto simp: ncclIbRegMrDmaBufInternal2_def deref_def Let_def split: option.splits if_splits prod.splits)
  ultimately show ?thesis using assms(1,3,4) first second by (auto simp: ncclIbRegMrDmaBufInternal_def deref_def upd_dev_def)
qed

text \<open>A library that fails on the second device, and two devices with empty caches.\<close>

definition leak_env :: reg_env where
  "leak_env = page_env\<lparr> reg_mr := (\<lambda>rq. if rr_pd rq = 0 then reg_mr page_env rq else Inl ncclSystemError) \<rparr>"

definition leak_globals :: "ncclIbMr list \<Rightarrow> int \<Rightarrow> int \<Rightarrow> ib_globals" where
  "leak_globals ss n0 n1 = \<lparr> ncclIbDevs = [zero_dev\<lparr> dev_mrCache := \<lparr> cache_slots = ss, cache_capacity = n0 \<rparr> \<rparr>, zero_dev\<lparr> dev_mrCache := \<lparr> cache_slots = [], cache_capacity = n1 \<rparr> \<rparr>],
     ncclIbSpeedChangeCounter = 0, ncclIbRelaxedOrderingEnabled = 0 \<rparr>"

definition leak_dev :: "int \<Rightarrow> ncclIbNetCommDevBase option" where
  "leak_dev i = Some (zero_devBase\<lparr> ibDevN := i, db_pd := nat i \<rparr>)"

theorem registration_failure_leaks_witness:
  "ncclIbRegMrDmaBufInternal leak_env leak_dev (zero_base\<lparr> vProps := \<lparr> ndevs = 2, devs = [0, 1] \<rparr> \<rparr>) 8192 4096 0 (-1) 0 (leak_globals [] 0 0) =
     Some (Inl ncclSystemError, leak_globals [page_slot 102 8192] 32 32)"
proof -
  have pages: "page_addr leak_env 8192 = 8192" "page_count leak_env 8192 4096 = 1" "pageSize leak_env = 4096" "realloc_res leak_env = ncclSuccess"
    "reg_mr leak_env rq = (if rr_pd rq = 0 then Inr \<lparr> mr_ptr = 100 + unat (rr_addr rq div 4096), mr_lkey = 0, mr_rkey = 0 \<rparr> else Inl ncclSystemError)" for rq
    by (simp_all add: page_addr_def page_count_def leak_env_def page_env_def)
  note defs = ncclIbRegMrDmaBufInternal2_def pages leak_globals_def make_request_def cache_reg_def insert_at_def upd_dev_def deref_def at_def Let_def
    page_slot_def grow_def nccl_ok_def
  have "ncclIbRegMrDmaBufInternal2 leak_env (the (leak_dev 0)) 8192 4096 0 (-1) 0 (leak_globals [] 0 0) =
      Some (Inr \<lparr> mr_ptr = 102, mr_lkey = 0, mr_rkey = 0 \<rparr>, leak_globals [page_slot 102 8192] 32 0)"
    by (simp add: defs leak_dev_def)
  moreover have "ncclIbRegMrDmaBufInternal2 leak_env (the (leak_dev 1)) 8192 4096 0 (-1) 0 (leak_globals [page_slot 102 8192] 32 0) =
      Some (Inl ncclSystemError, leak_globals [page_slot 102 8192] 32 32)"
    by (simp add: defs leak_dev_def)
  ultimately show ?thesis
    using registration_failure_leaks [of 4096 "zero_base\<lparr> vProps := \<lparr> ndevs = 2, devs = [0, 1] \<rparr> \<rparr>" leak_dev "the (leak_dev 0)" "the (leak_dev 1)"]
    by (simp add: leak_dev_def)
qed

text \<open>The search stops at the first slot with a higher address, so it relies on the slots being sorted. Giving back a region moves the last slot into the hole. Three pages are
  registered in order and the first is given back; the second, still in the cache, is then registered anew and gets a second region.\<close>

lemma dereg_loses_order:
  "(let c = \<lparr> cache_slots = [page_slot 1 4096, page_slot 2 8192, page_slot 3 12288], cache_capacity = 32 \<rparr>;
        c1 = snd (cache_dereg page_env (mrc_mr (page_slot 1 4096)) c)
    in (map mrc_addr (cache_slots c1), map mrc_addr (cache_slots (snd (cache_reg page_env (page_rq 8192) 8192 1 c1))))) = ([12288, 8192], [8192, 12288, 8192])"
  by (simp add: page_env_def page_slot_def page_rq_def cache_dereg_def remove_slot_def cache_reg_def insert_at_def Let_def)

end
