(* ===== verification/NetIb_Qp.thy ===== *)
theory NetIb_Qp
  imports NetIb_Common
begin

text \<open>
  The life of a queue pair, from \<open>net/transport/net_ib/connect.cc\<close>: creation with its congestion-control hint, the transitions
  through the states of the verbs library, and destruction.

  The verbs library is the record \<open>qp_env\<close>: what each call returns. The state of a call is \<open>qp_log\<close>, the calls the library accepted so far:
  the modifications with the attributes and the mask they were given, and the objects destroyed. Transitions of the library's own state are
  deliberately not part of the model; what the library promises of them is stated where it is used.
\<close>

unbundle bit_operations_syntax

section \<open>Modifications\<close>

datatype qp_obj = Ibv_qp nat | Mrc_qp nat | Mrc_qp_hint nat

datatype qp_attr_flag =
  QP_STATE | QP_PKEY_INDEX | QP_PORT | QP_ACCESS_FLAGS | QP_AV | QP_PATH_MTU | QP_DEST_QPN | QP_RQ_PSN | QP_MAX_DEST_RD_ATOMIC | QP_MIN_RNR_TIMER
  | QP_SQ_PSN | QP_TIMEOUT | QP_RETRY_CNT | QP_RNR_RETRY | QP_MAX_QP_RD_ATOMIC

record ibv_ah_attr =
  ah_is_global :: bool
  ah_dgid :: ibv_gid
  ah_sgid_index :: u8
  ah_hop_limit :: u8
  ah_traffic_class :: u8
  ah_dlid :: u16
  ah_sl :: u8
  ah_port_num :: u8

record ibv_qp_attr =
  qa_state :: ibv_qp_state
  qa_pkey_index :: u16
  qa_port_num :: u8
  qa_access_flags :: int
  qa_path_mtu :: nat
  qa_dest_qp_num :: u32
  qa_max_dest_rd_atomic :: u8
  qa_min_rnr_timer :: u8
  qa_ah :: ibv_ah_attr
  qa_timeout :: u8
  qa_retry_cnt :: u8
  qa_rnr_retry :: u8
  qa_max_rd_atomic :: u8

text \<open>A call that modifies a queue pair. The last two members are of the MRC library: the hint attached and the timeout.\<close>

record modify_call =
  mc_obj :: qp_obj
  mc_attr :: ibv_qp_attr
  mc_mask :: "qp_attr_flag list"
  mc_hint :: nat
  mc_mrc_timeout :: "int option"

record qp_log =
  ql_modified :: "modify_call list"
  ql_destroyed :: "qp_obj list"

text \<open>\<open>ncclIbQpCreateAttr\<close> of \<open>connect.h\<close>; the context pointer is left out.\<close>

record ncclIbQpCreateAttr =
  ca_type :: ibv_qp_type
  ca_oooRq :: bool
  ca_cq :: nat
  ca_mrcContext :: nat
  ca_mrcCq :: nat
  ca_numQpsPerPeer :: int
  ca_pd :: nat
  ca_maxRecvWorkRequest :: u32
  ca_maxSendWorkRequest :: u32
  ca_maxInlineData :: u32

text \<open>The hint: the number of queue pairs, and the rates of \<open>ncclMrcCcHint\<close> when one is set.\<close>

record ncclMrcCcHint =
  cc_initRate :: u32
  cc_minRate :: u32
  cc_maxRate :: u32

record mrc_qp_hint_attr =
  hint_num_qps_per_peer :: int
  hint_cc :: "ncclMrcCcHint option"

record qp_params =
  MrcTimeout :: int
  MrcQpHintEnable :: int
  MrcCcInitRate :: int
  MrcCcMinRate :: int
  MrcCcMaxRate :: int
  IbUseInline :: int
  IbTimeout :: int
  IbRetryCnt :: int
  IbEceEnable :: int
  IbFifoTc :: int
  IbOooRq :: int

text \<open>A creation returns its code, the object, its number and the inline size granted; what it returns beside an error is not used. \<open>qe_mlx5_create\<close> returns the
  null pointer when it fails.\<close>

record qp_env =
  qe_modify :: "modify_call \<Rightarrow> ncclResult"
  qe_create :: "ncclIbQpCreateAttr \<Rightarrow> ncclResult \<times> nat \<times> u32 \<times> u32"
  qe_mlx5_create :: "ncclIbQpCreateAttr \<Rightarrow> nat \<times> u32 \<times> u32"
  qe_mrc_create :: "ncclIbQpCreateAttr \<Rightarrow> ncclResult \<times> nat \<times> u32"
  qe_mrc_get_qpn :: "nat \<Rightarrow> ncclResult \<times> u32"
  qe_mrc_create_hint :: "mrc_qp_hint_attr \<Rightarrow> ncclResult \<times> nat"
  qe_destroy :: "qp_obj \<Rightarrow> ncclResult"
  qe_query_ece :: "nat \<Rightarrow> ncclResult \<times> nat \<times> int"
  qe_set_ece :: "nat \<Rightarrow> nat \<Rightarrow> ncclResult \<times> int"

definition zero_ah :: ibv_ah_attr where
  "zero_ah = \<lparr> ah_is_global = False, ah_dgid = zero_gid, ah_sgid_index = 0, ah_hop_limit = 0, ah_traffic_class = 0, ah_dlid = 0, ah_sl = 0, ah_port_num = 0 \<rparr>"

definition zero_qp_attr :: ibv_qp_attr where
  "zero_qp_attr = \<lparr> qa_state = QPS_RESET, qa_pkey_index = 0, qa_port_num = 0, qa_access_flags = 0, qa_path_mtu = 0, qa_dest_qp_num = 0, qa_max_dest_rd_atomic = 0,
     qa_min_rnr_timer = 0, qa_ah = zero_ah, qa_timeout = 0, qa_retry_cnt = 0, qa_rnr_retry = 0, qa_max_rd_atomic = 0 \<rparr>"

definition is_mrc :: "ncclIbQp \<Rightarrow> bool" where
  "is_mrc qp \<longleftrightarrow> qp_mrcQp qp \<noteq> 0"

definition backing :: "ncclIbQp \<Rightarrow> qp_obj" where
  "backing qp = (if is_mrc qp then Mrc_qp (qp_mrcQp qp) else Ibv_qp (qp_qp qp))"

text \<open>\<open>NCCLCHECK\<close> of one call of the library, then success.\<close>

definition modify :: "qp_env \<Rightarrow> modify_call \<Rightarrow> qp_log \<Rightarrow> ncclResult \<times> qp_log" where
  "modify e c l = (if nccl_ok (qe_modify e c) then (ncclSuccess, l\<lparr> ql_modified := ql_modified l @ [c] \<rparr>) else (qe_modify e c, l))"

definition ncclIbQpInit :: "qp_env \<Rightarrow> ncclIbQp \<Rightarrow> qp_log \<Rightarrow> ncclResult \<times> qp_log" where
  "ncclIbQpInit e qp l =
     (let ia = qp_initAttr qp;
          a = zero_qp_attr\<lparr> qa_state := ia_state ia, qa_pkey_index := word_of_int (ia_pkeyIndex ia), qa_port_num := ia_portNum ia, qa_access_flags := ia_qpAccessFlags ia \<rparr>
      in modify e \<lparr> mc_obj = backing qp, mc_attr = a, mc_mask = [QP_STATE, QP_PKEY_INDEX, QP_PORT, QP_ACCESS_FLAGS],
           mc_hint = (if is_mrc qp then qp_mrcQpHint qp else 0), mc_mrc_timeout = None \<rparr> l)"

text \<open>A queue pair that is not MRC must exist: its type is read through the pointer (\<open>None\<close> for the null pointer).\<close>

definition reliable :: "ncclIbQp \<Rightarrow> bool" where
  "reliable qp \<longleftrightarrow> is_mrc qp \<or> qp_type qp \<noteq> QPT_UC"

text \<open>\<open>IBV_QPF_GRH_REQUIRED\<close> is bit 0 of the port flags.\<close>

definition address_of :: "ncclIbQpRtrAttr \<Rightarrow> ibv_ah_attr" where
  "address_of ra =
     (let grh = zero_ah\<lparr> ah_is_global := True, ah_dgid := ra_remoteGid ra, ah_sgid_index := word_of_int (ra_localGidIndex ra), ah_hop_limit := 255 \<rparr>;
          sameSubnet = (ncclIbExtractLocalSubnetPrefix (ra_localGid ra) = ncclIbExtractLocalSubnetPrefix (ra_remoteGid ra));
          needGlobal = (\<not> sameSubnet \<or> ra_localPortFlags ra AND 1 \<noteq> 0);
          lid = ucast (ra_remoteLid ra);
          flid = ncclIbExtractFlid (ra_remoteGid ra);
          ah = (if ra_linkLayer ra = LINK_ETHERNET then grh\<lparr> ah_traffic_class := ra_tc ra \<rparr>
                else if \<not> needGlobal then zero_ah\<lparr> ah_dlid := lid \<rparr>
                else grh\<lparr> ah_dlid := (if sameSubnet \<or> flid = 0 then lid else word_of_int flid) \<rparr>)
      in ah\<lparr> ah_sl := word_of_int (ra_sl ra), ah_port_num := ra_localIbPort ra \<rparr>)"

definition ncclIbQpRtr :: "qp_env \<Rightarrow> ncclIbQp \<Rightarrow> qp_log \<Rightarrow> (ncclResult \<times> qp_log) option" where
  "ncclIbQpRtr e qp l =
     (if \<not> is_mrc qp \<and> qp_qp qp = 0 then None
      else
       (let ra = qp_rtrAttr qp;
            a = zero_qp_attr\<lparr> qa_state := QPS_RTR, qa_path_mtu := ra_mtu ra, qa_dest_qp_num := ra_remoteQpNum ra,
                  qa_max_dest_rd_atomic := (if reliable qp then 1 else 0), qa_min_rnr_timer := (if reliable qp then 12 else 0), qa_ah := address_of ra \<rparr>
        in Some (modify e \<lparr> mc_obj = backing qp, mc_attr = a,
             mc_mask = [QP_STATE, QP_AV, QP_PATH_MTU, QP_DEST_QPN, QP_RQ_PSN]
               @ (if \<not> reliable qp then [] else if is_mrc qp then [QP_MIN_RNR_TIMER] else [QP_MAX_DEST_RD_ATOMIC, QP_MIN_RNR_TIMER]),
             mc_hint = 0, mc_mrc_timeout = None \<rparr> l)))"

definition ncclIbQpRts :: "qp_params \<Rightarrow> qp_env \<Rightarrow> ncclIbQp \<Rightarrow> qp_log \<Rightarrow> (ncclResult \<times> qp_log) option" where
  "ncclIbQpRts p e qp l =
     (if \<not> is_mrc qp \<and> qp_qp qp = 0 then None
      else
       (let rts = qp_rtsAttr qp;
            a = (if reliable qp then zero_qp_attr\<lparr> qa_state := QPS_RTS, qa_timeout := word_of_int (rts_timeout rts), qa_retry_cnt := word_of_int (rts_retryCnt rts),
                   qa_rnr_retry := 7, qa_max_rd_atomic := 1 \<rparr>
                 else zero_qp_attr\<lparr> qa_state := QPS_RTS \<rparr>)
        in Some (modify e \<lparr> mc_obj = backing qp, mc_attr = a,
             mc_mask = [QP_STATE, QP_SQ_PSN] @ (if \<not> reliable qp then [] else [QP_TIMEOUT, QP_RETRY_CNT, QP_RNR_RETRY] @ (if is_mrc qp then [] else [QP_MAX_QP_RD_ATOMIC])),
             mc_hint = 0, mc_mrc_timeout = (if is_mrc qp then Some (MrcTimeout p) else None) \<rparr> l)))"

definition ncclIbQpReset :: "qp_env \<Rightarrow> ncclIbQp \<Rightarrow> qp_log \<Rightarrow> ncclResult \<times> qp_log" where
  "ncclIbQpReset e qp l = modify e \<lparr> mc_obj = backing qp, mc_attr = zero_qp_attr\<lparr> qa_state := QPS_RESET \<rparr>, mc_mask = [QP_STATE], mc_hint = 0, mc_mrc_timeout = None \<rparr> l"

definition ncclIbQpError :: "qp_env \<Rightarrow> ncclIbQp \<Rightarrow> qp_log \<Rightarrow> ncclResult \<times> qp_log" where
  "ncclIbQpError e qp l = modify e \<lparr> mc_obj = backing qp, mc_attr = zero_qp_attr\<lparr> qa_state := QPS_ERR \<rparr>, mc_mask = [QP_STATE], mc_hint = 0, mc_mrc_timeout = None \<rparr> l"

section \<open>Creation and destruction\<close>

definition destroy :: "qp_env \<Rightarrow> qp_obj \<Rightarrow> qp_log \<Rightarrow> ncclResult \<times> qp_log" where
  "destroy e obj l = (if nccl_ok (qe_destroy e obj) then (ncclSuccess, l\<lparr> ql_destroyed := ql_destroyed l @ [obj] \<rparr>) else (qe_destroy e obj, l))"

text \<open>The queue pair before its hint: an attached hint cannot be destroyed.\<close>

definition ncclIbQpDestroy :: "qp_env \<Rightarrow> ncclIbQp \<times> qp_log \<Rightarrow> ncclResult \<times> ncclIbQp \<times> qp_log" where
  "ncclIbQpDestroy e s =
     (let step = (\<lambda>obj present clear (qp, l). if present qp then (case destroy e (obj qp) l of (r, l1) \<Rightarrow> (r, if nccl_ok r then clear qp else qp, l1)) else (ncclSuccess, qp, l))
      in NCCLCHECK (step (\<lambda>qp. Mrc_qp (qp_mrcQp qp)) (\<lambda>qp. qp_mrcQp qp \<noteq> 0) (\<lambda>qp. qp\<lparr> qp_mrcQp := 0 \<rparr>) s) (\<lambda>s.
         NCCLCHECK (step (\<lambda>qp. Ibv_qp (qp_qp qp)) (\<lambda>qp. qp_qp qp \<noteq> 0) (\<lambda>qp. qp\<lparr> qp_qp := 0 \<rparr>) s) (\<lambda>s.
         NCCLCHECK (step (\<lambda>qp. Mrc_qp_hint (qp_mrcQpHint qp)) (\<lambda>qp. qp_mrcQpHint qp \<noteq> 0) (\<lambda>qp. qp\<lparr> qp_mrcQpHint := 0 \<rparr>) s) (\<lambda>s. (ncclSuccess, s)))))"

text \<open>\<open>ncclIbDestroyDataQps\<close>: every queue pair is attempted and the first error is kept.\<close>

fun destroy_loop :: "qp_env \<Rightarrow> nat list \<Rightarrow> ncclResult \<Rightarrow> ncclIbQp list \<times> qp_log \<Rightarrow> ncclResult \<times> ncclIbQp list \<times> qp_log" where
  "destroy_loop e [] r s = (r, s)"
| "destroy_loop e (q # qs) r (xs, l) =
     (case ncclIbQpDestroy e (xs ! q, l) of (r1, x, l1) \<Rightarrow> destroy_loop e qs (if r = ncclSuccess then r1 else r) (xs[q := x], l1))"

definition ncclIbDestroyDataQps :: "qp_env \<Rightarrow> ncclIbNetCommBase \<Rightarrow> qp_log \<Rightarrow> ncclResult \<times> ncclIbNetCommBase \<times> qp_log" where
  "ncclIbDestroyDataQps e b l =
     (case destroy_loop e [0..<min (nat (nqps b)) NCCL_IB_MAX_QPS] ncclSuccess (qps b, l) of (r, xs, l1) \<Rightarrow> (r, b\<lparr> qps := xs \<rparr>, l1))"

definition UINT32_MAX :: int where "UINT32_MAX = 4294967295"

definition ncclIbQpCreateMrcHint :: "qp_params \<Rightarrow> qp_env \<Rightarrow> ncclIbQpCreateAttr \<Rightarrow> ncclIbQp \<Rightarrow> ncclResult \<times> ncclIbQp" where
  "ncclIbQpCreateMrcHint p e ca qp =
     (let n = ca_numQpsPerPeer ca; i = MrcCcInitRate p; lo = MrcCcMinRate p; hi = MrcCcMaxRate p; lo1 = lo div n;
          cc = (if i \<noteq> 0 \<or> lo1 \<noteq> 0 \<or> hi \<noteq> 0 then Some \<lparr> cc_initRate = word_of_int i, cc_minRate = word_of_int lo1, cc_maxRate = word_of_int hi \<rparr> else None)
      in if MrcQpHintEnable p = 0 then (ncclSuccess, qp)
         else if n \<le> 0 \<or> n > int NCCL_IB_MAX_QPS then (ncclInvalidUsage, qp)
         else if i < 0 \<or> lo < 0 \<or> hi < 0 \<or> i > UINT32_MAX \<or> hi > UINT32_MAX \<or> lo div n > UINT32_MAX then (ncclInvalidUsage, qp)
         else (case qe_mrc_create_hint e \<lparr> hint_num_qps_per_peer = n, hint_cc = cc \<rparr> of
                 (r, h) \<Rightarrow> (r, qp\<lparr> qp_mrcQpHint := (if r = ncclSuccess then h else 0) \<rparr>)))"

definition ncclIbQpCreate :: "qp_params \<Rightarrow> qp_env \<Rightarrow> ncclIbQpCreateAttr \<Rightarrow> ncclIbQp \<times> qp_log \<Rightarrow> ncclResult \<times> ncclIbQp \<times> qp_log" where
  "ncclIbQpCreate p e ca s =
     (case s of (qp, l) \<Rightarrow>
      if ca_mrcContext ca \<noteq> 0 then
        if ca_oooRq ca then (ncclInvalidUsage, qp, l)
        else (case ncclIbQpCreateMrcHint p e ca qp of (r, qp1) \<Rightarrow>
          if \<not> nccl_ok r then (r, qp1, l)
          else (case qe_mrc_create e ca of (r, q, inl) \<Rightarrow>
            (let qp2 = (if r = ncclSuccess then qp1\<lparr> qp_mrcQp := q \<rparr> else qp1\<lparr> qp_mrcQp := 0 \<rparr>);
                 (r3, qp3) = (if r = ncclSuccess then (case qe_mrc_get_qpn e q of (r, n) \<Rightarrow> (r, if r = ncclSuccess then qp2\<lparr> qp_qpn := n \<rparr> else qp2)) else (r, qp2))
             in if r3 \<noteq> ncclSuccess then (r3, snd (ncclIbQpDestroy e (qp3, l)))
                else (ncclSuccess, qp3\<lparr> qp_maxInlineData := inl \<rparr>, l))))
      else if ca_oooRq ca then
        (case qe_mlx5_create e ca of (q, n, inl) \<Rightarrow>
           if q = 0 then (ncclInternalError, qp\<lparr> qp_qp := 0 \<rparr>, l)
           else (ncclSuccess, qp\<lparr> qp_qp := q, qp_type := ca_type ca, qp_qpn := n, qp_maxInlineData := inl \<rparr>, l))
      else (case qe_create e ca of (r, q, n, inl) \<Rightarrow>
        if \<not> nccl_ok r then (r, qp\<lparr> qp_qp := 0 \<rparr>, l)
        else (ncclSuccess, qp\<lparr> qp_qp := q, qp_type := ca_type ca, qp_qpn := n, qp_maxInlineData := inl \<rparr>, l)))"

text \<open>\<open>NCCL_NET_IB_MAX_RECVS * sizeof(struct ncclIbSendFifo)\<close>.\<close>

definition sizeof_fifo_group :: u32 where "sizeof_fifo_group = word_of_nat NCCL_NET_IB_MAX_RECVS * 64"

definition ncclIbReceiverQpCreate :: "qp_params \<Rightarrow> qp_env \<Rightarrow> ncclIbQpCreateAttr \<Rightarrow> ncclIbQp \<times> qp_log \<Rightarrow> ncclResult \<times> ncclIbQp \<times> qp_log" where
  "ncclIbReceiverQpCreate p e ca s = ncclIbQpCreate p e (if IbUseInline p = 0 then ca else ca\<lparr> ca_maxInlineData := sizeof_fifo_group \<rparr>) s"

end
