(* ===== verification/NetIb_Recovery.thy ===== *)
theory NetIb_Recovery
  imports NetIb_Resiliency NetIb_Qp
begin

text \<open>
  Recovery of a failed port, \<open>net/transport/net_ib/p2p_resiliency_recovery.cc\<close>: the protocol by which the two ends of a connection find out that a port works again,
  and the thread that runs it for all communicators.

  A recovery context is the record of its C structure; the members of its union stand side by side. The communicator it belongs to is the record \<open>rec_comm\<close>: the base with its data queue
  pairs, the per-device bases (what \<open>ncclIbGetNetCommDevBase\<close> returns), the flush queue pairs of a receiver, the resiliency context, and what lies outside: the
  completions in the recovery completion queue of the device, and logs of what was posted. The environment of a call, \<open>rec_env\<close>, holds the results of the library's calls and the clock, which a
  call may read at several places (\<open>clock_read\<close>). Between calls the environment changes and completions arrive.

  A function that returns a code and a flag through a pointer returns \<open>Inl\<close> the code of an error or \<open>Inr\<close> the flag.
\<close>

unbundle bit_operations_syntax

section \<open>Data\<close>

datatype ncclIbPortRecoveryState =
  RecoveryStateInit | RecoveryStateAliveMessages | RecoveryStateAck | RecoveryStateSuccess | RecoveryStateFailed

datatype ncclIbPortRecoveryStateProgressResult = ResultInProgress | ResultGoToNextState | ResultGoToPrevState | ResultFailed

record ncclIbPortRecoveryContext =
  pc_resCtx :: nat
  pc_devIndex :: nat
  pc_state :: ncclIbPortRecoveryState
  pc_timeInit :: u64
  nFailedAttempts :: int
  timeLastMsg :: u64
  aliveMsgNextId :: u32
  ackReceived :: bool
  ackPosted :: bool
  ackCompleted :: bool
  aliveMsgPosted :: bool
  aliveMsgCompleted :: bool
  nInOrderMsgsReceived :: int

record rec_params =
  IbResiliencyPortRecovery :: int
  IbResiliencyPortRecoveryStartDelay :: int
  IbResiliencyPortRecoveryAliveMsgBatchInterval :: int
  IbResiliencyPortRecoveryAliveMsgSequenceSize :: int
  IbResiliencyPortRecoveryAliveMsgTimeout :: int
  IbResiliencyPortRecoveryAckTimeout :: int
  IbResiliencyPortRecoveryAttemptsMax :: int
  rp_qp :: qp_params

definition ALIVE_MSG_BATCH_SIZE_MAX :: nat where "ALIVE_MSG_BATCH_SIZE_MAX = 10"
definition PORT_RECOVERY_CQ_SIZE :: nat where "PORT_RECOVERY_CQ_SIZE = ALIVE_MSG_BATCH_SIZE_MAX * 2"
definition PORT_RECOVERY_ACK_MSG_ID :: u32 where "PORT_RECOVERY_ACK_MSG_ID = 0x1234"

record rec_comm =
  rm_base :: ncclIbNetCommBase
  rm_devs :: "ncclIbNetCommDevBase list"
  rm_flushEnabled :: int
  rm_flushQpsCreated :: bool
  rm_flushQps :: "ncclIbQp list"
  rm_res :: ncclIbResiliency
  rm_log :: qp_log
  rm_cq :: "ibv_wc list"
  rm_polls :: nat
  rm_sent :: "ibv_send_wr list"
  rm_recvs :: "nat list"
  rm_data_recvs :: "nat list"

datatype clock_read = ClockInit | ClockStart | ClockAlive | ClockPosted | ClockMessage | ClockAck

record rec_env =
  pe_clock :: "clock_read \<Rightarrow> u64"
  pe_poll :: "nat \<Rightarrow> ncclResult"
  pe_post_recv :: "nat list \<Rightarrow> nat \<Rightarrow> ncclResult"
  pe_post_send :: "nat \<Rightarrow> ibv_send_wr list \<Rightarrow> bool"
  pe_post_data_recv :: "nat list \<Rightarrow> nat \<Rightarrow> ncclResult"
  pe_qp :: qp_env
  pe_devs :: "ncclIbDev list"
  pe_alloc :: bool

record rec_st =
  pr_ctx :: ncclIbPortRecoveryContext
  pr_comm :: rec_comm

definition upd_pc :: "(ncclIbPortRecoveryContext \<Rightarrow> ncclIbPortRecoveryContext) \<Rightarrow> rec_st \<Rightarrow> rec_st" where
  "upd_pc f s = s\<lparr> pr_ctx := f (pr_ctx s) \<rparr>"

definition upd_rm :: "(rec_comm \<Rightarrow> rec_comm) \<Rightarrow> rec_st \<Rightarrow> rec_st" where
  "upd_rm f s = s\<lparr> pr_comm := f (pr_comm s) \<rparr>"

text \<open>A timeout in milliseconds, as the code compares it: the 64-bit product with \<open>MSEC_TO_NSEC\<close>.\<close>

definition msec :: "int \<Rightarrow> u64" where
  "msec t = word_of_int t * MSEC_TO_NSEC"

definition recovery_qp :: "nat \<Rightarrow> rec_comm \<Rightarrow> nat" where
  "recovery_qp d m = qp_qp (portRecoveryQps (rm_res m) ! d)"

section \<open>Receives on the recovery queue pair\<close>

definition ncclIbPortRecoveryPostRecvWorkRequest :: "rec_env \<Rightarrow> nat \<Rightarrow> rec_comm \<Rightarrow> ncclResult \<times> rec_comm" where
  "ncclIbPortRecoveryPostRecvWorkRequest e q m =
     (let r = pe_post_recv e (rm_recvs m) q in (r, if r = ncclSuccess then m\<lparr> rm_recvs := rm_recvs m @ [q] \<rparr> else m))"

fun post_recvs :: "rec_env \<Rightarrow> nat \<Rightarrow> nat \<Rightarrow> rec_comm \<Rightarrow> ncclResult \<times> rec_comm" where
  "post_recvs e q 0 m = (ncclSuccess, m)"
| "post_recvs e q (Suc n) m =
     (case ncclIbPortRecoveryPostRecvWorkRequest e q m of (r, m1) \<Rightarrow> if r \<noteq> ncclSuccess then (r, m1) else post_recvs e q n m1)"

text \<open>The loop of \<open>ncclIbPortRecoveryDrainCqAndPostReceiveWRs\<close>, over what is in the queue when it starts.\<close>

function drain :: "rec_env \<Rightarrow> nat \<Rightarrow> rec_comm \<Rightarrow> bool \<times> rec_comm" where
  "drain e q m =
     (let m1 = m\<lparr> rm_polls := rm_polls m + 1 \<rparr>; wcs = take PORT_RECOVERY_CQ_SIZE (rm_cq m) in
      if pe_poll e (rm_polls m) \<noteq> ncclSuccess then (False, m1)
      else if wcs = [] then (True, m1)
      else (case post_recvs e q (length wcs) (m1\<lparr> rm_cq := drop PORT_RECOVERY_CQ_SIZE (rm_cq m) \<rparr>) of
              (r, m2) \<Rightarrow> if r \<noteq> ncclSuccess then (False, m2) else drain e q (m2\<lparr> rm_cq := drop PORT_RECOVERY_CQ_SIZE (rm_cq m) \<rparr>)))"
  by pat_completeness auto
termination
  by (relation "measure (\<lambda>(e, q, m). length (rm_cq m))") (auto simp: PORT_RECOVERY_CQ_SIZE_def ALIVE_MSG_BATCH_SIZE_MAX_def)

declare drain.simps [simp del]

definition ncclIbPortRecoveryDrainCqAndPostReceiveWRs :: "rec_env \<Rightarrow> rec_st \<Rightarrow> bool \<times> rec_st" where
  "ncclIbPortRecoveryDrainCqAndPostReceiveWRs e s =
     (case drain e (recovery_qp (pc_devIndex (pr_ctx s)) (pr_comm s)) (pr_comm s) of (ok, m) \<Rightarrow> (ok, s\<lparr> pr_comm := m \<rparr>))"

section \<open>Reconfiguring queue pairs\<close>

text \<open>\<open>ncclIbResiliencyQpReconfigure\<close> of \<open>p2p_resiliency.cc\<close>: through all states back to ready-to-send, with the current GID of the device.\<close>

definition ncclIbResiliencyQpReconfigure ::
  "qp_params \<Rightarrow> qp_env \<Rightarrow> ncclIbNetCommDevBase \<Rightarrow> ncclIbQp \<Rightarrow> qp_log \<Rightarrow> ((ncclResult + bool) \<times> ncclIbQp \<times> qp_log) option" where
  "ncclIbResiliencyQpReconfigure p e devBase qp l =
     (if qp_qp qp = 0 then Some (Inl ncclInternalError, qp, l)
      else (case ncclIbQpReset e qp l of (r, l) \<Rightarrow>
        if r \<noteq> ncclSuccess then Some (Inr False, qp, l)
        else (case ncclIbQpInit e qp l of (r, l) \<Rightarrow>
        if r \<noteq> ncclSuccess then Some (Inr False, qp, l)
        else (case (if qp_eceSupported qp = 0 then (ncclSuccess, 0) else qe_set_ece e (qp_qp qp) (qp_ece qp)) of (r, supported) \<Rightarrow>
        let qp1 = qp\<lparr> qp_eceSupported := (if qp_eceSupported qp = 0 then 0 else supported) \<rparr> in
        if r \<noteq> ncclSuccess then Some (Inr False, qp1, l)
        else
         (let qp2 = qp1\<lparr> qp_rtrAttr := (qp_rtrAttr qp1)\<lparr> ra_localGid := localGid (db_gidInfo devBase), ra_localGidIndex := localGidIndex (db_gidInfo devBase) \<rparr> \<rparr> in
          deref (ncclIbQpRtr e qp2 l) (\<lambda>(r, l).
          if r \<noteq> ncclSuccess then Some (Inr False, qp2, l)
          else deref (ncclIbQpRts p e qp2 l) (\<lambda>(r, l). Some (Inr (r = ncclSuccess), qp2, l))))))))"

text \<open>The loops over queue pairs stop at the first that cannot be reconfigured; \<open>f\<close> is what is done with a queue pair that the loop does not skip.\<close>

fun qps_loop :: "(ncclIbQp \<Rightarrow> bool) \<Rightarrow> (ncclIbQp \<Rightarrow> rec_comm \<Rightarrow> ((ncclResult + bool) \<times> ncclIbQp \<times> rec_comm) option) \<Rightarrow> ncclIbQp list \<Rightarrow> rec_comm \<Rightarrow>
    ((ncclResult + bool) \<times> ncclIbQp list \<times> rec_comm) option" where
  "qps_loop skip f [] m = Some (Inr True, [], m)"
| "qps_loop skip f (q # qs) m =
     (if skip q then deref (qps_loop skip f qs m) (\<lambda>(r, qs1, m1). Some (r, q # qs1, m1))
      else deref (f q m) (\<lambda>(r, q1, m1).
        if r = Inr True then deref (qps_loop skip f qs m1) (\<lambda>(r, qs1, m2). Some (r, q1 # qs1, m2))
        else Some (r, q1 # qs, m1)))"

definition reconfigure :: "rec_params \<Rightarrow> rec_env \<Rightarrow> nat \<Rightarrow> ncclIbQp \<Rightarrow> rec_comm \<Rightarrow> ((ncclResult + bool) \<times> ncclIbQp \<times> rec_comm) option" where
  "reconfigure p e d qp m =
     deref (ncclIbResiliencyQpReconfigure (rp_qp p) (pe_qp e) (rm_devs m ! d) qp (rm_log m)) (\<lambda>(r, qp1, l). Some (r, qp1, m\<lparr> rm_log := l \<rparr>))"

text \<open>What follows a reconfiguration that worked.\<close>

definition then_do :: "((ncclResult + bool) \<times> ncclIbQp \<times> rec_comm) option \<Rightarrow> (ncclIbQp \<Rightarrow> rec_comm \<Rightarrow> ((ncclResult + bool) \<times> rec_comm) option) \<Rightarrow>
    ((ncclResult + bool) \<times> ncclIbQp \<times> rec_comm) option" where
  "then_do c k = deref c (\<lambda>(r, qp, m). if r = Inr True then deref (k qp m) (\<lambda>(r, m). Some (r, qp, m)) else Some (r, qp, m))"

definition reconfigure_recovery_qp :: "rec_params \<Rightarrow> rec_env \<Rightarrow> nat \<Rightarrow> ncclIbQp \<Rightarrow> rec_comm \<Rightarrow> ((ncclResult + bool) \<times> ncclIbQp \<times> rec_comm) option" where
  "reconfigure_recovery_qp p e d qp m =
     then_do (reconfigure p e d qp m) (\<lambda>qp m.
       case post_recvs e (qp_qp qp) (if isSend (rm_base m) then 1 else ALIVE_MSG_BATCH_SIZE_MAX) m of (r, m1) \<Rightarrow> Some (Inr (r = ncclSuccess), m1))"

definition ncclIbPortRecoveryQpsReconfigure :: "rec_params \<Rightarrow> rec_env \<Rightarrow> nat \<Rightarrow> rec_comm \<Rightarrow> ((ncclResult + bool) \<times> rec_comm) option" where
  "ncclIbPortRecoveryQpsReconfigure p e d m =
     (if length (rm_devs m) \<le> d then None
      else
       (let n = nat (nPortRecoveryQps (rm_res m)); xs = portRecoveryQps (rm_res m) in
        deref (qps_loop (\<lambda>qp. qp_qp qp = 0 \<or> qp_devIndex qp \<noteq> int d) (reconfigure_recovery_qp p e d) (take n xs) m)
          (\<lambda>(r, qs, m1). Some (r, m1\<lparr> rm_res := (rm_res m1)\<lparr> portRecoveryQps := qs @ drop n xs \<rparr> \<rparr>))))"

definition ncclIbResiliencyQpsReconfigure :: "rec_params \<Rightarrow> rec_env \<Rightarrow> nat \<Rightarrow> rec_comm \<Rightarrow> ((ncclResult + bool) \<times> rec_comm) option" where
  "ncclIbResiliencyQpsReconfigure p e d m =
     deref (at (rm_devs m) (int d)) (\<lambda>devBase.
     deref (at (pe_devs e) (ibDevN devBase)) (\<lambda>dev.
       let m1 = m\<lparr> rm_devs := (rm_devs m)[d := ncclIbGidInfoSnapshot devBase dev] \<rparr>; n = nat (nProbingQps (rm_res m)); xs = probingQps (rm_res m) in
       deref (qps_loop (\<lambda>qp. qp_qp qp = 0 \<or> qp_devIndex qp \<noteq> int d) (reconfigure p e d) (take n xs) m1) (\<lambda>(r, qs, m2).
         let m3 = m2\<lparr> rm_res := (rm_res m2)\<lparr> probingQps := qs @ drop n xs \<rparr> \<rparr> in
         if r = Inr True then ncclIbPortRecoveryQpsReconfigure p e d m3 else Some (r, m3))))"

text \<open>\<open>ncclIbPostReceiveWorkRequestsOnQp\<close> of \<open>connect.cc\<close>: receives on the MRC queue pair, which must exist.\<close>

fun post_data_recvs :: "rec_env \<Rightarrow> nat \<Rightarrow> nat \<Rightarrow> rec_comm \<Rightarrow> ncclResult \<times> rec_comm" where
  "post_data_recvs e q 0 m = (ncclSuccess, m)"
| "post_data_recvs e q (Suc n) m =
     (let r = pe_post_data_recv e (rm_data_recvs m) q in if nccl_ok r then post_data_recvs e q n (m\<lparr> rm_data_recvs := rm_data_recvs m @ [q] \<rparr>) else (r, m))"

definition ncclIbPostReceiveWorkRequestsOnQp :: "rec_env \<Rightarrow> ncclIbQp \<Rightarrow> rec_comm \<Rightarrow> (ncclResult \<times> rec_comm) option" where
  "ncclIbPostReceiveWorkRequestsOnQp e qp m =
     (case (if resiliency (rm_base m) then ncclIbResiliencyDataRqSizeGet \<lparr> r_ctx = rm_res m, r_base = rm_base m \<rparr> else Inr (word_of_nat NET_IB_MAX_REQUESTS)) of
        Inl r \<Rightarrow> Some (r, m)
      | Inr n \<Rightarrow> if qp_mrcQp qp = 0 \<and> n \<noteq> 0 then None else Some (post_data_recvs e (qp_mrcQp qp) (unat n) m))"

text \<open>
  \<open>ncclIbPortRecoveryQpsRestore\<close>. The flag it writes through its pointer is left alone when all goes well: it is the argument \<open>success\<close>.
\<close>

definition restore_data_qp :: "rec_params \<Rightarrow> rec_env \<Rightarrow> nat \<Rightarrow> ncclIbQp \<Rightarrow> rec_comm \<Rightarrow> ((ncclResult + bool) \<times> ncclIbQp \<times> rec_comm) option" where
  "restore_data_qp p e d qp m =
     then_do (reconfigure p e d qp m) (\<lambda>qp m.
       if isSend (rm_base m) then Some (Inr True, m)
       else deref (ncclIbPostReceiveWorkRequestsOnQp e qp m) (\<lambda>(r, m1). Some (Inr (r = ncclSuccess), m1)))"

definition restore_data_qps :: "rec_params \<Rightarrow> rec_env \<Rightarrow> nat \<Rightarrow> rec_comm \<Rightarrow> ((ncclResult + bool) \<times> rec_comm) option" where
  "restore_data_qps p e d m =
     (let n = nat (nqps (rm_base m)); xs = qps (rm_base m) in
      deref (qps_loop (\<lambda>qp. qp_devIndex qp \<noteq> int d) (restore_data_qp p e d) (take n xs) m)
        (\<lambda>(r, qs, m1). Some (r, m1\<lparr> rm_base := (rm_base m1)\<lparr> qps := qs @ drop n xs \<rparr> \<rparr>)))"

definition restore_flush_qp :: "rec_params \<Rightarrow> rec_env \<Rightarrow> nat \<Rightarrow> rec_comm \<Rightarrow> ((ncclResult + bool) \<times> rec_comm) option" where
  "restore_flush_qp p e d m =
     (if isSend (rm_base m) \<or> rm_flushEnabled m = 0 \<or> \<not> rm_flushQpsCreated m \<or> ndevs (vProps (rm_base m)) \<le> int d then Some (Inr True, m)
      else if length (rm_flushQps m) \<le> d then None
      else
       (let qp = rm_flushQps m ! d; qp1 = qp\<lparr> qp_rtrAttr := (qp_rtrAttr qp)\<lparr> ra_remoteGid := localGid (db_gidInfo (rm_devs m ! d)) \<rparr> \<rparr> in
        deref (reconfigure p e d qp1 m) (\<lambda>(r, qp2, m1). Some (r, m1\<lparr> rm_flushQps := (rm_flushQps m1)[d := qp2] \<rparr>))))"

definition ncclIbPortRecoveryQpsRestore :: "rec_params \<Rightarrow> rec_env \<Rightarrow> bool \<Rightarrow> rec_st \<Rightarrow> ((ncclResult + bool) \<times> rec_st) option" where
  "ncclIbPortRecoveryQpsRestore p e success s =
     (let d = pc_devIndex (pr_ctx s) in
      if length (rm_devs (pr_comm s)) \<le> d then None
      else deref (restore_data_qps p e d (pr_comm s)) (\<lambda>(r, m1).
        if r \<noteq> Inr True then Some (r, s\<lparr> pr_comm := m1 \<rparr>)
        else deref (restore_flush_qp p e d m1) (\<lambda>(r, m2). Some (if r = Inr True then Inr success else r, s\<lparr> pr_comm := m2 \<rparr>))))"

section \<open>Completions of the protocol\<close>

text \<open>The handlers of one completion; the flag is \<open>*success\<close>.\<close>

definition ncclIbPortRecoveryHandleCompletionReceiver :: "rec_env \<Rightarrow> ibv_wc \<Rightarrow> rec_st \<Rightarrow> bool \<times> rec_st" where
  "ncclIbPortRecoveryHandleCompletionReceiver e wc s =
     (let c = pr_ctx s; repost = (\<lambda>s. case ncclIbPortRecoveryPostRecvWorkRequest e (recovery_qp (pc_devIndex c) (pr_comm s)) (pr_comm s) of
                                        (r, m) \<Rightarrow> (r = ncclSuccess, s\<lparr> pr_comm := m \<rparr>))
      in case pc_state c of
        RecoveryStateAliveMessages \<Rightarrow>
          if ackPosted c then
            if wc_op wc = WC_RECV then repost s
            else if wc_op wc \<noteq> WC_SEND then (False, s)
            else (True, upd_pc (\<lambda>c. c\<lparr> ackCompleted := True \<rparr>) s)
          else if wc_op wc \<noteq> WC_RECV then (False, s)
          else
           (let c1 = (if wc_imm_data wc = aliveMsgNextId c
                      then c\<lparr> nInOrderMsgsReceived := nInOrderMsgsReceived c + 1, aliveMsgNextId := aliveMsgNextId c + 1 \<rparr>
                      else c\<lparr> aliveMsgNextId := wc_imm_data wc + 1, nInOrderMsgsReceived := 0 \<rparr>)
            in repost (s\<lparr> pr_ctx := c1\<lparr> timeLastMsg := pe_clock e ClockMessage \<rparr> \<rparr>))
      | RecoveryStateAck \<Rightarrow>
          if wc_op wc \<noteq> WC_RECV then (False, s)
          else if wc_imm_data wc \<noteq> PORT_RECOVERY_ACK_MSG_ID then (False, s)
          else (True, upd_pc (\<lambda>c. c\<lparr> ackReceived := True \<rparr>) s)
      | _ \<Rightarrow> (True, s))"

definition ncclIbPortRecoveryHandleCompletionSender :: "ibv_wc \<Rightarrow> rec_st \<Rightarrow> bool \<times> rec_st" where
  "ncclIbPortRecoveryHandleCompletionSender wc s =
     (let c = pr_ctx s in
      case pc_state c of
        RecoveryStateAliveMessages \<Rightarrow>
          if wc_op wc = WC_SEND then (if aliveMsgCompleted c then (False, s) else (True, upd_pc (\<lambda>c. c\<lparr> aliveMsgCompleted := True \<rparr>) s))
          else (False, s)
      | RecoveryStateAck \<Rightarrow>
          if \<not> ackReceived c then
            if wc_op wc \<noteq> WC_RECV then (False, s)
            else if wc_imm_data wc \<noteq> PORT_RECOVERY_ACK_MSG_ID then (False, s)
            else (True, upd_pc (\<lambda>c. c\<lparr> ackReceived := True \<rparr>) s)
          else if wc_op wc \<noteq> WC_SEND then (False, s)
          else (True, upd_pc (\<lambda>c. c\<lparr> ackCompleted := True \<rparr>) s)
      | _ \<Rightarrow> (True, s))"

definition ncclIbPortRecoveryPollCq :: "rec_env \<Rightarrow> rec_st \<Rightarrow> bool \<times> rec_st" where
  "ncclIbPortRecoveryPollCq e s =
     (let m = pr_comm s; s1 = upd_rm (\<lambda>m. m\<lparr> rm_polls := rm_polls m + 1 \<rparr>) s in
      if pe_poll e (rm_polls m) \<noteq> ncclSuccess then (False, s1)
      else case rm_cq m of
        [] \<Rightarrow> (True, s1)
      | wc # wcs \<Rightarrow>
          (let s2 = upd_rm (\<lambda>m. m\<lparr> rm_cq := wcs \<rparr>) s1 in
           if wc_stat wc \<noteq> WC_SUCCESS then (False, s2)
           else if isSend (rm_base m) then ncclIbPortRecoveryHandleCompletionSender wc s2
           else ncclIbPortRecoveryHandleCompletionReceiver e wc s2))"

section \<open>Messages\<close>

definition alive_wr :: "nat \<Rightarrow> u32 \<Rightarrow> nat \<Rightarrow> ibv_send_wr" where
  "alive_wr n next i =
     \<lparr> wr_id = ucast (next + word_of_nat i), wr_sge = zero_sge, wr_num_sge = 0, wr_op = WR_SEND_WITH_IMM, wr_signaled = (i = n - 1), wr_inline = False,
        wr_imm_data = next + word_of_nat i, wr_remote_addr = 0, wr_rkey = 0 \<rparr>"

text \<open>\<open>ncclIbPortRecoveryPostAliveMessages\<close>. The parameter is read into an \<open>int\<close>. For no message at all the code would post an uninitialised work request.\<close>

definition ncclIbPortRecoveryPostAliveMessages :: "rec_params \<Rightarrow> rec_env \<Rightarrow> rec_st \<Rightarrow> ((ncclResult + bool) \<times> rec_st) option" where
  "ncclIbPortRecoveryPostAliveMessages p e s =
     (let n = signed_take_bit 31 (IbResiliencyPortRecoveryAliveMsgSequenceSize p); k = nat n; c = pr_ctx s in
      if n > int ALIVE_MSG_BATCH_SIZE_MAX then Some (Inl ncclInternalError, s)
      else if n \<le> 0 then None
      else
       (let wrs = map (alive_wr k (aliveMsgNextId c)) [0..<k]; q = recovery_qp (pc_devIndex c) (pr_comm s);
            s1 = upd_pc (\<lambda>c. c\<lparr> aliveMsgNextId := aliveMsgNextId c + word_of_nat k \<rparr>) s
        in if \<not> pe_post_send e q wrs then Some (Inr False, s1)
           else Some (Inr True, upd_pc (\<lambda>c. c\<lparr> timeLastMsg := pe_clock e ClockPosted, aliveMsgPosted := True \<rparr>) (upd_rm (\<lambda>m. m\<lparr> rm_sent := rm_sent m @ wrs \<rparr>) s1))))"

definition ack_wr :: "ncclIbPortRecoveryContext \<Rightarrow> ibv_send_wr" where
  "ack_wr c = \<lparr> wr_id = ucast (aliveMsgNextId c), wr_sge = zero_sge, wr_num_sge = 0, wr_op = WR_SEND_WITH_IMM, wr_signaled = True, wr_inline = False,
     wr_imm_data = PORT_RECOVERY_ACK_MSG_ID, wr_remote_addr = 0, wr_rkey = 0 \<rparr>"

definition ncclIbPortRecoveryPostAck :: "rec_env \<Rightarrow> rec_st \<Rightarrow> bool \<times> rec_st" where
  "ncclIbPortRecoveryPostAck e s =
     (let wr = ack_wr (pr_ctx s) in
      if \<not> pe_post_send e (recovery_qp (pc_devIndex (pr_ctx s)) (pr_comm s)) [wr] then (False, s)
      else (True, upd_pc (\<lambda>c. c\<lparr> ackPosted := True \<rparr>) (upd_rm (\<lambda>m. m\<lparr> rm_sent := rm_sent m @ [wr] \<rparr>) s)))"

section \<open>The phases\<close>

type_synonym phase_outcome = "((ncclResult + ncclIbPortRecoveryStateProgressResult) \<times> rec_st) option"

definition phase :: "ncclIbPortRecoveryStateProgressResult \<Rightarrow> rec_st \<Rightarrow> phase_outcome" where
  "phase r s = Some (Inr r, s)"

text \<open>\<open>NCCLCHECK\<close> on a step with a flag, and \<open>ResultFailed\<close> when the flag is not set.\<close>

definition need :: "((ncclResult + bool) \<times> rec_st) option \<Rightarrow> (rec_st \<Rightarrow> phase_outcome) \<Rightarrow> phase_outcome" where
  "need c k = deref c (\<lambda>(r, s). case r of Inl err \<Rightarrow> Some (Inl err, s) | Inr ok \<Rightarrow> if ok then k s else phase ResultFailed s)"

definition flagged :: "bool \<times> rec_st \<Rightarrow> ((ncclResult + bool) \<times> rec_st) option" where
  "flagged x = Some (Inr (fst x), snd x)"

definition count_failure :: "rec_st \<Rightarrow> rec_st" where
  "count_failure = upd_pc (\<lambda>c. c\<lparr> nFailedAttempts := nFailedAttempts c + 1 \<rparr>)"

definition attempts_used_up :: "rec_params \<Rightarrow> rec_st \<Rightarrow> bool" where
  "attempts_used_up p s \<longleftrightarrow> IbResiliencyPortRecoveryAttemptsMax p \<le> nFailedAttempts (pr_ctx s)"

definition ncclIbPortRecoveryProgressAliveMessagesSender :: "rec_params \<Rightarrow> rec_env \<Rightarrow> rec_st \<Rightarrow> phase_outcome" where
  "ncclIbPortRecoveryProgressAliveMessagesSender p e s =
     (if \<not> aliveMsgPosted (pr_ctx s) then
        if pe_clock e ClockAlive - timeLastMsg (pr_ctx s) < msec (IbResiliencyPortRecoveryAliveMsgBatchInterval p) then phase ResultInProgress s
        else need (ncclIbPortRecoveryPostAliveMessages p e s) (phase ResultInProgress)
      else need (flagged (ncclIbPortRecoveryPollCq e s)) (\<lambda>s.
        phase (if aliveMsgCompleted (pr_ctx s) then ResultGoToNextState else ResultInProgress) s))"

definition ncclIbPortRecoveryProgressAliveMessagesReceiver :: "rec_params \<Rightarrow> rec_env \<Rightarrow> rec_st \<Rightarrow> phase_outcome" where
  "ncclIbPortRecoveryProgressAliveMessagesReceiver p e s =
     (if \<not> ackPosted (pr_ctx s) then
        need (flagged (ncclIbPortRecoveryPollCq e s)) (\<lambda>s.
          if nInOrderMsgsReceived (pr_ctx s) > IbResiliencyPortRecoveryAliveMsgSequenceSize p then
            need (flagged (ncclIbPortRecoveryDrainCqAndPostReceiveWRs e s)) (\<lambda>s.
            need (ncclIbPortRecoveryQpsRestore p e True s) (\<lambda>s.
            need (flagged (ncclIbPortRecoveryPostAck e s)) (phase ResultInProgress)))
          else if pe_clock e ClockAlive - timeLastMsg (pr_ctx s) > msec (IbResiliencyPortRecoveryAliveMsgTimeout p) then
            (let s1 = count_failure s in
             if attempts_used_up p s1 then phase ResultFailed s1
             else phase ResultInProgress (upd_pc (\<lambda>c. c\<lparr> timeLastMsg := pe_clock e ClockAlive \<rparr>) s1))
          else phase ResultInProgress s)
      else
        need (flagged (ncclIbPortRecoveryPollCq e s)) (\<lambda>s.
          if ackCompleted (pr_ctx s) then phase ResultGoToNextState s
          else if pe_clock e ClockAlive - timeLastMsg (pr_ctx s) > msec (IbResiliencyPortRecoveryAckTimeout p) then
            (let s1 = count_failure s in
             if attempts_used_up p s1 then phase ResultFailed s1
             else
              (let s2 = upd_pc (\<lambda>c. c\<lparr> ackPosted := False, ackCompleted := False, timeLastMsg := pe_clock e ClockAlive \<rparr>) s1 in
               case post_recvs e (recovery_qp (pc_devIndex (pr_ctx s2)) (pr_comm s2)) ALIVE_MSG_BATCH_SIZE_MAX (pr_comm s2) of
                 (r, m) \<Rightarrow> phase (if r \<noteq> ncclSuccess then ResultFailed else ResultGoToPrevState) (s2\<lparr> pr_comm := m \<rparr>)))
          else phase ResultInProgress s))"

definition set_phase :: "ncclIbPortRecoveryState \<Rightarrow> rec_st \<Rightarrow> rec_st outcome" where
  "set_phase st s = ret ncclSuccess (upd_pc (\<lambda>c. c\<lparr> pc_state := st \<rparr>) s)"

definition ncclIbPortRecoveryProgressAliveMessages :: "rec_params \<Rightarrow> rec_env \<Rightarrow> rec_st \<Rightarrow> rec_st outcome" where
  "ncclIbPortRecoveryProgressAliveMessages p e s =
     deref (if isSend (rm_base (pr_comm s)) then ncclIbPortRecoveryProgressAliveMessagesSender p e s else ncclIbPortRecoveryProgressAliveMessagesReceiver p e s)
       (\<lambda>(r, s). case r of
          Inl err \<Rightarrow> ret err s
        | Inr ResultGoToPrevState \<Rightarrow> ret ncclInternalError s
        | Inr ResultGoToNextState \<Rightarrow> set_phase RecoveryStateAck s
        | Inr ResultFailed \<Rightarrow> set_phase RecoveryStateFailed s
        | Inr ResultInProgress \<Rightarrow> ret ncclSuccess s)"

text \<open>The second half of the sender's acknowledgement phase; \<open>dflt\<close> is the result it leaves alone.\<close>

definition sender_final_ack :: "rec_env \<Rightarrow> ncclIbPortRecoveryStateProgressResult \<Rightarrow> rec_st \<Rightarrow> phase_outcome" where
  "sender_final_ack e dflt s =
     (if ackCompleted (pr_ctx s) then phase dflt s
      else need (flagged (ncclIbPortRecoveryPollCq e s)) (\<lambda>s. phase (if ackCompleted (pr_ctx s) then ResultGoToNextState else ResultInProgress) s))"

definition ncclIbPortRecoveryProgressAckSender :: "rec_params \<Rightarrow> rec_env \<Rightarrow> rec_st \<Rightarrow> phase_outcome" where
  "ncclIbPortRecoveryProgressAckSender p e s =
     (let answer = (\<lambda>success s.
            if \<not> ackPosted (pr_ctx s) then
              need (ncclIbPortRecoveryQpsRestore p e success s) (\<lambda>s.
              need (flagged (ncclIbPortRecoveryPostAck e s)) (sender_final_ack e ResultInProgress))
            else sender_final_ack e ResultFailed s)
      in if ackReceived (pr_ctx s) then answer False s
         else need (flagged (ncclIbPortRecoveryPollCq e s)) (\<lambda>s.
           if ackReceived (pr_ctx s) then answer True s
           else if pe_clock e ClockAck - timeLastMsg (pr_ctx s) > msec (IbResiliencyPortRecoveryAckTimeout p) then
             (let s1 = count_failure s in
              if attempts_used_up p s1 then phase ResultFailed s1
              else phase ResultGoToPrevState (upd_pc (\<lambda>c. c\<lparr> aliveMsgPosted := False, aliveMsgCompleted := False \<rparr>) s1))
           else phase ResultInProgress s))"

definition ncclIbPortRecoveryProgressAckReceiver :: "rec_params \<Rightarrow> rec_env \<Rightarrow> rec_st \<Rightarrow> phase_outcome" where
  "ncclIbPortRecoveryProgressAckReceiver p e s =
     need (flagged (ncclIbPortRecoveryPollCq e s)) (\<lambda>s.
       if ackReceived (pr_ctx s) then phase ResultGoToNextState s
       else if pe_clock e ClockAck - timeLastMsg (pr_ctx s) > msec (IbResiliencyPortRecoveryAckTimeout p) then
         (let s1 = count_failure s in
          if attempts_used_up p s1 then phase ResultFailed s1
          else need (flagged (ncclIbPortRecoveryDrainCqAndPostReceiveWRs e
                 (upd_pc (\<lambda>c. c\<lparr> ackPosted := False, ackCompleted := False, nInOrderMsgsReceived := 0 \<rparr>) s1))) (phase ResultGoToPrevState))
       else phase ResultInProgress s)"

definition ncclIbPortRecoveryProgressAck :: "rec_params \<Rightarrow> rec_env \<Rightarrow> rec_st \<Rightarrow> rec_st outcome" where
  "ncclIbPortRecoveryProgressAck p e s =
     deref (if isSend (rm_base (pr_comm s)) then ncclIbPortRecoveryProgressAckSender p e s else ncclIbPortRecoveryProgressAckReceiver p e s)
       (\<lambda>(r, s). case r of
          Inl err \<Rightarrow> ret err s
        | Inr ResultGoToPrevState \<Rightarrow> set_phase RecoveryStateAliveMessages s
        | Inr ResultGoToNextState \<Rightarrow> set_phase RecoveryStateSuccess s
        | Inr ResultFailed \<Rightarrow> set_phase RecoveryStateFailed s
        | Inr ResultInProgress \<Rightarrow> ret ncclSuccess s)"

section \<open>One context\<close>

text \<open>The device states are shared with the progress function of the communicator; the loops over the devices write only the state of the context's own device.\<close>

definition mark_device :: "ncclIbResiliencyDevState \<Rightarrow> rec_st \<Rightarrow> rec_st" where
  "mark_device st s =
     upd_rm (\<lambda>m. m\<lparr> rm_res := (if int (pc_devIndex (pr_ctx s)) < res_ndevs (rm_res m) then set_dev_state (pc_devIndex (pr_ctx s)) st (rm_res m) else rm_res m) \<rparr>) s"

text \<open>The start of the protocol when the delay is over.\<close>

definition recovery_start :: "rec_params \<Rightarrow> rec_env \<Rightarrow> rec_st \<Rightarrow> rec_st outcome" where
  "recovery_start p e s =
     deref (ncclIbResiliencyQpsReconfigure p e (pc_devIndex (pr_ctx s)) (pr_comm s)) (\<lambda>(r, m).
       let s1 = s\<lparr> pr_comm := m \<rparr> in
       case r of
         Inl err \<Rightarrow> ret err s1
       | Inr ok \<Rightarrow>
           if \<not> ok then set_phase RecoveryStateFailed s1
           else set_phase RecoveryStateAliveMessages (upd_pc (\<lambda>c. c\<lparr> timeLastMsg := (if isSend (rm_base m) then 0 else timeLastMsg c) \<rparr>) s1))"

text \<open>The four tests of the state that follow; the result is also whether the context is done.\<close>

definition progress_from :: "rec_params \<Rightarrow> rec_env \<Rightarrow> rec_st \<Rightarrow> ((ncclResult \<times> bool) \<times> rec_st) option" where
  "progress_from p e s =
     deref (chk (if pc_state (pr_ctx s) = RecoveryStateAliveMessages then ncclIbPortRecoveryProgressAliveMessages p e s else ret ncclSuccess s) (\<lambda>s.
            chk (if pc_state (pr_ctx s) = RecoveryStateAck then ncclIbPortRecoveryProgressAck p e s else ret ncclSuccess s) (ret ncclSuccess)))
       (\<lambda>(r, s). Some (
          if \<not> nccl_ok r then ((r, False), s)
          else case pc_state (pr_ctx s) of
            RecoveryStateSuccess \<Rightarrow> ((ncclSuccess, True), mark_device DevStateRecovered s)
          | RecoveryStateFailed \<Rightarrow> ((ncclSuccess, True), mark_device DevStateRecoveryFailed s)
          | _ \<Rightarrow> ((ncclSuccess, False), s)))"

definition ncclIbPortRecoveryContextProgress :: "rec_params \<Rightarrow> rec_env \<Rightarrow> rec_st \<Rightarrow> ((ncclResult \<times> bool) \<times> rec_st) option" where
  "ncclIbPortRecoveryContextProgress p e s =
     (if pc_state (pr_ctx s) = RecoveryStateInit then
        if pe_clock e ClockStart - pc_timeInit (pr_ctx s) < msec (IbResiliencyPortRecoveryStartDelay p) then Some ((ncclSuccess, False), s)
        else deref (recovery_start p e s) (\<lambda>(r, s1). if \<not> nccl_ok r then Some ((r, False), s1) else progress_from p e s1)
      else progress_from p e s)"

text \<open>\<open>ncclIbPortRecoveryQpsToError\<close> and \<open>ncclIbPortRecoveryContextInit\<close>.\<close>

fun qps_to_error :: "qp_env \<Rightarrow> nat \<Rightarrow> ncclIbQp list \<Rightarrow> qp_log \<Rightarrow> ncclResult \<times> qp_log" where
  "qps_to_error e d [] l = (ncclSuccess, l)"
| "qps_to_error e d (q # qs) l =
     (if qp_devIndex q \<noteq> int d then qps_to_error e d qs l
      else case ncclIbQpError e q l of (r, l1) \<Rightarrow> if nccl_ok r then qps_to_error e d qs l1 else (r, l1))"

definition ncclIbPortRecoveryQpsToError :: "rec_env \<Rightarrow> nat \<Rightarrow> rec_comm \<Rightarrow> ncclResult \<times> rec_comm" where
  "ncclIbPortRecoveryQpsToError e d m =
     (case qps_to_error (pe_qp e) d (take (nat (nqps (rm_base m))) (qps (rm_base m))) (rm_log m) of (r, l) \<Rightarrow> (r, m\<lparr> rm_log := l \<rparr>))"

definition fresh_context :: "rec_env \<Rightarrow> nat \<Rightarrow> nat \<Rightarrow> ncclIbPortRecoveryContext" where
  "fresh_context e res d = \<lparr> pc_resCtx = res, pc_devIndex = d, pc_state = RecoveryStateInit, pc_timeInit = pe_clock e ClockInit, nFailedAttempts = 0, timeLastMsg = 0,
     aliveMsgNextId = 0, ackReceived = False, ackPosted = False, ackCompleted = False, aliveMsgPosted = False, aliveMsgCompleted = False, nInOrderMsgsReceived = 0 \<rparr>"

definition ncclIbPortRecoveryContextInit :: "rec_env \<Rightarrow> nat \<Rightarrow> nat \<Rightarrow> rec_comm \<Rightarrow> (ncclResult + ncclIbPortRecoveryContext) \<times> rec_comm" where
  "ncclIbPortRecoveryContextInit e res d m =
     (if \<not> pe_alloc e then (Inl ncclInternalError, m)
      else (case ncclIbPortRecoveryQpsToError e d m of (r, m1) \<Rightarrow>
        if r \<noteq> ncclSuccess then (Inl r, m1)
        else (case post_recvs e (recovery_qp d m1) (if isSend (rm_base m1) then 1 else ALIVE_MSG_BATCH_SIZE_MAX) m1 of (r, m2) \<Rightarrow>
          (if r \<noteq> ncclSuccess then Inl r else Inr (fresh_context e res d), m2))))"

section \<open>The recovery thread\<close>

text \<open>
  The state shared between the thread and its callers. A resiliency context is a number, and \<open>th_comm\<close> its communicator; \<open>th_close\<close> are the close requests by their resiliency contexts, and
  \<open>th_closed\<close> those the thread has completed, on which the callers of \<open>ncclIbPortRecoveryClose\<close> wait. Every step below runs under the mutex where the code holds it.
\<close>

record rec_thread =
  th_active :: bool
  th_refCount :: int
  th_inbox :: "ncclIbPortRecoveryContext list"
  th_queue :: "ncclIbPortRecoveryContext list"
  th_close :: "nat list"
  th_closed :: "nat list"
  th_comm :: "nat \<Rightarrow> rec_comm"

definition ncclIbPortRecoveryHandleFailure :: "rec_env \<Rightarrow> nat \<Rightarrow> nat \<Rightarrow> rec_thread \<Rightarrow> rec_thread outcome" where
  "ncclIbPortRecoveryHandleFailure e res d t =
     (let m = th_comm t res in
      if \<not> recoveryEnabled (rm_res m) then ret ncclInternalError t
      else if length (res_devs (rm_res m)) \<le> d then None
      else if dev_state (rm_res m) d \<noteq> DevStateRecoveryInProgress then ret ncclInternalError t
      else (case ncclIbPortRecoveryContextInit e res d m of
              (Inl r, m1) \<Rightarrow> ret r (t\<lparr> th_comm := (th_comm t)(res := m1) \<rparr>)
            | (Inr c, m1) \<Rightarrow> ret ncclSuccess (t\<lparr> th_comm := (th_comm t)(res := m1), th_inbox := th_inbox t @ [c] \<rparr>)))"

text \<open>\<open>ncclIbPortRecoveryClose\<close> up to the point where it waits: whether the caller waits, and the request it leaves.\<close>

definition ncclIbPortRecoveryClose :: "nat \<Rightarrow> rec_thread \<Rightarrow> bool \<times> rec_thread" where
  "ncclIbPortRecoveryClose res t =
     (if \<not> recoveryEnabled (rm_res (th_comm t res)) \<or> \<not> th_active t then (False, t) else (True, t\<lparr> th_close := th_close t @ [res] \<rparr>))"

definition ncclIbPortRecoveryHandleCloseRequests :: "nat list \<Rightarrow> ncclIbPortRecoveryContext list \<Rightarrow> ncclIbPortRecoveryContext list" where
  "ncclIbPortRecoveryHandleCloseRequests requests queue = foldl (\<lambda>q res. filter (\<lambda>c. pc_resCtx c \<noteq> res) q) queue requests"

text \<open>The loop over the queue: \<open>Inl\<close> the error that ends the thread. A context that is done leaves the queue.\<close>

fun progress_queue :: "rec_params \<Rightarrow> (nat \<Rightarrow> rec_env) \<Rightarrow> ncclIbPortRecoveryContext list \<Rightarrow> (nat \<Rightarrow> rec_comm) \<Rightarrow>
    ((ncclResult option) \<times> ncclIbPortRecoveryContext list \<times> (nat \<Rightarrow> rec_comm)) option" where
  "progress_queue p ev [] comms = Some (None, [], comms)"
| "progress_queue p ev (c # cs) comms =
     deref (ncclIbPortRecoveryContextProgress p (ev (pc_resCtx c)) \<lparr> pr_ctx = c, pr_comm = comms (pc_resCtx c) \<rparr>) (\<lambda>((r, done), s).
       let comms1 = comms(pc_resCtx c := pr_comm s) in
       if \<not> nccl_ok r then Some (Some r, pr_ctx s # cs, comms1)
       else deref (progress_queue p ev cs comms1) (\<lambda>(err, cs1, comms2). Some (err, if done then cs1 else pr_ctx s # cs1, comms2)))"

datatype turn = Waits | Continues | Ends ncclResult

text \<open>One turn of the loop of \<open>ncclIbPortRecoveryAsyncThreadMain\<close>, with what the function checks on its way out.\<close>

definition ncclIbPortRecoveryAsyncThreadMain_turn :: "rec_params \<Rightarrow> (nat \<Rightarrow> rec_env) \<Rightarrow> rec_thread \<Rightarrow> (turn \<times> rec_thread) option" where
  "ncclIbPortRecoveryAsyncThreadMain_turn p ev t =
     (if th_active t \<and> th_inbox t = [] \<and> th_queue t = [] \<and> th_close t = [] then Some (Waits, t)
      else
       (let t1 = t\<lparr> th_queue := ncclIbPortRecoveryHandleCloseRequests (th_close t) (th_queue t @ th_inbox t), th_inbox := [], th_close := [],
                    th_closed := th_closed t @ th_close t \<rparr>
        in if \<not> th_active t1 then Some (Ends (if th_queue t1 \<noteq> [] then ncclInternalError else ncclSuccess), t1)
           else deref (progress_queue p ev (th_queue t1) (th_comm t1)) (\<lambda>(err, q, comms).
             let t2 = t1\<lparr> th_queue := q, th_comm := comms \<rparr> in
             Some (case err of Some r \<Rightarrow> Ends r | None \<Rightarrow> Continues, t2))))"

definition ncclIbPortRecoveryInit :: "rec_thread \<Rightarrow> ncclIbResiliency \<Rightarrow> ncclIbResiliency" where
  "ncclIbPortRecoveryInit t ctx = ctx\<lparr> recoveryEnabled := th_active t \<rparr>"

text \<open>Starting and stopping count the users; the flag is whether the call starts the thread, or asks it to end and joins it.\<close>

definition ncclIbPortRecoveryThreadStart :: "rec_params \<Rightarrow> rec_thread \<Rightarrow> bool \<times> rec_thread" where
  "ncclIbPortRecoveryThreadStart p t =
     (if IbResiliencyPortRecovery p = 0 then (False, t)
      else (\<not> th_active t, t\<lparr> th_refCount := th_refCount t + 1, th_active := True \<rparr>))"

definition ncclIbPortRecoveryThreadStop :: "rec_params \<Rightarrow> rec_thread \<Rightarrow> bool \<times> rec_thread" where
  "ncclIbPortRecoveryThreadStop p t =
     (if IbResiliencyPortRecovery p = 0 then (False, t)
      else
       (let n = th_refCount t - 1 in
        if n > 0 then (False, t\<lparr> th_refCount := n \<rparr>) else (True, t\<lparr> th_refCount := n, th_active := False \<rparr>)))"

end
