(* ===== verification/NetIb_Recovery_Facts.thy ===== *)
theory NetIb_Recovery_Facts
  imports NetIb_Recovery
begin

text \<open>
  What the recovery protocol guarantees. The first part follows the queue pairs through the loops that reconfigure them, with the common contract of these loops as an interface; the second
  states what one phase of the protocol keeps, and the third lifts it to all reachable states of a context.
\<close>

section \<open>The state of a queue pair\<close>

text \<open>The state the last accepted modification put an object into.\<close>

definition qp_state_of :: "qp_log \<Rightarrow> qp_obj \<Rightarrow> ibv_qp_state option" where
  "qp_state_of l obj = (case rev (filter (\<lambda>c. mc_obj c = obj) (ql_modified l)) of [] \<Rightarrow> None | c # cs \<Rightarrow> Some (qa_state (mc_attr c)))"

lemma qp_state_of_append [simp]:
  "qp_state_of (l\<lparr> ql_modified := ql_modified l @ [c] \<rparr>) obj = (if mc_obj c = obj then Some (qa_state (mc_attr c)) else qp_state_of l obj)"
  by (simp add: qp_state_of_def)

lemma modify_ok: "modify e c l = (ncclSuccess, l') \<Longrightarrow> l' = l\<lparr> ql_modified := ql_modified l @ [c] \<rparr>"
  by (auto simp: modify_def nccl_ok_def split: if_splits)

lemma transition_states:
  "ncclIbQpReset e qp l = (ncclSuccess, l') \<Longrightarrow> qp_state_of l' obj = (if obj = backing qp then Some QPS_RESET else qp_state_of l obj)"
  "ncclIbQpInit e qp l = (ncclSuccess, l') \<Longrightarrow> qp_state_of l' obj = (if obj = backing qp then Some (ia_state (qp_initAttr qp)) else qp_state_of l obj)"
  "ncclIbQpRtr e qp l = Some (ncclSuccess, l') \<Longrightarrow> qp_state_of l' obj = (if obj = backing qp then Some QPS_RTR else qp_state_of l obj)"
  "ncclIbQpRts p e qp l = Some (ncclSuccess, l') \<Longrightarrow> qp_state_of l' obj = (if obj = backing qp then Some QPS_RTS else qp_state_of l obj)"
  by (auto simp: ncclIbQpReset_def ncclIbQpInit_def ncclIbQpRtr_def ncclIbQpRts_def Let_def dest!: modify_ok split: if_splits)

lemma reconfigure_states:
  assumes "ncclIbResiliencyQpReconfigure p e devBase qp l = Some (Inr True, qp', l')"
  shows "qp_qp qp \<noteq> 0 \<and> qp_qp qp' = qp_qp qp \<and> qp_mrcQp qp' = qp_mrcQp qp \<and> qp_devIndex qp' = qp_devIndex qp
    \<and> qp_state_of l' obj = (if obj = backing qp then Some QPS_RTS else qp_state_of l obj)"
  using assms
  by (auto simp: ncclIbResiliencyQpReconfigure_def deref_def Let_def backing_def is_mrc_def dest!: transition_states [where obj = obj]
      split: if_splits prod.splits option.splits)

section \<open>Passes over queue pairs\<close>

definition same_parts :: "rec_comm \<Rightarrow> rec_comm \<Rightarrow> bool" where
  "same_parts m m' \<longleftrightarrow> rm_base m' = rm_base m \<and> rm_res m' = rm_res m \<and> rm_sent m' = rm_sent m"

lemma same_parts_refl [simp]: "same_parts m m"
  by (simp add: same_parts_def)

lemma same_parts_trans: "same_parts m1 m2 \<Longrightarrow> same_parts m2 m3 \<Longrightarrow> same_parts m1 m3"
  by (simp add: same_parts_def)

definition qp_ready :: "rec_comm \<Rightarrow> ncclIbQp \<Rightarrow> bool" where
  "qp_ready m q \<longleftrightarrow> qp_qp q \<noteq> 0 \<and> qp_state_of (rm_log m) (backing q) = Some QPS_RTS"

text \<open>What the loops rely on: a step that reports success leaves its queue pair ready to send, on its device, and no other queue pair that was ready worse off.\<close>

locale qps_pass =
  fixes f :: "ncclIbQp \<Rightarrow> rec_comm \<Rightarrow> ((ncclResult + bool) \<times> ncclIbQp \<times> rec_comm) option"
  assumes step_ready: "f q m = Some (Inr True, q', m') \<Longrightarrow> qp_ready m' q' \<and> qp_devIndex q' = qp_devIndex q"
    and step_keeps: "f q m = Some (Inr True, q', m') \<Longrightarrow> qp_ready m x \<Longrightarrow> qp_ready m' x"
    and step_frame: "f q m = Some (r, q', m') \<Longrightarrow> same_parts m m'"
    and step_error: "f q m = Some (Inl err, q', m') \<Longrightarrow> err = ncclInternalError"
begin

lemma loop_keeps: "qps_loop skip f qs m = Some (Inr True, qs', m') \<Longrightarrow> qp_ready m x \<Longrightarrow> qp_ready m' x"
proof (induction qs arbitrary: m qs')
  case (Cons q qs)
  then show ?case by (fastforce simp: deref_def split: if_splits option.splits dest: step_keeps)
qed simp

lemma loop_ready:
  "qps_loop skip f qs m = Some (Inr True, qs', m') \<Longrightarrow> list_all2 (\<lambda>q q'. qp_devIndex q' = qp_devIndex q \<and> (skip q \<longrightarrow> q' = q) \<and> (\<not> skip q \<longrightarrow> qp_ready m' q')) qs qs'"
proof (induction qs arbitrary: m qs')
  case (Cons q qs)
  show ?case
  proof (cases "skip q")
    case True
    then show ?thesis using Cons by (auto simp: deref_def split: option.splits)
  next
    case False
    obtain q1 m1 qs1 where f: "f q m = Some (Inr True, q1, m1)" "qps_loop skip f qs m1 = Some (Inr True, qs1, m')" "qs' = q1 # qs1"
      using Cons.prems False by (auto simp: deref_def split: option.splits if_splits)
    then show ?thesis using Cons.IH [OF f(2)] step_ready [OF f(1)] loop_keeps [OF f(2)] False by simp
  qed
qed simp

lemma loop_error: "qps_loop skip f qs m = Some (Inl err, qs', m') \<Longrightarrow> err = ncclInternalError"
proof (induction qs arbitrary: m qs')
  case (Cons q qs)
  then show ?case by (auto simp: deref_def split: if_splits option.splits dest: step_error)
qed simp

lemma loop_frame: "qps_loop skip f qs m = Some (r, qs', m') \<Longrightarrow> same_parts m m' \<and> length qs' = length qs"
proof (induction qs arbitrary: m qs')
  case (Cons q qs)
  then show ?case by (auto simp: deref_def split: if_splits option.splits dest: step_frame intro: same_parts_trans dest!: Cons.IH)
qed simp

end

text \<open>Receives on the recovery queue pair and polling change only the receives, the completion queue and the number of polls.\<close>

definition touched :: "rec_comm \<Rightarrow> rec_comm \<Rightarrow> bool" where
  "touched m m' \<longleftrightarrow> (\<exists>rs cq n. m' = m\<lparr> rm_recvs := rs, rm_cq := cq, rm_polls := n \<rparr>)"

lemma touchedI [intro]: "touched m (m\<lparr> rm_recvs := rs, rm_cq := cq, rm_polls := n \<rparr>)"
  by (auto simp: touched_def)

lemma touched_cases [simp]: "touched m m" "touched m (m\<lparr> rm_recvs := rs \<rparr>)" "touched m (m\<lparr> rm_cq := cq \<rparr>)" "touched m (m\<lparr> rm_polls := n \<rparr>)"
  unfolding touched_def
  by (rule exI [of _ "rm_recvs m"], rule exI [of _ "rm_cq m"], rule exI [of _ "rm_polls m"], simp)
     (rule exI [of _ rs], rule exI [of _ "rm_cq m"], rule exI [of _ "rm_polls m"], simp,
      rule exI [of _ "rm_recvs m"], rule exI [of _ cq], rule exI [of _ "rm_polls m"], simp,
      rule exI [of _ "rm_recvs m"], rule exI [of _ "rm_cq m"], rule exI [of _ n], simp)

lemma touched_trans: "touched m1 m2 \<Longrightarrow> touched m2 m3 \<Longrightarrow> touched m1 m3"
  unfolding touched_def by (elim exE) (simp, blast)

lemma touched_parts: "touched m m' \<Longrightarrow> same_parts m m' \<and> rm_log m' = rm_log m \<and> rm_devs m' = rm_devs m"
  by (auto simp: touched_def same_parts_def)

lemma post_recv_touched: "ncclIbPortRecoveryPostRecvWorkRequest e q m = (r, m') \<Longrightarrow> touched m m'"
  by (auto simp: ncclIbPortRecoveryPostRecvWorkRequest_def Let_def)

lemma post_recvs_touched: "post_recvs e q n m = (r, m') \<Longrightarrow> touched m m'"
proof (induction n arbitrary: m)
  case (Suc n)
  then show ?case by (auto split: prod.splits if_splits dest: post_recv_touched intro: touched_trans)
qed simp

lemma drain_touched: "drain e q m = (ok, m') \<Longrightarrow> touched m m'"
proof (induction e q m rule: drain.induct)
  case (1 e q m)
  define m1 where "m1 = m\<lparr> rm_polls := rm_polls m + 1 \<rparr>"
  define m2 where "m2 = m1\<lparr> rm_cq := drop PORT_RECOVERY_CQ_SIZE (rm_cq m) \<rparr>"
  have t: "touched m m1" "touched m m2" unfolding m1_def m2_def by (auto intro: touched_trans [OF touched_cases(4) touched_cases(3)])
  consider "m' = m1"
    | r m3 where "post_recvs e q (length (take PORT_RECOVERY_CQ_SIZE (rm_cq m))) m2 = (r, m3)" "m' = m3"
    | r m3 where "post_recvs e q (length (take PORT_RECOVERY_CQ_SIZE (rm_cq m))) m2 = (r, m3)" "pe_poll e (rm_polls m) = ncclSuccess"
        "take PORT_RECOVERY_CQ_SIZE (rm_cq m) \<noteq> []" "r = ncclSuccess" "drain e q (m3\<lparr> rm_cq := drop PORT_RECOVERY_CQ_SIZE (rm_cq m) \<rparr>) = (ok, m')"
    using 1(2) by (subst (asm) drain.simps) (auto simp: Let_def m1_def m2_def split: if_splits prod.splits)
  then show ?case
  proof cases
    case (3 r m3)
    have "touched m3 (m3\<lparr> rm_cq := drop PORT_RECOVERY_CQ_SIZE (rm_cq m) \<rparr>)" by simp
    moreover have "touched (m3\<lparr> rm_cq := drop PORT_RECOVERY_CQ_SIZE (rm_cq m) \<rparr>) m'"
      using 1(1) [OF refl refl _ _ _ _ 3(5)] 3(1-4) by (simp add: m1_def m2_def)
    ultimately show ?thesis using t(2) post_recvs_touched [OF 3(1)] touched_trans by blast
  qed (use t post_recvs_touched touched_trans in blast)+
qed

lemma qp_ready_log: "rm_log m' = rm_log m \<Longrightarrow> qp_ready m' q = qp_ready m q"
  by (simp add: qp_ready_def)

lemma reconfigure_frame: "reconfigure p e d q m = Some (r, q', m') \<Longrightarrow> same_parts m m'"
  by (auto simp: reconfigure_def deref_def same_parts_def split: option.splits)

lemma reconfigure_error: "reconfigure p e d q m = Some (Inl err, q', m') \<Longrightarrow> err = ncclInternalError"
  by (auto simp: reconfigure_def ncclIbResiliencyQpReconfigure_def deref_def Let_def split: option.splits if_splits prod.splits)

lemma reconfigure_ready:
  assumes "reconfigure p e d q m = Some (Inr True, q', m')"
  shows "qp_ready m' q' \<and> qp_devIndex q' = qp_devIndex q" and "qp_ready m x \<Longrightarrow> qp_ready m' x"
proof -
  obtain l where l: "ncclIbResiliencyQpReconfigure (rp_qp p) (pe_qp e) (rm_devs m ! d) q (rm_log m) = Some (Inr True, q', l)" "m' = m\<lparr> rm_log := l \<rparr>"
    using assms by (auto simp: reconfigure_def deref_def split: option.splits)
  have "backing q' = backing q" using reconfigure_states [OF l(1)] by (simp add: backing_def is_mrc_def)
  then show "qp_ready m' q' \<and> qp_devIndex q' = qp_devIndex q" using reconfigure_states [OF l(1), of "backing q"] by (simp add: qp_ready_def l(2))
  show "qp_ready m' x" if "qp_ready m x" using that reconfigure_states [OF l(1), of "backing x"] by (simp add: qp_ready_def l(2))
qed

interpretation probing: qps_pass "reconfigure p e d" for p e d
  by unfold_locales (erule reconfigure_ready(1), erule (1) reconfigure_ready(2), erule reconfigure_frame, erule reconfigure_error)

text \<open>A step that reconfigures a queue pair and then does something that leaves the log alone.\<close>

lemma then_do_pass:
  assumes frame: "\<And>q m r m'. k q m = Some (r, m') \<Longrightarrow> same_parts m m' \<and> rm_log m' = rm_log m \<and> r \<in> range Inr"
  shows "qps_pass (\<lambda>q m. then_do (reconfigure p e d q m) k)"
proof
  fix q m q' m' x
  assume h: "then_do (reconfigure p e d q m) k = Some (Inr True, q', m')"
  then obtain m1 where r: "reconfigure p e d q m = Some (Inr True, q', m1)" "k q' m1 = Some (Inr True, m')"
    by (auto simp: then_do_def deref_def split: option.splits if_splits)
  show "qp_ready m' q' \<and> qp_devIndex q' = qp_devIndex q" "qp_ready m x \<Longrightarrow> qp_ready m' x"
    using reconfigure_ready [OF r(1)] qp_ready_log [of m' m1] frame [OF r(2)] by simp_all
next
  fix q m r q' m'
  assume "then_do (reconfigure p e d q m) k = Some (r, q', m')"
  then consider m1 where "reconfigure p e d q m = Some (Inr True, q', m1)" "k q' m1 = Some (r, m')" | "reconfigure p e d q m = Some (r, q', m')"
    by (auto simp: then_do_def deref_def split: option.splits if_splits)
  then show "same_parts m m'"
  proof cases
    case (1 m1)
    show ?thesis by (rule same_parts_trans [OF reconfigure_frame [OF 1(1)] conjunct1 [OF frame [OF 1(2)]]])
  qed (rule reconfigure_frame)
next
  fix q m err q' m'
  assume "then_do (reconfigure p e d q m) k = Some (Inl err, q', m')"
  then have "reconfigure p e d q m = Some (Inl err, q', m')" by (auto simp: then_do_def deref_def split: option.splits if_splits dest: frame)
  then show "err = ncclInternalError" by (rule reconfigure_error)
qed

interpretation recovery: qps_pass "reconfigure_recovery_qp p e d" for p e d
  unfolding reconfigure_recovery_qp_def
  by (rule then_do_pass) (auto split: prod.splits dest!: post_recvs_touched touched_parts)

lemma post_data_recvs_frame: "post_data_recvs e q n m = (r, m') \<Longrightarrow> same_parts m m' \<and> rm_log m' = rm_log m"
proof (induction n arbitrary: m)
  case (Suc n)
  then show ?case by (fastforce simp: Let_def same_parts_def split: if_splits)
qed simp

interpretation data: qps_pass "restore_data_qp p e d" for p e d
  unfolding restore_data_qp_def
  by (rule then_do_pass) (auto simp: ncclIbPostReceiveWorkRequestsOnQp_def deref_def split: option.splits if_splits sum.splits dest: post_data_recvs_frame)

text \<open>All data queue pairs of the device are plain queue pairs, ready to send.\<close>

definition restored :: "nat \<Rightarrow> rec_comm \<Rightarrow> bool" where
  "restored d m \<longleftrightarrow> (\<forall>q \<in> set (take (nat (nqps (rm_base m))) (qps (rm_base m))). qp_devIndex q = int d \<longrightarrow> qp_ready m q)"

text \<open>What no step of the protocol changes.\<close>

definition kept :: "rec_comm \<Rightarrow> rec_comm \<Rightarrow> bool" where
  "kept m m' \<longleftrightarrow> isSend (rm_base m') = isSend (rm_base m) \<and> nqps (rm_base m') = nqps (rm_base m) \<and> res_ndevs (rm_res m') = res_ndevs (rm_res m)
     \<and> res_devs (rm_res m') = res_devs (rm_res m)"

lemma kept_refl [simp]: "kept m m"
  by (simp add: kept_def)

lemma kept_trans: "kept m1 m2 \<Longrightarrow> kept m2 m3 \<Longrightarrow> kept m1 m3"
  by (simp add: kept_def)

lemma same_parts_kept: "same_parts m m' \<Longrightarrow> kept m m'"
  by (simp add: same_parts_def kept_def)

lemma touched_kept: "touched m m' \<Longrightarrow> kept m m'"
  using touched_parts same_parts_kept by blast

lemma restore_data_qps_facts:
  assumes "restore_data_qps p e d m = Some (r, m')"
  shows "kept m m' \<and> rm_sent m' = rm_sent m" and "r = Inr True \<Longrightarrow> restored d m'"
proof -
  define n xs where "n = nat (nqps (rm_base m))" and "xs = qps (rm_base m)"
  obtain qs m1 where l: "qps_loop (\<lambda>qp. qp_devIndex qp \<noteq> int d) (restore_data_qp p e d) (take n xs) m = Some (r, qs, m1)"
    "m' = m1\<lparr> rm_base := (rm_base m1)\<lparr> qps := qs @ drop n xs \<rparr> \<rparr>"
    using assms by (auto simp: restore_data_qps_def deref_def Let_def n_def xs_def split: option.splits)
  note fr = data.loop_frame [OF l(1)]
  then show "kept m m' \<and> rm_sent m' = rm_sent m" by (auto simp: kept_def same_parts_def l(2))
  show "restored d m'" if "r = Inr True"
  proof -
    have "list_all2 (\<lambda>q q'. qp_devIndex q' = qp_devIndex q \<and> (\<not> qp_devIndex q \<noteq> int d \<longrightarrow> qp_ready m1 q')) (take n xs) qs"
      using data.loop_ready [OF l(1) [unfolded that]] by (rule list_all2_mono) simp
    then have rdy: "\<forall>q \<in> set qs. qp_devIndex q = int d \<longrightarrow> qp_ready m1 q"
      by (metis (mono_tags, lifting) in_set_conv_nth list_all2_conv_all_nth)
    have "take n (qs @ drop n xs) = qs \<or> length xs < n" using fr by auto
    moreover have "length xs < n \<Longrightarrow> drop n xs = [] \<and> take n qs = qs" using fr by simp
    ultimately have "set (take n (qs @ drop n xs)) \<subseteq> set qs" using fr by (cases "length xs < n") auto
    moreover have "nqps (rm_base m') = nqps (rm_base m)" using fr by (simp add: l(2) same_parts_def)
    ultimately show ?thesis using rdy qp_ready_log [of m' m1] by (auto simp: restored_def l(2) n_def)
  qed
qed

lemma restore_flush_qp_facts:
  assumes "restore_flush_qp p e d m = Some (r, m')"
  shows "kept m m' \<and> rm_sent m' = rm_sent m" and "r = Inr True \<Longrightarrow> restored d m \<Longrightarrow> restored d m'"
proof -
  consider "m' = m" | q q' m1 where "reconfigure p e d q m = Some (r, q', m1)" "m' = m1\<lparr> rm_flushQps := (rm_flushQps m1)[d := q'] \<rparr>"
    using assms by (auto simp: restore_flush_qp_def deref_def Let_def split: if_splits option.splits)
  note c = this
  from c show "kept m m' \<and> rm_sent m' = rm_sent m"
  proof cases
    case (2 q q' m1)
    then show ?thesis using reconfigure_frame [OF 2(1)] by (simp add: kept_def same_parts_def)
  qed simp
  show "restored d m'" if "r = Inr True" "restored d m"
    using c
  proof cases
    case (2 q q' m1)
    have "rm_base m' = rm_base m" using reconfigure_frame [OF 2(1)] by (simp add: 2(2) same_parts_def)
    moreover have "qp_ready m x \<Longrightarrow> qp_ready m' x" for x using reconfigure_ready(2) [OF 2(1) [unfolded that(1)]] by (simp add: 2(2) qp_ready_def)
    ultimately show ?thesis using that(2) by (simp add: restored_def)
  qed (use that in simp)
qed

lemma restore_facts:
  assumes "ncclIbPortRecoveryQpsRestore p e ok s = Some (r, s')"
  shows "pr_ctx s' = pr_ctx s \<and> kept (pr_comm s) (pr_comm s') \<and> rm_sent (pr_comm s') = rm_sent (pr_comm s)"
    and "r = Inr True \<Longrightarrow> restored (pc_devIndex (pr_ctx s)) (pr_comm s')"
proof -
  let ?d = "pc_devIndex (pr_ctx s)"
  obtain r1 m1 where d: "restore_data_qps p e ?d (pr_comm s) = Some (r1, m1)"
    and c: "r1 \<noteq> Inr True \<and> r = r1 \<and> s' = s\<lparr> pr_comm := m1 \<rparr>
      \<or> r1 = Inr True \<and> (\<exists>r2 m2. restore_flush_qp p e ?d m1 = Some (r2, m2) \<and> r = (if r2 = Inr True then Inr ok else r2) \<and> s' = s\<lparr> pr_comm := m2 \<rparr>)"
    using assms by (auto simp: ncclIbPortRecoveryQpsRestore_def deref_def Let_def split: if_splits option.splits)
  note df = restore_data_qps_facts [OF d]
  show "pr_ctx s' = pr_ctx s \<and> kept (pr_comm s) (pr_comm s') \<and> rm_sent (pr_comm s') = rm_sent (pr_comm s)"
    using c df(1) restore_flush_qp_facts(1) kept_trans by fastforce
  show "restored ?d (pr_comm s')" if "r = Inr True"
    using c that df(2) restore_flush_qp_facts(2) by (fastforce split: if_splits)
qed

lemma restore_data_qps_error: "restore_data_qps p e d m = Some (Inl err, m') \<Longrightarrow> err = ncclInternalError"
  by (auto simp: restore_data_qps_def deref_def Let_def split: option.splits) (erule data.loop_error)

lemma restore_flush_qp_error: "restore_flush_qp p e d m = Some (Inl err, m') \<Longrightarrow> err = ncclInternalError"
  by (auto simp: restore_flush_qp_def deref_def Let_def split: option.splits if_splits) (erule reconfigure_error)

lemma restore_error: "ncclIbPortRecoveryQpsRestore p e ok s = Some (Inl err, s') \<Longrightarrow> err = ncclInternalError"
  by (auto simp: ncclIbPortRecoveryQpsRestore_def deref_def Let_def split: if_splits option.splits)
    (erule restore_data_qps_error restore_flush_qp_error)+

lemma qps_reconfigure_facts:
  assumes "ncclIbResiliencyQpsReconfigure p e d m = Some (r, m')"
  shows "kept m m' \<and> rm_sent m' = rm_sent m"
proof -
  have rec: "kept m1 m2 \<and> rm_sent m2 = rm_sent m1" if "ncclIbPortRecoveryQpsReconfigure p e d m1 = Some (r, m2)" for m1 m2 r
    using that by (auto simp: ncclIbPortRecoveryQpsReconfigure_def deref_def Let_def kept_def same_parts_def split: if_splits option.splits dest!: recovery.loop_frame)
  let ?qs = "\<lambda>qs. qs @ drop (nat (nProbingQps (rm_res m))) (probingQps (rm_res m))"
  obtain b r1 qs m2 where l: "qps_loop (\<lambda>qp. qp_qp qp = 0 \<or> qp_devIndex qp \<noteq> int d) (reconfigure p e d)
        (take (nat (nProbingQps (rm_res m))) (probingQps (rm_res m))) (m\<lparr> rm_devs := b \<rparr>) = Some (r1, qs, m2)"
    and c: "(if r1 = Inr True then ncclIbPortRecoveryQpsReconfigure p e d (m2\<lparr> rm_res := (rm_res m2)\<lparr> probingQps := ?qs qs \<rparr> \<rparr>)
             else Some (r1, m2\<lparr> rm_res := (rm_res m2)\<lparr> probingQps := ?qs qs \<rparr> \<rparr>)) = Some (r, m')"
    using assms by (auto simp: ncclIbResiliencyQpsReconfigure_def deref_def Let_def split: option.splits)
  define m3 where "m3 = m2\<lparr> rm_res := (rm_res m2)\<lparr> probingQps := ?qs qs \<rparr> \<rparr>"
  have m3: "kept m m3 \<and> rm_sent m3 = rm_sent m" using probing.loop_frame [OF l] by (auto simp: m3_def kept_def same_parts_def)
  show ?thesis
  proof (cases "r1 = Inr True")
    case True
    then show ?thesis using c rec [of m3 r m'] m3 kept_trans by (auto simp: m3_def [symmetric])
  next
    case False
    then show ?thesis using c m3 by (simp add: m3_def)
  qed
qed

lemma qps_reconfigure_error: "ncclIbResiliencyQpsReconfigure p e d m = Some (Inl err, m') \<Longrightarrow> err = ncclInternalError"
proof -
  have rec: "err = ncclInternalError" if "ncclIbPortRecoveryQpsReconfigure p e d m1 = Some (Inl err, m2)" for m1 m2
    using that by (auto simp: ncclIbPortRecoveryQpsReconfigure_def deref_def Let_def split: if_splits option.splits) (erule recovery.loop_error)
  show "ncclIbResiliencyQpsReconfigure p e d m = Some (Inl err, m') \<Longrightarrow> err = ncclInternalError"
    by (auto simp: ncclIbResiliencyQpsReconfigure_def deref_def Let_def split: if_splits option.splits) (erule rec probing.loop_error)+
qed

section \<open>What a phase keeps\<close>

text \<open>Polling changes no field a phase bases its promises on; the number of messages in order stands still once the acknowledgement is posted.\<close>

definition ctx_kept :: "ncclIbPortRecoveryContext \<Rightarrow> ncclIbPortRecoveryContext \<Rightarrow> bool" where
  "ctx_kept c c' \<longleftrightarrow> pc_state c' = pc_state c \<and> pc_devIndex c' = pc_devIndex c \<and> ackPosted c' = ackPosted c \<and> nFailedAttempts c' = nFailedAttempts c
     \<and> (ackPosted c \<longrightarrow> nInOrderMsgsReceived c' = nInOrderMsgsReceived c) \<and> (ackReceived c \<longrightarrow> ackReceived c')"

lemma ctx_kept_refl [simp]: "ctx_kept c c"
  by (simp add: ctx_kept_def)

lemma handle_sender_facts: "ncclIbPortRecoveryHandleCompletionSender wc s = (ok, s') \<Longrightarrow> pr_comm s' = pr_comm s \<and> ctx_kept (pr_ctx s) (pr_ctx s')"
  by (auto simp: ncclIbPortRecoveryHandleCompletionSender_def Let_def upd_pc_def ctx_kept_def split: ncclIbPortRecoveryState.splits if_splits)

lemma handle_receiver_facts:
  assumes "ncclIbPortRecoveryHandleCompletionReceiver e wc s = (ok, s')"
  shows "touched (pr_comm s) (pr_comm s') \<and> ctx_kept (pr_ctx s) (pr_ctx s')"
  using assms
  by (cases "pc_state (pr_ctx s)")
     (auto simp: ncclIbPortRecoveryHandleCompletionReceiver_def Let_def upd_pc_def ctx_kept_def split: if_splits prod.splits dest: post_recv_touched)

lemma poll_facts:
  assumes "ncclIbPortRecoveryPollCq e s = (ok, s')"
  shows "touched (pr_comm s) (pr_comm s') \<and> ctx_kept (pr_ctx s) (pr_ctx s')"
proof -
  define s1 where "s1 = upd_rm (\<lambda>m. m\<lparr> rm_polls := rm_polls m + 1 \<rparr>) s"
  have t: "touched (pr_comm s) (pr_comm s1)" "pr_ctx s1 = pr_ctx s" by (simp_all add: s1_def upd_rm_def)
  show ?thesis
  proof (cases "pe_poll e (rm_polls (pr_comm s)) \<noteq> ncclSuccess \<or> rm_cq (pr_comm s) = []")
    case True
    then have "s' = s1" using assms by (auto simp: ncclIbPortRecoveryPollCq_def Let_def s1_def split: if_splits)
    then show ?thesis using t by simp
  next
    case False
    then obtain wc wcs where cq: "rm_cq (pr_comm s) = wc # wcs" by (cases "rm_cq (pr_comm s)") auto
    define s2 where "s2 = upd_rm (\<lambda>m. m\<lparr> rm_cq := wcs \<rparr>) s1"
    have t2: "touched (pr_comm s) (pr_comm s2)" "pr_ctx s2 = pr_ctx s"
      using t touched_trans [OF t(1)] by (simp_all add: s2_def upd_rm_def)
    consider "s' = s2" | "ncclIbPortRecoveryHandleCompletionSender wc s2 = (ok, s')" | "ncclIbPortRecoveryHandleCompletionReceiver e wc s2 = (ok, s')"
      using assms False cq unfolding s1_def s2_def by (auto simp: ncclIbPortRecoveryPollCq_def Let_def split: if_splits)
    then show ?thesis
    proof cases
      case 2
      then show ?thesis using handle_sender_facts [OF 2] t2 by simp
    next
      case 3
      then show ?thesis using handle_receiver_facts [OF 3] t2 touched_trans by metis
    qed (use t2 in simp)
  qed
qed

text \<open>
  The promise behind a posted acknowledgement: the data queue pairs of the device are restored, the acknowledgement is among the messages sent, and a receiver has seen more messages in
  order than the length of a sequence.
\<close>

definition ack_backed :: "rec_params \<Rightarrow> rec_st \<Rightarrow> bool" where
  "ack_backed p s \<longleftrightarrow> (ackPosted (pr_ctx s) \<longrightarrow> restored (pc_devIndex (pr_ctx s)) (pr_comm s)
     \<and> (\<exists>wr \<in> set (rm_sent (pr_comm s)). wr_imm_data wr = PORT_RECOVERY_ACK_MSG_ID)
     \<and> (\<not> isSend (rm_base (pr_comm s)) \<longrightarrow> IbResiliencyPortRecoveryAliveMsgSequenceSize p < nInOrderMsgsReceived (pr_ctx s)))"

text \<open>The relation between the state before and after a phase, by its result.\<close>

definition phase_keeps :: "rec_params \<Rightarrow> rec_st \<Rightarrow> ncclIbPortRecoveryStateProgressResult \<Rightarrow> rec_st \<Rightarrow> bool" where
  "phase_keeps p s r s' \<longleftrightarrow> ack_backed p s' \<and> kept (pr_comm s) (pr_comm s') \<and> pc_state (pr_ctx s') = pc_state (pr_ctx s) \<and> pc_devIndex (pr_ctx s') = pc_devIndex (pr_ctx s)
     \<and> nFailedAttempts (pr_ctx s) \<le> nFailedAttempts (pr_ctx s') \<and> nFailedAttempts (pr_ctx s') \<le> nFailedAttempts (pr_ctx s) + 1
     \<and> (r \<noteq> ResultFailed \<longrightarrow> nFailedAttempts (pr_ctx s') = nFailedAttempts (pr_ctx s) \<or> nFailedAttempts (pr_ctx s') < IbResiliencyPortRecoveryAttemptsMax p)
     \<and> (r = ResultInProgress \<longrightarrow> ackPosted (pr_ctx s) \<longrightarrow> ackPosted (pr_ctx s'))"

text \<open>A phase yields \<open>Q\<close>: if it does not fault, it ends with an internal error or with a result and a state in \<open>Q\<close>.\<close>

definition yields :: "phase_outcome \<Rightarrow> (ncclIbPortRecoveryStateProgressResult \<Rightarrow> rec_st \<Rightarrow> bool) \<Rightarrow> bool" where
  "yields c Q \<longleftrightarrow> (\<forall>r s. c = Some (r, s) \<longrightarrow> (case r of Inl err \<Rightarrow> err = ncclInternalError | Inr r \<Rightarrow> Q r s))"

lemma yields_phase [simp]: "yields (phase r s) Q \<longleftrightarrow> Q r s"
  by (auto simp: yields_def phase_def)

lemma yields_need:
  assumes "\<And>s. c = Some (Inr False, s) \<Longrightarrow> Q ResultFailed s" "\<And>s. c = Some (Inr True, s) \<Longrightarrow> yields (k s) Q"
    "\<And>err s. c = Some (Inl err, s) \<Longrightarrow> err = ncclInternalError"
  shows "yields (need c k) Q"
proof (cases c)
  case (Some x)
  obtain r s where x: "x = (r, s)" by (cases x)
  then show ?thesis
  proof (cases r)
    case (Inr ok)
    then show ?thesis using assms Some x by (cases ok) (auto simp: need_def)
  qed (use assms(3) Some x in \<open>simp add: need_def yields_def\<close>)
qed (simp add: need_def yields_def)

lemma yields_if: "(b \<Longrightarrow> yields c Q) \<Longrightarrow> (\<not> b \<Longrightarrow> yields c' Q) \<Longrightarrow> yields (if b then c else c') Q"
  by simp

lemma yields_mono: "yields c Q \<Longrightarrow> (\<And>r s. Q r s \<Longrightarrow> Q' r s) \<Longrightarrow> yields c Q'"
  by (fastforce simp: yields_def split: sum.splits)

lemma flagged_eq [simp]: "flagged x = Some (Inr b, s) \<longleftrightarrow> x = (b, s)"
  by (cases x) (auto simp: flagged_def)

lemma flagged_no_error [simp]: "flagged x \<noteq> Some (Inl err, s)"
  by (simp add: flagged_def)

text \<open>States that differ only in what polling changes.\<close>

definition polled :: "rec_st \<Rightarrow> rec_st \<Rightarrow> bool" where
  "polled s s' \<longleftrightarrow> touched (pr_comm s) (pr_comm s') \<and> ctx_kept (pr_ctx s) (pr_ctx s')"

lemma poll_polled: "ncclIbPortRecoveryPollCq e s = (ok, s') \<Longrightarrow> polled s s'"
  using poll_facts by (simp add: polled_def)

lemma drain_polled: "ncclIbPortRecoveryDrainCqAndPostReceiveWRs e s = (ok, s') \<Longrightarrow> polled s s' \<and> pr_ctx s' = pr_ctx s"
  by (auto simp: ncclIbPortRecoveryDrainCqAndPostReceiveWRs_def polled_def split: prod.splits dest: drain_touched)

lemma polled_refl [simp]: "polled s s"
  by (simp add: polled_def)

lemma polled_backed:
  assumes "polled s s'" "ack_backed p s"
  shows "ack_backed p s'"
proof -
  have "touched (pr_comm s) (pr_comm s')" using assms(1) by (simp add: polled_def)
  note t = touched_parts [OF this]
  then have "restored d (pr_comm s') = restored d (pr_comm s)" for d by (simp add: restored_def same_parts_def qp_ready_def)
  then show ?thesis using assms t by (auto simp: ack_backed_def polled_def ctx_kept_def same_parts_def)
qed

lemma polled_keeps: "polled s s' \<Longrightarrow> ack_backed p s \<Longrightarrow> phase_keeps p s r s'"
  using polled_backed touched_kept by (auto simp: phase_keeps_def polled_def ctx_kept_def)

text \<open>Polling before a phase does not matter for what the phase keeps.\<close>

lemma polled_then: "polled s s1 \<Longrightarrow> phase_keeps p s1 r s' \<Longrightarrow> phase_keeps p s r s'"
  using touched_kept kept_trans by (fastforce simp: phase_keeps_def polled_def ctx_kept_def)

lemma post_ack_facts:
  assumes "ncclIbPortRecoveryPostAck e s = (ok, s')"
  shows "\<not> ok \<Longrightarrow> s' = s"
    and "ok \<Longrightarrow> pr_ctx s' = (pr_ctx s)\<lparr> ackPosted := True \<rparr> \<and> kept (pr_comm s) (pr_comm s')"
    and "ok \<Longrightarrow> restored (pc_devIndex (pr_ctx s)) (pr_comm s) \<Longrightarrow>
       (\<not> isSend (rm_base (pr_comm s)) \<longrightarrow> IbResiliencyPortRecoveryAliveMsgSequenceSize p < nInOrderMsgsReceived (pr_ctx s)) \<Longrightarrow> ack_backed p s'"
  using assms
  by (auto simp: ncclIbPortRecoveryPostAck_def Let_def upd_pc_def upd_rm_def ack_backed_def kept_def ack_wr_def restored_def qp_ready_def split: if_splits)

lemma backed_unposted: "\<not> ackPosted (pr_ctx s) \<Longrightarrow> ack_backed p s"
  by (simp add: ack_backed_def)

text \<open>Restoring the queue pairs and posting the acknowledgement, which both sides do.\<close>

lemma restore_and_ack:
  assumes "\<not> ackPosted (pr_ctx s)" "\<not> isSend (rm_base (pr_comm s)) \<longrightarrow> IbResiliencyPortRecoveryAliveMsgSequenceSize p < nInOrderMsgsReceived (pr_ctx s)"
    and fail: "\<And>s'. phase_keeps p s ResultFailed s' \<Longrightarrow> Q ResultFailed s'"
    and go: "\<And>s'. pr_ctx s' = (pr_ctx s)\<lparr> ackPosted := True \<rparr> \<Longrightarrow> ack_backed p s' \<Longrightarrow> kept (pr_comm s) (pr_comm s') \<Longrightarrow> yields (k s') Q"
  shows "yields (need (ncclIbPortRecoveryQpsRestore p e ok s) (\<lambda>s. need (flagged (ncclIbPortRecoveryPostAck e s)) k)) Q"
proof (rule yields_need)
  fix s1
  assume r: "ncclIbPortRecoveryQpsRestore p e ok s = Some (Inr False, s1)"
  show "Q ResultFailed s1" using restore_facts(1) [OF r] assms(1) by (intro fail) (auto simp: phase_keeps_def intro: backed_unposted)
next
  fix s1
  assume r: "ncclIbPortRecoveryQpsRestore p e ok s = Some (Inr True, s1)"
  note rf = restore_facts(1) [OF r] restore_facts(2) [OF r refl]
  have ord: "\<not> isSend (rm_base (pr_comm s1)) \<longrightarrow> IbResiliencyPortRecoveryAliveMsgSequenceSize p < nInOrderMsgsReceived (pr_ctx s1)"
    using assms(2) rf(1) by (simp add: kept_def)
  show "yields (need (flagged (ncclIbPortRecoveryPostAck e s1)) k) Q"
  proof (rule yields_need)
    fix s2
    assume "flagged (ncclIbPortRecoveryPostAck e s1) = Some (Inr False, s2)"
    then have "s2 = s1" using post_ack_facts(1) [of e s1 False s2] by simp
    then show "Q ResultFailed s2" using rf(1) assms(1) by (intro fail) (auto simp: phase_keeps_def intro: backed_unposted)
  next
    fix s2
    assume "flagged (ncclIbPortRecoveryPostAck e s1) = Some (Inr True, s2)"
    then have a: "ncclIbPortRecoveryPostAck e s1 = (True, s2)" by simp
    note pf = post_ack_facts(2) [OF a TrueI] post_ack_facts(3) [OF a TrueI, of p]
    show "yields (k s2) Q"
    proof (rule go)
      show "pr_ctx s2 = (pr_ctx s)\<lparr> ackPosted := True \<rparr>" using pf(1) rf(1) by simp
      show "ack_backed p s2" using pf(2) rf ord by simp
      show "kept (pr_comm s) (pr_comm s2)" using pf(1) rf(1) kept_trans by blast
    qed
  qed simp
qed (rule restore_error)

lemma alive_sender_keeps:
  assumes "ack_backed p s"
  shows "yields (ncclIbPortRecoveryProgressAliveMessagesSender p e s) (phase_keeps p s)"
proof -
  have post: "phase_keeps p s r s'" if "ncclIbPortRecoveryPostAliveMessages p e s = Some (Inr ok, s')" for r ok s'
    using that assms
    by (auto simp: ncclIbPortRecoveryPostAliveMessages_def Let_def upd_pc_def upd_rm_def phase_keeps_def ack_backed_def kept_def restored_def qp_ready_def split: if_splits)
  have err: "err = ncclInternalError" if "ncclIbPortRecoveryPostAliveMessages p e s = Some (Inl err, s')" for err s'
    using that by (auto simp: ncclIbPortRecoveryPostAliveMessages_def Let_def split: if_splits)
  show ?thesis
    unfolding ncclIbPortRecoveryProgressAliveMessagesSender_def
    by (intro yields_if yields_need) (auto intro: post err polled_keeps poll_polled assms polled_keeps [OF polled_refl])
qed

text \<open>A timeout is counted; when the attempts are used up the phase has failed.\<close>

lemma count_failure_keeps:
  assumes "polled s s1" "ack_backed p s" "pr_comm s' = pr_comm s1"
    and ctx: "nFailedAttempts (pr_ctx s') = nFailedAttempts (pr_ctx s1) + 1" "pc_state (pr_ctx s') = pc_state (pr_ctx s1)" "pc_devIndex (pr_ctx s') = pc_devIndex (pr_ctx s1)"
    and "ackPosted (pr_ctx s') \<longrightarrow> ackPosted (pr_ctx s1) \<and> nInOrderMsgsReceived (pr_ctx s') = nInOrderMsgsReceived (pr_ctx s1)"
    and "r \<noteq> ResultFailed \<longrightarrow> \<not> attempts_used_up p (count_failure s1)" "r = ResultInProgress \<longrightarrow> ackPosted (pr_ctx s1) \<longrightarrow> ackPosted (pr_ctx s')"
  shows "phase_keeps p s r s'"
proof (rule polled_then [OF assms(1)])
  show "phase_keeps p s1 r s'"
    using polled_backed [OF assms(1,2)] assms(3-) by (auto simp: phase_keeps_def ack_backed_def attempts_used_up_def count_failure_def upd_pc_def)
qed

end
