(* ===== verification/NetIb_Recovery_Run.thy ===== *)
theory NetIb_Recovery_Run
  imports NetIb_Recovery_Facts
begin

text \<open>
  Runs of the recovery protocol: what the receiver's and the acknowledgement phases keep, the reachable states of a recovery context as a step relation, and the theorems about them.
\<close>

section \<open>The remaining phases\<close>

lemma ctx_kept_trans: "ctx_kept c1 c2 \<Longrightarrow> ctx_kept c2 c3 \<Longrightarrow> ctx_kept c1 c3"
  by (simp add: ctx_kept_def)

lemma polled_trans: "polled s1 s2 \<Longrightarrow> polled s2 s3 \<Longrightarrow> polled s1 s3"
  using touched_trans ctx_kept_trans unfolding polled_def by blast

lemma then_polled: "phase_keeps p s r s1 \<Longrightarrow> polled s1 s2 \<Longrightarrow> phase_keeps p s r s2"
  using polled_backed [of s1 s2 p] touched_kept [of "pr_comm s1" "pr_comm s2"] kept_trans [of "pr_comm s" "pr_comm s1" "pr_comm s2"]
  by (auto simp: phase_keeps_def polled_def ctx_kept_def)

lemma polled_posted: "polled s s' \<Longrightarrow> ackPosted (pr_ctx s') = ackPosted (pr_ctx s)"
  by (simp add: polled_def ctx_kept_def)

lemma touched_polled: "touched (pr_comm s) m \<Longrightarrow> polled s (s\<lparr> pr_comm := m \<rparr>)"
  by (simp add: polled_def)

definition alive_receiver_result :: "rec_params \<Rightarrow> rec_st \<Rightarrow> ncclIbPortRecoveryStateProgressResult \<Rightarrow> rec_st \<Rightarrow> bool" where
  "alive_receiver_result p s r s' \<longleftrightarrow> phase_keeps p s r s' \<and> (r = ResultGoToNextState \<longrightarrow> ackPosted (pr_ctx s'))"

lemma alive_receiver_resultI: "phase_keeps p s r s' \<Longrightarrow> (r = ResultGoToNextState \<Longrightarrow> ackPosted (pr_ctx s')) \<Longrightarrow> alive_receiver_result p s r s'"
  by (simp add: alive_receiver_result_def)

text \<open>A phase that starts by polling, or by draining the queue.\<close>

lemma yields_poll:
  assumes "\<And>s1. polled s s1 \<Longrightarrow> Q ResultFailed s1" "\<And>s1. polled s s1 \<Longrightarrow> yields (k s1) Q"
  shows "yields (need (flagged (ncclIbPortRecoveryPollCq e s)) k) Q"
  by (rule yields_need) (use assms poll_polled in auto)

lemma yields_drain:
  assumes "\<And>s1. polled s s1 \<Longrightarrow> Q ResultFailed s1" "\<And>s1. polled s s1 \<Longrightarrow> pr_ctx s1 = pr_ctx s \<Longrightarrow> yields (k s1) Q"
  shows "yields (need (flagged (ncclIbPortRecoveryDrainCqAndPostReceiveWRs e s)) k) Q"
  by (rule yields_need) (use assms drain_polled in auto)

lemma count_failure_failed:
  assumes "polled s s1" "ack_backed p s"
  shows "phase_keeps p s ResultFailed (count_failure s1)"
  by (rule count_failure_keeps [OF assms]) (simp_all add: count_failure_def upd_pc_def)

text \<open>The receiver has seen the whole sequence: it restores its queue pairs and posts the acknowledgement.\<close>

lemma sequence_complete:
  assumes pl: "polled s s1" and np: "\<not> ackPosted (pr_ctx s)" and b: "ack_backed p s"
    and ord: "IbResiliencyPortRecoveryAliveMsgSequenceSize p < nInOrderMsgsReceived (pr_ctx s1)"
  shows "yields (need (flagged (ncclIbPortRecoveryDrainCqAndPostReceiveWRs e s1)) (\<lambda>s.
      need (ncclIbPortRecoveryQpsRestore p e True s) (\<lambda>s. need (flagged (ncclIbPortRecoveryPostAck e s)) (phase ResultInProgress)))) (alive_receiver_result p s)"
proof (rule yields_drain)
  fix s2
  assume "polled s1 s2"
  then have "polled s s2" by (rule polled_trans [OF pl])
  then show "alive_receiver_result p s ResultFailed s2" using polled_keeps [OF _ b] by (simp add: alive_receiver_result_def)
next
  fix s2
  assume d: "polled s1 s2" "pr_ctx s2 = pr_ctx s1"
  note pl2 = polled_trans [OF pl d(1)]
  show "yields (need (ncclIbPortRecoveryQpsRestore p e True s2) (\<lambda>s. need (flagged (ncclIbPortRecoveryPostAck e s)) (phase ResultInProgress))) (alive_receiver_result p s)"
  proof (rule restore_and_ack [where p = p])
    show "\<not> ackPosted (pr_ctx s2)" using np polled_posted [OF pl2] by simp
    show "\<not> isSend (rm_base (pr_comm s2)) \<longrightarrow> IbResiliencyPortRecoveryAliveMsgSequenceSize p < nInOrderMsgsReceived (pr_ctx s2)" using ord d(2) by simp
    show "alive_receiver_result p s ResultFailed s'" if "phase_keeps p s2 ResultFailed s'" for s'
      using polled_then [OF pl2 that] by (simp add: alive_receiver_result_def)
    show "yields (phase ResultInProgress s') (alive_receiver_result p s)"
      if "pr_ctx s' = (pr_ctx s2)\<lparr> ackPosted := True \<rparr>" "ack_backed p s'" "kept (pr_comm s2) (pr_comm s')" for s'
    proof -
      have "phase_keeps p s2 ResultInProgress s'" using that by (simp add: phase_keeps_def)
      then show ?thesis using polled_then [OF pl2] by (simp add: alive_receiver_result_def)
    qed
  qed
qed

text \<open>The receiver waits for its own acknowledgement to complete, and has to give up on it.\<close>

lemma ack_given_up:
  assumes pl: "polled s s1" and b: "ack_backed p s" and "\<not> attempts_used_up p (count_failure s1)"
    and pr: "post_recvs e q n (pr_comm s1) = (r', m)" and "r \<noteq> ResultInProgress"
  shows "phase_keeps p s r ((upd_pc (\<lambda>c. c\<lparr> ackPosted := False, ackCompleted := False, timeLastMsg := now \<rparr>) (count_failure s1))\<lparr> pr_comm := m \<rparr>)"
    (is "phase_keeps p s r (?s2\<lparr> pr_comm := m \<rparr>)")
proof (rule then_polled)
  show "phase_keeps p s r ?s2" by (rule count_failure_keeps [OF pl b]) (use assms in \<open>simp_all add: count_failure_def upd_pc_def\<close>)
  show "polled ?s2 (?s2\<lparr> pr_comm := m \<rparr>)" using post_recvs_touched [OF pr] by (intro touched_polled) (simp add: count_failure_def upd_pc_def)
qed

lemma alive_receiver_keeps:
  assumes b: "ack_backed p s"
  shows "yields (ncclIbPortRecoveryProgressAliveMessagesReceiver p e s) (alive_receiver_result p s)"
  unfolding ncclIbPortRecoveryProgressAliveMessagesReceiver_def
proof (intro yields_if yields_poll, goal_cases)
  case (2 s1)
  then show ?case by (intro sequence_complete b)
next
  case (3 s1)
  have "phase_keeps p s ResultInProgress (upd_pc (\<lambda>c. c\<lparr> timeLastMsg := pe_clock e ClockAlive \<rparr>) (count_failure s1))" if "\<not> attempts_used_up p (count_failure s1)"
    by (rule count_failure_keeps [OF 3(2) b]) (use that in \<open>simp_all add: count_failure_def upd_pc_def\<close>)
  then show ?case using 3 count_failure_failed [OF 3(2) b] by (simp add: Let_def alive_receiver_result_def)
next
  case (7 s1)
  let ?s2 = "upd_pc (\<lambda>c. c\<lparr> ackPosted := False, ackCompleted := False, timeLastMsg := pe_clock e ClockAlive \<rparr>) (count_failure s1)"
  have "pr_comm ?s2 = pr_comm s1" by (simp add: count_failure_def upd_pc_def)
  then show ?case using 7 count_failure_failed [OF 7(2) b] ack_given_up [OF 7(2) b]
    by (auto simp: Let_def alive_receiver_result_def split: prod.splits)
qed (use polled_keeps [OF _ b] polled_posted in \<open>auto simp: alive_receiver_result_def\<close>)

lemma in_progress_strongest: "phase_keeps p s ResultInProgress s' \<Longrightarrow> phase_keeps p s r s'"
  by (auto simp: phase_keeps_def)

definition ack_sender_result :: "rec_params \<Rightarrow> rec_st \<Rightarrow> ncclIbPortRecoveryStateProgressResult \<Rightarrow> rec_st \<Rightarrow> bool" where
  "ack_sender_result p s r s' \<longleftrightarrow> phase_keeps p s r s' \<and> (r = ResultGoToNextState \<longrightarrow> ackPosted (pr_ctx s') \<and> ackReceived (pr_ctx s') \<and> ackCompleted (pr_ctx s'))"

lemma final_ack_keeps:
  assumes k: "phase_keeps p s ResultInProgress s1" and "ackReceived (pr_ctx s1)" "ackPosted (pr_ctx s1)" "dflt \<noteq> ResultGoToNextState"
  shows "yields (sender_final_ack e dflt s1) (ack_sender_result p s)"
  unfolding sender_final_ack_def
proof (intro yields_if yields_poll, goal_cases)
  case 1
  then show ?case using in_progress_strongest [OF k] assms(4) by (simp add: ack_sender_result_def)
next
  case (2 s2)
  then show ?case using then_polled [OF in_progress_strongest [OF k] 2(2)] by (simp add: ack_sender_result_def)
next
  case (3 s2)
  then have "ackPosted (pr_ctx s2)" "ackReceived (pr_ctx s2)" using assms(2,3) by (auto simp: polled_def ctx_kept_def)
  then show ?case using then_polled [OF in_progress_strongest [OF k] 3(2)] by (simp add: ack_sender_result_def)
qed

text \<open>The sender has the receiver's acknowledgement and answers it.\<close>

lemma answer_keeps:
  assumes pl: "polled s s1" and b: "ack_backed p s" and snd: "isSend (rm_base (pr_comm s))" and rc: "ackReceived (pr_ctx s1)"
  shows "yields (if \<not> ackPosted (pr_ctx s1) then
      need (ncclIbPortRecoveryQpsRestore p e ok s1) (\<lambda>s. need (flagged (ncclIbPortRecoveryPostAck e s)) (sender_final_ack e ResultInProgress))
      else sender_final_ack e ResultFailed s1) (ack_sender_result p s)"
proof (rule yields_if)
  assume np: "\<not> ackPosted (pr_ctx s1)"
  show "yields (need (ncclIbPortRecoveryQpsRestore p e ok s1) (\<lambda>s. need (flagged (ncclIbPortRecoveryPostAck e s)) (sender_final_ack e ResultInProgress))) (ack_sender_result p s)"
  proof (rule restore_and_ack [where p = p, OF np])
    have "isSend (rm_base (pr_comm s1))" using touched_kept [of "pr_comm s" "pr_comm s1"] pl snd by (simp add: polled_def kept_def)
    then show "\<not> isSend (rm_base (pr_comm s1)) \<longrightarrow> IbResiliencyPortRecoveryAliveMsgSequenceSize p < nInOrderMsgsReceived (pr_ctx s1)" by simp
    show "ack_sender_result p s ResultFailed s'" if "phase_keeps p s1 ResultFailed s'" for s'
      using polled_then [OF pl that] by (simp add: ack_sender_result_def)
    show "yields (sender_final_ack e ResultInProgress s') (ack_sender_result p s)"
      if h: "pr_ctx s' = (pr_ctx s1)\<lparr> ackPosted := True \<rparr>" "ack_backed p s'" "kept (pr_comm s1) (pr_comm s')" for s'
    proof (rule final_ack_keeps)
      show "phase_keeps p s ResultInProgress s'" by (rule polled_then [OF pl]) (use h in \<open>simp add: phase_keeps_def\<close>)
    qed (use h rc in simp_all)
  qed
next
  assume "\<not> \<not> ackPosted (pr_ctx s1)"
  then show "yields (sender_final_ack e ResultFailed s1) (ack_sender_result p s)" using final_ack_keeps [OF polled_keeps [OF pl b] rc] by simp
qed

lemma ack_sender_keeps:
  assumes b: "ack_backed p s" and "isSend (rm_base (pr_comm s))"
  shows "yields (ncclIbPortRecoveryProgressAckSender p e s) (ack_sender_result p s)"
  unfolding ncclIbPortRecoveryProgressAckSender_def Let_def
proof (rule yields_if, goal_cases)
  case 1
  then show ?case by (intro answer_keeps assms) simp_all
next
  case 2
  show ?case
  proof (intro yields_poll, goal_cases)
    case (1 s1)
    then show ?case using polled_keeps [OF _ b] by (simp add: ack_sender_result_def)
  next
    case (2 s1)
    have "phase_keeps p s ResultGoToPrevState (upd_pc (\<lambda>c. c\<lparr> aliveMsgPosted := False, aliveMsgCompleted := False \<rparr>) (count_failure s1))" if "\<not> attempts_used_up p (count_failure s1)"
      by (rule count_failure_keeps [OF 2 b]) (use that in \<open>simp_all add: count_failure_def upd_pc_def\<close>)
    then show ?case using polled_keeps [OF 2 b] count_failure_failed [OF 2 b] answer_keeps [OF 2 assms] by (simp add: ack_sender_result_def)
  qed
qed

definition ack_receiver_result :: "rec_params \<Rightarrow> rec_st \<Rightarrow> ncclIbPortRecoveryStateProgressResult \<Rightarrow> rec_st \<Rightarrow> bool" where
  "ack_receiver_result p s r s' \<longleftrightarrow> phase_keeps p s r s' \<and> (r = ResultGoToNextState \<longrightarrow> ackReceived (pr_ctx s') \<and> ackPosted (pr_ctx s') = ackPosted (pr_ctx s))"

lemma ack_receiver_keeps:
  assumes b: "ack_backed p s"
  shows "yields (ncclIbPortRecoveryProgressAckReceiver p e s) (ack_receiver_result p s)"
  unfolding ncclIbPortRecoveryProgressAckReceiver_def Let_def
proof (intro yields_poll yields_if, goal_cases)
  case (4 s1)
  let ?s2 = "upd_pc (\<lambda>c. c\<lparr> ackPosted := False, ackCompleted := False, nInOrderMsgsReceived := 0 \<rparr>) (count_failure s1)"
  have k: "phase_keeps p s r ?s2" if "r \<noteq> ResultInProgress" for r
    by (rule count_failure_keeps [OF 4(1) b]) (use 4 that in \<open>simp_all add: count_failure_def upd_pc_def\<close>)
  show ?case by (rule yields_drain) (use then_polled [OF k] in \<open>simp_all add: ack_receiver_result_def\<close>)
qed (use polled_keeps [OF _ b] polled_posted count_failure_failed [OF _ b] in \<open>auto simp: ack_receiver_result_def\<close>)

section \<open>Going back is counted\<close>

abbreviation attempts :: "rec_st \<Rightarrow> int" where
  "attempts s \<equiv> nFailedAttempts (pr_ctx s)"

lemma polled_attempts: "polled s s' \<Longrightarrow> attempts s' = attempts s"
  by (simp add: polled_def ctx_kept_def)

definition back_counted :: "rec_st \<Rightarrow> ncclIbPortRecoveryStateProgressResult \<Rightarrow> rec_st \<Rightarrow> bool" where
  "back_counted s r s' \<longleftrightarrow> (r = ResultGoToPrevState \<longrightarrow> attempts s' = attempts s + 1)"

lemma yields_both: "yields c Q \<Longrightarrow> yields c Q' \<Longrightarrow> yields c (\<lambda>r s. Q r s \<and> Q' r s)"
  by (auto simp: yields_def split: sum.splits)

lemma final_ack_counted: "dflt \<noteq> ResultGoToPrevState \<Longrightarrow> yields (sender_final_ack e dflt s1) (back_counted s)"
  unfolding sender_final_ack_def by (intro yields_if yields_poll) (simp_all add: back_counted_def)

lemma ack_sender_counted: "yields (ncclIbPortRecoveryProgressAckSender p e s) (back_counted s)"
proof -
  have answer: "yields (need (ncclIbPortRecoveryQpsRestore p e ok s1) (\<lambda>s. need (flagged (ncclIbPortRecoveryPostAck e s)) (sender_final_ack e ResultInProgress))) (back_counted s)" for ok s1
    by (intro yields_need final_ack_counted) (auto simp: back_counted_def elim: restore_error)
  show ?thesis
    unfolding ncclIbPortRecoveryProgressAckSender_def Let_def
    by (intro yields_if yields_poll answer final_ack_counted) (use polled_attempts in \<open>auto simp: back_counted_def count_failure_def upd_pc_def\<close>)
qed

lemma ack_receiver_counted: "yields (ncclIbPortRecoveryProgressAckReceiver p e s) (back_counted s)"
  unfolding ncclIbPortRecoveryProgressAckReceiver_def Let_def
proof (intro yields_poll yields_if, goal_cases)
  case (4 s1)
  show ?case by (rule yields_drain) (use polled_attempts [OF 4(1)] polled_attempts in \<open>auto simp: back_counted_def count_failure_def upd_pc_def\<close>)
qed (simp_all add: back_counted_def)

section \<open>Progress\<close>

text \<open>What holds of a context in every state it reaches.\<close>

abbreviation in_phase :: "rec_st \<Rightarrow> ncclIbPortRecoveryState" where
  "in_phase s \<equiv> pc_state (pr_ctx s)"

definition rec_inv :: "rec_params \<Rightarrow> rec_st \<Rightarrow> bool" where
  "rec_inv p s \<longleftrightarrow> ack_backed p s \<and> (in_phase s = RecoveryStateInit \<longrightarrow> \<not> ackPosted (pr_ctx s)) \<and> (in_phase s = RecoveryStateAck \<longrightarrow> \<not> isSend (rm_base (pr_comm s)) \<longrightarrow> ackPosted (pr_ctx s))
     \<and> (in_phase s = RecoveryStateSuccess \<longrightarrow> ackPosted (pr_ctx s) \<and> ackReceived (pr_ctx s) \<and> (isSend (rm_base (pr_comm s)) \<longrightarrow> ackCompleted (pr_ctx s)))
     \<and> 0 \<le> attempts s \<and> attempts s \<le> max 1 (IbResiliencyPortRecoveryAttemptsMax p)
     \<and> (in_phase s \<noteq> RecoveryStateFailed \<longrightarrow> attempts s = 0 \<or> attempts s < IbResiliencyPortRecoveryAttemptsMax p)"

text \<open>A number that grows with every change of phase.\<close>

fun phase_rank :: "ncclIbPortRecoveryState \<Rightarrow> int" where
  "phase_rank RecoveryStateInit = 0"
| "phase_rank RecoveryStateAliveMessages = 1"
| "phase_rank RecoveryStateAck = 2"
| "phase_rank RecoveryStateSuccess = 3"
| "phase_rank RecoveryStateFailed = 3"

definition rank :: "rec_st \<Rightarrow> int" where
  "rank s = 4 * attempts s + phase_rank (in_phase s)"

definition advances :: "rec_st \<Rightarrow> rec_st \<Rightarrow> bool" where
  "advances s s' \<longleftrightarrow> kept (pr_comm s) (pr_comm s') \<and> pc_devIndex (pr_ctx s') = pc_devIndex (pr_ctx s) \<and> rank s \<le> rank s' \<and> (in_phase s' = in_phase s \<or> rank s < rank s')"

lemma advances_refl [simp]: "advances s s"
  by (simp add: advances_def)

lemma advances_trans: "advances s1 s2 \<Longrightarrow> advances s2 s3 \<Longrightarrow> advances s1 s3"
  unfolding advances_def using kept_trans [of "pr_comm s1" "pr_comm s2" "pr_comm s3"] by (elim conjE disjE) simp_all

lemma phase_keeps_inv:
  assumes "phase_keeps p s r s'" "rec_inv p s" "in_phase s = RecoveryStateAliveMessages \<or> in_phase s = RecoveryStateAck"
  shows "0 \<le> attempts s' \<and> attempts s' \<le> max 1 (IbResiliencyPortRecoveryAttemptsMax p) \<and> (r \<noteq> ResultFailed \<longrightarrow> attempts s' = 0 \<or> attempts s' < IbResiliencyPortRecoveryAttemptsMax p)"
proof -
  have "attempts s = 0 \<or> attempts s < IbResiliencyPortRecoveryAttemptsMax p" "0 \<le> attempts s" using assms(2,3) by (auto simp: rec_inv_def)
  moreover have "attempts s \<le> attempts s'" "attempts s' \<le> attempts s + 1"
      "r \<noteq> ResultFailed \<longrightarrow> attempts s' = attempts s \<or> attempts s' < IbResiliencyPortRecoveryAttemptsMax p" using assms(1) by (simp_all add: phase_keeps_def)
  ultimately show ?thesis by linarith
qed

lemma backed_phase [simp]: "ack_backed p (upd_pc (\<lambda>c. c\<lparr> pc_state := st \<rparr>) s) = ack_backed p s"
  by (simp add: ack_backed_def upd_pc_def)

lemma alive_progress:
  assumes "ncclIbPortRecoveryProgressAliveMessages p e s = Some (r, s')" "nccl_ok r" and i: "rec_inv p s" and st: "in_phase s = RecoveryStateAliveMessages"
  shows "rec_inv p s' \<and> advances s s' \<and> in_phase s' \<noteq> RecoveryStateSuccess"
proof -
  let ?ph = "if isSend (rm_base (pr_comm s)) then ncclIbPortRecoveryProgressAliveMessagesSender p e s else ncclIbPortRecoveryProgressAliveMessagesReceiver p e s"
  have b: "ack_backed p s" using i by (simp add: rec_inv_def)
  have y: "yields ?ph (\<lambda>r s'. phase_keeps p s r s' \<and> (r = ResultGoToNextState \<longrightarrow> \<not> isSend (rm_base (pr_comm s)) \<longrightarrow> ackPosted (pr_ctx s')))"
    by (rule yields_if) (auto intro: yields_mono [OF alive_sender_keeps [OF b]] yields_mono [OF alive_receiver_keeps [OF b]] simp: alive_receiver_result_def)
  obtain x s1 where x: "?ph = Some (x, s1)" using assms(1) by (auto simp: ncclIbPortRecoveryProgressAliveMessages_def deref_def split: option.splits)
  obtain g where g: "x = Inr g"
    using y x assms(1,2) by (cases x) (auto simp: yields_def ncclIbPortRecoveryProgressAliveMessages_def deref_def nccl_ok_def)
  note k = y [unfolded yields_def, rule_format, OF x, unfolded g, simplified]
  have s': "s' = (case g of ResultGoToNextState \<Rightarrow> upd_pc (\<lambda>c. c\<lparr> pc_state := RecoveryStateAck \<rparr>) s1 | ResultFailed \<Rightarrow> upd_pc (\<lambda>c. c\<lparr> pc_state := RecoveryStateFailed \<rparr>) s1 | _ \<Rightarrow> s1)"
    "g \<noteq> ResultGoToPrevState"
    using assms(1,2) x g by (auto simp: ncclIbPortRecoveryProgressAliveMessages_def deref_def set_phase_def nccl_ok_def split: ncclIbPortRecoveryStateProgressResult.splits)
  have bd: "ack_backed p (upd_pc (\<lambda>c. c\<lparr> pc_state := st' \<rparr>) s1)" "ack_backed p s1" for st' using k by (simp_all add: phase_keeps_def)
  show ?thesis
    using k phase_keeps_inv [OF conjunct1 [OF k] i] st s'(2) bd unfolding s'(1)
    by (cases g) (auto simp: rec_inv_def advances_def rank_def phase_keeps_def upd_pc_def kept_def)
qed

lemma ack_progress:
  assumes "ncclIbPortRecoveryProgressAck p e s = Some (r, s')" "nccl_ok r" and i: "rec_inv p s" and st: "in_phase s = RecoveryStateAck"
  shows "rec_inv p s' \<and> advances s s'"
proof -
  let ?ph = "if isSend (rm_base (pr_comm s)) then ncclIbPortRecoveryProgressAckSender p e s else ncclIbPortRecoveryProgressAckReceiver p e s"
  have b: "ack_backed p s" and ap: "\<not> isSend (rm_base (pr_comm s)) \<Longrightarrow> ackPosted (pr_ctx s)" using i st by (simp_all add: rec_inv_def)
  have y: "yields ?ph (\<lambda>r s'. (phase_keeps p s r s' \<and> (r = ResultGoToNextState \<longrightarrow> ackReceived (pr_ctx s') \<and> ackPosted (pr_ctx s') \<and> (isSend (rm_base (pr_comm s)) \<longrightarrow> ackCompleted (pr_ctx s'))))
       \<and> back_counted s r s')"
    using ap
    by (intro yields_if yields_both ack_sender_counted ack_receiver_counted)
       (auto intro: yields_mono [OF ack_sender_keeps [OF b]] yields_mono [OF ack_receiver_keeps [OF b]] simp: ack_sender_result_def ack_receiver_result_def)
  obtain x s1 where x: "?ph = Some (x, s1)" using assms(1) by (auto simp: ncclIbPortRecoveryProgressAck_def deref_def split: option.splits)
  obtain g where g: "x = Inr g"
    using y x assms(1,2) by (cases x) (auto simp: yields_def ncclIbPortRecoveryProgressAck_def deref_def nccl_ok_def)
  note k = y [unfolded yields_def, rule_format, OF x, unfolded g, simplified]
  have s': "s' = (case g of ResultGoToNextState \<Rightarrow> upd_pc (\<lambda>c. c\<lparr> pc_state := RecoveryStateSuccess \<rparr>) s1 | ResultFailed \<Rightarrow> upd_pc (\<lambda>c. c\<lparr> pc_state := RecoveryStateFailed \<rparr>) s1
      | ResultGoToPrevState \<Rightarrow> upd_pc (\<lambda>c. c\<lparr> pc_state := RecoveryStateAliveMessages \<rparr>) s1 | _ \<Rightarrow> s1)"
    using assms(1) x g by (auto simp: ncclIbPortRecoveryProgressAck_def deref_def set_phase_def split: ncclIbPortRecoveryStateProgressResult.splits)
  have bd: "ack_backed p (upd_pc (\<lambda>c. c\<lparr> pc_state := st' \<rparr>) s1)" "ack_backed p s1" for st' using k by (simp_all add: phase_keeps_def)
  show ?thesis
    using k phase_keeps_inv [OF conjunct1 [OF k] i] st bd ap unfolding s'
    by (cases g) (auto simp: rec_inv_def advances_def rank_def phase_keeps_def upd_pc_def kept_def back_counted_def)
qed

lemma start_progress:
  assumes "recovery_start p e s = Some (r, s')" "nccl_ok r" and i: "rec_inv p s" and st: "in_phase s = RecoveryStateInit"
  shows "rec_inv p s' \<and> advances s s' \<and> in_phase s' \<noteq> RecoveryStateSuccess"
proof -
  have np: "\<not> ackPosted (pr_ctx s)" using i st by (simp add: rec_inv_def)
  obtain x m where x: "ncclIbResiliencyQpsReconfigure p e (pc_devIndex (pr_ctx s)) (pr_comm s) = Some (x, m)"
    using assms(1) by (auto simp: recovery_start_def deref_def split: option.splits)
  have s': "pr_comm s' = m" "in_phase s' = RecoveryStateFailed \<or> in_phase s' = RecoveryStateAliveMessages" "attempts s' = attempts s" "\<not> ackPosted (pr_ctx s')"
      "pc_devIndex (pr_ctx s') = pc_devIndex (pr_ctx s)" if "x = Inr ok" for ok
    using assms(1) x that np by (auto simp: recovery_start_def deref_def Let_def set_phase_def upd_pc_def split: if_splits)
  show ?thesis
  proof (cases x)
    case (Inr ok)
    note s'' = s' [OF Inr]
    have "kept (pr_comm s) (pr_comm s')" using qps_reconfigure_facts [OF x] s''(1) by simp
    then show ?thesis using s''(2-) i st by (auto simp: rec_inv_def advances_def rank_def intro: backed_unposted)
  next
    case (Inl err)
    then show ?thesis using assms(1,2) x qps_reconfigure_error [OF x [unfolded Inl]] by (simp add: recovery_start_def deref_def nccl_ok_def)
  qed
qed

text \<open>A call of \<open>ncclIbPortRecoveryContextProgress\<close>: the phases, then the state of the device.\<close>

definition finish :: "rec_st \<Rightarrow> rec_st" where
  "finish s = (case in_phase s of RecoveryStateSuccess \<Rightarrow> mark_device DevStateRecovered s | RecoveryStateFailed \<Rightarrow> mark_device DevStateRecoveryFailed s | _ \<Rightarrow> s)"

lemma progress_from_facts:
  assumes p: "progress_from p e s = Some ((ncclSuccess, ended), s')" and i: "rec_inv p s"
  shows "\<exists>s1. rec_inv p s1 \<and> advances s s1 \<and> s' = finish s1 \<and> (ended \<longleftrightarrow> in_phase s1 = RecoveryStateSuccess \<or> in_phase s1 = RecoveryStateFailed)"
proof -
  let ?a = "if in_phase s = RecoveryStateAliveMessages then ncclIbPortRecoveryProgressAliveMessages p e s else ret ncclSuccess s"
  let ?k = "\<lambda>s. if in_phase s = RecoveryStateAck then ncclIbPortRecoveryProgressAck p e s else ret ncclSuccess s"
  obtain r s1 where c: "chk ?a (\<lambda>s. chk (?k s) (ret ncclSuccess)) = Some (r, s1)" "nccl_ok r"
    and f: "s' = finish s1" "ended \<longleftrightarrow> in_phase s1 = RecoveryStateSuccess \<or> in_phase s1 = RecoveryStateFailed"
    using p by (auto simp: progress_from_def deref_def finish_def nccl_ok_def split: option.splits if_splits ncclIbPortRecoveryState.splits)
  obtain r2 s2 where a: "?a = Some (r2, s2)" "nccl_ok r2" "chk (?k s2) (ret ncclSuccess) = Some (r, s1)"
    using c by (auto simp: chk_def split: option.splits if_splits)
  have s2: "rec_inv p s2 \<and> advances s s2"
    using alive_progress [OF _ a(2) i] a(1) i by (auto split: if_splits)
  have k: "\<exists>r3. ?k s2 = Some (r3, s1) \<and> nccl_ok r3"
    using a(3) c(2) by (auto simp: chk_def split: option.splits if_splits)
  then have "rec_inv p s1 \<and> advances s2 s1"
    using ack_progress [of p e s2 _ s1] s2 by (auto split: if_splits)
  then show ?thesis using s2 f advances_trans by blast
qed

lemma progress_facts:
  assumes p: "ncclIbPortRecoveryContextProgress p e s = Some ((ncclSuccess, ended), s')" and i: "rec_inv p s" and live: "in_phase s \<noteq> RecoveryStateSuccess" "in_phase s \<noteq> RecoveryStateFailed"
  shows "\<exists>s1. rec_inv p s1 \<and> advances s s1 \<and> s' = finish s1 \<and> (ended \<longleftrightarrow> in_phase s1 = RecoveryStateSuccess \<or> in_phase s1 = RecoveryStateFailed)"
proof -
  have start: ?thesis if st: "in_phase s = RecoveryStateInit" and due: "\<not> pe_clock e ClockStart - pc_timeInit (pr_ctx s) < msec (IbResiliencyPortRecoveryStartDelay p)"
  proof -
    obtain r s2 where r: "recovery_start p e s = Some (r, s2)" "nccl_ok r" "progress_from p e s2 = Some ((ncclSuccess, ended), s')"
      using p st due by (cases "recovery_start p e s") (auto simp: ncclIbPortRecoveryContextProgress_def deref_def nccl_ok_def split: if_splits)
    note s2 = start_progress [OF r(1,2) i st]
    then show ?thesis using progress_from_facts [OF r(3)] advances_trans by blast
  qed
  have wait: ?thesis if "s' = s" "\<not> ended"
  proof -
    have "finish s = s" using live by (cases "in_phase s") (simp_all add: finish_def)
    then show ?thesis using that i live by (intro exI [of _ s]) simp
  qed
  have on: ?thesis if "progress_from p e s = Some ((ncclSuccess, ended), s')"
    using progress_from_facts [OF that i] .
  show ?thesis using p start wait on unfolding ncclIbPortRecoveryContextProgress_def by (simp split: if_splits)
qed

section \<open>Runs\<close>

text \<open>
  A context between its creation and the end of its recovery. \<open>Progress\<close> is a call by the recovery thread, in any environment, that reports success; \<open>Arrive\<close> is a completion that the
  library puts into the recovery completion queue; \<open>Elsewhere\<close> is what the thread of the application does meanwhile: it changes the requests of the communicator and the state of other
  devices, but no queue pair. The number counts the calls that change the phase.
\<close>

inductive rec_run :: "rec_params \<Rightarrow> rec_st \<Rightarrow> nat \<Rightarrow> rec_st \<Rightarrow> bool" for p s0 where
  Start: "rec_run p s0 0 s0"
| Progress: "rec_run p s0 n s \<Longrightarrow> in_phase s \<noteq> RecoveryStateSuccess \<Longrightarrow> in_phase s \<noteq> RecoveryStateFailed
    \<Longrightarrow> ncclIbPortRecoveryContextProgress p e s = Some ((ncclSuccess, ended), s') \<Longrightarrow> rec_run p s0 (if in_phase s' = in_phase s then n else n + 1) s'"
| Arrive: "rec_run p s0 n s \<Longrightarrow> rec_run p s0 n (upd_rm (\<lambda>m. m\<lparr> rm_cq := rm_cq m @ [wc] \<rparr>) s)"
| Elsewhere: "rec_run p s0 n s \<Longrightarrow> isSend b = isSend (rm_base (pr_comm s)) \<Longrightarrow> nqps b = nqps (rm_base (pr_comm s)) \<Longrightarrow> qps b = qps (rm_base (pr_comm s)) \<Longrightarrow> d \<noteq> pc_devIndex (pr_ctx s)
    \<Longrightarrow> rec_run p s0 n (upd_rm (\<lambda>m. m\<lparr> rm_base := b, rm_res := set_dev_state d st (rm_res m) \<rparr>) s)"

definition run_inv :: "rec_params \<Rightarrow> nat \<Rightarrow> rec_st \<Rightarrow> bool" where
  "run_inv p d s \<longleftrightarrow> rec_inv p s \<and> pc_devIndex (pr_ctx s) = d \<and> d < length (res_devs (rm_res (pr_comm s))) \<and> int d < res_ndevs (rm_res (pr_comm s))
     \<and> (in_phase s = RecoveryStateSuccess \<longrightarrow> dev_state (rm_res (pr_comm s)) d = DevStateRecovered)"

lemma finish_ctx [simp]: "pr_ctx (finish s) = pr_ctx s"
  by (simp add: finish_def mark_device_def upd_rm_def split: ncclIbPortRecoveryState.splits)

lemma mark_device_inv [simp]: "rec_inv p (mark_device st s) = rec_inv p s"
  by (simp add: rec_inv_def ack_backed_def mark_device_def upd_rm_def restored_def qp_ready_def)

lemma finish_inv [simp]: "rec_inv p (finish s) = rec_inv p s"
  by (simp add: finish_def split: ncclIbPortRecoveryState.splits)

lemma finish_device:
  assumes "d = pc_devIndex (pr_ctx s)" "d < length (res_devs (rm_res (pr_comm s)))" "int d < res_ndevs (rm_res (pr_comm s))"
  shows "in_phase s = RecoveryStateSuccess \<longrightarrow> dev_state (rm_res (pr_comm (finish s))) d = DevStateRecovered"
    and "length (res_devs (rm_res (pr_comm (finish s)))) = length (res_devs (rm_res (pr_comm s))) \<and> res_ndevs (rm_res (pr_comm (finish s))) = res_ndevs (rm_res (pr_comm s))"
  using assms by (simp_all add: finish_def mark_device_def upd_rm_def dev_state_def set_dev_state_def split: ncclIbPortRecoveryState.splits)

lemma init_run_inv:
  assumes "ncclIbPortRecoveryContextInit e res d m = (Inr c, m1)" "d < length (res_devs (rm_res m))" "int d < res_ndevs (rm_res m)"
  shows "run_inv p d \<lparr> pr_ctx = c, pr_comm = m1 \<rparr> \<and> isSend (rm_base m1) = isSend (rm_base m) \<and> rank \<lparr> pr_ctx = c, pr_comm = m1 \<rparr> = 0"
proof -
  obtain l where l: "ncclIbPortRecoveryQpsToError e d m = (ncclSuccess, m\<lparr> rm_log := l \<rparr>)"
    using assms(1) by (auto simp: ncclIbPortRecoveryContextInit_def ncclIbPortRecoveryQpsToError_def split: if_splits prod.splits)
  have "touched (m\<lparr> rm_log := l \<rparr>) m1" and c: "c = fresh_context e res d"
    using assms(1) l by (auto simp: ncclIbPortRecoveryContextInit_def split: if_splits prod.splits elim: post_recvs_touched post_recv_touched)
  then have "same_parts (m\<lparr> rm_log := l \<rparr>) m1" using touched_parts by blast
  then show ?thesis using assms(2,3) by (simp add: run_inv_def rec_inv_def ack_backed_def c fresh_context_def same_parts_def rank_def)
qed

lemma run_keeps:
  assumes "rec_run p s0 n s" "run_inv p d s0"
  shows "run_inv p d s \<and> isSend (rm_base (pr_comm s)) = isSend (rm_base (pr_comm s0)) \<and> int n \<le> rank s - rank s0"
  using assms
proof (induction rule: rec_run.induct)
  case (Progress n s e ended s')
  obtain s1 where s1: "rec_inv p s1" "advances s s1" "s' = finish s1"
    using progress_facts [OF Progress.hyps(4)] Progress by (auto simp: run_inv_def)
  have dev: "d = pc_devIndex (pr_ctx s1)" "d < length (res_devs (rm_res (pr_comm s1)))" "int d < res_ndevs (rm_res (pr_comm s1))"
    using Progress s1(2) by (auto simp: run_inv_def advances_def kept_def)
  have base: "rm_base (pr_comm (finish s1)) = rm_base (pr_comm s1)" by (simp add: finish_def mark_device_def upd_rm_def split: ncclIbPortRecoveryState.splits)
  have "rank s' = rank s1" by (simp add: s1(3) rank_def)
  then have "int (if in_phase s' = in_phase s then n else n + 1) \<le> rank s' - rank s0"
    using Progress s1(2,3) by (auto simp: advances_def)
  then show ?case using Progress s1 dev finish_device [OF dev] base by (auto simp: run_inv_def advances_def kept_def)
next
  case (Arrive n s wc)
  then show ?case by (simp add: run_inv_def rec_inv_def ack_backed_def upd_rm_def restored_def qp_ready_def rank_def)
next
  case (Elsewhere n s b d' st)
  then show ?case by (simp add: run_inv_def rec_inv_def ack_backed_def upd_rm_def restored_def qp_ready_def rank_def dev_state_def set_dev_state_def)
qed simp

text \<open>C7 The recovery protocol is sound on both sides. Whatever the environment does from the creation of a recovery context on (results of all library calls, clock, arriving completions,
  the application's thread): when the context reports success, the device is marked recovered, every data queue pair of the device is a plain queue pair whose last accepted transition put it
  into the ready-to-send state, the own acknowledgement was sent and the peer's was received, a sender has seen its own complete, and a receiver has seen more messages in order than the length
  of a sequence.\<close>

theorem recovery_success_sound:
  assumes "ncclIbPortRecoveryContextInit e res d m = (Inr c, m1)" and "d < length (res_devs (rm_res m))" and "int d < res_ndevs (rm_res m)"
    and "rec_run p \<lparr> pr_ctx = c, pr_comm = m1 \<rparr> n s" and "pc_state (pr_ctx s) = RecoveryStateSuccess"
  shows "dev_state (rm_res (pr_comm s)) d = DevStateRecovered
    \<and> (\<forall>q \<in> set (take (nat (nqps (rm_base (pr_comm s)))) (qps (rm_base (pr_comm s)))). qp_devIndex q = int d \<longrightarrow>
         qp_qp q \<noteq> 0 \<and> qp_state_of (rm_log (pr_comm s)) (backing q) = Some QPS_RTS)
    \<and> (\<exists>wr \<in> set (rm_sent (pr_comm s)). wr_imm_data wr = PORT_RECOVERY_ACK_MSG_ID) \<and> ackReceived (pr_ctx s)
    \<and> (if isSend (rm_base m) then ackCompleted (pr_ctx s) else IbResiliencyPortRecoveryAliveMsgSequenceSize p < nInOrderMsgsReceived (pr_ctx s))"
proof -
  have i: "run_inv p d s" "isSend (rm_base (pr_comm s)) = isSend (rm_base m)"
    using run_keeps [OF assms(4)] init_run_inv [OF assms(1-3)] by auto
  then show ?thesis using assms(5) by (simp add: run_inv_def rec_inv_def ack_backed_def restored_def qp_ready_def)
qed

text \<open>C13 Recovery is bounded: from the creation of a context on, in every environment, at most \<open>max 1 IbResiliencyPortRecoveryAttemptsMax\<close> attempts fail, fewer than the maximum unless the context
  has failed (or no attempt has), and the context changes its phase at most four times for each of these attempts and three times more: the two sides cannot send each other back for ever.\<close>

theorem recovery_bounded:
  assumes "ncclIbPortRecoveryContextInit e res d m = (Inr c, m1)" and "d < length (res_devs (rm_res m))" and "int d < res_ndevs (rm_res m)"
    and "rec_run p \<lparr> pr_ctx = c, pr_comm = m1 \<rparr> n s"
  shows "0 \<le> nFailedAttempts (pr_ctx s) \<and> nFailedAttempts (pr_ctx s) \<le> max 1 (IbResiliencyPortRecoveryAttemptsMax p)
    \<and> (pc_state (pr_ctx s) \<noteq> RecoveryStateFailed \<longrightarrow> nFailedAttempts (pr_ctx s) = 0 \<or> nFailedAttempts (pr_ctx s) < IbResiliencyPortRecoveryAttemptsMax p)
    \<and> int n \<le> 4 * max 1 (IbResiliencyPortRecoveryAttemptsMax p) + 3"
proof -
  have r: "run_inv p d s" "int n \<le> rank s" using run_keeps [OF assms(4)] init_run_inv [OF assms(1-3)] by auto
  have "phase_rank (in_phase s) \<le> 3" by (cases "in_phase s") simp_all
  then show ?thesis using r by (auto simp: run_inv_def rec_inv_def rank_def)
qed

section \<open>An example\<close>

text \<open>A sender with one data queue pair and one device, and a library in which everything works.\<close>

definition demo_params :: rec_params where
  "demo_params = \<lparr> IbResiliencyPortRecovery = 1, IbResiliencyPortRecoveryStartDelay = 0, IbResiliencyPortRecoveryAliveMsgBatchInterval = 0, IbResiliencyPortRecoveryAliveMsgSequenceSize = 1,
     IbResiliencyPortRecoveryAliveMsgTimeout = 10, IbResiliencyPortRecoveryAckTimeout = 10, IbResiliencyPortRecoveryAttemptsMax = 3,
     rp_qp = \<lparr> MrcTimeout = 0, MrcQpHintEnable = 0, MrcCcInitRate = 0, MrcCcMinRate = 0, MrcCcMaxRate = 0, IbUseInline = 0, IbTimeout = 20, IbRetryCnt = 7, IbEceEnable = 0, IbFifoTc = 0, qp_params.IbOooRq = 0 \<rparr> \<rparr>"

definition demo_env :: rec_env where
  "demo_env = \<lparr> pe_clock = (\<lambda>_. 0), pe_poll = (\<lambda>_. ncclSuccess), pe_post_recv = (\<lambda>_ _. ncclSuccess), pe_post_send = (\<lambda>_ _. True), pe_post_data_recv = (\<lambda>_ _. ncclSuccess),
     pe_qp = \<lparr> qe_modify = (\<lambda>_. ncclSuccess), qe_create = (\<lambda>_. (ncclSuccess, 1, 1, 0)), qe_mlx5_create = (\<lambda>_. (1, 1, 0)), qe_mrc_create = (\<lambda>_. (ncclSuccess, 1, 0)),
       qe_mrc_get_qpn = (\<lambda>_. (ncclSuccess, 1)), qe_mrc_create_hint = (\<lambda>_. (ncclSuccess, 1)), qe_destroy = (\<lambda>_. ncclSuccess), qe_query_ece = (\<lambda>_. (ncclSuccess, 0, 0)), qe_set_ece = (\<lambda>_ _. (ncclSuccess, 0)) \<rparr>,
     pe_devs = [zero_dev], pe_alloc = True \<rparr>"

definition demo_base :: ncclIbNetCommBase where
  "demo_base = \<lparr> vProps = \<lparr> ndevs = 1, devs = [0] \<rparr>, isSend = True, reqs = [], qps = [zero_qp\<lparr> qp_qp := 5 \<rparr>], activeQps = [Some 0], fifoHead = 0, nqps = 1, splitDataOnQps = 0,
     ready = 1, nRemDevs = 1, remOooRq = False, localOooRq = False, recvMatchingScheme = 0, nDataQps = 1, remDevs = [], b_stats = \<lparr> fatalErrorCount = 0 \<rparr>, resiliency = True,
     speedChangeCounter = 0, totalSpeed = 0, weights = [], devSpeeds = [] \<rparr>"

definition demo_res :: ncclIbResiliency where
  "demo_res = \<lparr> recoveryEnabled = True, res_devs = [\<lparr> rd_state = DevStateRecoveryInProgress, nOutstandingProbes = 0, probingResultMr = zero_mr, rd_probingCq = 0, rd_portRecoveryCq = 0 \<rparr>],
     res_ndevs = 1, probingQps = [], nProbingQps = 0, inProgress = False, outstandingRequests = 0, portRecoveryQps = [zero_qp\<lparr> qp_qp := 7 \<rparr>], nPortRecoveryQps = 1, outstandingRecovery = 1 \<rparr>"

definition demo_comm :: rec_comm where
  "demo_comm = \<lparr> rm_base = demo_base, rm_devs = [zero_devBase], rm_flushEnabled = 0, rm_flushQpsCreated = False, rm_flushQps = [], rm_res = demo_res,
     rm_log = \<lparr> ql_modified = [], ql_destroyed = [] \<rparr>, rm_cq = [], rm_polls = 0, rm_sent = [], rm_recvs = [], rm_data_recvs = [] \<rparr>"

definition demo_wc :: "wc_opcode \<Rightarrow> u32 \<Rightarrow> ibv_wc" where
  "demo_wc op imm = \<lparr> wc_wr_id = 0, wc_stat = WC_SUCCESS, wc_op = op, wc_byte_len = 0, wc_imm_data = imm, wc_qp_num = 0 \<rparr>"

definition arrive :: "ibv_wc \<Rightarrow> rec_st \<Rightarrow> rec_st" where
  "arrive wc = upd_rm (\<lambda>m. m\<lparr> rm_cq := rm_cq m @ [wc] \<rparr>)"

definition progressed :: "rec_st \<Rightarrow> rec_st" where
  "progressed s = snd (the (ncclIbPortRecoveryContextProgress demo_params demo_env s))"

definition demo_start :: rec_st where
  "demo_start = (case ncclIbPortRecoveryContextInit demo_env 0 0 demo_comm of (Inr c, m) \<Rightarrow> \<lparr> pr_ctx = c, pr_comm = m \<rparr> | (Inl r, m) \<Rightarrow> \<lparr> pr_ctx = fresh_context demo_env 0 0, pr_comm = m \<rparr>)"


text \<open>Three completions and two calls take the sender of the example through all phases.\<close>

definition demo_mid :: rec_st where
  "demo_mid = progressed (arrive (demo_wc WC_SEND 0) (progressed demo_start))"

definition demo_end :: rec_st where
  "demo_end = progressed (arrive (demo_wc WC_SEND 0) (arrive (demo_wc WC_RECV PORT_RECOVERY_ACK_MSG_ID) demo_mid))"

definition demo_ok :: "rec_st \<Rightarrow> bool" where
  "demo_ok s \<longleftrightarrow> in_phase s \<noteq> RecoveryStateSuccess \<and> in_phase s \<noteq> RecoveryStateFailed
     \<and> map_option (fst \<circ> fst) (ncclIbPortRecoveryContextProgress demo_params demo_env s) = Some ncclSuccess"

lemma demo_progress: "\<exists>n. rec_run demo_params s0 n s \<Longrightarrow> demo_ok s \<Longrightarrow> \<exists>n. rec_run demo_params s0 n (progressed s)"
  by (elim exE, rule exI, rule rec_run.Progress [where e = demo_env and ended = "snd (fst (the (ncclIbPortRecoveryContextProgress demo_params demo_env s)))"])
     (auto simp: demo_ok_def progressed_def)

lemma demo_arrive: "\<exists>n. rec_run demo_params s0 n s \<Longrightarrow> \<exists>n. rec_run demo_params s0 n (arrive wc s)"
  unfolding arrive_def using rec_run.Arrive by blast

lemma demo_init: "ncclIbPortRecoveryContextInit demo_env 0 0 demo_comm = (Inr (pr_ctx demo_start), pr_comm demo_start)"
  by (simp add: demo_start_def ncclIbPortRecoveryContextInit_def ncclIbPortRecoveryQpsToError_def demo_env_def demo_comm_def demo_base_def zero_qp_def nccl_ok_def ncclIbQpError_def modify_def
      ncclIbPortRecoveryPostRecvWorkRequest_def Let_def)

lemma demo_run: "\<exists>n. rec_run demo_params \<lparr> pr_ctx = pr_ctx demo_start, pr_comm = pr_comm demo_start \<rparr> n demo_end"
proof -
  have s: "\<lparr> pr_ctx = pr_ctx demo_start, pr_comm = pr_comm demo_start \<rparr> = demo_start" by simp
  have ok: "demo_ok demo_start" "demo_ok (arrive (demo_wc WC_SEND 0) (progressed demo_start))"
    "demo_ok (arrive (demo_wc WC_SEND 0) (arrive (demo_wc WC_RECV PORT_RECOVERY_ACK_MSG_ID) demo_mid))" by code_simp+
  show ?thesis
    unfolding s demo_end_def demo_mid_def
    by (intro demo_progress demo_arrive exI [of _ 0] rec_run.Start ok [unfolded demo_mid_def])
qed

theorem recovery_success_sound_witness:
  "dev_state (rm_res (pr_comm demo_end)) 0 = DevStateRecovered \<and> ackReceived (pr_ctx demo_end) \<and> ackCompleted (pr_ctx demo_end)
   \<and> qp_state_of (rm_log (pr_comm demo_end)) (Ibv_qp 5) = Some QPS_RTS"
proof -
  obtain n where "rec_run demo_params \<lparr> pr_ctx = pr_ctx demo_start, pr_comm = pr_comm demo_start \<rparr> n demo_end" using demo_run by blast
  moreover have "in_phase demo_end = RecoveryStateSuccess" by code_simp
  moreover have "isSend (rm_base demo_comm)" "0 < length (res_devs (rm_res demo_comm))" "int 0 < res_ndevs (rm_res demo_comm)" by (simp_all add: demo_comm_def demo_base_def demo_res_def)
  moreover have "qps (rm_base (pr_comm demo_end)) \<noteq> []" "qp_devIndex (hd (qps (rm_base (pr_comm demo_end)))) = int 0"
    "backing (hd (qps (rm_base (pr_comm demo_end)))) = Ibv_qp 5" "nqps (rm_base (pr_comm demo_end)) = 1" by code_simp+
  moreover have "hd (qps (rm_base (pr_comm demo_end))) \<in> set (take (nat (nqps (rm_base (pr_comm demo_end)))) (qps (rm_base (pr_comm demo_end))))"
    using calculation by (cases "qps (rm_base (pr_comm demo_end))") simp_all
  ultimately show ?thesis using recovery_success_sound [OF demo_init, of demo_params n demo_end] by fastforce
qed

theorem recovery_bounded_witness: "nFailedAttempts (pr_ctx demo_end) < 3"
proof -
  obtain n where r: "rec_run demo_params \<lparr> pr_ctx = pr_ctx demo_start, pr_comm = pr_comm demo_start \<rparr> n demo_end" using demo_run by blast
  have "in_phase demo_end \<noteq> RecoveryStateFailed" by code_simp
  then show ?thesis using recovery_bounded [OF demo_init _ _ r] by (auto simp: demo_comm_def demo_res_def demo_params_def)
qed

section \<open>The messages\<close>

















definition demo_receiver :: rec_st where
  "demo_receiver = \<lparr> pr_ctx = (fresh_context demo_env 0 0)\<lparr> pc_state := RecoveryStateAliveMessages, aliveMsgNextId := 0xFFFFFFFF \<rparr>, pr_comm = demo_comm\<lparr> rm_base := demo_base\<lparr> isSend := False \<rparr> \<rparr> \<rparr>"



section \<open>A timeout that ends the thread\<close>

text \<open>C23 A receiver that waits too long for its own acknowledgement to complete ends the recovery thread of the whole process: the phase asks to go back to a previous state, which the
  phase of the alive messages reports as an internal error, and the error leaves the loop of the thread. The thread still counts as active, so that from then on every
  \<open>ncclIbPortRecoveryClose\<close> of a communicator with recovery waits for a thread that is gone.\<close>

theorem ack_timeout_ends_thread:
  assumes "th_active t" and "th_close t = []" and "th_queue t @ th_inbox t = c # cs"
    and "m = th_comm t (pc_resCtx c)" and "e = ev (pc_resCtx c)" and "\<not> isSend (rm_base m)"
    and "pc_state c = RecoveryStateAliveMessages" and "ackPosted c" and "\<not> ackCompleted c" and "rm_cq m = []"
    and "pe_poll e (rm_polls m) = ncclSuccess" and "\<And>rs q. pe_post_recv e rs q = ncclSuccess"
    and "pe_clock e ClockAlive - timeLastMsg c > msec (IbResiliencyPortRecoveryAckTimeout p)" and "nFailedAttempts c + 1 < IbResiliencyPortRecoveryAttemptsMax p"
  shows "\<exists>t'. ncclIbPortRecoveryAsyncThreadMain_turn p ev t = Some (Ends ncclInternalError, t') \<and> th_active t'
    \<and> (\<forall>res. recoveryEnabled (rm_res (th_comm t' res)) \<longrightarrow> fst (ncclIbPortRecoveryClose res t'))"
proof -
  let ?s = "\<lparr> pr_ctx = c, pr_comm = m \<rparr>"
  have posts: "\<exists>m'. post_recvs e q n m0 = (ncclSuccess, m')" for q n m0
    by (induction n arbitrary: m0) (simp_all add: ncclIbPortRecoveryPostRecvWorkRequest_def assms(12))
  have "\<exists>s1. ncclIbPortRecoveryProgressAliveMessagesReceiver p e ?s = Some (Inr ResultGoToPrevState, s1)"
    using assms(8-14) posts
    by (auto simp: ncclIbPortRecoveryProgressAliveMessagesReceiver_def ncclIbPortRecoveryPollCq_def need_def flagged_def deref_def phase_def Let_def upd_rm_def upd_pc_def count_failure_def
        attempts_used_up_def split: prod.splits) (metis Pair_inject)
  then obtain s1 where "ncclIbPortRecoveryContextProgress p e ?s = Some ((ncclInternalError, False), s1)"
    using assms(6,7)
    by (auto simp: ncclIbPortRecoveryContextProgress_def progress_from_def ncclIbPortRecoveryProgressAliveMessages_def deref_def chk_def ret_def nccl_ok_def)
  then show ?thesis
    using assms(1-5) by (auto simp: ncclIbPortRecoveryAsyncThreadMain_turn_def ncclIbPortRecoveryHandleCloseRequests_def Let_def deref_def nccl_ok_def ncclIbPortRecoveryClose_def)
qed

definition demo_thread :: rec_thread where
  "demo_thread = \<lparr> th_active = True, th_refCount = 1, th_inbox = [], th_queue = [(pr_ctx demo_receiver)\<lparr> ackPosted := True \<rparr>], th_close = [], th_closed = [], th_comm = (\<lambda>_. pr_comm demo_receiver) \<rparr>"

theorem ack_timeout_ends_thread_witness:
  "\<exists>t'. ncclIbPortRecoveryAsyncThreadMain_turn demo_params (\<lambda>_. demo_env\<lparr> pe_clock := (\<lambda>_. 20000000) \<rparr>) demo_thread = Some (Ends ncclInternalError, t') \<and> th_active t'"
proof -
  have "msec 10 = 10000000" by code_simp
  then show ?thesis
    using ack_timeout_ends_thread [of demo_thread "(pr_ctx demo_receiver)\<lparr> ackPosted := True \<rparr>" "[]" "pr_comm demo_receiver" "demo_env\<lparr> pe_clock := (\<lambda>_. 20000000) \<rparr>"
        "\<lambda>_. demo_env\<lparr> pe_clock := (\<lambda>_. 20000000) \<rparr>" demo_params]
    by (auto simp: demo_thread_def demo_receiver_def demo_comm_def demo_base_def demo_env_def demo_params_def fresh_context_def)
qed

end
