(* ===== verification/NetIb_Gid.thy ===== *)
theory NetIb_Gid
  imports NetIb_Common
begin

text \<open>
  The choice of the global identifier (GID) a port is addressed by, of the partition key, and of a device on the subnet of the peer, from \<open>net/transport/net_ib/connect.cc\<close>.

  A GID is its 16 bytes. The code reads it as four 32-bit words in network order and compares them with constants and masks that went through \<open>htonl\<close>; here the words are read big-endian
  and the constants are as written. The queries of a port, the file that tells the RoCE version of a GID, the environment and \<open>inet_pton\<close> are the record \<open>gid_env\<close>.
\<close>

unbundle bit_operations_syntax

section \<open>Addresses\<close>

datatype sa_family = AF_INET | AF_INET6

definition be32 :: "u8 list \<Rightarrow> nat \<Rightarrow> u32" where
  "be32 bs i = push_bit 24 (ucast (bs ! (4 * i))) OR push_bit 16 (ucast (bs ! (4 * i + 1))) OR push_bit 8 (ucast (bs ! (4 * i + 2))) OR ucast (bs ! (4 * i + 3))"

definition getGidAddrFamily :: "ibv_gid \<Rightarrow> sa_family" where
  "getGidAddrFamily g =
     (let isIpV4Mapped = ((be32 g 0 OR be32 g 1) OR (be32 g 2 XOR 0x0000ffff) = 0);
          isIpV4MappedMulticast = (be32 g 0 = 0xff0e0000 \<and> be32 g 1 OR (be32 g 2 XOR 0x0000ffff) = 0)
      in if isIpV4Mapped \<or> isIpV4MappedMulticast then AF_INET else AF_INET6)"

text \<open>\<open>NETMASK\<close>, for 1 to 32 bits.\<close>

definition NETMASK :: "int \<Rightarrow> u32" where
  "NETMASK bits = 0xffffffff XOR (push_bit (nat (32 - bits)) 1 - 1)"

text \<open>The loop of \<open>matchGidAddrPrefix\<close> for IPv6; it returns what is left of the length.\<close>

function match6 :: "u8 list \<Rightarrow> ibv_gid \<Rightarrow> int \<Rightarrow> nat \<Rightarrow> int" where
  "match6 base6 g prefixlen i =
     (if prefixlen > 0 \<and> i < 4 then
        if prefixlen \<ge> 32 then
          if be32 base6 i XOR be32 g i \<noteq> 0 then prefixlen else match6 base6 g (prefixlen - 32) (i + 1)
        else if (be32 base6 i AND NETMASK prefixlen) XOR (be32 g i AND NETMASK prefixlen) \<noteq> 0 then prefixlen else 0
      else prefixlen)"
  by pat_completeness auto
termination
  by (relation "measure (\<lambda>(b, g, l, i). 4 - i)") auto

declare match6.simps [simp del]

text \<open>A prefix of length 0 is not read: the null pointer is \<open>[]\<close>. An IPv4 address is the last word of a GID.\<close>

definition matchGidAddrPrefix :: "sa_family \<Rightarrow> u8 list \<Rightarrow> int \<Rightarrow> ibv_gid \<Rightarrow> bool" where
  "matchGidAddrPrefix af prefix prefixlen g =
     (case af of
        AF_INET \<Rightarrow>
          if prefixlen > 0 then (be32 prefix 0 AND NETMASK prefixlen) XOR (be32 g 3 AND NETMASK prefixlen) = 0 else prefixlen = 0
      | AF_INET6 \<Rightarrow> match6 prefix g prefixlen 0 = 0)"

definition configuredGid :: "ibv_gid \<Rightarrow> bool" where
  "configuredGid g =
     (let trailer = be32 g 1 OR be32 g 2 OR be32 g 3 in \<not> (be32 g 0 OR trailer = 0 \<or> (be32 g 0 = 0xfe800000 \<and> trailer = 0)))"

definition linkLocalGid :: "ibv_gid \<Rightarrow> bool" where
  "linkLocalGid g \<longleftrightarrow> be32 g 0 = 0xfe800000 \<and> be32 g 1 = 0"

definition validGid :: "ibv_gid \<Rightarrow> bool" where
  "validGid g \<longleftrightarrow> configuredGid g \<and> \<not> linkLocalGid g"

section \<open>The environment\<close>

text \<open>
  What the file of the RoCE version of a GID gives: it cannot be opened, reading it fails with \<open>EINVAL\<close> or otherwise, or a text.
\<close>

datatype roce_file = Open_failed | Read_einval | Read_failed | Read_text string

record gid_params =
  IbGidIndex :: int
  IbRoutableFlidIbGidIndex :: int
  IbRoceVersionNum :: int
  IbPkey :: int
  IbPkeyValue :: int
  IbSubnetPrefixLen :: int

text \<open>One port: \<open>ge_uninit\<close> is what an uninitialised local variable holds, and \<open>ge_query_pkey\<close> returns the key in host order.\<close>

record gid_env =
  ge_query_gid :: "int \<Rightarrow> ncclResult \<times> ibv_gid"
  ge_roce_file :: "int \<Rightarrow> roce_file"
  ge_query_pkey :: "int \<Rightarrow> ncclResult \<times> u16"
  ge_addr_family :: "string option"
  ge_addr_range :: "string option"
  ge_inet_pton :: "sa_family \<Rightarrow> string \<Rightarrow> u8 list option"
  ge_uninit :: int

definition envIbAddrFamily :: "string option \<Rightarrow> sa_family" where
  "envIbAddrFamily env =
     (case env of
        None \<Rightarrow> AF_INET
      | Some s \<Rightarrow> if length s = 0 then AF_INET else if s = ''AF_INET'' then AF_INET else if s = ''AF_INET6'' then AF_INET6 else AF_INET)"

text \<open>The string is cut to 127 characters; the result is the address and the length of the prefix.\<close>

definition envIbAddrRange :: "gid_env \<Rightarrow> sa_family \<Rightarrow> u8 list \<times> int" where
  "envIbAddrRange e af =
     (case ge_addr_range e of
        None \<Rightarrow> ([], 0)
      | Some env \<Rightarrow>
          if length env = 0 then ([], 0)
          else
           (let addrString = take 127 env; addrStr = takeWhile (\<lambda>c. c \<noteq> CHR ''/'') addrString; rest = dropWhile (\<lambda>c. c \<noteq> CHR ''/'') addrString in
            if rest = [] then ([], 0)
            else (case ge_inet_pton e af addrStr of
                    None \<Rightarrow> ([], 0)
                  | Some addr \<Rightarrow>
                      (let mask = atoi (tl rest) in if mask > (case af of AF_INET \<Rightarrow> 32 | AF_INET6 \<Rightarrow> 128) then ([], 0) else (addr, mask)))))"

definition starts_with :: "string \<Rightarrow> string \<Rightarrow> bool" where
  "starts_with p s \<longleftrightarrow> take (length p) s = p"

text \<open>The version is written only when the file names one: \<open>None\<close> leaves the caller's variable alone.\<close>

definition ncclIbRoceGetVersionNum :: "gid_env \<Rightarrow> int \<Rightarrow> ncclResult \<times> int option" where
  "ncclIbRoceGetVersionNum e gidIndex =
     (case ge_roce_file e gidIndex of
        Open_failed \<Rightarrow> (ncclSystemError, None)
      | Read_einval \<Rightarrow> (ncclSuccess, None)
      | Read_failed \<Rightarrow> (ncclSystemError, None)
      | Read_text s \<Rightarrow>
          (let str = c_str (take 15 s) in
           (ncclSuccess,
            if str = [] then None
            else if starts_with ''IB/RoCE v1'' str \<or> starts_with ''RoCE v1'' str then Some 1
            else if starts_with ''RoCE v2'' str then Some 2
            else None)))"

section \<open>The choice of a GID\<close>

definition ncclUpdateGidIndex :: "gid_env \<Rightarrow> sa_family \<Rightarrow> u8 list \<Rightarrow> int \<Rightarrow> int \<Rightarrow> int \<Rightarrow> int \<Rightarrow> ncclResult \<times> int" where
  "ncclUpdateGidIndex e usrFam prefix prefixlen roceVer cand gidIndex =
     (case ge_query_gid e gidIndex of (r, gid) \<Rightarrow>
      if \<not> nccl_ok r then (r, gidIndex)
      else (case ge_query_gid e cand of (r, gidCandidate) \<Rightarrow>
      if \<not> nccl_ok r then (r, gidIndex)
      else
       (let gidFam = getGidAddrFamily gid; gidCandidateFam = getGidAddrFamily gidCandidate;
            gidCandidateMatchSubnet = matchGidAddrPrefix usrFam prefix prefixlen gidCandidate in
        if gidCandidateFam \<noteq> gidFam \<and> gidCandidateFam = usrFam \<and> gidCandidateMatchSubnet then (ncclSuccess, cand)
        else if gidCandidateFam \<noteq> usrFam \<or> \<not> validGid gidCandidate \<or> \<not> gidCandidateMatchSubnet then (ncclSuccess, gidIndex)
        else (case ncclIbRoceGetVersionNum e gidIndex of (r, v) \<Rightarrow>
          if \<not> nccl_ok r then (r, gidIndex)
          else (case ncclIbRoceGetVersionNum e cand of (r, vc) \<Rightarrow>
            if \<not> nccl_ok r then (r, gidIndex)
            else
             (let gidRoceVerNum = (case v of None \<Rightarrow> ge_uninit e | Some n \<Rightarrow> n); gidRoceVerNumCandidate = (case vc of None \<Rightarrow> - 1 | Some n \<Rightarrow> n) in
              (ncclSuccess, if (gidRoceVerNum \<noteq> gidRoceVerNumCandidate \<or> \<not> validGid gid) \<and> gidRoceVerNumCandidate = roceVer then cand else gidIndex)))))))"

fun gid_loop :: "gid_env \<Rightarrow> sa_family \<Rightarrow> u8 list \<Rightarrow> int \<Rightarrow> int \<Rightarrow> nat list \<Rightarrow> int \<Rightarrow> ncclResult \<times> int" where
  "gid_loop e af prefix len ver [] idx = (ncclSuccess, idx)"
| "gid_loop e af prefix len ver (n # ns) idx =
     (case ncclUpdateGidIndex e af prefix len ver (int n) idx of (r, idx1) \<Rightarrow> if nccl_ok r then gid_loop e af prefix len ver ns idx1 else (r, idx1))"

text \<open>\<open>idx\<close> is what the caller's variable holds before the call.\<close>

definition ncclIbGetGidIndex :: "gid_params \<Rightarrow> gid_env \<Rightarrow> ibv_port_attr \<Rightarrow> int \<Rightarrow> ncclResult \<times> int" where
  "ncclIbGetGidIndex p e pa idx =
     (if pa_link_layer pa = LINK_INFINIBAND then
       (let routableGidIndex = int_of_long (IbRoutableFlidIbGidIndex p) in
        if routableGidIndex < pa_gid_tbl_len pa then
          (case ge_query_gid e routableGidIndex of (r, gid) \<Rightarrow>
             if \<not> nccl_ok r then (r, idx) else (ncclSuccess, if ncclIbExtractFlid gid \<noteq> 0 then routableGidIndex else 0))
        else (ncclSuccess, 0))
      else if int_of_long (IbGidIndex p) \<ge> 0 then (ncclSuccess, int_of_long (IbGidIndex p))
      else
       (let af = envIbAddrFamily (ge_addr_family e); (prefix, prefixlen) = envIbAddrRange e af in
        gid_loop e af prefix prefixlen (int_of_long (IbRoceVersionNum p)) [1..<nat (pa_gid_tbl_len pa)] 0))"

definition ncclIbGidInfoQuery :: "gid_params \<Rightarrow> gid_env \<Rightarrow> ibv_port_attr \<Rightarrow> ncclIbGidInfo \<Rightarrow> ncclResult \<times> ncclIbGidInfo" where
  "ncclIbGidInfoQuery p e pa gi =
     (case ncclIbGetGidIndex p e pa (localGidIndex gi) of (r, i) \<Rightarrow>
      let gi1 = gi\<lparr> gi_link_layer := pa_link_layer pa, localGidIndex := i \<rparr> in
      if \<not> nccl_ok r then (r, gi1)
      else if i < 0 then (ncclInternalError, gi1)
      else (case ge_query_gid e i of (r, gid) \<Rightarrow> if \<not> nccl_ok r then (r, gi1) else (ncclSuccess, gi1\<lparr> localGid := gid \<rparr>)))"

text \<open>\<open>ncclIbGetPkeyIndex\<close>: \<open>Inl\<close> the error, \<open>Inr\<close> the index.\<close>

fun pkey_loop :: "gid_env \<Rightarrow> u16 \<Rightarrow> nat list \<Rightarrow> ncclResult + int" where
  "pkey_loop e target [] = Inl ncclInvalidUsage"
| "pkey_loop e target (i # is) =
     (case ge_query_pkey e (int i) of (r, pkey) \<Rightarrow>
        if \<not> nccl_ok r then Inl r else if pkey AND 0x7fff = target then Inr (int i) else pkey_loop e target is)"

definition ncclIbGetPkeyIndex :: "gid_params \<Rightarrow> gid_env \<Rightarrow> ibv_port_attr \<Rightarrow> ncclResult + int" where
  "ncclIbGetPkeyIndex p e pa =
     (if IbPkeyValue p < 0 then Inr (int_of_long (IbPkey p)) else pkey_loop e (word_of_int (IbPkeyValue p) AND 0x7fff) [0..<unat (pa_pkey_tbl_len pa)])"

section \<open>A device on the subnet of the peer\<close>

definition gidSameSubnet :: "ibv_gid \<Rightarrow> ibv_gid \<Rightarrow> int \<Rightarrow> bool" where
  "gidSameSubnet lcl remote prefixLen =
     (if getGidAddrFamily lcl \<noteq> getGidAddrFamily remote then False
      else if getGidAddrFamily lcl = AF_INET then
        (let mask = NOT (push_bit (nat (32 - prefixLen)) 1 - 1) in be32 lcl 3 AND mask = be32 remote 3 AND mask)
      else take 8 lcl = take 8 remote)"

definition subnetMatchesAny :: "ibv_gid \<Rightarrow> ibv_gid list \<Rightarrow> int \<Rightarrow> bool" where
  "subnetMatchesAny lcl remoteGids prefixLen \<longleftrightarrow> list_ex (\<lambda>g. validGid g \<and> gidSameSubnet lcl g prefixLen) remoteGids"

text \<open>The local GID of an Ethernet function, when it can be found out; \<open>None\<close> where the loops go on with the next function.\<close>

definition ethernet_gid :: "gid_params \<Rightarrow> (int \<Rightarrow> gid_env) \<Rightarrow> ncclIbDev list \<Rightarrow> int \<Rightarrow> ibv_gid option" where
  "ethernet_gid p ev ds n =
     (let ibDev = ds ! nat n in
      if pa_link_layer (dev_portAttr ibDev) \<noteq> LINK_ETHERNET then None
      else (case ncclIbGetGidIndex p (ev n) (dev_portAttr ibDev) 0 of (r, gidIndex) \<Rightarrow>
        if r \<noteq> ncclSuccess then None
        else (case ge_query_gid (ev n) gidIndex of (r, gid) \<Rightarrow> if r \<noteq> ncclSuccess then None else Some gid)))"

definition checked_gids :: "gid_params \<Rightarrow> (int \<Rightarrow> gid_env) \<Rightarrow> ncclIbDev list \<Rightarrow> ncclNetVDeviceProps \<Rightarrow> ibv_gid list" where
  "checked_gids p ev ds vp = List.map_filter (ethernet_gid p ev ds) (take (nat (ndevs vp)) (devs vp))"

text \<open>\<open>checked > 0 && matched == checked\<close>.\<close>

definition all_match :: "ibv_gid list \<Rightarrow> ibv_gid list \<Rightarrow> int \<Rightarrow> bool" where
  "all_match remoteGids gids prefixLen =
     (let checked = length gids; matched = length (filter (\<lambda>g. validGid g \<and> subnetMatchesAny g remoteGids prefixLen) gids) in
      checked > 0 \<and> matched = checked)"

fun find_dev :: "(nat \<Rightarrow> bool) \<Rightarrow> int \<Rightarrow> nat list \<Rightarrow> int" where
  "find_dev ok dflt [] = dflt"
| "find_dev ok dflt (d # ds) = (if int d = dflt then find_dev ok dflt ds else if ok d then int d else find_dev ok dflt ds)"

definition ncclIbFindDevBySubnet :: "gid_params \<Rightarrow> (int \<Rightarrow> gid_env) \<Rightarrow> ncclIbDev list \<Rightarrow> ncclIbMergedDev list \<Rightarrow> ibv_gid list \<Rightarrow> int \<Rightarrow> ncclResult \<times> int" where
  "ncclIbFindDevBySubnet p ev ds mds remoteGids defaultDev =
     (let prefixLen = int_of_long (IbSubnetPrefixLen p); ok = (\<lambda>d. all_match remoteGids (checked_gids p ev ds (md_vProps (mds ! d))) prefixLen) in
      if prefixLen < 1 \<or> prefixLen > 32 then (ncclInvalidArgument, defaultDev)
      else if \<not> list_ex validGid remoteGids then (ncclSuccess, defaultDev)
      else if 0 \<le> defaultDev \<and> defaultDev < int (length mds) \<and> ok (nat defaultDev) then (ncclSuccess, defaultDev)
      else (ncclSuccess, find_dev ok defaultDev [0..<length mds]))"

section \<open>Prefixes\<close>

text \<open>The bits of an address in the order they are sent.\<close>

definition addr_bit :: "u8 list \<Rightarrow> nat \<Rightarrow> bool" where
  "addr_bit bs j \<longleftrightarrow> bit (bs ! (j div 8)) (7 - j mod 8)"

lemma addr_bit_word:
  assumes "k < 32"
  shows "bit (be32 bs i) k = addr_bit bs (32 * i + (31 - k))"
proof -
  have b: "bit (be32 bs i) k \<longleftrightarrow> (if k < 8 then bit (bs ! (4 * i + 3)) k else if k < 16 then bit (bs ! (4 * i + 2)) (k - 8)
      else if k < 24 then bit (bs ! (4 * i + 1)) (k - 16) else bit (bs ! (4 * i)) (k - 24))"
    using assms bit_imp_le_length [of "bs ! (4 * i + 3)" k] bit_imp_le_length [of "bs ! (4 * i + 2)" "k - 8"] bit_imp_le_length [of "bs ! (4 * i + 1)" "k - 16"]
    by (auto simp: be32_def bit_or_iff bit_push_bit_iff bit_unsigned_iff)
  have "\<exists>c r. k = 8 * c + r \<and> r < 8 \<and> c < 4"
    using assms by (intro exI [of _ "k div 8"] exI [of _ "k mod 8"]) auto
  then obtain c r where k: "k = 8 * c + r" "r < 8" "c < 4" by blast
  have e: "32 * i + (31 - k) = 8 * (4 * i + (3 - c)) + (7 - r)" using k by arith
  have "addr_bit bs (32 * i + (31 - k)) = bit (bs ! (4 * i + (3 - c))) r"
  proof -
    have "(8 * q + t) div 8 = q" "(8 * q + t) mod 8 = t" if "t < 8" for q t :: nat using that by simp_all
    from this [of "7 - r" "4 * i + (3 - c)"] show ?thesis unfolding addr_bit_def e using k(2) by simp
  qed
  moreover have "bit (be32 bs i) k = bit (bs ! (4 * i + (3 - c))) r"
  proof -
    consider "c = 0" | "c = 1" | "c = 2" | "c = 3" using k(3) by linarith
    then show ?thesis by cases (use b k(1,2) in simp_all)
  qed
  ultimately show ?thesis by simp
qed

lemma word_xor_eq_0: "(a :: 'a :: len word) XOR b = 0 \<longleftrightarrow> a = b"
  by (metis bit.xor_self word_bw_lcs(3) xor.right_neutral)

lemma netmask_bit:
  assumes "0 < len" "len \<le> 32" "k < 32"
  shows "bit (NETMASK len) k \<longleftrightarrow> 32 - nat len \<le> k"
proof -
  have "nat (32 - len) = 32 - nat len" using assms by linarith
  moreover have "(0xffffffff :: u32) = mask 32" by (simp add: mask_eq_decr_exp)
  moreover have "push_bit m 1 - 1 = (mask m :: u32)" for m by (simp add: mask_eq_decr_exp push_bit_of_1)
  ultimately have "NETMASK len = mask 32 XOR mask (32 - nat len)" by (simp add: NETMASK_def)
  then show ?thesis using assms(3) by (auto simp: bit_xor_iff bit_mask_iff)
qed

lemma masked_eq:
  assumes "0 < len" "len \<le> 32"
  shows "(be32 p i AND NETMASK len) XOR (be32 g j AND NETMASK len) = 0 \<longleftrightarrow> (\<forall>n < nat len. addr_bit p (32 * i + n) = addr_bit g (32 * j + n))"
proof -
  have "(be32 p i AND NETMASK len) = (be32 g j AND NETMASK len) \<longleftrightarrow> (\<forall>k < 32. 32 - nat len \<le> k \<longrightarrow> bit (be32 p i) k = bit (be32 g j) k)"
    using netmask_bit [OF assms] by (auto simp: bit_eq_iff bit_and_iff)
  also have "\<dots> \<longleftrightarrow> (\<forall>k < 32. 32 - nat len \<le> k \<longrightarrow> addr_bit p (32 * i + (31 - k)) = addr_bit g (32 * j + (31 - k)))"
    by (simp add: addr_bit_word)
  also have "\<dots> \<longleftrightarrow> (\<forall>n < nat len. addr_bit p (32 * i + n) = addr_bit g (32 * j + n))"
  proof (rule iffI; intro allI impI)
    fix n
    assume h: "\<forall>k < 32. 32 - nat len \<le> k \<longrightarrow> addr_bit p (32 * i + (31 - k)) = addr_bit g (32 * j + (31 - k))" and n: "n < nat len"
    have "31 - (31 - n) = n" "31 - n < 32" "32 - nat len \<le> 31 - n" using n assms by auto
    then show "addr_bit p (32 * i + n) = addr_bit g (32 * j + n)" using h by metis
  next
    fix k
    assume h: "\<forall>n < nat len. addr_bit p (32 * i + n) = addr_bit g (32 * j + n)" and k: "k < 32" "32 - nat len \<le> k"
    have "31 - k < nat len" using k assms by linarith
    then show "addr_bit p (32 * i + (31 - k)) = addr_bit g (32 * j + (31 - k))" using h by blast
  qed
  finally show ?thesis by (simp add: word_xor_eq_0)
qed

lemma word_eq: "be32 p i XOR be32 g j = 0 \<longleftrightarrow> (\<forall>n < 32. addr_bit p (32 * i + n) = addr_bit g (32 * j + n))"
proof -
  have "NETMASK 32 = mask 32" by (simp add: NETMASK_def mask_eq_decr_exp)
  then have "w AND NETMASK 32 = w" for w :: u32 by (simp add: bit_eq_iff bit_and_iff bit_mask_iff)
  then show ?thesis using masked_eq [of 32 p i g j] by simp
qed

lemma match6_eq:
  assumes "0 \<le> len" "len \<le> 128 - 32 * int i"
  shows "match6 p g len i = 0 \<longleftrightarrow> (\<forall>n < nat len. addr_bit p (32 * i + n) = addr_bit g (32 * i + n))"
  using assms
proof (induction p g len i rule: match6.induct)
  case (1 p g len i)
  consider "len = 0" | "0 < len" "len < 32" | "32 \<le> len" using 1(2) by linarith
  then show ?case
  proof cases
    case 1
    then show ?thesis by (simp add: match6.simps)
  next
    case 2
    then show ?thesis using "1.prems" masked_eq [of len p i g i] by (auto simp: match6.simps [of p g len i])
  next
    case 3
    have i: "i < 4" using 3 "1.prems" by linarith
    have split: "(\<forall>n < nat len. P n) \<longleftrightarrow> (\<forall>n < 32. P n) \<and> (\<forall>n < nat (len - 32). P (32 + n))" for P
    proof (rule iffI; intro conjI allI impI)
      fix n
      assume h: "(\<forall>n < 32. P n) \<and> (\<forall>n < nat (len - 32). P (32 + n))" and n: "n < nat len"
      show "P n"
      proof (cases "n < 32")
        case False
        then have "n = 32 + (n - 32)" "n - 32 < nat (len - 32)" using n by auto
        then show ?thesis using h by metis
      qed (use h in simp)
    qed (use 3 in auto)
    have e: "32 * (i + 1) + n = 32 * i + (32 + n)" for n by simp
    show ?thesis
    proof (cases "be32 p i XOR be32 g i = 0")
      case True
      then have "match6 p g len i = match6 p g (len - 32) (i + 1)" using 3 i by (subst match6.simps) simp
      moreover have "match6 p g (len - 32) (i + 1) = 0 \<longleftrightarrow> (\<forall>n < nat (len - 32). addr_bit p (32 * i + (32 + n)) = addr_bit g (32 * i + (32 + n)))"
        using "1.IH" True 3 i "1.prems" unfolding e [symmetric] by simp
      ultimately show ?thesis using split [of "\<lambda>n. addr_bit p (32 * i + n) = addr_bit g (32 * i + n)"] True word_eq [of p i g i] by simp
    next
      case False
      then have "match6 p g len i = len" using 3 i by (subst match6.simps) simp
      then show ?thesis using split [of "\<lambda>n. addr_bit p (32 * i + n) = addr_bit g (32 * i + n)"] False word_eq [of p i g i] 3 by simp
    qed
  qed
qed

text \<open>C14 The comparison of a GID with the configured range, word by word with masks, decides exactly whether the first bits agree: those of the last four bytes for IPv4, for every length from
  0 to 32, and of all sixteen bytes for IPv6, for every length from 0 to 128.\<close>

theorem prefix_match_exact:
  "(0 \<le> len \<and> len \<le> 32 \<longrightarrow> matchGidAddrPrefix AF_INET p len g = (\<forall>n < nat len. addr_bit p n = addr_bit g (96 + n)))
   \<and> (0 \<le> len \<and> len \<le> 128 \<longrightarrow> matchGidAddrPrefix AF_INET6 p len g = (\<forall>n < nat len. addr_bit p n = addr_bit g n))"
proof -
  have "matchGidAddrPrefix AF_INET p len g = (\<forall>n < nat len. addr_bit p n = addr_bit g (96 + n))" if "0 \<le> len" "len \<le> 32"
    using masked_eq [of len p 0 g 3] that by (cases "len = 0") (simp_all add: matchGidAddrPrefix_def)
  moreover have "matchGidAddrPrefix AF_INET6 p len g = (\<forall>n < nat len. addr_bit p n = addr_bit g n)" if "0 \<le> len" "len \<le> 128"
    using match6_eq [of len 0 p g] that by (simp add: matchGidAddrPrefix_def)
  ultimately show ?thesis by blast
qed

theorem prefix_match_exact_witness:
  "matchGidAddrPrefix AF_INET [192, 168, 1, 0] 23 [0, 0, 0, 0, 0, 0, 0, 0, 0, 0, 255, 255, 192, 168, 0, 77]"
proof -
  have "\<forall>n < 23. addr_bit [192, 168, 1, 0] n = addr_bit [0, 0, 0, 0, 0, 0, 0, 0, 0, 0, 255, 255, 192, 168, 0, 77] (96 + n)" by code_simp
  then show ?thesis using prefix_match_exact [of 23 "[192, 168, 1, 0]" "[0, 0, 0, 0, 0, 0, 0, 0, 0, 0, 255, 255, 192, 168, 0, 77]"] by simp
qed

section \<open>The index of the GID\<close>

definition wanted :: "gid_env \<Rightarrow> int \<Rightarrow> bool" where
  "wanted e i \<longleftrightarrow> (let af = envIbAddrFamily (ge_addr_family e); (prefix, prefixlen) = envIbAddrRange e af; gid = snd (ge_query_gid e i) in
     nccl_ok (fst (ge_query_gid e i)) \<and> getGidAddrFamily gid = af \<and> matchGidAddrPrefix af prefix prefixlen gid)"

lemma update_choice:
  assumes "ncclUpdateGidIndex e af prefix len ver cand idx = (r, idx')"
  shows "idx' = idx \<or> idx' = cand \<and> nccl_ok (fst (ge_query_gid e cand)) \<and> getGidAddrFamily (snd (ge_query_gid e cand)) = af \<and> matchGidAddrPrefix af prefix len (snd (ge_query_gid e cand))"
  using assms by (auto simp: ncclUpdateGidIndex_def Let_def split: prod.splits if_splits)

lemma gid_loop_choice:
  assumes "gid_loop e af prefix len ver ns idx = (r, idx')"
  shows "idx' = idx \<or> idx' \<in> int ` set ns \<and> nccl_ok (fst (ge_query_gid e idx')) \<and> getGidAddrFamily (snd (ge_query_gid e idx')) = af \<and> matchGidAddrPrefix af prefix len (snd (ge_query_gid e idx'))"
  using assms
proof (induction ns arbitrary: idx)
  case (Cons n ns)
  obtain r1 idx1 where u: "ncclUpdateGidIndex e af prefix len ver (int n) idx = (r1, idx1)" by fastforce
  show ?case
  proof (cases "nccl_ok r1")
    case True
    then have "gid_loop e af prefix len ver ns idx1 = (r, idx')" using Cons.prems u by simp
    from Cons.IH [OF this] show ?thesis using update_choice [OF u] by auto
  next
    case False
    then show ?thesis using Cons.prems u update_choice [OF u] by auto
  qed
qed simp

text \<open>C24 On RoCE, when the user does not name an index, the index that is chosen is 0 or lies in the table of the port, and the GID there could be read, has the configured address family and
  lies in the configured range.\<close>

theorem gid_index_choice:
  assumes "pa_link_layer pa \<noteq> LINK_INFINIBAND" and "int_of_long (IbGidIndex p) < 0" and "ncclIbGetGidIndex p e pa idx = (ncclSuccess, i)"
  shows "i = 0 \<or> (0 < i \<and> i < pa_gid_tbl_len pa \<and> wanted e i)"
proof -
  obtain prefix len where r: "envIbAddrRange e (envIbAddrFamily (ge_addr_family e)) = (prefix, len)" by fastforce
  then have "gid_loop e (envIbAddrFamily (ge_addr_family e)) prefix len (int_of_long (IbRoceVersionNum p)) [1..<nat (pa_gid_tbl_len pa)] 0 = (ncclSuccess, i)"
    using assms by (simp add: ncclIbGetGidIndex_def)
  from gid_loop_choice [OF this] show ?thesis by (auto simp: wanted_def r)
qed

definition demo_gid_env :: gid_env where
  "demo_gid_env = \<lparr> ge_query_gid = (\<lambda>i. (ncclSuccess, if i = 3 then [0, 0, 0, 0, 0, 0, 0, 0, 0, 0, 255, 255, 10, 0, 0, 7] else replicate 16 0)), ge_roce_file = (\<lambda>_. Read_text ''RoCE v2''),
     ge_query_pkey = (\<lambda>_. (ncclSuccess, 0)), ge_addr_family = None, ge_addr_range = None, ge_inet_pton = (\<lambda>_ _. None), ge_uninit = 0 \<rparr>"

definition demo_gid_params :: gid_params where
  "demo_gid_params = \<lparr> IbGidIndex = -1, IbRoutableFlidIbGidIndex = 1, IbRoceVersionNum = 2, IbPkey = 0, IbPkeyValue = -1, IbSubnetPrefixLen = 24 \<rparr>"

definition demo_gid_port :: ibv_port_attr where
  "demo_gid_port = \<lparr> pa_active_mtu = 5, pa_link_layer = LINK_ETHERNET, pa_lid = 0, pa_flags = 0, pa_gid_tbl_len = 5, pa_pkey_tbl_len = 1 \<rparr>"

theorem gid_index_choice_witness: "ncclIbGetGidIndex demo_gid_params demo_gid_env demo_gid_port 0 = (ncclSuccess, 3) \<and> wanted demo_gid_env 3"
proof -
  have a: "ncclIbGetGidIndex demo_gid_params demo_gid_env demo_gid_port 0 = (ncclSuccess, 3)" by code_simp
  have "int_of_long (IbGidIndex demo_gid_params) < 0" by code_simp
  then show ?thesis using gid_index_choice [OF _ _ a] a by (simp add: demo_gid_port_def)
qed

section \<open>A device on the subnet of the peer\<close>

text \<open>A merged device reaches the peer: its Ethernet functions that can be queried, at least one, all have a valid GID on the subnet of a valid GID of the peer.\<close>

definition reaches :: "gid_params \<Rightarrow> (int \<Rightarrow> gid_env) \<Rightarrow> ncclIbDev list \<Rightarrow> ncclIbMergedDev list \<Rightarrow> ibv_gid list \<Rightarrow> nat \<Rightarrow> bool" where
  "reaches p ev ds mds remote d \<longleftrightarrow> d < length mds \<and> checked_gids p ev ds (md_vProps (mds ! d)) \<noteq> []
     \<and> (\<forall>g \<in> set (checked_gids p ev ds (md_vProps (mds ! d))). validGid g \<and> (\<exists>h \<in> set remote. validGid h \<and> gidSameSubnet g h (int_of_long (IbSubnetPrefixLen p))))"

lemma all_match_iff: "all_match remote gs len \<longleftrightarrow> gs \<noteq> [] \<and> (\<forall>g \<in> set gs. validGid g \<and> (\<exists>h \<in> set remote. validGid h \<and> gidSameSubnet g h len))"
proof -
  have "length (filter P gs) = length gs \<longleftrightarrow> (\<forall>g \<in> set gs. P g)" for P by (metis filter_True filter_id_conv length_filter_less nat_neq_iff)
  then show ?thesis by (auto simp: all_match_def Let_def subnetMatchesAny_def list_ex_iff)
qed

lemma find_dev_result:
  "find_dev ok dflt ds = dflt \<and> (\<forall>d \<in> set ds. int d \<noteq> dflt \<longrightarrow> \<not> ok d) \<or> (\<exists>d \<in> set ds. find_dev ok dflt ds = int d \<and> int d \<noteq> dflt \<and> ok d)"
  by (induction ds) auto

text \<open>C16 With a legal prefix length and a peer that has a valid GID, subnet-aware routing keeps the default device if it reaches the peer on all its ports, and otherwise finds a device that does
  whenever there is one; without one it keeps the default.\<close>

theorem subnet_device_found:
  assumes "1 \<le> int_of_long (IbSubnetPrefixLen p)" and "int_of_long (IbSubnetPrefixLen p) \<le> 32" and "\<exists>h \<in> set remote. validGid h"
  shows "\<exists>d. ncclIbFindDevBySubnet p ev ds mds remote dflt = (ncclSuccess, d)
    \<and> (0 \<le> dflt \<and> reaches p ev ds mds remote (nat dflt) \<longrightarrow> d = dflt)
    \<and> (d \<noteq> dflt \<longrightarrow> 0 \<le> d)
    \<and> ((\<exists>k. reaches p ev ds mds remote k) \<longrightarrow> reaches p ev ds mds remote (nat d))
    \<and> ((\<nexists>k. reaches p ev ds mds remote k) \<longrightarrow> d = dflt)"
proof -
  let ?ok = "\<lambda>d. all_match remote (checked_gids p ev ds (md_vProps (mds ! d))) (int_of_long (IbSubnetPrefixLen p))"
  have r: "reaches p ev ds mds remote k \<longleftrightarrow> k < length mds \<and> ?ok k" for k by (auto simp: reaches_def all_match_iff)
  have legal: "\<not> (int_of_long (IbSubnetPrefixLen p) < 1 \<or> int_of_long (IbSubnetPrefixLen p) > 32)" "list_ex validGid remote" using assms by (auto simp: list_ex_iff)
  show ?thesis
  proof (cases "0 \<le> dflt \<and> dflt < int (length mds) \<and> ?ok (nat dflt)")
    case True
    then have "ncclIbFindDevBySubnet p ev ds mds remote dflt = (ncclSuccess, dflt)" using legal by (simp add: ncclIbFindDevBySubnet_def Let_def)
    then show ?thesis using True by (auto simp: r)
  next
    case False
    then have f: "ncclIbFindDevBySubnet p ev ds mds remote dflt = (ncclSuccess, find_dev ?ok dflt [0..<length mds])"
      using legal by (auto simp: ncclIbFindDevBySubnet_def Let_def)
    have nd: "\<not> (0 \<le> dflt \<and> reaches p ev ds mds remote (nat dflt))" using False by (auto simp: r)
    consider "find_dev ?ok dflt [0..<length mds] = dflt" "\<forall>d < length mds. int d \<noteq> dflt \<longrightarrow> \<not> ?ok d"
      | d where "find_dev ?ok dflt [0..<length mds] = int d" "int d \<noteq> dflt" "?ok d" "d < length mds"
      using find_dev_result [of ?ok dflt "[0..<length mds]"] by auto
    then show ?thesis
    proof cases
      case 1
      have "\<not> reaches p ev ds mds remote k" for k using 1(2) nd r [of k] by (cases "int k = dflt") auto
      then show ?thesis using f 1(1) by auto
    next
      case (2 d)
      then have "reaches p ev ds mds remote d" by (simp add: r)
      then show ?thesis using f 2 nd by auto
    qed
  qed
qed

theorem subnet_device_found_witness:
  "ncclIbFindDevBySubnet demo_gid_params (\<lambda>n. if n = 1 then demo_gid_env else demo_gid_env\<lparr> ge_query_gid := (\<lambda>_. (ncclSuccess, replicate 16 0)) \<rparr>)
      (replicate 2 (zero_dev\<lparr> dev_portAttr := demo_gid_port \<rparr>))
      (map (\<lambda>n. \<lparr> md_vProps = \<lparr> ndevs = 1, devs = [n] \<rparr>, md_speed = 0, md_railId = 0, md_planeId = 0, md_devName = [] \<rparr>) [0, 1])
      [[0, 0, 0, 0, 0, 0, 0, 0, 0, 0, 255, 255, 10, 0, 0, 9]] 0 = (ncclSuccess, 1)"
proof -
  let ?ev = "\<lambda>n :: int. if n = 1 then demo_gid_env else demo_gid_env\<lparr> ge_query_gid := (\<lambda>_. (ncclSuccess, replicate 16 0)) \<rparr>"
  let ?ds = "replicate 2 (zero_dev\<lparr> dev_portAttr := demo_gid_port \<rparr>)"
  let ?mds = "map (\<lambda>n :: int. \<lparr> md_vProps = \<lparr> ndevs = 1, devs = [n] \<rparr>, md_speed = 0, md_railId = 0, md_planeId = 0, md_devName = [] \<rparr>) [0, 1]"
  let ?remote = "[[0, 0, 0, 0, 0, 0, 0, 0, 0, 0, 255, 255, 10, 0, 0, 9]] :: ibv_gid list"
  have "int_of_long (IbSubnetPrefixLen demo_gid_params) = 24" "\<exists>h \<in> set ?remote. validGid h" by code_simp+
  moreover have "reaches demo_gid_params ?ev ?ds ?mds ?remote 1" "\<not> reaches demo_gid_params ?ev ?ds ?mds ?remote 0" by code_simp+
  moreover have "reaches demo_gid_params ?ev ?ds ?mds ?remote k \<Longrightarrow> k < 2" for k by (simp add: reaches_def)
  ultimately show ?thesis
    using subnet_device_found [of demo_gid_params ?remote ?ev ?ds ?mds 0] by (auto simp: less_2_cases_iff) (metis One_nat_def int_nat_eq less_2_cases_iff nat_1 of_nat_1)
qed

end
