(* ===== verification/NetIb_Connect.thy ===== *)
theory NetIb_Connect
  imports NetIb_Recovery NetIb_Gid
begin

text \<open>
  Setting up the queue pairs of a connection, \<open>net/transport/net_ib/connect.cc\<close> with the parts of \<open>p2p_resiliency.cc\<close> and \<open>p2p_resiliency_recovery.cc\<close> for the probing and the recovery queue
  pairs: both sides create queue pairs striped over their devices, exchange their numbers and devices in the connection metadata, and connect queue pair \<open>i\<close> of the one side to queue pair \<open>i\<close>
  of the other.

  A loop over queue pairs works on a record \<open>qp_setup\<close>: the array of queue pairs, the entries of the metadata it fills, the calls of the library and the devices of the process, whose MTU the
  receiver lowers. A loop ends at the first error, and \<open>None\<close> is an index outside an array or a remainder by 0.
\<close>

unbundle bit_operations_syntax

section \<open>Metadata\<close>

record ncclIbQpInfo =
  qi_qpn :: u32
  qi_ece :: nat
  qi_ece_supported :: int
  qi_devIndex :: int

record ncclIbResiliencyInfo =
  probingQpsInfo :: "ncclIbQpInfo list"
  portRecoveryQpsInfo :: "ncclIbQpInfo list"

record ncclIbConnectionMetadata =
  cm_qpInfo :: "ncclIbQpInfo list"
  cm_resiliencyInfo :: ncclIbResiliencyInfo
  cm_devs :: "ncclIbDevInfo list"
  cm_devName :: string
  cm_addr :: u64
  cm_remSpeedBufAddr :: u64
  cm_remSpeedBufRkey :: u32
  cm_ndevs :: int
  cm_tc :: int
  cm_sl :: int

definition IBV_ACCESS_LOCAL_WRITE :: int where "IBV_ACCESS_LOCAL_WRITE = 1"
definition IBV_ACCESS_REMOTE_WRITE :: int where "IBV_ACCESS_REMOTE_WRITE = 2"
definition IBV_ACCESS_REMOTE_READ :: int where "IBV_ACCESS_REMOTE_READ = 4"
definition IBV_ACCESS_REMOTE_ATOMIC :: int where "IBV_ACCESS_REMOTE_ATOMIC = 8"

section \<open>Loops over queue pairs\<close>

record qp_setup =
  su_qps :: "ncclIbQp list"
  su_info :: "ncclIbQpInfo list"
  su_log :: qp_log
  su_ooo :: bool
  su_devs :: "ncclIbDev list"

fun for_each :: "(nat \<Rightarrow> 's \<Rightarrow> 's outcome) \<Rightarrow> nat list \<Rightarrow> 's \<Rightarrow> 's outcome" where
  "for_each f [] s = ret ncclSuccess s"
| "for_each f (i # is) s = chk (f i s) (for_each f is)"

text \<open>\<open>qpIndex % ndevs\<close>.\<close>

definition stripe :: "nat \<Rightarrow> int \<Rightarrow> int option" where
  "stripe i n = (if n \<le> 0 then None else Some (int i mod n))"

definition put_qp :: "nat \<Rightarrow> ncclIbQp \<Rightarrow> qp_log \<Rightarrow> qp_setup \<Rightarrow> qp_setup" where
  "put_qp i qp l st = st\<lparr> su_qps := (su_qps st)[i := qp], su_log := l \<rparr>"

definition put_info :: "nat \<Rightarrow> ncclIbQpInfo \<Rightarrow> qp_setup \<Rightarrow> qp_setup" where
  "put_info i qi st = st\<lparr> su_info := (su_info st)[i := qi] \<rparr>"

text \<open>The local device, the queue pair and the entry of the metadata of an iteration.\<close>

definition with_device :: "ncclIbNetCommDevBase list \<Rightarrow> int \<Rightarrow> nat \<Rightarrow> qp_setup \<Rightarrow> (ncclIbNetCommDevBase \<Rightarrow> ncclIbDev \<Rightarrow> ncclIbQp \<Rightarrow> ncclIbQpInfo \<Rightarrow> qp_setup outcome) \<Rightarrow> qp_setup outcome" where
  "with_device dbs d i st k =
     deref (at dbs d) (\<lambda>db. deref (at (su_devs st) (ibDevN db)) (\<lambda>dev. deref (at (su_qps st) (int i)) (\<lambda>qp. deref (at (su_info st) (int i)) (\<lambda>qi. k db dev qp qi))))"

definition with_remote :: "ncclIbConnectionMetadata \<Rightarrow> ncclIbQpInfo list \<Rightarrow> nat \<Rightarrow> (ncclIbQpInfo \<Rightarrow> ncclIbDevInfo \<Rightarrow> qp_setup outcome) \<Rightarrow> qp_setup outcome" where
  "with_remote remMeta infos i k = deref (at infos (int i)) (\<lambda>ri. deref (at (cm_devs remMeta) (qi_devIndex ri)) (\<lambda>rd. k ri rd))"

definition zero_create_attr :: ncclIbQpCreateAttr where
  "zero_create_attr = \<lparr> ca_type = QPT_RC, ca_oooRq = False, ca_cq = 0, ca_mrcContext = 0, ca_mrcCq = 0, ca_numQpsPerPeer = 0, ca_pd = 0, ca_maxRecvWorkRequest = 0,
     ca_maxSendWorkRequest = 0, ca_maxInlineData = 0 \<rparr>"

text \<open>The step to INIT, with the record of what the peer is told.\<close>

definition init_attr :: "ncclIbNetCommDevBase \<Rightarrow> ncclIbDev \<Rightarrow> int \<Rightarrow> ncclIbQpInitAttr" where
  "init_attr db dev flags = \<lparr> ia_state = QPS_INIT, ia_pkeyIndex = pkeyIndex db, ia_portNum = dev_portNum dev, ia_qpAccessFlags = flags \<rparr>"

definition created_to_init :: "qp_env \<Rightarrow> ncclIbNetCommDevBase \<Rightarrow> ncclIbDev \<Rightarrow> int \<Rightarrow> int \<Rightarrow> nat \<Rightarrow> ncclIbQp \<Rightarrow> ncclIbQpInfo \<Rightarrow> qp_log \<Rightarrow> qp_setup \<Rightarrow> qp_setup outcome" where
  "created_to_init e db dev d flags i qp qi l st =
     (let qp1 = qp\<lparr> qp_devIndex := d, qp_initAttr := init_attr db dev flags \<rparr> in
      case ncclIbQpInit e qp1 l of (r, l1) \<Rightarrow> ret (if nccl_ok r then ncclSuccess else r) (put_info i (qi\<lparr> qi_qpn := qp_qpn qp, qi_devIndex := d \<rparr>) (put_qp i qp1 l1 st)))"

text \<open>The address of the peer, and the steps to RTR and RTS. For the recovery queue pairs, which are unreliable, \<open>rts\<close> leaves the timeouts alone.\<close>

definition rtr_attr :: "ncclIbNetCommDevBase \<Rightarrow> ncclIbDev \<Rightarrow> ncclIbQpInfo \<Rightarrow> ncclIbDevInfo \<Rightarrow> nat \<Rightarrow> int \<Rightarrow> int \<Rightarrow> ncclIbQpRtrAttr" where
  "rtr_attr db dev ri rd mtu tc sl =
     \<lparr> ra_mtu = mtu, ra_linkLayer = di_link_layer rd, ra_tc = word_of_int tc, ra_sl = sl, ra_remoteQpNum = qi_qpn ri, ra_remoteLid = di_lid rd, ra_remoteGid = di_gid rd,
        ra_localIbPort = di_ib_port rd, ra_localPortFlags = pa_flags (dev_portAttr dev), ra_localGid = localGid (db_gidInfo db), ra_localGidIndex = localGidIndex (db_gidInfo db) \<rparr>"

definition with_timeouts :: "qp_params \<Rightarrow> ncclIbQp \<Rightarrow> ncclIbQp" where
  "with_timeouts p qp = qp\<lparr> qp_rtsAttr := \<lparr> rts_timeout = int_of_long (IbTimeout p), rts_retryCnt = int_of_long (IbRetryCnt p) \<rparr> \<rparr>"

definition rtr_rts :: "qp_params \<Rightarrow> qp_env \<Rightarrow> (ncclIbQp \<Rightarrow> ncclIbQp) \<Rightarrow> nat \<Rightarrow> ncclIbQp \<Rightarrow> qp_setup \<Rightarrow> qp_setup outcome" where
  "rtr_rts p e rts i qp st =
     deref (ncclIbQpRtr e qp (su_log st)) (\<lambda>(r, l).
       if \<not> nccl_ok r then ret r (put_qp i qp l st)
       else deref (ncclIbQpRts p e (rts qp) l) (\<lambda>(r, l). ret (if nccl_ok r then ncclSuccess else r) (put_qp i (rts qp) l st)))"

text \<open>The number in \<open>min\<close> is an enumeration constant; its order is that of the sizes.\<close>

definition peer_tc :: "ncclIbDevInfo \<Rightarrow> int \<Rightarrow> int" where
  "peer_tc rd tc = (if di_link_layer rd = LINK_ETHERNET then tc else - 1)"

section \<open>Data queue pairs of the sender\<close>

text \<open>Whether out-of-order receive queues are forced; the attribute of an earlier iteration stays when they are not.\<close>

definition ooo_check :: "qp_params \<Rightarrow> ncclIbNetCommBase \<Rightarrow> ncclIbDev \<Rightarrow> bool \<Rightarrow> ncclResult + bool" where
  "ooo_check p b dev ooo =
     (if dev_ibProvider dev = IB_PROVIDER_MLX5 \<and> qp_params.IbOooRq p \<noteq> 0 then
        if dev_ar dev = 0 then Inl ncclInternalError
        else if \<not> (remOooRq b \<and> localOooRq b) then Inl ncclInternalError
        else Inr True
      else Inr ooo)"

definition data_attr :: "ncclIbNetCommDevBase \<Rightarrow> ncclIbDev \<Rightarrow> int \<Rightarrow> bool \<Rightarrow> u32 \<Rightarrow> u32 \<Rightarrow> ncclIbQpCreateAttr" where
  "data_attr db dev n ooo nrecv nsend =
     zero_create_attr\<lparr> ca_numQpsPerPeer := n, ca_maxRecvWorkRequest := nrecv, ca_maxSendWorkRequest := nsend, ca_cq := db_cq db, ca_mrcContext := dev_mrcContext dev, ca_mrcCq := db_mrcCq db,
       ca_pd := db_pd db, ca_oooRq := ooo \<rparr>"

text \<open>The capabilities of enhanced connection establishment (ECE) the sender offers.\<close>

definition offer_ece :: "qp_params \<Rightarrow> qp_env \<Rightarrow> nat \<Rightarrow> qp_setup \<Rightarrow> qp_setup outcome" where
  "offer_ece p e i st =
     (let qp = su_qps st ! i; qi = su_info st ! i in
      if IbEceEnable p \<noteq> 0 \<and> qp_qp qp \<noteq> 0 then
        (case qe_query_ece e (qp_qp qp) of (r, ece, supported) \<Rightarrow>
           if \<not> nccl_ok r then ret r st
           else ret ncclSuccess (put_info i (qi\<lparr> qi_ece := ece, qi_ece_supported := supported \<rparr>) (put_qp i (qp\<lparr> qp_eceSupported := supported \<rparr>) (su_log st) st)))
      else ret ncclSuccess (put_info i (qi\<lparr> qi_ece_supported := 0 \<rparr>) (put_qp i (qp\<lparr> qp_ece := 0, qp_eceSupported := 0 \<rparr>) (su_log st) st)))"

definition sender_qp_create :: "qp_params \<Rightarrow> qp_env \<Rightarrow> ncclIbNetCommBase \<Rightarrow> ncclIbNetCommDevBase list \<Rightarrow> nat \<Rightarrow> qp_setup \<Rightarrow> qp_setup outcome" where
  "sender_qp_create p e b dbs i st =
     deref (stripe i (ndevs (vProps b))) (\<lambda>d. with_device dbs d i st (\<lambda>db dev qp qi.
       case ooo_check p b dev (su_ooo st) of
         Inl r \<Rightarrow> ret r st
       | Inr ooo \<Rightarrow>
           (case ncclIbQpCreate p e (data_attr db dev (nqps b) ooo 0 (word_of_nat (2 * NET_IB_MAX_REQUESTS))) (qp, su_log st) of (r, qp1, l) \<Rightarrow>
              let st1 = (put_qp i qp1 l st)\<lparr> su_ooo := ooo \<rparr> in
              if \<not> nccl_ok r then ret r st1
              else chk (created_to_init e db dev d IBV_ACCESS_REMOTE_WRITE i qp1 qi l st1) (offer_ece p e i))))"

text \<open>The sender accepts the reduced capabilities the receiver returns.\<close>

definition accept_ece :: "qp_env \<Rightarrow> ncclIbQpInfo \<Rightarrow> nat \<Rightarrow> ncclIbQp \<Rightarrow> ncclResult \<times> ncclIbQp" where
  "accept_ece e ri i qp =
     (if qp_qp qp \<noteq> 0 \<and> qp_eceSupported qp \<noteq> 0 \<and> qi_ece_supported ri \<noteq> 0 then
        (case qe_set_ece e (qp_qp qp) (qi_ece ri) of (r, supported) \<Rightarrow> if \<not> nccl_ok r then (r, qp) else (ncclSuccess, qp\<lparr> qp_eceSupported := supported, qp_ece := qi_ece ri \<rparr>))
      else (ncclSuccess, qp\<lparr> qp_eceSupported := 0, qp_ece := 0 \<rparr>))"

definition sender_qp_connect :: "qp_params \<Rightarrow> qp_env \<Rightarrow> ncclIbNetCommDevBase list \<Rightarrow> ncclIbConnectionMetadata \<Rightarrow> nat \<Rightarrow> qp_setup \<Rightarrow> qp_setup outcome" where
  "sender_qp_connect p e dbs remMeta i st =
     deref (at (su_qps st) (int i)) (\<lambda>qp0. with_device dbs (qp_devIndex qp0) i st (\<lambda>db dev qp qi.
     with_remote remMeta (cm_qpInfo remMeta) i (\<lambda>ri rd.
       case accept_ece e ri i (qp\<lparr> qp_remDevIdx := qi_devIndex ri \<rparr>) of (r, qp1) \<Rightarrow>
         if \<not> nccl_ok r then ret r (put_qp i qp1 (su_log st) st)
         else rtr_rts p e (with_timeouts p) i
                (qp1\<lparr> qp_rtrAttr := rtr_attr db dev ri rd (min (di_mtu rd) (pa_active_mtu (dev_portAttr dev))) (peer_tc rd (cm_tc remMeta)) (cm_sl remMeta) \<rparr>) st)))"

section \<open>Data queue pairs of the receiver\<close>

definition receiver_rq_size :: "ncclIbNetCommBase \<Rightarrow> ncclIbResiliency \<Rightarrow> ncclResult + u32" where
  "receiver_rq_size b res = (if resiliency b then ncclIbResiliencyDataRqSizeGet \<lparr> r_ctx = res, r_base = b \<rparr> else Inr (word_of_nat NET_IB_MAX_REQUESTS))"

definition receiver_sq_size :: "ib_params \<Rightarrow> ncclIbNetCommBase \<Rightarrow> u32" where
  "receiver_sq_size ip b =
     word_of_nat (NET_IB_MAX_REQUESTS * (if resiliency b then 1 else 2) + (if IbEventBasedLb ip \<noteq> 0 \<and> IbEventBasedLbRemote ip \<noteq> 0 then 1 else 0))"

text \<open>The check on the size of an out-of-order receive queue comes after those of the sender.\<close>

definition receiver_ooo_check :: "qp_params \<Rightarrow> ncclIbNetCommBase \<Rightarrow> ncclIbDev \<Rightarrow> u32 \<Rightarrow> bool \<Rightarrow> ncclResult + bool" where
  "receiver_ooo_check p b dev nrecv ooo =
     (case ooo_check p b dev ooo of
        Inl r \<Rightarrow> Inl r
      | Inr o' \<Rightarrow> if dev_ibProvider dev = IB_PROVIDER_MLX5 \<and> qp_params.IbOooRq p \<noteq> 0 \<and> dev_oooRqSize dev < nrecv then Inl ncclInternalError else Inr o')"

text \<open>The receiver sets the capabilities of the sender, and after the connection stores what the device reduced them to.\<close>

definition set_ece :: "qp_env \<Rightarrow> ncclIbQpInfo \<Rightarrow> nat \<Rightarrow> qp_setup \<Rightarrow> qp_setup outcome" where
  "set_ece e ri i st =
     (let qp = su_qps st ! i; qi = su_info st ! i in
      if qp_qp qp \<noteq> 0 \<and> qi_ece_supported ri \<noteq> 0 then
        (case qe_set_ece e (qp_qp qp) (qi_ece ri) of (r, supported) \<Rightarrow> if \<not> nccl_ok r then ret r st else ret ncclSuccess (put_info i (qi\<lparr> qi_ece_supported := supported \<rparr>) st))
      else ret ncclSuccess (put_info i (qi\<lparr> qi_ece_supported := 0 \<rparr>) (put_qp i (qp\<lparr> qp_ece := 0, qp_eceSupported := 0 \<rparr>) (su_log st) st)))"

definition reduced_ece :: "qp_env \<Rightarrow> ncclIbQpInfo \<Rightarrow> nat \<Rightarrow> qp_setup \<Rightarrow> qp_setup outcome" where
  "reduced_ece e ri i st =
     (let qp = su_qps st ! i; qi = su_info st ! i in
      if qp_qp qp \<noteq> 0 \<and> qi_ece_supported ri \<noteq> 0 \<and> qi_ece_supported qi \<noteq> 0 then
        (case qe_query_ece e (qp_qp qp) of (r, ece, supported) \<Rightarrow>
           if \<not> nccl_ok r then ret r st
           else ret ncclSuccess (put_info i (qi\<lparr> qi_ece := ece, qi_ece_supported := supported \<rparr>) (put_qp i (qp\<lparr> qp_ece := ece, qp_eceSupported := supported \<rparr>) (su_log st) st)))
      else ret ncclSuccess (put_qp i (qp\<lparr> qp_ece := 0, qp_eceSupported := 0 \<rparr>) (su_log st) st))"

text \<open>The receiver lowers the MTU of its device to that of the peer's device.\<close>

definition lower_mtu :: "int \<Rightarrow> nat \<Rightarrow> qp_setup \<Rightarrow> qp_setup" where
  "lower_mtu n mtu st =
     st\<lparr> su_devs := (su_devs st)[nat n := (su_devs st ! nat n)\<lparr> dev_portAttr := (dev_portAttr (su_devs st ! nat n))\<lparr> pa_active_mtu := min (pa_active_mtu (dev_portAttr (su_devs st ! nat n))) mtu \<rparr> \<rparr>] \<rparr>"

definition receiver_tc :: "qp_params \<Rightarrow> ncclIbDevInfo \<Rightarrow> int \<Rightarrow> int" where
  "receiver_tc p rd tc = (if di_link_layer rd = LINK_ETHERNET \<and> IbFifoTc p \<noteq> - 1 then IbFifoTc p else tc)"

definition receiver_connect :: "qp_params \<Rightarrow> qp_env \<Rightarrow> ncclIbNetCommDevBase \<Rightarrow> ncclIbConnectionMetadata \<Rightarrow> ncclIbQpInfo \<Rightarrow> ncclIbDevInfo \<Rightarrow> nat \<Rightarrow> qp_setup \<Rightarrow> qp_setup outcome" where
  "receiver_connect p e db remMeta ri rd i st =
     (let st1 = lower_mtu (ibDevN db) (di_mtu rd) st; dev = su_devs st1 ! nat (ibDevN db) in
      chk (rtr_rts p e (with_timeouts p) i
             ((su_qps st1 ! i)\<lparr> qp_rtrAttr := rtr_attr db dev ri rd (pa_active_mtu (dev_portAttr dev)) (receiver_tc p rd (cm_tc remMeta)) (cm_sl remMeta) \<rparr>) st1)
          (reduced_ece e ri i))"

definition receiver_qp_create :: "qp_params \<Rightarrow> ib_params \<Rightarrow> qp_env \<Rightarrow> ncclIbNetCommBase \<Rightarrow> ncclIbNetCommDevBase list \<Rightarrow> ncclIbResiliency \<Rightarrow> ncclIbConnectionMetadata \<Rightarrow> nat \<Rightarrow> qp_setup \<Rightarrow> qp_setup outcome" where
  "receiver_qp_create p ip e b dbs res remMeta i st =
      deref (stripe i (ndevs (vProps b))) (\<lambda>d. with_device dbs d i st (\<lambda>db dev qp0 qi. with_remote remMeta (cm_qpInfo remMeta) i (\<lambda>ri rd.
        let qp = qp0\<lparr> qp_remDevIdx := qi_devIndex ri, qp_devIndex := d \<rparr> in
        case receiver_rq_size b res of
          Inl r \<Rightarrow> ret r (put_qp i qp (su_log st) st)
        | Inr nrecv \<Rightarrow>
            (case receiver_ooo_check p b dev nrecv (su_ooo st) of
               Inl r \<Rightarrow> ret r (put_qp i qp (su_log st) st)
             | Inr ooo \<Rightarrow>
                 (case ncclIbReceiverQpCreate p e (data_attr db dev (nqps b) ooo nrecv (receiver_sq_size ip b)) (qp, su_log st) of (r, qp1, l) \<Rightarrow>
                    let st1 = (put_qp i qp1 l st)\<lparr> su_ooo := ooo \<rparr> in
                    if \<not> nccl_ok r then ret r st1
                    else chk (created_to_init e db dev d (IBV_ACCESS_REMOTE_WRITE + IBV_ACCESS_REMOTE_ATOMIC + IBV_ACCESS_REMOTE_READ) i qp1 qi l st1) (\<lambda>st2.
                         chk (set_ece e ri i st2) (receiver_connect p e db remMeta ri rd i)))))))"

section \<open>Probing and recovery queue pairs\<close>

text \<open>They are plain queue pairs on completion queues of their own.\<close>

definition aux_attr :: "ncclIbNetCommDevBase \<Rightarrow> ibv_qp_type \<Rightarrow> nat \<Rightarrow> nat \<Rightarrow> nat \<Rightarrow> ncclIbQpCreateAttr" where
  "aux_attr db ty cq nrecv nsend =
     zero_create_attr\<lparr> ca_type := ty, ca_maxRecvWorkRequest := word_of_nat nrecv, ca_maxSendWorkRequest := word_of_nat nsend, ca_cq := cq, ca_pd := db_pd db \<rparr>"

definition aux_qp_create :: "qp_params \<Rightarrow> qp_env \<Rightarrow> ncclIbNetCommDevBase list \<Rightarrow> ibv_qp_type \<Rightarrow> (int \<Rightarrow> nat option) \<Rightarrow> nat \<Rightarrow> nat \<Rightarrow> int \<Rightarrow> int \<Rightarrow> nat \<Rightarrow> qp_setup \<Rightarrow> qp_setup outcome" where
  "aux_qp_create p e dbs ty cqs nrecv nsend flags d i st =
     with_device dbs d i st (\<lambda>db dev qp qi. deref (cqs d) (\<lambda>cq.
       case ncclIbQpCreate p e (aux_attr db ty cq nrecv nsend) (qp, su_log st) of (r, qp1, l) \<Rightarrow>
         if \<not> nccl_ok r then ret r (put_qp i qp1 l st) else created_to_init e db dev d flags i qp1 qi l (put_qp i qp1 l st)))"

text \<open>Only the sender notes the index of the remote device.\<close>

definition aux_qp_connect :: "qp_params \<Rightarrow> qp_env \<Rightarrow> (ncclIbQp \<Rightarrow> ncclIbQp) \<Rightarrow> bool \<Rightarrow> ncclIbNetCommDevBase list \<Rightarrow> ncclIbConnectionMetadata \<Rightarrow> ncclIbQpInfo list \<Rightarrow> int \<Rightarrow> nat \<Rightarrow> qp_setup \<Rightarrow> qp_setup outcome" where
  "aux_qp_connect p e rts sending dbs remMeta infos d i st =
     with_device dbs d i st (\<lambda>db dev qp qi. with_remote remMeta infos i (\<lambda>ri rd.
       rtr_rts p e rts i
         (qp\<lparr> qp_remDevIdx := (if sending then qi_devIndex ri else qp_remDevIdx qp),
               qp_rtrAttr := rtr_attr db dev ri rd (min (di_mtu rd) (pa_active_mtu (dev_portAttr dev))) (peer_tc rd (cm_tc remMeta)) (cm_sl remMeta) \<rparr>) st))"

text \<open>One side of a connection. The flush queue pairs of a receiver come later; their service level and traffic class are noted.\<close>

record conn_setup =
  cs_base :: ncclIbNetCommBase
  cs_dbs :: "ncclIbNetCommDevBase list"
  cs_res :: ncclIbResiliency
  cs_meta :: ncclIbConnectionMetadata
  cs_log :: qp_log
  cs_devs :: "ncclIbDev list"
  cs_flushEnabled :: int
  cs_flushQpSl :: int
  cs_flushQpTc :: int

definition on_data :: "(qp_setup \<Rightarrow> qp_setup outcome) \<Rightarrow> conn_setup \<Rightarrow> conn_setup outcome" where
  "on_data f cs =
     deref (f \<lparr> su_qps = qps (cs_base cs), su_info = cm_qpInfo (cs_meta cs), su_log = cs_log cs, su_ooo = False, su_devs = cs_devs cs \<rparr>) (\<lambda>(r, st).
       ret r (cs\<lparr> cs_base := (cs_base cs)\<lparr> qps := su_qps st \<rparr>, cs_meta := (cs_meta cs)\<lparr> cm_qpInfo := su_info st \<rparr>, cs_log := su_log st, cs_devs := su_devs st \<rparr>))"

definition on_probing :: "(qp_setup \<Rightarrow> qp_setup outcome) \<Rightarrow> conn_setup \<Rightarrow> conn_setup outcome" where
  "on_probing f cs =
     (let ri = cm_resiliencyInfo (cs_meta cs) in
      deref (f \<lparr> su_qps = probingQps (cs_res cs), su_info = probingQpsInfo ri, su_log = cs_log cs, su_ooo = False, su_devs = cs_devs cs \<rparr>) (\<lambda>(r, st).
        ret r (cs\<lparr> cs_res := (cs_res cs)\<lparr> probingQps := su_qps st \<rparr>, cs_meta := (cs_meta cs)\<lparr> cm_resiliencyInfo := ri\<lparr> probingQpsInfo := su_info st \<rparr> \<rparr>,
          cs_log := su_log st, cs_devs := su_devs st \<rparr>)))"

definition on_recovery :: "(qp_setup \<Rightarrow> qp_setup outcome) \<Rightarrow> conn_setup \<Rightarrow> conn_setup outcome" where
  "on_recovery f cs =
     (let ri = cm_resiliencyInfo (cs_meta cs) in
      deref (f \<lparr> su_qps = portRecoveryQps (cs_res cs), su_info = portRecoveryQpsInfo ri, su_log = cs_log cs, su_ooo = False, su_devs = cs_devs cs \<rparr>) (\<lambda>(r, st).
        ret r (cs\<lparr> cs_res := (cs_res cs)\<lparr> portRecoveryQps := su_qps st \<rparr>, cs_meta := (cs_meta cs)\<lparr> cm_resiliencyInfo := ri\<lparr> portRecoveryQpsInfo := su_info st \<rparr> \<rparr>,
          cs_log := su_log st, cs_devs := su_devs st \<rparr>)))"

definition probing_cq :: "ncclIbResiliency \<Rightarrow> int \<Rightarrow> nat option" where
  "probing_cq res d = map_option rd_probingCq (at (res_devs res) d)"

definition recovery_cq :: "ncclIbResiliency \<Rightarrow> int \<Rightarrow> nat option" where
  "recovery_cq res d = map_option rd_portRecoveryCq (at (res_devs res) d)"

definition ncclIbPortRecoverySenderQpsCreate :: "qp_params \<Rightarrow> qp_env \<Rightarrow> int \<Rightarrow> conn_setup \<Rightarrow> conn_setup outcome" where
  "ncclIbPortRecoverySenderQpsCreate p e n cs =
     (if n \<le> 0 \<or> \<not> recoveryEnabled (cs_res cs) then ret ncclInternalError cs
      else on_recovery (for_each (\<lambda>i st. deref (stripe i (ndevs (vProps (cs_base cs)))) (\<lambda>d.
             aux_qp_create p e (cs_dbs cs) QPT_UC (recovery_cq (cs_res cs)) 1 ALIVE_MSG_BATCH_SIZE_MAX IBV_ACCESS_LOCAL_WRITE d i st)) [0..<nat n]) cs)"

definition ncclIbPortRecoverySenderQpsToRts :: "qp_params \<Rightarrow> qp_env \<Rightarrow> ncclIbConnectionMetadata \<Rightarrow> int \<Rightarrow> conn_setup \<Rightarrow> conn_setup outcome" where
  "ncclIbPortRecoverySenderQpsToRts p e remMeta n cs =
     (if n \<le> 0 \<or> \<not> recoveryEnabled (cs_res cs) then ret ncclInternalError cs
      else on_recovery (for_each (\<lambda>i st. deref (stripe i (ndevs (vProps (cs_base cs)))) (\<lambda>d.
             aux_qp_connect p e (\<lambda>qp. qp) True (cs_dbs cs) remMeta (portRecoveryQpsInfo (cm_resiliencyInfo remMeta)) d i st)) [0..<nat n]) cs)"

definition ncclIbPortRecoveryReceiverQpsCreateToRts :: "qp_params \<Rightarrow> qp_env \<Rightarrow> ncclIbConnectionMetadata \<Rightarrow> int \<Rightarrow> conn_setup \<Rightarrow> conn_setup outcome" where
  "ncclIbPortRecoveryReceiverQpsCreateToRts p e remMeta n cs =
     on_recovery (for_each (\<lambda>i st. deref (stripe i (ndevs (vProps (cs_base cs)))) (\<lambda>d.
       chk (aux_qp_create p e (cs_dbs cs) QPT_UC (recovery_cq (cs_res cs)) ALIVE_MSG_BATCH_SIZE_MAX 1 IBV_ACCESS_LOCAL_WRITE d i st)
           (aux_qp_connect p e (\<lambda>qp. qp) False (cs_dbs cs) remMeta (portRecoveryQpsInfo (cm_resiliencyInfo remMeta)) d i))) [0..<nat n]) cs"

definition ncclIbResiliencySenderCreateQps :: "qp_params \<Rightarrow> qp_env \<Rightarrow> conn_setup \<Rightarrow> conn_setup outcome" where
  "ncclIbResiliencySenderCreateQps p e cs =
     chk (on_probing (for_each (\<lambda>i. aux_qp_create p e (cs_dbs cs) QPT_RC (probing_cq (cs_res cs)) 0 NET_IB_MAX_REQUESTS IBV_ACCESS_LOCAL_WRITE (int i) i) [0..<nat (nProbingQps (cs_res cs))]) cs)
       (\<lambda>cs. if recoveryEnabled (cs_res cs) then ncclIbPortRecoverySenderQpsCreate p e (nPortRecoveryQps (cs_res cs)) cs else ret ncclSuccess cs)"

definition ncclIbResiliencySenderQpsToRts :: "qp_params \<Rightarrow> qp_env \<Rightarrow> ncclIbConnectionMetadata \<Rightarrow> conn_setup \<Rightarrow> conn_setup outcome" where
  "ncclIbResiliencySenderQpsToRts p e remMeta cs =
     chk (on_probing (for_each (\<lambda>i. aux_qp_connect p e (with_timeouts p) True (cs_dbs cs) remMeta (probingQpsInfo (cm_resiliencyInfo remMeta)) (int i) i) [0..<nat (nProbingQps (cs_res cs))]) cs)
       (\<lambda>cs. if recoveryEnabled (cs_res cs) then ncclIbPortRecoverySenderQpsToRts p e remMeta (nPortRecoveryQps (cs_res cs)) cs else ret ncclSuccess cs)"

definition ncclIbResiliencyReceiverQpsCreateToRts :: "qp_params \<Rightarrow> qp_env \<Rightarrow> ncclIbConnectionMetadata \<Rightarrow> conn_setup \<Rightarrow> conn_setup outcome" where
  "ncclIbResiliencyReceiverQpsCreateToRts p e remMeta cs =
     chk (on_probing (for_each (\<lambda>i st. deref (stripe i (ndevs (vProps (cs_base cs)))) (\<lambda>d.
            chk (aux_qp_create p e (cs_dbs cs) QPT_RC (probing_cq (cs_res cs)) 0 0 IBV_ACCESS_REMOTE_READ d i st)
                (aux_qp_connect p e (with_timeouts p) False (cs_dbs cs) remMeta (probingQpsInfo (cm_resiliencyInfo remMeta)) d i))) [0..<nat (nProbingQps (cs_res cs))]) cs)
       (\<lambda>cs. if recoveryEnabled (cs_res cs) then ncclIbPortRecoveryReceiverQpsCreateToRts p e remMeta (nPortRecoveryQps (cs_res cs)) cs else ret ncclSuccess cs)"

section \<open>All queue pairs of a side\<close>

text \<open>The result of \<open>ncclIbResiliencySenderCreateQps\<close> is not looked at.\<close>

definition ncclIbSenderQpsCreate :: "qp_params \<Rightarrow> qp_env \<Rightarrow> conn_setup \<Rightarrow> conn_setup outcome" where
  "ncclIbSenderQpsCreate p e cs =
     chk (on_data (for_each (sender_qp_create p e (cs_base cs) (cs_dbs cs)) [0..<nat (nqps (cs_base cs))]) cs)
       (\<lambda>cs. if resiliency (cs_base cs) then deref (ncclIbResiliencySenderCreateQps p e cs) (\<lambda>(r, cs). ret ncclSuccess cs) else ret ncclSuccess cs)"

definition ncclIbSenderQpsToRts :: "qp_params \<Rightarrow> qp_env \<Rightarrow> ncclIbConnectionMetadata \<Rightarrow> conn_setup \<Rightarrow> conn_setup outcome" where
  "ncclIbSenderQpsToRts p e remMeta cs =
     chk (on_data (for_each (sender_qp_connect p e (cs_dbs cs) remMeta) [0..<nat (nqps (cs_base cs))]) cs)
       (\<lambda>cs. if resiliency (cs_base cs) then ncclIbResiliencySenderQpsToRts p e remMeta cs else ret ncclSuccess cs)"

definition ncclIbReceiverQpsCreateToRts :: "qp_params \<Rightarrow> ib_params \<Rightarrow> qp_env \<Rightarrow> ncclIbConnectionMetadata \<Rightarrow> conn_setup \<Rightarrow> conn_setup outcome" where
  "ncclIbReceiverQpsCreateToRts p ip e remMeta cs =
     chk (on_data (for_each (receiver_qp_create p ip e (cs_base cs) (cs_dbs cs) (cs_res cs) remMeta) [0..<nat (nqps (cs_base cs))]) cs) (\<lambda>cs.
       let cs1 = (if cs_flushEnabled cs \<noteq> 0 then cs\<lparr> cs_flushQpSl := cm_sl remMeta, cs_flushQpTc := cm_tc remMeta \<rparr> else cs) in
       if resiliency (cs_base cs1) then ncclIbResiliencyReceiverQpsCreateToRts p e remMeta cs1 else ret ncclSuccess cs1)"

end
