(* ===== verification/Net_Socket.thy ===== *)
theory Net_Socket
  imports NetIb_Types
begin

text \<open>
  Sockets: \<open>net/misc/socket.cc\<close> and the system calls under them in \<open>net/os/linux.cc\<close>.

  The operating system is a record of answers. A connection is the bytes its peer sends (\<open>st_in\<close>: those not read yet), the bytes written to it (\<open>st_out\<close>) and the answers the coming calls of
  \<open>send\<close> and \<open>recv\<close> get (\<open>st_io\<close>): how many bytes they may move, the end of the connection, or an error. When the answers run out every call would block. The stream functions are polymorphic
  in the bytes. \<open>sock_os\<close> adds the answers of \<open>accept\<close>, \<open>connect\<close>, \<open>poll\<close>, \<open>socket\<close> and of the calls that only succeed or fail; an accepted connection comes with the bytes of its peer.

  \<open>None\<close> stands for an access outside the buffer and, in the functions that wait, for waiting without end. The pointer to the abort flag is either null or read through \<open>st_abort\<close>.
  The \<open>block\<close> argument of \<open>ncclOsSocketProgressOpt\<close> is 0 in every call, and names of addresses are only logged.
\<close>

unbundle bit_operations_syntax

section \<open>The operating system\<close>

text \<open>\<open>EWOULDBLOCK\<close> is \<open>EAGAIN\<close>.\<close>

datatype errno = EINTR | EAGAIN | EPIPE | ECONNRESET | EINPROGRESS | ETIMEDOUT | EHOSTUNREACH | ECONNREFUSED | ENETDOWN | EPROTO | ENOPROTOOPT | EHOSTDOWN | ENONET | EOPNOTSUPP
  | ENETUNREACH | E_OTHER

datatype io_answer = Io_move nat | Io_eof | Io_errno errno

record 'b stream =
  st_in :: "'b list"
  st_out :: "'b list"
  st_io :: "io_answer list"
  st_abort :: "bool list"

datatype af = Af_inet | Af_inet6 | Af_other

record sock_addr =
  sa_af :: af
  sa_port :: u16
  sa_host :: "u8 list"

datatype poll_answer = Poll_timeout | Poll_errno errno | Poll_event "errno option" | Poll_event_unread

record 'b sock_os = "'b stream" +
  os_accept :: "(errno + nat \<times> sock_addr \<times> 'b list) list"
  os_connect :: "errno option list"
  os_poll :: "poll_answer list"
  os_socket :: "nat option list"
  os_sys :: "bool list"
  os_closed :: "int list"

text \<open>A call that only succeeds or fails, after its retries.\<close>

definition sys :: "('b, 'z) sock_os_scheme \<Rightarrow> bool \<times> ('b, 'z) sock_os_scheme" where
  "sys s = (case os_sys s of [] \<Rightarrow> (True, s) | b # bs \<Rightarrow> (b, s\<lparr> os_sys := bs \<rparr>))"

definition sys_close :: "int \<Rightarrow> ('b, 'z) sock_os_scheme \<Rightarrow> ('b, 'z) sock_os_scheme" where
  "sys_close fd s = s\<lparr> os_closed := os_closed s @ [fd] \<rparr>"

text \<open>A call for \<open>n\<close> bytes moves at least one unless it would block; \<open>recv\<close> of no bytes returns 0, which is also its answer at the end of the stream.\<close>

definition sys_recv :: "nat \<Rightarrow> ('b, 'z) stream_scheme \<Rightarrow> (errno + 'b list) \<times> ('b, 'z) stream_scheme" where
  "sys_recv n s =
     (case st_io s of
        [] \<Rightarrow> (Inl EAGAIN, s)
      | a # as \<Rightarrow>
          (let s1 = s\<lparr> st_io := as \<rparr> in
           case a of
             Io_errno e \<Rightarrow> (Inl e, s1)
           | Io_eof \<Rightarrow> (Inr [], s1)
           | Io_move k \<Rightarrow> (let bs = take (min k n) (st_in s) in if bs = [] \<and> n \<noteq> 0 then (Inl EAGAIN, s1) else (Inr bs, s1\<lparr> st_in := drop (length bs) (st_in s) \<rparr>))))"

definition sys_send :: "'b list \<Rightarrow> ('b, 'z) stream_scheme \<Rightarrow> (errno + nat) \<times> ('b, 'z) stream_scheme" where
  "sys_send bs s =
     (case st_io s of
        [] \<Rightarrow> (Inl EAGAIN, s)
      | a # as \<Rightarrow>
          (let s1 = s\<lparr> st_io := as \<rparr> in
           case a of
             Io_errno e \<Rightarrow> (Inl e, s1)
           | Io_eof \<Rightarrow> (Inl EPIPE, s1)
           | Io_move k \<Rightarrow> (let n = min k (length bs) in if n = 0 \<and> bs \<noteq> [] then (Inl EAGAIN, s1) else (Inr n, s1\<lparr> st_out := st_out s @ take n bs \<rparr>))))"

section \<open>The socket\<close>

datatype ncclSocketState = ncclSocketStateNone | ncclSocketStateInitialized | ncclSocketStateAccepting | ncclSocketStateAccepted | ncclSocketStateConnecting | ncclSocketStateConnectPolling
  | ncclSocketStateConnected | ncclSocketStateReady | ncclSocketStateTerminating | ncclSocketStateClosed | ncclSocketStateError | ncclSocketStateBadHandshake

datatype ncclSocketType = ncclSocketTypeUnknown | ncclSocketTypeBootstrap | ncclSocketTypeProxy | ncclSocketTypeNetSocket | ncclSocketTypeNetIb | ncclSocketTypeRasNetwork

fun type_code :: "ncclSocketType \<Rightarrow> u32" where
  "type_code ncclSocketTypeUnknown = 0"
| "type_code ncclSocketTypeBootstrap = 1"
| "type_code ncclSocketTypeProxy = 2"
| "type_code ncclSocketTypeNetSocket = 3"
| "type_code ncclSocketTypeNetIb = 4"
| "type_code ncclSocketTypeRasNetwork = 5"

record ncclSocket =
  sk_fd :: int
  sk_acceptFd :: int
  sk_errorRetries :: int
  sk_addr :: sock_addr
  sk_abortFlag :: bool
  sk_asyncFlag :: int
  sk_state :: ncclSocketState
  sk_salen :: int
  sk_magic :: u64
  sk_type :: ncclSocketType
  sk_customRetry :: int
  sk_finalizeCounter :: int
  sk_finalizeBuffer :: "u8 list"

record sock_params =
  RetryCnt :: int
  SocketMaxRecvBuff :: int
  SocketMaxSendBuff :: int

definition NCCL_INVALID_SOCKET :: int where "NCCL_INVALID_SOCKET = - 1"

definition ncclOsSocketDescriptorIsValid :: "int \<Rightarrow> bool" where
  "ncclOsSocketDescriptorIsValid fd \<longleftrightarrow> fd \<ge> 0"

definition ncclOsSocketIsValid :: "ncclSocket \<Rightarrow> bool" where
  "ncclOsSocketIsValid sk = ncclOsSocketDescriptorIsValid (sk_fd sk)"

definition abort_read :: "ncclSocket \<Rightarrow> ('b, 'z) stream_scheme \<Rightarrow> bool \<times> ('b, 'z) stream_scheme" where
  "abort_read sk s = (if sk_abortFlag sk then (case st_abort s of [] \<Rightarrow> (False, s) | b # bs \<Rightarrow> (b, s\<lparr> st_abort := bs \<rparr>)) else (False, s))"

section \<open>Moving bytes\<close>

datatype sock_op = NCCL_SOCKET_SEND | NCCL_SOCKET_RECV

text \<open>A buffer with the offset up to which it is transferred, and the stream.\<close>

record ('b, 'z) xfer =
  xf_buf :: "'b list"
  xf_off :: int
  xf_st :: "('b, 'z) stream_scheme"

definition write_at :: "'b list \<Rightarrow> nat \<Rightarrow> 'b list \<Rightarrow> 'b list" where
  "write_at buf off bs = take off buf @ bs @ drop (off + length bs) buf"

text \<open>One call of \<open>recv\<close> or \<open>send\<close>: the error or the number of bytes.\<close>

definition move :: "sock_op \<Rightarrow> int \<Rightarrow> ('b, 'z) xfer \<Rightarrow> (errno + nat) \<times> ('b, 'z) xfer" where
  "move op n x =
     (case op of
        NCCL_SOCKET_RECV \<Rightarrow>
          (case sys_recv (nat (n - xf_off x)) (xf_st x) of
             (Inl e, s) \<Rightarrow> (Inl e, x\<lparr> xf_st := s \<rparr>)
           | (Inr bs, s) \<Rightarrow> (Inr (length bs), x\<lparr> xf_buf := write_at (xf_buf x) (nat (xf_off x)) bs, xf_st := s \<rparr>))
      | NCCL_SOCKET_SEND \<Rightarrow>
          (case sys_send (take (nat (n - xf_off x)) (drop (nat (xf_off x)) (xf_buf x))) (xf_st x) of (r, s) \<Rightarrow> (r, x\<lparr> xf_st := s \<rparr>)))"

type_synonym ('b, 'z) progress = "((ncclResult \<times> bool) \<times> ('b, 'z) xfer) option"

text \<open>The loop of \<open>ncclOsSocketProgressOpt\<close>; the flag beside the result is \<open>*closed\<close>.\<close>

function ncclOsSocketProgressOpt :: "sock_op \<Rightarrow> ncclSocket \<Rightarrow> int \<Rightarrow> ('b, 'z) xfer \<Rightarrow> ('b, 'z) progress" where
  "ncclOsSocketProgressOpt op sk n x =
     (if xf_off x < 0 \<or> n < xf_off x \<or> int (length (xf_buf x)) < n then None
      else
       (case move op n x of (r, x1) \<Rightarrow>
          if op = NCCL_SOCKET_RECV \<and> r = Inr 0 then Some ((ncclSuccess, True), x1)
          else
           (let closes = (r = Inl (case op of NCCL_SOCKET_SEND \<Rightarrow> EPIPE | NCCL_SOCKET_RECV \<Rightarrow> ECONNRESET));
                fails = (case r of Inl e \<Rightarrow> e \<noteq> EINTR \<and> e \<noteq> EAGAIN | Inr k \<Rightarrow> False);
                bytes = (case r of Inl e \<Rightarrow> 0 | Inr k \<Rightarrow> k)
            in if closes then Some ((ncclSuccess, True), x1)
               else if fails then Some ((ncclRemoteError, False), x1)
               else
                (case abort_read sk (xf_st x1) of (aborted, s) \<Rightarrow>
                 (let x2 = x1\<lparr> xf_off := xf_off x + int bytes, xf_st := s \<rparr> in
                  if aborted then Some ((ncclInternalError, False), x2)
                  else if sk_asyncFlag sk = 0 \<and> bytes > 0 \<and> xf_off x2 < n then ncclOsSocketProgressOpt op sk n x2
                  else Some ((ncclSuccess, False), x2))))))"
  by pat_completeness auto
termination
  by (relation "measure (\<lambda>(op, sk, n, x). nat (n - xf_off x))") auto

declare ncclOsSocketProgressOpt.simps [simp del]

text \<open>\<open>want\<close> is whether the caller passed a pointer for the flag; the flag is only written when the connection is closed.\<close>

definition socketProgress :: "sock_op \<Rightarrow> ncclSocket \<Rightarrow> bool \<Rightarrow> int \<Rightarrow> ('b, 'z) xfer \<Rightarrow> ('b, 'z) progress" where
  "socketProgress op sk want n x =
     (case ncclOsSocketProgressOpt op sk n x of
        None \<Rightarrow> None
      | Some ((r, closed), x1) \<Rightarrow>
          if \<not> nccl_ok r then Some ((r, False), x1)
          else if closed then Some (if want then (ncclSuccess, True) else (ncclRemoteError, False), x1)
          else Some ((ncclSuccess, False), x1))"

definition ncclSocketProgress :: "sock_op \<Rightarrow> ncclSocket option \<Rightarrow> bool \<Rightarrow> int \<Rightarrow> ('b, 'z) xfer \<Rightarrow> ('b, 'z) progress" where
  "ncclSocketProgress op sock want n x =
     (case sock of
        None \<Rightarrow> Some ((ncclInvalidArgument, False), x)
      | Some sk \<Rightarrow> (case socketProgress op sk want n x of None \<Rightarrow> None | Some ((r, c), x1) \<Rightarrow> Some ((if nccl_ok r then ncclSuccess else r, c), x1)))"

section \<open>What a transfer does\<close>

lemma abort_read_stream:
  assumes "abort_read sk s = (a, s')"
  shows "st_io s' = st_io s" "st_in s' = st_in s" "st_out s' = st_out s"
  using assms by (auto simp: abort_read_def split: list.splits if_splits)

definition in_range :: "int \<Rightarrow> ('b, 'z) xfer \<Rightarrow> bool" where
  "in_range n x \<longleftrightarrow> 0 \<le> xf_off x \<and> xf_off x \<le> n \<and> n \<le> int (length (xf_buf x))"

text \<open>A transitive relation that holds over every round of the loop holds over the loop.\<close>

lemma progress_rel:
  assumes "ncclOsSocketProgressOpt op sk n x = Some (rc, x')"
    and stop: "\<And>x r y. in_range n x \<Longrightarrow> move op n x = (r, y) \<Longrightarrow> r = Inr 0 \<or> (\<exists>e. r = Inl e \<and> e \<noteq> EAGAIN) \<Longrightarrow> R x y"
    and round: "\<And>x r y a s. in_range n x \<Longrightarrow> move op n x = (r, y) \<Longrightarrow> abort_read sk (xf_st y) = (a, s)
      \<Longrightarrow> R x (y\<lparr> xf_off := xf_off x + int (case r of Inl e \<Rightarrow> 0 | Inr k \<Rightarrow> k), xf_st := s \<rparr>)"
    and trans: "\<And>x y z. R x y \<Longrightarrow> R y z \<Longrightarrow> R x z"
  shows "R x x'"
  using assms
proof (induction op sk n x arbitrary: rc x' rule: ncclOsSocketProgressOpt.induct)
  case (1 op sk n x)
  obtain r y where m: "move op n x = (r, y)" by fastforce
  obtain a s where a: "abort_read sk (xf_st y) = (a, s)" by fastforce
  let ?z = "y\<lparr> xf_off := xf_off x + int (case r of Inl e \<Rightarrow> 0 | Inr k \<Rightarrow> k), xf_st := s \<rparr>"
  have range: "in_range n x" using "1.prems"(1) by (subst (asm) ncclOsSocketProgressOpt.simps) (auto simp: in_range_def split: if_splits)
  have dom: "\<not> (xf_off x < 0 \<or> n < xf_off x \<or> int (length (xf_buf x)) < n)" using range by (auto simp: in_range_def)
  note z = "1.prems"(3) [OF range m a]
  consider (stop) "x' = y" "r = Inr 0 \<or> (\<exists>e. r = Inl e \<and> e \<noteq> EAGAIN)" | (last) "x' = ?z"
    | (again) "\<not> (op = NCCL_SOCKET_RECV \<and> r = Inr 0)" "r \<noteq> Inl (case op of NCCL_SOCKET_SEND \<Rightarrow> EPIPE | NCCL_SOCKET_RECV \<Rightarrow> ECONNRESET)"
      "\<not> (case r of Inl e \<Rightarrow> e \<noteq> EINTR \<and> e \<noteq> EAGAIN | Inr k \<Rightarrow> False)" "\<not> a"
      "sk_asyncFlag sk = 0 \<and> (case r of Inl e \<Rightarrow> 0 | Inr k \<Rightarrow> k) > 0 \<and> xf_off ?z < n" "ncclOsSocketProgressOpt op sk n ?z = Some (rc, x')"
    using "1.prems"(1) dom m a by (subst (asm) ncclOsSocketProgressOpt.simps) (auto simp: Let_def split: if_splits sum.splits sock_op.splits)
  then show ?case
  proof cases
    case stop
    then show ?thesis using "1.prems"(2) [OF range m] by blast
  next
    case last
    then show ?thesis using z by simp
  next
    case again
    have "R ?z x'"
      by (rule "1.IH" [OF dom m [symmetric] again(1) refl refl refl again(2,3) a [symmetric] refl again(4,5) again(6)]) (fact "1.prems")+
    then show ?thesis using z "1.prems"(4) by blast
  qed
qed

text \<open>Every call uses up answers of the system or a reading of the abort flag, while there are any.\<close>

definition answers :: "ncclSocket \<Rightarrow> ('b, 'z) xfer \<Rightarrow> nat" where
  "answers sk x = length (st_io (xf_st x)) + (if sk_abortFlag sk then length (st_abort (xf_st x)) else 0)"

lemma move_io:
  "move op n x = (r, y) \<Longrightarrow> length (st_io (xf_st y)) = length (st_io (xf_st x)) - 1 \<and> st_abort (xf_st y) = st_abort (xf_st x) \<and> (st_io (xf_st x) = [] \<longrightarrow> r = Inl EAGAIN)"
  by (auto simp: move_def sys_recv_def sys_send_def Let_def split: sock_op.splits list.splits io_answer.splits if_splits sum.splits prod.splits)

lemma abort_read_abort: "abort_read sk s = (a, s') \<Longrightarrow> sk_abortFlag sk \<Longrightarrow> length (st_abort s') = length (st_abort s) - 1"
  by (auto simp: abort_read_def split: list.splits if_splits)

lemma progress_answers:
  assumes "ncclOsSocketProgressOpt op sk n x = Some (rc, x')" and "answers sk x \<noteq> 0"
  shows "answers sk x' < answers sk x"
proof -
  have "answers sk x' < answers sk x \<or> answers sk x' = 0 \<and> answers sk x = 0"
  proof (rule progress_rel [OF assms(1), where R = "\<lambda>x y. answers sk y < answers sk x \<or> answers sk y = 0 \<and> answers sk x = 0"])
    fix x y :: "('a, 'b) xfer" and r assume "move op n x = (r, y)" "r = Inr 0 \<or> (\<exists>e. r = Inl e \<and> e \<noteq> EAGAIN)"
    then show "answers sk y < answers sk x \<or> answers sk y = 0 \<and> answers sk x = 0"
      by (cases "st_io (xf_st x)") (auto dest!: move_io simp: answers_def)
  next
    fix x y :: "('a, 'b) xfer" and r a s assume m: "move op n x = (r, y)" and a: "abort_read sk (xf_st y) = (a, s)"
    show "answers sk (y\<lparr> xf_off := xf_off x + int (case r of Inl e \<Rightarrow> 0 | Inr k \<Rightarrow> k), xf_st := s \<rparr>) < answers sk x
      \<or> answers sk (y\<lparr> xf_off := xf_off x + int (case r of Inl e \<Rightarrow> 0 | Inr k \<Rightarrow> k), xf_st := s \<rparr>) = 0 \<and> answers sk x = 0"
      using move_io [OF m] abort_read_stream(1) [OF a] abort_read_abort [OF a]
      by (cases "st_io (xf_st x)"; cases "sk_abortFlag sk"; cases "st_abort (xf_st x)") (auto simp: answers_def)
  qed auto
  then show ?thesis using assms(2) by auto
qed

text \<open>A receive reads the next bytes of the stream into the buffer, in order and from the offset on; a send writes the bytes of the buffer.\<close>

definition received :: "int \<Rightarrow> ('b, 'z) xfer \<Rightarrow> ('b, 'z) xfer \<Rightarrow> bool" where
  "received n x y \<longleftrightarrow>
     (\<exists>bs. st_in (xf_st x) = bs @ st_in (xf_st y) \<and> xf_off y = xf_off x + int (length bs) \<and> xf_buf y = write_at (xf_buf x) (nat (xf_off x)) bs \<and> st_out (xf_st y) = st_out (xf_st x)
        \<and> 0 \<le> xf_off x \<and> xf_off y \<le> n \<and> n \<le> int (length (xf_buf x)))"

definition sent :: "int \<Rightarrow> ('b, 'z) xfer \<Rightarrow> ('b, 'z) xfer \<Rightarrow> bool" where
  "sent n x y \<longleftrightarrow>
     (\<exists>k. st_out (xf_st y) = st_out (xf_st x) @ take k (drop (nat (xf_off x)) (xf_buf x)) \<and> xf_off y = xf_off x + int k \<and> xf_buf y = xf_buf x \<and> st_in (xf_st y) = st_in (xf_st x)
        \<and> 0 \<le> xf_off x \<and> xf_off y \<le> n \<and> n \<le> int (length (xf_buf x)))"

lemma write_at_Nil [simp]: "write_at buf k [] = buf"
  by (simp add: write_at_def)

lemma write_at_length [simp]: "k + length bs \<le> length buf \<Longrightarrow> length (write_at buf k bs) = length buf"
  by (simp add: write_at_def)

lemma write_at_twice: "k + length bs \<le> length buf \<Longrightarrow> write_at (write_at buf k bs) (k + length bs) cs = write_at buf k (bs @ cs)"
  by (simp add: write_at_def add.assoc add.commute [of "length cs"] drop_drop)

lemma received_trans: "received n x y \<Longrightarrow> received n y z \<Longrightarrow> received n x z"
proof (unfold received_def, elim exE conjE)
  fix bs cs
  assume a: "st_in (xf_st x) = bs @ st_in (xf_st y)" "xf_off y = xf_off x + int (length bs)" "xf_buf y = write_at (xf_buf x) (nat (xf_off x)) bs" "st_out (xf_st y) = st_out (xf_st x)"
    "0 \<le> xf_off x" "xf_off y \<le> n" "n \<le> int (length (xf_buf x))"
    and b: "st_in (xf_st y) = cs @ st_in (xf_st z)" "xf_off z = xf_off y + int (length cs)" "xf_buf z = write_at (xf_buf y) (nat (xf_off y)) cs" "st_out (xf_st z) = st_out (xf_st y)" "xf_off z \<le> n"
  have o: "nat (xf_off y) = nat (xf_off x) + length bs" using a by simp
  have "nat (xf_off x) + length bs \<le> length (xf_buf x)" using a by linarith
  then have "xf_buf z = write_at (xf_buf x) (nat (xf_off x)) (bs @ cs)" unfolding b(3) a(3) o by (rule write_at_twice)
  then show "\<exists>bs. st_in (xf_st x) = bs @ st_in (xf_st z) \<and> xf_off z = xf_off x + int (length bs) \<and> xf_buf z = write_at (xf_buf x) (nat (xf_off x)) bs \<and> st_out (xf_st z) = st_out (xf_st x)
      \<and> 0 \<le> xf_off x \<and> xf_off z \<le> n \<and> n \<le> int (length (xf_buf x))"
    using a b by (intro exI [of _ "bs @ cs"]) simp
qed

lemma sent_trans: "sent n x y \<Longrightarrow> sent n y z \<Longrightarrow> sent n x z"
proof (unfold sent_def, elim exE conjE)
  fix k l
  assume a: "st_out (xf_st y) = st_out (xf_st x) @ take k (drop (nat (xf_off x)) (xf_buf x))" "xf_off y = xf_off x + int k" "xf_buf y = xf_buf x" "st_in (xf_st y) = st_in (xf_st x)"
    "0 \<le> xf_off x" "xf_off y \<le> n" "n \<le> int (length (xf_buf x))"
    and b: "st_out (xf_st z) = st_out (xf_st y) @ take l (drop (nat (xf_off y)) (xf_buf y))" "xf_off z = xf_off y + int l" "xf_buf z = xf_buf y" "st_in (xf_st z) = st_in (xf_st y)" "xf_off z \<le> n"
  have o: "nat (xf_off y) = nat (xf_off x) + k" using a by simp
  show "\<exists>k. st_out (xf_st z) = st_out (xf_st x) @ take k (drop (nat (xf_off x)) (xf_buf x)) \<and> xf_off z = xf_off x + int k \<and> xf_buf z = xf_buf x \<and> st_in (xf_st z) = st_in (xf_st x)
      \<and> 0 \<le> xf_off x \<and> xf_off z \<le> n \<and> n \<le> int (length (xf_buf x))"
    using a b o by (intro exI [of _ "k + l"]) (simp add: take_add drop_drop add.commute)
qed

lemma drop_min_length: "drop (min (length xs) k) xs = drop k xs"
  by (simp add: min_def)

lemma sys_recv_spec:
  assumes "sys_recv n s = (r, s')"
  shows "\<exists>bs. st_in s = bs @ st_in s' \<and> length bs \<le> n \<and> st_out s' = st_out s \<and> (case r of Inl e \<Rightarrow> bs = [] | Inr cs \<Rightarrow> cs = bs)"
  using assms by (auto simp: sys_recv_def Let_def drop_min_length split: list.splits io_answer.splits if_splits)

lemma move_received:
  assumes "in_range n x" and "move NCCL_SOCKET_RECV n x = (r, y)"
  shows "received n x (y\<lparr> xf_off := xf_off x + int (case r of Inl e \<Rightarrow> 0 | Inr k \<Rightarrow> k) \<rparr>) \<and> xf_off y = xf_off x"
proof -
  have "\<exists>bs. st_in (xf_st x) = bs @ st_in (xf_st y) \<and> length bs \<le> nat (n - xf_off x) \<and> (case r of Inl e \<Rightarrow> 0 | Inr k \<Rightarrow> k) = length bs
      \<and> xf_buf y = write_at (xf_buf x) (nat (xf_off x)) bs \<and> st_out (xf_st y) = st_out (xf_st x) \<and> xf_off y = xf_off x"
    using assms(2) by (auto simp: move_def split: prod.splits sum.splits dest!: sys_recv_spec)
  then show ?thesis using assms(1) by (auto simp: received_def in_range_def)
qed

lemma move_sent:
  assumes "in_range n x" and "move NCCL_SOCKET_SEND n x = (r, y)"
  shows "sent n x (y\<lparr> xf_off := xf_off x + int (case r of Inl e \<Rightarrow> 0 | Inr k \<Rightarrow> k) \<rparr>) \<and> xf_off y = xf_off x"
proof -
  have "\<exists>k. (case r of Inl e \<Rightarrow> 0 | Inr k \<Rightarrow> k) = k \<and> k \<le> nat (n - xf_off x) \<and> st_out (xf_st y) = st_out (xf_st x) @ take k (drop (nat (xf_off x)) (xf_buf x))
      \<and> xf_buf y = xf_buf x \<and> st_in (xf_st y) = st_in (xf_st x) \<and> xf_off y = xf_off x"
    using assms by (auto simp: move_def sys_send_def Let_def in_range_def min_def split: list.splits io_answer.splits if_splits)
  then show ?thesis using assms(1) by (auto simp: sent_def in_range_def)
qed

lemma stream_cong:
  assumes "st_in s = st_in (xf_st y)" "st_out s = st_out (xf_st y)"
  shows "received n x (y\<lparr> xf_off := k, xf_st := s \<rparr>) = received n x (y\<lparr> xf_off := k \<rparr>)" "sent n x (y\<lparr> xf_off := k, xf_st := s \<rparr>) = sent n x (y\<lparr> xf_off := k \<rparr>)"
  using assms by (simp_all add: received_def sent_def)

lemma off_same: "xf_off y = k \<Longrightarrow> y\<lparr> xf_off := k \<rparr> = (y :: ('b, 'z) xfer)"
  by auto

lemma progress_received:
  assumes "ncclOsSocketProgressOpt NCCL_SOCKET_RECV sk n x = Some (rc, x')"
  shows "received n x x'"
proof (rule progress_rel [OF assms])
  fix x y :: "('a, 'b) xfer" and r assume a: "in_range n x" "move NCCL_SOCKET_RECV n x = (r, y)" "r = Inr 0 \<or> (\<exists>e. r = Inl e \<and> e \<noteq> EAGAIN)"
  then show "received n x y" using move_received [OF a(1,2)] by (auto simp: off_same)
next
  fix x y :: "('a, 'b) xfer" and r a s assume a: "in_range n x" "move NCCL_SOCKET_RECV n x = (r, y)" "abort_read sk (xf_st y) = (a, s)"
  then show "received n x (y\<lparr> xf_off := xf_off x + int (case r of Inl e \<Rightarrow> 0 | Inr k \<Rightarrow> k), xf_st := s \<rparr>)"
    using move_received [OF a(1,2)] stream_cong(1) [OF abort_read_stream(2,3) [OF a(3)]] by simp
qed (rule received_trans)

lemma progress_sent:
  assumes "ncclOsSocketProgressOpt NCCL_SOCKET_SEND sk n x = Some (rc, x')"
  shows "sent n x x'"
proof (rule progress_rel [OF assms])
  fix x y :: "('a, 'b) xfer" and r assume a: "in_range n x" "move NCCL_SOCKET_SEND n x = (r, y)" "r = Inr 0 \<or> (\<exists>e. r = Inl e \<and> e \<noteq> EAGAIN)"
  then show "sent n x y" using move_sent [OF a(1,2)] by (auto simp: off_same)
next
  fix x y :: "('a, 'b) xfer" and r a s assume a: "in_range n x" "move NCCL_SOCKET_SEND n x = (r, y)" "abort_read sk (xf_st y) = (a, s)"
  then show "sent n x (y\<lparr> xf_off := xf_off x + int (case r of Inl e \<Rightarrow> 0 | Inr k \<Rightarrow> k), xf_st := s \<rparr>)"
    using move_sent [OF a(1,2)] stream_cong(2) [OF abort_read_stream(2,3) [OF a(3)]] by simp
qed (rule sent_trans)

section \<open>Waiting for a transfer\<close>

lemma socketProgress_answers: "socketProgress op sk want n x = Some (rc, x') \<Longrightarrow> answers sk x \<noteq> 0 \<Longrightarrow> answers sk x' < answers sk x"
  by (auto simp: socketProgress_def split: option.splits if_splits dest: progress_answers)

text \<open>A loop around \<open>socketProgress\<close> goes round for ever when the system has no answer left for it (\<open>None\<close>). The \<open>poll\<close> in the loop changes nothing.\<close>

function socketWait :: "sock_op \<Rightarrow> ncclSocket \<Rightarrow> int \<Rightarrow> ('b, 'z) xfer \<Rightarrow> ('b, 'z) xfer outcome" where
  "socketWait op sk n x =
     (if xf_off x < n then
        if answers sk x = 0 then None
        else (case socketProgress op sk False n x of None \<Rightarrow> None | Some ((r, _), x1) \<Rightarrow> if nccl_ok r then socketWait op sk n x1 else Some (r, x1))
      else Some (ncclSuccess, x))"
  by pat_completeness auto
termination
  by (relation "measure (\<lambda>(op, sk, n, x). answers sk x)") (auto dest: socketProgress_answers)

declare socketWait.simps [simp del]

definition ncclSocketWait :: "sock_op \<Rightarrow> ncclSocket option \<Rightarrow> int \<Rightarrow> ('b, 'z) xfer \<Rightarrow> ('b, 'z) xfer outcome" where
  "ncclSocketWait op sock n x = (case sock of None \<Rightarrow> ret ncclInvalidArgument x | Some sk \<Rightarrow> chk (socketWait op sk n x) (ret ncclSuccess))"

definition ncclSocketSend :: "ncclSocket option \<Rightarrow> int \<Rightarrow> ('b, 'z) xfer \<Rightarrow> ('b, 'z) xfer outcome" where
  "ncclSocketSend sock n x =
     (case sock of
        None \<Rightarrow> ret ncclInvalidArgument x
      | Some sk \<Rightarrow> if sk_state sk \<noteq> ncclSocketStateReady then ret ncclInternalError x else chk (socketWait NCCL_SOCKET_SEND sk n (x\<lparr> xf_off := 0 \<rparr>)) (ret ncclSuccess))"

definition ncclSocketRecv :: "ncclSocket option \<Rightarrow> int \<Rightarrow> ('b, 'z) xfer \<Rightarrow> ('b, 'z) xfer outcome" where
  "ncclSocketRecv sock n x =
     (case sock of
        None \<Rightarrow> ret ncclInvalidArgument x
      | Some sk \<Rightarrow>
          if sk_state sk \<noteq> ncclSocketStateReady \<and> sk_state sk \<noteq> ncclSocketStateTerminating then ret ncclInternalError x
          else chk (socketWait NCCL_SOCKET_RECV sk n (x\<lparr> xf_off := 0 \<rparr>)) (ret ncclSuccess))"

text \<open>\<open>ncclSocketSendRecv\<close>: two transfers on two sockets in turn.\<close>

definition progress_some :: "sock_op \<Rightarrow> ncclSocket \<Rightarrow> int \<Rightarrow> ('b, 'z) xfer \<Rightarrow> ('b, 'z) xfer outcome" where
  "progress_some op sk n x = (if xf_off x < n then map_option (\<lambda>((r, _), x1). (r, x1)) (socketProgress op sk False n x) else ret ncclSuccess x)"

definition stuck :: "ncclSocket \<Rightarrow> int \<Rightarrow> ('b, 'z) xfer \<Rightarrow> bool" where
  "stuck sk n x \<longleftrightarrow> \<not> (xf_off x < n \<and> answers sk x \<noteq> 0)"

lemma progress_some_answers:
  assumes "progress_some op sk n x = Some (r, x')"
  shows "answers sk x' \<le> answers sk x" and "\<not> stuck sk n x \<Longrightarrow> answers sk x' < answers sk x"
proof -
  show "\<not> stuck sk n x \<Longrightarrow> answers sk x' < answers sk x"
    using assms by (auto simp: progress_some_def stuck_def split: if_splits dest: socketProgress_answers)
  show "answers sk x' \<le> answers sk x"
  proof (cases "xf_off x < n \<and> answers sk x = 0")
    case True
    then have io: "st_io (xf_st x) = []" "sk_abortFlag sk \<Longrightarrow> st_abort (xf_st x) = []" by (auto simp: answers_def split: if_splits)
    obtain rc where "ncclOsSocketProgressOpt op sk n x = Some (rc, x')"
      using assms True by (auto simp: progress_some_def socketProgress_def split: option.splits if_splits)
    then have "answers sk x' \<le> answers sk x"
    proof (rule progress_rel [where R = "\<lambda>x y. answers sk y \<le> answers sk x"])
      fix x y :: "('a, 'b) xfer" and r assume "move op n x = (r, y)"
      then show "answers sk y \<le> answers sk x" by (auto dest!: move_io simp: answers_def)
    next
      fix x y :: "('a, 'b) xfer" and r a s assume m: "move op n x = (r, y)" and a: "abort_read sk (xf_st y) = (a, s)"
      show "answers sk (y\<lparr> xf_off := xf_off x + int (case r of Inl e \<Rightarrow> 0 | Inr k \<Rightarrow> k), xf_st := s \<rparr>) \<le> answers sk x"
        using move_io [OF m] abort_read_stream(1) [OF a] abort_read_abort [OF a] by (auto simp: answers_def)
    qed auto
    then show ?thesis .
  next
    case False
    then show ?thesis using assms by (auto simp: progress_some_def ret_def split: if_splits dest: socketProgress_answers)
  qed
qed

lemma both_answers:
  assumes "progress_some op sk n x = Some (r, x')" and "progress_some op' sk' n' y = Some (r', y')" and "stuck sk n x \<Longrightarrow> \<not> stuck sk' n' y"
  shows "answers sk x' + answers sk' y' < answers sk x + answers sk' y"
  using progress_some_answers [OF assms(1)] progress_some_answers [OF assms(2)] assms(3) by (cases "stuck sk n x") auto

function send_recv_loop :: "ncclSocket \<Rightarrow> int \<Rightarrow> ncclSocket \<Rightarrow> int \<Rightarrow> ('b, 'z) xfer \<times> ('b, 'z) xfer \<Rightarrow> (('b, 'z) xfer \<times> ('b, 'z) xfer) outcome" where
  "send_recv_loop ss sn rs rn (xs, xr) =
     (if xf_off xs < sn \<or> xf_off xr < rn then
        if stuck ss sn xs \<and> stuck rs rn xr then None
        else
         (case progress_some NCCL_SOCKET_SEND ss sn xs of
            None \<Rightarrow> None
          | Some (r, xs1) \<Rightarrow>
              if \<not> nccl_ok r then Some (r, xs1, xr)
              else (case progress_some NCCL_SOCKET_RECV rs rn xr of
                      None \<Rightarrow> None
                    | Some (r, xr1) \<Rightarrow> if \<not> nccl_ok r then Some (r, xs1, xr1) else send_recv_loop ss sn rs rn (xs1, xr1)))
      else Some (ncclSuccess, xs, xr))"
  by pat_completeness auto
termination
  by (relation "measure (\<lambda>(ss, sn, rs, rn, xs, xr). answers ss xs + answers rs xr)") (auto intro: both_answers)

declare send_recv_loop.simps [simp del]

definition ncclSocketSendRecv :: "ncclSocket option \<Rightarrow> int \<Rightarrow> ncclSocket option \<Rightarrow> int \<Rightarrow> ('b, 'z) xfer \<times> ('b, 'z) xfer \<Rightarrow> (('b, 'z) xfer \<times> ('b, 'z) xfer) outcome" where
  "ncclSocketSendRecv sendSock sn recvSock rn x =
     (case (sendSock, recvSock) of
        (Some ss, Some rs) \<Rightarrow>
          if sk_state ss \<noteq> ncclSocketStateReady \<or> (sk_state rs \<noteq> ncclSocketStateReady \<and> sk_state rs \<noteq> ncclSocketStateTerminating) then ret ncclInternalError x
          else send_recv_loop ss sn rs rn ((fst x)\<lparr> xf_off := 0 \<rparr>, (snd x)\<lparr> xf_off := 0 \<rparr>)
      | _ \<Rightarrow> ret ncclInternalError x)"

text \<open>
  \<open>ncclSocketMultiOp\<close>: the index of the code runs cyclically over the operations; \<open>multi_round\<close> is one turn from the first to the last, which the loop may leave early. The operations are on
  different sockets.
\<close>

record ('b, 'z) ncclSocketOp =
  so_op :: sock_op
  so_sock :: ncclSocket
  so_size :: int
  so_x :: "('b, 'z) xfer"

fun multi_round :: "('b, 'z) ncclSocketOp list \<Rightarrow> nat \<Rightarrow> nat \<Rightarrow> ((ncclResult \<times> nat) \<times> ('b, 'z) ncclSocketOp list) option" where
  "multi_round [] numOps completed = Some ((ncclSuccess, completed), [])"
| "multi_round (p # ps) numOps completed =
     (if \<not> completed < numOps then Some ((ncclSuccess, completed), p # ps)
      else if xf_off (so_x p) < so_size p then
        (case socketProgress (so_op p) (so_sock p) False (so_size p) (so_x p) of
           None \<Rightarrow> None
         | Some ((r, _), x1) \<Rightarrow>
             (let p1 = p\<lparr> so_x := x1 \<rparr> in
              if \<not> nccl_ok r then Some ((r, completed), p1 # ps)
              else map_option (\<lambda>(rc, ps1). (rc, p1 # ps1)) (multi_round ps numOps (if xf_off x1 \<ge> so_size p then completed + 1 else completed))))
      else map_option (\<lambda>(rc, ps1). (rc, p # ps1)) (multi_round ps numOps completed))"

definition op_stuck :: "('b, 'z) ncclSocketOp \<Rightarrow> bool" where
  "op_stuck p = stuck (so_sock p) (so_size p) (so_x p)"

definition op_answers :: "('b, 'z) ncclSocketOp list \<Rightarrow> nat" where
  "op_answers ps = (\<Sum>p \<leftarrow> ps. answers (so_sock p) (so_x p))"

lemma progress_step:
  assumes "socketProgress op sk False n x = Some (rc, x')" "xf_off x < n"
  shows "answers sk x' \<le> answers sk x" "\<not> stuck sk n x \<Longrightarrow> answers sk x' < answers sk x"
proof -
  have "progress_some op sk n x = Some (fst rc, x')" using assms by (cases rc) (simp add: progress_some_def)
  then show "answers sk x' \<le> answers sk x" "\<not> stuck sk n x \<Longrightarrow> answers sk x' < answers sk x" using progress_some_answers by blast+
qed

lemma multi_round_answers:
  "multi_round ps numOps completed = Some ((r, c), ps') \<Longrightarrow> nccl_ok r \<Longrightarrow>
     completed \<le> c \<and> op_answers ps' \<le> op_answers ps \<and> (completed < numOps \<and> (\<exists>p \<in> set ps. \<not> op_stuck p) \<longrightarrow> op_answers ps' < op_answers ps \<or> completed < c)"
proof (induction ps numOps completed arbitrary: r c ps' rule: multi_round.induct)
  case (1 numOps completed)
  then show ?case by (simp add: op_answers_def)
next
  case (2 p ps numOps completed)
  consider (early) "\<not> completed < numOps" "ps' = p # ps" "c = completed"
    | (move) rp cl x1 where "completed < numOps" "xf_off (so_x p) < so_size p" "socketProgress (so_op p) (so_sock p) False (so_size p) (so_x p) = Some ((rp, cl), x1)"
    | (skip) ps1 where "completed < numOps" "\<not> xf_off (so_x p) < so_size p" "multi_round ps numOps completed = Some ((r, c), ps1)" "ps' = p # ps1"
    using "2.prems" by (auto simp: Let_def split: if_splits option.splits)
  then show ?case
  proof cases
    case early
    then show ?thesis by simp
  next
    case move
    note a = progress_step [OF move(3,2)]
    have ok: "nccl_ok rp" using "2.prems" move by (auto simp: Let_def split: if_splits)
    then obtain ps1 where m: "multi_round ps numOps (if xf_off x1 \<ge> so_size p then completed + 1 else completed) = Some ((r, c), ps1)" "ps' = p\<lparr> so_x := x1 \<rparr> # ps1"
      using "2.prems" move by (auto simp: Let_def)
    have ih: "(if xf_off x1 \<ge> so_size p then completed + 1 else completed) \<le> c \<and> op_answers ps1 \<le> op_answers ps
        \<and> ((if xf_off x1 \<ge> so_size p then completed + 1 else completed) < numOps \<and> (\<exists>p \<in> set ps. \<not> op_stuck p) \<longrightarrow>
              op_answers ps1 < op_answers ps \<or> (if xf_off x1 \<ge> so_size p then completed + 1 else completed) < c)"
      by (rule "2.IH"(1) [OF _ move(2,3) refl refl refl _ m(1) "2.prems"(2)]) (use move ok in auto)
    show ?thesis using a ih m(2) by (auto simp: op_answers_def op_stuck_def split: if_splits)
  next
    case skip
    then show ?thesis using "2.IH"(2) [OF _ skip(2,3) "2.prems"(2)] by (auto simp: op_answers_def op_stuck_def stuck_def)
  qed
qed

function multi_loop :: "('b, 'z) ncclSocketOp list \<Rightarrow> nat \<Rightarrow> nat \<Rightarrow> ('b, 'z) ncclSocketOp list outcome" where
  "multi_loop ps numOps completed =
     (if completed < numOps then
        if list_all op_stuck ps then None
        else (case multi_round ps numOps completed of None \<Rightarrow> None | Some ((r, c), ps1) \<Rightarrow> if nccl_ok r then multi_loop ps1 numOps c else Some (r, ps1))
      else Some (ncclSuccess, ps))"
  by pat_completeness auto
termination
  by (relation "measure (\<lambda>(ps, numOps, completed). op_answers ps + (numOps - completed))") (fastforce dest: multi_round_answers simp: list_all_iff)+

declare multi_loop.simps [simp del]

text \<open>The check for null sockets comes before; \<open>ops\<close> is null only with no operations here.\<close>

definition ncclSocketMultiOp :: "('b, 'z) ncclSocketOp list \<Rightarrow> ('b, 'z) ncclSocketOp list outcome" where
  "ncclSocketMultiOp ps =
     (if ps = [] then ret ncclInvalidArgument ps else multi_loop (map (\<lambda>p. p\<lparr> so_x := (so_x p)\<lparr> xf_off := 0 \<rparr> \<rparr>) ps) (length ps) 0)"

text \<open>\<open>ncclSocketTryRecv\<close>: the flag is \<open>*closed\<close>.\<close>

function try_recv_loop :: "ncclSocket \<Rightarrow> int \<Rightarrow> ('b, 'z) xfer \<Rightarrow> ('b, 'z) progress" where
  "try_recv_loop sk n x =
     (if xf_off x < n then
        if answers sk x = 0 then None
        else (case ncclOsSocketProgressOpt NCCL_SOCKET_RECV sk n x of
                None \<Rightarrow> None
              | Some ((r, closed), x1) \<Rightarrow> if \<not> nccl_ok r then Some ((r, closed), x1) else if closed then Some ((ncclSuccess, True), x1) else try_recv_loop sk n x1)
      else Some ((ncclSuccess, False), x))"
  by pat_completeness auto
termination
  by (relation "measure (\<lambda>(sk, n, x). answers sk x)") (auto dest: progress_answers)

declare try_recv_loop.simps [simp del]

definition ncclSocketTryRecv :: "ncclSocket option \<Rightarrow> bool \<Rightarrow> int \<Rightarrow> ('b, 'z) xfer \<Rightarrow> ('b, 'z) progress" where
  "ncclSocketTryRecv sock blocking n x0 =
     (case sock of
        None \<Rightarrow> Some ((ncclInvalidArgument, False), x0)
      | Some sk \<Rightarrow>
          (let x = x0\<lparr> xf_off := 0 \<rparr> in
           if blocking then try_recv_loop sk n x
           else (case ncclOsSocketProgressOpt NCCL_SOCKET_RECV sk n x of
                   None \<Rightarrow> None
                 | Some ((r, closed), x1) \<Rightarrow>
                     if \<not> nccl_ok r then Some ((r, closed), x1)
                     else if closed then Some ((ncclSuccess, True), x1)
                     else if xf_off x1 > 0 then try_recv_loop sk n x1
                     else Some ((ncclInProgress, False), x1))))"

section \<open>Complete transfers\<close>

lemma socketProgress_opt: "socketProgress op sk want n x = Some (rc, x') \<Longrightarrow> \<exists>rc. ncclOsSocketProgressOpt op sk n x = Some (rc, x')"
  by (auto simp: socketProgress_def split: option.splits if_splits)

lemma wait_rel:
  assumes "socketWait op sk n x = Some (r, x')" and "xf_off x < n"
    and step: "\<And>x rc x'. ncclOsSocketProgressOpt op sk n x = Some (rc, x') \<Longrightarrow> R x x'" and trans: "\<And>x y z. R x y \<Longrightarrow> R y z \<Longrightarrow> R x z"
  shows "R x x' \<and> (nccl_ok r \<longrightarrow> n \<le> xf_off x')"
  using assms
proof (induction op sk n x arbitrary: r x' rule: socketWait.induct)
  case (1 op sk n x)
  obtain rp c x1 where p: "socketProgress op sk False n x = Some ((rp, c), x1)" "answers sk x \<noteq> 0"
      "if nccl_ok rp then socketWait op sk n x1 = Some (r, x') else (r, x') = (rp, x1)"
    using "1.prems"(1,2) by (subst (asm) socketWait.simps) (auto split: option.splits if_splits)
  have r1: "R x x1" using socketProgress_opt [OF p(1)] "1.prems"(3) by blast
  show ?case
  proof (cases "nccl_ok rp \<and> xf_off x1 < n")
    case True
    have "R x1 x' \<and> (nccl_ok r \<longrightarrow> n \<le> xf_off x')"
      by (rule "1.IH" [OF "1.prems"(2) p(2) p(1) refl refl]) (use True p(3) "1.prems"(3,4) in auto)
    then show ?thesis using r1 "1.prems"(4) by blast
  next
    case False
    then show ?thesis using p(3) r1 by (auto simp: socketWait.simps split: if_splits)
  qed
qed

lemma wait_sent:
  assumes "socketWait NCCL_SOCKET_SEND sk n x = Some (r, x')" "xf_off x < n"
  shows "sent n x x' \<and> (nccl_ok r \<longrightarrow> n \<le> xf_off x')"
  by (rule wait_rel [OF assms]) (erule progress_sent, erule (1) sent_trans)

lemma wait_received:
  assumes "socketWait NCCL_SOCKET_RECV sk n x = Some (r, x')" "xf_off x < n"
  shows "received n x x' \<and> (nccl_ok r \<longrightarrow> n \<le> xf_off x')"
  by (rule wait_rel [OF assms]) (erule progress_received, erule (1) received_trans)

text \<open>C18 A message arrives unchanged however the system cuts it into pieces: when a side waits until its \<open>n\<close> bytes are sent and the other until \<open>n\<close> bytes are received, and both report success, the
  first \<open>n\<close> bytes of the receiver's buffer are those of the sender's buffer and the bytes that follow on the connection are left for the next receive.\<close>

theorem socket_roundtrip:
  assumes "socketWait NCCL_SOCKET_SEND sk n x = Some (ncclSuccess, x')" and "xf_off x = 0" and "0 < n"
    and "socketWait NCCL_SOCKET_RECV sk' n y = Some (ncclSuccess, y')" and "xf_off y = 0"
    and "st_in (xf_st y) = drop (length (st_out (xf_st x))) (st_out (xf_st x')) @ later"
  shows "take (nat n) (xf_buf y') = take (nat n) (xf_buf x) \<and> st_in (xf_st y') = later \<and> drop (nat n) (xf_buf y') = drop (nat n) (xf_buf y)"
proof -
  have "sent n x x'" "n \<le> xf_off x'" using wait_sent [OF assms(1)] assms(2,3) by (auto simp: nccl_ok_def)
  then have out: "st_out (xf_st x') = st_out (xf_st x) @ take (nat n) (xf_buf x)" "nat n \<le> length (xf_buf x)" using assms(2,3) by (auto simp: sent_def)
  have "received n y y'" "n \<le> xf_off y'" using wait_received [OF assms(4)] assms(3,5) by (auto simp: nccl_ok_def)
  then obtain bs where bs: "st_in (xf_st y) = bs @ st_in (xf_st y')" "length bs = nat n" "xf_buf y' = write_at (xf_buf y) 0 bs" using assms(3,5) by (auto simp: received_def)
  have "bs = take (nat n) (xf_buf x) \<and> st_in (xf_st y') = later" using assms(6) bs(1,2) out by (auto simp: append_eq_append_conv)
  then show ?thesis using bs(2,3) out(2) by (simp add: write_at_def)
qed

definition demo_socket :: ncclSocket where
  "demo_socket = \<lparr> sk_fd = 5, sk_acceptFd = - 1, sk_errorRetries = 0, sk_addr = \<lparr> sa_af = Af_inet, sa_port = 7, sa_host = [10, 0, 0, 1] \<rparr>, sk_abortFlag = False, sk_asyncFlag = 1,
     sk_state = ncclSocketStateReady, sk_salen = 16, sk_magic = 0x564ab9f2fc4b9d6c, sk_type = ncclSocketTypeNetIb, sk_customRetry = 0, sk_finalizeCounter = 0, sk_finalizeBuffer = replicate 8 0 \<rparr>"

definition demo_xfer :: "'b list \<Rightarrow> 'b list \<Rightarrow> io_answer list \<Rightarrow> ('b, unit) xfer" where
  "demo_xfer buf inp io = \<lparr> xf_buf = buf, xf_off = 0, xf_st = \<lparr> st_in = inp, st_out = [], st_io = io, st_abort = [] \<rparr> \<rparr>"

theorem socket_roundtrip_witness:
  "take 3 (xf_buf (snd (the (socketWait NCCL_SOCKET_RECV demo_socket 3 (demo_xfer [0, 0, 0, 9 :: nat] [1, 2, 3, 4] [Io_move 2, Io_errno EINTR, Io_move 5]))))) = [1, 2, 3]"
proof -
  let ?x = "demo_xfer [1, 2, 3 :: nat] [] [Io_move 1, Io_move 0, Io_move 4]" and ?y = "demo_xfer [0, 0, 0, 9 :: nat] [1, 2, 3, 4] [Io_move 2, Io_errno EINTR, Io_move 5]"
  have s: "socketWait NCCL_SOCKET_SEND demo_socket 3 ?x = Some (ncclSuccess, ?x\<lparr> xf_off := 3, xf_st := \<lparr> st_in = [], st_out = [1, 2, 3], st_io = [], st_abort = [] \<rparr> \<rparr>)" by code_simp
  have r: "socketWait NCCL_SOCKET_RECV demo_socket 3 ?y = Some (ncclSuccess, ?y\<lparr> xf_buf := [1, 2, 3, 9], xf_off := 3, xf_st := \<lparr> st_in = [4], st_out = [], st_io = [], st_abort = [] \<rparr> \<rparr>)" by code_simp
  show ?thesis using socket_roundtrip [OF s _ _ r, of "[4]"] unfolding r by (simp add: demo_xfer_def)
qed

text \<open>The operations that count as completed, and how a round counts.\<close>

definition finished :: "('b, 'z) ncclSocketOp list \<Rightarrow> nat" where
  "finished ps = length (filter (\<lambda>p. 0 < so_size p \<and> so_size p \<le> xf_off (so_x p)) ps)"

lemma multi_round_counts:
  "multi_round ps numOps completed = Some ((r, c), ps') \<Longrightarrow> nccl_ok r \<Longrightarrow> c + finished ps = completed + finished ps' \<and> map so_size ps' = map so_size ps"
proof (induction ps numOps completed arbitrary: r c ps' rule: multi_round.induct)
  case (1 numOps completed)
  then show ?case by (simp add: finished_def)
next
  case (2 p ps numOps completed)
  consider (early) "\<not> completed < numOps" "ps' = p # ps" "c = completed"
    | (move) rp cl x1 ps1 where "completed < numOps" "xf_off (so_x p) < so_size p" "socketProgress (so_op p) (so_sock p) False (so_size p) (so_x p) = Some ((rp, cl), x1)" "nccl_ok rp"
      "multi_round ps numOps (if xf_off x1 \<ge> so_size p then completed + 1 else completed) = Some ((r, c), ps1)" "ps' = p\<lparr> so_x := x1 \<rparr> # ps1"
    | (skip) ps1 where "completed < numOps" "\<not> xf_off (so_x p) < so_size p" "multi_round ps numOps completed = Some ((r, c), ps1)" "ps' = p # ps1"
    using "2.prems" by (auto simp: Let_def split: if_splits option.splits)
  then show ?case
  proof cases
    case early
    then show ?thesis by simp
  next
    case move
    obtain rc where "ncclOsSocketProgressOpt (so_op p) (so_sock p) (so_size p) (so_x p) = Some (rc, x1)" using socketProgress_opt [OF move(3)] by blast
    then have pos: "0 < so_size p" using move(2) by (subst (asm) ncclOsSocketProgressOpt.simps) (auto split: if_splits)
    have "c + finished ps = (if xf_off x1 \<ge> so_size p then completed + 1 else completed) + finished ps1 \<and> map so_size ps1 = map so_size ps"
      by (rule "2.IH"(1) [OF _ move(2,3) refl refl refl _ move(5) "2.prems"(2)]) (use move in auto)
    then show ?thesis using move(2,6) pos by (auto simp: finished_def)
  next
    case skip
    then show ?thesis using "2.IH"(2) [OF _ skip(2,3) "2.prems"(2)] by (auto simp: finished_def)
  qed
qed

lemma multi_loop_counts:
  "multi_loop ps numOps completed = Some (ncclSuccess, ps') \<Longrightarrow> completed = finished ps \<Longrightarrow> numOps \<le> finished ps' \<and> map so_size ps' = map so_size ps"
proof (induction ps numOps completed arbitrary: ps' rule: multi_loop.induct)
  case (1 ps numOps completed)
  show ?case
  proof (cases "completed < numOps")
    case False
    then show ?thesis using "1.prems" by (simp add: multi_loop.simps)
  next
    case True
    then obtain r c ps1 where m: "\<not> list_all op_stuck ps" "multi_round ps numOps completed = Some ((r, c), ps1)" "nccl_ok r \<Longrightarrow> multi_loop ps1 numOps c = Some (ncclSuccess, ps')" "nccl_ok r"
      using "1.prems"(1) by (subst (asm) multi_loop.simps) (auto split: option.splits if_splits simp: nccl_ok_def)
    have c: "c + finished ps = completed + finished ps1 \<and> map so_size ps1 = map so_size ps" by (rule multi_round_counts [OF m(2,4)])
    have "numOps \<le> finished ps' \<and> map so_size ps' = map so_size ps1"
      by (rule "1.IH" [OF True m(1,2) refl refl m(4) m(3) [OF m(4)]]) (use c "1.prems"(2) in simp)
    then show ?thesis using c by simp
  qed
qed

text \<open>C40 \<open>ncclSocketMultiOp\<close> with an operation of size 0 never succeeds: such an operation is never counted as completed, and the loop goes on for ever once the others are.\<close>

theorem multi_op_zero_size:
  assumes "\<exists>p \<in> set ps. so_size p \<le> 0"
  shows "ncclSocketMultiOp ps \<noteq> Some (ncclSuccess, ps')"
proof
  let ?qs = "map (\<lambda>p. p\<lparr> so_x := (so_x p)\<lparr> xf_off := 0 \<rparr> \<rparr>) ps"
  assume "ncclSocketMultiOp ps = Some (ncclSuccess, ps')"
  then have "multi_loop ?qs (length ps) 0 = Some (ncclSuccess, ps')" by (auto simp: ncclSocketMultiOp_def ret_def split: if_splits)
  moreover have "finished ?qs = 0" by (auto simp: finished_def filter_empty_conv)
  ultimately have f: "length ps \<le> finished ps'" and sizes: "map so_size ps' = map so_size ps" using multi_loop_counts by (force simp: comp_def)+
  have "\<exists>k \<in> set (map so_size ps'). k \<le> 0" unfolding sizes using assms by simp
  then obtain p where p: "p \<in> set ps'" "so_size p \<le> 0" by auto
  then have "finished ps' < length ps'" unfolding finished_def by (intro length_filter_less [OF p(1)]) simp
  then show False using f map_eq_imp_length_eq [OF sizes] by simp
qed

theorem multi_op_zero_size_witness:
  "ncclSocketMultiOp [\<lparr> so_op = NCCL_SOCKET_SEND, so_sock = demo_socket, so_size = 0, so_x = demo_xfer ([] :: nat list) [] [Io_move 1] \<rparr>] \<noteq> Some (ncclSuccess, [])"
  by (rule multi_op_zero_size) simp

end
