(* ===== verification/Net_Socket_State.thy ===== *)
theory Net_Socket_State
  imports Net_Socket
begin

text \<open>
  Opening a connection, \<open>net/misc/socket.cc\<close> with \<open>net/os/linux.cc\<close>: a socket goes from \<open>Connecting\<close> over \<open>ConnectPolling\<close> and \<open>Connected\<close>, or from \<open>Accepting\<close> over \<open>Accepted\<close>, to \<open>Ready\<close>. Once the
  system reports the connection, the connecting side sends its magic number and the type of the socket, and the accepting side compares them with its own; a peer that announces something
  else is dropped and the socket goes back to accepting. Asynchronous sockets, which the transport uses, do this in as many calls of \<open>ncclSocketReady\<close> as the system needs.

  The functions work on the socket and the operating system. A loop that waits may run for ever and is a partial function, \<open>None\<close> then.
\<close>

unbundle bit_operations_syntax

type_synonym sock_st = "ncclSocket \<times> u8 sock_os"

section \<open>Numbers as bytes\<close>

definition le_bytes :: "nat \<Rightarrow> 'a :: len word \<Rightarrow> u8 list" where
  "le_bytes n w = map (\<lambda>i. ucast (drop_bit (8 * i) w)) [0..<n]"

definition of_le :: "u8 list \<Rightarrow> 'a :: len word" where
  "of_le bs = foldr (\<lambda>b w. push_bit 8 w OR ucast b) bs 0"

section \<open>System calls on a socket\<close>

fun sys_calls :: "nat \<Rightarrow> ('b, 'z) sock_os_scheme \<Rightarrow> ncclResult \<times> ('b, 'z) sock_os_scheme" where
  "sys_calls 0 s = (ncclSuccess, s)"
| "sys_calls (Suc n) s = (case sys s of (ok, s1) \<Rightarrow> if ok then sys_calls n s1 else (ncclSystemError, s1))"

definition ncclOsSocketSetFlags :: "sock_params \<Rightarrow> ncclSocket \<Rightarrow> ('b, 'z) sock_os_scheme \<Rightarrow> ncclResult \<times> ('b, 'z) sock_os_scheme" where
  "ncclOsSocketSetFlags p sk s =
     (if \<not> ncclOsSocketIsValid sk then (ncclInvalidArgument, s)
      else sys_calls ((if sk_asyncFlag sk \<noteq> 0 \<or> sk_abortFlag sk then 2 else 0) + 1
             + (if int_of_long (SocketMaxSendBuff p) > 0 then 1 else 0) + (if int_of_long (SocketMaxRecvBuff p) > 0 then 1 else 0)) s)"

definition ncclOsSocketResetAccept :: "sock_st \<Rightarrow> sock_st" where
  "ncclOsSocketResetAccept st =
     (case st of (sk, s) \<Rightarrow> (sk\<lparr> sk_fd := NCCL_INVALID_SOCKET, sk_state := ncclSocketStateBadHandshake, sk_finalizeCounter := 0 \<rparr>, sys_close (sk_fd sk) s))"

definition ncclOsSocketResetFd :: "sock_params \<Rightarrow> sock_st \<Rightarrow> ncclResult \<times> sock_st" where
  "ncclOsSocketResetFd p st =
     (case st of (sk, s) \<Rightarrow>
        (let answer = (case os_socket s of [] \<Rightarrow> None | a # _ \<Rightarrow> a); s1 = s\<lparr> os_socket := tl (os_socket s) \<rparr> in
         case answer of
           None \<Rightarrow> (ncclSystemError, sk, s1)
         | Some fd \<Rightarrow>
             if ncclOsSocketIsValid sk then
               (case sys s1 of (dup, s2) \<Rightarrow>
                  if \<not> dup then (ncclSystemError, sk, sys_close (int fd) s2)
                  else (case sys s2 of (cl, s3) \<Rightarrow>
                          if \<not> cl then (ncclSystemError, sk, sys_close (int fd) s3)
                          else (case ncclOsSocketSetFlags p sk (sys_close (int fd) s3) of (r, s4) \<Rightarrow> (r, sk, s4))))
             else (case ncclOsSocketSetFlags p (sk\<lparr> sk_fd := int fd \<rparr>) s1 of (r, s2) \<Rightarrow> (r, sk\<lparr> sk_fd := int fd \<rparr>, s2))))"

text \<open>When no connection waits \<open>accept\<close> would block. The address of the peer is stored.\<close>

definition accept_retries :: "errno \<Rightarrow> bool" where
  "accept_retries e \<longleftrightarrow> e \<in> {ENETDOWN, EPROTO, ENOPROTOOPT, EHOSTDOWN, ENONET, EHOSTUNREACH, EOPNOTSUPP, ENETUNREACH, EINTR}"

definition ncclOsSocketTryAccept :: "sock_params \<Rightarrow> sock_st \<Rightarrow> ncclResult \<times> sock_st" where
  "ncclOsSocketTryAccept p st =
     (case st of (sk, s) \<Rightarrow>
        (let answer = (case os_accept s of [] \<Rightarrow> Inl EAGAIN | a # _ \<Rightarrow> a); s1 = s\<lparr> os_accept := tl (os_accept s) \<rparr> in
         case answer of
           Inr (fd, addr, bytes) \<Rightarrow>
             (ncclSuccess, sk\<lparr> sk_fd := int fd, sk_addr := addr, sk_state := ncclSocketStateAccepted \<rparr>, s1\<lparr> st_in := bytes, st_out := [] \<rparr>)
         | Inl e \<Rightarrow>
             (let sk1 = sk\<lparr> sk_fd := - 1 \<rparr> in
              if accept_retries e then
                (let sk2 = sk1\<lparr> sk_errorRetries := sk_errorRetries sk + 1 \<rparr> in if sk_errorRetries sk2 = RetryCnt p then (ncclSystemError, sk2, s1) else (ncclSuccess, sk2, s1))
              else if e \<noteq> EAGAIN then (ncclSystemError, sk1, s1)
              else (ncclSuccess, sk1, s1))))"

definition connect_retries :: "errno \<Rightarrow> bool" where
  "connect_retries e \<longleftrightarrow> e \<in> {EINTR, EAGAIN, ETIMEDOUT, EHOSTUNREACH, ECONNREFUSED}"

text \<open>The code 0 of a connection that stands is \<open>None\<close>. The pause before a retry has no counterpart.\<close>

definition socketConnectCheck :: "sock_params \<Rightarrow> errno option \<Rightarrow> sock_st \<Rightarrow> ncclResult \<times> sock_st" where
  "socketConnectCheck p errCode st =
     (case st of (sk, s) \<Rightarrow>
        case errCode of
          None \<Rightarrow> (ncclSuccess, sk\<lparr> sk_state := ncclSocketStateConnected \<rparr>, s)
        | Some e \<Rightarrow>
            if e = EINPROGRESS then (ncclSuccess, sk\<lparr> sk_state := ncclSocketStateConnectPolling \<rparr>, s)
            else if connect_retries e then
             (let sk1 = (if sk_customRetry sk = 0 then sk\<lparr> sk_errorRetries := sk_errorRetries sk + 1 \<rparr> else sk) in
              if sk_customRetry sk = 0 \<and> sk_errorRetries sk = RetryCnt p then (ncclRemoteError, sk1\<lparr> sk_state := ncclSocketStateError \<rparr>, s)
              else (case ncclOsSocketResetFd p (sk1, s) of
                      (r, sk2, s2) \<Rightarrow> if nccl_ok r then (ncclSuccess, sk2\<lparr> sk_state := ncclSocketStateConnecting \<rparr>, s2) else (r, sk2, s2)))
            else (ncclSystemError, sk\<lparr> sk_state := ncclSocketStateError \<rparr>, s))"

definition ncclOsSocketStartConnect :: "sock_params \<Rightarrow> sock_st \<Rightarrow> ncclResult \<times> sock_st" where
  "ncclOsSocketStartConnect p st =
     (case st of (sk, s) \<Rightarrow> socketConnectCheck p (case os_connect s of [] \<Rightarrow> Some EINPROGRESS | a # _ \<Rightarrow> a) (sk, s\<lparr> os_connect := tl (os_connect s) \<rparr>))"

definition ncclOsSocketPollConnect :: "sock_params \<Rightarrow> sock_st \<Rightarrow> ncclResult \<times> sock_st" where
  "ncclOsSocketPollConnect p st =
     (case st of (sk, s) \<Rightarrow>
        (let s1 = s\<lparr> os_poll := tl (os_poll s) \<rparr> in
         case (case os_poll s of [] \<Rightarrow> Poll_timeout | a # _ \<Rightarrow> a) of
           Poll_timeout \<Rightarrow> (ncclSuccess, sk, s1)
         | Poll_errno e \<Rightarrow> (if e = EINTR then ncclSuccess else ncclSystemError, sk, s1)
         | Poll_event_unread \<Rightarrow> (ncclSystemError, sk, s1)
         | Poll_event err \<Rightarrow> socketConnectCheck p err (sk, s1)))"

definition ncclSocketPollConnect :: "sock_params \<Rightarrow> sock_st option \<Rightarrow> ncclResult \<times> sock_st option" where
  "ncclSocketPollConnect p sock = (case sock of None \<Rightarrow> (ncclInvalidArgument, None) | Some st \<Rightarrow> (case ncclOsSocketPollConnect p st of (r, st1) \<Rightarrow> (if nccl_ok r then ncclSuccess else r, Some st1)))"

section \<open>The announcement\<close>

abbreviation magic_size :: int where "magic_size \<equiv> 8"
abbreviation type_size :: int where "type_size \<equiv> 4"

definition xfer_of :: "u8 list \<Rightarrow> int \<Rightarrow> u8 sock_os \<Rightarrow> (u8, (u8, unit) sock_os_ext) xfer" where
  "xfer_of buf off s = \<lparr> xf_buf = buf, xf_off = off, xf_st = s \<rparr>"

text \<open>The magic number of the peer: an error or a short read ends the call (\<open>Inl\<close>), otherwise the number is known.\<close>

definition receive_magic :: "sock_st \<Rightarrow> ((ncclResult + u64) \<times> sock_st) option" where
  "receive_magic st =
     (case st of (sk, s) \<Rightarrow>
        if sk_asyncFlag sk = 0 then
          (case socketWait NCCL_SOCKET_RECV sk magic_size (xfer_of (replicate 8 0) 0 s) of
             None \<Rightarrow> None
           | Some (r, x) \<Rightarrow> Some (if r \<noteq> ncclSuccess then (Inl ncclSuccess, ncclOsSocketResetAccept (sk, xf_st x)) else (Inr (of_le (xf_buf x)), sk, xf_st x)))
        else
          (case socketProgress NCCL_SOCKET_RECV sk True magic_size (xfer_of (sk_finalizeBuffer sk) (sk_finalizeCounter sk) s) of
             None \<Rightarrow> None
           | Some ((r, closed), x) \<Rightarrow>
               if \<not> nccl_ok r then Some (Inl r, sk\<lparr> sk_finalizeBuffer := xf_buf x \<rparr>, xf_st x)
               else
                (let sk1 = sk\<lparr> sk_finalizeBuffer := xf_buf x, sk_finalizeCounter := xf_off x \<rparr> in
                 if xf_off x < magic_size then Some (Inl ncclSuccess, if closed then ncclOsSocketResetAccept (sk1, xf_st x) else (sk1, xf_st x))
                 else Some (Inr (of_le (take 8 (xf_buf x))), sk1, xf_st x))))"

definition receive_type :: "sock_st \<Rightarrow> ((ncclResult + u32) \<times> sock_st) option" where
  "receive_type st =
     (case st of (sk, s) \<Rightarrow>
        if sk_asyncFlag sk = 0 then
          (case socketWait NCCL_SOCKET_RECV sk type_size (xfer_of (replicate 4 0) 0 s) of
             None \<Rightarrow> None
           | Some (r, x) \<Rightarrow> Some (if nccl_ok r then Inr (of_le (xf_buf x)) else Inl r, sk, xf_st x))
        else
          (case socketProgress NCCL_SOCKET_RECV sk False type_size (xfer_of (sk_finalizeBuffer sk) (sk_finalizeCounter sk - magic_size) s) of
             None \<Rightarrow> None
           | Some ((r, closed), x) \<Rightarrow>
               if \<not> nccl_ok r then Some (Inl r, sk\<lparr> sk_finalizeBuffer := xf_buf x \<rparr>, xf_st x)
               else
                (let sk1 = sk\<lparr> sk_finalizeBuffer := xf_buf x, sk_finalizeCounter := xf_off x + magic_size \<rparr> in
                 Some (if xf_off x < type_size then Inl ncclSuccess else Inr (of_le (take 4 (xf_buf x))), sk1, xf_st x))))"

definition socketFinalizeAccept :: "sock_params \<Rightarrow> sock_st \<Rightarrow> sock_st outcome" where
  "socketFinalizeAccept p st =
     (case st of (sk, s) \<Rightarrow>
      case ncclOsSocketSetFlags p sk s of (r, s1) \<Rightarrow>
        if \<not> nccl_ok r then ret r (sk, s1)
        else
         (let with_type = (\<lambda>st. deref (receive_type st) (\<lambda>(t, sk2, s2).
                case t of
                  Inl r \<Rightarrow> ret r (sk2, s2)
                | Inr ty \<Rightarrow> if ty \<noteq> type_code (sk_type sk2) then ret ncclSuccess (ncclOsSocketResetAccept (sk2, s2)) else ret ncclSuccess (sk2\<lparr> sk_state := ncclSocketStateReady \<rparr>, s2)))
          in if sk_asyncFlag sk = 0 \<or> sk_finalizeCounter sk < magic_size then
               deref (receive_magic (sk, s1)) (\<lambda>(m, sk2, s2).
                 case m of
                   Inl r \<Rightarrow> ret r (sk2, s2)
                 | Inr magic \<Rightarrow> if magic \<noteq> sk_magic sk2 then ret ncclSuccess (ncclOsSocketResetAccept (sk2, s2)) else with_type (sk2, s2))
             else with_type (sk, s1)))"

definition socketFinalizeConnect :: "sock_st \<Rightarrow> sock_st outcome" where
  "socketFinalizeConnect st =
     (case st of (sk, s) \<Rightarrow>
        let magic = le_bytes 8 (sk_magic sk); ty = le_bytes 4 (type_code (sk_type sk)) in
        if sk_asyncFlag sk = 0 then
          deref (socketWait NCCL_SOCKET_SEND sk magic_size (xfer_of magic 0 s)) (\<lambda>(r, x).
            if \<not> nccl_ok r then ret r (sk, xf_st x)
            else deref (socketWait NCCL_SOCKET_SEND sk type_size (xfer_of ty 0 (xf_st x))) (\<lambda>(r, x).
              if \<not> nccl_ok r then ret r (sk, xf_st x) else ret ncclSuccess (sk\<lparr> sk_state := ncclSocketStateReady \<rparr>, xf_st x)))
        else
         (let send_type = (\<lambda>(sk, s). deref (socketProgress NCCL_SOCKET_SEND sk False type_size (xfer_of ty (sk_finalizeCounter sk - magic_size) s)) (\<lambda>((r, _), x).
                if \<not> nccl_ok r then ret r (sk, xf_st x)
                else
                 (let sk1 = sk\<lparr> sk_finalizeCounter := xf_off x + magic_size \<rparr> in
                  ret ncclSuccess (if xf_off x < type_size then sk1 else sk1\<lparr> sk_state := ncclSocketStateReady \<rparr>, xf_st x))))
          in if sk_finalizeCounter sk < magic_size then
               deref (socketProgress NCCL_SOCKET_SEND sk False magic_size (xfer_of magic (sk_finalizeCounter sk) s)) (\<lambda>((r, _), x).
                 if \<not> nccl_ok r then ret r (sk, xf_st x)
                 else
                  (let sk1 = sk\<lparr> sk_finalizeCounter := xf_off x \<rparr> in
                   if xf_off x < magic_size then ret ncclSuccess (sk1, xf_st x) else send_type (sk1, xf_st x)))
             else send_type (sk, s)))"

section \<open>The state machine\<close>

definition when_state :: "ncclSocketState \<Rightarrow> (sock_st \<Rightarrow> sock_st outcome) \<Rightarrow> sock_st \<Rightarrow> sock_st outcome" where
  "when_state q f st = (if sk_state (fst st) = q then f st else ret ncclSuccess st)"

definition socketProgressState :: "sock_params \<Rightarrow> sock_st \<Rightarrow> sock_st outcome" where
  "socketProgressState p st =
     chk (when_state ncclSocketStateAccepting (\<lambda>st. Some (ncclOsSocketTryAccept p st)) st) (\<lambda>st.
     chk (when_state ncclSocketStateAccepted (socketFinalizeAccept p) st) (\<lambda>st.
     chk (when_state ncclSocketStateConnecting (\<lambda>st. Some (ncclOsSocketStartConnect p st)) st) (\<lambda>st.
     chk (when_state ncclSocketStateConnectPolling (\<lambda>st. Some (ncclOsSocketPollConnect p st)) st) (\<lambda>st.
     chk (when_state ncclSocketStateConnected socketFinalizeConnect st) (ret ncclSuccess)))))"

text \<open>The flag is \<open>*running\<close>.\<close>

definition ncclSocketReady :: "sock_params \<Rightarrow> sock_st \<Rightarrow> ((ncclResult \<times> bool) \<times> sock_st) option" where
  "ncclSocketReady p st =
     (case st of (sk, s) \<Rightarrow>
        if sk_state sk = ncclSocketStateError \<or> sk_state sk = ncclSocketStateClosed then Some ((ncclRemoteError, False), st)
        else if sk_state sk = ncclSocketStateReady then Some ((ncclSuccess, True), st)
        else deref (socketProgressState p st) (\<lambda>(r, sk1, s1).
          if \<not> nccl_ok r then Some ((r, False), sk1, s1)
          else
           (let sk2 = (if sk_state sk1 = ncclSocketStateBadHandshake then sk1\<lparr> sk_state := ncclSocketStateAccepting \<rparr> else sk1) in
            Some ((ncclSuccess, sk_state sk2 = ncclSocketStateReady), sk2, s1))))"

definition connecting :: "ncclSocketState \<Rightarrow> bool" where
  "connecting q \<longleftrightarrow> q \<in> {ncclSocketStateConnecting, ncclSocketStateConnectPolling, ncclSocketStateConnected}"

partial_function (option) connect_loop :: "sock_params \<Rightarrow> sock_st \<Rightarrow> sock_st outcome" where
  "connect_loop p st =
     (case socketProgressState p st of
        None \<Rightarrow> None
      | Some (r, sk, s) \<Rightarrow>
          if \<not> nccl_ok r then Some (r, sk, s)
          else if sk_asyncFlag sk \<noteq> 0 then Some (ncclSuccess, sk, s)
          else (case abort_read sk s of (a, s1) \<Rightarrow> if \<not> a \<and> connecting (sk_state sk) then connect_loop p (sk, s1) else Some (ncclSuccess, sk, s1)))"

declare connect_loop.simps [code]

definition ncclSocketConnect :: "sock_params \<Rightarrow> sock_st \<Rightarrow> sock_st outcome" where
  "ncclSocketConnect p st =
     (case st of (sk, s) \<Rightarrow>
        if \<not> ncclOsSocketIsValid sk then ret ncclInvalidArgument st
        else if sk_state sk \<noteq> ncclSocketStateInitialized then ret (if sk_state sk = ncclSocketStateError then ncclRemoteError else ncclInternalError) st
        else chk (connect_loop p (sk\<lparr> sk_state := ncclSocketStateConnecting, sk_finalizeCounter := 0 \<rparr>, s)) (\<lambda>(sk, s).
          case abort_read sk s of (a, s1) \<Rightarrow>
            if a then ret ncclInternalError (sk, s1)
            else if connecting (sk_state sk) \<or> sk_state sk = ncclSocketStateReady then ret ncclSuccess (sk, s1)
            else ret (if sk_state sk = ncclSocketStateError then ncclSystemError else ncclInternalError) (sk, s1)))"

definition accepting :: "ncclSocketState \<Rightarrow> bool" where
  "accepting q \<longleftrightarrow> q \<in> {ncclSocketStateAccepting, ncclSocketStateAccepted}"

partial_function (option) accept_loop :: "sock_params \<Rightarrow> bool \<Rightarrow> sock_st \<Rightarrow> sock_st outcome" where
  "accept_loop p retry st =
     (case socketProgressState p st of
        None \<Rightarrow> None
      | Some (r, sk, s) \<Rightarrow>
          if \<not> nccl_ok r then Some (r, sk, s)
          else
           (let bad = (sk_state sk = ncclSocketStateBadHandshake); sk1 = (if bad then sk\<lparr> sk_state := ncclSocketStateAccepting \<rparr> else sk) in
            if bad \<and> \<not> retry \<or> sk_asyncFlag sk1 \<noteq> 0 then Some (ncclSuccess, sk1, s)
            else (case abort_read sk1 s of (a, s1) \<Rightarrow> if \<not> a \<and> accepting (sk_state sk1) then accept_loop p retry (sk1, s1) else Some (ncclSuccess, sk1, s1))))"

declare accept_loop.simps [code]

text \<open>A fresh socket takes over the listening socket as a whole.\<close>

definition ncclSocketAccept :: "sock_params \<Rightarrow> bool \<Rightarrow> ncclSocket \<Rightarrow> sock_st \<Rightarrow> sock_st outcome" where
  "ncclSocketAccept p retry listenSock st =
     (case st of (sk, s) \<Rightarrow>
        if sk_state listenSock \<noteq> ncclSocketStateReady then ret (if sk_state listenSock = ncclSocketStateError then ncclSystemError else ncclInternalError) st
        else
         (let sk1 = (if \<not> ncclOsSocketDescriptorIsValid (sk_acceptFd sk) then listenSock\<lparr> sk_state := ncclSocketStateAccepting, sk_finalizeCounter := 0 \<rparr> else sk) in
          chk (accept_loop p retry (sk1, s)) (\<lambda>(sk, s).
            case abort_read sk s of (a, s1) \<Rightarrow>
              if a then ret ncclInternalError (sk, s1)
              else if accepting (sk_state sk) \<or> sk_state sk = ncclSocketStateReady then ret ncclSuccess (sk, s1)
              else ret (if sk_state sk = ncclSocketStateError then ncclSystemError else ncclInternalError) (sk, s1))))"

section \<open>Initialisation, listening and closing\<close>

definition salen_of :: "af \<Rightarrow> int" where
  "salen_of a = (if a = Af_inet then 16 else 28)"

definition zero_addr :: sock_addr where
  "zero_addr = \<lparr> sa_af = Af_other, sa_port = 0, sa_host = [] \<rparr>"

text \<open>\<open>ncclSocketClose\<close> without waiting for the peer; every state of the model is one of the enumeration, and only \<open>None\<close> is excluded.\<close>

definition ncclSocketClose :: "sock_st \<Rightarrow> sock_st" where
  "ncclSocketClose st =
     (case st of (sk, s) \<Rightarrow>
        (sk\<lparr> sk_state := ncclSocketStateClosed, sk_fd := NCCL_INVALID_SOCKET \<rparr>, if sk_state sk \<noteq> ncclSocketStateNone \<and> ncclOsSocketIsValid sk then sys_close (sk_fd sk) s else s))"

definition ncclSocketInit :: "sock_params \<Rightarrow> sock_addr option \<Rightarrow> u64 \<Rightarrow> ncclSocketType \<Rightarrow> bool \<Rightarrow> int \<Rightarrow> int \<Rightarrow> sock_st \<Rightarrow> ncclResult \<times> sock_st" where
  "ncclSocketInit p addr magic ty abortFlag asyncFlag customRetry st =
     (case st of (sk0, s) \<Rightarrow>
        (let sk = sk0\<lparr> sk_errorRetries := 0, sk_abortFlag := abortFlag, sk_asyncFlag := asyncFlag, sk_state := ncclSocketStateInitialized, sk_magic := magic, sk_type := ty,
                   sk_fd := NCCL_INVALID_SOCKET, sk_acceptFd := NCCL_INVALID_SOCKET, sk_customRetry := customRetry \<rparr> in
         case addr of
           None \<Rightarrow> (ncclSuccess, sk\<lparr> sk_addr := zero_addr \<rparr>, s)
         | Some a \<Rightarrow>
             (let sk1 = sk\<lparr> sk_addr := a \<rparr> in
              if sa_af a = Af_other then (ncclInternalError, sk1, s)
              else (case ncclOsSocketResetFd p (sk1\<lparr> sk_salen := salen_of (sa_af a) \<rparr>, s) of (r, st1) \<Rightarrow> if nccl_ok r then (ncclSuccess, st1) else (r, ncclSocketClose st1)))))"

text \<open>\<open>bind\<close> may choose the port; \<open>bound\<close> is the address \<open>getsockname\<close> returns.\<close>

definition ncclSocketListen :: "sock_addr \<Rightarrow> sock_st \<Rightarrow> ncclResult \<times> sock_st" where
  "ncclSocketListen bound st =
     (case st of (sk, s) \<Rightarrow>
        if \<not> ncclOsSocketIsValid sk then (ncclInvalidArgument, st)
        else (case sys_calls ((if sa_port (sk_addr sk) \<noteq> 0 then 2 else 0) + 1) s of (r, s1) \<Rightarrow>
                if \<not> nccl_ok r then (r, sk, s1)
                else (case sys_calls 1 s1 of (r, s2) \<Rightarrow>
                        if \<not> nccl_ok r then (r, sk, s2)
                        else (case sys_calls 1 s2 of (r, s3) \<Rightarrow>
                                if \<not> nccl_ok r then (r, sk\<lparr> sk_addr := bound \<rparr>, s3)
                                else (ncclSuccess, sk\<lparr> sk_addr := bound, sk_acceptFd := sk_fd sk, sk_state := ncclSocketStateReady \<rparr>, s3)))))"

definition ncclSocketGetAddr :: "ncclSocket option \<Rightarrow> ncclResult + sock_addr" where
  "ncclSocketGetAddr sock = (case sock of None \<Rightarrow> Inl ncclInvalidArgument | Some sk \<Rightarrow> if sk_state sk \<noteq> ncclSocketStateReady then Inl ncclInternalError else Inr (sk_addr sk))"

definition ncclSocketShutdown :: "sock_st \<Rightarrow> ncclResult \<times> sock_st" where
  "ncclSocketShutdown st =
     (case st of (sk, s) \<Rightarrow>
        if ncclOsSocketIsValid sk then (case sys_calls 1 s of (r, s1) \<Rightarrow> if nccl_ok r then (ncclSuccess, sk\<lparr> sk_state := ncclSocketStateTerminating \<rparr>, s1) else (r, sk, s1))
        else (ncclSuccess, sk\<lparr> sk_state := ncclSocketStateTerminating \<rparr>, s))"

definition ncclSocketGetFd :: "ncclSocket option \<Rightarrow> ncclResult + int" where
  "ncclSocketGetFd sock = (case sock of None \<Rightarrow> Inl ncclInvalidArgument | Some sk \<Rightarrow> Inr (sk_fd sk))"

definition ncclSocketSetFd :: "int \<Rightarrow> ncclSocket option \<Rightarrow> ncclResult \<times> ncclSocket option" where
  "ncclSocketSetFd fd sock = (case sock of None \<Rightarrow> (ncclInvalidArgument, None) | Some sk \<Rightarrow> (ncclSuccess, Some (sk\<lparr> sk_fd := fd \<rparr>)))"

text \<open>\<open>ncclSocketDefaultMagic\<close>: the whole text of the variable must be a number; \<open>parse\<close> is \<open>strtoull\<close> in base 0 with the text it leaves.\<close>

definition NCCL_SOCKET_MAGIC :: u64 where "NCCL_SOCKET_MAGIC = 0x564ab9f2fc4b9d6c"

definition ncclSocketDefaultMagic :: "(string \<Rightarrow> u64 \<times> string) \<Rightarrow> string option \<Rightarrow> u64" where
  "ncclSocketDefaultMagic parse env =
     (case env of
        None \<Rightarrow> NCCL_SOCKET_MAGIC
      | Some e \<Rightarrow> if e = [] then NCCL_SOCKET_MAGIC else (case parse e of (v, rest) \<Rightarrow> if rest \<noteq> e \<and> rest = [] then v else NCCL_SOCKET_MAGIC))"

section \<open>Bytes of a number\<close>

lemma bit_of_le:
  "k < 8 * length bs \<Longrightarrow> k < LENGTH('a) \<Longrightarrow> bit (of_le bs :: 'a :: len word) k \<longleftrightarrow> bit (bs ! (k div 8)) (k mod 8)"
proof (induction bs arbitrary: k)
  case Nil
  then show ?case by simp
next
  case (Cons b bs)
  show ?case
  proof (cases "k < 8")
    case True
    then show ?thesis using Cons.prems by (simp add: of_le_def bit_or_iff bit_push_bit_iff bit_unsigned_iff)
  next
    case False
    then have "bit (of_le bs :: 'a word) (k - 8) \<longleftrightarrow> bit (bs ! ((k - 8) div 8)) ((k - 8) mod 8)" by (intro Cons.IH) (use Cons.prems in auto)
    moreover have "k div 8 = Suc ((k - 8) div 8)" "k mod 8 = (k - 8) mod 8" using False by (simp_all add: le_div_geq le_mod_geq)
    moreover have "\<not> bit (ucast b :: 'a word) k" using False by (auto simp: bit_unsigned_iff dest: bit_imp_le_length)
    ultimately show ?thesis using False Cons.prems by (simp add: of_le_def bit_or_iff bit_push_bit_iff)
  qed
qed

lemma le_bytes_of_le:
  assumes "8 * length bs \<le> LENGTH('a)"
  shows "le_bytes (length bs) (of_le bs :: 'a :: len word) = bs"
proof (rule nth_equalityI)
  fix i assume "i < length (le_bytes (length bs) (of_le bs :: 'a word))"
  then have i: "i < length bs" by (simp add: le_bytes_def)
  have "ucast (drop_bit (8 * i) (of_le bs :: 'a word)) = bs ! i"
  proof (rule bit_word_eqI)
    fix j assume "j < LENGTH(8)"
    then have j: "j < 8" by simp
    have "8 * i + j < 8 * length bs" using i j by simp
    moreover from this have "8 * i + j < LENGTH('a)" using assms by linarith
    moreover have "(8 * i + j) div 8 = i" "(8 * i + j) mod 8 = j" using j by simp_all
    ultimately show "bit (ucast (drop_bit (8 * i) (of_le bs :: 'a word)) :: u8) j \<longleftrightarrow> bit (bs ! i) j"
      using bit_of_le [of "8 * i + j" bs, where 'a = 'a] j by (simp add: bit_unsigned_iff bit_drop_bit_eq)
  qed
  then show "le_bytes (length bs) (of_le bs :: 'a word) ! i = bs ! i" using i by (simp add: le_bytes_def)
qed (simp add: le_bytes_def)

section \<open>Accepting a connection\<close>

text \<open>A transfer changes nothing of the system but the stream.\<close>

lemma move_more: "move op n x = (r, y) \<Longrightarrow> stream.more (xf_st y) = stream.more (xf_st x)"
  by (auto simp: move_def sys_recv_def sys_send_def Let_def split: sock_op.splits list.splits io_answer.splits if_splits sum.splits prod.splits)

lemma abort_more: "abort_read sk s = (a, s') \<Longrightarrow> stream.more s' = stream.more s"
  by (auto simp: abort_read_def split: list.splits if_splits)

lemma progress_more: "ncclOsSocketProgressOpt op sk n x = Some (rc, x') \<Longrightarrow> stream.more (xf_st x') = stream.more (xf_st x)"
  by (erule progress_rel [where R = "\<lambda>x y. stream.more (xf_st y) = stream.more (xf_st x)"]) (auto simp: move_more dest!: abort_more)

lemma accept_of_more: "stream.more s = stream.more s' \<Longrightarrow> os_accept (s :: 'b sock_os) = os_accept s'"
  by (cases s; cases s') simp

lemma socketProgress_received:
  assumes "socketProgress NCCL_SOCKET_RECV sk want n (xfer_of buf off s) = Some (rc, x)"
  shows "\<exists>bs. st_in s = bs @ st_in (xf_st x) \<and> xf_off x = off + int (length bs) \<and> take (nat (xf_off x)) (xf_buf x) = take (nat off) buf @ bs \<and> length (xf_buf x) = length buf
    \<and> 0 \<le> off \<and> xf_off x \<le> n \<and> n \<le> int (length buf) \<and> os_accept (xf_st x) = os_accept s"
proof -
  obtain rc' where o: "ncclOsSocketProgressOpt NCCL_SOCKET_RECV sk n (xfer_of buf off s) = Some (rc', x)" using socketProgress_opt [OF assms] by blast
  obtain bs where b: "st_in s = bs @ st_in (xf_st x)" "xf_off x = off + int (length bs)" "xf_buf x = write_at buf (nat off) bs" "0 \<le> off" "xf_off x \<le> n" "n \<le> int (length buf)"
    using progress_received [OF o] by (auto simp: received_def xfer_of_def)
  have "os_accept (xf_st x) = os_accept s" using accept_of_more [OF progress_more [OF o]] by (simp add: xfer_of_def)
  moreover have "take (nat (xf_off x)) (xf_buf x) = take (nat off) buf @ bs" using b by (simp add: write_at_def nat_add_distrib)
  moreover have "length (xf_buf x) = length buf" using b by (simp add: nat_le_iff)
  ultimately show ?thesis using b by blast
qed

lemma sys_accept: "sys s = (b, s') \<Longrightarrow> os_accept s' = os_accept s \<and> st_in s' = st_in s"
  by (auto simp: sys_def split: list.splits)

lemma sys_calls_accept: "sys_calls n s = (r, s') \<Longrightarrow> os_accept s' = os_accept s \<and> st_in s' = st_in s"
  by (induction n arbitrary: s) (auto split: prod.splits if_splits dest: sys_accept)

lemma set_flags_accept: "ncclOsSocketSetFlags p sk s = (r, s') \<Longrightarrow> os_accept s' = os_accept s \<and> st_in s' = st_in s"
  by (cases "ncclOsSocketIsValid sk") (simp_all only: ncclOsSocketSetFlags_def not_True_eq_False not_False_eq_True if_True if_False, (erule sys_calls_accept | auto)+)

text \<open>The invariant of an accepting socket: in \<open>Accepted\<close> it has read \<open>c\<close> bytes of the announcement of a peer.\<close>

definition from_peer :: "(errno + nat \<times> sock_addr \<times> u8 list) set \<Rightarrow> ncclSocket \<Rightarrow> u8 list \<Rightarrow> bool" where
  "from_peer A sk S \<longleftrightarrow> (\<exists>fd addr. sk_fd sk = int fd \<and> Inr (fd, addr, S) \<in> A)"

definition reading :: "(errno + nat \<times> sock_addr \<times> u8 list) set \<Rightarrow> ncclSocket \<Rightarrow> u8 sock_os \<Rightarrow> bool" where
  "reading A sk s \<longleftrightarrow>
     (\<exists>S c. from_peer A sk S \<and> sk_finalizeCounter sk = int c \<and> c < 12 \<and> c \<le> length S \<and> st_in s = drop c S
        \<and> (if c < 8 then take c (sk_finalizeBuffer sk) = take c S
           else take 8 S = le_bytes 8 (sk_magic sk) \<and> take (c - 8) (sk_finalizeBuffer sk) = take (c - 8) (drop 8 S)))"

definition announced_peer :: "(errno + nat \<times> sock_addr \<times> u8 list) set \<Rightarrow> ncclSocket \<Rightarrow> u8 sock_os \<Rightarrow> bool" where
  "announced_peer A sk s \<longleftrightarrow> (\<exists>S. from_peer A sk S \<and> S = le_bytes 8 (sk_magic sk) @ le_bytes 4 (type_code (sk_type sk)) @ st_in s)"

definition accept_inv :: "(errno + nat \<times> sock_addr \<times> u8 list) set \<Rightarrow> u64 \<Rightarrow> ncclSocketType \<Rightarrow> sock_st \<Rightarrow> bool" where
  "accept_inv A magic ty st \<longleftrightarrow>
     (case st of (sk, s) \<Rightarrow>
        sk_magic sk = magic \<and> sk_type sk = ty \<and> sk_asyncFlag sk \<noteq> 0 \<and> length (sk_finalizeBuffer sk) = 8 \<and> set (os_accept s) \<subseteq> A
        \<and> (case sk_state sk of
             ncclSocketStateAccepting \<Rightarrow> sk_finalizeCounter sk = 0
           | ncclSocketStateBadHandshake \<Rightarrow> sk_finalizeCounter sk = 0
           | ncclSocketStateAccepted \<Rightarrow> reading A sk s
           | ncclSocketStateReady \<Rightarrow> announced_peer A sk s
           | _ \<Rightarrow> False))"

lemma reset_accept_inv:
  assumes "sk_magic sk = magic" "sk_type sk = ty" "sk_asyncFlag sk \<noteq> 0" "length (sk_finalizeBuffer sk) = 8" "set (os_accept s) \<subseteq> A"
  shows "accept_inv A magic ty (ncclOsSocketResetAccept (sk, s))"
  using assms by (simp add: accept_inv_def ncclOsSocketResetAccept_def sys_close_def)

lemma set_tl_subset: "set (tl xs) \<subseteq> set xs"
  by (cases xs) auto

lemma try_accept_inv:
  assumes "accept_inv A magic ty st" "sk_state (fst st) = ncclSocketStateAccepting" "ncclOsSocketTryAccept p st = (r, st')"
  shows "accept_inv A magic ty st'"
proof -
  obtain sk s where st: "st = (sk, s)" by fastforce
  have A: "set (os_accept s) \<subseteq> A" "set (tl (os_accept s)) \<subseteq> A" using assms(1) st set_tl_subset [of "os_accept s"] by (auto simp: accept_inv_def)
  show ?thesis
  proof (cases "os_accept s")
    case Nil
    then show ?thesis using assms st by (auto simp: ncclOsSocketTryAccept_def accept_inv_def Let_def accept_retries_def split: if_splits)
  next
    case (Cons a as)
    then show ?thesis using assms st A
      by (cases a) (auto simp: ncclOsSocketTryAccept_def accept_inv_def Let_def reading_def from_peer_def split: if_splits prod.splits intro!: exI [of _ "0 :: nat"])
  qed
qed

text \<open>One transfer of a part of the announcement that begins at byte \<open>a\<close> of the stream \<open>S\<close> of the peer.\<close>

lemma take_drop_split: "a \<le> c \<Longrightarrow> take (c + n - a) (drop a S) = take (c - a) (drop a S) @ take n (drop c S)"
  using take_add [of "c - a" n "drop a S"] by simp

lemma announcement_step:
  assumes "socketProgress NCCL_SOCKET_RECV sk want n (xfer_of buf (int c - int a) s) = Some (rc, x)"
    and "st_in s = drop c S" "c \<le> length S" "a \<le> c" "take (c - a) buf = take (c - a) (drop a S)"
  obtains k where "c \<le> k" "k \<le> length S" "st_in (xf_st x) = drop k S" "xf_off x = int (k - a)" "int (k - a) \<le> n" "take (k - a) (xf_buf x) = take (k - a) (drop a S)"
    "length (xf_buf x) = length buf" "os_accept (xf_st x) = os_accept s"
proof -
  obtain bs where b: "st_in s = bs @ st_in (xf_st x)" "xf_off x = int c - int a + int (length bs)" "take (nat (xf_off x)) (xf_buf x) = take (c - a) buf @ bs"
      "length (xf_buf x) = length buf" "xf_off x \<le> n" "os_accept (xf_st x) = os_accept s"
    using socketProgress_received [OF assms(1)] assms(4) by (auto simp: nat_diff_distrib)
  have d: "drop c S = bs @ st_in (xf_st x)" using b(1) assms(2) by simp
  have off: "xf_off x = int (c + length bs - a)" using b(2) assms(4) by simp
  have bs: "bs = take (length bs) (drop c S)" using d by simp
  show thesis
  proof (rule that [of "c + length bs"])
    show "c + length bs \<le> length S" using arg_cong [OF d, of length] assms(3) by auto
    show "st_in (xf_st x) = drop (c + length bs) S" using arg_cong [OF d, of "drop (length bs)"] by (simp add: add.commute)
    show "take (c + length bs - a) (xf_buf x) = take (c + length bs - a) (drop a S)"
      using b(3) off assms(5) bs by (simp add: take_drop_split [OF assms(4)])
  qed (use b off in auto)
qed

lemma reading_inv:
  assumes "accept_inv A magic ty (sk, s)" "sk_state sk = ncclSocketStateAccepted"
  shows "sk_magic sk = magic" "sk_type sk = ty" "sk_asyncFlag sk \<noteq> 0" "length (sk_finalizeBuffer sk) = 8" "set (os_accept s) \<subseteq> A" "reading A sk s"
  using assms by (auto simp: accept_inv_def)

text \<open>Reading the type, once the magic number is right.\<close>

lemma receive_type_inv:
  assumes "accept_inv A magic ty (sk, s)" "sk_state sk = ncclSocketStateAccepted" "8 \<le> sk_finalizeCounter sk" "receive_type (sk, s) = Some (t, sk', s')"
  shows "case t of Inl r \<Rightarrow> nccl_ok r \<longrightarrow> accept_inv A magic ty (sk', s')
    | Inr v \<Rightarrow> (v = type_code ty \<longrightarrow> accept_inv A magic ty (sk'\<lparr> sk_state := ncclSocketStateReady \<rparr>, s')) \<and> accept_inv A magic ty (ncclOsSocketResetAccept (sk', s'))
        \<and> sk_type sk' = ty"
proof -
  note base = reading_inv [OF assms(1,2)]
  from base(6) assms(3) obtain S c where c: "from_peer A sk S" "sk_finalizeCounter sk = int c" "8 \<le> c" "c < 12" "c \<le> length S" "st_in s = drop c S"
      "take 8 S = le_bytes 8 magic" "take (c - 8) (sk_finalizeBuffer sk) = take (c - 8) (drop 8 S)"
    by (auto simp: reading_def base(1))
  obtain r cl x where p: "socketProgress NCCL_SOCKET_RECV sk False type_size (xfer_of (sk_finalizeBuffer sk) (int c - int 8) s) = Some ((r, cl), x)"
    using assms(4) base(3) c(2) by (auto simp: receive_type_def split: option.splits)
  obtain k where k: "c \<le> k" "k \<le> length S" "st_in (xf_st x) = drop k S" "xf_off x = int (k - 8)" "int (k - 8) \<le> type_size" "take (k - 8) (xf_buf x) = take (k - 8) (drop 8 S)"
      "length (xf_buf x) = length (sk_finalizeBuffer sk)" "os_accept (xf_st x) = os_accept s"
    by (rule announcement_step [OF p c(6,5,3,8)])
  let ?sk = "sk\<lparr> sk_finalizeBuffer := xf_buf x, sk_finalizeCounter := xf_off x + magic_size \<rparr>"
  have t: "(t, sk', s') = (if \<not> nccl_ok r then (Inl r, sk\<lparr> sk_finalizeBuffer := xf_buf x \<rparr>, xf_st x)
      else (if xf_off x < type_size then Inl ncclSuccess else Inr (of_le (take 4 (xf_buf x))), ?sk, xf_st x))"
    using assms(4) base(3) p by (simp add: receive_type_def Let_def c(2) split: if_splits)
  have fp: "from_peer A ?sk S" "from_peer A (?sk\<lparr> sk_state := q \<rparr>) S" for q using c(1) by (auto simp: from_peer_def)
  show ?thesis
  proof (cases "nccl_ok r"; cases "k < 12")
    assume "\<not> nccl_ok r"
    then show ?thesis using t by simp
  next
    assume "\<not> nccl_ok r"
    then show ?thesis using t by simp
  next
    assume ok: "nccl_ok r" and lt: "k < 12"
    have "xf_off x < type_size" using k(1,4) c(3) lt by simp
    then have part: "k < 12" "t = Inl ncclSuccess" "sk' = ?sk" "s' = xf_st x" using t ok lt by simp_all
    have "reading A ?sk (xf_st x)" unfolding reading_def using fp(1) k c part(1) by (intro exI [of _ S] exI [of _ k]) (auto simp: base(1))
    then show ?thesis using part base k(7,8) assms(2) by (simp add: accept_inv_def)
  next
    assume ok: "nccl_ok r" and "\<not> k < 12"
    then have off: "k = 12" "\<not> xf_off x < type_size" using k(4,5) by simp_all
    then have all: "k = 12" "t = Inr (of_le (take 4 (xf_buf x)))" "sk' = ?sk" "s' = xf_st x" using t ok by simp_all
    have S: "S = take 8 S @ take 4 (drop 8 S) @ drop 12 S" using append_take_drop_id [of 4 "drop 8 S"] append_take_drop_id [of 8 S] by simp
    have "le_bytes 4 (of_le (take 4 (xf_buf x)) :: u32) = take 4 (drop 8 S)" using le_bytes_of_le [of "take 4 (xf_buf x)", where 'a = 32] k(6,7) all(1) base(4) by simp
    then have "of_le (take 4 (xf_buf x)) = type_code ty \<longrightarrow> S = le_bytes 8 magic @ le_bytes 4 (type_code ty) @ st_in (xf_st x)" using S c(7) k(3) all(1) by auto
    then have "of_le (take 4 (xf_buf x)) = type_code ty \<longrightarrow> announced_peer A (?sk\<lparr> sk_state := ncclSocketStateReady \<rparr>) (xf_st x)"
      using fp(2) by (auto simp: announced_peer_def base(1,2))
    moreover have "accept_inv A magic ty (ncclOsSocketResetAccept (?sk, xf_st x))" by (rule reset_accept_inv) (use base k(7,8) in auto)
    ultimately show ?thesis using all base k(7,8) by (simp add: accept_inv_def)
  qed
qed

lemma receive_magic_inv:
  assumes "accept_inv A magic ty (sk, s)" "sk_state sk = ncclSocketStateAccepted" "sk_finalizeCounter sk < 8" "receive_magic (sk, s) = Some (t, sk', s')"
  shows "case t of Inl r \<Rightarrow> nccl_ok r \<longrightarrow> accept_inv A magic ty (sk', s')
    | Inr v \<Rightarrow> (v = magic \<longrightarrow> accept_inv A magic ty (sk', s') \<and> sk_state sk' = ncclSocketStateAccepted \<and> 8 \<le> sk_finalizeCounter sk') \<and> accept_inv A magic ty (ncclOsSocketResetAccept (sk', s'))
        \<and> sk_magic sk' = magic"
proof -
  note base = reading_inv [OF assms(1,2)]
  from base(6) assms(3) obtain S c where c: "from_peer A sk S" "sk_finalizeCounter sk = int c" "c < 8" "c \<le> length S" "st_in s = drop c S" "take c (sk_finalizeBuffer sk) = take c S"
    by (auto simp: reading_def base(1))
  obtain r cl x where p: "socketProgress NCCL_SOCKET_RECV sk True magic_size (xfer_of (sk_finalizeBuffer sk) (int c - int 0) s) = Some ((r, cl), x)"
    using assms(4) base(3) c(2) by (auto simp: receive_magic_def split: option.splits)
  have "take (c - 0) (sk_finalizeBuffer sk) = take (c - 0) (drop 0 S)" using c(6) by simp
  then obtain k where k: "c \<le> k" "k \<le> length S" "st_in (xf_st x) = drop k S" "xf_off x = int (k - 0)" "int (k - 0) \<le> magic_size" "take (k - 0) (xf_buf x) = take (k - 0) (drop 0 S)"
      "length (xf_buf x) = length (sk_finalizeBuffer sk)" "os_accept (xf_st x) = os_accept s"
    by (rule announcement_step [OF p c(5,4) le0])
  let ?sk = "sk\<lparr> sk_finalizeBuffer := xf_buf x, sk_finalizeCounter := xf_off x \<rparr>"
  have t: "(t, sk', s') = (if \<not> nccl_ok r then (Inl r, sk\<lparr> sk_finalizeBuffer := xf_buf x \<rparr>, xf_st x)
      else if xf_off x < magic_size then (Inl ncclSuccess, if cl then ncclOsSocketResetAccept (?sk, xf_st x) else (?sk, xf_st x)) else (Inr (of_le (take 8 (xf_buf x))), ?sk, xf_st x))"
    using assms(4) base(3) p by (simp add: receive_magic_def Let_def c(2) split: if_splits)
  have fp: "from_peer A ?sk S" using c(1) by (auto simp: from_peer_def)
  have reset: "accept_inv A magic ty (ncclOsSocketResetAccept (?sk, xf_st x))" by (rule reset_accept_inv) (use base k(7,8) in auto)
  show ?thesis
  proof (cases "nccl_ok r"; cases "k < 8")
    assume "\<not> nccl_ok r"
    then show ?thesis using t by simp
  next
    assume "\<not> nccl_ok r"
    then show ?thesis using t by simp
  next
    assume ok: "nccl_ok r" and lt: "k < 8"
    then have part: "k < 8" "t = Inl ncclSuccess" "(sk', s') = (if cl then ncclOsSocketResetAccept (?sk, xf_st x) else (?sk, xf_st x))" using t k(4) by simp_all
    have "reading A ?sk (xf_st x)" unfolding reading_def using fp k part(1) by (intro exI [of _ S] exI [of _ k]) auto
    then have "accept_inv A magic ty (?sk, xf_st x)" using base k(7,8) assms(2) by (simp add: accept_inv_def)
    then show ?thesis using part reset by (auto split: if_splits)
  next
    assume ok: "nccl_ok r" and "\<not> k < 8"
    then have off: "k = 8" "\<not> xf_off x < magic_size" using k(4,5) by simp_all
    then have all: "k = 8" "t = Inr (of_le (take 8 (xf_buf x)))" "sk' = ?sk" "s' = xf_st x" using t ok by simp_all
    have "le_bytes 8 (of_le (take 8 (xf_buf x)) :: u64) = take 8 S" using le_bytes_of_le [of "take 8 (xf_buf x)", where 'a = 64] k(6,7) all(1) base(4) by simp
    then have "of_le (take 8 (xf_buf x)) = magic \<longrightarrow> reading A ?sk (xf_st x)" unfolding reading_def using fp k all(1) by (auto simp: base(1) intro!: exI [of _ S] exI [of _ "8 :: nat"])
    then show ?thesis using all base k(4,7,8) reset assms(2) by (simp add: accept_inv_def)
  qed
qed

lemma type_step_inv:
  assumes "accept_inv A magic ty (sk, s)" "sk_state sk = ncclSocketStateAccepted" "8 \<le> sk_finalizeCounter sk" "nccl_ok r"
    and "deref (receive_type (sk, s)) (\<lambda>(t, sk2, s2).
      case t of
        Inl r \<Rightarrow> ret r (sk2, s2)
      | Inr v \<Rightarrow> if v \<noteq> type_code (sk_type sk2) then ret ncclSuccess (ncclOsSocketResetAccept (sk2, s2)) else ret ncclSuccess (sk2\<lparr> sk_state := ncclSocketStateReady \<rparr>, s2)) = Some (r, st')"
  shows "accept_inv A magic ty st'"
proof -
  obtain t sk2 s2 where t: "receive_type (sk, s) = Some (t, sk2, s2)" using assms(5) by (auto simp: deref_def split: option.splits)
  show ?thesis using receive_type_inv [OF assms(1,2,3) t] assms(4,5) t by (cases t) (auto split: if_splits)
qed

lemma finalize_accept_inv:
  assumes "accept_inv A magic ty st" "sk_state (fst st) = ncclSocketStateAccepted" "socketFinalizeAccept p st = Some (r, st')" "nccl_ok r"
  shows "accept_inv A magic ty st'"
proof -
  obtain sk s where st: "st = (sk, s)" by fastforce
  obtain q s1 where f: "ncclOsSocketSetFlags p sk s = (q, s1)" by fastforce
  have acc: "sk_state sk = ncclSocketStateAccepted" using assms(2) st by simp
  have inv: "accept_inv A magic ty (sk, s1)"
    using assms(1) st acc set_flags_accept [OF f] by (auto simp: accept_inv_def reading_def)
  note b = reading_inv [OF inv acc]
  show ?thesis
  proof (cases "nccl_ok q")
    case False
    then show ?thesis using assms(3,4) st f by (auto simp: socketFinalizeAccept_def)
  next
    case ok: True
    show ?thesis
    proof (cases "sk_finalizeCounter sk < 8")
      case False
      then show ?thesis using type_step_inv [OF inv acc _ assms(4), of st'] assms(3) st f ok b(3) by (simp add: socketFinalizeAccept_def Let_def)
    next
      case True
      obtain t sk2 s2 where t: "receive_magic (sk, s1) = Some (t, sk2, s2)" using assms(3) st f ok True by (auto simp: socketFinalizeAccept_def Let_def deref_def split: option.splits)
      note m = receive_magic_inv [OF inv acc True t]
      show ?thesis
      proof (cases t)
        case (Inl e)
        then show ?thesis using m assms(3,4) st f ok True t b(3) by (auto simp: socketFinalizeAccept_def)
      next
        case (Inr v)
        then show ?thesis using m assms(3) st f ok True t b(3) type_step_inv [of A magic ty sk2 s2 r st', OF _ _ _ assms(4)]
          by (cases "v = magic") (auto simp: socketFinalizeAccept_def Let_def)
      qed
    qed
  qed
qed

lemma progress_state_inv:
  assumes "accept_inv A magic ty st" "socketProgressState p st = Some (r, st')" "nccl_ok r"
  shows "accept_inv A magic ty st'"
proof -
  have other: "sk_state (fst s) \<notin> {ncclSocketStateConnecting, ncclSocketStateConnectPolling, ncclSocketStateConnected}" if "accept_inv A magic ty s" for s
    using that by (auto simp: accept_inv_def)
  obtain r1 s1 where 1: "when_state ncclSocketStateAccepting (\<lambda>st. Some (ncclOsSocketTryAccept p st)) st = Some (r1, s1)"
    using that by (cases "sk_state (fst st) = ncclSocketStateAccepting"; cases "ncclOsSocketTryAccept p st") (auto simp: when_state_def ret_def)
  have ok1: "nccl_ok r1" using assms(2,3) 1 by (auto simp: socketProgressState_def chk_Some split: if_splits)
  have i1: "accept_inv A magic ty s1" using 1 assms(1) try_accept_inv [OF assms(1), of p r1 s1] by (auto simp: when_state_def split: if_splits)
  obtain r2 s2 where 2: "when_state ncclSocketStateAccepted (socketFinalizeAccept p) s1 = Some (r2, s2)" and ok2: "nccl_ok r2"
    using assms(2,3) 1 ok1 by (cases "when_state ncclSocketStateAccepted (socketFinalizeAccept p) s1") (auto simp: socketProgressState_def chk_Some split: if_splits)
  have i2: "accept_inv A magic ty s2" using 2 i1 finalize_accept_inv [OF i1 _ _ ok2] by (auto simp: when_state_def split: if_splits)
  show ?thesis using assms(2) 1 ok1 2 ok2 other [OF i2] i2 by (simp add: socketProgressState_def chk_Some when_state_def)
qed

text \<open>Calls of \<open>ncclSocketReady\<close>, each reporting success.\<close>

fun ready_calls :: "sock_params \<Rightarrow> nat \<Rightarrow> sock_st \<Rightarrow> sock_st option" where
  "ready_calls p 0 st = Some st"
| "ready_calls p (Suc n) st = (case ncclSocketReady p st of None \<Rightarrow> None | Some ((r, running), st1) \<Rightarrow> if nccl_ok r then ready_calls p n st1 else None)"

lemma ready_inv:
  assumes "accept_inv A magic ty st" "ncclSocketReady p st = Some ((r, running), st')" "nccl_ok r"
  shows "accept_inv A magic ty st'"
proof -
  obtain sk s where st: "st = (sk, s)" by fastforce
  show ?thesis
  proof (cases "sk_state sk = ncclSocketStateReady")
    case True
    then show ?thesis using assms st by (auto simp: ncclSocketReady_def)
  next
    case False
    obtain r1 sk1 s1 where p: "socketProgressState p st = Some (r1, sk1, s1)" and ok: "nccl_ok r1"
      using assms(2,3) False st by (auto simp: ncclSocketReady_def deref_def nccl_ok_def split: if_splits option.splits)
    have "accept_inv A magic ty (sk1, s1)" by (rule progress_state_inv [OF assms(1) p ok])
    moreover have "\<not> nccl_ok ncclRemoteError" by (simp add: nccl_ok_def)
    ultimately show ?thesis using assms(2,3) False st p ok by (auto simp: ncclSocketReady_def Let_def accept_inv_def split: if_splits)
  qed
qed

lemma ready_calls_inv: "accept_inv A magic ty st \<Longrightarrow> ready_calls p n st = Some st' \<Longrightarrow> accept_inv A magic ty st'"
  by (induction n arbitrary: st) (auto split: option.splits if_splits dest: ready_inv)

text \<open>C17 A connection is only accepted from a peer that announces itself as it must. However often the calls are interrupted and however many other peers connect before, when an accepting socket
  becomes ready its connection is one the system delivered, the first twelve bytes of that peer were the magic number and the type of the socket, and the next byte to be read is the one that follows them.\<close>

theorem accepted_peer_announced:
  assumes "ready_calls p n (sk, s) = Some (sk', s')" and "sk_state sk = ncclSocketStateAccepting" and "sk_asyncFlag sk \<noteq> 0" and "sk_finalizeCounter sk = 0"
    and "length (sk_finalizeBuffer sk) = 8" and "sk_state sk' = ncclSocketStateReady"
  shows "\<exists>fd addr. sk_fd sk' = int fd \<and> Inr (fd, addr, le_bytes 8 (sk_magic sk) @ le_bytes 4 (type_code (sk_type sk)) @ st_in s') \<in> set (os_accept s)"
proof -
  have "accept_inv (set (os_accept s)) (sk_magic sk) (sk_type sk) (sk, s)" using assms by (simp add: accept_inv_def)
  from ready_calls_inv [OF this assms(1)] have "announced_peer (set (os_accept s)) sk' s'" "sk_magic sk' = sk_magic sk" "sk_type sk' = sk_type sk"
    using assms(6) by (auto simp: accept_inv_def)
  then show ?thesis by (auto simp: announced_peer_def from_peer_def)
qed

definition demo_listener :: ncclSocket where
  "demo_listener = demo_socket\<lparr> sk_fd := 3, sk_acceptFd := 3, sk_state := ncclSocketStateAccepting, sk_magic := 0x0102030405060708 \<rparr>"

text \<open>The first peer announces another magic number and is dropped.\<close>

definition demo_os :: "u8 sock_os" where
  "demo_os = \<lparr> st_in = [], st_out = [], st_io = [Io_move 9, Io_move 3, Io_errno EAGAIN, Io_move 8, Io_move 3, Io_move 9], st_abort = [],
     os_accept = [Inr (7, zero_addr, [9, 9, 9, 9, 9, 9, 9, 9]), Inr (8, zero_addr, [8, 7, 6, 5, 4, 3, 2, 1, 4, 0, 0, 0, 42])], os_connect = [], os_poll = [], os_socket = [], os_sys = [], os_closed = [] \<rparr>"

definition demo_sock_params :: sock_params where
  "demo_sock_params = \<lparr> RetryCnt = 34, SocketMaxRecvBuff = - 1, SocketMaxSendBuff = - 1 \<rparr>"

theorem accepted_peer_announced_witness:
  "\<exists>fd addr. Inr (fd, addr, le_bytes 8 (0x0102030405060708 :: u64) @ le_bytes 4 (4 :: u32) @ [42]) \<in> set (os_accept demo_os)"
proof -
  let ?r = "ready_calls demo_sock_params 5 (demo_listener, demo_os)"
  have "map_option (\<lambda>(sk, s). (sk_state sk, st_in s)) ?r = Some (ncclSocketStateReady, [42])" by code_simp
  then obtain sk s where r: "?r = Some (sk, s)" "sk_state sk = ncclSocketStateReady" "st_in s = [42]" by auto
  show ?thesis using accepted_peer_announced [OF r(1) _ _ _ _ r(2)] r(3) by (auto simp: demo_listener_def demo_socket_def)
qed

end
