(* ===== verification/NetIb_Handshake.thy ===== *)
theory NetIb_Handshake
  imports NetIb_Connect Net_Socket_State
begin

text \<open>
  The connection handshake of \<open>net/transport/net_ib/connect.cc\<close>: \<open>ncclIbConnectImpl\<close> and \<open>ncclIbAcceptImpl\<close>.

  NCCL calls each of them until it returns a communicator. A call resumes at the stage noted in the handle (or in the listening communicator), moves what the socket lets it move, and returns when
  the socket would block. The code jumps to a label for the stage and falls through from label to label: here each part from one label to the next is a function (\<open>c_check\<close>, \<open>c_send_devs\<close>, \<dots>,
  \<open>a_recv_ready\<close>), and a call runs the parts from its stage on. A part ends with a \<open>flow\<close>: it falls through (\<open>Go\<close>), returns with the stage kept (\<open>Stop\<close>, also for the errors of
  \<open>NCCLCHECK\<close>), or jumps to the clean-up (\<open>Fail\<close>, for \<open>NCCLCHECKGOTO\<close>).

  A message travels as its bytes: \<open>(m, i)\<close> is byte \<open>i\<close> of the message \<open>m\<close>, so that a buffer that was filled in several calls can be read back only when it holds all bytes of one message. The
  sizes of the structures are parameters. What the libraries return during a call is the record \<open>hs_env\<close>; an object the allocator returns is zeroed memory and an argument, as are the socket calls that
  open the connection. The layout of a communicator is that of \<open>ncclIbSendComm\<close> and \<open>ncclIbRecvComm\<close> with the members those records leave out.
\<close>

unbundle bit_operations_syntax

section \<open>Messages and stages\<close>

datatype stage_msg = Zeroed | Dev_list ncclNetVDeviceProps bool | Metadata ncclIbConnectionMetadata | Ready_flag int

type_synonym wire = "stage_msg \<times> nat"

definition encode :: "nat \<Rightarrow> stage_msg \<Rightarrow> wire list" where
  "encode n m = map (\<lambda>i. (m, i)) [0..<n]"

definition decode :: "nat \<Rightarrow> wire list \<Rightarrow> stage_msg option" where
  "decode n bs = (case bs of [] \<Rightarrow> None | (m, i) # _ \<Rightarrow> if take n bs = encode n m then Some m else None)"

datatype ncclIbCommState = ncclIbCommStateStart | ncclIbCommStateConnect | ncclIbCommStateAccept | ncclIbCommStateSend | ncclIbCommStateRecv | ncclIbCommStateConnecting
  | ncclIbCommStateConnected | ncclIbCommStatePendingReady | ncclIbCommStateSendDevList | ncclIbCommStateRecvDevList

section \<open>State\<close>

text \<open>The process: its devices and merged devices, and the calls that changed queue pairs.\<close>

record ib_process =
  pr_glob :: ib_globals
  pr_merged :: "ncclIbMergedDev list"
  pr_log :: qp_log

text \<open>A call: the stage, the communicator it points to, the process, the connection, and the merged device (of \<open>lComm\<close> when accepting).\<close>

record 'c hs_call =
  hc_state :: ncclIbCommState
  hc_offset :: int
  hc_buffer :: "wire list option"
  hc_comm :: "'c option"
  hc_proc :: ib_process
  hc_st :: "wire stream"
  hc_dev :: int

record send_dev_mrs =
  sm_scratchpad :: "ibv_mr option"
  sm_ctsFifo :: "ibv_mr option"
  sm_cmplsRecords :: "ibv_mr option"

record send_conn =
  sn_comm :: ncclIbSendComm
  sn_res :: ncclIbResiliencySend
  sn_sock :: ncclSocket
  sn_mrs :: "send_dev_mrs list"
  sn_remoteSpeedMr :: "ibv_mr option"

record recv_dev_mrs =
  rdm_ctsFifo :: "ibv_mr option"
  rdm_cmplsRecords :: "ibv_mr option"
  rdm_speedUpdate :: "ibv_mr option"
  rdm_flushQp :: ncclIbQp
  rdm_flushHost :: "ibv_mr option"

record recv_conn =
  rn_comm :: ncclIbRecvComm
  rn_res :: ncclIbResiliency
  rn_sock :: ncclSocket
  rn_mrs :: "recv_dev_mrs list"
  rn_flushSl :: int
  rn_flushTc :: int
  rn_ctsRkeys :: "u32 list"
  rn_readyBytes :: "wire list"
  rn_posted :: "nat list"

datatype cq_use = Data_cq | Probing_cq | Recovery_cq

datatype mr_use = Scratchpad_mr | CtsFifo_mr | RemoteSpeed_mr | CmplsRecords_mr | SpeedUpdate_mr | Probing_mr | FlushHost_mr

record hs_params =
  hp_qp :: qp_params
  hp_ib :: ib_params
  hp_gid :: gid_params
  IbSubnetAwareRouting :: int
  IbSl :: int
  IbGdrFlushDisable :: int
  IbWarnRailLocal :: int
  IbQpsPerConn :: int
  IbTc :: int
  sz_devs :: nat
  sz_meta :: nat

record 'c hs_env =
  he_comm :: "'c option"
  he_buffer :: bool
  he_stage :: bool
  he_resiliency :: ncclResult
  he_threadActive :: bool
  he_sock_init :: "ncclResult \<times> ncclSocket"
  he_open :: "ncclSocket \<Rightarrow> ncclResult \<times> ncclSocket"
  he_ready :: "ncclSocket \<Rightarrow> ncclResult \<times> bool \<times> ncclSocket"
  he_qp :: qp_env
  he_gid :: "int \<Rightarrow> gid_env"
  he_alloc_pd :: "int \<Rightarrow> ncclResult \<times> nat"
  he_mrc_cq :: "int \<Rightarrow> int \<Rightarrow> ncclResult \<times> nat"
  he_cq :: "cq_use \<Rightarrow> int \<Rightarrow> int \<Rightarrow> ncclResult \<times> nat"
  he_reg_mr :: "mr_use \<Rightarrow> nat \<Rightarrow> ncclResult \<times> ibv_mr"
  he_addr :: "mr_use \<Rightarrow> u64"
  he_rec :: rec_env
  he_gdr :: "ncclResult"
  he_dmabuf :: "int \<Rightarrow> ncclResult"

section \<open>Control flow\<close>

datatype flow = Go | Stop ncclResult | Fail ncclResult

definition go :: "'s \<Rightarrow> (flow \<times> 's) option" where "go s = Some (Go, s)"

definition andthen :: "(flow \<times> 's) option \<Rightarrow> ('s \<Rightarrow> (flow \<times> 's) option) \<Rightarrow> (flow \<times> 's) option" where
  "andthen c k = (case c of None \<Rightarrow> None | Some (f, s) \<Rightarrow> if f = Go then k s else Some (f, s))"

text \<open>\<open>NCCLCHECK\<close> with \<open>Stop\<close>, \<open>NCCLCHECKGOTO\<close> with \<open>Fail\<close>.\<close>

definition check :: "(ncclResult \<Rightarrow> flow) \<Rightarrow> 's outcome \<Rightarrow> (flow \<times> 's) option" where
  "check err c = (case c of None \<Rightarrow> None | Some (r, s) \<Rightarrow> Some (if nccl_ok r then Go else err r, s))"

text \<open>\<open>NCCLCHECK\<close> of a library call with its value.\<close>

definition called :: "ncclResult \<times> 'a \<Rightarrow> 's \<Rightarrow> ('a \<Rightarrow> 's outcome) \<Rightarrow> 's outcome" where
  "called c s k = (if nccl_ok (fst c) then k (snd c) else ret (fst c) s)"

fun each :: "(nat \<Rightarrow> 's \<Rightarrow> (flow \<times> 's) option) \<Rightarrow> nat list \<Rightarrow> 's \<Rightarrow> (flow \<times> 's) option" where
  "each f [] s = go s"
| "each f (i # ix) s = andthen (f i s) (each f ix)"

fun run_parts :: "('s \<Rightarrow> (flow \<times> 's) option) list \<Rightarrow> 's \<Rightarrow> (flow \<times> 's) option" where
  "run_parts [] s = go s"
| "run_parts (f # fs) s = andthen (f s) (run_parts fs)"

definition with_comm :: "'c hs_call \<Rightarrow> ('c \<Rightarrow> (flow \<times> 'c hs_call) option) \<Rightarrow> (flow \<times> 'c hs_call) option" where
  "with_comm c k = deref (hc_comm c) k"

definition set_comm :: "'c \<Rightarrow> 'c hs_call \<Rightarrow> 'c hs_call" where
  "set_comm x c = c\<lparr> hc_comm := Some x \<rparr>"

definition set_stage :: "ncclIbCommState \<Rightarrow> 'c hs_call \<Rightarrow> 'c hs_call" where
  "set_stage s c = c\<lparr> hc_state := s, hc_offset := 0 \<rparr>"

text \<open>\<open>ncclSocketProgress\<close> on a buffer: an error leaves by \<open>err\<close>, and a transfer that is not complete returns. \<open>transfer\<close> is on the staging buffer.\<close>

definition transfer_on :: "sock_op \<Rightarrow> (ncclResult \<Rightarrow> flow) \<Rightarrow> nat \<Rightarrow> ncclSocket \<Rightarrow> wire list \<Rightarrow> 'c hs_call \<Rightarrow> (flow \<times> wire list \<times> 'c hs_call) option" where
  "transfer_on op err n sk buf c =
     deref (ncclSocketProgress op (Some sk) False (int n) \<lparr> xf_buf = buf, xf_off = hc_offset c, xf_st = hc_st c \<rparr>) (\<lambda>((r, _), x).
       Some (if \<not> nccl_ok r then err r else if xf_off x \<noteq> int n then Stop ncclSuccess else Go, xf_buf x, c\<lparr> hc_offset := xf_off x, hc_st := xf_st x \<rparr>))"

definition transfer :: "sock_op \<Rightarrow> (ncclResult \<Rightarrow> flow) \<Rightarrow> nat \<Rightarrow> ncclSocket \<Rightarrow> 'c hs_call \<Rightarrow> (flow \<times> 'c hs_call) option" where
  "transfer op err n sk c = deref (hc_buffer c) (\<lambda>buf. map_option (\<lambda>(fl, buf1, c1). (fl, c1\<lparr> hc_buffer := Some buf1 \<rparr>)) (transfer_on op err n sk buf c))"

text \<open>\<open>memcpy\<close> between the staging buffer and a message.\<close>

definition store :: "nat \<Rightarrow> stage_msg \<Rightarrow> 'c hs_call \<Rightarrow> 'c hs_call" where
  "store n m c = c\<lparr> hc_buffer := map_option (\<lambda>buf. write_at buf 0 (encode n m)) (hc_buffer c) \<rparr>"

definition stored :: "nat \<Rightarrow> 'c hs_call \<Rightarrow> stage_msg option" where
  "stored n c = deref (hc_buffer c) (decode n)"

definition stored_devs :: "nat \<Rightarrow> 'c hs_call \<Rightarrow> (ncclNetVDeviceProps \<times> bool) option" where
  "stored_devs n c = deref (stored n c) (\<lambda>m. case m of Dev_list v o' \<Rightarrow> Some (v, o') | _ \<Rightarrow> None)"

definition stored_meta :: "nat \<Rightarrow> 'c hs_call \<Rightarrow> ncclIbConnectionMetadata option" where
  "stored_meta n c = deref (stored n c) (\<lambda>m. case m of Metadata x \<Rightarrow> Some x | _ \<Rightarrow> None)"

section \<open>Devices of a communicator\<close>

text \<open>\<open>ncclIbInitCommDevBase\<close>. The reference on the protection domain is counted before it is allocated.\<close>

definition ncclIbInitCommDevBase :: "gid_params \<Rightarrow> 'c hs_env \<Rightarrow> int \<Rightarrow> int \<Rightarrow> ncclIbNetCommDevBase \<times> ncclIbDev \<Rightarrow> (ncclIbNetCommDevBase \<times> ncclIbDev) outcome" where
  "ncclIbInitCommDevBase gp e n cqSize s =
     (case s of (base0, dev) \<Rightarrow>
      let base = base0\<lparr> ibDevN := n \<rparr>; dev1 = dev\<lparr> dev_pdRefs := dev_pdRefs dev + 1 \<rparr> in
      chk (if dev_pdRefs dev = 0 then called (he_alloc_pd e n) (base, dev1) (\<lambda>pd. ret ncclSuccess (base, dev1\<lparr> dev_pd := Some pd \<rparr>)) else ret ncclSuccess (base, dev1)) (\<lambda>(base, dev).
      let base1 = ncclIbGidInfoSnapshot (base\<lparr> db_pd := (case dev_pd dev of None \<Rightarrow> 0 | Some pd \<Rightarrow> pd) \<rparr>) dev in
      called (he_mrc_cq e n cqSize) (base1, dev) (\<lambda>cq. let base2 = base1\<lparr> db_mrcCq := cq \<rparr> in
      called (he_cq e Data_cq n cqSize) (base2, dev) (\<lambda>cq. let base3 = base2\<lparr> db_cq := cq \<rparr> in
        case ncclIbGetPkeyIndex gp (he_gid e n) (dev_portAttr dev) of
          Inl r \<Rightarrow> ret r (base3, dev)
        | Inr k \<Rightarrow> ret ncclSuccess (base3\<lparr> pkeyIndex := k \<rparr>, dev)))))"

definition upd_res_dev :: "nat \<Rightarrow> (ncclIbResiliencyDev \<Rightarrow> ncclIbResiliencyDev) \<Rightarrow> ncclIbResiliency \<Rightarrow> ncclIbResiliency" where
  "upd_res_dev i f ctx = ctx\<lparr> res_devs := (res_devs ctx)[i := f (res_devs ctx ! i)] \<rparr>"

definition ncclIbPortRecoveryDevInit :: "'c hs_env \<Rightarrow> int \<Rightarrow> nat \<Rightarrow> ncclIbResiliency \<Rightarrow> ncclIbResiliency outcome" where
  "ncclIbPortRecoveryDevInit e n i ctx =
     (if \<not> recoveryEnabled ctx then ret ncclInternalError ctx
      else called (he_cq e Recovery_cq n (int PORT_RECOVERY_CQ_SIZE)) ctx (\<lambda>cq. ret ncclSuccess (upd_res_dev i (\<lambda>d. d\<lparr> rd_portRecoveryCq := cq \<rparr>) ctx)))"

definition ncclIbResiliencyDevInit :: "'c hs_env \<Rightarrow> bool \<Rightarrow> nat \<Rightarrow> int \<Rightarrow> nat \<Rightarrow> ncclIbResiliency \<Rightarrow> ncclIbResiliency outcome" where
  "ncclIbResiliencyDevInit e sending pd n i ctx =
     (if (word_of_int (res_ndevs ctx) :: u32) \<le> word_of_nat i then ret ncclInternalError ctx
      else if length (res_devs ctx) \<le> i then None
      else
       (let ctx1 = upd_res_dev i (\<lambda>d. d\<lparr> rd_state := DevStateOk \<rparr>) ctx in
        chk (if sending then called (he_reg_mr e Probing_mr pd) ctx1 (\<lambda>mr. ret ncclSuccess (upd_res_dev i (\<lambda>d. d\<lparr> probingResultMr := mr \<rparr>) ctx1)) else ret ncclSuccess ctx1) (\<lambda>ctx.
        called (he_cq e Probing_cq n (if sending then int NET_IB_MAX_REQUESTS else 1)) ctx (\<lambda>cq.
          let ctx1 = upd_res_dev i (\<lambda>d. d\<lparr> rd_probingCq := cq \<rparr>) ctx in
          if recoveryEnabled ctx1 then ncclIbPortRecoveryDevInit e n i ctx1 else ret ncclSuccess ctx1))))"

text \<open>The loop over the devices, the same on both sides but for the size of the completion queue and the check of the link layer.\<close>

definition init_device :: "gid_params \<Rightarrow> 'c hs_env \<Rightarrow> int \<Rightarrow> nat \<Rightarrow> conn_setup \<Rightarrow> conn_setup outcome" where
  "init_device gp e cqSize i cs =
     (let b = cs_base cs in
      deref (at (devs (vProps b)) (int i)) (\<lambda>n. deref (at (cs_devs cs) n) (\<lambda>dev. deref (at (cs_dbs cs) (int i)) (\<lambda>db.
        case (if resiliency b then ncclIbResiliencyDataCqSizeGet \<lparr> r_ctx = cs_res cs, r_base = b \<rparr> else Inr cqSize) of
          Inl r \<Rightarrow> ret r cs
        | Inr sz \<Rightarrow>
            chk (map_option (\<lambda>(r, db1, dev1). (r, cs\<lparr> cs_dbs := (cs_dbs cs)[i := db1], cs_devs := (cs_devs cs)[nat n := dev1] \<rparr>)) (ncclIbInitCommDevBase gp e n sz (db, dev))) (\<lambda>cs.
              if resiliency b then map_option (\<lambda>(r, ctx). (r, cs\<lparr> cs_res := ctx \<rparr>)) (ncclIbResiliencyDevInit e (isSend b) (db_pd (cs_dbs cs ! i)) n i (cs_res cs))
              else ret ncclSuccess cs)))))"

text \<open>Whether all devices of a merged device have an out-of-order receive queue; the loop does not look at the devices after one that has none.\<close>

fun all_ooo :: "ncclIbDev list \<Rightarrow> int list \<Rightarrow> bool option" where
  "all_ooo ds [] = Some True"
| "all_ooo ds (n # ns) = deref (at ds n) (\<lambda>d. if dev_oooRqSize d = 0 then Some False else all_ooo ds ns)"

definition dev_numbers :: "ncclNetVDeviceProps \<Rightarrow> int list option" where
  "dev_numbers v = (if ndevs v \<le> int (length (devs v)) then Some (take (nat (ndevs v)) (devs v)) else None)"

section \<open>Local state of a call\<close>

definition zero_info :: ncclIbQpInfo where
  "zero_info = \<lparr> qi_qpn = 0, qi_ece = 0, qi_ece_supported = 0, qi_devIndex = 0 \<rparr>"

definition zero_meta :: ncclIbConnectionMetadata where
  "zero_meta = \<lparr> cm_qpInfo = replicate NCCL_IB_MAX_QPS zero_info,
     cm_resiliencyInfo = \<lparr> probingQpsInfo = replicate NCCL_IB_MAX_DEVS_PER_NIC zero_info, portRecoveryQpsInfo = replicate NCCL_IB_MAX_DEVS_PER_NIC zero_info \<rparr>,
     cm_devs = replicate NCCL_IB_MAX_DEVS_PER_NIC zero_devInfo, cm_devName = [], cm_addr = 0, cm_remSpeedBufAddr = 0, cm_remSpeedBufRkey = 0, cm_ndevs = 0, cm_tc = 0, cm_sl = 0 \<rparr>"

text \<open>The metadata under construction and the link layer seen so far.\<close>

record 'c local_st =
  lo_call :: "'c hs_call"
  lo_meta :: ncclIbConnectionMetadata
  lo_link :: link_layer

definition MAX_MERGED_DEV_NAME :: nat where "MAX_MERGED_DEV_NAME = 520"

definition set_meta_dev :: "nat \<Rightarrow> ncclIbDevInfo \<Rightarrow> 'c local_st \<Rightarrow> 'c local_st" where
  "set_meta_dev i d l = l\<lparr> lo_meta := (lo_meta l)\<lparr> cm_devs := (cm_devs (lo_meta l))[i := d] \<rparr> \<rparr>"

text \<open>Devices of different link types cannot be used together.\<close>

definition check_link :: "link_layer \<Rightarrow> 'c local_st \<Rightarrow> (flow \<times> 'c local_st) option" where
  "check_link ll l =
     (let l1 = (if lo_link l = LINK_UNSPECIFIED then l\<lparr> lo_link := ll \<rparr> else l) in Some (if lo_link l1 \<noteq> ll then Stop ncclInternalError else Go, l1))"

definition put_proc :: "conn_setup \<Rightarrow> ib_process \<Rightarrow> ib_process" where
  "put_proc cs pr = pr\<lparr> pr_glob := (pr_glob pr)\<lparr> ncclIbDevs := cs_devs cs \<rparr>, pr_log := cs_log cs \<rparr>"

definition reg_mr :: "'c hs_env \<Rightarrow> mr_use \<Rightarrow> nat \<Rightarrow> 's \<Rightarrow> (ibv_mr \<Rightarrow> (flow \<times> 's) option) \<Rightarrow> (flow \<times> 's) option" where
  "reg_mr e u pd s k = (case he_reg_mr e u pd of (r, mr) \<Rightarrow> if nccl_ok r then k mr else Some (Fail r, s))"

definition resiliency_init :: "'c hs_env \<Rightarrow> 'r option \<Rightarrow> ncclResult \<times> bool" where
  "resiliency_init e ctx = (if ctx = None then (ncclSuccess, False) else if nccl_ok (he_resiliency e) then (ncclSuccess, True) else (he_resiliency e, False))"

text \<open>The devices of the peer, with the address to reach them at.\<close>

fun store_rem :: "(ncclIbDevInfo \<Rightarrow> ncclIbDevInfo) \<Rightarrow> ncclIbDevInfo list \<Rightarrow> nat list \<Rightarrow> ncclIbDevInfo list \<Rightarrow> ncclIbDevInfo list option" where
  "store_rem f ds [] rem = Some rem"
| "store_rem f ds (i # ix) rem = deref (at ds (int i)) (\<lambda>d. if length rem \<le> i then None else store_rem f ds ix (rem[i := f (d\<lparr> di_remoteGid := di_gid d \<rparr>)]))"

fun links_match :: "link_layer \<Rightarrow> ncclIbDevInfo list \<Rightarrow> nat list \<Rightarrow> bool option" where
  "links_match ll ds [] = Some True"
| "links_match ll ds (i # ix) = deref (at ds (int i)) (\<lambda>d. if di_link_layer d \<noteq> ll then Some False else links_match ll ds ix)"

section \<open>Connecting\<close>

definition send_setup :: "send_conn \<Rightarrow> ib_process \<Rightarrow> ncclIbConnectionMetadata \<Rightarrow> conn_setup" where
  "send_setup x pr meta =
     \<lparr> cs_base = sc_base (sn_comm x), cs_dbs = map scd_base (sc_devs (sn_comm x)), cs_res = rsend_base (sn_res x), cs_meta = meta, cs_log = pr_log pr, cs_devs = ncclIbDevs (pr_glob pr),
        cs_flushEnabled = 0, cs_flushQpSl = 0, cs_flushQpTc = 0 \<rparr>"

definition put_send :: "conn_setup \<Rightarrow> send_conn \<Rightarrow> send_conn" where
  "put_send cs x =
     x\<lparr> sn_comm := (sn_comm x)\<lparr> sc_base := cs_base cs, sc_devs := map2 (\<lambda>d db. d\<lparr> scd_base := db \<rparr>) (sc_devs (sn_comm x)) (cs_dbs cs) \<rparr>,
        sn_res := (sn_res x)\<lparr> rsend_base := cs_res cs \<rparr> \<rparr>"

definition on_send_setup :: "(conn_setup \<Rightarrow> conn_setup outcome) \<Rightarrow> send_conn local_st \<Rightarrow> (flow \<times> send_conn local_st) option" where
  "on_send_setup f l =
     deref (hc_comm (lo_call l)) (\<lambda>x. deref (f (send_setup x (hc_proc (lo_call l)) (lo_meta l))) (\<lambda>(r, cs).
       Some (if nccl_ok r then Go else Fail r,
             l\<lparr> lo_call := (lo_call l)\<lparr> hc_comm := Some (put_send cs x), hc_proc := put_proc cs (hc_proc (lo_call l)) \<rparr>, lo_meta := cs_meta cs \<rparr>)))"

definition upd_sbase :: "(ncclIbNetCommBase \<Rightarrow> ncclIbNetCommBase) \<Rightarrow> send_conn \<Rightarrow> send_conn" where
  "upd_sbase f x = x\<lparr> sn_comm := (sn_comm x)\<lparr> sc_base := f (sc_base (sn_comm x)) \<rparr> \<rparr>"

definition set_sn :: "send_conn \<Rightarrow> send_conn local_st \<Rightarrow> send_conn local_st" where
  "set_sn x l = l\<lparr> lo_call := set_comm x (lo_call l) \<rparr>"

text \<open>From the start to \<open>ib_connect_check\<close>.\<close>

definition c_start :: "hs_params \<Rightarrow> send_conn hs_env \<Rightarrow> send_conn hs_call \<Rightarrow> (flow \<times> send_conn hs_call) option" where
  "c_start p e c0 =
     (let c = c0\<lparr> hc_buffer := None \<rparr>; ctx = ncclIbResiliencyInit_send (hp_ib p) (he_threadActive e) in
      case he_comm e of
        None \<Rightarrow> Some (Stop ncclSystemError, c)
      | Some x0 \<Rightarrow>
          deref (ncclIbSendCommInit (hp_ib p) (resiliency_init e ctx) (sn_comm x0)) (\<lambda>(r, comm).
            let x = x0\<lparr> sn_comm := comm, sn_res := (case ctx of None \<Rightarrow> sn_res x0 | Some y \<Rightarrow> y) \<rparr> in
            if \<not> nccl_ok r then Some (Fail r, set_comm x c)
            else
             (let x = upd_sbase (\<lambda>b. b\<lparr> b_stats := ncclIbStatsInit (b_stats b) \<rparr>) x in
              case he_sock_init e of (r, sk) \<Rightarrow>
                if \<not> nccl_ok r then Some (Fail r, set_comm (x\<lparr> sn_sock := sk \<rparr>) c)
                else (case he_open e sk of (r, sk) \<Rightarrow> Some (if nccl_ok r then Go else Fail r, (set_comm (x\<lparr> sn_sock := sk \<rparr>) c)\<lparr> hc_state := ncclIbCommStateConnect \<rparr>)))))"

definition c_check :: "hs_params \<Rightarrow> send_conn hs_env \<Rightarrow> send_conn hs_call \<Rightarrow> (flow \<times> send_conn hs_call) option" where
  "c_check p e c =
     with_comm c (\<lambda>x. case he_ready e (sn_sock x) of (r, rdy, sk) \<Rightarrow>
       let c1 = set_comm (x\<lparr> sn_sock := sk \<rparr>) c in
       if \<not> nccl_ok r then Some (Fail r, c1)
       else if \<not> rdy then Some (Stop ncclSuccess, c1)
       else if hc_dev c \<ge> int (length (pr_merged (hc_proc c))) then Some (Stop ncclInternalError, c1)
       else deref (at (pr_merged (hc_proc c)) (hc_dev c)) (\<lambda>md.
         let x1 = upd_sbase (\<lambda>b. b\<lparr> vProps := md_vProps md \<rparr>) (x\<lparr> sn_sock := sk \<rparr>); c2 = set_stage ncclIbCommStateSendDevList (set_comm x1 c1) in
         if \<not> he_buffer e then Some (Fail ncclSystemError, c2)
         else deref (deref (dev_numbers (md_vProps md)) (all_ooo (ncclIbDevs (pr_glob (hc_proc c))))) (\<lambda>ooo.
           go (store (sz_devs p) (Dev_list (md_vProps md) ooo) (set_comm (upd_sbase (\<lambda>b. b\<lparr> localOooRq := ooo \<rparr>) x1) (c2\<lparr> hc_buffer := Some (encode (sz_meta p) Zeroed) \<rparr>))))))"

definition c_send_devs :: "hs_params \<Rightarrow> send_conn hs_call \<Rightarrow> (flow \<times> send_conn hs_call) option" where
  "c_send_devs p c = with_comm c (\<lambda>x. andthen (transfer NCCL_SOCKET_SEND Stop (sz_devs p) (sn_sock x) c) (\<lambda>c. go (set_stage ncclIbCommStateRecvDevList c)))"

text \<open>Both sides use the larger of the two numbers of queue pairs.\<close>

definition negotiate :: "int \<Rightarrow> ncclNetVDeviceProps \<Rightarrow> ncclNetVDeviceProps \<Rightarrow> bool \<Rightarrow> ncclIbNetCommBase \<Rightarrow> ncclIbNetCommBase" where
  "negotiate nQpsPerDev lcl remote ooo b =
     (let localNqps = nQpsPerDev * ndevs lcl; remoteNqps = nQpsPerDev * ndevs remote in
      b\<lparr> remOooRq := ooo, vProps := lcl, nqps := (if remoteNqps > localNqps then remoteNqps else localNqps), nDataQps := max (ndevs lcl) (ndevs remote) \<rparr>)"

definition register_sender :: "send_conn hs_env \<Rightarrow> nat \<Rightarrow> send_conn local_st \<Rightarrow> (flow \<times> send_conn local_st) option" where
  "register_sender e i l =
     deref (hc_comm (lo_call l)) (\<lambda>x.
     deref (at (sc_devs (sn_comm x)) (int i)) (\<lambda>cd.
     deref (at (ncclIbDevs (pr_glob (hc_proc (lo_call l)))) (ibDevN (scd_base cd))) (\<lambda>dev.
     deref (at (cm_devs (lo_meta l)) (int i)) (\<lambda>d0.
     deref (at (sn_mrs x) (int i)) (\<lambda>m0.
       let db = scd_base cd; d1 = d0\<lparr> di_ib_port := dev_portNum dev, di_mtu := pa_active_mtu (dev_portAttr dev), di_lid := ucast (pa_lid (dev_portAttr dev)) \<rparr>; l1 = set_meta_dev i d1 l in
       reg_mr e Scratchpad_mr (db_pd db) l1 (\<lambda>mr.
         let m1 = m0\<lparr> sm_scratchpad := Some mr \<rparr>; l2 = set_sn (x\<lparr> sn_mrs := (sn_mrs x)[i := m1] \<rparr>) l1 in
         reg_mr e CtsFifo_mr (db_pd db) l2 (\<lambda>mr.
           let d2 = d1\<lparr> di_rkey := mr_rkey mr, di_link_layer := gi_link_layer (db_gidInfo db), di_gid := localGid (db_gidInfo db) \<rparr>;
               l3 = set_meta_dev i d2 (set_sn (x\<lparr> sn_mrs := (sn_mrs x)[i := m1\<lparr> sm_ctsFifo := Some mr \<rparr>] \<rparr>) l2)
           in check_link (di_link_layer d2) l3)))))))"

definition register_speed :: "hs_params \<Rightarrow> send_conn hs_env \<Rightarrow> send_conn local_st \<Rightarrow> (flow \<times> send_conn local_st) option" where
  "register_speed p e l =
     deref (hc_comm (lo_call l)) (\<lambda>x.
       if IbEventBasedLb (hp_ib p) \<noteq> 0 \<and> IbEventBasedLbRemote (hp_ib p) \<noteq> 0 then
         deref (at (sc_devs (sn_comm x)) 0) (\<lambda>cd. reg_mr e RemoteSpeed_mr (db_pd (scd_base cd)) l (\<lambda>mr. go (set_sn (x\<lparr> sn_remoteSpeedMr := Some mr \<rparr>) l)))
       else go l)"

definition NCCL_NET_TRAFFIC_CLASS_UNDEF :: int where "NCCL_NET_TRAFFIC_CLASS_UNDEF = - 1"

text \<open>The configuration of the communicator is the null pointer or a traffic class.\<close>

definition ncclIbGetTrafficClass :: "int option \<Rightarrow> int" where
  "ncclIbGetTrafficClass ctx = (case ctx of None \<Rightarrow> NCCL_NET_TRAFFIC_CLASS_UNDEF | Some t \<Rightarrow> t)"

definition ncclIbSetTrafficClass :: "int option \<Rightarrow> int \<Rightarrow> int option" where
  "ncclIbSetTrafficClass ctx t = map_option (\<lambda>_. t) ctx"

definition choose_class :: "int \<Rightarrow> int \<Rightarrow> int" where
  "choose_class env tc = (if env \<noteq> - 1 then env else if tc \<noteq> NCCL_NET_TRAFFIC_CLASS_UNDEF then tc else 0)"

definition sender_meta :: "hs_params \<Rightarrow> send_conn hs_env \<Rightarrow> int option \<Rightarrow> int \<Rightarrow> string \<Rightarrow> send_conn \<Rightarrow> ncclIbConnectionMetadata \<Rightarrow> ncclIbConnectionMetadata" where
  "sender_meta p e ctx envTrafficClass name x m =
     m\<lparr> cm_addr := he_addr e CtsFifo_mr, cm_sl := int_of_long (choose_class (IbSl p) (ncclIbGetTrafficClass ctx)), cm_tc := choose_class envTrafficClass (ncclIbGetTrafficClass ctx),
        cm_remSpeedBufAddr := (case sn_remoteSpeedMr x of None \<Rightarrow> 0 | Some _ \<Rightarrow> he_addr e RemoteSpeed_mr), cm_remSpeedBufRkey := (case sn_remoteSpeedMr x of None \<Rightarrow> 0 | Some mr \<Rightarrow> mr_rkey mr),
        cm_devName := take MAX_MERGED_DEV_NAME name \<rparr>"

text \<open>Adaptive routing is used when all devices have it.\<close>

definition all_ar :: "ncclIbDev list \<Rightarrow> ncclNetVDeviceProps \<Rightarrow> int" where
  "all_ar ds v = (if list_all (\<lambda>n. dev_ar (ds ! nat n) \<noteq> 0) (take (nat (ndevs v)) (devs v)) then 1 else 0)"

definition c_setup :: "hs_params \<Rightarrow> send_conn hs_env \<Rightarrow> int \<Rightarrow> send_conn local_st \<Rightarrow> (flow \<times> send_conn local_st) option" where
  "c_setup p e nQpsPerDev l =
     deref (hc_comm (lo_call l)) (\<lambda>x.
       let n = ndevs (vProps (sc_base (sn_comm x))); ix = [0..<nat n] in
       andthen (on_send_setup (for_each (init_device (hp_gid p) e (int NET_IB_MAX_REQUESTS * nQpsPerDev)) ix) l) (\<lambda>l.
       deref (hc_comm (lo_call l)) (\<lambda>x.
         let l1 = set_sn (x\<lparr> sn_comm := (sn_comm x)\<lparr> sc_ar := all_ar (ncclIbDevs (pr_glob (hc_proc (lo_call l)))) (vProps (sc_base (sn_comm x))) \<rparr> \<rparr>) l in
         andthen (on_send_setup (ncclIbSenderQpsCreate (hp_qp p) (he_qp e)) (l1\<lparr> lo_meta := zero_meta\<lparr> cm_ndevs := n \<rparr> \<rparr>)) (\<lambda>l.
         andthen (each (register_sender e) ix l) (register_speed p e)))))"

text \<open>From \<open>ib_recv_dev_list\<close> to \<open>ib_send\<close>. The merged device is not checked again.\<close>

definition c_recv_devs :: "hs_params \<Rightarrow> send_conn hs_env \<Rightarrow> int option \<Rightarrow> int \<Rightarrow> int \<Rightarrow> send_conn hs_call \<Rightarrow> (flow \<times> send_conn hs_call) option" where
  "c_recv_devs p e ctx nQpsPerDev envTrafficClass c =
     with_comm c (\<lambda>x. andthen (transfer NCCL_SOCKET_RECV Stop (sz_devs p) (sn_sock x) c) (\<lambda>c0.
       let c = c0\<lparr> hc_offset := 0 \<rparr> in
       deref (stored_devs (sz_devs p) c) (\<lambda>(remoteVProps, ooo).
       deref (at (pr_merged (hc_proc c)) (hc_dev c)) (\<lambda>md.
         let x1 = upd_sbase (negotiate nQpsPerDev (md_vProps md) remoteVProps ooo) x; b = sc_base (sn_comm x1) in
         andthen (if resiliency b then
                    check Stop (map_option (\<lambda>(r, ctx). (r, set_comm (x1\<lparr> sn_res := (sn_res x1)\<lparr> rsend_base := ctx \<rparr> \<rparr>) c))
                      (ncclIbResiliencyDeviceNumSet (isSend b) (ndevs (vProps b)) (ndevs remoteVProps) (rsend_base (sn_res x1))))
                  else go (set_comm x1 c)) (\<lambda>c.
           deref (c_setup p e nQpsPerDev \<lparr> lo_call = c, lo_meta = zero_meta, lo_link = LINK_UNSPECIFIED \<rparr>) (\<lambda>(fl, l).
             if fl \<noteq> Go then Some (fl, lo_call l)
             else deref (hc_comm (lo_call l)) (\<lambda>x.
               go (store (sz_meta p) (Metadata (sender_meta p e ctx envTrafficClass (md_devName md) x (lo_meta l))) (set_stage ncclIbCommStateSend (lo_call l))))))))))"

definition c_send :: "hs_params \<Rightarrow> send_conn hs_call \<Rightarrow> (flow \<times> send_conn hs_call) option" where
  "c_send p c =
     with_comm c (\<lambda>x. andthen (transfer NCCL_SOCKET_SEND Fail (sz_meta p) (sn_sock x) c) (\<lambda>c. go (store (sz_meta p) Zeroed (set_stage ncclIbCommStateConnecting c))))"

definition register_records :: "send_conn hs_env \<Rightarrow> nat \<Rightarrow> send_conn hs_call \<Rightarrow> (flow \<times> send_conn hs_call) option" where
  "register_records e i c =
     with_comm c (\<lambda>x. deref (at (sc_devs (sn_comm x)) (int i)) (\<lambda>cd. deref (at (sn_mrs x) (int i)) (\<lambda>m.
       reg_mr e CmplsRecords_mr (db_pd (scd_base cd)) c (\<lambda>mr.
         go (set_comm (x\<lparr> sn_comm := (sn_comm x)\<lparr> sc_devs := (sc_devs (sn_comm x))[i := cd\<lparr> scd_sge := (scd_sge cd)\<lparr> sge_lkey := mr_lkey mr \<rparr> \<rparr>] \<rparr>,
                             sn_mrs := (sn_mrs x)[i := m\<lparr> sm_cmplsRecords := Some mr \<rparr>] \<rparr>) c)))))"

definition store_record :: "ncclIbConnectionMetadata \<Rightarrow> nat \<Rightarrow> send_conn hs_call \<Rightarrow> (flow \<times> send_conn hs_call) option" where
  "store_record remMeta i c =
     with_comm c (\<lambda>x. deref (at (cm_devs remMeta) (int i)) (\<lambda>d.
       let rec = sc_remCmplsRecords (sn_comm x) in
       if length (rcr_rkeys rec) \<le> i then None
       else
        (let x1 = x\<lparr> sn_comm := (sn_comm x)\<lparr> sc_remCmplsRecords := rec\<lparr> rcr_rkeys := (rcr_rkeys rec)[i := di_rkey d] \<rparr> \<rparr> \<rparr> in
         if resiliency (sc_base (sn_comm x1)) then
           check Fail (map_option (\<lambda>(r, ctx). (r, set_comm (x1\<lparr> sn_res := ctx \<rparr>) c))
             (ncclIbResiliencyRemoteCompletionRecordsSet (isSend (sc_base (sn_comm x1))) (di_rkey d) (rcr_addr rec) (word_of_nat i) (sn_res x1)))
         else go (set_comm x1 c))))"

text \<open>The work between the receipt of the metadata and the ready flag.\<close>

definition c_link :: "ncclIbConnectionMetadata \<Rightarrow> send_conn \<Rightarrow> ib_process \<Rightarrow> bool option" where
  "c_link remMeta x pr =
     (if ndevs (vProps (sc_base (sn_comm x))) > 0 then
        deref (at (sc_devs (sn_comm x)) 0) (\<lambda>cd. deref (at (ncclIbDevs (pr_glob pr)) (ibDevN (scd_base cd))) (\<lambda>dev.
          links_match (pa_link_layer (dev_portAttr dev)) (cm_devs remMeta) [0..<nat (cm_ndevs remMeta)]))
      else Some True)"

definition c_finish :: "hs_params \<Rightarrow> send_conn hs_env \<Rightarrow> ncclIbConnectionMetadata \<Rightarrow> send_conn hs_call \<Rightarrow> (flow \<times> send_conn hs_call) option" where
  "c_finish p e remMeta c =
     deref (on_send_setup (ncclIbSenderQpsToRts (hp_qp p) (he_qp e) remMeta) \<lparr> lo_call = c, lo_meta = zero_meta, lo_link = LINK_UNSPECIFIED \<rparr>) (\<lambda>(fl, l).
       if fl \<noteq> Go then Some (fl, lo_call l)
       else with_comm (lo_call l) (\<lambda>x.
         deref (ncclIbComputeDevSpeeds (pr_glob (hc_proc (lo_call l))) (ncclIbGetNetCommDevBase_send (sn_comm x)) (sc_base (sn_comm x))) (\<lambda>b.
         deref (ncclIbComputeLbWeights (hp_ib p) b) (\<lambda>b.
           go (set_stage ncclIbCommStateConnected (set_comm (upd_sbase (\<lambda>_. b\<lparr> ready := 1 \<rparr>) x) (lo_call l)))))))"

definition c_connect :: "hs_params \<Rightarrow> send_conn hs_env \<Rightarrow> send_conn hs_call \<Rightarrow> (flow \<times> send_conn hs_call) option" where
  "c_connect p e c =
     with_comm c (\<lambda>x. andthen (transfer NCCL_SOCKET_RECV Fail (sz_meta p) (sn_sock x) c) (\<lambda>c.
       deref (stored_meta (sz_meta p) c) (\<lambda>remMeta.
       deref (c_link remMeta x (hc_proc c)) (\<lambda>ok.
         if \<not> ok then Some (Stop ncclInternalError, c)
         else
          (let ix = [0..<nat (cm_ndevs remMeta)] in
           deref (store_rem (\<lambda>d. d) (cm_devs remMeta) ix (remDevs (sc_base (sn_comm x)))) (\<lambda>rem.
             let x1 = upd_sbase (\<lambda>b. b\<lparr> nRemDevs := cm_ndevs remMeta, remDevs := rem \<rparr>) x;
                 x2 = x1\<lparr> sn_comm := (sn_comm x1)\<lparr> sc_remCmplsRecords := (sc_remCmplsRecords (sn_comm x1))\<lparr> rcr_addr := cm_addr remMeta \<rparr> \<rparr> \<rparr>
             in andthen (each (store_record remMeta) ix (set_comm x2 c)) (\<lambda>c.
                andthen (each (register_records e) [0..<nat (ndevs (vProps (sc_base (sn_comm x))))] c) (c_finish p e remMeta))))))))"

text \<open>The flag that is sent is the communicator's member, four bytes.\<close>

definition c_send_ready :: "send_conn hs_call \<Rightarrow> (flow \<times> send_conn hs_call) option" where
  "c_send_ready c =
     with_comm c (\<lambda>x. map_option (\<lambda>(fl, _, c). (fl, c)) (transfer_on NCCL_SOCKET_SEND Fail 4 (sn_sock x) (encode 4 (Ready_flag (ready (sc_base (sn_comm x))))) c))"

fun connect_entry :: "ncclIbCommState \<Rightarrow> nat option" where
  "connect_entry ncclIbCommStateStart = Some 0"
| "connect_entry ncclIbCommStateConnect = Some 1"
| "connect_entry ncclIbCommStateSendDevList = Some 2"
| "connect_entry ncclIbCommStateRecvDevList = Some 3"
| "connect_entry ncclIbCommStateSend = Some 4"
| "connect_entry ncclIbCommStateConnecting = Some 5"
| "connect_entry ncclIbCommStateConnected = Some 6"
| "connect_entry _ = None"

definition connect_parts :: "hs_params \<Rightarrow> send_conn hs_env \<Rightarrow> int option \<Rightarrow> int \<Rightarrow> int \<Rightarrow> (send_conn hs_call \<Rightarrow> (flow \<times> send_conn hs_call) option) list" where
  "connect_parts p e ctx nQpsPerDev envTrafficClass =
     [c_start p e, c_check p e, c_send_devs p, c_recv_devs p e ctx nQpsPerDev envTrafficClass, c_send p, c_connect p e, c_send_ready]"

text \<open>The labels \<open>exit\<close> and \<open>fail\<close>: the stage starts again, and what it pointed to is gone.\<close>

definition leave :: "'c hs_call \<Rightarrow> 'c hs_call" where
  "leave c = c\<lparr> hc_state := ncclIbCommStateStart, hc_buffer := None, hc_comm := None \<rparr>"

definition clean_up :: "('c \<Rightarrow> ncclIbNetCommBase) \<Rightarrow> qp_env \<Rightarrow> 'c hs_call \<Rightarrow> 'c hs_call" where
  "clean_up base e c =
     (case hc_comm c of
        None \<Rightarrow> c
      | Some x \<Rightarrow> (case ncclIbDestroyDataQps e (base x) (pr_log (hc_proc c)) of (_, _, l) \<Rightarrow> c\<lparr> hc_proc := (hc_proc c)\<lparr> pr_log := l \<rparr> \<rparr>))"

definition conclude :: "('c \<Rightarrow> ncclIbNetCommBase) \<Rightarrow> qp_env \<Rightarrow> (flow \<times> 'c hs_call) option \<Rightarrow> ((ncclResult \<times> 'c option) \<times> 'c hs_call) option" where
  "conclude base e o' =
     (case o' of
        None \<Rightarrow> None
      | Some (Go, c) \<Rightarrow> Some ((ncclSuccess, hc_comm c), leave c)
      | Some (Stop r, c) \<Rightarrow> Some ((r, None), c)
      | Some (Fail r, c) \<Rightarrow> Some ((r, None), leave (clean_up base e c)))"

definition ncclIbConnectImpl ::
  "hs_params \<Rightarrow> send_conn hs_env \<Rightarrow> int option \<Rightarrow> ibv_gid list \<Rightarrow> int \<Rightarrow> int \<Rightarrow> int \<Rightarrow> send_conn hs_call \<Rightarrow> ((ncclResult \<times> send_conn option) \<times> send_conn hs_call) option" where
  "ncclIbConnectImpl p e ctx listenGids dev nQpsPerDev envTrafficClass c0 =
     (case (if IbSubnetAwareRouting p \<noteq> 0 then ncclIbFindDevBySubnet (hp_gid p) (he_gid e) (ncclIbDevs (pr_glob (hc_proc c0))) (pr_merged (hc_proc c0)) listenGids dev else (ncclSuccess, dev)) of
        (r, d) \<Rightarrow>
          if \<not> nccl_ok r then Some ((r, None), c0)
          else
           (let c = c0\<lparr> hc_dev := d \<rparr> in
            case connect_entry (hc_state c) of
              None \<Rightarrow> Some ((ncclInternalError, None), c)
            | Some k \<Rightarrow> conclude (\<lambda>x. sc_base (sn_comm x)) (he_qp e) (run_parts (drop k (connect_parts p e ctx nQpsPerDev envTrafficClass)) c)))"

definition ncclIbConnect :: "hs_params \<Rightarrow> send_conn hs_env \<Rightarrow> int option \<Rightarrow> ibv_gid list \<Rightarrow> int \<Rightarrow> send_conn hs_call \<Rightarrow> ((ncclResult \<times> send_conn option) \<times> send_conn hs_call) option" where
  "ncclIbConnect p e ctx listenGids dev c = ncclIbConnectImpl p e ctx listenGids dev (int_of_long (IbQpsPerConn p)) (int_of_long (IbTc p)) c"

section \<open>Accepting\<close>

definition recv_setup :: "recv_conn \<Rightarrow> ib_process \<Rightarrow> ncclIbConnectionMetadata \<Rightarrow> conn_setup" where
  "recv_setup x pr meta =
     \<lparr> cs_base = rc_base (rn_comm x), cs_dbs = map rcd_base (rc_devs (rn_comm x)), cs_res = rn_res x, cs_meta = meta, cs_log = pr_log pr, cs_devs = ncclIbDevs (pr_glob pr),
        cs_flushEnabled = rc_flushEnabled (rn_comm x), cs_flushQpSl = rn_flushSl x, cs_flushQpTc = rn_flushTc x \<rparr>"

definition put_recv :: "conn_setup \<Rightarrow> recv_conn \<Rightarrow> recv_conn" where
  "put_recv cs x =
     x\<lparr> rn_comm := (rn_comm x)\<lparr> rc_base := cs_base cs, rc_devs := map2 (\<lambda>d db. d\<lparr> rcd_base := db \<rparr>) (rc_devs (rn_comm x)) (cs_dbs cs) \<rparr>,
        rn_res := cs_res cs, rn_flushSl := cs_flushQpSl cs, rn_flushTc := cs_flushQpTc cs \<rparr>"

definition on_recv_setup :: "(conn_setup \<Rightarrow> conn_setup outcome) \<Rightarrow> recv_conn local_st \<Rightarrow> (flow \<times> recv_conn local_st) option" where
  "on_recv_setup f l =
     deref (hc_comm (lo_call l)) (\<lambda>x. deref (f (recv_setup x (hc_proc (lo_call l)) (lo_meta l))) (\<lambda>(r, cs).
       Some (if nccl_ok r then Go else Fail r,
             l\<lparr> lo_call := (lo_call l)\<lparr> hc_comm := Some (put_recv cs x), hc_proc := put_proc cs (hc_proc (lo_call l)) \<rparr>, lo_meta := cs_meta cs \<rparr>)))"

definition upd_rvbase :: "(ncclIbNetCommBase \<Rightarrow> ncclIbNetCommBase) \<Rightarrow> recv_conn \<Rightarrow> recv_conn" where
  "upd_rvbase f x = x\<lparr> rn_comm := (rn_comm x)\<lparr> rc_base := f (rc_base (rn_comm x)) \<rparr> \<rparr>"

definition set_rn :: "recv_conn \<Rightarrow> recv_conn local_st \<Rightarrow> recv_conn local_st" where
  "set_rn x l = l\<lparr> lo_call := set_comm x (lo_call l) \<rparr>"

text \<open>From the start to \<open>ib_accept_check\<close>; the staging buffer is allocated last, and its failure keeps the stage.\<close>

definition a_start :: "hs_params \<Rightarrow> recv_conn hs_env \<Rightarrow> recv_conn hs_call \<Rightarrow> (flow \<times> recv_conn hs_call) option" where
  "a_start p e c =
     (let ctx = ncclIbResiliencyInit_recv (hp_ib p) (he_threadActive e) in
      case he_comm e of
        None \<Rightarrow> Some (Stop ncclSystemError, c)
      | Some x0 \<Rightarrow>
          deref (ncclIbRecvCommInit (hp_ib p) (resiliency_init e ctx) (rn_comm x0)) (\<lambda>(r, comm).
            let x = x0\<lparr> rn_comm := comm, rn_res := (case ctx of None \<Rightarrow> rn_res x0 | Some y \<Rightarrow> y) \<rparr> in
            if \<not> nccl_ok r then Some (Fail r, set_comm x c)
            else
             (let x = upd_rvbase (\<lambda>b. b\<lparr> b_stats := ncclIbStatsInit (b_stats b) \<rparr>) x; c1 = c\<lparr> hc_state := ncclIbCommStateAccept \<rparr> in
              case he_sock_init e of (r, sk) \<Rightarrow>
                if \<not> nccl_ok r then Some (Fail r, set_comm (x\<lparr> rn_sock := sk \<rparr>) c1)
                else (case he_open e sk of (r, sk) \<Rightarrow>
                        let c2 = set_comm (x\<lparr> rn_sock := sk \<rparr>) c1 in
                        if \<not> nccl_ok r then Some (Fail r, c2)
                        else if \<not> he_buffer e then Some (Stop ncclSystemError, c2\<lparr> hc_offset := 0 \<rparr>)
                        else go (c2\<lparr> hc_offset := 0, hc_buffer := Some (encode (sz_meta p) Zeroed) \<rparr>)))))"

definition a_check :: "recv_conn hs_env \<Rightarrow> recv_conn hs_call \<Rightarrow> (flow \<times> recv_conn hs_call) option" where
  "a_check e c =
     with_comm c (\<lambda>x. case he_ready e (rn_sock x) of (r, rdy, sk) \<Rightarrow>
       let c1 = set_comm (x\<lparr> rn_sock := sk \<rparr>) c in
       if \<not> nccl_ok r then Some (Fail r, c1) else if \<not> rdy then Some (Stop ncclSuccess, c1) else go (set_stage ncclIbCommStateRecvDevList c1))"

text \<open>\<open>ncclIbCheckVProps\<close> only tells the user; the flag is whether it does.\<close>

definition ncclIbCheckVProps :: "int \<Rightarrow> ncclNetVDeviceProps \<Rightarrow> ncclNetVDeviceProps \<Rightarrow> ncclResult \<times> bool" where
  "ncclIbCheckVProps warn v1 v2 =
     (let (lo, hi) = (if ndevs v2 > ndevs v1 then (v1, v2) else (v2, v1));
          list = (\<lambda>v. take (nat (ndevs v)) (devs v));
          out = concat (map (\<lambda>d. filter (\<lambda>d'. d' = d) (list hi)) (list lo))
      in (ncclSuccess, warn \<noteq> 0 \<and> int (length out) < ndevs hi))"

definition a_recv_devs :: "hs_params \<Rightarrow> int \<Rightarrow> recv_conn hs_call \<Rightarrow> (flow \<times> recv_conn hs_call) option" where
  "a_recv_devs p nQpsPerDev c =
     with_comm c (\<lambda>x. andthen (transfer NCCL_SOCKET_RECV Stop (sz_devs p) (rn_sock x) c) (\<lambda>c.
       deref (stored_devs (sz_devs p) c) (\<lambda>(remoteVProps, ooo).
         if hc_dev c \<ge> int (length (pr_merged (hc_proc c))) then Some (Stop ncclInternalError, c)
         else deref (at (pr_merged (hc_proc c)) (hc_dev c)) (\<lambda>md.
           andthen (check Stop (ret (fst (ncclIbCheckVProps (IbWarnRailLocal p) (md_vProps md) remoteVProps)) c)) (\<lambda>c.
           let x1 = upd_rvbase (negotiate nQpsPerDev (md_vProps md) remoteVProps ooo) x; b = rc_base (rn_comm x1) in
           andthen (if resiliency b then
                      check Stop (map_option (\<lambda>(r, ctx). (r, set_comm (x1\<lparr> rn_res := ctx \<rparr>) c)) (ncclIbResiliencyDeviceNumSet (isSend b) (ndevs (vProps b)) (ndevs remoteVProps) (rn_res x1)))
                    else go (set_comm x1 c)) (\<lambda>c.
             with_comm c (\<lambda>x.
             deref (deref (dev_numbers (md_vProps md)) (all_ooo (ncclIbDevs (pr_glob (hc_proc c))))) (\<lambda>ooo.
               go (store (sz_devs p) (Dev_list (md_vProps md) ooo) (set_stage ncclIbCommStateSendDevList (set_comm (upd_rvbase (\<lambda>b. b\<lparr> localOooRq := ooo \<rparr>) x) c)))))))))))"

definition a_send_devs :: "hs_params \<Rightarrow> recv_conn hs_call \<Rightarrow> (flow \<times> recv_conn hs_call) option" where
  "a_send_devs p c = with_comm c (\<lambda>x. andthen (transfer NCCL_SOCKET_SEND Fail (sz_devs p) (rn_sock x) c) (\<lambda>c. go (set_stage ncclIbCommStateRecv c)))"

text \<open>Routing by the subnets of the sender's ports may choose another merged device, after the number of queue pairs has been negotiated.\<close>

definition a_route :: "hs_params \<Rightarrow> recv_conn hs_env \<Rightarrow> ncclIbConnectionMetadata \<Rightarrow> recv_conn hs_call \<Rightarrow> (flow \<times> recv_conn hs_call) option" where
  "a_route p e remMeta c =
     (if IbSubnetAwareRouting p \<noteq> 0 \<and> cm_ndevs remMeta > 0 then
       (let gids = map di_gid (filter (\<lambda>d. di_link_layer d = LINK_ETHERNET) (take (nat (cm_ndevs remMeta)) (take NCCL_IB_MAX_DEVS_PER_NIC (cm_devs remMeta)))) in
        case ncclIbFindDevBySubnet (hp_gid p) (he_gid e) (ncclIbDevs (pr_glob (hc_proc c))) (pr_merged (hc_proc c)) gids (hc_dev c) of (r, d) \<Rightarrow>
          if \<not> nccl_ok r then Some (Fail r, c)
          else if d \<noteq> hc_dev c then
            deref (at (pr_merged (hc_proc c)) d) (\<lambda>md. with_comm c (\<lambda>x. go (set_comm (upd_rvbase (\<lambda>b. b\<lparr> vProps := md_vProps md \<rparr>) x) (c\<lparr> hc_dev := d \<rparr>))))
          else go c)
      else go c)"

definition a_init_device :: "hs_params \<Rightarrow> recv_conn hs_env \<Rightarrow> int \<Rightarrow> nat \<Rightarrow> recv_conn local_st \<Rightarrow> (flow \<times> recv_conn local_st) option" where
  "a_init_device p e cqSize i l =
     andthen (on_recv_setup (init_device (hp_gid p) e cqSize i) l) (\<lambda>l.
       deref (hc_comm (lo_call l)) (\<lambda>x. deref (at (devs (vProps (rc_base (rn_comm x)))) (int i)) (\<lambda>n. deref (at (ncclIbDevs (pr_glob (hc_proc (lo_call l)))) n) (\<lambda>dev.
         check_link (pa_link_layer (dev_portAttr dev)) l))))"

definition rec_comm_of :: "recv_conn \<Rightarrow> qp_log \<Rightarrow> rec_comm" where
  "rec_comm_of x log =
     \<lparr> rm_base = rc_base (rn_comm x), rm_devs = map rcd_base (rc_devs (rn_comm x)), rm_flushEnabled = rc_flushEnabled (rn_comm x), rm_flushQpsCreated = rc_flushQpsCreated (rn_comm x),
        rm_flushQps = map rdm_flushQp (rn_mrs x), rm_res = rn_res x, rm_log = log, rm_cq = [], rm_polls = 0, rm_sent = [], rm_recvs = [], rm_data_recvs = rn_posted x \<rparr>"

definition ncclIbReceiverPrePostReceiveWorkRequests :: "rec_env \<Rightarrow> rec_comm \<Rightarrow> rec_comm outcome" where
  "ncclIbReceiverPrePostReceiveWorkRequests e m =
     for_each (\<lambda>i m. deref (at (qps (rm_base m)) (int i)) (\<lambda>qp. ncclIbPostReceiveWorkRequestsOnQp e qp m)) [0..<nat (nqps (rm_base m))] m"

definition a_prepost :: "recv_conn hs_env \<Rightarrow> recv_conn local_st \<Rightarrow> (flow \<times> recv_conn local_st) option" where
  "a_prepost e l =
     deref (hc_comm (lo_call l)) (\<lambda>x.
       if rc_prepostReceiveWorkRequests (rn_comm x) then
         check Fail (map_option (\<lambda>(r, m). (r, set_rn (x\<lparr> rn_posted := rm_data_recvs m \<rparr>) l)) (ncclIbReceiverPrePostReceiveWorkRequests (he_rec e) (rec_comm_of x (pr_log (hc_proc (lo_call l))))))
       else go l)"

fun store_keys :: "ncclIbDevInfo list \<Rightarrow> nat list \<Rightarrow> u32 list \<Rightarrow> u32 list option" where
  "store_keys ds [] ks = Some ks"
| "store_keys ds (i # ix) ks = deref (at ds (int i)) (\<lambda>d. if length ks \<le> i then None else store_keys ds ix (ks[i := di_rkey d]))"

definition register_receiver :: "hs_params \<Rightarrow> recv_conn hs_env \<Rightarrow> nat \<Rightarrow> recv_conn local_st \<Rightarrow> (flow \<times> recv_conn local_st) option" where
  "register_receiver p e i l =
     deref (hc_comm (lo_call l)) (\<lambda>x. deref (at (rc_devs (rn_comm x)) (int i)) (\<lambda>cd. deref (at (rn_mrs x) (int i)) (\<lambda>m0. deref (at (cm_devs (lo_meta l)) (int i)) (\<lambda>d.
       let pd = db_pd (rcd_base cd) in
       reg_mr e CtsFifo_mr pd l (\<lambda>mr.
         let m1 = m0\<lparr> rdm_ctsFifo := Some mr \<rparr>; cd1 = cd\<lparr> rcd_sge := (rcd_sge cd)\<lparr> sge_lkey := mr_lkey mr \<rparr> \<rparr>;
             x1 = x\<lparr> rn_comm := (rn_comm x)\<lparr> rc_devs := (rc_devs (rn_comm x))[i := cd1] \<rparr>, rn_mrs := (rn_mrs x)[i := m1] \<rparr>; l1 = set_rn x1 l
         in reg_mr e CmplsRecords_mr pd l1 (\<lambda>mr.
              let m2 = m1\<lparr> rdm_cmplsRecords := Some mr \<rparr>; x2 = x1\<lparr> rn_mrs := (rn_mrs x)[i := m2] \<rparr>; l2 = set_meta_dev i (d\<lparr> di_rkey := mr_rkey mr \<rparr>) (set_rn x2 l1) in
              if IbEventBasedLb (hp_ib p) \<noteq> 0 \<and> IbEventBasedLbRemote (hp_ib p) \<noteq> 0 then
                reg_mr e SpeedUpdate_mr pd l2 (\<lambda>mr.
                  go (set_rn (x2\<lparr> rn_comm := (rn_comm x2)\<lparr> rc_devs := (rc_devs (rn_comm x2))[i := cd1\<lparr> rcd_speedUpdateMr := mr \<rparr>] \<rparr>,
                                  rn_mrs := (rn_mrs x)[i := m2\<lparr> rdm_speedUpdate := Some mr \<rparr>] \<rparr>) l2))
              else go l2))))))"

definition describe_device :: "nat \<Rightarrow> recv_conn local_st \<Rightarrow> (flow \<times> recv_conn local_st) option" where
  "describe_device i l =
     deref (hc_comm (lo_call l)) (\<lambda>x. deref (at (rc_devs (rn_comm x)) (int i)) (\<lambda>cd. deref (at (ncclIbDevs (pr_glob (hc_proc (lo_call l)))) (ibDevN (rcd_base cd))) (\<lambda>dev.
     deref (at (cm_devs (lo_meta l)) (int i)) (\<lambda>d0.
       if length (rc_lastSentSpeeds (rn_comm x)) \<le> i then None
       else
        (let db = rcd_base cd;
             d = d0\<lparr> di_lid := ucast (pa_lid (dev_portAttr dev)), di_link_layer := gi_link_layer (db_gidInfo db), di_ib_port := dev_portNum dev, di_gid := localGid (db_gidInfo db),
                     di_mtu := pa_active_mtu (dev_portAttr dev), di_currSpeed := dev_currSpeed dev \<rparr>
         in go (set_meta_dev i d (set_rn (x\<lparr> rn_comm := (rn_comm x)\<lparr> rc_lastSentSpeeds := (rc_lastSentSpeeds (rn_comm x))[i := ucast (di_currSpeed d div 1000)] \<rparr> \<rparr>) l)))))))"

definition recv_cq_size :: "hs_params \<Rightarrow> int \<Rightarrow> int" where
  "recv_cq_size p nQpsPerDev = 2 * int NET_IB_MAX_REQUESTS * nQpsPerDev + (if IbEventBasedLb (hp_ib p) \<noteq> 0 \<and> IbEventBasedLbRemote (hp_ib p) \<noteq> 0 then 1 else 0)"

definition flush_enabled :: "hs_params \<Rightarrow> recv_conn hs_env \<Rightarrow> int \<Rightarrow> int" where
  "flush_enabled p e dev = (if (he_gdr e = ncclSuccess \<or> he_dmabuf e dev = ncclSuccess) \<and> IbGdrFlushDisable p = 0 then 1 else 0)"

text \<open>What the receiver notes of the sender before it creates its queue pairs.\<close>

definition note_sender :: "hs_params \<Rightarrow> recv_conn hs_env \<Rightarrow> ncclIbConnectionMetadata \<Rightarrow> recv_conn local_st \<Rightarrow> recv_conn local_st option" where
  "note_sender p e remMeta l =
     deref (hc_comm (lo_call l)) (\<lambda>x.
     deref (store_rem (\<lambda>d. d\<lparr> di_remSpeedBufRkey := cm_remSpeedBufRkey remMeta \<rparr>) (cm_devs remMeta) [0..<nat (cm_ndevs remMeta)] (remDevs (rc_base (rn_comm x)))) (\<lambda>rem.
       let x1 = upd_rvbase (\<lambda>b. b\<lparr> nRemDevs := cm_ndevs remMeta, remDevs := rem \<rparr>) x in
       Some (set_rn (x1\<lparr> rn_comm := (rn_comm x1)\<lparr> rc_remSpeedBufAddr := cm_remSpeedBufAddr remMeta, rc_flushEnabled := flush_enabled p e (hc_dev (lo_call l)) \<rparr> \<rparr>) l)))"

definition note_fifo :: "ncclIbConnectionMetadata \<Rightarrow> recv_conn local_st \<Rightarrow> recv_conn local_st option" where
  "note_fifo remMeta l =
     deref (hc_comm (lo_call l)) (\<lambda>x. deref (store_keys (cm_devs remMeta) [0..<nat (nRemDevs (rc_base (rn_comm x)))] (rn_ctsRkeys x)) (\<lambda>ks.
       Some (set_rn (x\<lparr> rn_comm := (rn_comm x)\<lparr> rc_remCtsFifo := (rc_remCtsFifo (rn_comm x))\<lparr> rcf_addr := cm_addr remMeta \<rparr> \<rparr>, rn_ctsRkeys := ks \<rparr>) l)))"

definition note_inline :: "hs_params \<Rightarrow> recv_conn local_st \<Rightarrow> recv_conn local_st option" where
  "note_inline p l =
     deref (hc_comm (lo_call l)) (\<lambda>x.
       Some (if IbUseInline (hp_qp p) \<noteq> 0 then set_rn (x\<lparr> rn_comm := (rn_comm x)\<lparr> rc_remCtsFifo := (rc_remCtsFifo (rn_comm x))\<lparr> rcf_inline := True \<rparr> \<rparr> \<rparr>) l else l))"

definition a_setup :: "hs_params \<Rightarrow> recv_conn hs_env \<Rightarrow> int \<Rightarrow> ncclIbConnectionMetadata \<Rightarrow> recv_conn local_st \<Rightarrow> (flow \<times> recv_conn local_st) option" where
  "a_setup p e nQpsPerDev remMeta l =
     deref (hc_comm (lo_call l)) (\<lambda>x.
       let ix = [0..<nat (ndevs (vProps (rc_base (rn_comm x))))] in
       andthen (each (a_init_device p e (recv_cq_size p nQpsPerDev)) ix l) (\<lambda>l.
       deref (links_match (lo_link l) (cm_devs remMeta) [0..<nat (cm_ndevs remMeta)]) (\<lambda>ok.
         if \<not> ok then Some (Stop ncclInternalError, l)
         else
           deref (note_sender p e remMeta l) (\<lambda>l.
           andthen (on_recv_setup (ncclIbReceiverQpsCreateToRts (hp_qp p) (hp_ib p) (he_qp e) remMeta) l) (\<lambda>l.
           andthen (a_prepost e l) (\<lambda>l.
           deref (note_fifo remMeta l) (\<lambda>l.
           andthen (each (register_receiver p e) ix l) (\<lambda>l.
           deref (note_inline p l) (each describe_device ix)))))))))"

definition receiver_meta :: "recv_conn hs_env \<Rightarrow> ncclIbConnectionMetadata \<Rightarrow> string \<Rightarrow> recv_conn \<Rightarrow> ncclIbConnectionMetadata \<Rightarrow> ncclIbConnectionMetadata" where
  "receiver_meta e remMeta name x m =
     m\<lparr> cm_addr := he_addr e CmplsRecords_mr, cm_sl := cm_sl remMeta, cm_tc := cm_tc remMeta, cm_ndevs := ndevs (vProps (rc_base (rn_comm x))), cm_devName := take MAX_MERGED_DEV_NAME name \<rparr>"

definition a_recv :: "hs_params \<Rightarrow> recv_conn hs_env \<Rightarrow> int \<Rightarrow> recv_conn hs_call \<Rightarrow> (flow \<times> recv_conn hs_call) option" where
  "a_recv p e nQpsPerDev c =
     with_comm c (\<lambda>x. andthen (transfer NCCL_SOCKET_RECV Fail (sz_meta p) (rn_sock x) c) (\<lambda>c.
       deref (stored_meta (sz_meta p) c) (\<lambda>remMeta.
       andthen (a_route p e remMeta c) (\<lambda>c.
       deref (at (pr_merged (hc_proc c)) (hc_dev c)) (\<lambda>md.
       deref (a_setup p e nQpsPerDev remMeta \<lparr> lo_call = c, lo_meta = zero_meta, lo_link = LINK_UNSPECIFIED \<rparr>) (\<lambda>(fl, l).
         if fl \<noteq> Go then Some (fl, lo_call l)
         else deref (hc_comm (lo_call l)) (\<lambda>x.
           let c1 = set_stage ncclIbCommStateSend (lo_call l) in
           if \<not> he_buffer e then Some (Fail ncclSystemError, c1\<lparr> hc_buffer := None \<rparr>)
           else go (store (sz_meta p) (Metadata (receiver_meta e remMeta (md_devName md) x (lo_meta l))) (c1\<lparr> hc_buffer := Some (encode (sz_meta p) Zeroed) \<rparr>)))))))))"

definition a_send :: "hs_params \<Rightarrow> recv_conn hs_call \<Rightarrow> (flow \<times> recv_conn hs_call) option" where
  "a_send p c = with_comm c (\<lambda>x. andthen (transfer NCCL_SOCKET_SEND Fail (sz_meta p) (rn_sock x) c) (\<lambda>c. go (set_stage ncclIbCommStatePendingReady c)))"

text \<open>The bytes of the ready flag go into the communicator.\<close>

definition a_recv_ready :: "recv_conn hs_call \<Rightarrow> (flow \<times> recv_conn hs_call) option" where
  "a_recv_ready c =
     with_comm c (\<lambda>x. deref (transfer_on NCCL_SOCKET_RECV Fail 4 (rn_sock x) (rn_readyBytes x) c) (\<lambda>(fl, bs, c).
       let x1 = x\<lparr> rn_readyBytes := bs \<rparr> in
       if fl \<noteq> Go then Some (fl, set_comm x1 c)
       else deref (decode 4 bs) (\<lambda>m. case m of Ready_flag v \<Rightarrow> go (set_comm (upd_rvbase (\<lambda>b. b\<lparr> ready := v \<rparr>) x1) c) | _ \<Rightarrow> None)))"

fun accept_entry :: "ncclIbCommState \<Rightarrow> nat option" where
  "accept_entry ncclIbCommStateStart = Some 0"
| "accept_entry ncclIbCommStateAccept = Some 1"
| "accept_entry ncclIbCommStateRecvDevList = Some 2"
| "accept_entry ncclIbCommStateSendDevList = Some 3"
| "accept_entry ncclIbCommStateRecv = Some 4"
| "accept_entry ncclIbCommStateSend = Some 5"
| "accept_entry ncclIbCommStatePendingReady = Some 6"
| "accept_entry _ = None"

definition accept_parts :: "hs_params \<Rightarrow> recv_conn hs_env \<Rightarrow> int \<Rightarrow> (recv_conn hs_call \<Rightarrow> (flow \<times> recv_conn hs_call) option) list" where
  "accept_parts p e nQpsPerDev = [a_start p e, a_check e, a_recv_devs p nQpsPerDev, a_send_devs p, a_recv p e nQpsPerDev, a_send p, a_recv_ready]"

text \<open>The stage is allocated on the first call; a fresh one is in the start state.\<close>

definition ncclIbAcceptImpl :: "hs_params \<Rightarrow> recv_conn hs_env \<Rightarrow> int \<Rightarrow> recv_conn hs_call \<Rightarrow> ((ncclResult \<times> recv_conn option) \<times> recv_conn hs_call) option" where
  "ncclIbAcceptImpl p e nQpsPerDev c =
     (if hc_state c = ncclIbCommStateStart \<and> \<not> he_stage e then Some ((ncclSystemError, None), c)
      else case accept_entry (hc_state c) of
        None \<Rightarrow> Some ((ncclInternalError, None), c)
      | Some k \<Rightarrow> conclude (\<lambda>x. rc_base (rn_comm x)) (he_qp e) (run_parts (drop k (accept_parts p e nQpsPerDev)) c))"

definition ncclIbAccept :: "hs_params \<Rightarrow> recv_conn hs_env \<Rightarrow> recv_conn hs_call \<Rightarrow> ((ncclResult \<times> recv_conn option) \<times> recv_conn hs_call) option" where
  "ncclIbAccept p e c = ncclIbAcceptImpl p e (int_of_long (IbQpsPerConn p)) c"

end
