(* ===== verification/NetIb_Connect_Facts.thy ===== *)
theory NetIb_Connect_Facts
  imports NetIb_Connect
begin

text \<open>
  The two sides of a connection fit together. The loops over queue pairs have a common contract, the interface \<open>indexed_step\<close>: iteration \<open>i\<close> touches entry \<open>i\<close> only and relates the entry before and
  after by \<open>R\<close>; then the loop relates all its entries so.
\<close>

locale indexed_step =
  fixes f :: "nat \<Rightarrow> qp_setup \<Rightarrow> qp_setup outcome"
    and R :: "nat \<Rightarrow> ncclIbQp \<Rightarrow> ncclIbQpInfo \<Rightarrow> ncclIbQp \<Rightarrow> ncclIbQpInfo \<Rightarrow> bool"
  assumes step_entry: "f i st = Some (r, st') \<Longrightarrow> nccl_ok r \<Longrightarrow> R i (su_qps st ! i) (su_info st ! i) (su_qps st' ! i) (su_info st' ! i)"
    and step_frame: "f i st = Some (r, st') \<Longrightarrow> j \<noteq> i \<Longrightarrow> su_qps st' ! j = su_qps st ! j \<and> su_info st' ! j = su_info st ! j"
begin

lemma loop_frame: "for_each f is st = Some (r, st') \<Longrightarrow> j \<notin> set is \<Longrightarrow> su_qps st' ! j = su_qps st ! j \<and> su_info st' ! j = su_info st ! j"
proof (induction "is" arbitrary: st)
  case (Cons i "is")
  then obtain r1 st1 where f: "f i st = Some (r1, st1)" "(if nccl_ok r1 then for_each f is st1 else Some (r1, st1)) = Some (r, st')"
    by (auto simp: chk_def split: option.splits)
  show ?case using step_frame [OF f(1), of j] f(2) Cons.IH [of st1] Cons.prems(2) by (cases "nccl_ok r1") auto
qed simp

lemma loop_entries:
  "for_each f is st = Some (r, st') \<Longrightarrow> nccl_ok r \<Longrightarrow> distinct is \<Longrightarrow> i \<in> set is \<Longrightarrow> R i (su_qps st ! i) (su_info st ! i) (su_qps st' ! i) (su_info st' ! i)"
proof (induction "is" arbitrary: st)
  case (Cons k "is")
  obtain r1 st1 where f: "f k st = Some (r1, st1)" "nccl_ok r1" "for_each f is st1 = Some (r, st')"
    using Cons.prems(1,2) by (auto simp: chk_def split: option.splits if_splits)
  show ?case
  proof (cases "i = k")
    case True
    then show ?thesis using step_entry [OF f(1,2)] loop_frame [OF f(3), of k] Cons.prems(3) by simp
  next
    case False
    then show ?thesis using Cons.IH [OF f(3)] step_frame [OF f(1) False] Cons.prems by simp
  qed
qed simp

end

section \<open>Creating and connecting one queue pair\<close>

text \<open>A queue pair that was created on a device and whose entry of the metadata tells so.\<close>

definition announced :: "int \<Rightarrow> ncclIbQp \<Rightarrow> ncclIbQpInfo \<Rightarrow> bool" where
  "announced d qp qi \<longleftrightarrow> qp_devIndex qp = d \<and> qi_devIndex qi = d \<and> qi_qpn qi = qp_qpn qp"

text \<open>A queue pair that is connected to the one the peer announced as entry \<open>i\<close>.\<close>

definition connected_to :: "ncclIbConnectionMetadata \<Rightarrow> ncclIbQpInfo list \<Rightarrow> nat \<Rightarrow> ncclIbQp \<Rightarrow> bool" where
  "connected_to remMeta infos i qp \<longleftrightarrow> ra_remoteQpNum (qp_rtrAttr qp) = qi_qpn (infos ! i) \<and> 0 \<le> qi_devIndex (infos ! i) \<and> nat (qi_devIndex (infos ! i)) < length (cm_devs remMeta)
     \<and> ra_remoteGid (qp_rtrAttr qp) = di_gid (cm_devs remMeta ! nat (qi_devIndex (infos ! i))) \<and> ra_remoteLid (qp_rtrAttr qp) = di_lid (cm_devs remMeta ! nat (qi_devIndex (infos ! i)))"

lemma put_nth [simp]:
  "su_qps (put_qp i qp l st) ! j = (if j = i \<and> i < length (su_qps st) then qp else su_qps st ! j)" "su_info (put_qp i qp l st) = su_info st"
  "su_info (put_info i qi st) ! j = (if j = i \<and> i < length (su_info st) then qi else su_info st ! j)" "su_qps (put_info i qi st) = su_qps st"
  "length (su_qps (put_qp i qp l st)) = length (su_qps st)" "length (su_info (put_info i qi st)) = length (su_info st)"
  "su_log (put_qp i qp l st) = l" "su_log (put_info i qi st) = su_log st" "su_devs (put_qp i qp l st) = su_devs st" "su_devs (put_info i qi st) = su_devs st"
  by (auto simp: put_qp_def put_info_def nth_list_update_eq not_less list_update_beyond)

lemma lower_mtu_keeps [simp]: "su_qps (lower_mtu n mtu st) = su_qps st" "su_info (lower_mtu n mtu st) = su_info st" "su_log (lower_mtu n mtu st) = su_log st"
  by (simp_all add: lower_mtu_def)

lemma with_device_Some:
  assumes "with_device dbs d i st k = Some x"
  obtains db dev where "at dbs d = Some db" "at (su_devs st) (ibDevN db) = Some dev" "i < length (su_qps st)" "i < length (su_info st)" "k db dev (su_qps st ! i) (su_info st ! i) = Some x"
proof -
  obtain db dev qp qi where h: "at dbs d = Some db" "at (su_devs st) (ibDevN db) = Some dev" "at (su_qps st) (int i) = Some qp" "at (su_info st) (int i) = Some qi" "k db dev qp qi = Some x"
    using assms by (auto simp: with_device_def deref_def split: option.splits)
  then have "i < length (su_qps st)" "i < length (su_info st)" "qp = su_qps st ! i" "qi = su_info st ! i" by (auto simp: at_def split: if_splits)
  then show ?thesis using h that by blast
qed

lemma with_remote_Some:
  assumes "with_remote m infos i k = Some x"
  obtains "0 \<le> qi_devIndex (infos ! i)" "nat (qi_devIndex (infos ! i)) < length (cm_devs m)" "k (infos ! i) (cm_devs m ! nat (qi_devIndex (infos ! i))) = Some x"
proof -
  obtain ri rd where h: "at infos (int i) = Some ri" "at (cm_devs m) (qi_devIndex ri) = Some rd" "k ri rd = Some x"
    using assms by (auto simp: with_remote_def deref_def split: option.splits)
  then have "ri = infos ! i" "0 \<le> qi_devIndex ri" "nat (qi_devIndex ri) < length (cm_devs m)" "rd = cm_devs m ! nat (qi_devIndex ri)" by (auto simp: at_def split: if_splits)
  then show ?thesis using h that by simp
qed

text \<open>What the building blocks of an iteration do to its entry and to the others.\<close>

definition only :: "nat \<Rightarrow> qp_setup \<Rightarrow> qp_setup \<Rightarrow> bool" where
  "only i st st' \<longleftrightarrow> length (su_qps st') = length (su_qps st) \<and> length (su_info st') = length (su_info st) \<and> (\<forall>j. j \<noteq> i \<longrightarrow> su_qps st' ! j = su_qps st ! j \<and> su_info st' ! j = su_info st ! j)"

lemma only_refl [simp]: "only i st st"
  by (simp add: only_def)

lemma only_trans: "only i st1 st2 \<Longrightarrow> only i st2 st3 \<Longrightarrow> only i st1 st3"
  by (simp add: only_def)

lemma only_put [simp]: "only i st (put_qp i qp l st)" "only i st (put_info i qi st)" "only i st (st\<lparr> su_ooo := b \<rparr>)" "only i st (lower_mtu n mtu st)"
  by (simp_all add: only_def)

lemma only_puts [simp]: "only i st (put_info i qi (put_qp i qp l st))"
  by (rule only_trans [OF only_put(1) only_put(2)])

lemma created_to_init_facts:
  assumes "created_to_init e db dev d flags i qp qi l st = Some (r, st')"
  shows "only i st st'" and "i < length (su_qps st) \<Longrightarrow> i < length (su_info st) \<Longrightarrow> announced d (su_qps st' ! i) (su_info st' ! i) \<and> qp_remDevIdx (su_qps st' ! i) = qp_remDevIdx qp
      \<and> qp_qpn (su_qps st' ! i) = qp_qpn qp"
  using assms by (auto simp: created_to_init_def Let_def announced_def split: prod.splits)

lemma rtr_rts_facts:
  assumes "rtr_rts p e rts i qp st = Some (r, st')" and rts: "\<And>q. qp_qpn (rts q) = qp_qpn q \<and> qp_devIndex (rts q) = qp_devIndex q \<and> qp_remDevIdx (rts q) = qp_remDevIdx q \<and> qp_rtrAttr (rts q) = qp_rtrAttr q"
  shows "only i st st'" "su_info st' = su_info st" and "i < length (su_qps st) \<Longrightarrow> nccl_ok r \<Longrightarrow> qp_qpn (su_qps st' ! i) = qp_qpn qp \<and> qp_devIndex (su_qps st' ! i) = qp_devIndex qp
      \<and> qp_remDevIdx (su_qps st' ! i) = qp_remDevIdx qp \<and> qp_rtrAttr (su_qps st' ! i) = qp_rtrAttr qp"
  using assms(1) rts by (auto simp: rtr_rts_def deref_def split: option.splits if_splits)

text \<open>The steps on ECE change neither number, device nor address.\<close>

definition same_ends :: "ncclIbQp \<Rightarrow> ncclIbQp \<Rightarrow> bool" where
  "same_ends q q' \<longleftrightarrow> qp_qpn q' = qp_qpn q \<and> qp_devIndex q' = qp_devIndex q \<and> qp_remDevIdx q' = qp_remDevIdx q \<and> qp_rtrAttr q' = qp_rtrAttr q"

definition same_info :: "ncclIbQpInfo \<Rightarrow> ncclIbQpInfo \<Rightarrow> bool" where
  "same_info a b \<longleftrightarrow> qi_qpn b = qi_qpn a \<and> qi_devIndex b = qi_devIndex a"

lemma ece_facts:
  "offer_ece p e i st = Some (r, st') \<Longrightarrow> only i st st' \<and> same_ends (su_qps st ! i) (su_qps st' ! i) \<and> same_info (su_info st ! i) (su_info st' ! i)"
  "set_ece e ri i st = Some (r, st') \<Longrightarrow> only i st st' \<and> same_ends (su_qps st ! i) (su_qps st' ! i) \<and> same_info (su_info st ! i) (su_info st' ! i)"
  "reduced_ece e ri i st = Some (r, st') \<Longrightarrow> only i st st' \<and> same_ends (su_qps st ! i) (su_qps st' ! i) \<and> same_info (su_info st ! i) (su_info st' ! i)"
  by (auto simp: offer_ece_def set_ece_def reduced_ece_def Let_def same_ends_def same_info_def split: if_splits prod.splits)

lemma same_announced: "same_ends q q' \<Longrightarrow> same_info qi qi' \<Longrightarrow> announced d q qi \<Longrightarrow> announced d q' qi'"
  by (simp add: same_ends_def same_info_def announced_def)

section \<open>The iterations\<close>

lemma stripe_Some: "stripe i n = Some d \<longleftrightarrow> 0 < n \<and> d = int i mod n"
  by (auto simp: stripe_def)

text \<open>What holds of a result and a state whenever a step returns, and rules for the ways steps are put together.\<close>

definition gives :: "qp_setup outcome \<Rightarrow> (ncclResult \<Rightarrow> qp_setup \<Rightarrow> bool) \<Rightarrow> bool" where
  "gives c Q \<longleftrightarrow> (\<forall>r st. c = Some (r, st) \<longrightarrow> Q r st)"

lemma gives_ret [simp]: "gives (ret r st) Q \<longleftrightarrow> Q r st"
  by (simp add: gives_def)

lemma gives_chk:
  assumes "gives c Q'" "\<And>r st. Q' r st \<Longrightarrow> \<not> nccl_ok r \<Longrightarrow> Q r st" "\<And>r st. Q' r st \<Longrightarrow> nccl_ok r \<Longrightarrow> gives (k st) Q"
  shows "gives (chk c k) Q"
  using assms unfolding gives_def chk_def by (auto split: option.splits if_splits)

lemma gives_mono: "gives c Q' \<Longrightarrow> (\<And>r st. Q' r st \<Longrightarrow> Q r st) \<Longrightarrow> gives c Q"
  by (simp add: gives_def)

lemma gives_deref: "(\<And>a. x = Some a \<Longrightarrow> gives (k a) Q) \<Longrightarrow> gives (deref x k) Q"
  by (auto simp: gives_def deref_def split: option.splits)

lemma gives_device:
  assumes "\<And>db dev. i < length (su_qps st) \<Longrightarrow> i < length (su_info st) \<Longrightarrow> gives (k db dev (su_qps st ! i) (su_info st ! i)) Q"
  shows "gives (with_device dbs d i st k) Q"
  unfolding gives_def by (intro allI impI) (erule with_device_Some, use assms in \<open>auto simp: gives_def\<close>)

lemma gives_remote:
  assumes "0 \<le> qi_devIndex (infos ! i) \<Longrightarrow> nat (qi_devIndex (infos ! i)) < length (cm_devs m) \<Longrightarrow> gives (k (infos ! i) (cm_devs m ! nat (qi_devIndex (infos ! i)))) Q"
  shows "gives (with_remote m infos i k) Q"
  unfolding gives_def by (intro allI impI) (erule with_remote_Some, use assms in \<open>auto simp: gives_def\<close>)

text \<open>The two relations of the iterations: a queue pair is announced, or connected.\<close>

definition announces :: "nat \<Rightarrow> int \<Rightarrow> qp_setup \<Rightarrow> ncclResult \<Rightarrow> qp_setup \<Rightarrow> bool" where
  "announces i d st r st' \<longleftrightarrow> only i st st' \<and> (nccl_ok r \<longrightarrow> announced d (su_qps st' ! i) (su_info st' ! i))"

definition connects :: "ncclIbConnectionMetadata \<Rightarrow> ncclIbQpInfo list \<Rightarrow> nat \<Rightarrow> qp_setup \<Rightarrow> ncclResult \<Rightarrow> qp_setup \<Rightarrow> bool" where
  "connects m infos i st r st' \<longleftrightarrow> only i st st' \<and> (nccl_ok r \<longrightarrow> connected_to m infos i (su_qps st' ! i) \<and> su_info st' ! i = su_info st ! i
     \<and> qp_qpn (su_qps st' ! i) = qp_qpn (su_qps st ! i) \<and> qp_devIndex (su_qps st' ! i) = qp_devIndex (su_qps st ! i))"

lemma init_announces:
  assumes "i < length (su_qps st)" "i < length (su_info st)" "only i st st1"
  shows "gives (created_to_init e db dev d flags i qp qi l st1)
    (\<lambda>r st'. announces i d st r st' \<and> (nccl_ok r \<longrightarrow> qp_remDevIdx (su_qps st' ! i) = qp_remDevIdx qp))"
proof -
  have len: "i < length (su_qps st1)" "i < length (su_info st1)" using assms by (simp_all add: only_def)
  show ?thesis
    unfolding gives_def
  proof (intro allI impI)
    fix r st'
    assume c: "created_to_init e db dev d flags i qp qi l st1 = Some (r, st')"
    show "announces i d st r st' \<and> (nccl_ok r \<longrightarrow> qp_remDevIdx (su_qps st' ! i) = qp_remDevIdx qp)"
      using created_to_init_facts(2) [OF c len] only_trans [OF assms(3) created_to_init_facts(1) [OF c]] by (simp add: announces_def)
  qed
qed

lemma sender_qp_create_announces: "gives (sender_qp_create p e b dbs i st) (announces i (int i mod ndevs (vProps b)) st)"
  unfolding sender_qp_create_def
proof (intro gives_deref gives_device)
  fix d db dev
  assume d: "stripe i (ndevs (vProps b)) = Some d" and len: "i < length (su_qps st)" "i < length (su_info st)"
  let ?create = "\<lambda>ooo. ncclIbQpCreate p e (data_attr db dev (nqps b) ooo 0 (word_of_nat (2 * NET_IB_MAX_REQUESTS))) (su_qps st ! i, su_log st)"
  have after: "gives (chk (created_to_init e db dev d IBV_ACCESS_REMOTE_WRITE i qp1 (su_info st ! i) l ((put_qp i qp1 l st)\<lparr> su_ooo := ooo \<rparr>)) (offer_ece p e i)) (announces i d st)" for qp1 l ooo
  proof (rule gives_chk [OF init_announces [OF len only_trans [OF only_put(1) only_put(3)]]])
    show "gives (offer_ece p e i st2) (announces i d st)"
      if "announces i d st r st2 \<and> (nccl_ok r \<longrightarrow> qp_remDevIdx (su_qps st2 ! i) = qp_remDevIdx qp1)" "nccl_ok r" for r st2
      using that ece_facts(1) only_trans same_announced unfolding gives_def announces_def by blast
  qed simp
  have err: "\<not> nccl_ok r" if "ooo_check p b dev (su_ooo st) = Inl r" for r using that by (auto simp: ooo_check_def nccl_ok_def split: if_splits)
  show "gives (case ooo_check p b dev (su_ooo st) of Inl r \<Rightarrow> ret r st
       | Inr ooo \<Rightarrow> (case ?create ooo of (r, qp1, l) \<Rightarrow> let st1 = (put_qp i qp1 l st)\<lparr> su_ooo := ooo \<rparr> in
              if \<not> nccl_ok r then ret r st1 else chk (created_to_init e db dev d IBV_ACCESS_REMOTE_WRITE i qp1 (su_info st ! i) l st1) (offer_ece p e i)))
      (announces i (int i mod ndevs (vProps b)) st)"
    using err after d only_trans [OF only_put(1) only_put(3)] by (auto simp: announces_def stripe_Some Let_def split: sum.splits prod.splits)
qed

lemma rtr_rts_connects:
  assumes "i < length (su_qps st)" and rts: "\<And>q. same_ends q (rts q)" and c: "connected_to m infos i qp" "qp_qpn qp = qp_qpn (su_qps st ! i)" "qp_devIndex qp = qp_devIndex (su_qps st ! i)"
  shows "gives (rtr_rts p e rts i qp st) (\<lambda>r st'. connects m infos i st r st' \<and> (nccl_ok r \<longrightarrow> qp_remDevIdx (su_qps st' ! i) = qp_remDevIdx qp))"
proof -
  have "qp_qpn (rts q) = qp_qpn q \<and> qp_devIndex (rts q) = qp_devIndex q \<and> qp_remDevIdx (rts q) = qp_remDevIdx q \<and> qp_rtrAttr (rts q) = qp_rtrAttr q" for q
    using rts by (simp add: same_ends_def)
  note f = rtr_rts_facts [OF _ this]
  show ?thesis unfolding gives_def connects_def using f assms(1) c by (auto simp: connected_to_def)
qed

lemma timeouts_same_ends: "same_ends q (with_timeouts p q)"
  by (simp add: same_ends_def with_timeouts_def)

lemma rtr_attr_connected:
  assumes "0 \<le> qi_devIndex (infos ! i)" "nat (qi_devIndex (infos ! i)) < length (cm_devs m)"
  shows "connected_to m infos i (qp\<lparr> qp_rtrAttr := rtr_attr db dev (infos ! i) (cm_devs m ! nat (qi_devIndex (infos ! i))) mtu tc sl \<rparr>)"
  using assms by (simp add: connected_to_def rtr_attr_def)

lemma accept_ece_ends: "accept_ece e ri i qp = (r, qp1) \<Longrightarrow> same_ends qp qp1"
  by (auto simp: accept_ece_def same_ends_def split: if_splits prod.splits)

lemma sender_qp_connects:
  "gives (sender_qp_connect p e dbs m i st) (\<lambda>r st'. connects m (cm_qpInfo m) i st r st' \<and> (nccl_ok r \<longrightarrow> qp_remDevIdx (su_qps st' ! i) = qi_devIndex (cm_qpInfo m ! i)))"
  (is "gives _ ?Q")
  unfolding sender_qp_connect_def
proof (intro gives_deref gives_device gives_remote)
  fix qp0 db dev
  assume len: "i < length (su_qps st)" "i < length (su_info st)"
    and rem: "0 \<le> qi_devIndex (cm_qpInfo m ! i)" "nat (qi_devIndex (cm_qpInfo m ! i)) < length (cm_devs m)"
  let ?ri = "cm_qpInfo m ! i" and ?rd = "cm_devs m ! nat (qi_devIndex (cm_qpInfo m ! i))"
  let ?a = "rtr_attr db dev ?ri ?rd (min (di_mtu ?rd) (pa_active_mtu (dev_portAttr dev))) (peer_tc ?rd (cm_tc m)) (cm_sl m)"
  obtain r qp1 where a: "accept_ece e ?ri i ((su_qps st ! i)\<lparr> qp_remDevIdx := qi_devIndex ?ri \<rparr>) = (r, qp1)" by fastforce
  note ends = accept_ece_ends [OF a]
  have "gives (rtr_rts p e (with_timeouts p) i (qp1\<lparr> qp_rtrAttr := ?a \<rparr>) st) ?Q"
    by (rule gives_mono [OF rtr_rts_connects [OF len(1) timeouts_same_ends rtr_attr_connected [OF rem]]]) (use ends in \<open>auto simp: same_ends_def\<close>)
  then show "gives (case accept_ece e ?ri i ((su_qps st ! i)\<lparr> qp_remDevIdx := qi_devIndex ?ri \<rparr>) of (r, qp1) \<Rightarrow>
       if \<not> nccl_ok r then ret r (put_qp i qp1 (su_log st) st) else rtr_rts p e (with_timeouts p) i (qp1\<lparr> qp_rtrAttr := ?a \<rparr>) st) ?Q"
    by (simp add: a connects_def)
qed

lemma same_ends_connected: "same_ends q q' \<Longrightarrow> connected_to m infos i q \<Longrightarrow> connected_to m infos i q'"
  by (simp add: same_ends_def connected_to_def)

definition receives :: "ncclIbConnectionMetadata \<Rightarrow> int \<Rightarrow> nat \<Rightarrow> qp_setup \<Rightarrow> ncclResult \<Rightarrow> qp_setup \<Rightarrow> bool" where
  "receives m d i st r st' \<longleftrightarrow> only i st st' \<and> (nccl_ok r \<longrightarrow> announced d (su_qps st' ! i) (su_info st' ! i) \<and> connected_to m (cm_qpInfo m) i (su_qps st' ! i)
     \<and> qp_remDevIdx (su_qps st' ! i) = qi_devIndex (cm_qpInfo m ! i))"

lemma receiver_connects:
  assumes len: "i < length (su_qps st2)" and rem: "0 \<le> qi_devIndex (cm_qpInfo m ! i)" "nat (qi_devIndex (cm_qpInfo m ! i)) < length (cm_devs m)"
    and prev: "only i st st2" "announced d (su_qps st2 ! i) (su_info st2 ! i)" "qp_remDevIdx (su_qps st2 ! i) = qi_devIndex (cm_qpInfo m ! i)"
  shows "gives (receiver_connect p e db m (cm_qpInfo m ! i) (cm_devs m ! nat (qi_devIndex (cm_qpInfo m ! i))) i st2) (receives m d i st)"
proof -
  let ?rd = "cm_devs m ! nat (qi_devIndex (cm_qpInfo m ! i))"
  define st3 where "st3 = lower_mtu (ibDevN db) (di_mtu ?rd) st2"
  define dev where "dev = su_devs st3 ! nat (ibDevN db)"
  define qp where "qp = (su_qps st3 ! i)\<lparr> qp_rtrAttr := rtr_attr db dev (cm_qpInfo m ! i) ?rd (pa_active_mtu (dev_portAttr dev)) (receiver_tc p ?rd (cm_tc m)) (cm_sl m) \<rparr>"
  have o3: "only i st st3" unfolding st3_def by (rule only_trans [OF prev(1) only_put(4)])
  have q: "connected_to m (cm_qpInfo m) i qp" unfolding qp_def by (rule rtr_attr_connected [OF rem])
  have q3: "su_qps st3 = su_qps st2" "su_info st3 = su_info st2" by (simp_all add: st3_def)
  have l3: "i < length (su_qps st3)" "qp_qpn qp = qp_qpn (su_qps st3 ! i)" "qp_devIndex qp = qp_devIndex (su_qps st3 ! i)" using len by (simp_all add: q3 qp_def)
  have "gives (chk (rtr_rts p e (with_timeouts p) i qp st3) (reduced_ece e (cm_qpInfo m ! i) i)) (receives m d i st)"
  proof (rule gives_chk [OF rtr_rts_connects [OF l3(1) timeouts_same_ends q l3(2,3)]], goal_cases)
    case (1 r st4)
    then show ?case using only_trans [OF o3] by (auto simp: receives_def connects_def)
  next
    case (2 r st4)
    then have c: "connects m (cm_qpInfo m) i st3 r st4" "qp_remDevIdx (su_qps st4 ! i) = qi_devIndex (cm_qpInfo m ! i)" using prev(3) by (simp_all add: qp_def q3)
    have o4: "only i st st4" using c(1) only_trans [OF o3] by (simp add: connects_def)
    have a4: "announced d (su_qps st4 ! i) (su_info st4 ! i)" using c(1) 2(2) prev(2) by (simp add: connects_def announced_def q3)
    show ?case
      unfolding gives_def
    proof (intro allI impI)
      fix r' st5
      assume "reduced_ece e (cm_qpInfo m ! i) i st4 = Some (r', st5)"
      note f = ece_facts(3) [OF this]
      have "connected_to m (cm_qpInfo m) i (su_qps st4 ! i)" using c(1) 2(2) by (simp add: connects_def)
      then have "connected_to m (cm_qpInfo m) i (su_qps st5 ! i)" using same_ends_connected f by blast
      moreover have "announced d (su_qps st5 ! i) (su_info st5 ! i)" using same_announced a4 f by blast
      moreover have "qp_remDevIdx (su_qps st5 ! i) = qi_devIndex (cm_qpInfo m ! i)" using f c(2) by (simp add: same_ends_def)
      ultimately show "receives m d i st r' st5" using only_trans [OF o4] f by (simp add: receives_def)
    qed
  qed
  then show ?thesis by (simp add: receiver_connect_def Let_def st3_def [symmetric] dev_def [symmetric] qp_def [symmetric])
qed

text \<open>Creation and destruction leave the index of the remote device alone.\<close>

lemma destroy_remDevIdx: "qp_remDevIdx (fst (snd (ncclIbQpDestroy e s))) = qp_remDevIdx (fst s)"
  by (cases s) (auto simp: ncclIbQpDestroy_def NCCLCHECK_def Let_def split: prod.splits if_splits)

lemma hint_remDevIdx: "qp_remDevIdx (snd (ncclIbQpCreateMrcHint p e ca qp)) = qp_remDevIdx qp"
  by (simp add: ncclIbQpCreateMrcHint_def Let_def split: prod.splits)

lemma create_remDevIdx: "qp_remDevIdx (fst (snd (ncclIbQpCreate p e ca (qp, l)))) = qp_remDevIdx qp"
proof -
  obtain r1 qp1 where h: "ncclIbQpCreateMrcHint p e ca qp = (r1, qp1)" by fastforce
  then have "qp_remDevIdx qp1 = qp_remDevIdx qp" using hint_remDevIdx [of p e ca qp] by simp
  then show ?thesis using destroy_remDevIdx by (simp add: ncclIbQpCreate_def h Let_def split: prod.splits)
qed

lemma receiver_create_remDevIdx: "ncclIbReceiverQpCreate p e ca (qp, l) = (r, qp1, l1) \<Longrightarrow> qp_remDevIdx qp1 = qp_remDevIdx qp"
  unfolding ncclIbReceiverQpCreate_def using create_remDevIdx [of p e _ qp l] by (metis fst_conv snd_conv)

lemma receiver_qp_receives: "gives (receiver_qp_create p ip e b dbs res m i st) (receives m (int i mod ndevs (vProps b)) i st)"
  unfolding receiver_qp_create_def Let_def
proof (intro gives_deref gives_device gives_remote)
  fix d db dev
  assume d: "stripe i (ndevs (vProps b)) = Some d" and len: "i < length (su_qps st)" "i < length (su_info st)"
    and rem: "0 \<le> qi_devIndex (cm_qpInfo m ! i)" "nat (qi_devIndex (cm_qpInfo m ! i)) < length (cm_devs m)"
  let ?ri = "cm_qpInfo m ! i" and ?rd = "cm_devs m ! nat (qi_devIndex (cm_qpInfo m ! i))" and ?qi = "su_info st ! i"
  let ?flags = "IBV_ACCESS_REMOTE_WRITE + IBV_ACCESS_REMOTE_ATOMIC + IBV_ACCESS_REMOTE_READ"
  let ?qp = "(su_qps st ! i)\<lparr> qp_remDevIdx := qi_devIndex ?ri, qp_devIndex := d \<rparr>"
  have o: "only i st ((put_qp i qp1 l st)\<lparr> su_ooo := ooo \<rparr>)" for qp1 l ooo by (rule only_trans [OF only_put(1) only_put(3)])
  have after: "gives (chk (created_to_init e db dev d ?flags i qp1 ?qi l ((put_qp i qp1 l st)\<lparr> su_ooo := ooo \<rparr>)) (\<lambda>st2. chk (set_ece e ?ri i st2) (receiver_connect p e db m ?ri ?rd i)))
      (receives m d i st)" if q1: "qp_remDevIdx qp1 = qi_devIndex ?ri" for qp1 l ooo
  proof (rule gives_chk [OF init_announces [OF len o]], goal_cases)
    case (2 r st2)
    then have a: "only i st st2" "announced d (su_qps st2 ! i) (su_info st2 ! i)" "qp_remDevIdx (su_qps st2 ! i) = qi_devIndex ?ri" using q1 by (simp_all add: announces_def)
    show ?case
    proof (rule gives_chk [where Q' = "\<lambda>r st3. only i st2 st3 \<and> same_ends (su_qps st2 ! i) (su_qps st3 ! i) \<and> same_info (su_info st2 ! i) (su_info st3 ! i)"], goal_cases)
      case 1
      show ?case unfolding gives_def using ece_facts(2) by blast
    next
      case (2 r st3)
      then show ?case using only_trans [OF a(1)] by (simp add: receives_def)
    next
      case (3 r st3)
      have "only i st st3" using 3(1) only_trans [OF a(1)] by blast
      moreover have "i < length (su_qps st3)" using len \<open>only i st st3\<close> by (simp add: only_def)
      moreover have "announced d (su_qps st3 ! i) (su_info st3 ! i)" using 3(1) a(2) same_announced by blast
      moreover have "qp_remDevIdx (su_qps st3 ! i) = qi_devIndex ?ri" using 3(1) a(3) by (simp add: same_ends_def)
      ultimately show ?case using receiver_connects [OF _ rem] by blast
    qed
  qed (simp add: announces_def receives_def)
  have err: "\<not> nccl_ok r" if "receiver_rq_size b res = Inl r \<or> (\<exists>n. receiver_ooo_check p b dev n (su_ooo st) = Inl r)" for r
    using that by (auto simp: receiver_rq_size_def ncclIbResiliencyDataRqSizeGet_def ncclIbCommBaseGetNqpsPerRequest_def receiver_ooo_check_def ooo_check_def nccl_ok_def Let_def split: if_splits sum.splits)
  show "gives (case receiver_rq_size b res of Inl r \<Rightarrow> ret r (put_qp i ?qp (su_log st) st)
      | Inr nrecv \<Rightarrow> (case receiver_ooo_check p b dev nrecv (su_ooo st) of Inl r \<Rightarrow> ret r (put_qp i ?qp (su_log st) st)
        | Inr ooo \<Rightarrow> (case ncclIbReceiverQpCreate p e (data_attr db dev (nqps b) ooo nrecv (receiver_sq_size ip b)) (?qp, su_log st) of (r, qp1, l) \<Rightarrow>
             if \<not> nccl_ok r then ret r ((put_qp i qp1 l st)\<lparr> su_ooo := ooo \<rparr>)
             else chk (created_to_init e db dev d ?flags i qp1 ?qi l ((put_qp i qp1 l st)\<lparr> su_ooo := ooo \<rparr>)) (\<lambda>st2. chk (set_ece e ?ri i st2) (receiver_connect p e db m ?ri ?rd i)))))
    (receives m (int i mod ndevs (vProps b)) i st)"
    using err after o d by (auto simp: receives_def stripe_Some split: sum.splits prod.splits dest: receiver_create_remDevIdx)
qed

lemma aux_qp_create_announces: "gives (aux_qp_create p e dbs ty cqs nrecv nsend flags d i st) (announces i d st)"
  unfolding aux_qp_create_def
proof (intro gives_device gives_deref)
  fix db dev cq
  assume len: "i < length (su_qps st)" "i < length (su_info st)"
  have "gives (created_to_init e db dev d flags i qp1 (su_info st ! i) l (put_qp i qp1 l st)) (announces i d st)" for qp1 l
    by (rule gives_mono [OF init_announces [OF len only_put(1)]]) simp
  then show "gives (case ncclIbQpCreate p e (aux_attr db ty cq nrecv nsend) (su_qps st ! i, su_log st) of (r, qp1, l) \<Rightarrow>
      if \<not> nccl_ok r then ret r (put_qp i qp1 l st) else created_to_init e db dev d flags i qp1 (su_info st ! i) l (put_qp i qp1 l st)) (announces i d st)"
    by (simp add: announces_def split: prod.splits)
qed

lemma aux_qp_connects:
  assumes "\<And>q. same_ends q (rts q)"
  shows "gives (aux_qp_connect p e rts sending dbs m infos d i st) (\<lambda>r st'. connects m infos i st r st' \<and> (nccl_ok r \<longrightarrow> sending \<longrightarrow> qp_remDevIdx (su_qps st' ! i) = qi_devIndex (infos ! i)))"
  unfolding aux_qp_connect_def
proof (intro gives_device gives_remote)
  fix db dev
  assume len: "i < length (su_qps st)" "i < length (su_info st)" and rem: "0 \<le> qi_devIndex (infos ! i)" "nat (qi_devIndex (infos ! i)) < length (cm_devs m)"
  let ?rd = "cm_devs m ! nat (qi_devIndex (infos ! i))"
  let ?qp = "(su_qps st ! i)\<lparr> qp_remDevIdx := (if sending then qi_devIndex (infos ! i) else qp_remDevIdx (su_qps st ! i)),
      qp_rtrAttr := rtr_attr db dev (infos ! i) ?rd (min (di_mtu ?rd) (pa_active_mtu (dev_portAttr dev))) (peer_tc ?rd (cm_tc m)) (cm_sl m) \<rparr>"
  show "gives (rtr_rts p e rts i ?qp st) (\<lambda>r st'. connects m infos i st r st' \<and> (nccl_ok r \<longrightarrow> sending \<longrightarrow> qp_remDevIdx (su_qps st' ! i) = qi_devIndex (infos ! i)))"
    by (rule gives_mono [OF rtr_rts_connects [OF len(1) assms rtr_attr_connected [OF rem]]]) auto
qed

section \<open>The loops\<close>

lemma indexed_stepI:
  assumes "\<And>i st. gives (f i st) (\<lambda>r st'. only i st st' \<and> (nccl_ok r \<longrightarrow> R i (su_qps st ! i) (su_info st ! i) (su_qps st' ! i) (su_info st' ! i)))"
  shows "indexed_step f R"
  using assms by unfold_locales (auto simp: gives_def only_def)

text \<open>The relations of the entries before and after a loop.\<close>

definition create_rel :: "(nat \<Rightarrow> int) \<Rightarrow> nat \<Rightarrow> ncclIbQp \<Rightarrow> ncclIbQpInfo \<Rightarrow> ncclIbQp \<Rightarrow> ncclIbQpInfo \<Rightarrow> bool" where
  "create_rel dv i q qi q' qi' \<longleftrightarrow> announced (dv i) q' qi'"

definition connect_rel :: "ncclIbConnectionMetadata \<Rightarrow> ncclIbQpInfo list \<Rightarrow> nat \<Rightarrow> ncclIbQp \<Rightarrow> ncclIbQpInfo \<Rightarrow> ncclIbQp \<Rightarrow> ncclIbQpInfo \<Rightarrow> bool" where
  "connect_rel m infos i q qi q' qi' \<longleftrightarrow> connected_to m infos i q' \<and> qi' = qi \<and> qp_qpn q' = qp_qpn q \<and> qp_devIndex q' = qp_devIndex q \<and> qp_remDevIdx q' = qi_devIndex (infos ! i)"

definition receive_rel :: "ncclIbConnectionMetadata \<Rightarrow> ncclIbQpInfo list \<Rightarrow> (nat \<Rightarrow> int) \<Rightarrow> nat \<Rightarrow> ncclIbQp \<Rightarrow> ncclIbQpInfo \<Rightarrow> ncclIbQp \<Rightarrow> ncclIbQpInfo \<Rightarrow> bool" where
  "receive_rel m infos dv i q qi q' qi' \<longleftrightarrow> announced (dv i) q' qi' \<and> connected_to m infos i q'"

interpretation sender_create: indexed_step "sender_qp_create p e b dbs" "create_rel (\<lambda>i. int i mod ndevs (vProps b))" for p e b dbs
  by (rule indexed_stepI, rule gives_mono [OF sender_qp_create_announces]) (simp add: announces_def create_rel_def)

interpretation sender_connect: indexed_step "sender_qp_connect p e dbs m" "connect_rel m (cm_qpInfo m)" for p e dbs m
  by (rule indexed_stepI, rule gives_mono [OF sender_qp_connects]) (auto simp: connects_def connect_rel_def)

interpretation receiver: indexed_step "receiver_qp_create p ip e b dbs res m"
    "\<lambda>i q qi q' qi'. receive_rel m (cm_qpInfo m) (\<lambda>i. int i mod ndevs (vProps b)) i q qi q' qi' \<and> qp_remDevIdx q' = qi_devIndex (cm_qpInfo m ! i)" for p ip e b dbs res m
  by (rule indexed_stepI, rule gives_mono [OF receiver_qp_receives]) (simp add: receives_def receive_rel_def)

interpretation probing_create: indexed_step "\<lambda>i. aux_qp_create p e dbs ty cqs nrecv nsend flags (int i) i" "create_rel int" for p e dbs ty cqs nrecv nsend flags
  by (rule indexed_stepI, rule gives_mono [OF aux_qp_create_announces]) (simp add: announces_def create_rel_def)

interpretation probing_connect: indexed_step "\<lambda>i. aux_qp_connect p e (with_timeouts p) True dbs m infos (int i) i" "connect_rel m infos" for p e dbs m infos
  by (rule indexed_stepI, rule gives_mono [OF aux_qp_connects [OF timeouts_same_ends]]) (auto simp: connects_def connect_rel_def)

lemma aux_receives:
  assumes "\<And>q. same_ends q (rts q)"
  shows "gives (deref (stripe i n) (\<lambda>d. chk (aux_qp_create p e dbs ty cqs nrecv nsend flags d i st) (aux_qp_connect p e rts False dbs m infos d i)))
    (\<lambda>r st'. only i st st' \<and> (nccl_ok r \<longrightarrow> receive_rel m infos (\<lambda>i. int i mod n) i (su_qps st ! i) (su_info st ! i) (su_qps st' ! i) (su_info st' ! i)))"
proof (rule gives_deref, rule gives_chk [OF aux_qp_create_announces], goal_cases)
  case (1 d r st1)
  then show ?case by (simp add: announces_def)
next
  case (2 d r st1)
  then have a: "only i st st1" "announced d (su_qps st1 ! i) (su_info st1 ! i)" by (simp_all add: announces_def)
  show ?case
    by (rule gives_mono [OF aux_qp_connects [OF assms]])
       (use a 2(1) only_trans [OF a(1)] in \<open>auto simp: connects_def receive_rel_def announced_def stripe_Some\<close>)
qed

interpretation aux_receiver: indexed_step
    "\<lambda>i st. deref (stripe i n) (\<lambda>d. chk (aux_qp_create p e dbs ty cqs nrecv nsend flags d i st) (aux_qp_connect p e (with_timeouts p) False dbs m infos d i))"
    "receive_rel m infos (\<lambda>i. int i mod n)" for n p e dbs ty cqs nrecv nsend flags m infos
  by (rule indexed_stepI, rule aux_receives [OF timeouts_same_ends])

lemma striped_create:
  "gives (deref (stripe i n) (\<lambda>d. aux_qp_create p e dbs ty cqs nrecv nsend flags d i st)) (announces i (int i mod n) st)"
  using aux_qp_create_announces by (intro gives_deref) (auto simp: stripe_Some)

interpretation recovery_create: indexed_step "\<lambda>i st. deref (stripe i n) (\<lambda>d. aux_qp_create p e dbs ty cqs nrecv nsend flags d i st)" "create_rel (\<lambda>i. int i mod n)"
    for n p e dbs ty cqs nrecv nsend flags
  by (rule indexed_stepI, rule gives_mono [OF striped_create]) (simp add: announces_def create_rel_def)

lemma same_ends_refl: "same_ends q q"
  by (simp add: same_ends_def)

interpretation recovery_connect: indexed_step "\<lambda>i st. deref (stripe i n) (\<lambda>d. aux_qp_connect p e (\<lambda>q. q) True dbs m infos d i st)" "connect_rel m infos" for n p e dbs m infos
  by (rule indexed_stepI, rule gives_deref, rule gives_mono [OF aux_qp_connects [OF same_ends_refl]]) (auto simp: connects_def connect_rel_def)

interpretation recovery_receiver: indexed_step
    "\<lambda>i st. deref (stripe i n) (\<lambda>d. chk (aux_qp_create p e dbs ty cqs nrecv nsend flags d i st) (aux_qp_connect p e (\<lambda>q. q) False dbs m infos d i))"
    "receive_rel m infos (\<lambda>i. int i mod n)" for n p e dbs ty cqs nrecv nsend flags m infos
  by (rule indexed_stepI, rule aux_receives [OF same_ends_refl])

section \<open>A whole side\<close>

text \<open>What the resiliency parts leave alone.\<close>

definition data_same :: "conn_setup \<Rightarrow> conn_setup \<Rightarrow> bool" where
  "data_same cs cs' \<longleftrightarrow> cs_base cs' = cs_base cs \<and> cm_qpInfo (cs_meta cs') = cm_qpInfo (cs_meta cs) \<and> recoveryEnabled (cs_res cs') = recoveryEnabled (cs_res cs)
     \<and> nProbingQps (cs_res cs') = nProbingQps (cs_res cs) \<and> nPortRecoveryQps (cs_res cs') = nPortRecoveryQps (cs_res cs)"

lemma on_aux_same:
  "on_probing f cs = Some (r, cs') \<Longrightarrow> data_same cs cs'" "on_recovery f cs = Some (r, cs') \<Longrightarrow> data_same cs cs'"
  by (auto simp: on_probing_def on_recovery_def deref_def Let_def data_same_def split: option.splits)

lemma data_same_refl [simp]: "data_same cs cs"
  by (simp add: data_same_def)

lemma data_same_trans: "data_same cs1 cs2 \<Longrightarrow> data_same cs2 cs3 \<Longrightarrow> data_same cs1 cs3"
  by (simp add: data_same_def)

lemma chk_same:
  assumes "chk c k = Some (r, cs')" "\<And>r cs1. c = Some (r, cs1) \<Longrightarrow> data_same cs cs1" "\<And>cs1 r. k cs1 = Some (r, cs') \<Longrightarrow> data_same cs1 cs'"
  shows "data_same cs cs'"
  using assms data_same_trans by (auto simp: chk_def split: option.splits if_splits)

lemma recovery_same:
  "ncclIbPortRecoverySenderQpsCreate p e n cs = Some (r, cs') \<Longrightarrow> data_same cs cs'"
  "ncclIbPortRecoverySenderQpsToRts p e m n cs = Some (r, cs') \<Longrightarrow> data_same cs cs'"
  "ncclIbPortRecoveryReceiverQpsCreateToRts p e m n cs = Some (r, cs') \<Longrightarrow> data_same cs cs'"
  by (auto simp: ncclIbPortRecoverySenderQpsCreate_def ncclIbPortRecoverySenderQpsToRts_def ncclIbPortRecoveryReceiverQpsCreateToRts_def split: if_splits elim: on_aux_same)

lemma resiliency_same:
  "ncclIbResiliencySenderCreateQps p e cs = Some (r, cs') \<Longrightarrow> data_same cs cs'"
  "ncclIbResiliencySenderQpsToRts p e m cs = Some (r, cs') \<Longrightarrow> data_same cs cs'"
  "ncclIbResiliencyReceiverQpsCreateToRts p e m cs = Some (r, cs') \<Longrightarrow> data_same cs cs'"
  unfolding ncclIbResiliencySenderCreateQps_def ncclIbResiliencySenderQpsToRts_def ncclIbResiliencyReceiverQpsCreateToRts_def
  by (erule chk_same; auto elim: on_aux_same recovery_same split: if_splits)+

text \<open>The data queue pairs and their entries of the metadata, as a state of the loops.\<close>

definition data_of :: "conn_setup \<Rightarrow> qp_setup" where
  "data_of cs = \<lparr> su_qps = qps (cs_base cs), su_info = cm_qpInfo (cs_meta cs), su_log = cs_log cs, su_ooo = False, su_devs = cs_devs cs \<rparr>"

lemma on_data_Some:
  assumes "on_data f cs = Some (r, cs')"
  obtains st where "f (data_of cs) = Some (r, st)" "qps (cs_base cs') = su_qps st" "cm_qpInfo (cs_meta cs') = su_info st" "nqps (cs_base cs') = nqps (cs_base cs)"
    "vProps (cs_base cs') = vProps (cs_base cs)"
  using assms that by (auto simp: on_data_def data_of_def deref_def split: option.splits)

lemma chk_okE:
  assumes "chk c k = Some (r', s)" "nccl_ok r'"
  obtains r s1 where "c = Some (r, s1)" "nccl_ok r" "k s1 = Some (r', s)"
  using assms that by (auto simp: chk_def split: option.splits if_splits)

lemma success_ok [simp]: "nccl_ok ncclSuccess"
  by (simp add: nccl_ok_def)

lemmas chk_ok = chk_okE [OF _ success_ok]

lemma data_same_D: "data_same cs cs' \<Longrightarrow> qps (cs_base cs') = qps (cs_base cs) \<and> cm_qpInfo (cs_meta cs') = cm_qpInfo (cs_meta cs)"
  by (simp add: data_same_def)

lemma sender_create_done:
  assumes "ncclIbSenderQpsCreate p e cs = Some (r', s1)" "nccl_ok r'" "i < nat (nqps (cs_base cs))"
  shows "announced (int i mod ndevs (vProps (cs_base cs))) (qps (cs_base s1) ! i) (cm_qpInfo (cs_meta s1) ! i)"
proof -
  obtain r cs1 where c: "on_data (for_each (sender_qp_create p e (cs_base cs) (cs_dbs cs)) [0..<nat (nqps (cs_base cs))]) cs = Some (r, cs1)" "nccl_ok r"
    and k: "(if resiliency (cs_base cs1) then deref (ncclIbResiliencySenderCreateQps p e cs1) (\<lambda>(r, cs). ret ncclSuccess cs) else ret ncclSuccess cs1) = Some (r', s1)"
    by (rule chk_okE [OF assms(1) [unfolded ncclIbSenderQpsCreate_def] assms(2)])
  have same: "data_same cs1 s1" using k by (auto simp: deref_def split: if_splits option.splits intro: resiliency_same)
  obtain st where st: "for_each (sender_qp_create p e (cs_base cs) (cs_dbs cs)) [0..<nat (nqps (cs_base cs))] (data_of cs) = Some (r, st)"
      "qps (cs_base cs1) = su_qps st" "cm_qpInfo (cs_meta cs1) = su_info st" using on_data_Some [OF c(1)] .
  show ?thesis using sender_create.loop_entries [OF st(1) c(2), of i] assms(3) data_same_D [OF same] st(2,3) by (simp add: create_rel_def)
qed

lemma receiver_done:
  assumes "ncclIbReceiverQpsCreateToRts p ip e m cr = Some (r', r1)" "nccl_ok r'" "i < nat (nqps (cs_base cr))"
  shows "announced (int i mod ndevs (vProps (cs_base cr))) (qps (cs_base r1) ! i) (cm_qpInfo (cs_meta r1) ! i)
    \<and> connected_to m (cm_qpInfo m) i (qps (cs_base r1) ! i) \<and> qp_remDevIdx (qps (cs_base r1) ! i) = qi_devIndex (cm_qpInfo m ! i)"
proof -
  let ?f = "receiver_qp_create p ip e (cs_base cr) (cs_dbs cr) (cs_res cr) m"
  let ?flush = "\<lambda>cs. if cs_flushEnabled cs \<noteq> 0 then cs\<lparr> cs_flushQpSl := cm_sl m, cs_flushQpTc := cm_tc m \<rparr> else cs"
  obtain r cs1 where c: "on_data (for_each ?f [0..<nat (nqps (cs_base cr))]) cr = Some (r, cs1)" "nccl_ok r"
    and k: "(if resiliency (cs_base (?flush cs1)) then ncclIbResiliencyReceiverQpsCreateToRts p e m (?flush cs1) else ret ncclSuccess (?flush cs1)) = Some (r', r1)"
    by (rule chk_okE [OF assms(1) [unfolded ncclIbReceiverQpsCreateToRts_def Let_def] assms(2)])
  have "data_same (?flush cs1) r1" using k by (cases "resiliency (cs_base (?flush cs1))") (auto intro: resiliency_same)
  moreover have "data_same cs1 (?flush cs1)" by (simp add: data_same_def)
  ultimately have same: "data_same cs1 r1" using data_same_trans by blast
  obtain st where st: "for_each ?f [0..<nat (nqps (cs_base cr))] (data_of cr) = Some (r, st)" "qps (cs_base cs1) = su_qps st" "cm_qpInfo (cs_meta cs1) = su_info st"
    using on_data_Some [OF c(1)] .
  show ?thesis using receiver.loop_entries [OF st(1) c(2), of i] assms(3) data_same_D [OF same] st(2,3) by (simp add: receive_rel_def)
qed

lemma sender_connect_done:
  assumes "ncclIbSenderQpsToRts p e m cs = Some (r', s3)" "nccl_ok r'" "i < nat (nqps (cs_base cs))"
  shows "connect_rel m (cm_qpInfo m) i (qps (cs_base cs) ! i) (cm_qpInfo (cs_meta cs) ! i) (qps (cs_base s3) ! i) (cm_qpInfo (cs_meta s3) ! i)"
proof -
  obtain r cs1 where c: "on_data (for_each (sender_qp_connect p e (cs_dbs cs) m) [0..<nat (nqps (cs_base cs))]) cs = Some (r, cs1)" "nccl_ok r"
    and k: "(if resiliency (cs_base cs1) then ncclIbResiliencySenderQpsToRts p e m cs1 else ret ncclSuccess cs1) = Some (r', s3)"
    by (rule chk_okE [OF assms(1) [unfolded ncclIbSenderQpsToRts_def] assms(2)])
  have same: "data_same cs1 s3" using k by (auto split: if_splits intro: resiliency_same)
  obtain st where st: "for_each (sender_qp_connect p e (cs_dbs cs) m) [0..<nat (nqps (cs_base cs))] (data_of cs) = Some (r, st)"
      "qps (cs_base cs1) = su_qps st" "cm_qpInfo (cs_meta cs1) = su_info st" using on_data_Some [OF c(1)] .
  show ?thesis using sender_connect.loop_entries [OF st(1) c(2), of i] assms(3) data_same_D [OF same] st(2,3) by (simp add: data_of_def)
qed

section \<open>The connection\<close>

text \<open>C12 The two sides of a connection fit together. When the sender creates its queue pairs, the receiver creates and connects its own with the sender's metadata, and the sender connects with the
  metadata it gets back, all reporting success, then for every data queue pair both ends name each other: the queue pair number each end sends to is the number of the other end, the index of
  the remote device is the device of the other end, each end is on its device in turn (also when the sides have different numbers of devices), and the addresses are those of the devices of the other end.\<close>

theorem connection_matches:
  assumes "ncclIbSenderQpsCreate p e cs = Some (ncclSuccess, s1)" and "cm_qpInfo m1 = cm_qpInfo (cs_meta s1)"
    and "ncclIbReceiverQpsCreateToRts p' ip e' m1 cr = Some (ncclSuccess, r1)" and "cm_qpInfo m2 = cm_qpInfo (cs_meta r1)"
    and "qps (cs_base s2) = qps (cs_base s1)" and "nqps (cs_base s2) = nqps (cs_base cs)"
    and "ncclIbSenderQpsToRts p e m2 s2 = Some (ncclSuccess, s3)"
    and "nqps (cs_base cr) = nqps (cs_base cs)" and "i < nat (nqps (cs_base cs))"
    and "a = qps (cs_base s3) ! i" and "b = qps (cs_base r1) ! i"
  shows "ra_remoteQpNum (qp_rtrAttr a) = qp_qpn b \<and> ra_remoteQpNum (qp_rtrAttr b) = qp_qpn a
    \<and> qp_devIndex a = int i mod ndevs (vProps (cs_base cs)) \<and> qp_devIndex b = int i mod ndevs (vProps (cs_base cr))
    \<and> qp_remDevIdx a = qp_devIndex b \<and> qp_remDevIdx b = qp_devIndex a
    \<and> ra_remoteGid (qp_rtrAttr a) = di_gid (cm_devs m2 ! nat (qp_devIndex b)) \<and> ra_remoteGid (qp_rtrAttr b) = di_gid (cm_devs m1 ! nat (qp_devIndex a))
    \<and> ra_remoteLid (qp_rtrAttr a) = di_lid (cm_devs m2 ! nat (qp_devIndex b)) \<and> ra_remoteLid (qp_rtrAttr b) = di_lid (cm_devs m1 ! nat (qp_devIndex a))"
proof -
  have 1: "announced (int i mod ndevs (vProps (cs_base cs))) (qps (cs_base s1) ! i) (cm_qpInfo m1 ! i)"
    using sender_create_done [OF assms(1) success_ok assms(9)] assms(2) by simp
  have 2: "announced (int i mod ndevs (vProps (cs_base cr))) b (cm_qpInfo m2 ! i)" "connected_to m1 (cm_qpInfo m1) i b" "qp_remDevIdx b = qi_devIndex (cm_qpInfo m1 ! i)"
    using receiver_done [OF assms(3) success_ok, of i] assms(4,8,9,11) by simp_all
  have 3: "connected_to m2 (cm_qpInfo m2) i a" "qp_qpn a = qp_qpn (qps (cs_base s1) ! i)" "qp_devIndex a = qp_devIndex (qps (cs_base s1) ! i)" "qp_remDevIdx a = qi_devIndex (cm_qpInfo m2 ! i)"
    using sender_connect_done [OF assms(7) success_ok, of i] assms(5,6,9,10) by (simp_all add: connect_rel_def)
  show ?thesis using 1 2 3 by (simp add: announced_def connected_to_def)
qed

text \<open>The probing and the recovery queue pairs, and their entries of the metadata.\<close>

abbreviation probing_qp :: "conn_setup \<Rightarrow> nat \<Rightarrow> ncclIbQp" where
  "probing_qp cs i \<equiv> probingQps (cs_res cs) ! i"

abbreviation recovery_qp_of :: "conn_setup \<Rightarrow> nat \<Rightarrow> ncclIbQp" where
  "recovery_qp_of cs i \<equiv> portRecoveryQps (cs_res cs) ! i"

definition probing_same :: "conn_setup \<Rightarrow> conn_setup \<Rightarrow> bool" where
  "probing_same cs cs' \<longleftrightarrow> probingQps (cs_res cs') = probingQps (cs_res cs) \<and> probingQpsInfo (cm_resiliencyInfo (cs_meta cs')) = probingQpsInfo (cm_resiliencyInfo (cs_meta cs))"

lemma on_probing_Some:
  assumes "on_probing f cs = Some (r, cs')"
  obtains st where "f \<lparr> su_qps = probingQps (cs_res cs), su_info = probingQpsInfo (cm_resiliencyInfo (cs_meta cs)), su_log = cs_log cs, su_ooo = False, su_devs = cs_devs cs \<rparr> = Some (r, st)"
    "probingQps (cs_res cs') = su_qps st" "probingQpsInfo (cm_resiliencyInfo (cs_meta cs')) = su_info st"
    "cs_res cs' = (cs_res cs)\<lparr> probingQps := su_qps st \<rparr>" "cs_base cs' = cs_base cs" "cs_dbs cs' = cs_dbs cs"
    "portRecoveryQpsInfo (cm_resiliencyInfo (cs_meta cs')) = portRecoveryQpsInfo (cm_resiliencyInfo (cs_meta cs))"
  using assms that by (auto simp: on_probing_def deref_def Let_def split: option.splits)

lemma on_recovery_Some:
  assumes "on_recovery f cs = Some (r, cs')"
  obtains st where "f \<lparr> su_qps = portRecoveryQps (cs_res cs), su_info = portRecoveryQpsInfo (cm_resiliencyInfo (cs_meta cs)), su_log = cs_log cs, su_ooo = False, su_devs = cs_devs cs \<rparr> = Some (r, st)"
    "portRecoveryQps (cs_res cs') = su_qps st" "portRecoveryQpsInfo (cm_resiliencyInfo (cs_meta cs')) = su_info st" "probing_same cs cs'"
  using assms that by (auto simp: on_recovery_def deref_def Let_def probing_same_def split: option.splits)

lemma sender_aux_create_done:
  assumes "ncclIbResiliencySenderCreateQps p e cs = Some (ncclSuccess, s1)" and "recoveryEnabled (cs_res cs)"
  shows "i < nat (nProbingQps (cs_res cs)) \<Longrightarrow> announced (int i) (probing_qp s1 i) (probingQpsInfo (cm_resiliencyInfo (cs_meta s1)) ! i)"
    and "i < nat (nPortRecoveryQps (cs_res cs)) \<Longrightarrow> announced (int i mod ndevs (vProps (cs_base cs))) (recovery_qp_of s1 i) (portRecoveryQpsInfo (cm_resiliencyInfo (cs_meta s1)) ! i)"
proof -
  obtain r cs1 where c: "on_probing (for_each (\<lambda>i. aux_qp_create p e (cs_dbs cs) QPT_RC (probing_cq (cs_res cs)) 0 NET_IB_MAX_REQUESTS IBV_ACCESS_LOCAL_WRITE (int i) i) [0..<nat (nProbingQps (cs_res cs))]) cs = Some (r, cs1)"
      "nccl_ok r" and k: "(if recoveryEnabled (cs_res cs1) then ncclIbPortRecoverySenderQpsCreate p e (nPortRecoveryQps (cs_res cs1)) cs1 else ret ncclSuccess cs1) = Some (ncclSuccess, s1)"
    by (rule chk_ok [OF assms(1) [unfolded ncclIbResiliencySenderCreateQps_def]])
  from c(1) obtain st where st: "for_each (\<lambda>i. aux_qp_create p e (cs_dbs cs) QPT_RC (probing_cq (cs_res cs)) 0 NET_IB_MAX_REQUESTS IBV_ACCESS_LOCAL_WRITE (int i) i) [0..<nat (nProbingQps (cs_res cs))]
      \<lparr> su_qps = probingQps (cs_res cs), su_info = probingQpsInfo (cm_resiliencyInfo (cs_meta cs)), su_log = cs_log cs, su_ooo = False, su_devs = cs_devs cs \<rparr> = Some (r, st)"
      "probingQps (cs_res cs1) = su_qps st" "probingQpsInfo (cm_resiliencyInfo (cs_meta cs1)) = su_info st"
      "cs_res cs1 = (cs_res cs)\<lparr> probingQps := su_qps st \<rparr>" "cs_base cs1 = cs_base cs" "cs_dbs cs1 = cs_dbs cs" by (rule on_probing_Some)
  let ?rec = "for_each (\<lambda>i st. deref (stripe i (ndevs (vProps (cs_base cs)))) (\<lambda>d.
             aux_qp_create p e (cs_dbs cs) QPT_UC (recovery_cq (cs_res cs1)) 1 ALIVE_MSG_BATCH_SIZE_MAX IBV_ACCESS_LOCAL_WRITE d i st)) [0..<nat (nPortRecoveryQps (cs_res cs))]"
  have "on_recovery ?rec cs1 = Some (ncclSuccess, s1)"
    using k assms(2) st(4-6) by (simp add: ncclIbPortRecoverySenderQpsCreate_def split: if_splits)
  then obtain st2 where st2: "?rec \<lparr> su_qps = portRecoveryQps (cs_res cs1), su_info = portRecoveryQpsInfo (cm_resiliencyInfo (cs_meta cs1)), su_log = cs_log cs1, su_ooo = False, su_devs = cs_devs cs1 \<rparr> = Some (ncclSuccess, st2)"
      "portRecoveryQps (cs_res s1) = su_qps st2" "portRecoveryQpsInfo (cm_resiliencyInfo (cs_meta s1)) = su_info st2" "probing_same cs1 s1" by (rule on_recovery_Some)
  show "i < nat (nProbingQps (cs_res cs)) \<Longrightarrow> announced (int i) (probing_qp s1 i) (probingQpsInfo (cm_resiliencyInfo (cs_meta s1)) ! i)"
    using probing_create.loop_entries [OF st(1) c(2), of i] st(2,3) st2(4) by (simp add: create_rel_def probing_same_def)
  show "i < nat (nPortRecoveryQps (cs_res cs)) \<Longrightarrow> announced (int i mod ndevs (vProps (cs_base cs))) (recovery_qp_of s1 i) (portRecoveryQpsInfo (cm_resiliencyInfo (cs_meta s1)) ! i)"
    using recovery_create.loop_entries [OF st2(1), of i] st2(2,3) by (simp add: create_rel_def nccl_ok_def)
qed

lemma receiver_aux_done:
  assumes "ncclIbResiliencyReceiverQpsCreateToRts p e m cr = Some (ncclSuccess, r1)" and "recoveryEnabled (cs_res cr)"
  shows "i < nat (nProbingQps (cs_res cr)) \<Longrightarrow> announced (int i mod ndevs (vProps (cs_base cr))) (probing_qp r1 i) (probingQpsInfo (cm_resiliencyInfo (cs_meta r1)) ! i)
      \<and> connected_to m (probingQpsInfo (cm_resiliencyInfo m)) i (probing_qp r1 i)"
    and "i < nat (nPortRecoveryQps (cs_res cr)) \<Longrightarrow> announced (int i mod ndevs (vProps (cs_base cr))) (recovery_qp_of r1 i) (portRecoveryQpsInfo (cm_resiliencyInfo (cs_meta r1)) ! i)
      \<and> connected_to m (portRecoveryQpsInfo (cm_resiliencyInfo m)) i (recovery_qp_of r1 i)"
proof -
  let ?prb = "for_each (\<lambda>i st. deref (stripe i (ndevs (vProps (cs_base cr)))) (\<lambda>d.
            chk (aux_qp_create p e (cs_dbs cr) QPT_RC (probing_cq (cs_res cr)) 0 0 IBV_ACCESS_REMOTE_READ d i st)
                (aux_qp_connect p e (with_timeouts p) False (cs_dbs cr) m (probingQpsInfo (cm_resiliencyInfo m)) d i))) [0..<nat (nProbingQps (cs_res cr))]"
  obtain r cs1 where c: "on_probing ?prb cr = Some (r, cs1)" "nccl_ok r"
    and k: "(if recoveryEnabled (cs_res cs1) then ncclIbPortRecoveryReceiverQpsCreateToRts p e m (nPortRecoveryQps (cs_res cs1)) cs1 else ret ncclSuccess cs1) = Some (ncclSuccess, r1)"
    by (rule chk_ok [OF assms(1) [unfolded ncclIbResiliencyReceiverQpsCreateToRts_def]])
  from c(1) obtain st where st: "?prb \<lparr> su_qps = probingQps (cs_res cr), su_info = probingQpsInfo (cm_resiliencyInfo (cs_meta cr)), su_log = cs_log cr, su_ooo = False, su_devs = cs_devs cr \<rparr> = Some (r, st)"
      "probingQps (cs_res cs1) = su_qps st" "probingQpsInfo (cm_resiliencyInfo (cs_meta cs1)) = su_info st"
      "cs_res cs1 = (cs_res cr)\<lparr> probingQps := su_qps st \<rparr>" "cs_base cs1 = cs_base cr" "cs_dbs cs1 = cs_dbs cr" by (rule on_probing_Some)
  let ?rec = "for_each (\<lambda>i st. deref (stripe i (ndevs (vProps (cs_base cr)))) (\<lambda>d.
       chk (aux_qp_create p e (cs_dbs cr) QPT_UC (recovery_cq (cs_res cs1)) ALIVE_MSG_BATCH_SIZE_MAX 1 IBV_ACCESS_LOCAL_WRITE d i st)
           (aux_qp_connect p e (\<lambda>qp. qp) False (cs_dbs cr) m (portRecoveryQpsInfo (cm_resiliencyInfo m)) d i))) [0..<nat (nPortRecoveryQps (cs_res cr))]"
  have "on_recovery ?rec cs1 = Some (ncclSuccess, r1)"
    using k assms(2) st(4-6) by (simp add: ncclIbPortRecoveryReceiverQpsCreateToRts_def)
  then obtain st2 where st2: "?rec \<lparr> su_qps = portRecoveryQps (cs_res cs1), su_info = portRecoveryQpsInfo (cm_resiliencyInfo (cs_meta cs1)), su_log = cs_log cs1, su_ooo = False, su_devs = cs_devs cs1 \<rparr> = Some (ncclSuccess, st2)"
      "portRecoveryQps (cs_res r1) = su_qps st2" "portRecoveryQpsInfo (cm_resiliencyInfo (cs_meta r1)) = su_info st2" "probing_same cs1 r1" by (rule on_recovery_Some)
  show "i < nat (nProbingQps (cs_res cr)) \<Longrightarrow> announced (int i mod ndevs (vProps (cs_base cr))) (probing_qp r1 i) (probingQpsInfo (cm_resiliencyInfo (cs_meta r1)) ! i)
      \<and> connected_to m (probingQpsInfo (cm_resiliencyInfo m)) i (probing_qp r1 i)"
    using aux_receiver.loop_entries [OF st(1) c(2), of i] st(2,3) st2(4) by (simp add: receive_rel_def probing_same_def)
  show "i < nat (nPortRecoveryQps (cs_res cr)) \<Longrightarrow> announced (int i mod ndevs (vProps (cs_base cr))) (recovery_qp_of r1 i) (portRecoveryQpsInfo (cm_resiliencyInfo (cs_meta r1)) ! i)
      \<and> connected_to m (portRecoveryQpsInfo (cm_resiliencyInfo m)) i (recovery_qp_of r1 i)"
    using recovery_receiver.loop_entries [OF st2(1), of i] st2(2,3) by (simp add: receive_rel_def nccl_ok_def)
qed

lemma sender_aux_connect_done:
  assumes "ncclIbResiliencySenderQpsToRts p e m cs = Some (ncclSuccess, s3)" and "recoveryEnabled (cs_res cs)"
  shows "i < nat (nProbingQps (cs_res cs)) \<Longrightarrow> connected_to m (probingQpsInfo (cm_resiliencyInfo m)) i (probing_qp s3 i) \<and> qp_qpn (probing_qp s3 i) = qp_qpn (probing_qp cs i)
      \<and> qp_remDevIdx (probing_qp s3 i) = qi_devIndex (probingQpsInfo (cm_resiliencyInfo m) ! i)"
    and "i < nat (nPortRecoveryQps (cs_res cs)) \<Longrightarrow> connected_to m (portRecoveryQpsInfo (cm_resiliencyInfo m)) i (recovery_qp_of s3 i) \<and> qp_qpn (recovery_qp_of s3 i) = qp_qpn (recovery_qp_of cs i)
      \<and> qp_remDevIdx (recovery_qp_of s3 i) = qi_devIndex (portRecoveryQpsInfo (cm_resiliencyInfo m) ! i)"
proof -
  let ?prb = "for_each (\<lambda>i. aux_qp_connect p e (with_timeouts p) True (cs_dbs cs) m (probingQpsInfo (cm_resiliencyInfo m)) (int i) i) [0..<nat (nProbingQps (cs_res cs))]"
  obtain r cs1 where c: "on_probing ?prb cs = Some (r, cs1)" "nccl_ok r"
    and k: "(if recoveryEnabled (cs_res cs1) then ncclIbPortRecoverySenderQpsToRts p e m (nPortRecoveryQps (cs_res cs1)) cs1 else ret ncclSuccess cs1) = Some (ncclSuccess, s3)"
    by (rule chk_ok [OF assms(1) [unfolded ncclIbResiliencySenderQpsToRts_def]])
  from c(1) obtain st where st: "?prb \<lparr> su_qps = probingQps (cs_res cs), su_info = probingQpsInfo (cm_resiliencyInfo (cs_meta cs)), su_log = cs_log cs, su_ooo = False, su_devs = cs_devs cs \<rparr> = Some (r, st)"
      "probingQps (cs_res cs1) = su_qps st" "probingQpsInfo (cm_resiliencyInfo (cs_meta cs1)) = su_info st"
      "cs_res cs1 = (cs_res cs)\<lparr> probingQps := su_qps st \<rparr>" "cs_base cs1 = cs_base cs" "cs_dbs cs1 = cs_dbs cs" by (rule on_probing_Some)
  let ?rec = "for_each (\<lambda>i st. deref (stripe i (ndevs (vProps (cs_base cs)))) (\<lambda>d.
             aux_qp_connect p e (\<lambda>qp. qp) True (cs_dbs cs) m (portRecoveryQpsInfo (cm_resiliencyInfo m)) d i st)) [0..<nat (nPortRecoveryQps (cs_res cs))]"
  have "on_recovery ?rec cs1 = Some (ncclSuccess, s3)"
    using k assms(2) st(4-6) by (simp add: ncclIbPortRecoverySenderQpsToRts_def split: if_splits)
  then obtain st2 where st2: "?rec \<lparr> su_qps = portRecoveryQps (cs_res cs1), su_info = portRecoveryQpsInfo (cm_resiliencyInfo (cs_meta cs1)), su_log = cs_log cs1, su_ooo = False, su_devs = cs_devs cs1 \<rparr> = Some (ncclSuccess, st2)"
      "portRecoveryQps (cs_res s3) = su_qps st2" "portRecoveryQpsInfo (cm_resiliencyInfo (cs_meta s3)) = su_info st2" "probing_same cs1 s3" by (rule on_recovery_Some)
  show "i < nat (nProbingQps (cs_res cs)) \<Longrightarrow> connected_to m (probingQpsInfo (cm_resiliencyInfo m)) i (probing_qp s3 i) \<and> qp_qpn (probing_qp s3 i) = qp_qpn (probing_qp cs i)
      \<and> qp_remDevIdx (probing_qp s3 i) = qi_devIndex (probingQpsInfo (cm_resiliencyInfo m) ! i)"
    using probing_connect.loop_entries [OF st(1) c(2), of i] st(2,3) st2(4) by (simp add: connect_rel_def probing_same_def)
  show "i < nat (nPortRecoveryQps (cs_res cs)) \<Longrightarrow> connected_to m (portRecoveryQpsInfo (cm_resiliencyInfo m)) i (recovery_qp_of s3 i) \<and> qp_qpn (recovery_qp_of s3 i) = qp_qpn (recovery_qp_of cs i)
      \<and> qp_remDevIdx (recovery_qp_of s3 i) = qi_devIndex (portRecoveryQpsInfo (cm_resiliencyInfo m) ! i)"
    using recovery_connect.loop_entries [OF st2(1), of i] st2(2,3) st(4) by (simp add: connect_rel_def nccl_ok_def)
qed

text \<open>C15 The same holds for the queue pairs of fail-over and recovery: when both sides set them up with success, probing queue pair \<open>i\<close> and recovery queue pair \<open>i\<close> of the sender and of the receiver
  send to each other, also when the numbers of devices differ, and the sender knows the device of the other end.\<close>

theorem resiliency_connection_matches:
  assumes "ncclIbResiliencySenderCreateQps p e cs = Some (ncclSuccess, s1)" and "cm_resiliencyInfo m1 = cm_resiliencyInfo (cs_meta s1)"
    and "ncclIbResiliencyReceiverQpsCreateToRts p' e' m1 cr = Some (ncclSuccess, r1)" and "cm_resiliencyInfo m2 = cm_resiliencyInfo (cs_meta r1)"
    and "cs_res s2 = cs_res s1" and "ncclIbResiliencySenderQpsToRts p e m2 s2 = Some (ncclSuccess, s3)"
    and "recoveryEnabled (cs_res cs)" and "recoveryEnabled (cs_res cr)"
    and "nProbingQps (cs_res cr) = nProbingQps (cs_res cs)" and "nPortRecoveryQps (cs_res cr) = nPortRecoveryQps (cs_res cs)"
  shows "(\<forall>i < nat (nProbingQps (cs_res cs)). let a = probingQps (cs_res s3) ! i; b = probingQps (cs_res r1) ! i in
      ra_remoteQpNum (qp_rtrAttr a) = qp_qpn b \<and> ra_remoteQpNum (qp_rtrAttr b) = qp_qpn a \<and> qp_remDevIdx a = qp_devIndex b)
    \<and> (\<forall>i < nat (nPortRecoveryQps (cs_res cs)). let a = portRecoveryQps (cs_res s3) ! i; b = portRecoveryQps (cs_res r1) ! i in
      ra_remoteQpNum (qp_rtrAttr a) = qp_qpn b \<and> ra_remoteQpNum (qp_rtrAttr b) = qp_qpn a \<and> qp_remDevIdx a = qp_devIndex b)"
proof -
  note s = sender_aux_create_done [OF assms(1,7)] and r = receiver_aux_done [OF assms(3,8)]
  have same: "recoveryEnabled (cs_res s1) = recoveryEnabled (cs_res cs)" "nProbingQps (cs_res s1) = nProbingQps (cs_res cs)" "nPortRecoveryQps (cs_res s1) = nPortRecoveryQps (cs_res cs)"
    using resiliency_same(1) [OF assms(1)] by (simp_all add: data_same_def)
  have rec2: "recoveryEnabled (cs_res s2)" using assms(5,7) same by simp
  note c = sender_aux_connect_done [OF assms(6) rec2]
  have "ra_remoteQpNum (qp_rtrAttr (probing_qp s3 i)) = qp_qpn (probing_qp r1 i) \<and> ra_remoteQpNum (qp_rtrAttr (probing_qp r1 i)) = qp_qpn (probing_qp s3 i) \<and> qp_remDevIdx (probing_qp s3 i) = qp_devIndex (probing_qp r1 i)"
    if "i < nat (nProbingQps (cs_res cs))" for i
    using s(1) [of i] r(1) [of i] c(1) [of i] assms(2,4,5,9) same that by (simp add: announced_def connected_to_def)
  moreover have "ra_remoteQpNum (qp_rtrAttr (recovery_qp_of s3 i)) = qp_qpn (recovery_qp_of r1 i) \<and> ra_remoteQpNum (qp_rtrAttr (recovery_qp_of r1 i)) = qp_qpn (recovery_qp_of s3 i) \<and> qp_remDevIdx (recovery_qp_of s3 i) = qp_devIndex (recovery_qp_of r1 i)"
    if "i < nat (nPortRecoveryQps (cs_res cs))" for i
    using s(2) [of i] r(2) [of i] c(2) [of i] assms(2,4,5,10) same that by (simp add: announced_def connected_to_def)
  ultimately show ?thesis by (simp add: Let_def)
qed

definition demo_qp_env :: qp_env where
  "demo_qp_env = \<lparr> qe_modify = (\<lambda>_. ncclSuccess), qe_create = (\<lambda>ca. (ncclSuccess, 10 + ca_cq ca, word_of_nat (10 + ca_cq ca), 0)), qe_mlx5_create = (\<lambda>_. (1, 1, 0)),
     qe_mrc_create = (\<lambda>_. (ncclSuccess, 1, 0)), qe_mrc_get_qpn = (\<lambda>_. (ncclSuccess, 1)), qe_mrc_create_hint = (\<lambda>_. (ncclSuccess, 1)), qe_destroy = (\<lambda>_. ncclSuccess),
     qe_query_ece = (\<lambda>_. (ncclSuccess, 0, 0)), qe_set_ece = (\<lambda>_ _. (ncclSuccess, 0)) \<rparr>"

definition demo_qp_params :: qp_params where
  "demo_qp_params = \<lparr> MrcTimeout = 0, MrcQpHintEnable = 0, MrcCcInitRate = 0, MrcCcMinRate = 0, MrcCcMaxRate = 0, IbUseInline = 0, IbTimeout = 20, IbRetryCnt = 7, IbEceEnable = 0, IbFifoTc = - 1,
     qp_params.IbOooRq = 0 \<rparr>"

definition demo_info :: ncclIbQpInfo where "demo_info = \<lparr> qi_qpn = 0, qi_ece = 0, qi_ece_supported = 0, qi_devIndex = 0 \<rparr>"

definition demo_meta :: "nat \<Rightarrow> ncclIbConnectionMetadata" where
  "demo_meta n = \<lparr> cm_qpInfo = replicate 2 demo_info, cm_resiliencyInfo = \<lparr> probingQpsInfo = [], portRecoveryQpsInfo = [] \<rparr>,
     cm_devs = map (\<lambda>d. zero_devInfo\<lparr> di_lid := word_of_nat (100 * n + d) \<rparr>) [0..<n], cm_devName = [], cm_addr = 0, cm_remSpeedBufAddr = 0, cm_remSpeedBufRkey = 0, cm_ndevs = int n, cm_tc = 0, cm_sl = 0 \<rparr>"

text \<open>A side with \<open>n\<close> devices and two data queue pairs, whose completion queues are numbered from \<open>k\<close>.\<close>

definition demo_side :: "nat \<Rightarrow> nat \<Rightarrow> bool \<Rightarrow> conn_setup" where
  "demo_side n k sending = \<lparr> cs_base = \<lparr> vProps = \<lparr> ndevs = int n, devs = map int [0..<n] \<rparr>, isSend = sending, reqs = [], qps = replicate 2 zero_qp, activeQps = [], fifoHead = 0, nqps = 2, splitDataOnQps = 0,
     ready = 0, nRemDevs = 0, remOooRq = False, localOooRq = False, recvMatchingScheme = 0, nDataQps = 2, remDevs = [], b_stats = \<lparr> fatalErrorCount = 0 \<rparr>, resiliency = False,
     speedChangeCounter = 0, totalSpeed = 0, weights = [], devSpeeds = [] \<rparr>, cs_dbs = map (\<lambda>d. zero_devBase\<lparr> ibDevN := int d, db_cq := k + d \<rparr>) [0..<n],
     cs_res = \<lparr> recoveryEnabled = False, res_devs = [], res_ndevs = 0, probingQps = [], nProbingQps = 0, inProgress = False, outstandingRequests = 0, portRecoveryQps = [], nPortRecoveryQps = 0, outstandingRecovery = 0 \<rparr>,
     cs_meta = demo_meta n, cs_log = \<lparr> ql_modified = [], ql_destroyed = [] \<rparr>, cs_devs = replicate n zero_dev, cs_flushEnabled = 0, cs_flushQpSl = 0, cs_flushQpTc = 0 \<rparr>"

definition demo_s1 :: conn_setup where "demo_s1 = snd (the (ncclIbSenderQpsCreate demo_qp_params demo_qp_env (demo_side 2 20 True)))"
definition demo_r1 :: conn_setup where "demo_r1 = snd (the (ncclIbReceiverQpsCreateToRts demo_qp_params default_params demo_qp_env (cs_meta demo_s1) (demo_side 1 40 False)))"
definition demo_s3 :: conn_setup where "demo_s3 = snd (the (ncclIbSenderQpsToRts demo_qp_params demo_qp_env (cs_meta demo_r1) demo_s1))"

lemma the_outcome: "map_option fst x = Some r \<Longrightarrow> x = Some (r, snd (the x))"
  by (cases x) auto

theorem connection_matches_witness:
  "ra_remoteQpNum (qp_rtrAttr (qps (cs_base demo_s3) ! 1)) = qp_qpn (qps (cs_base demo_r1) ! 1) \<and> qp_devIndex (qps (cs_base demo_s3) ! 1) = 1 \<and> qp_devIndex (qps (cs_base demo_r1) ! 1) = 0"
proof -
  have "map_option fst (ncclIbSenderQpsCreate demo_qp_params demo_qp_env (demo_side 2 20 True)) = Some ncclSuccess"
    "map_option fst (ncclIbReceiverQpsCreateToRts demo_qp_params default_params demo_qp_env (cs_meta demo_s1) (demo_side 1 40 False)) = Some ncclSuccess"
    "map_option fst (ncclIbSenderQpsToRts demo_qp_params demo_qp_env (cs_meta demo_r1) demo_s1) = Some ncclSuccess" by code_simp+
  note o = this [THEN the_outcome, folded demo_s1_def demo_r1_def demo_s3_def]
  have n: "nqps (cs_base demo_s1) = 2" by code_simp
  show ?thesis
    using connection_matches [OF o(1) refl o(2) refl refl _ o(3) _ _ refl refl, of 1] n by (simp add: demo_side_def)
qed

definition demo_res_side :: "nat \<Rightarrow> nat \<Rightarrow> bool \<Rightarrow> conn_setup" where
  "demo_res_side n k sending = (demo_side n k sending)\<lparr>
     cs_res := \<lparr> recoveryEnabled = True, res_devs = map (\<lambda>d. \<lparr> rd_state = DevStateOk, nOutstandingProbes = 0, probingResultMr = zero_mr, rd_probingCq = k + 2 + d, rd_portRecoveryCq = k + 4 + d \<rparr>) [0..<n],
       res_ndevs = int n, probingQps = replicate 2 zero_qp, nProbingQps = 2, inProgress = False, outstandingRequests = 0, portRecoveryQps = replicate 2 zero_qp, nPortRecoveryQps = 2, outstandingRecovery = 0 \<rparr>,
     cs_meta := (demo_meta n)\<lparr> cm_resiliencyInfo := \<lparr> probingQpsInfo = replicate 2 demo_info, portRecoveryQpsInfo = replicate 2 demo_info \<rparr> \<rparr> \<rparr>"

definition demo_rs1 :: conn_setup where "demo_rs1 = snd (the (ncclIbResiliencySenderCreateQps demo_qp_params demo_qp_env (demo_res_side 2 20 True)))"
definition demo_rr1 :: conn_setup where "demo_rr1 = snd (the (ncclIbResiliencyReceiverQpsCreateToRts demo_qp_params demo_qp_env (cs_meta demo_rs1) (demo_res_side 1 40 False)))"
definition demo_rs3 :: conn_setup where "demo_rs3 = snd (the (ncclIbResiliencySenderQpsToRts demo_qp_params demo_qp_env (cs_meta demo_rr1) demo_rs1))"

theorem resiliency_connection_matches_witness:
  "ra_remoteQpNum (qp_rtrAttr (probingQps (cs_res demo_rs3) ! 1)) = qp_qpn (probingQps (cs_res demo_rr1) ! 1)
   \<and> ra_remoteQpNum (qp_rtrAttr (portRecoveryQps (cs_res demo_rr1) ! 1)) = qp_qpn (portRecoveryQps (cs_res demo_rs3) ! 1)"
proof -
  have "map_option fst (ncclIbResiliencySenderCreateQps demo_qp_params demo_qp_env (demo_res_side 2 20 True)) = Some ncclSuccess"
    "map_option fst (ncclIbResiliencyReceiverQpsCreateToRts demo_qp_params demo_qp_env (cs_meta demo_rs1) (demo_res_side 1 40 False)) = Some ncclSuccess"
    "map_option fst (ncclIbResiliencySenderQpsToRts demo_qp_params demo_qp_env (cs_meta demo_rr1) demo_rs1) = Some ncclSuccess" by code_simp+
  note o = this [THEN the_outcome, folded demo_rs1_def demo_rr1_def demo_rs3_def]
  show ?thesis
    using resiliency_connection_matches [OF o(1) refl o(2) refl refl o(3)] by (simp add: demo_res_side_def Let_def)
qed

end
