(* ===== verification/NetIb_Handshake_Facts.thy ===== *)
theory NetIb_Handshake_Facts
  imports NetIb_Handshake NetIb_Connect_Facts
begin

text \<open>
  What a handshake brings about. The calls of one side form a run: what it wrote so far and what it read so far depend on the stage only through the messages of the protocol (\<open>staged_run\<close>, which is
  interpreted for both sides).
\<close>

section \<open>Messages\<close>

lemma encode_length [simp]: "length (encode n m) = n"
  by (simp add: encode_def)

lemma encode_append:
  assumes "0 < n" "encode n m @ xs = encode n m' @ ys"
  shows "m = m' \<and> xs = ys"
proof -
  have e: "encode n m = encode n m'" "xs = ys" using assms(2) by (simp_all add: append_eq_append_conv)
  have "encode n m ! 0 = encode n m' ! 0" using e(1) by simp
  then show ?thesis using e(2) assms(1) by (simp add: encode_def)
qed

lemma decode_Some: "decode n bs = Some m \<Longrightarrow> take n bs = encode n m"
  by (auto simp: decode_def split: list.splits if_splits)

lemma stored_devs_Some:
  assumes "stored_devs n c = Some (v, b)"
  obtains buf where "hc_buffer c = Some buf" "take n buf = encode n (Dev_list v b)"
  using assms that by (auto simp: stored_devs_def stored_def deref_def split: option.splits stage_msg.splits dest: decode_Some)

lemma stored_meta_Some:
  assumes "stored_meta n c = Some m"
  obtains buf where "hc_buffer c = Some buf" "take n buf = encode n (Metadata m)"
  using assms that by (auto simp: stored_meta_def stored_def deref_def split: option.splits stage_msg.splits dest: decode_Some)

lemma write_at_start [simp]: "take (length bs) (write_at buf 0 bs) = bs"
  by (simp add: write_at_def)

lemma store_buffer: "hc_buffer c = Some buf \<Longrightarrow> \<exists>buf'. hc_buffer (store n m c) = Some buf' \<and> take n buf' = encode n m"
  using write_at_start [of "encode n m" buf] by (simp add: store_def)

lemma store_frame [simp]: "hc_state (store n m c) = hc_state c" "hc_offset (store n m c) = hc_offset c" "hc_comm (store n m c) = hc_comm c" "hc_proc (store n m c) = hc_proc c"
  "hc_st (store n m c) = hc_st c" "hc_dev (store n m c) = hc_dev c"
  by (simp_all add: store_def)

lemma set_frame [simp]:
  "hc_state (set_comm x c) = hc_state c" "hc_offset (set_comm x c) = hc_offset c" "hc_comm (set_comm x c) = Some x" "hc_proc (set_comm x c) = hc_proc c" "hc_st (set_comm x c) = hc_st c"
  "hc_dev (set_comm x c) = hc_dev c" "hc_buffer (set_comm x c) = hc_buffer c"
  "hc_state (set_stage s c) = s" "hc_offset (set_stage s c) = 0" "hc_comm (set_stage s c) = hc_comm c" "hc_proc (set_stage s c) = hc_proc c" "hc_st (set_stage s c) = hc_st c"
  "hc_dev (set_stage s c) = hc_dev c" "hc_buffer (set_stage s c) = hc_buffer c"
  by (simp_all add: set_comm_def set_stage_def)

section \<open>Rules for parts\<close>

text \<open>When a part falls through, \<open>Q\<close> holds, and when it returns without an error, \<open>P\<close> does; it cleans up only after an error.\<close>

definition leads :: "(flow \<times> 's) option \<Rightarrow> ('s \<Rightarrow> bool) \<Rightarrow> ('s \<Rightarrow> bool) \<Rightarrow> bool" where
  "leads o' P Q \<longleftrightarrow> (\<forall>fl s. o' = Some (fl, s) \<longrightarrow> (case fl of Go \<Rightarrow> Q s | Stop r \<Rightarrow> nccl_ok r \<longrightarrow> P s | Fail r \<Rightarrow> \<not> nccl_ok r))"

lemma leads_simps [simp]:
  "leads None P Q" "leads (go s) P Q \<longleftrightarrow> Q s" "leads (Some (Go, s)) P Q \<longleftrightarrow> Q s" "leads (Some (Fail r, s)) P Q \<longleftrightarrow> \<not> nccl_ok r" "leads (Some (Stop r, s)) P Q \<longleftrightarrow> (nccl_ok r \<longrightarrow> P s)"
  by (auto simp: leads_def go_def split: flow.splits)

lemma leads_andthen:
  assumes "leads c P Q'" "\<And>s. Q' s \<Longrightarrow> leads (k s) P Q"
  shows "leads (andthen c k) P Q"
proof (cases c)
  case (Some a)
  obtain fl s where a: "a = (fl, s)" by (cases a)
  show ?thesis using assms Some by (cases fl) (simp_all add: andthen_def a)
qed (simp add: andthen_def)

lemma leads_deref: "(\<And>a. x = Some a \<Longrightarrow> leads (k a) P Q) \<Longrightarrow> leads (deref x k) P Q"
  by (auto simp: deref_def split: option.splits)

lemma leads_with_comm: "(\<And>x. hc_comm c = Some x \<Longrightarrow> leads (k x) P Q) \<Longrightarrow> leads (with_comm c k) P Q"
  unfolding with_comm_def by (rule leads_deref)

lemma leads_mono: "leads c P' Q' \<Longrightarrow> (\<And>s. P' s \<Longrightarrow> P s) \<Longrightarrow> (\<And>s. Q' s \<Longrightarrow> Q s) \<Longrightarrow> leads c P Q"
  by (auto simp: leads_def split: flow.splits)

lemma leads_check:
  assumes "\<And>r s. c = Some (r, s) \<Longrightarrow> nccl_ok r \<Longrightarrow> Q s"
  shows "leads (check Stop c) P Q" "leads (check Fail c) P Q"
  using assms by (auto simp: check_def leads_def split: option.splits flow.splits if_splits)

lemma leads_each:
  assumes "\<And>i s. i \<in> set ix \<Longrightarrow> J s \<Longrightarrow> leads (f i s) P J"
  shows "J s \<Longrightarrow> leads (each f ix s) P J"
  using assms
proof (induction ix arbitrary: s)
  case (Cons i ix)
  have "leads (f i s) P J" using Cons.prems by simp
  then show ?case using Cons.IH Cons.prems(2) by (auto intro: leads_andthen)
qed simp

text \<open>A part that runs a set-up on a local state and leaves with its call.\<close>

lemma leads_inner:
  assumes "leads o' P' Q'" "\<And>l. P' l \<Longrightarrow> P (g l)" "\<And>l. Q' l \<Longrightarrow> leads (k l) P Q"
  shows "leads (deref o' (\<lambda>(fl, l). if fl \<noteq> Go then Some (fl, g l) else k l)) P Q"
proof (rule leads_deref)
  fix a assume a: "o' = Some a"
  obtain fl l where "a = (fl, l)" by (cases a)
  then show "leads (case a of (fl, l) \<Rightarrow> if fl \<noteq> Go then Some (fl, g l) else k l) P Q"
    using assms a by (cases fl) (auto simp: leads_def)
qed

lemma leads_reg_mr: "(\<And>mr. leads (k mr) P Q) \<Longrightarrow> leads (reg_mr e u pd s k) P Q"
  by (auto simp: reg_mr_def split: prod.splits)

lemma leads_check_link:
  assumes "\<And>ll. Q (l\<lparr> lo_link := ll \<rparr>)" "Q l"
  shows "leads (check_link ll l) P Q"
  using assms by (auto simp: check_link_def Let_def nccl_ok_def)

lemmas leads_rules = leads_with_comm leads_deref leads_reg_mr leads_check_link

section \<open>Transfers\<close>

text \<open>What a transfer leaves alone.\<close>

definition steady :: "'c hs_call \<Rightarrow> 'c hs_call \<Rightarrow> bool" where
  "steady c c' \<longleftrightarrow> hc_state c' = hc_state c \<and> hc_comm c' = hc_comm c \<and> hc_proc c' = hc_proc c \<and> hc_dev c' = hc_dev c"

lemma progress_xfer:
  assumes "ncclSocketProgress op (Some sk) w n x = Some ((r, b), y)"
  shows "op = NCCL_SOCKET_SEND \<Longrightarrow> sent n x y" "op = NCCL_SOCKET_RECV \<Longrightarrow> received n x y"
  using assms by (auto simp: ncclSocketProgress_def socketProgress_def split: option.splits if_splits dest: progress_sent progress_received)

lemma transfer_on_cases:
  assumes "transfer_on op err n sk buf c = Some (fl, buf', c')"
  obtains r b y where "ncclSocketProgress op (Some sk) False (int n) \<lparr> xf_buf = buf, xf_off = hc_offset c, xf_st = hc_st c \<rparr> = Some ((r, b), y)" "buf' = xf_buf y"
    "c' = c\<lparr> hc_offset := xf_off y, hc_st := xf_st y \<rparr>" "fl = (if \<not> nccl_ok r then err r else if xf_off y \<noteq> int n then Stop ncclSuccess else Go)"
  using assms that by (auto simp: transfer_on_def deref_def split: option.splits)

text \<open>How the result of an error leaves.\<close>

definition raises :: "(ncclResult \<Rightarrow> flow) \<Rightarrow> bool" where
  "raises err \<longleftrightarrow> err = Stop \<or> err = Fail"

lemma raises_simps [simp]: "raises Stop" "raises Fail"
  by (simp_all add: raises_def)

lemma raises_not_Go: "raises err \<Longrightarrow> err r \<noteq> Go"
  by (auto simp: raises_def)

lemma sent_take:
  assumes "0 \<le> (a::int)" "a + int k \<le> int n" "n \<le> length buf"
  shows "take (nat a) (take n buf) @ take k (drop (nat a) buf) = take (nat (a + int k)) (take n buf)"
proof -
  have "nat (a + int k) = nat a + k" "nat a + k \<le> n" using assms by linarith+
  then show ?thesis by (simp add: take_add min_def)
qed

lemma transfer_on_send:
  assumes "raises err" "transfer_on NCCL_SOCKET_SEND err n sk buf c = Some (fl, buf', c')" "st_out (hc_st c) = out @ take (nat (hc_offset c)) (take n buf)"
  shows "buf' = buf \<and> steady c c' \<and> hc_buffer c' = hc_buffer c \<and> st_in (hc_st c') = st_in (hc_st c) \<and> st_out (hc_st c') = out @ take (nat (hc_offset c')) (take n buf)
    \<and> (fl = Go \<longrightarrow> st_out (hc_st c') = out @ take n buf)"
proof -
  from assms(2) obtain r b y where y: "ncclSocketProgress NCCL_SOCKET_SEND (Some sk) False (int n) \<lparr> xf_buf = buf, xf_off = hc_offset c, xf_st = hc_st c \<rparr> = Some ((r, b), y)" "buf' = xf_buf y"
    "c' = c\<lparr> hc_offset := xf_off y, hc_st := xf_st y \<rparr>" "fl = (if \<not> nccl_ok r then err r else if xf_off y \<noteq> int n then Stop ncclSuccess else Go)" by (rule transfer_on_cases)
  from progress_xfer(1) [OF y(1) refl] obtain k where k: "st_out (xf_st y) = st_out (hc_st c) @ take k (drop (nat (hc_offset c)) buf)" "xf_off y = hc_offset c + int k" "xf_buf y = buf"
    "st_in (xf_st y) = st_in (hc_st c)" "0 \<le> hc_offset c" "xf_off y \<le> int n" "n \<le> length buf" by (auto simp: sent_def)
  have "st_out (hc_st c') = out @ take (nat (hc_offset c')) (take n buf)"
    using k assms(3) sent_take [of "hc_offset c" k n buf] by (simp add: y(3))
  then show ?thesis using k y raises_not_Go [OF assms(1)] by (auto simp: steady_def split: if_splits)
qed

lemma received_take:
  assumes "0 \<le> (a::int)" "a + int (length bs) \<le> int n" "n \<le> length buf"
  shows "take (nat (a + int (length bs))) (write_at buf (nat a) bs) = take (nat a) buf @ bs"
proof -
  have "nat (a + int (length bs)) = nat a + length bs" "nat a \<le> length buf" using assms by linarith+
  then show ?thesis by (simp add: write_at_def min_def)
qed

lemma transfer_on_recv:
  assumes "raises err" "transfer_on NCCL_SOCKET_RECV err n sk buf c = Some (fl, buf', c')" "inp = pre @ take (nat (hc_offset c)) buf @ st_in (hc_st c)"
  shows "steady c c' \<and> hc_buffer c' = hc_buffer c \<and> st_out (hc_st c') = st_out (hc_st c) \<and> inp = pre @ take (nat (hc_offset c')) buf' @ st_in (hc_st c')
    \<and> (fl = Go \<longrightarrow> inp = pre @ take n buf' @ st_in (hc_st c'))"
proof -
  from assms(2) obtain r b y where y: "ncclSocketProgress NCCL_SOCKET_RECV (Some sk) False (int n) \<lparr> xf_buf = buf, xf_off = hc_offset c, xf_st = hc_st c \<rparr> = Some ((r, b), y)" "buf' = xf_buf y"
    "c' = c\<lparr> hc_offset := xf_off y, hc_st := xf_st y \<rparr>" "fl = (if \<not> nccl_ok r then err r else if xf_off y \<noteq> int n then Stop ncclSuccess else Go)" by (rule transfer_on_cases)
  from progress_xfer(2) [OF y(1) refl] obtain bs where k: "st_in (hc_st c) = bs @ st_in (xf_st y)" "xf_off y = hc_offset c + int (length bs)" "xf_buf y = write_at buf (nat (hc_offset c)) bs"
    "st_out (xf_st y) = st_out (hc_st c)" "0 \<le> hc_offset c" "xf_off y \<le> int n" "n \<le> length buf" by (auto simp: received_def)
  have "inp = pre @ take (nat (hc_offset c')) buf' @ st_in (hc_st c')"
    using k assms(3) received_take [of "hc_offset c" bs n buf] by (simp add: y(2,3))
  then show ?thesis using k y raises_not_Go [OF assms(1)] by (auto simp: steady_def split: if_splits)
qed

lemma transfer_on_fails: "raises err \<Longrightarrow> transfer_on op err n sk buf c = Some (fl, buf', c') \<Longrightarrow> fl = Fail r \<Longrightarrow> \<not> nccl_ok r"
  by (erule transfer_on_cases) (auto simp: raises_def split: if_splits)

text \<open>The same as rules for parts, where the buffer is the staging buffer.\<close>

lemma leads_send:
  assumes "raises err" "hc_buffer c = Some buf" "take n buf = msg" "st_out (hc_st c) = out @ take (nat (hc_offset c)) msg"
    and "\<And>c'. steady c c' \<Longrightarrow> hc_buffer c' = Some buf \<Longrightarrow> st_in (hc_st c') = st_in (hc_st c) \<Longrightarrow> st_out (hc_st c') = out @ take (nat (hc_offset c')) msg \<Longrightarrow> P c'"
    and "\<And>c'. steady c c' \<Longrightarrow> hc_buffer c' = Some buf \<Longrightarrow> st_in (hc_st c') = st_in (hc_st c) \<Longrightarrow> st_out (hc_st c') = out @ msg \<Longrightarrow> Q c'"
  shows "leads (transfer NCCL_SOCKET_SEND err n sk c) P Q"
  unfolding leads_def
proof (intro allI impI)
  fix fl s assume "transfer NCCL_SOCKET_SEND err n sk c = Some (fl, s)"
  then obtain buf' c' where t: "transfer_on NCCL_SOCKET_SEND err n sk buf c = Some (fl, buf', c')" "s = c'\<lparr> hc_buffer := Some buf' \<rparr>"
    using assms(2) by (auto simp: transfer_def deref_def)
  note f = transfer_on_send [OF assms(1) t(1), unfolded assms(3), OF assms(4)]
  have g: "buf' = buf" "steady c c'" "st_in (hc_st c') = st_in (hc_st c)" "fl = Go \<Longrightarrow> st_out (hc_st c') = out @ msg" using f by blast+
  have "fl = Go \<Longrightarrow> Q s" by (rule assms(6)) (use g t(2) in \<open>simp_all add: steady_def\<close>)
  moreover have "P s" by (rule assms(5)) (use f t(2) in \<open>auto simp: steady_def\<close>)
  ultimately show "case fl of Go \<Rightarrow> Q s | Stop r \<Rightarrow> nccl_ok r \<longrightarrow> P s | Fail r \<Rightarrow> \<not> nccl_ok r"
    using transfer_on_fails [OF assms(1) t(1)] by (cases fl) auto
qed

lemma leads_recv:
  assumes "raises err" "hc_buffer c = Some buf" "inp = pre @ take (nat (hc_offset c)) buf @ st_in (hc_st c)"
    and "\<And>c' buf'. steady c c' \<Longrightarrow> hc_buffer c' = Some buf' \<Longrightarrow> st_out (hc_st c') = st_out (hc_st c) \<Longrightarrow> inp = pre @ take (nat (hc_offset c')) buf' @ st_in (hc_st c') \<Longrightarrow> P c'"
    and "\<And>c' buf'. steady c c' \<Longrightarrow> hc_buffer c' = Some buf' \<Longrightarrow> st_out (hc_st c') = st_out (hc_st c) \<Longrightarrow> inp = pre @ take n buf' @ st_in (hc_st c') \<Longrightarrow> Q c'"
  shows "leads (transfer NCCL_SOCKET_RECV err n sk c) P Q"
  unfolding leads_def
proof (intro allI impI)
  fix fl s assume "transfer NCCL_SOCKET_RECV err n sk c = Some (fl, s)"
  then obtain buf' c' where t: "transfer_on NCCL_SOCKET_RECV err n sk buf c = Some (fl, buf', c')" "s = c'\<lparr> hc_buffer := Some buf' \<rparr>"
    using assms(2) by (auto simp: transfer_def deref_def)
  note f = transfer_on_recv [OF assms(1) t(1) assms(3)]
  have "fl = Go \<Longrightarrow> Q s" by (rule assms(5)) (use f t(2) in \<open>auto simp: steady_def\<close>)
  moreover have "P s" by (rule assms(4)) (use f t(2) in \<open>auto simp: steady_def\<close>)
  ultimately show "case fl of Go \<Rightarrow> Q s | Stop r \<Rightarrow> nccl_ok r \<longrightarrow> P s | Fail r \<Rightarrow> \<not> nccl_ok r"
    using transfer_on_fails [OF assms(1) t(1)] by (cases fl) auto
qed

section \<open>Runs of parts\<close>

text \<open>
  The interface of a side: \<open>inv k\<close> holds when part \<open>k\<close> is about to run. A call that starts at its stage then ends at a stage, or hands out the communicator after the last part.
\<close>

locale staged_run =
  fixes inv :: "nat \<Rightarrow> 'c hs_call \<Rightarrow> bool"
    and parts :: "('c hs_call \<Rightarrow> (flow \<times> 'c hs_call) option) list"
  assumes part: "k < length parts \<Longrightarrow> inv k c \<Longrightarrow> leads ((parts ! k) c) (inv k) (inv (Suc k))"
begin

lemma run_from: "k \<le> length parts \<Longrightarrow> inv k c \<Longrightarrow> leads (run_parts (drop k parts) c) (\<lambda>c. \<exists>j < length parts. inv j c) (inv (length parts))"
proof (induction "length parts - k" arbitrary: k c)
  case (Suc n)
  then have k: "k < length parts" by simp
  have "leads (run_parts (drop (Suc k) parts) c') (\<lambda>c. \<exists>j < length parts. inv j c) (inv (length parts))" if "inv (Suc k) c'" for c'
    using Suc.hyps k that by simp
  moreover have "leads ((parts ! k) c) (\<lambda>c. \<exists>j < length parts. inv j c) (inv (Suc k))"
    by (rule leads_mono [OF part [OF k Suc.prems(2)]]) (use k in blast)+
  ultimately show ?case using k by (simp add: Cons_nth_drop_Suc [symmetric] leads_andthen)
qed simp

lemma call_ends:
  assumes "k \<le> length parts" "inv k c" "conclude base e (run_parts (drop k parts) c) = Some ((r, res), c')" "nccl_ok r"
  shows "(res = None \<and> (\<exists>j < length parts. inv j c')) \<or> (\<exists>c1. inv (length parts) c1 \<and> res = hc_comm c1 \<and> hc_st c' = hc_st c1)"
proof -
  note y = run_from [OF assms(1,2)]
  obtain fl c1 where fl: "run_parts (drop k parts) c = Some (fl, c1)" using assms(3) by (auto simp: conclude_def split: option.splits)
  show ?thesis using y assms(3,4) unfolding fl conclude_def by (cases fl) (auto simp: leave_def)
qed

end

section \<open>The connecting side\<close>

text \<open>The devices of the merged device of a call; the numbers of queue pairs both sides arrive at; what a side has told the other of its queue pairs, and to which of the other's it is connected.\<close>

definition local_devs :: "int \<Rightarrow> ncclNetVDeviceProps \<Rightarrow> 'c hs_call \<Rightarrow> bool" where
  "local_devs d v c \<longleftrightarrow> hc_dev c = d \<and> map_option md_vProps (at (pr_merged (hc_proc c)) d) = Some v"

definition agreed :: "int \<Rightarrow> ncclNetVDeviceProps \<Rightarrow> ncclNetVDeviceProps \<Rightarrow> ncclIbNetCommBase \<Rightarrow> bool" where
  "agreed nq v v' b \<longleftrightarrow> nqps b = max (nq * ndevs v) (nq * ndevs v') \<and> nDataQps b = max (ndevs v) (ndevs v')"

definition told :: "ncclIbConnectionMetadata \<Rightarrow> ncclIbNetCommBase \<Rightarrow> bool" where
  "told m b \<longleftrightarrow> (\<forall>i < nat (nqps b). announced (int i mod ndevs (vProps b)) (qps b ! i) (cm_qpInfo m ! i))"

definition joined :: "ncclIbConnectionMetadata \<Rightarrow> ncclIbNetCommBase \<Rightarrow> bool" where
  "joined m b \<longleftrightarrow> (\<forall>i < nat (nqps b). connected_to m (cm_qpInfo m) i (qps b ! i) \<and> qp_remDevIdx (qps b ! i) = qi_devIndex (cm_qpInfo m ! i))"

abbreviation c_base :: "send_conn \<Rightarrow> ncclIbNetCommBase" where
  "c_base x \<equiv> sc_base (sn_comm x)"

text \<open>The stages: \<open>inp\<close> is all that the peer sends, \<open>d\<close> the merged device.\<close>

definition c_opening :: "int \<Rightarrow> wire list \<Rightarrow> 'c hs_call \<Rightarrow> bool" where
  "c_opening d inp c \<longleftrightarrow> hc_dev c = d \<and> st_out (hc_st c) = [] \<and> st_in (hc_st c) = inp"

definition c_listing :: "hs_params \<Rightarrow> int \<Rightarrow> wire list \<Rightarrow> 'c hs_call \<Rightarrow> bool" where
  "c_listing p d inp c \<longleftrightarrow> (\<exists>v ooo buf. local_devs d v c \<and> hc_buffer c = Some buf \<and> take (sz_devs p) buf = encode (sz_devs p) (Dev_list v ooo)
     \<and> st_out (hc_st c) = take (nat (hc_offset c)) (encode (sz_devs p) (Dev_list v ooo)) \<and> st_in (hc_st c) = inp)"

definition c_learning :: "hs_params \<Rightarrow> int \<Rightarrow> wire list \<Rightarrow> 'c hs_call \<Rightarrow> bool" where
  "c_learning p d inp c \<longleftrightarrow> (\<exists>v ooo buf. local_devs d v c \<and> hc_buffer c = Some buf \<and> st_out (hc_st c) = encode (sz_devs p) (Dev_list v ooo)
     \<and> inp = take (nat (hc_offset c)) buf @ st_in (hc_st c))"

definition c_telling :: "hs_params \<Rightarrow> int \<Rightarrow> wire list \<Rightarrow> send_conn hs_call \<Rightarrow> bool" where
  "c_telling p nq inp c \<longleftrightarrow> (\<exists>v ooo v' ooo' m x buf. hc_comm c = Some x \<and> agreed nq v v' (c_base x) \<and> told m (c_base x) \<and> hc_buffer c = Some buf \<and> take (sz_meta p) buf = encode (sz_meta p) (Metadata m)
     \<and> st_out (hc_st c) = encode (sz_devs p) (Dev_list v ooo) @ take (nat (hc_offset c)) (encode (sz_meta p) (Metadata m)) \<and> inp = encode (sz_devs p) (Dev_list v' ooo') @ st_in (hc_st c))"

definition c_joining :: "hs_params \<Rightarrow> int \<Rightarrow> wire list \<Rightarrow> send_conn hs_call \<Rightarrow> bool" where
  "c_joining p nq inp c \<longleftrightarrow> (\<exists>v ooo v' ooo' m x buf. hc_comm c = Some x \<and> agreed nq v v' (c_base x) \<and> told m (c_base x) \<and> hc_buffer c = Some buf
     \<and> st_out (hc_st c) = encode (sz_devs p) (Dev_list v ooo) @ encode (sz_meta p) (Metadata m) \<and> inp = encode (sz_devs p) (Dev_list v' ooo') @ take (nat (hc_offset c)) buf @ st_in (hc_st c))"

text \<open>After the queue pairs are connected; \<open>k\<close> is how much of the ready flag is sent.\<close>

definition c_flagging :: "hs_params \<Rightarrow> int \<Rightarrow> wire list \<Rightarrow> nat \<Rightarrow> send_conn hs_call \<Rightarrow> bool" where
  "c_flagging p nq inp k c \<longleftrightarrow> (\<exists>v ooo v' ooo' m m' x. hc_comm c = Some x \<and> agreed nq v v' (c_base x) \<and> told m (c_base x) \<and> joined m' (c_base x) \<and> ready (c_base x) = 1
     \<and> st_out (hc_st c) = encode (sz_devs p) (Dev_list v ooo) @ encode (sz_meta p) (Metadata m) @ take k (encode 4 (Ready_flag 1))
     \<and> inp = encode (sz_devs p) (Dev_list v' ooo') @ encode (sz_meta p) (Metadata m') @ st_in (hc_st c))"

definition c_inv :: "hs_params \<Rightarrow> int \<Rightarrow> int \<Rightarrow> wire list \<Rightarrow> nat \<Rightarrow> send_conn hs_call \<Rightarrow> bool" where
  "c_inv p nq d inp k c \<longleftrightarrow> (k < 7 \<longrightarrow> connect_entry (hc_state c) = Some k)
     \<and> ([c_opening d inp, c_opening d inp, c_listing p d inp, c_learning p d inp, c_telling p nq inp, c_joining p nq inp, \<lambda>c. c_flagging p nq inp (nat (hc_offset c)) c, c_flagging p nq inp 4] ! k) c"

lemma c_tellingI:
  "hc_comm c = Some x \<Longrightarrow> agreed nq v v' (c_base x) \<Longrightarrow> told m (c_base x) \<Longrightarrow> hc_buffer c = Some buf \<Longrightarrow> take (sz_meta p) buf = encode (sz_meta p) (Metadata m) \<Longrightarrow>
   st_out (hc_st c) = encode (sz_devs p) (Dev_list v ooo) @ take (nat (hc_offset c)) (encode (sz_meta p) (Metadata m)) \<Longrightarrow> inp = encode (sz_devs p) (Dev_list v' ooo') @ st_in (hc_st c) \<Longrightarrow> c_telling p nq inp c"
  unfolding c_telling_def by blast

lemma c_joiningI:
  "hc_comm c = Some x \<Longrightarrow> agreed nq v v' (c_base x) \<Longrightarrow> told m (c_base x) \<Longrightarrow> hc_buffer c = Some buf \<Longrightarrow> st_out (hc_st c) = encode (sz_devs p) (Dev_list v ooo) @ encode (sz_meta p) (Metadata m) \<Longrightarrow>
   inp = encode (sz_devs p) (Dev_list v' ooo') @ take (nat (hc_offset c)) buf @ st_in (hc_st c) \<Longrightarrow> c_joining p nq inp c"
  unfolding c_joining_def by blast

lemma c_flaggingI:
  "hc_comm c = Some x \<Longrightarrow> agreed nq v v' (c_base x) \<Longrightarrow> told m (c_base x) \<Longrightarrow> joined m' (c_base x) \<Longrightarrow> ready (c_base x) = 1 \<Longrightarrow>
   st_out (hc_st c) = encode (sz_devs p) (Dev_list v ooo) @ encode (sz_meta p) (Metadata m) @ take k (encode 4 (Ready_flag 1)) \<Longrightarrow>
   inp = encode (sz_devs p) (Dev_list v' ooo') @ encode (sz_meta p) (Metadata m') @ st_in (hc_st c) \<Longrightarrow> c_flagging p nq inp k c"
  unfolding c_flagging_def by blast

lemma part_start: "c_opening d inp c \<Longrightarrow> leads (c_start p e c) (\<lambda>_. False) (\<lambda>c. hc_state c = ncclIbCommStateConnect \<and> c_opening d inp c)"
  unfolding c_start_def Let_def by (auto simp: c_opening_def nccl_ok_def intro!: leads_deref split: option.splits prod.splits)

lemma listing_starts:
  assumes "local_devs d v c" "c_opening d inp c" "hc_offset c = 0" "hc_buffer c \<noteq> None"
  shows "c_listing p d inp (store (sz_devs p) (Dev_list v ooo) c)"
proof -
  obtain buf where "hc_buffer (store (sz_devs p) (Dev_list v ooo) c) = Some buf" "take (sz_devs p) buf = encode (sz_devs p) (Dev_list v ooo)"
    using assms(4) store_buffer by blast
  then show ?thesis using assms unfolding c_listing_def by (intro exI [of _ v] exI [of _ ooo] exI [of _ buf]) (simp add: local_devs_def c_opening_def)
qed

lemma part_check:
  assumes "c_opening d inp c" "hc_state c = ncclIbCommStateConnect"
  shows "leads (c_check p e c) (\<lambda>c. hc_state c = ncclIbCommStateConnect \<and> c_opening d inp c) (\<lambda>c. hc_state c = ncclIbCommStateSendDevList \<and> c_listing p d inp c)"
  unfolding c_check_def Let_def using assms
  by (auto simp: c_opening_def nccl_ok_def local_devs_def intro!: leads_with_comm leads_deref listing_starts split: prod.splits)

lemma part_send_devs:
  assumes "c_listing p d inp c" "hc_state c = ncclIbCommStateSendDevList"
  shows "leads (c_send_devs p c) (\<lambda>c. hc_state c = ncclIbCommStateSendDevList \<and> c_listing p d inp c) (\<lambda>c. hc_state c = ncclIbCommStateRecvDevList \<and> c_learning p d inp c)"
  unfolding c_send_devs_def
proof (rule leads_with_comm)
  fix x
  from assms(1) obtain v ooo buf where h: "local_devs d v c" "hc_buffer c = Some buf" "take (sz_devs p) buf = encode (sz_devs p) (Dev_list v ooo)"
    "st_out (hc_st c) = [] @ take (nat (hc_offset c)) (encode (sz_devs p) (Dev_list v ooo))" "st_in (hc_st c) = inp" by (auto simp: c_listing_def)
  show "leads (andthen (transfer NCCL_SOCKET_SEND Stop (sz_devs p) (sn_sock x) c) (\<lambda>c. go (set_stage ncclIbCommStateRecvDevList c)))
    (\<lambda>c. hc_state c = ncclIbCommStateSendDevList \<and> c_listing p d inp c) (\<lambda>c. hc_state c = ncclIbCommStateRecvDevList \<and> c_learning p d inp c)"
  proof (rule leads_andthen, rule leads_send [OF raises_simps(1) h(2-4)])
    fix c' assume "steady c c'" "hc_buffer c' = Some buf" "st_in (hc_st c') = st_in (hc_st c)" "st_out (hc_st c') = [] @ take (nat (hc_offset c')) (encode (sz_devs p) (Dev_list v ooo))"
    then show "hc_state c' = ncclIbCommStateSendDevList \<and> c_listing p d inp c'" using h assms(2) by (auto simp: c_listing_def steady_def local_devs_def)
  next
    fix c' assume "steady c c'" "hc_buffer c' = Some buf" "st_in (hc_st c') = st_in (hc_st c)" "st_out (hc_st c') = [] @ encode (sz_devs p) (Dev_list v ooo)"
    then show "c_learning p d inp (set_stage ncclIbCommStateRecvDevList c')" using h by (auto simp: c_learning_def steady_def local_devs_def)
  qed simp
qed

subsection \<open>Setting up the sender\<close>

text \<open>What the steps of a set-up leave alone: the connection, and of the base of a communicator the numbers of queue pairs and the devices.\<close>

definition same_call :: "'c hs_call \<Rightarrow> 'c hs_call \<Rightarrow> bool" where
  "same_call c c' \<longleftrightarrow> hc_state c' = hc_state c \<and> hc_offset c' = hc_offset c \<and> hc_buffer c' = hc_buffer c \<and> hc_st c' = hc_st c \<and> hc_dev c' = hc_dev c
     \<and> pr_merged (hc_proc c') = pr_merged (hc_proc c)"

definition same_sizes :: "ncclIbNetCommBase \<Rightarrow> ncclIbNetCommBase \<Rightarrow> bool" where
  "same_sizes b b' \<longleftrightarrow> nqps b' = nqps b \<and> nDataQps b' = nDataQps b \<and> vProps b' = vProps b"

lemma same_refl [simp]: "same_call c c" "same_sizes b b"
  by (simp_all add: same_call_def same_sizes_def)

lemma put_proc_merged [simp]: "pr_merged (put_proc cs pr) = pr_merged pr"
  by (simp add: put_proc_def)

lemma for_each_keeps:
  assumes "\<And>i s r s'. f i s = Some (r, s') \<Longrightarrow> J s \<Longrightarrow> J s'"
  shows "for_each f ix s = Some (r, s') \<Longrightarrow> J s \<Longrightarrow> J s'"
proof (induction ix arbitrary: s)
  case (Cons i ix)
  obtain r1 s1 where f: "f i s = Some (r1, s1)" "(if nccl_ok r1 then for_each f ix s1 else Some (r1, s1)) = Some (r, s')"
    using Cons.prems(1) by (auto simp: chk_def split: option.splits)
  show ?case using f(2) assms [OF f(1) Cons.prems(2)] Cons.IH [of s1] by (cases "nccl_ok r1") simp_all
qed simp

lemma init_device_base: "init_device gp e cq i cs = Some (r, cs') \<Longrightarrow> cs_base cs' = cs_base cs"
  by (auto simp: init_device_def Let_def deref_def chk_def split: option.splits sum.splits if_splits)

lemma init_devices_base: "for_each (init_device gp e cq) ix cs = Some (r, cs') \<Longrightarrow> cs_base cs' = cs_base cs"
  by (erule for_each_keeps [where J = "\<lambda>s. cs_base s = cs_base cs", rotated]) (auto dest: init_device_base)

lemma on_data_sizes: "on_data f cs = Some (r, cs') \<Longrightarrow> same_sizes (cs_base cs) (cs_base cs')"
  by (auto simp: on_data_def deref_def same_sizes_def split: option.splits)

lemma chk_data_sizes:
  assumes "chk (on_data f cs) k = Some (r, cs')" "\<And>cs1 r. k cs1 = Some (r, cs') \<Longrightarrow> data_same cs1 cs'"
  shows "same_sizes (cs_base cs) (cs_base cs')"
proof -
  obtain r1 cs1 where c: "on_data f cs = Some (r1, cs1)" "(if nccl_ok r1 then k cs1 else Some (r1, cs1)) = Some (r, cs')"
    using assms(1) by (auto simp: chk_def split: option.splits)
  show ?thesis using on_data_sizes [OF c(1)] c(2) assms(2) [of cs1] by (cases "nccl_ok r1") (auto simp: data_same_def)
qed

lemma sender_create_told:
  assumes "ncclIbSenderQpsCreate p e cs = Some (r, cs')" "nccl_ok r"
  shows "same_sizes (cs_base cs) (cs_base cs') \<and> told (cs_meta cs') (cs_base cs')"
proof -
  have z: "same_sizes (cs_base cs) (cs_base cs')"
    using assms(1) unfolding ncclIbSenderQpsCreate_def by (rule chk_data_sizes) (auto simp: deref_def split: if_splits option.splits intro: resiliency_same)
  show ?thesis using z sender_create_done [OF assms] by (simp add: told_def same_sizes_def)
qed

lemma sender_connect_joined:
  assumes "ncclIbSenderQpsToRts p e m' cs = Some (r, cs')" "nccl_ok r" "told m (cs_base cs)"
  shows "same_sizes (cs_base cs) (cs_base cs') \<and> told m (cs_base cs') \<and> joined m' (cs_base cs')"
proof -
  have z: "same_sizes (cs_base cs) (cs_base cs')"
    using assms(1) unfolding ncclIbSenderQpsToRts_def by (rule chk_data_sizes) (auto split: if_splits intro: resiliency_same)
  show ?thesis using z sender_connect_done [OF assms(1,2)] assms(3) by (auto simp: told_def joined_def same_sizes_def connect_rel_def announced_def)
qed

text \<open>The state of a set-up that started from the call \<open>c\<close> with the base \<open>b\<close>; \<open>tell\<close> is whether the queue pairs exist.\<close>

definition c_progress :: "send_conn hs_call \<Rightarrow> ncclIbNetCommBase \<Rightarrow> bool \<Rightarrow> send_conn local_st \<Rightarrow> bool" where
  "c_progress c b tell l \<longleftrightarrow> same_call c (lo_call l) \<and> (\<exists>x. hc_comm (lo_call l) = Some x \<and> same_sizes b (c_base x) \<and> (tell \<longrightarrow> told (lo_meta l) (c_base x)))"

lemma told_devs [simp]: "told (m\<lparr> cm_devs := ds \<rparr>) b = told m b"
  by (simp add: told_def)

lemma leads_send_setup:
  assumes "\<And>x r cs. hc_comm (lo_call l) = Some x \<Longrightarrow> f (send_setup x (hc_proc (lo_call l)) (lo_meta l)) = Some (r, cs) \<Longrightarrow> nccl_ok r \<Longrightarrow>
      Q (l\<lparr> lo_call := (lo_call l)\<lparr> hc_comm := Some (put_send cs x), hc_proc := put_proc cs (hc_proc (lo_call l)) \<rparr>, lo_meta := cs_meta cs \<rparr>)"
  shows "leads (on_send_setup f l) P Q"
  unfolding on_send_setup_def using assms by (auto intro!: leads_deref)

lemma send_setup_sel [simp]: "cs_base (send_setup x pr m) = c_base x" "cs_meta (send_setup x pr m) = m" "c_base (put_send cs x) = cs_base cs"
  by (simp_all add: send_setup_def put_send_def)

lemma register_sender_keeps: "c_progress c b True l \<Longrightarrow> leads (register_sender e i l) P (c_progress c b True)"
  unfolding register_sender_def Let_def
  by (intro leads_deref leads_reg_mr leads_check_link) (auto simp: c_progress_def same_call_def set_meta_dev_def set_sn_def)

lemma register_speed_keeps: "c_progress c b True l \<Longrightarrow> leads (register_speed p e l) P (c_progress c b True)"
  unfolding register_speed_def by (auto simp: c_progress_def same_call_def set_sn_def intro!: leads_deref leads_reg_mr)

lemma c_setup_tells:
  assumes "c_progress c b False l"
  shows "leads (c_setup p e nq l) P (c_progress c b True)"
  unfolding c_setup_def Let_def
proof (rule leads_deref, rule leads_andthen)
  fix x
  show "leads (on_send_setup (for_each (init_device (hp_gid p) e (int NET_IB_MAX_REQUESTS * nq)) [0..<nat (ndevs (vProps (c_base x)))]) l) P (c_progress c b False)"
    using assms by (intro leads_send_setup) (auto simp: c_progress_def same_call_def dest: init_devices_base)
next
  fix x l assume l: "c_progress c b False l"
  show "leads (deref (hc_comm (lo_call l)) (\<lambda>y.
       andthen (on_send_setup (ncclIbSenderQpsCreate (hp_qp p) (he_qp e))
         ((set_sn (y\<lparr> sn_comm := (sn_comm y)\<lparr> sc_ar := all_ar (ncclIbDevs (pr_glob (hc_proc (lo_call l)))) (vProps (c_base y)) \<rparr> \<rparr>) l)\<lparr> lo_meta := zero_meta\<lparr> cm_ndevs := ndevs (vProps (c_base x)) \<rparr> \<rparr>)) (\<lambda>l.
       andthen (each (register_sender e) [0..<nat (ndevs (vProps (c_base x)))] l) (register_speed p e)))) P (c_progress c b True)"
  proof (intro leads_deref leads_andthen)
    fix y assume y: "hc_comm (lo_call l) = Some y"
    show "leads (on_send_setup (ncclIbSenderQpsCreate (hp_qp p) (he_qp e))
         ((set_sn (y\<lparr> sn_comm := (sn_comm y)\<lparr> sc_ar := all_ar (ncclIbDevs (pr_glob (hc_proc (lo_call l)))) (vProps (c_base y)) \<rparr> \<rparr>) l)\<lparr> lo_meta := zero_meta\<lparr> cm_ndevs := ndevs (vProps (c_base x)) \<rparr> \<rparr>))
        P (c_progress c b True)"
      using l y by (intro leads_send_setup) (auto simp: c_progress_def same_call_def set_sn_def same_sizes_def dest!: sender_create_told)
  next
    fix l assume "c_progress c b True l"
    then show "leads (each (register_sender e) [0..<nat (ndevs (vProps (c_base x)))] l) P (c_progress c b True)" by (rule leads_each [rotated]) (rule register_sender_keeps)
  qed (rule register_speed_keeps)
qed

lemma negotiate_agreed: "agreed nq v v' (negotiate nq v v' ooo b)"
  by (simp add: agreed_def negotiate_def Let_def max_def)

lemma same_sizes_agreed: "same_sizes b b' \<Longrightarrow> agreed nq v v' b \<Longrightarrow> agreed nq v v' b'"
  by (simp add: same_sizes_def agreed_def)

lemma upd_sbase_sel [simp]: "c_base (upd_sbase f x) = f (c_base x)"
  by (simp add: upd_sbase_def)

lemma sender_meta_told [simp]: "told (sender_meta p e ctx tc name x m) b = told m b"
  by (simp add: told_def sender_meta_def)

lemma telling_starts:
  assumes "c_progress c b True l" "hc_comm (lo_call l) = Some x" "agreed nq v v' b" "hc_buffer c = Some buf" "st_out (hc_st c) = encode (sz_devs p) (Dev_list v ooo)"
    "inp = encode (sz_devs p) (Dev_list v' ooo') @ st_in (hc_st c)"
  shows "c_telling p nq inp (store (sz_meta p) (Metadata (sender_meta p e ctx tc name x (lo_meta l))) (set_stage ncclIbCommStateSend (lo_call l)))"
proof -
  let ?m = "sender_meta p e ctx tc name x (lo_meta l)" and ?c = "set_stage ncclIbCommStateSend (lo_call l)"
  have k: "same_call c (lo_call l)" "same_sizes b (c_base x)" "told (lo_meta l) (c_base x)" using assms(1,2) by (auto simp: c_progress_def)
  have "hc_buffer ?c = Some buf" using k(1) assms(4) by (simp add: same_call_def)
  then obtain buf' where "hc_buffer (store (sz_meta p) (Metadata ?m) ?c) = Some buf'" "take (sz_meta p) buf' = encode (sz_meta p) (Metadata ?m)" using store_buffer by blast
  then show ?thesis using k assms(2,5,6) same_sizes_agreed [OF k(2) assms(3)] by (intro c_tellingI [of _ x nq v v' ?m buf']) (simp_all add: same_call_def)
qed

lemma part_recv_devs:
  assumes "c_learning p d inp c" "hc_state c = ncclIbCommStateRecvDevList"
  shows "leads (c_recv_devs p e ctx nq tc c) (\<lambda>c. hc_state c = ncclIbCommStateRecvDevList \<and> c_learning p d inp c) (\<lambda>c. hc_state c = ncclIbCommStateSend \<and> c_telling p nq inp c)"
    (is "leads _ ?P ?Q")
proof -
  from assms(1) obtain v ooo buf where h: "local_devs d v c" "hc_buffer c = Some buf" "st_out (hc_st c) = encode (sz_devs p) (Dev_list v ooo)"
    "inp = [] @ take (nat (hc_offset c)) buf @ st_in (hc_st c)" by (auto simp: c_learning_def)
  define got where "got c0 \<longleftrightarrow> (\<exists>buf. steady c c0 \<and> hc_buffer c0 = Some buf \<and> st_out (hc_st c0) = st_out (hc_st c) \<and> inp = take (sz_devs p) buf @ st_in (hc_st c0))" for c0
  have recv: "leads (transfer NCCL_SOCKET_RECV Stop (sz_devs p) (sn_sock x) c) ?P got" for x
    by (rule leads_recv [OF raises_simps(1) h(2,4)]) (use h assms(2) in \<open>auto simp: c_learning_def got_def steady_def local_devs_def\<close>)
  have rest: "leads (andthen (if resiliency (c_base x1) then check Stop (map_option (\<lambda>(r, ctx). (r, set_comm (x1\<lparr> sn_res := (sn_res x1)\<lparr> rsend_base := ctx \<rparr> \<rparr>) c1)) d) else go (set_comm x1 c1)) (\<lambda>c.
      deref (c_setup p e nq \<lparr> lo_call = c, lo_meta = zero_meta, lo_link = LINK_UNSPECIFIED \<rparr>) (\<lambda>(fl, l). if fl \<noteq> Go then Some (fl, lo_call l) else deref (hc_comm (lo_call l)) (\<lambda>x.
        go (store (sz_meta p) (Metadata (sender_meta p e ctx tc name x (lo_meta l))) (set_stage ncclIbCommStateSend (lo_call l))))))) ?P ?Q"
    if t: "got c0" "stored_devs (sz_devs p) (c0\<lparr> hc_offset := 0 \<rparr>) = Some (v', ooo')" "c1 = c0\<lparr> hc_offset := 0 \<rparr>" "agreed nq v v' (c_base x1)" for c0 c1 x1 v' ooo' d name
  proof (rule leads_andthen [where Q' = "\<lambda>c2. same_call c1 c2 \<and> (\<exists>x. hc_comm c2 = Some x \<and> agreed nq v v' (c_base x))"])
    show "leads (if resiliency (c_base x1) then check Stop (map_option (\<lambda>(r, ctx). (r, set_comm (x1\<lparr> sn_res := (sn_res x1)\<lparr> rsend_base := ctx \<rparr> \<rparr>) c1)) d) else go (set_comm x1 c1)) ?P
      (\<lambda>c2. same_call c1 c2 \<and> (\<exists>x. hc_comm c2 = Some x \<and> agreed nq v v' (c_base x)))"
      using t(4) by (auto simp: same_call_def intro!: leads_check)
  next
    fix c2 assume c2: "same_call c1 c2 \<and> (\<exists>x. hc_comm c2 = Some x \<and> agreed nq v v' (c_base x))"
    then obtain x where x: "hc_comm c2 = Some x" "agreed nq v v' (c_base x)" by blast
    from t(2) obtain buf1 where s1: "hc_buffer (c0\<lparr> hc_offset := 0 \<rparr>) = Some buf1" "take (sz_devs p) buf1 = encode (sz_devs p) (Dev_list v' ooo')" by (rule stored_devs_Some)
    have b1: "hc_buffer c0 = Some buf1" "inp = encode (sz_devs p) (Dev_list v' ooo') @ st_in (hc_st c0)" "st_out (hc_st c0) = encode (sz_devs p) (Dev_list v ooo)"
      using t(1) s1 h(3) unfolding got_def by auto
    show "leads (deref (c_setup p e nq \<lparr> lo_call = c2, lo_meta = zero_meta, lo_link = LINK_UNSPECIFIED \<rparr>) (\<lambda>(fl, l). if fl \<noteq> Go then Some (fl, lo_call l) else deref (hc_comm (lo_call l)) (\<lambda>x.
        go (store (sz_meta p) (Metadata (sender_meta p e ctx tc name x (lo_meta l))) (set_stage ncclIbCommStateSend (lo_call l)))))) ?P ?Q"
    proof (rule leads_inner [OF c_setup_tells [where P = "\<lambda>_. False"]])
      show "c_progress c2 (c_base x) False \<lparr> lo_call = c2, lo_meta = zero_meta, lo_link = LINK_UNSPECIFIED \<rparr>" using x by (simp add: c_progress_def)
      fix l assume "c_progress c2 (c_base x) True l"
      then show "leads (deref (hc_comm (lo_call l)) (\<lambda>x. go (store (sz_meta p) (Metadata (sender_meta p e ctx tc name x (lo_meta l))) (set_stage ncclIbCommStateSend (lo_call l))))) ?P ?Q"
        using telling_starts [of c2 "c_base x" l _ nq v v' buf1 p ooo inp ooo' e ctx tc name] x(2) b1 c2 t(3) by (auto simp: same_call_def intro!: leads_deref)
    qed simp
  qed
  show ?thesis
    unfolding c_recv_devs_def Let_def
    apply (rule leads_with_comm, rule leads_andthen [OF recv], rule leads_deref, split prod.split, intro allI impI, rule leads_deref)
    subgoal for x c0 a v' ooo' md
      using h(1) by (intro rest [of c0 v' ooo']) (auto simp: negotiate_agreed got_def steady_def local_devs_def)
    done
qed

lemma part_send:
  assumes "c_telling p nq inp c" "hc_state c = ncclIbCommStateSend"
  shows "leads (c_send p c) (\<lambda>c. hc_state c = ncclIbCommStateSend \<and> c_telling p nq inp c) (\<lambda>c. hc_state c = ncclIbCommStateConnecting \<and> c_joining p nq inp c)"
    (is "leads _ ?P ?Q")
  unfolding c_send_def
proof (rule leads_with_comm)
  fix y
  from assms(1) obtain v ooo v' ooo' m x buf where h: "hc_comm c = Some x" "agreed nq v v' (c_base x)" "told m (c_base x)" "hc_buffer c = Some buf" "take (sz_meta p) buf = encode (sz_meta p) (Metadata m)"
    "st_out (hc_st c) = encode (sz_devs p) (Dev_list v ooo) @ take (nat (hc_offset c)) (encode (sz_meta p) (Metadata m))" "inp = encode (sz_devs p) (Dev_list v' ooo') @ st_in (hc_st c)"
    by (auto simp: c_telling_def)
  show "leads (andthen (transfer NCCL_SOCKET_SEND Fail (sz_meta p) (sn_sock y) c) (\<lambda>c. go (store (sz_meta p) Zeroed (set_stage ncclIbCommStateConnecting c)))) ?P ?Q"
  proof (rule leads_andthen, rule leads_send [OF raises_simps(2) h(4-6)])
    fix c' assume "steady c c'" "hc_buffer c' = Some buf" "st_in (hc_st c') = st_in (hc_st c)"
      "st_out (hc_st c') = encode (sz_devs p) (Dev_list v ooo) @ take (nat (hc_offset c')) (encode (sz_meta p) (Metadata m))"
    then show "hc_state c' = ncclIbCommStateSend \<and> c_telling p nq inp c'" using h assms(2) by (auto simp: steady_def intro: c_tellingI)
  next
    fix c' assume c': "steady c c'" "hc_buffer c' = Some buf" "st_in (hc_st c') = st_in (hc_st c)" "st_out (hc_st c') = encode (sz_devs p) (Dev_list v ooo) @ encode (sz_meta p) (Metadata m)"
    then obtain buf' where "hc_buffer (store (sz_meta p) Zeroed (set_stage ncclIbCommStateConnecting c')) = Some buf'" using store_buffer [of "set_stage ncclIbCommStateConnecting c'" buf] by auto
    then show "c_joining p nq inp (store (sz_meta p) Zeroed (set_stage ncclIbCommStateConnecting c'))"
      using h c' by (intro c_joiningI [of _ x nq v v' m buf']) (simp_all add: steady_def)
  qed simp
qed

subsection \<open>Connecting the sender\<close>

definition c_ready_to_join :: "int \<Rightarrow> ncclNetVDeviceProps \<Rightarrow> ncclNetVDeviceProps \<Rightarrow> ncclIbConnectionMetadata \<Rightarrow> send_conn hs_call \<Rightarrow> send_conn hs_call \<Rightarrow> bool" where
  "c_ready_to_join nq v v' m c c' \<longleftrightarrow> same_call c c' \<and> (\<exists>x. hc_comm c' = Some x \<and> agreed nq v v' (c_base x) \<and> told m (c_base x))"

lemma store_record_keeps: "c_ready_to_join nq v v' m c0 c \<Longrightarrow> leads (store_record m' i c) P (c_ready_to_join nq v v' m c0)"
  unfolding store_record_def Let_def by (auto simp: c_ready_to_join_def same_call_def intro!: leads_with_comm leads_deref leads_check)

lemma register_records_keeps: "c_ready_to_join nq v v' m c0 c \<Longrightarrow> leads (register_records e i c) P (c_ready_to_join nq v v' m c0)"
  unfolding register_records_def by (auto simp: c_ready_to_join_def same_call_def intro!: leads_with_comm leads_deref leads_reg_mr)

definition same_qps :: "ncclIbNetCommBase \<Rightarrow> ncclIbNetCommBase \<Rightarrow> bool" where
  "same_qps b b' \<longleftrightarrow> same_sizes b b' \<and> qps b' = qps b"

lemma same_qps_facts: "same_qps b b' \<Longrightarrow> agreed nq v v' b' = agreed nq v v' b \<and> told m b' = told m b \<and> joined m' b' = joined m' b"
  by (simp add: same_qps_def same_sizes_def agreed_def told_def joined_def)

lemma speeds_same_qps: "ncclIbComputeDevSpeeds g db b = Some b' \<Longrightarrow> same_qps b b'" "ncclIbComputeLbWeights p b = Some b' \<Longrightarrow> same_qps b b'"
  by (auto simp: ncclIbComputeDevSpeeds_def ncclIbComputeLbWeights_def same_qps_def same_sizes_def Let_def deref_def split: option.splits if_splits)

lemma c_finish_joins:
  assumes "c_ready_to_join nq v v' m c0 c"
  shows "leads (c_finish p e m' c) (\<lambda>_. False)
    (\<lambda>c. hc_state c = ncclIbCommStateConnected \<and> hc_offset c = 0 \<and> hc_st c = hc_st c0 \<and> (\<exists>x. hc_comm c = Some x \<and> agreed nq v v' (c_base x) \<and> told m (c_base x) \<and> joined m' (c_base x) \<and> ready (c_base x) = 1))"
    (is "leads _ _ ?Q")
  unfolding c_finish_def
proof (rule leads_inner)
  let ?J = "\<lambda>l. hc_st (lo_call l) = hc_st c0 \<and> (\<exists>x. hc_comm (lo_call l) = Some x \<and> agreed nq v v' (c_base x) \<and> told m (c_base x) \<and> joined m' (c_base x))"
  show "leads (on_send_setup (ncclIbSenderQpsToRts (hp_qp p) (he_qp e) m') \<lparr> lo_call = c, lo_meta = zero_meta, lo_link = LINK_UNSPECIFIED \<rparr>) (\<lambda>_. False) ?J"
  proof (rule leads_send_setup)
    fix x r cs
    assume x: "hc_comm (lo_call \<lparr> lo_call = c, lo_meta = zero_meta, lo_link = LINK_UNSPECIFIED \<rparr>) = Some x" and
      s: "ncclIbSenderQpsToRts (hp_qp p) (he_qp e) m' (send_setup x (hc_proc (lo_call \<lparr> lo_call = c, lo_meta = zero_meta, lo_link = LINK_UNSPECIFIED \<rparr>)) (lo_meta \<lparr> lo_call = c, lo_meta = zero_meta, lo_link = LINK_UNSPECIFIED \<rparr>)) = Some (r, cs)" "nccl_ok r"
    have b: "agreed nq v v' (c_base x)" "told m (c_base x)" "same_call c0 c" using assms x by (auto simp: c_ready_to_join_def)
    have "same_sizes (c_base x) (cs_base cs) \<and> told m (cs_base cs) \<and> joined m' (cs_base cs)" using sender_connect_joined [OF s, of m] b(2) by simp
    then show "?J (\<lparr> lo_call = c, lo_meta = zero_meta, lo_link = LINK_UNSPECIFIED \<rparr>\<lparr> lo_call := (lo_call \<lparr> lo_call = c, lo_meta = zero_meta, lo_link = LINK_UNSPECIFIED \<rparr>)\<lparr> hc_comm := Some (put_send cs x),
        hc_proc := put_proc cs (hc_proc (lo_call \<lparr> lo_call = c, lo_meta = zero_meta, lo_link = LINK_UNSPECIFIED \<rparr>)) \<rparr>, lo_meta := cs_meta cs \<rparr>)"
      using b same_sizes_agreed by (auto simp: same_call_def)
  qed
  fix l assume l: "?J l"
  show "leads (with_comm (lo_call l) (\<lambda>x. deref (ncclIbComputeDevSpeeds (pr_glob (hc_proc (lo_call l))) (ncclIbGetNetCommDevBase_send (sn_comm x)) (c_base x)) (\<lambda>b. deref (ncclIbComputeLbWeights (hp_ib p) b) (\<lambda>b.
      go (set_stage ncclIbCommStateConnected (set_comm (upd_sbase (\<lambda>_. b\<lparr> ready := 1 \<rparr>) x) (lo_call l))))))) (\<lambda>_. False) ?Q"
  proof (intro leads_with_comm leads_deref)
    fix x b b' assume x: "hc_comm (lo_call l) = Some x" "ncclIbComputeDevSpeeds (pr_glob (hc_proc (lo_call l))) (ncclIbGetNetCommDevBase_send (sn_comm x)) (c_base x) = Some b" "ncclIbComputeLbWeights (hp_ib p) b = Some b'"
    have "same_qps b' (b'\<lparr> ready := 1 \<rparr>)" by (simp add: same_qps_def same_sizes_def)
    then show "leads (go (set_stage ncclIbCommStateConnected (set_comm (upd_sbase (\<lambda>_. b'\<lparr> ready := 1 \<rparr>) x) (lo_call l)))) (\<lambda>_. False) ?Q"
      using l x(1) same_qps_facts [OF speeds_same_qps(1) [OF x(2)]] same_qps_facts [OF speeds_same_qps(2) [OF x(3)]] same_qps_facts [of b' "b'\<lparr> ready := 1 \<rparr>"] by simp
  qed
qed simp

lemma part_connect:
  assumes "c_joining p nq inp c" "hc_state c = ncclIbCommStateConnecting"
  shows "leads (c_connect p e c) (\<lambda>c. hc_state c = ncclIbCommStateConnecting \<and> c_joining p nq inp c) (\<lambda>c. hc_state c = ncclIbCommStateConnected \<and> c_flagging p nq inp (nat (hc_offset c)) c)"
    (is "leads _ ?P ?Q")
proof -
  from assms(1) obtain v ooo v' ooo' m x buf where h: "hc_comm c = Some x" "agreed nq v v' (c_base x)" "told m (c_base x)" "hc_buffer c = Some buf"
    "inp = encode (sz_devs p) (Dev_list v' ooo') @ take (nat (hc_offset c)) buf @ st_in (hc_st c)" "st_out (hc_st c) = encode (sz_devs p) (Dev_list v ooo) @ encode (sz_meta p) (Metadata m)"
    by (auto simp: c_joining_def)
  define got where "got c0 \<longleftrightarrow> (\<exists>buf. steady c c0 \<and> hc_buffer c0 = Some buf \<and> st_out (hc_st c0) = st_out (hc_st c) \<and> inp = encode (sz_devs p) (Dev_list v' ooo') @ take (sz_meta p) buf @ st_in (hc_st c0))" for c0
  have recv: "leads (transfer NCCL_SOCKET_RECV Fail (sz_meta p) (sn_sock y) c) ?P got" for y
    by (rule leads_recv [OF raises_simps(2) h(4,5)]) (use h assms(2) in \<open>auto simp: got_def steady_def intro: c_joiningI\<close>)
  have rest: "leads (andthen (each (store_record m') ix (set_comm y c0)) (\<lambda>c. andthen (each (register_records e) jx c) (c_finish p e m'))) ?P ?Q"
    if t: "got c0" "stored_meta (sz_meta p) c0 = Some m'" "same_qps (c_base x) (c_base y)" for c0 m' ix jx y
  proof (rule leads_andthen [OF leads_each [where J = "c_ready_to_join nq v v' m c0"]])
    show "c_ready_to_join nq v v' m c0 (set_comm y c0)" using h t(3) same_qps_facts by (auto simp: c_ready_to_join_def same_call_def)
    fix c1 assume c1: "c_ready_to_join nq v v' m c0 c1"
    from t(2) obtain buf1 where s1: "hc_buffer c0 = Some buf1" "take (sz_meta p) buf1 = encode (sz_meta p) (Metadata m')" by (rule stored_meta_Some)
    have b1: "inp = encode (sz_devs p) (Dev_list v' ooo') @ encode (sz_meta p) (Metadata m') @ st_in (hc_st c0)" "st_out (hc_st c0) = st_out (hc_st c)" using t(1) s1 unfolding got_def by auto
    have "leads (c_finish p e m' c2) ?P ?Q" if "c_ready_to_join nq v v' m c0 c2" for c2
      by (rule leads_mono [OF c_finish_joins [OF that]]) (use b1 h(6) in \<open>auto intro: c_flaggingI\<close>)
    then show "leads (andthen (each (register_records e) jx c1) (c_finish p e m')) ?P ?Q"
      by (rule leads_andthen [OF leads_each [where J = "c_ready_to_join nq v v' m c0"], rotated 2]) (use c1 register_records_keeps in auto)
  qed (rule store_record_keeps)
  show ?thesis
    unfolding c_connect_def Let_def
    apply (rule leads_with_comm, rule leads_andthen [OF recv], intro leads_deref)
    subgoal for y c0 m' ok
      using h(1) by (cases ok) (auto simp: nccl_ok_def same_qps_def same_sizes_def intro!: leads_deref rest)
    done
qed

lemma part_send_ready:
  assumes "c_flagging p nq inp (nat (hc_offset c)) c" "hc_state c = ncclIbCommStateConnected"
  shows "leads (c_send_ready c) (\<lambda>c. hc_state c = ncclIbCommStateConnected \<and> c_flagging p nq inp (nat (hc_offset c)) c) (c_flagging p nq inp 4)"
proof -
  from assms(1) obtain v ooo v' ooo' m m' x where h: "hc_comm c = Some x" "agreed nq v v' (c_base x)" "told m (c_base x)" "joined m' (c_base x)" "ready (c_base x) = 1"
     "st_out (hc_st c) = (encode (sz_devs p) (Dev_list v ooo) @ encode (sz_meta p) (Metadata m)) @ take (nat (hc_offset c)) (encode 4 (Ready_flag 1))"
     "inp = encode (sz_devs p) (Dev_list v' ooo') @ encode (sz_meta p) (Metadata m') @ st_in (hc_st c)" by (auto simp: c_flagging_def)
  have e4: "take 4 (encode 4 (Ready_flag 1)) = encode 4 (Ready_flag 1)" by simp
  show ?thesis
    unfolding leads_def
  proof (intro allI impI)
    fix fl s assume "c_send_ready c = Some (fl, s)"
    then obtain bs where t: "transfer_on NCCL_SOCKET_SEND Fail 4 (sn_sock x) (encode 4 (Ready_flag 1)) c = Some (fl, bs, s)"
      using h(1,5) by (auto simp: c_send_ready_def with_comm_def deref_def)
    note f = transfer_on_send [OF raises_simps(2) t, unfolded e4, OF h(6)]
    have g: "steady c s" "st_in (hc_st s) = st_in (hc_st c)" "fl = Go \<Longrightarrow> st_out (hc_st s) = (encode (sz_devs p) (Dev_list v ooo) @ encode (sz_meta p) (Metadata m)) @ encode 4 (Ready_flag 1)"
      using f by blast+
    have "c_flagging p nq inp (nat (hc_offset s)) s" by (rule c_flaggingI [of s x nq v v' m m' p ooo]) (use f h in \<open>simp_all add: steady_def\<close>)
    moreover have "c_flagging p nq inp 4 s" if "fl = Go" by (rule c_flaggingI [of s x nq v v' m m' p ooo]) (use that g h in \<open>simp_all add: steady_def\<close>)
    ultimately show "case fl of Go \<Rightarrow> c_flagging p nq inp 4 s | Stop r \<Rightarrow> nccl_ok r \<longrightarrow> hc_state s = ncclIbCommStateConnected \<and> c_flagging p nq inp (nat (hc_offset s)) s | Fail r \<Rightarrow> \<not> nccl_ok r"
      using g(1) assms(2) transfer_on_fails [OF raises_simps(2) t] by (cases fl) (auto simp: steady_def)
  qed
qed

subsection \<open>The run of a connector\<close>

lemma connect_entry_cases: "connect_entry s = Some k \<longleftrightarrow>
  (k, s) \<in> {(0, ncclIbCommStateStart), (1, ncclIbCommStateConnect), (2, ncclIbCommStateSendDevList), (3, ncclIbCommStateRecvDevList), (4, ncclIbCommStateSend), (5, ncclIbCommStateConnecting), (6, ncclIbCommStateConnected)}"
  by (cases s) auto

lemma c_inv_simps:
  "c_inv p nq d inp 0 = (\<lambda>c. hc_state c = ncclIbCommStateStart \<and> c_opening d inp c)"
  "c_inv p nq d inp (Suc 0) = (\<lambda>c. hc_state c = ncclIbCommStateConnect \<and> c_opening d inp c)"
  "c_inv p nq d inp 2 = (\<lambda>c. hc_state c = ncclIbCommStateSendDevList \<and> c_listing p d inp c)"
  "c_inv p nq d inp 3 = (\<lambda>c. hc_state c = ncclIbCommStateRecvDevList \<and> c_learning p d inp c)"
  "c_inv p nq d inp 4 = (\<lambda>c. hc_state c = ncclIbCommStateSend \<and> c_telling p nq inp c)"
  "c_inv p nq d inp 5 = (\<lambda>c. hc_state c = ncclIbCommStateConnecting \<and> c_joining p nq inp c)"
  "c_inv p nq d inp 6 = (\<lambda>c. hc_state c = ncclIbCommStateConnected \<and> c_flagging p nq inp (nat (hc_offset c)) c)"
  "c_inv p nq d inp 7 = (\<lambda>c. c_flagging p nq inp 4 c)"
  by (auto simp: fun_eq_iff c_inv_def connect_entry_cases eval_nat_numeral)

lemma seven_cases: "k < 7 \<Longrightarrow> k = 0 \<or> k = Suc 0 \<or> k = 2 \<or> k = 3 \<or> k = 4 \<or> k = 5 \<or> k = (6 :: nat)"
  by arith

interpretation connector: staged_run "c_inv p nq d inp" "connect_parts p e ctx nq tc" for p nq d inp e ctx tc
proof
  fix k c assume k: "k < length (connect_parts p e ctx nq tc)" and i: "c_inv p nq d inp k c"
  have "k < 7" using k by (simp add: connect_parts_def)
  have start: "c_opening d inp c \<Longrightarrow> leads (c_start p e c) (c_inv p nq d inp 0) (c_inv p nq d inp (Suc 0))"
    by (rule leads_mono [OF part_start]) (simp_all add: c_inv_simps)
  from seven_cases [OF \<open>k < 7\<close>] show "leads ((connect_parts p e ctx nq tc ! k) c) (c_inv p nq d inp k) (c_inv p nq d inp (Suc k))"
    using i start part_check part_send_devs part_recv_devs part_send part_connect part_send_ready
    by (elim disjE; hypsubst) (simp_all add: connect_parts_def c_inv_simps flip: numeral_2_eq_2)
qed

end
