(* ===== verification/NetIb_Handshake_Run.thy ===== *)
theory NetIb_Handshake_Run
  imports NetIb_Handshake_Facts "HOL-Library.Sublist"
begin

text \<open>
  The accepting side, with the same interface \<open>staged_run\<close>, and whole handshakes: any number of calls of \<open>ncclIbConnectImpl\<close> on the one side and of \<open>ncclIbAcceptImpl\<close> on the other, each with its
  own answers of the libraries, and other work of the processes in between.
\<close>

section \<open>The stages of the accepting side\<close>

abbreviation a_base :: "recv_conn \<Rightarrow> ncclIbNetCommBase" where
  "a_base x \<equiv> rc_base (rn_comm x)"

definition a_opening :: "bool \<Rightarrow> wire list \<Rightarrow> 'c hs_call \<Rightarrow> bool" where
  "a_opening alloc inp c \<longleftrightarrow> (alloc \<longrightarrow> hc_buffer c \<noteq> None) \<and> st_out (hc_st c) = [] \<and> st_in (hc_st c) = inp"

definition a_learning :: "wire list \<Rightarrow> 'c hs_call \<Rightarrow> bool" where
  "a_learning inp c \<longleftrightarrow> (\<exists>buf. hc_buffer c = Some buf \<and> st_out (hc_st c) = [] \<and> inp = take (nat (hc_offset c)) buf @ st_in (hc_st c))"

definition a_listing :: "hs_params \<Rightarrow> int \<Rightarrow> wire list \<Rightarrow> recv_conn hs_call \<Rightarrow> bool" where
  "a_listing p nq inp c \<longleftrightarrow> (\<exists>v ooo v' ooo' x buf. hc_comm c = Some x \<and> agreed nq v v' (a_base x) \<and> hc_buffer c = Some buf \<and> take (sz_devs p) buf = encode (sz_devs p) (Dev_list v ooo)
     \<and> st_out (hc_st c) = take (nat (hc_offset c)) (encode (sz_devs p) (Dev_list v ooo)) \<and> inp = encode (sz_devs p) (Dev_list v' ooo') @ st_in (hc_st c))"

definition a_waiting :: "hs_params \<Rightarrow> int \<Rightarrow> wire list \<Rightarrow> recv_conn hs_call \<Rightarrow> bool" where
  "a_waiting p nq inp c \<longleftrightarrow> (\<exists>v ooo v' ooo' x buf. hc_comm c = Some x \<and> agreed nq v v' (a_base x) \<and> hc_buffer c = Some buf \<and> st_out (hc_st c) = encode (sz_devs p) (Dev_list v ooo)
     \<and> inp = encode (sz_devs p) (Dev_list v' ooo') @ take (nat (hc_offset c)) buf @ st_in (hc_st c))"

definition a_telling :: "hs_params \<Rightarrow> int \<Rightarrow> wire list \<Rightarrow> recv_conn hs_call \<Rightarrow> bool" where
  "a_telling p nq inp c \<longleftrightarrow> (\<exists>v ooo v' ooo' m m' x buf. hc_comm c = Some x \<and> agreed nq v v' (a_base x) \<and> told m (a_base x) \<and> joined m' (a_base x) \<and> hc_buffer c = Some buf
     \<and> take (sz_meta p) buf = encode (sz_meta p) (Metadata m) \<and> st_out (hc_st c) = encode (sz_devs p) (Dev_list v ooo) @ take (nat (hc_offset c)) (encode (sz_meta p) (Metadata m))
     \<and> inp = encode (sz_devs p) (Dev_list v' ooo') @ encode (sz_meta p) (Metadata m') @ st_in (hc_st c))"

text \<open>The whole exchange but the ready flag, of which the bytes \<open>flag\<close> have been read.\<close>

definition a_exchanged :: "hs_params \<Rightarrow> int \<Rightarrow> wire list \<Rightarrow> wire list \<Rightarrow> recv_conn hs_call \<Rightarrow> recv_conn \<Rightarrow> bool" where
  "a_exchanged p nq inp flag c x \<longleftrightarrow> (\<exists>v ooo v' ooo' m m'. agreed nq v v' (a_base x) \<and> told m (a_base x) \<and> joined m' (a_base x)
     \<and> st_out (hc_st c) = encode (sz_devs p) (Dev_list v ooo) @ encode (sz_meta p) (Metadata m)
     \<and> inp = encode (sz_devs p) (Dev_list v' ooo') @ encode (sz_meta p) (Metadata m') @ flag @ st_in (hc_st c))"

definition a_flagging :: "hs_params \<Rightarrow> int \<Rightarrow> wire list \<Rightarrow> recv_conn hs_call \<Rightarrow> bool" where
  "a_flagging p nq inp c \<longleftrightarrow> (\<exists>x. hc_comm c = Some x \<and> a_exchanged p nq inp (take (nat (hc_offset c)) (rn_readyBytes x)) c x)"

definition a_done :: "hs_params \<Rightarrow> int \<Rightarrow> wire list \<Rightarrow> recv_conn hs_call \<Rightarrow> bool" where
  "a_done p nq inp c \<longleftrightarrow> (\<exists>x. hc_comm c = Some x \<and> a_exchanged p nq inp (encode 4 (Ready_flag (ready (a_base x)))) c x)"

definition a_inv :: "hs_params \<Rightarrow> int \<Rightarrow> wire list \<Rightarrow> nat \<Rightarrow> recv_conn hs_call \<Rightarrow> bool" where
  "a_inv p nq inp k c \<longleftrightarrow> (k < 7 \<longrightarrow> accept_entry (hc_state c) = Some k)
     \<and> ([a_opening False inp, a_opening True inp, a_learning inp, a_listing p nq inp, a_waiting p nq inp, a_telling p nq inp, a_flagging p nq inp, a_done p nq inp] ! k) c"

lemma a_listingI:
  "hc_comm c = Some x \<Longrightarrow> agreed nq v v' (a_base x) \<Longrightarrow> hc_buffer c = Some buf \<Longrightarrow> take (sz_devs p) buf = encode (sz_devs p) (Dev_list v ooo) \<Longrightarrow>
   st_out (hc_st c) = take (nat (hc_offset c)) (encode (sz_devs p) (Dev_list v ooo)) \<Longrightarrow> inp = encode (sz_devs p) (Dev_list v' ooo') @ st_in (hc_st c) \<Longrightarrow> a_listing p nq inp c"
  unfolding a_listing_def by blast

lemma a_waitingI:
  "hc_comm c = Some x \<Longrightarrow> agreed nq v v' (a_base x) \<Longrightarrow> hc_buffer c = Some buf \<Longrightarrow> st_out (hc_st c) = encode (sz_devs p) (Dev_list v ooo) \<Longrightarrow>
   inp = encode (sz_devs p) (Dev_list v' ooo') @ take (nat (hc_offset c)) buf @ st_in (hc_st c) \<Longrightarrow> a_waiting p nq inp c"
  unfolding a_waiting_def by blast

lemma a_tellingI:
  "hc_comm c = Some x \<Longrightarrow> agreed nq v v' (a_base x) \<Longrightarrow> told m (a_base x) \<Longrightarrow> joined m' (a_base x) \<Longrightarrow> hc_buffer c = Some buf \<Longrightarrow> take (sz_meta p) buf = encode (sz_meta p) (Metadata m) \<Longrightarrow>
   st_out (hc_st c) = encode (sz_devs p) (Dev_list v ooo) @ take (nat (hc_offset c)) (encode (sz_meta p) (Metadata m)) \<Longrightarrow>
   inp = encode (sz_devs p) (Dev_list v' ooo') @ encode (sz_meta p) (Metadata m') @ st_in (hc_st c) \<Longrightarrow> a_telling p nq inp c"
  unfolding a_telling_def by blast

lemma a_exchangedI:
  "agreed nq v v' (a_base x) \<Longrightarrow> told m (a_base x) \<Longrightarrow> joined m' (a_base x) \<Longrightarrow> st_out (hc_st c) = encode (sz_devs p) (Dev_list v ooo) @ encode (sz_meta p) (Metadata m) \<Longrightarrow>
   inp = encode (sz_devs p) (Dev_list v' ooo') @ encode (sz_meta p) (Metadata m') @ flag @ st_in (hc_st c) \<Longrightarrow> a_exchanged p nq inp flag c x"
  unfolding a_exchanged_def by blast

section \<open>The parts up to the metadata\<close>

lemma accept_start: "a_opening False inp c \<Longrightarrow> leads (a_start p e c) (\<lambda>_. False) (\<lambda>c. hc_state c = ncclIbCommStateAccept \<and> a_opening True inp c)"
  unfolding a_start_def Let_def by (auto simp: a_opening_def nccl_ok_def intro!: leads_deref split: option.splits prod.splits)

lemma accept_check:
  assumes "a_opening True inp c" "hc_state c = ncclIbCommStateAccept"
  shows "leads (a_check e c) (\<lambda>c. hc_state c = ncclIbCommStateAccept \<and> a_opening True inp c) (\<lambda>c. hc_state c = ncclIbCommStateRecvDevList \<and> a_learning inp c)"
  unfolding a_check_def Let_def using assms
  by (auto simp: a_opening_def a_learning_def intro!: leads_with_comm split: prod.splits)

lemma upd_rvbase_sel [simp]: "a_base (upd_rvbase f x) = f (a_base x)"
  by (simp add: upd_rvbase_def)

lemma accept_listing_starts:
  assumes "hc_comm c = Some x" "agreed nq v v' (a_base x)" "hc_buffer c = Some buf" "st_out (hc_st c) = []" "inp = encode (sz_devs p) (Dev_list v' ooo') @ st_in (hc_st c)" "hc_offset c = 0"
  shows "a_listing p nq inp (store (sz_devs p) (Dev_list v ooo) c)"
proof -
  obtain buf' where "hc_buffer (store (sz_devs p) (Dev_list v ooo) c) = Some buf'" "take (sz_devs p) buf' = encode (sz_devs p) (Dev_list v ooo)"
    using store_buffer [OF assms(3)] by blast
  then show ?thesis using assms by (intro a_listingI [of _ x nq v v' buf' p ooo]) simp_all
qed

lemma accept_recv_devs:
  assumes "a_learning inp c" "hc_state c = ncclIbCommStateRecvDevList"
  shows "leads (a_recv_devs p nq c) (\<lambda>c. hc_state c = ncclIbCommStateRecvDevList \<and> a_learning inp c) (\<lambda>c. hc_state c = ncclIbCommStateSendDevList \<and> a_listing p nq inp c)"
    (is "leads _ ?P ?Q")
proof -
  from assms(1) obtain buf where h: "hc_buffer c = Some buf" "st_out (hc_st c) = []" "inp = [] @ take (nat (hc_offset c)) buf @ st_in (hc_st c)" by (auto simp: a_learning_def)
  define got where "got c0 \<longleftrightarrow> (\<exists>buf. steady c c0 \<and> hc_buffer c0 = Some buf \<and> st_out (hc_st c0) = [] \<and> inp = take (sz_devs p) buf @ st_in (hc_st c0))" for c0
  have recv: "leads (transfer NCCL_SOCKET_RECV Stop (sz_devs p) (rn_sock x) c) ?P got" for x
    by (rule leads_recv [OF raises_simps(1) h(1,3)]) (use h assms(2) in \<open>auto simp: a_learning_def got_def steady_def\<close>)
  have rest: "leads (andthen (check Stop (ret (fst (ncclIbCheckVProps w v v')) c0)) (\<lambda>c.
      andthen (if resiliency (a_base x1) then check Stop (map_option (\<lambda>(r, ctx). (r, set_comm (x1\<lparr> rn_res := ctx \<rparr>) c)) d) else go (set_comm x1 c)) (\<lambda>c.
      with_comm c (\<lambda>x. deref (os c) (\<lambda>ooo. go (store (sz_devs p) (Dev_list v ooo) (set_stage ncclIbCommStateSendDevList (set_comm (upd_rvbase (\<lambda>b. b\<lparr> localOooRq := ooo \<rparr>) x) c)))))))) ?P ?Q"
    if t: "got c0" "stored_devs (sz_devs p) c0 = Some (v', ooo')" "agreed nq v v' (a_base x1)" for c0 x1 v v' ooo' d w os
  proof -
    from t(2) obtain buf1 where s1: "hc_buffer c0 = Some buf1" "take (sz_devs p) buf1 = encode (sz_devs p) (Dev_list v' ooo')" by (rule stored_devs_Some)
    have b1: "inp = encode (sz_devs p) (Dev_list v' ooo') @ st_in (hc_st c0)" "st_out (hc_st c0) = []" using t(1) s1 unfolding got_def by auto
    let ?J = "\<lambda>c2. same_call c0 c2 \<and> (\<exists>x. hc_comm c2 = Some x \<and> agreed nq v v' (a_base x))"
    have ok: "agreed nq v v' (b\<lparr> localOooRq := ooo \<rparr>) = agreed nq v v' b" for b ooo by (simp add: agreed_def)
    have one: "leads (if resiliency (a_base x1) then check Stop (map_option (\<lambda>(r, ctx). (r, set_comm (x1\<lparr> rn_res := ctx \<rparr>) c1)) d) else go (set_comm x1 c1)) ?P ?J" if "c1 = c0" for c1
      using t(3) that by (auto simp: same_call_def intro!: leads_check)
    have two: "leads (with_comm c2 (\<lambda>x. deref (os c2) (\<lambda>ooo. go (store (sz_devs p) (Dev_list v ooo) (set_stage ncclIbCommStateSendDevList (set_comm (upd_rvbase (\<lambda>b. b\<lparr> localOooRq := ooo \<rparr>) x) c2)))))) ?P ?Q" if "?J c2" for c2
    proof (intro leads_with_comm leads_deref)
      fix x ooo assume x: "hc_comm c2 = Some x"
      have "a_listing p nq inp (store (sz_devs p) (Dev_list v ooo) (set_stage ncclIbCommStateSendDevList (set_comm (upd_rvbase (\<lambda>b. b\<lparr> localOooRq := ooo \<rparr>) x) c2)))"
        by (rule accept_listing_starts [where x = "upd_rvbase (\<lambda>b. b\<lparr> localOooRq := ooo \<rparr>) x" and v' = v' and ooo' = ooo' and buf = buf1]) (use that x b1 s1 in \<open>auto simp: same_call_def ok\<close>)
      then show "leads (go (store (sz_devs p) (Dev_list v ooo) (set_stage ncclIbCommStateSendDevList (set_comm (upd_rvbase (\<lambda>b. b\<lparr> localOooRq := ooo \<rparr>) x) c2)))) ?P ?Q" by simp
    qed
    have vp: "leads (check Stop (ret r c0)) ?P (\<lambda>c1. c1 = c0)" for r by (rule leads_check) simp
    show ?thesis by (rule leads_andthen [OF vp], rule leads_andthen [OF one two])
  qed
  show ?thesis
    unfolding a_recv_devs_def Let_def
    apply (rule leads_with_comm, rule leads_andthen [OF recv], rule leads_deref, split prod.split, intro allI impI)
    subgoal for x c0 a v' ooo'
      by (cases "hc_dev c0 \<ge> int (length (pr_merged (hc_proc c0)))") (auto simp: nccl_ok_def simp del: upd_rvbase_sel intro!: leads_deref rest, auto simp: negotiate_agreed)
    done
qed

lemma accept_send_devs:
  assumes "a_listing p nq inp c" "hc_state c = ncclIbCommStateSendDevList"
  shows "leads (a_send_devs p c) (\<lambda>c. hc_state c = ncclIbCommStateSendDevList \<and> a_listing p nq inp c) (\<lambda>c. hc_state c = ncclIbCommStateRecv \<and> a_waiting p nq inp c)"
    (is "leads _ ?P ?Q")
  unfolding a_send_devs_def
proof (rule leads_with_comm)
  fix y
  from assms(1) obtain v ooo v' ooo' x buf where h: "hc_comm c = Some x" "agreed nq v v' (a_base x)" "hc_buffer c = Some buf" "take (sz_devs p) buf = encode (sz_devs p) (Dev_list v ooo)"
    "st_out (hc_st c) = [] @ take (nat (hc_offset c)) (encode (sz_devs p) (Dev_list v ooo))" "inp = encode (sz_devs p) (Dev_list v' ooo') @ st_in (hc_st c)" by (auto simp: a_listing_def)
  show "leads (andthen (transfer NCCL_SOCKET_SEND Fail (sz_devs p) (rn_sock y) c) (\<lambda>c. go (set_stage ncclIbCommStateRecv c))) ?P ?Q"
  proof (rule leads_andthen, rule leads_send [OF raises_simps(2) h(3-5)])
    fix c' assume "steady c c'" "hc_buffer c' = Some buf" "st_in (hc_st c') = st_in (hc_st c)" "st_out (hc_st c') = [] @ take (nat (hc_offset c')) (encode (sz_devs p) (Dev_list v ooo))"
    then show "hc_state c' = ncclIbCommStateSendDevList \<and> a_listing p nq inp c'" using h assms(2) by (auto simp: steady_def intro: a_listingI)
  next
    fix c' assume "steady c c'" "hc_buffer c' = Some buf" "st_in (hc_st c') = st_in (hc_st c)" "st_out (hc_st c') = [] @ encode (sz_devs p) (Dev_list v ooo)"
    then show "a_waiting p nq inp (set_stage ncclIbCommStateRecv c')" using h by (intro a_waitingI [of _ x nq v v' buf]) (auto simp: steady_def)
  qed simp
qed

section \<open>Setting up the receiver\<close>

lemma receiver_create_joined:
  assumes "ncclIbReceiverQpsCreateToRts p ip e m' cs = Some (r, cs')" "nccl_ok r"
  shows "same_sizes (cs_base cs) (cs_base cs') \<and> told (cs_meta cs') (cs_base cs') \<and> joined m' (cs_base cs')"
proof -
  have flush: "data_same cs1 (if cs_flushEnabled cs1 \<noteq> 0 then cs1\<lparr> cs_flushQpSl := cm_sl m', cs_flushQpTc := cm_tc m' \<rparr> else cs1)" for cs1 by (simp add: data_same_def)
  have z: "same_sizes (cs_base cs) (cs_base cs')"
    using assms(1) unfolding ncclIbReceiverQpsCreateToRts_def Let_def
  proof (rule chk_data_sizes)
    fix cs1 :: conn_setup and r
    let ?f = "if cs_flushEnabled cs1 \<noteq> 0 then cs1\<lparr> cs_flushQpSl := cm_sl m', cs_flushQpTc := cm_tc m' \<rparr> else cs1"
    assume "(if resiliency (cs_base ?f) then ncclIbResiliencyReceiverQpsCreateToRts p e m' ?f else ret ncclSuccess ?f) = Some (r, cs')"
    then have "data_same ?f cs'" by (cases "resiliency (cs_base ?f)") (auto intro: resiliency_same)
    then show "data_same cs1 cs'" using flush data_same_trans by blast
  qed
  show ?thesis using z receiver_done [OF assms] by (simp add: told_def joined_def same_sizes_def)
qed

text \<open>The state of a set-up that started from the call \<open>c\<close>; \<open>tell\<close> is whether the queue pairs exist.\<close>

definition a_progress :: "recv_conn hs_call \<Rightarrow> int \<Rightarrow> ncclNetVDeviceProps \<Rightarrow> ncclNetVDeviceProps \<Rightarrow> ncclIbConnectionMetadata option \<Rightarrow> recv_conn local_st \<Rightarrow> bool" where
  "a_progress c nq v v' tell l \<longleftrightarrow> same_call c (lo_call l)
     \<and> (\<exists>x. hc_comm (lo_call l) = Some x \<and> agreed nq v v' (a_base x) \<and> (case tell of None \<Rightarrow> True | Some m' \<Rightarrow> told (lo_meta l) (a_base x) \<and> joined m' (a_base x)))"

lemma leads_recv_setup:
  assumes "\<And>x r cs. hc_comm (lo_call l) = Some x \<Longrightarrow> f (recv_setup x (hc_proc (lo_call l)) (lo_meta l)) = Some (r, cs) \<Longrightarrow> nccl_ok r \<Longrightarrow>
      Q (l\<lparr> lo_call := (lo_call l)\<lparr> hc_comm := Some (put_recv cs x), hc_proc := put_proc cs (hc_proc (lo_call l)) \<rparr>, lo_meta := cs_meta cs \<rparr>)"
  shows "leads (on_recv_setup f l) P Q"
  unfolding on_recv_setup_def using assms by (auto intro!: leads_deref)

lemma recv_setup_sel [simp]: "cs_base (recv_setup x pr m) = a_base x" "cs_meta (recv_setup x pr m) = m" "a_base (put_recv cs x) = cs_base cs"
  by (simp_all add: recv_setup_def put_recv_def)

lemma a_init_device_keeps:
  assumes "a_progress c nq v v' None l"
  shows "leads (a_init_device p e cq i l) P (a_progress c nq v v' None)"
  unfolding a_init_device_def
proof (rule leads_andthen)
  show "leads (on_recv_setup (init_device (hp_gid p) e cq i) l) P (a_progress c nq v v' None)"
    using assms by (intro leads_recv_setup) (auto simp: a_progress_def same_call_def dest: init_device_base)
qed (intro leads_deref leads_check_link, auto simp: a_progress_def same_call_def)

lemma same_qps_progress:
  assumes "a_progress c nq v v' t l" "same_qps (a_base (the (hc_comm (lo_call l)))) (a_base y)"
  shows "a_progress c nq v v' t (set_rn y l)"
  using assms same_qps_facts [OF assms(2)] by (auto simp: a_progress_def same_call_def set_rn_def split: option.splits)

lemma same_qps_refl [simp]: "same_qps b b" "same_qps b (b\<lparr> nRemDevs := n, remDevs := ds \<rparr>)"
  by (simp_all add: same_qps_def same_sizes_def)

lemma set_meta_dev_progress: "a_progress c nq v v' t (set_meta_dev i d l) = a_progress c nq v v' t l"
  by (simp add: a_progress_def set_meta_dev_def split: option.splits)

lemma set_rn_sel [simp]: "hc_comm (lo_call (set_rn x l)) = Some x" "hc_comm (lo_call (set_meta_dev i d l)) = hc_comm (lo_call l)" "lo_meta (set_rn x l) = lo_meta l"
  by (simp_all add: set_rn_def set_meta_dev_def)

lemma note_keeps:
  "note_sender p e m l = Some l' \<Longrightarrow> a_progress c nq v v' t l \<Longrightarrow> a_progress c nq v v' t l'" "note_fifo m l = Some l' \<Longrightarrow> a_progress c nq v v' t l \<Longrightarrow> a_progress c nq v v' t l'"
  "note_inline p l = Some l' \<Longrightarrow> a_progress c nq v v' t l \<Longrightarrow> a_progress c nq v v' t l'"
  by (auto simp: note_sender_def note_fifo_def note_inline_def Let_def deref_def split: option.splits if_splits intro!: same_qps_progress)

lemma a_prepost_keeps: "a_progress c nq v v' t l \<Longrightarrow> leads (a_prepost e l) P (a_progress c nq v v' t)"
  unfolding a_prepost_def by (auto intro!: leads_deref leads_check same_qps_progress)

lemma register_receiver_keeps: "a_progress c nq v v' t l \<Longrightarrow> leads (register_receiver p e i l) P (a_progress c nq v v' t)"
  unfolding register_receiver_def Let_def
  by (auto simp: set_meta_dev_progress intro!: leads_deref leads_reg_mr same_qps_progress)

lemma describe_device_keeps: "a_progress c nq v v' t l \<Longrightarrow> leads (describe_device i l) P (a_progress c nq v v' t)"
  unfolding describe_device_def Let_def by (auto simp: set_meta_dev_progress intro!: leads_deref same_qps_progress)

lemma create_progress:
  assumes "a_progress c nq v v' None l"
  shows "leads (on_recv_setup (ncclIbReceiverQpsCreateToRts p ip e m') l) P (a_progress c nq v v' (Some m'))"
  using assms by (intro leads_recv_setup) (auto simp: a_progress_def same_call_def dest!: receiver_create_joined intro: same_sizes_agreed)

lemma a_setup_joins:
  assumes "a_progress c nq v v' None l"
  shows "leads (a_setup p e nq m' l) P (a_progress c nq v v' (Some m'))"
  unfolding a_setup_def Let_def
proof (rule leads_deref, rule leads_andthen)
  fix x
  show "leads (each (a_init_device p e (recv_cq_size p nq)) [0..<nat (ndevs (vProps (a_base x)))] l) P (a_progress c nq v v' None)"
    using assms by (rule leads_each [rotated]) (rule a_init_device_keeps)
next
  fix x l assume l: "a_progress c nq v v' None l"
  let ?ix = "[0..<nat (ndevs (vProps (a_base x)))]" and ?J = "a_progress c nq v v' (Some m')"
  have reg: "leads (each (register_receiver p e) ?ix l) P ?J" if "?J l" for l using that by (rule leads_each [rotated]) (rule register_receiver_keeps)
  have desc: "leads (each describe_device ?ix l) P ?J" if "?J l" for l using that by (rule leads_each [rotated]) (rule describe_device_keeps)
  show "leads (deref (links_match (lo_link l) (cm_devs m') [0..<nat (cm_ndevs m')]) (\<lambda>ok. if \<not> ok then Some (Stop ncclInternalError, l) else
      deref (note_sender p e m' l) (\<lambda>l. andthen (on_recv_setup (ncclIbReceiverQpsCreateToRts (hp_qp p) (hp_ib p) (he_qp e) m') l) (\<lambda>l. andthen (a_prepost e l) (\<lambda>l.
        deref (note_fifo m' l) (\<lambda>l. andthen (each (register_receiver p e) ?ix l) (\<lambda>l. deref (note_inline p l) (each describe_device ?ix)))))))) P ?J"
    apply (rule leads_deref)
    subgoal for ok
      apply (cases ok)
       apply (simp del: each.simps)
       apply (rule leads_deref, rule leads_andthen [OF create_progress [OF note_keeps(1) [OF _ l]]], assumption)
       apply (rule leads_andthen [OF a_prepost_keeps], assumption, rule leads_deref)
       apply (rule leads_andthen [OF reg [OF note_keeps(2)]], assumption, assumption, rule leads_deref)
       apply (rule desc [OF note_keeps(3)], assumption, assumption)
      apply (simp add: nccl_ok_def)
      done
    done
qed

lemma receiver_meta_told [simp]: "told (receiver_meta e m' name x m) b = told m b"
  by (simp add: told_def receiver_meta_def)

text \<open>Routing by subnet changes the device and the properties of the communicator, not the numbers agreed on.\<close>

lemma a_route_keeps:
  assumes "hc_comm c = Some x" "agreed nq v v' (a_base x)"
  shows "leads (a_route p e m c) P (\<lambda>c1. hc_st c1 = hc_st c \<and> (\<exists>x. hc_comm c1 = Some x \<and> agreed nq v v' (a_base x)))"
  using assms unfolding a_route_def Let_def by (auto simp: agreed_def intro!: leads_deref leads_with_comm split: prod.splits)

lemma accept_telling_starts:
  assumes "a_progress c nq v v' (Some m') l" "hc_comm (lo_call l) = Some x" "st_out (hc_st c) = encode (sz_devs p) (Dev_list v ooo)"
    "inp = encode (sz_devs p) (Dev_list v' ooo') @ encode (sz_meta p) (Metadata m') @ st_in (hc_st c)"
  shows "a_telling p nq inp (store (sz_meta p) (Metadata (receiver_meta e m' name x (lo_meta l))) ((set_stage ncclIbCommStateSend (lo_call l))\<lparr> hc_buffer := Some buf \<rparr>))"
proof -
  let ?m = "receiver_meta e m' name x (lo_meta l)" and ?c = "(set_stage ncclIbCommStateSend (lo_call l))\<lparr> hc_buffer := Some buf \<rparr>"
  have k: "same_call c (lo_call l)" "agreed nq v v' (a_base x)" "told ?m (a_base x)" "joined m' (a_base x)" using assms(1,2) by (auto simp: a_progress_def)
  obtain buf' where "hc_buffer (store (sz_meta p) (Metadata ?m) ?c) = Some buf'" "take (sz_meta p) buf' = encode (sz_meta p) (Metadata ?m)" using store_buffer [of ?c buf] by auto
  then show ?thesis using k assms by (intro a_tellingI [of _ x nq v v' ?m m' buf' p ooo]) (simp_all add: same_call_def)
qed

lemma accept_recv:
  assumes "a_waiting p nq inp c" "hc_state c = ncclIbCommStateRecv"
  shows "leads (a_recv p e nq c) (\<lambda>c. hc_state c = ncclIbCommStateRecv \<and> a_waiting p nq inp c) (\<lambda>c. hc_state c = ncclIbCommStateSend \<and> a_telling p nq inp c)"
    (is "leads _ ?P ?Q")
proof -
  from assms(1) obtain v ooo v' ooo' x buf where h: "hc_comm c = Some x" "agreed nq v v' (a_base x)" "hc_buffer c = Some buf"
    "inp = encode (sz_devs p) (Dev_list v' ooo') @ take (nat (hc_offset c)) buf @ st_in (hc_st c)" "st_out (hc_st c) = encode (sz_devs p) (Dev_list v ooo)" by (auto simp: a_waiting_def)
  define got where "got c0 \<longleftrightarrow> (\<exists>buf. steady c c0 \<and> hc_buffer c0 = Some buf \<and> st_out (hc_st c0) = st_out (hc_st c) \<and> inp = encode (sz_devs p) (Dev_list v' ooo') @ take (sz_meta p) buf @ st_in (hc_st c0))" for c0
  have recv: "leads (transfer NCCL_SOCKET_RECV Fail (sz_meta p) (rn_sock y) c) ?P got" for y
    by (rule leads_recv [OF raises_simps(2) h(3,4)]) (use h assms(2) in \<open>auto simp: got_def steady_def intro: a_waitingI\<close>)
  have tail: "leads (deref (a_setup p e nq m' \<lparr> lo_call = c1, lo_meta = zero_meta, lo_link = LINK_UNSPECIFIED \<rparr>) (\<lambda>(fl, l). if fl \<noteq> Go then Some (fl, lo_call l) else deref (hc_comm (lo_call l)) (\<lambda>x.
      if \<not> he_buffer e then Some (Fail ncclSystemError, (set_stage ncclIbCommStateSend (lo_call l))\<lparr> hc_buffer := None \<rparr>)
      else go (store (sz_meta p) (Metadata (receiver_meta e m' name x (lo_meta l))) ((set_stage ncclIbCommStateSend (lo_call l))\<lparr> hc_buffer := Some (encode (sz_meta p) Zeroed) \<rparr>))))) ?P ?Q"
    if t: "got c0" "stored_meta (sz_meta p) c0 = Some m'" "hc_st c1 = hc_st c0 \<and> (\<exists>x. hc_comm c1 = Some x \<and> agreed nq v v' (a_base x))" for c0 c1 m' name
  proof (rule leads_inner [OF a_setup_joins [where P = "\<lambda>_. False"]])
    show "a_progress c1 nq v v' None \<lparr> lo_call = c1, lo_meta = zero_meta, lo_link = LINK_UNSPECIFIED \<rparr>" using t(3) by (simp add: a_progress_def)
    fix l assume l: "a_progress c1 nq v v' (Some m') l"
    from t(2) obtain buf1 where s1: "hc_buffer c0 = Some buf1" "take (sz_meta p) buf1 = encode (sz_meta p) (Metadata m')" by (rule stored_meta_Some)
    have b1: "inp = encode (sz_devs p) (Dev_list v' ooo') @ encode (sz_meta p) (Metadata m') @ st_in (hc_st c1)" "st_out (hc_st c1) = encode (sz_devs p) (Dev_list v ooo)"
      using t(1,3) s1 h(5) unfolding got_def by auto
    show "leads (deref (hc_comm (lo_call l)) (\<lambda>x.
      if \<not> he_buffer e then Some (Fail ncclSystemError, (set_stage ncclIbCommStateSend (lo_call l))\<lparr> hc_buffer := None \<rparr>)
      else go (store (sz_meta p) (Metadata (receiver_meta e m' name x (lo_meta l))) ((set_stage ncclIbCommStateSend (lo_call l))\<lparr> hc_buffer := Some (encode (sz_meta p) Zeroed) \<rparr>)))) ?P ?Q"
      using accept_telling_starts [OF l _ b1(2,1)] by (auto simp: nccl_ok_def intro!: leads_deref)
  qed simp
  have route: "leads (a_route p e m' c0) ?P (\<lambda>c1. hc_st c1 = hc_st c0 \<and> (\<exists>x. hc_comm c1 = Some x \<and> agreed nq v v' (a_base x)))" if "got c0" for c0 m'
    by (rule a_route_keeps [of c0 x]) (use that h in \<open>auto simp: got_def steady_def\<close>)
  show ?thesis
    unfolding a_recv_def Let_def
    apply (rule leads_with_comm, rule leads_andthen [OF recv], rule leads_deref, rule leads_andthen [OF route], assumption, rule leads_deref)
    by (rule tail)
qed

lemma accept_send:
  assumes "a_telling p nq inp c" "hc_state c = ncclIbCommStateSend"
  shows "leads (a_send p c) (\<lambda>c. hc_state c = ncclIbCommStateSend \<and> a_telling p nq inp c) (\<lambda>c. hc_state c = ncclIbCommStatePendingReady \<and> a_flagging p nq inp c)"
    (is "leads _ ?P ?Q")
  unfolding a_send_def
proof (rule leads_with_comm)
  fix y
  from assms(1) obtain v ooo v' ooo' m m' x buf where h: "hc_comm c = Some x" "agreed nq v v' (a_base x)" "told m (a_base x)" "joined m' (a_base x)" "hc_buffer c = Some buf"
    "take (sz_meta p) buf = encode (sz_meta p) (Metadata m)" "st_out (hc_st c) = encode (sz_devs p) (Dev_list v ooo) @ take (nat (hc_offset c)) (encode (sz_meta p) (Metadata m))"
    "inp = encode (sz_devs p) (Dev_list v' ooo') @ encode (sz_meta p) (Metadata m') @ st_in (hc_st c)" by (auto simp: a_telling_def)
  show "leads (andthen (transfer NCCL_SOCKET_SEND Fail (sz_meta p) (rn_sock y) c) (\<lambda>c. go (set_stage ncclIbCommStatePendingReady c))) ?P ?Q"
  proof (rule leads_andthen, rule leads_send [OF raises_simps(2) h(5-7)])
    fix c' assume "steady c c'" "hc_buffer c' = Some buf" "st_in (hc_st c') = st_in (hc_st c)"
      "st_out (hc_st c') = encode (sz_devs p) (Dev_list v ooo) @ take (nat (hc_offset c')) (encode (sz_meta p) (Metadata m))"
    then show "hc_state c' = ncclIbCommStateSend \<and> a_telling p nq inp c'" using h assms(2) by (auto simp: steady_def intro: a_tellingI)
  next
    fix c' assume c': "steady c c'" "hc_buffer c' = Some buf" "st_in (hc_st c') = st_in (hc_st c)" "st_out (hc_st c') = encode (sz_devs p) (Dev_list v ooo) @ encode (sz_meta p) (Metadata m)"
    have "a_exchanged p nq inp [] (set_stage ncclIbCommStatePendingReady c') x" by (rule a_exchangedI [of nq v v' x m m']) (use c' h in \<open>simp_all add: steady_def\<close>)
    then show "a_flagging p nq inp (set_stage ncclIbCommStatePendingReady c')" using h c' by (simp add: a_flagging_def steady_def)
  qed simp
qed

lemma accept_recv_ready:
  assumes "a_flagging p nq inp c" "hc_state c = ncclIbCommStatePendingReady"
  shows "leads (a_recv_ready c) (\<lambda>c. hc_state c = ncclIbCommStatePendingReady \<and> a_flagging p nq inp c) (a_done p nq inp)"
    (is "leads _ ?P ?Q")
proof -
  from assms(1) obtain x v ooo v' ooo' m m' where h: "hc_comm c = Some x" "agreed nq v v' (a_base x)" "told m (a_base x)" "joined m' (a_base x)"
    "st_out (hc_st c) = encode (sz_devs p) (Dev_list v ooo) @ encode (sz_meta p) (Metadata m)"
    "inp = (encode (sz_devs p) (Dev_list v' ooo') @ encode (sz_meta p) (Metadata m')) @ take (nat (hc_offset c)) (rn_readyBytes x) @ st_in (hc_st c)" by (auto simp: a_flagging_def a_exchanged_def)
  show ?thesis
    unfolding a_recv_ready_def Let_def
  proof (intro leads_with_comm leads_deref)
    fix y t assume y: "hc_comm c = Some y" and t: "transfer_on NCCL_SOCKET_RECV Fail 4 (rn_sock y) (rn_readyBytes y) c = Some t"
    obtain fl bs c' where tt: "t = (fl, bs, c')" by (cases t)
    have t1: "transfer_on NCCL_SOCKET_RECV Fail 4 (rn_sock x) (rn_readyBytes x) c = Some (fl, bs, c')" and yx: "y = x" using y t tt h(1) by auto
    have f: "steady c c'" "st_out (hc_st c') = st_out (hc_st c)" "inp = (encode (sz_devs p) (Dev_list v' ooo') @ encode (sz_meta p) (Metadata m')) @ take (nat (hc_offset c')) bs @ st_in (hc_st c')"
      "fl = Go \<Longrightarrow> inp = (encode (sz_devs p) (Dev_list v' ooo') @ encode (sz_meta p) (Metadata m')) @ take 4 bs @ st_in (hc_st c')"
      using transfer_on_recv [OF raises_simps(2) t1 h(6)] by blast+
    have keep: "?P (set_comm (x\<lparr> rn_readyBytes := bs \<rparr>) c')"
    proof -
      have "a_exchanged p nq inp (take (nat (hc_offset c')) bs) (set_comm (x\<lparr> rn_readyBytes := bs \<rparr>) c') (x\<lparr> rn_readyBytes := bs \<rparr>)"
        by (rule a_exchangedI [of nq v v' _ m m']) (use f(1-3) h in \<open>simp_all add: steady_def\<close>)
      then show ?thesis using f(1) assms(2) by (simp add: a_flagging_def steady_def)
    qed
    have fin: "?Q (set_comm (upd_rvbase (\<lambda>b. b\<lparr> ready := w \<rparr>) (x\<lparr> rn_readyBytes := bs \<rparr>)) c')" if "fl = Go" "decode 4 bs = Some (Ready_flag w)" for w
    proof -
      have "a_exchanged p nq inp (encode 4 (Ready_flag w)) (set_comm (upd_rvbase (\<lambda>b. b\<lparr> ready := w \<rparr>) (x\<lparr> rn_readyBytes := bs \<rparr>)) c') (upd_rvbase (\<lambda>b. b\<lparr> ready := w \<rparr>) (x\<lparr> rn_readyBytes := bs \<rparr>))"
        by (rule a_exchangedI [of nq v v' _ m m']) (use f(1,2) f(4) [OF that(1)] decode_Some [OF that(2)] h in \<open>simp_all add: steady_def agreed_def told_def joined_def\<close>)
      then show ?thesis by (simp add: a_done_def)
    qed
    show "leads (case t of (fl, bs, c) \<Rightarrow> if fl \<noteq> Go then Some (fl, set_comm (y\<lparr> rn_readyBytes := bs \<rparr>) c)
        else deref (decode 4 bs) (\<lambda>m. case m of Ready_flag v \<Rightarrow> go (set_comm (upd_rvbase (\<lambda>b. b\<lparr> ready := v \<rparr>) (y\<lparr> rn_readyBytes := bs \<rparr>)) c) | _ \<Rightarrow> None)) ?P ?Q"
      unfolding tt yx using keep fin transfer_on_fails [OF raises_simps(2) t1]
      by (cases fl) (auto intro!: leads_deref split: stage_msg.splits)
  qed
qed

section \<open>The run of an acceptor\<close>

lemma accept_entry_cases: "accept_entry s = Some k \<longleftrightarrow>
  (k, s) \<in> {(0, ncclIbCommStateStart), (1, ncclIbCommStateAccept), (2, ncclIbCommStateRecvDevList), (3, ncclIbCommStateSendDevList), (4, ncclIbCommStateRecv), (5, ncclIbCommStateSend), (6, ncclIbCommStatePendingReady)}"
  by (cases s) auto

lemma a_inv_simps:
  "a_inv p nq inp 0 = (\<lambda>c. hc_state c = ncclIbCommStateStart \<and> a_opening False inp c)"
  "a_inv p nq inp (Suc 0) = (\<lambda>c. hc_state c = ncclIbCommStateAccept \<and> a_opening True inp c)"
  "a_inv p nq inp 2 = (\<lambda>c. hc_state c = ncclIbCommStateRecvDevList \<and> a_learning inp c)"
  "a_inv p nq inp 3 = (\<lambda>c. hc_state c = ncclIbCommStateSendDevList \<and> a_listing p nq inp c)"
  "a_inv p nq inp 4 = (\<lambda>c. hc_state c = ncclIbCommStateRecv \<and> a_waiting p nq inp c)"
  "a_inv p nq inp 5 = (\<lambda>c. hc_state c = ncclIbCommStateSend \<and> a_telling p nq inp c)"
  "a_inv p nq inp 6 = (\<lambda>c. hc_state c = ncclIbCommStatePendingReady \<and> a_flagging p nq inp c)"
  "a_inv p nq inp 7 = a_done p nq inp"
  by (auto simp: fun_eq_iff a_inv_def accept_entry_cases eval_nat_numeral)

interpretation acceptor: staged_run "a_inv p nq inp" "accept_parts p e nq" for p nq inp e
proof
  fix k c assume k: "k < length (accept_parts p e nq)" and i: "a_inv p nq inp k c"
  have "k < 7" using k by (simp add: accept_parts_def)
  have start: "a_opening False inp c \<Longrightarrow> leads (a_start p e c) (a_inv p nq inp 0) (a_inv p nq inp (Suc 0))"
    by (rule leads_mono [OF accept_start]) (simp_all add: a_inv_simps)
  from seven_cases [OF \<open>k < 7\<close>] show "leads ((accept_parts p e nq ! k) c) (a_inv p nq inp k) (a_inv p nq inp (Suc k))"
    using i start accept_check accept_recv_devs accept_send_devs accept_recv accept_send accept_recv_ready
    by (elim disjE; hypsubst) (simp_all add: accept_parts_def a_inv_simps flip: numeral_2_eq_2)
qed

section \<open>Handshakes\<close>

text \<open>What may happen in a process between two calls: other connections change devices and queue pairs, merged devices are added, and the system will answer the coming calls in some way.\<close>

definition other_work :: "'c hs_call \<Rightarrow> 'c hs_call \<Rightarrow> bool" where
  "other_work c c' \<longleftrightarrow> hc_state c' = hc_state c \<and> hc_offset c' = hc_offset c \<and> hc_buffer c' = hc_buffer c \<and> hc_comm c' = hc_comm c \<and> hc_dev c' = hc_dev c
     \<and> st_in (hc_st c') = st_in (hc_st c) \<and> st_out (hc_st c') = st_out (hc_st c) \<and> prefix (pr_merged (hc_proc c)) (pr_merged (hc_proc c'))"

text \<open>The calls of a side that is to read \<open>inp\<close>, as long as they report no error and hand out no communicator.\<close>

inductive connecting :: "hs_params \<Rightarrow> int \<Rightarrow> int \<Rightarrow> wire list \<Rightarrow> send_conn hs_call \<Rightarrow> bool" for p nq d inp where
  first: "hc_state c = ncclIbCommStateStart \<Longrightarrow> st_out (hc_st c) = [] \<Longrightarrow> st_in (hc_st c) = inp \<Longrightarrow> connecting p nq d inp c"
| again: "connecting p nq d inp c \<Longrightarrow> ncclIbConnectImpl p e ctx gids d nq tc c = Some ((r, None), c') \<Longrightarrow> nccl_ok r \<Longrightarrow> connecting p nq d inp c'"
| other: "connecting p nq d inp c \<Longrightarrow> other_work c c' \<Longrightarrow> connecting p nq d inp c'"

inductive accepting :: "hs_params \<Rightarrow> int \<Rightarrow> wire list \<Rightarrow> recv_conn hs_call \<Rightarrow> bool" for p nq inp where
  first: "hc_state c = ncclIbCommStateStart \<Longrightarrow> st_out (hc_st c) = [] \<Longrightarrow> st_in (hc_st c) = inp \<Longrightarrow> accepting p nq inp c"
| again: "accepting p nq inp c \<Longrightarrow> ncclIbAcceptImpl p e nq c = Some ((r, None), c') \<Longrightarrow> nccl_ok r \<Longrightarrow> accepting p nq inp c'"
| other: "accepting p nq inp c \<Longrightarrow> other_work c c' \<Longrightarrow> accepting p nq inp c'"

lemma at_prefix: "prefix xs ys \<Longrightarrow> at xs i = Some a \<Longrightarrow> at ys i = Some a"
  by (auto simp: prefix_def at_def nth_append split: if_splits)

lemma local_devs_other: "other_work c c' \<Longrightarrow> local_devs d v c \<Longrightarrow> local_devs d v c'"
  by (auto simp: other_work_def local_devs_def intro: at_prefix)

lemma other_work_c_inv:
  assumes "k < 7" "c_inv p nq d inp k c" "other_work c c'"
  shows "c_inv p nq d inp k c'"
  using seven_cases [OF assms(1)] assms(2) local_devs_other [OF assms(3)] assms(3)
  by (elim disjE; hypsubst)
     (simp_all add: c_inv_simps c_opening_def c_listing_def c_learning_def c_telling_def c_joining_def c_flagging_def other_work_def, blast+)

lemma other_work_a_inv:
  assumes "k < 7" "a_inv p nq inp k c" "other_work c c'"
  shows "a_inv p nq inp k c'"
  using seven_cases [OF assms(1)] assms(2,3)
  by (elim disjE; hypsubst)
     (simp_all add: a_inv_simps a_opening_def a_learning_def a_listing_def a_waiting_def a_telling_def a_flagging_def a_exchanged_def other_work_def)

lemma other_work_dev: "other_work c c' \<Longrightarrow> other_work (c\<lparr> hc_dev := d \<rparr>) (c'\<lparr> hc_dev := d \<rparr>)"
  by (simp add: other_work_def)

text \<open>A call of \<open>ncclIbConnectImpl\<close> runs the parts from the stage on.\<close>

lemma c_inv_entry: "k < 7 \<Longrightarrow> c_inv p nq d inp k c \<Longrightarrow> connect_entry (hc_state c) = Some k"
  by (simp add: c_inv_def)

lemma a_inv_entry: "k < 7 \<Longrightarrow> a_inv p nq inp k c \<Longrightarrow> accept_entry (hc_state c) = Some k"
  by (simp add: a_inv_def)

lemma parts_length [simp]: "length (connect_parts p e ctx nq tc) = 7" "length (accept_parts p e' nq) = 7"
  by (simp_all add: connect_parts_def accept_parts_def)

lemma c_inv_dev: "k < 7 \<Longrightarrow> c_inv p nq d inp k c \<Longrightarrow> c_inv p nq d inp k (c\<lparr> hc_dev := d \<rparr>)"
  by (drule seven_cases) (auto simp: c_inv_simps c_opening_def c_listing_def c_learning_def c_telling_def c_joining_def c_flagging_def local_devs_def)

lemma connect_call:
  assumes "IbSubnetAwareRouting p = 0" "k < 7" "c_inv p nq d inp k (c\<lparr> hc_dev := d \<rparr>)" "ncclIbConnectImpl p e ctx gids d nq tc c = Some ((r, res), c')" "nccl_ok r"
  shows "(res = None \<and> (\<exists>j < 7. c_inv p nq d inp j c')) \<or> (\<exists>c1. c_inv p nq d inp 7 c1 \<and> res = hc_comm c1 \<and> hc_st c' = hc_st c1)"
proof -
  have "conclude c_base (he_qp e) (run_parts (drop k (connect_parts p e ctx nq tc)) (c\<lparr> hc_dev := d \<rparr>)) = Some ((r, res), c')"
    using assms(4) c_inv_entry [OF assms(2,3)] assms(1) by (simp add: ncclIbConnectImpl_def)
  from connector.call_ends [OF _ assms(3) this assms(5)] assms(2) show ?thesis by simp
qed

lemma accept_call:
  assumes "k < 7" "a_inv p nq inp k c" "ncclIbAcceptImpl p e nq c = Some ((r, res), c')" "nccl_ok r"
  shows "(res = None \<and> (\<exists>j < 7. a_inv p nq inp j c')) \<or> (\<exists>c1. a_inv p nq inp 7 c1 \<and> res = hc_comm c1 \<and> hc_st c' = hc_st c1)"
proof -
  have "conclude a_base (he_qp e) (run_parts (drop k (accept_parts p e nq)) c) = Some ((r, res), c')"
    using assms(3,4) a_inv_entry [OF assms(1,2)] by (auto simp: ncclIbAcceptImpl_def nccl_ok_def split: if_splits)
  from acceptor.call_ends [OF _ assms(2) this assms(4)] assms(1) show ?thesis by simp
qed

lemma handed_out: "conclude b e o' = Some ((r, Some x), c') \<Longrightarrow> r = ncclSuccess"
  by (auto simp: conclude_def split: option.splits flow.splits)

lemma connecting_inv:
  assumes "connecting p nq d inp c" "IbSubnetAwareRouting p = 0"
  shows "\<exists>k < 7. c_inv p nq d inp k (c\<lparr> hc_dev := d \<rparr>)"
  using assms(1)
proof induction
  case (first c)
  then have "c_inv p nq d inp 0 (c\<lparr> hc_dev := d \<rparr>)" by (simp add: c_inv_simps c_opening_def)
  then show ?case by (intro exI [of _ 0]) simp
next
  case (again c e ctx gids tc r c')
  then obtain k where k: "k < 7" "c_inv p nq d inp k (c\<lparr> hc_dev := d \<rparr>)" by blast
  show ?case using connect_call [OF assms(2) k again.hyps(2,3)] c_inv_dev by (auto simp: c_inv_simps c_flagging_def)
next
  case (other c c')
  then show ?case using other_work_c_inv other_work_dev by blast
qed

lemma accepting_inv: "accepting p nq inp c \<Longrightarrow> \<exists>k < 7. a_inv p nq inp k c"
proof (induction rule: accepting.induct)
  case (first c)
  then have "a_inv p nq inp 0 c" by (simp add: a_inv_simps a_opening_def)
  then show ?case by (intro exI [of _ 0]) simp
next
  case (again c e r c')
  then show ?case using accept_call by (fastforce simp: a_inv_simps a_done_def)
next
  case (other c c')
  then show ?case using other_work_a_inv by blast
qed

lemma connect_result:
  assumes "connecting p nq d inp c" "IbSubnetAwareRouting p = 0" "ncclIbConnectImpl p e ctx gids d nq tc c = Some ((r, Some x), c')"
  shows "\<exists>v ooo v' ooo' m m'. agreed nq v v' (c_base x) \<and> told m (c_base x) \<and> joined m' (c_base x) \<and> ready (c_base x) = 1
    \<and> st_out (hc_st c') = encode (sz_devs p) (Dev_list v ooo) @ encode (sz_meta p) (Metadata m) @ encode 4 (Ready_flag 1)
    \<and> inp = encode (sz_devs p) (Dev_list v' ooo') @ encode (sz_meta p) (Metadata m') @ st_in (hc_st c')"
proof -
  obtain k where k: "k < 7" "c_inv p nq d inp k (c\<lparr> hc_dev := d \<rparr>)" using connecting_inv [OF assms(1,2)] by blast
  have "r = ncclSuccess" using assms(2,3) c_inv_entry [OF k] by (auto simp: ncclIbConnectImpl_def dest: handed_out)
  then obtain c1 where c1: "c_inv p nq d inp 7 c1" "Some x = hc_comm c1" "hc_st c' = hc_st c1" using connect_call [OF assms(2) k assms(3)] by auto
  have e4: "take 4 (encode 4 (Ready_flag 1)) = encode 4 (Ready_flag 1)" by simp
  show ?thesis using c1(1) unfolding c_inv_simps c_flagging_def e4 c1(2) [symmetric] c1(3) option.inject by metis
qed

lemma accept_result:
  assumes "accepting p nq inp c" "ncclIbAcceptImpl p e nq c = Some ((r, Some x), c')"
  shows "\<exists>v ooo v' ooo' m m'. agreed nq v v' (a_base x) \<and> told m (a_base x) \<and> joined m' (a_base x) \<and> st_out (hc_st c') = encode (sz_devs p) (Dev_list v ooo) @ encode (sz_meta p) (Metadata m)
    \<and> inp = encode (sz_devs p) (Dev_list v' ooo') @ encode (sz_meta p) (Metadata m') @ encode 4 (Ready_flag (ready (a_base x))) @ st_in (hc_st c')"
proof -
  obtain k where k: "k < 7" "a_inv p nq inp k c" using accepting_inv [OF assms(1)] by blast
  have "r = ncclSuccess" using assms(2) a_inv_entry [OF k] by (auto simp: ncclIbAcceptImpl_def split: if_splits dest: handed_out)
  then obtain c1 where c1: "a_inv p nq inp 7 c1" "Some x = hc_comm c1" "hc_st c' = hc_st c1" using accept_call [OF k assms(2)] by auto
  show ?thesis using c1(1) unfolding a_inv_simps a_done_def a_exchanged_def c1(2) [symmetric] c1(3) option.inject by metis
qed

text \<open>C3 A handshake connects the two sides. Let a connector and an acceptor, in processes of their own, call \<open>ncclIbConnectImpl\<close> and \<open>ncclIbAcceptImpl\<close> any number of times, with the socket moving any
  number of bytes at a time and other work going on between the calls, until each hands out a communicator, and let each side have read what the other wrote. Then both have the same numbers of
  queue pairs (also when they have different numbers of devices), both are marked ready, and queue pair \<open>i\<close> of the sender and queue pair \<open>i\<close> of the receiver send to each other, each on its device in
  turn and knowing the device of the other. The connector does not choose its device by subnet (\<open>IbSubnetAwareRouting\<close> is 0, the default), and both sides ask for the same number of queue pairs
  per device.\<close>

theorem handshake_connects:
  assumes "connecting p nq d (st_out (hc_st a')) c" and "ncclIbConnectImpl p e ctx gids d nq tc c = Some ((r, Some x), c')"
    and "accepting p' nq (st_out (hc_st c')) a" and "ncclIbAcceptImpl p' e' nq a = Some ((r', Some y), a')"
    and "IbSubnetAwareRouting p = 0" and "sz_devs p' = sz_devs p" and "sz_meta p' = sz_meta p" and "0 < sz_devs p" and "0 < sz_meta p"
  shows "nqps (rc_base (rn_comm y)) = nqps (sc_base (sn_comm x)) \<and> nDataQps (rc_base (rn_comm y)) = nDataQps (sc_base (sn_comm x))
    \<and> ready (sc_base (sn_comm x)) = 1 \<and> ready (rc_base (rn_comm y)) = 1
    \<and> (\<forall>i < nat (nqps (sc_base (sn_comm x))). let q = qps (sc_base (sn_comm x)) ! i; q' = qps (rc_base (rn_comm y)) ! i in
         ra_remoteQpNum (qp_rtrAttr q) = qp_qpn q' \<and> ra_remoteQpNum (qp_rtrAttr q') = qp_qpn q \<and> qp_remDevIdx q = qp_devIndex q' \<and> qp_remDevIdx q' = qp_devIndex q
         \<and> qp_devIndex q = int i mod ndevs (vProps (sc_base (sn_comm x))) \<and> qp_devIndex q' = int i mod ndevs (vProps (rc_base (rn_comm y))))"
proof -
  from connect_result [OF assms(1,5,2)] obtain v ooo v' ooo' m m' where s: "agreed nq v v' (c_base x)" "told m (c_base x)" "joined m' (c_base x)" "ready (c_base x) = 1"
    "st_out (hc_st c') = encode (sz_devs p) (Dev_list v ooo) @ encode (sz_meta p) (Metadata m) @ encode 4 (Ready_flag 1)"
    "st_out (hc_st a') = encode (sz_devs p) (Dev_list v' ooo') @ encode (sz_meta p) (Metadata m') @ st_in (hc_st c')" by blast
  from accept_result [OF assms(3,4)] obtain w oow w' oow' n n' where t: "agreed nq w w' (a_base y)" "told n (a_base y)" "joined n' (a_base y)"
    "st_out (hc_st a') = encode (sz_devs p) (Dev_list w oow) @ encode (sz_meta p) (Metadata n)"
    "st_out (hc_st c') = encode (sz_devs p) (Dev_list w' oow') @ encode (sz_meta p) (Metadata n') @ encode 4 (Ready_flag (ready (a_base y))) @ st_in (hc_st a')"
    unfolding assms(6,7) by blast
  note d1 = encode_append [OF assms(8) s(5) [symmetric, unfolded t(5)]] and d2 = encode_append [OF assms(8) s(6) [symmetric, unfolded t(4)]]
  have e1: "encode (sz_meta p) (Metadata m) @ encode 4 (Ready_flag 1) = encode (sz_meta p) (Metadata n') @ encode 4 (Ready_flag (ready (a_base y))) @ st_in (hc_st a')" using d1 by blast
  have e2: "encode (sz_meta p) (Metadata m') @ st_in (hc_st c') = encode (sz_meta p) (Metadata n) @ []" using d2 by simp
  note m1 = encode_append [OF assms(9) e1] and m2 = encode_append [OF assms(9) e2]
  have e3: "encode 4 (Ready_flag 1) @ [] = encode 4 (Ready_flag (ready (a_base y))) @ st_in (hc_st a')" using m1 by simp
  have eqs: "w' = v" "w = v'" "n' = m" "n = m'" "ready (a_base y) = 1" using d1 d2 m1 m2 encode_append [OF _ e3] by auto
  have nq: "nqps (a_base y) = nqps (c_base x)" "nDataQps (a_base y) = nDataQps (c_base x)" using s(1) t(1) unfolding eqs by (simp_all add: agreed_def max.commute)
  show ?thesis
    using s(2-4) t(2,3) nq eqs(5) unfolding eqs(3,4) by (auto simp: told_def joined_def announced_def connected_to_def Let_def)
qed

definition demo_hs_params :: hs_params where
  "demo_hs_params = \<lparr> hp_qp = demo_qp_params, hp_ib = default_params\<lparr> IbPrepostReceiveWorkRequests := 0 \<rparr>, hp_gid = demo_gid_params, IbSubnetAwareRouting = 0, IbSl = - 1, IbGdrFlushDisable = 0,
     IbWarnRailLocal = 0, IbQpsPerConn = 1, IbTc = - 1, sz_devs = 1, sz_meta = 1 \<rparr>"

definition demo_hs_env :: "'c \<Rightarrow> nat \<Rightarrow> 'c hs_env" where
  "demo_hs_env x k = \<lparr> he_comm = Some x, he_buffer = True, he_stage = True, he_resiliency = ncclSuccess, he_threadActive = False, he_sock_init = (ncclSuccess, demo_socket), he_open = (\<lambda>sk. (ncclSuccess, sk)),
     he_ready = (\<lambda>sk. (ncclSuccess, True, sk)), he_qp = demo_qp_env, he_gid = (\<lambda>_. demo_gid_env), he_alloc_pd = (\<lambda>_. (ncclSuccess, 1)), he_mrc_cq = (\<lambda>_ _. (ncclSuccess, 1)),
     he_cq = (\<lambda>_ n _. (ncclSuccess, k + nat n)), he_reg_mr = (\<lambda>_ _. (ncclSuccess, zero_mr)), he_addr = (\<lambda>_. 0),
     he_rec = \<lparr> pe_clock = (\<lambda>_. 0), pe_poll = (\<lambda>_. ncclSuccess), pe_post_recv = (\<lambda>_ _. ncclSuccess), pe_post_send = (\<lambda>_ _. True), pe_post_data_recv = (\<lambda>_ _. ncclSuccess), pe_qp = demo_qp_env,
       pe_devs = [], pe_alloc = True \<rparr>, he_gdr = ncclSystemError, he_dmabuf = (\<lambda>_. ncclSystemError) \<rparr>"

text \<open>A call on a fresh stage in a process with \<open>n\<close> devices that form one merged device.\<close>

definition demo_hs_call :: "nat \<Rightarrow> wire list \<Rightarrow> 'c hs_call" where
  "demo_hs_call n inp = \<lparr> hc_state = ncclIbCommStateStart, hc_offset = 0, hc_buffer = None, hc_comm = None,
     hc_proc = \<lparr> pr_glob = \<lparr> ncclIbDevs = replicate n (zero_dev\<lparr> dev_currSpeed := 400 \<rparr>), ncclIbSpeedChangeCounter = 0, ncclIbRelaxedOrderingEnabled = 0 \<rparr>,
       pr_merged = [\<lparr> md_vProps = \<lparr> ndevs = int n, devs = map int [0..<n] \<rparr>, md_speed = 0, md_railId = 0, md_planeId = 0, md_devName = [] \<rparr>], pr_log = \<lparr> ql_modified = [], ql_destroyed = [] \<rparr> \<rparr>,
     hc_st = \<lparr> st_in = inp, st_out = [], st_io = replicate 5 (Io_move 9), st_abort = [] \<rparr>, hc_dev = 0 \<rparr>"

definition demo_hs_base :: ncclIbNetCommBase where
  "demo_hs_base = zero_base\<lparr> reqs := [], qps := replicate 2 zero_qp \<rparr>"

definition demo_send_conn :: send_conn where
  "demo_send_conn = \<lparr> sn_comm = \<lparr> sc_base = demo_hs_base, sc_ctsFifo = [], sc_devs = replicate 2 \<lparr> scd_base = zero_devBase, scd_sge = zero_sge \<rparr>, sc_sendReqs = [], sc_sendReqsCnt = [],
       sc_remCmplsRecords = \<lparr> rcr_elems = [], rcr_addr = 0, rcr_rkeys = replicate 2 0 \<rparr>, sc_ar = 0, sc_remoteSpeedBuf = \<lparr> rsb_counter = 0, speedGbps = [] \<rparr>, sc_remoteSpeedCounter = 0 \<rparr>,
     sn_res = \<lparr> rsend_base = zero_resiliency, failedRequests = [], probingResults = [], remCmplRecordsInfo = [] \<rparr>, sn_sock = demo_socket,
     sn_mrs = replicate 2 \<lparr> sm_scratchpad = None, sm_ctsFifo = None, sm_cmplsRecords = None \<rparr>, sn_remoteSpeedMr = None \<rparr>"

definition demo_recv_conn :: recv_conn where
  "demo_recv_conn = \<lparr> rn_comm = \<lparr> rc_base = demo_hs_base, rc_devs = [\<lparr> rcd_base = zero_devBase, rcd_gpuFlush = \<lparr> gf_sge = zero_sge, gf_qp = 0 \<rparr>, rcd_sge = zero_sge, rcd_speedUpdateMr = zero_mr \<rparr>],
       rc_recvReqs = [], rc_remCtsFifo = \<lparr> rcf_elems = [], rcf_addr = 0, rcf_inline = False \<rparr>, rc_cmplsRecords = [], rc_gpuFlushHostMem = 0, rc_flushEnabled = 0, rc_flushQpsCreated = False,
       rc_prepostReceiveWorkRequests = False, rc_ibRecvWorkRequest = 0, rc_remSpeedBufAddr = 0, rc_speedUpdateBuf = \<lparr> rsb_counter = 0, speedGbps = [] \<rparr>, rc_lastSentSpeeds = [0], rc_lastSentCounter = 0,
       rc_postedSpeedUpdate = False \<rparr>,
     rn_res = zero_resiliency, rn_sock = demo_socket, rn_mrs = [\<lparr> rdm_ctsFifo = None, rdm_cmplsRecords = None, rdm_speedUpdate = None, rdm_flushQp = zero_qp, rdm_flushHost = None \<rparr>],
     rn_flushSl = 0, rn_flushTc = 0, rn_ctsRkeys = replicate 2 0, rn_readyBytes = encode 4 Zeroed, rn_posted = [] \<rparr>"

definition demo_connect :: "wire list \<Rightarrow> ((ncclResult \<times> send_conn option) \<times> send_conn hs_call) option" where
  "demo_connect inp = ncclIbConnectImpl demo_hs_params (demo_hs_env demo_send_conn 20) None [] 0 1 (- 1) (demo_hs_call 2 inp)"

definition demo_accept :: "wire list \<Rightarrow> ((ncclResult \<times> recv_conn option) \<times> recv_conn hs_call) option" where
  "demo_accept inp = ncclIbAcceptImpl demo_hs_params (demo_hs_env demo_recv_conn 40) 1 (demo_hs_call 1 inp)"

text \<open>The messages of the handshake of a sender with two devices and a receiver with one.\<close>

definition demo_request :: "wire list" where
  "demo_request = encode 1 (Dev_list \<lparr> ndevs = 2, devs = [0, 1] \<rparr> False)
     @ encode 1 (Metadata (zero_meta\<lparr> cm_qpInfo := (replicate NCCL_IB_MAX_QPS zero_info)[0 := zero_info\<lparr> qi_qpn := 30 \<rparr>, 1 := zero_info\<lparr> qi_qpn := 31, qi_devIndex := 1 \<rparr>], cm_ndevs := 2 \<rparr>))
     @ encode 4 (Ready_flag 1)"

definition demo_reply :: "wire list" where
  "demo_reply = encode 1 (Dev_list \<lparr> ndevs = 1, devs = [0] \<rparr> False)
     @ encode 1 (Metadata (zero_meta\<lparr> cm_qpInfo := (replicate NCCL_IB_MAX_QPS zero_info)[0 := zero_info\<lparr> qi_qpn := 50 \<rparr>, 1 := zero_info\<lparr> qi_qpn := 50 \<rparr>],
          cm_devs := (replicate NCCL_IB_MAX_DEVS_PER_NIC zero_devInfo)[0 := zero_devInfo\<lparr> di_currSpeed := 400 \<rparr>], cm_ndevs := 1 \<rparr>))"

definition demo_handed :: "wire list \<Rightarrow> ((ncclResult \<times> 'c option) \<times> 'c hs_call) option \<Rightarrow> bool" where
  "demo_handed out o' = (case o' of Some ((r, Some x), c) \<Rightarrow> r = ncclSuccess \<and> st_out (hc_st c) = out | _ \<Rightarrow> False)"

lemma demo_handedE:
  assumes "demo_handed out o'"
  obtains x c where "o' = Some ((ncclSuccess, Some x), c)" "st_out (hc_st c) = out"
  using assms that by (auto simp: demo_handed_def split: option.splits)

lemma demo_connects: "demo_handed demo_request (demo_connect demo_reply)"
  by code_simp

lemma demo_accepts: "demo_handed demo_reply (demo_accept demo_request)"
  by code_simp

theorem handshake_connects_witness:
  "\<exists>x y c' a'. demo_connect demo_reply = Some ((ncclSuccess, Some x), c') \<and> demo_accept demo_request = Some ((ncclSuccess, Some y), a') \<and> nqps (rc_base (rn_comm y)) = nqps (sc_base (sn_comm x))
     \<and> ready (rc_base (rn_comm y)) = 1"
proof -
  obtain x c' where c: "demo_connect demo_reply = Some ((ncclSuccess, Some x), c')" "st_out (hc_st c') = demo_request" by (rule demo_handedE [OF demo_connects])
  obtain y a' where a: "demo_accept demo_request = Some ((ncclSuccess, Some y), a')" "st_out (hc_st a') = demo_reply" by (rule demo_handedE [OF demo_accepts])
  have "connecting demo_hs_params 1 0 (st_out (hc_st a')) (demo_hs_call 2 demo_reply)" by (rule connecting.first) (simp_all add: demo_hs_call_def a(2))
  moreover have "accepting demo_hs_params 1 (st_out (hc_st c')) (demo_hs_call 1 demo_request)" by (rule accepting.first) (simp_all add: demo_hs_call_def c(2))
  ultimately show ?thesis
    using handshake_connects [OF _ c(1) [unfolded demo_connect_def] _ a(1) [unfolded demo_accept_def]] a c by (simp add: demo_hs_params_def)
qed

end
