(* ===== verification/Spec2Isabelle.thy ===== *)
theory Spec2Isabelle
  imports Tuner_Plugin Device_Utility Intru_Queue Mpsc_Queue NetIb_Send_Facts NetIb_Replay NetIb_Reg NetIb_Recovery_Run NetIb_Handshake_Run
begin

text \<open>
  A verification development for the MRC plugins of NCCL: the tuner plugin under \<open>tuner/\<close> and the InfiniBand transport under \<open>net/\<close>.

  \<^bold>\<open>The program.\<close> NCCL loads two plugins. The \<^emph>\<open>tuner\<close> (\<open>tuner/plugin.c\<close>) is asked, for each collective operation, which algorithm and protocol to use: it reads a rule
  file and environment variables at start-up, and on each call either applies the first matching rule or fills NCCL's cost table from an analytic cost model. The \<^emph>\<open>transport\<close>
  (\<open>net/transport/net_ib/\<close>) moves messages between two ranks. They first agree, over a socket, on their devices and queue pairs. A receiver publishes its buffers in a FIFO in the sender's memory (clear-to-send, CTS); the sender matches them, splits
  each message over the queue pairs of the merged devices by weights that follow the link speeds, and both sides poll for completions. When a device fails, traffic moves to the queue pairs of
  another device, a probe tells which pieces of a message arrived, the rest is replayed, and a thread tries to bring the port back. Both plugins use integer helpers and queues
  from NCCL's headers (\<open>net/include/bitops.h\<close>, \<open>utils.h\<close>, \<open>nccl_device/utility.h\<close>).

  \<^bold>\<open>Foundations.\<close>
  \<^item> \<open>C_Runtime\<close>: machine integers, result codes and \<open>NCCLCHECK\<close>, C strings and their parsing functions, and the collections of facts the proofs share.
  \<^item> \<open>C_Float\<close>: binary floating point as extended rationals rounded to a given precision, with infinities and NaN; it is what the cost model computes with.
  \<^item> \<open>Linked_List\<close>: chains of next pointers over an explicit store, which the queues and the memory pool are built on.

  \<^bold>\<open>Tuner\<close> (\<open>tuner/plugin.c\<close>, \<open>tuner/nccl/tuner.h\<close>).
  \<^item> \<open>Tuner_Params\<close>: environment parameters and the profiles of the cost model.
  \<^item> \<open>Tuner_Config\<close>: the rule file; loading it in two passes refines its meaning line by line, and a printed file reads back.
  \<^item> \<open>Tuner_Cost\<close>, \<open>Tuner_Table\<close>: the predicted times and the cost table; times are monotone in the message size through all roundings, and the table is given cell by cell.
  \<^item> \<open>Tuner_Plugin\<close>: \<open>pluginInit\<close>, \<open>pluginGetCollInfo\<close>, \<open>pluginFinalize\<close>; the invariant of the context, that a combination NCCL ruled out is never revived, and the one case, a
    communicator of 0 nodes, in which the cost model divides by zero.

  \<^bold>\<open>Helpers.\<close>
  \<^item> \<open>Bitops\<close>, \<open>Bitops_Facts\<close>, \<open>Device_Utility\<close>: division by reciprocals (an interface \<open>reciprocal_division\<close> interpreted at 32 and 64 bits), alignment, logarithms, wrapping
    pointers, an 8-bit float, hashing.
  \<^item> \<open>Intru_Queue\<close>: the intrusive queue and the memory pool of \<open>utils.h\<close>, on the store of next pointers. Through the interface \<open>op_refinement\<close> any sequence of queue operations
    refines the same operations on a list.
  \<^item> \<open>Mpsc_Queue\<close>: the multi-producer queue of \<open>utils.h\<close> as a step relation; every atomic access is a step, and invariants hold in all interleavings.

  \<^bold>\<open>Transport\<close> (\<open>net/transport/net_ib/\<close>).
  \<^item> \<open>NetIb_Types\<close>: the structures of \<open>common.h\<close>. \<open>NetIb_Common\<close>: the inline functions of \<open>common.h\<close> and \<open>common.cc\<close> (weights, speeds, choice of queue pairs, initialisation, events).
  \<^item> \<open>NetIb_Send\<close>, \<open>NetIb_Send_Facts\<close>: \<open>ncclIbIsend\<close> and \<open>ncclIbMultiSend\<close>; the pieces on the queue pairs partition each message.
  \<^item> \<open>NetIb_Recv\<close>: \<open>ncclIbIrecv\<close>, \<open>ncclIbPostFifo\<close>, \<open>ncclIbIflush\<close> and the speed updates.
  \<^item> \<open>NetIb_Test\<close>, \<open>NetIb_Test_Facts\<close>: \<open>ncclIbTest\<close>; an interface \<open>poll_invariant\<close> carries properties through the polling loop, and \<open>poll_total\<close>, interpreted for senders and for receivers, that
    it always returns and hides no error.
  \<^item> \<open>NetIb_Match\<close>: sender and receiver together.
  \<^item> \<open>NetIb_Reg\<close>: the cache of memory registrations of \<open>reg.cc\<close>, which refines the multiset of handles in use.
  \<^item> \<open>NetIb_Resiliency\<close>, \<open>NetIb_Resiliency_Facts\<close>, \<open>NetIb_Replay\<close>: \<open>p2p_resiliency.cc\<close>: fail-over, probing, replay.
  \<^item> \<open>NetIb_Qp\<close>: the life of a queue pair, from \<open>connect.cc\<close>.
  \<^item> \<open>NetIb_Recovery\<close>: \<open>p2p_resiliency_recovery.cc\<close>, both sides of the protocol that brings a port back and the turns of its thread. \<open>NetIb_Recovery_Facts\<close> carries the state of the
    queue pairs through its loops (interface \<open>qps_pass\<close>); \<open>NetIb_Recovery_Run\<close> shows what a successful recovery leaves behind, that it ends, and what the batch of alive messages does.
  \<^item> \<open>NetIb_Gid\<close>: the choice of GID, partition key and device in \<open>connect.cc\<close>; the comparison of address ranges is agreement on a prefix of bits.
  \<^item> \<open>NetIb_Connect\<close>, \<open>NetIb_Connect_Facts\<close>: creation and connection of the data, probing and recovery queue pairs; an interface \<open>indexed_step\<close> carries facts through the loops over them,
    and after the exchange of metadata both ends of every queue pair name each other.
  \<^item> \<open>Net_Socket\<close>, \<open>Net_Socket_State\<close>: \<open>net/misc/socket.cc\<close> and the socket functions of \<open>net/os/linux.cc\<close>: transfers in pieces of any size, and the state machine of a socket with the
    announcement of the peer. A loop that waits for the system is a partial function whose value is \<open>None\<close> when the system has no answer left.
  \<^item> \<open>NetIb_Handshake\<close>: \<open>ncclIbConnect\<close> and \<open>ncclIbAccept\<close>, each label of the C functions a part, with the set-up of the devices and the clean-up. \<open>NetIb_Handshake_Facts\<close> has rules for parts and the
    interface \<open>staged_run\<close>, interpreted there for the connector and in \<open>NetIb_Handshake_Run\<close> for the acceptor; the latter composes the two into handshakes of many calls.

  \<^bold>\<open>Conventions.\<close> A structure is a record and a C integer whose overflow matters is a word. A function that can fail returns its result code beside the state it leaves
  (\<open>'s outcome\<close>); \<open>None\<close> stands for what C leaves undefined: a null dereference, an index outside an array, a division by zero. A theorem that says a call returns therefore also says it stays
  defined. The verbs, MRC and CUDA libraries, the clock, the environment and the contents of completion queues are arguments. Loops are structural recursion or have a termination proof; no
  definition uses fuel. A polling loop is a function of the completions that wait when it starts.

  \<^bold>\<open>Not modelled\<close>, with the reason in each case: listening and closing of connections, device discovery, the wrappers that load libraries at run time, GPU memory probes, logging, profiling and tracing,
  headers of NCCL copied for compilation, the vendored NVTX library, and the test programs. Locks have no counterpart where a function runs under one lock from start to end.
\<close>

end
